(* ===== verification/Prelude.thy ===== *)
theory Prelude
  imports Complex_Main "HOL-Library.Word" "HOL-Library.Monad_Syntax"
begin

unbundle bit_operations_syntax

section \<open>Shared types, failure, heaps and bytes\<close>

text \<open>
  What every other theory of the development shares.
  \<^item> The machine integers of the C code, at their width: \<open>uint8_t\<close> is \<open>u8\<close>, and so on.
    A C \<open>int\<close> is kept as its 32-bit pattern \<open>c_int\<close>; \<open>sint\<close> reads its value.
  \<^item> Failure: an operation that can dereference NULL, run past an array or fail an
    \<open>assert\<close> returns an option, and \<open>None\<close> is that failure. The programs are composed
    with the option monad (\<open>do\<close> notation); \<open>wp m Q\<close> says that \<open>m\<close> does not fail and
    that its result satisfies \<open>Q\<close>, with simplification rules that walk through a program.
  \<^item> A heap of objects of one type, addressed by \<open>nat\<close> pointers, 0 being NULL.
  \<^item> Bytes of a word and words made of bytes, on a little-endian host.
\<close>

type_synonym u8 = "8 word"
type_synonym u16 = "16 word"
type_synonym u32 = "32 word"
type_synonym u64 = "64 word"
type_synonym c_int = "32 word"

named_theorems wp_intro "rules that compose weakest preconditions of operations"
named_theorems key_simps "fields an operation does not change"

subsection \<open>Failure and weakest preconditions\<close>

definition wp :: "'a option \<Rightarrow> ('a \<Rightarrow> bool) \<Rightarrow> bool" where
  "wp m Q \<longleftrightarrow> (\<exists>x. m = Some x \<and> Q x)"

lemma wp_Some [simp]: "wp (Some x) Q \<longleftrightarrow> Q x"
  by (simp add: wp_def)

lemma wp_None [simp]: "\<not> wp None Q"
  by (simp add: wp_def)

lemma wp_bind [simp]: "wp (m \<bind> f) Q \<longleftrightarrow> wp m (\<lambda>x. wp (f x) Q)"
  by (cases m) simp_all

lemma wp_map [simp]: "wp (map_option f m) Q \<longleftrightarrow> wp m (\<lambda>x. Q (f x))"
  by (cases m) simp_all

lemma wp_mono: "wp m P \<Longrightarrow> (\<And>x. m = Some x \<Longrightarrow> P x \<Longrightarrow> Q x) \<Longrightarrow> wp m Q"
  by (auto simp: wp_def)

lemma wp_conj: "wp m P \<Longrightarrow> wp m Q \<Longrightarrow> wp m (\<lambda>x. P x \<and> Q x)"
  by (auto simp: wp_def)

lemma wp_Some_iff: "m = Some x \<Longrightarrow> wp m Q \<longleftrightarrow> Q x"
  by simp

lemma wp_result: "wp m Q \<Longrightarrow> m = Some x \<Longrightarrow> Q x"
  by simp

lemma wp_not_None: "wp m Q \<Longrightarrow> m \<noteq> None"
  by (auto simp: wp_def)

text \<open>An \<open>assert\<close> of the C code.\<close>

definition c_assert :: "bool \<Rightarrow> unit option" where
  "c_assert b = (if b then Some () else None)"

lemma wp_assert [simp]: "wp (c_assert b) Q \<longleftrightarrow> b \<and> Q ()"
  by (simp add: c_assert_def)

text \<open>A loop that runs the same operation on every element of a list, left to right.\<close>

fun each :: "('a \<Rightarrow> 's \<Rightarrow> 's option) \<Rightarrow> 'a list \<Rightarrow> 's \<Rightarrow> 's option" where
  "each f [] s = Some s"
| "each f (x # xs) s = f x s \<bind> each f xs"

lemma each_append: "each f (xs @ ys) s = each f xs s \<bind> each f ys"
  by (induction xs arbitrary: s) (auto split: bind_splits)

text \<open>The loop rule: an invariant indexed by the elements still to come.\<close>

lemma wp_each:
  assumes "I xs s"
    and "\<And>x rest s. set (x # rest) \<subseteq> set xs \<Longrightarrow> I (x # rest) s \<Longrightarrow> wp (f x s) (I rest)"
  shows "wp (each f xs s) (I [])"
  using assms
proof (induction xs arbitrary: s)
  case Nil
  then show ?case by simp
next
  case (Cons x xs)
  have "wp (f x s) (I xs)"
    by (rule Cons.prems(2)) (use Cons.prems(1) in simp_all)
  moreover have "wp (each f xs s') (I [])" if "I xs s'" for s'
    by (rule Cons.IH) (use that Cons.prems(2) in auto)
  ultimately show ?case by (auto elim: wp_mono)
qed

lemma wp_each_inv:
  assumes "I s" and "\<And>x s. x \<in> set xs \<Longrightarrow> I s \<Longrightarrow> wp (f x s) I"
  shows "wp (each f xs s) I"
  using wp_each [of "\<lambda>_. I" xs s f] assms by auto

subsection \<open>Heaps\<close>

text \<open>
  The objects of one type that the code allocates: \<open>hp_map\<close> gives the object at a
  pointer, \<open>hp_next\<close> is the next pointer to hand out. Pointer 0 is NULL and is never
  handed out; reading or writing through a pointer that holds no object fails.
\<close>

record 'o heap =
  hp_map :: "nat \<rightharpoonup> 'o"
  hp_next :: nat

definition heap_empty :: "'o heap" where
  "heap_empty = \<lparr>hp_map = Map.empty, hp_next = 1\<rparr>"

definition heap_alloc :: "'o \<Rightarrow> 'o heap \<Rightarrow> nat \<times> 'o heap" where
  "heap_alloc x h = (hp_next h, \<lparr>hp_map = (hp_map h)(hp_next h \<mapsto> x), hp_next = Suc (hp_next h)\<rparr>)"

definition heap_put :: "nat \<Rightarrow> 'o \<Rightarrow> 'o heap \<Rightarrow> 'o heap" where
  "heap_put p x h = h\<lparr>hp_map := (hp_map h)(p \<mapsto> x)\<rparr>"

definition heap_free :: "nat \<Rightarrow> 'o heap \<Rightarrow> 'o heap" where
  "heap_free p h = h\<lparr>hp_map := (hp_map h)(p := None)\<rparr>"

definition heap_ok :: "'o heap \<Rightarrow> bool" where
  "heap_ok h \<longleftrightarrow> 0 < hp_next h \<and> (\<forall>p. hp_map h p \<noteq> None \<longrightarrow> 0 < p \<and> p < hp_next h)"

lemma heap_ok_empty [simp]: "heap_ok heap_empty"
  by (simp add: heap_ok_def heap_empty_def)

lemma heap_ok_alloc: "heap_ok h \<Longrightarrow> heap_ok (snd (heap_alloc x h))"
  by (auto simp: heap_ok_def heap_alloc_def less_Suc_eq)

lemma heap_ok_put: "heap_ok h \<Longrightarrow> hp_map h p \<noteq> None \<Longrightarrow> heap_ok (heap_put p x h)"
  by (auto simp: heap_ok_def heap_put_def)

lemma heap_ok_free: "heap_ok h \<Longrightarrow> heap_ok (heap_free p h)"
  by (auto simp: heap_ok_def heap_free_def)

lemma heap_ok_fresh: "heap_ok h \<Longrightarrow> hp_map h (hp_next h) = None"
  by (auto simp: heap_ok_def)

lemma heap_map_simps [simp]:
  "hp_map (heap_put p x h) = (hp_map h)(p \<mapsto> x)"
  "hp_next (heap_put p x h) = hp_next h"
  "hp_map (snd (heap_alloc x h)) = (hp_map h)(hp_next h \<mapsto> x)"
  "fst (heap_alloc x h) = hp_next h"
  "hp_next (snd (heap_alloc x h)) = Suc (hp_next h)"
  "hp_map (heap_free p h) = (hp_map h)(p := None)"
  "hp_next (heap_free p h) = hp_next h"
  "hp_map heap_empty = Map.empty"
  by (simp_all add: heap_put_def heap_alloc_def heap_free_def heap_empty_def)

subsection \<open>Bytes of words, little-endian\<close>

definition byte_of :: "'a::len word \<Rightarrow> nat \<Rightarrow> u8" where
  "byte_of w i = ucast (drop_bit (8 * i) w)"

definition bytes_of :: "nat \<Rightarrow> 'a::len word \<Rightarrow> u8 list" where
  "bytes_of n w = map (byte_of w) [0..<n]"

fun word_of_bytes :: "u8 list \<Rightarrow> 'a::len word" where
  "word_of_bytes [] = 0"
| "word_of_bytes (b # bs) = ucast b OR push_bit 8 (word_of_bytes bs)"

lemma length_bytes_of [simp]: "length (bytes_of n w) = n"
  by (simp add: bytes_of_def)

lemma nth_bytes_of [simp]: "i < n \<Longrightarrow> bytes_of n w ! i = byte_of w i"
  by (simp add: bytes_of_def)

lemma bit_byte_of: "bit (byte_of w i) t \<longleftrightarrow> t < 8 \<and> bit w (8 * i + t)"
  by (auto simp: byte_of_def bit_simps)

lemma bit_word_of_bytes:
  "bit (word_of_bytes bs :: 'a::len word) n \<longleftrightarrow>
     n < LENGTH('a) \<and> n div 8 < length bs \<and> bit (bs ! (n div 8)) (n mod 8)"
proof (induction bs arbitrary: n)
  case Nil
  then show ?case by simp
next
  case (Cons b bs)
  show ?case
  proof (cases "n < 8")
    case True
    then show ?thesis by (auto simp: bit_simps)
  next
    case False
    then have "n div 8 = Suc ((n - 8) div 8)" and "n mod 8 = (n - 8) mod 8"
      by (auto simp: div_if mod_if)
    moreover have "\<not> bit (ucast b :: 'a word) n"
      using False by (auto simp: bit_simps dest: bit_imp_le_length)
    ultimately show ?thesis
      using False Cons.IH [of "n - 8"] by (auto simp: bit_simps dest: bit_imp_le_length)
  qed
qed

text \<open>Byte swaps: \<open>be32toh\<close>, \<open>htobe64\<close> and their inverses on a little-endian host.\<close>

definition bswap32 :: "u32 \<Rightarrow> u32" where
  "bswap32 w = word_of_bytes (rev (bytes_of 4 w))"

definition bswap64 :: "u64 \<Rightarrow> u64" where
  "bswap64 w = word_of_bytes (rev (bytes_of 8 w))"

lemma bit_bswap32: "bit (bswap32 w) n \<longleftrightarrow> n < 32 \<and> bit w (8 * (3 - n div 8) + n mod 8)"
  by (auto simp: bswap32_def bit_word_of_bytes rev_nth bit_byte_of)

lemma bit_bswap64: "bit (bswap64 w) n \<longleftrightarrow> n < 64 \<and> bit w (8 * (7 - n div 8) + n mod 8)"
  by (auto simp: bswap64_def bit_word_of_bytes rev_nth bit_byte_of)

lemma bswap32_bswap32 [simp]: "bswap32 (bswap32 w) = w"
  by (rule bit_word_eqI) (auto simp: bit_bswap32)

lemma bswap64_bswap64 [simp]: "bswap64 (bswap64 w) = w"
  by (rule bit_word_eqI) (auto simp: bit_bswap64)

lemma word_of_bytes_bytes_of:
  "LENGTH('a::len) \<le> 8 * n \<Longrightarrow> word_of_bytes (bytes_of n (w :: 'a word)) = w"
  by (rule bit_word_eqI) (auto simp: bit_word_of_bytes bit_byte_of)

lemma byte_of_word_of_bytes:
  assumes "i < length bs" and "8 * length bs \<le> LENGTH('a::len)"
  shows "byte_of (word_of_bytes bs :: 'a word) i = bs ! i"
proof (rule bit_word_eqI)
  fix t assume "t < LENGTH(8)"
  then have "t < 8" by simp
  then show "bit (byte_of (word_of_bytes bs :: 'a word) i) t = bit (bs ! i) t"
    using assms by (auto simp: bit_word_of_bytes bit_byte_of)
qed

text \<open>A difference truncated to 32 bits is zero exactly when the truncations agree.\<close>

lemma mod_diff_mod_cancel:
  fixes x y :: int
  assumes "m dvd n"
  shows "(x mod n - y mod n) mod m = (x - y) mod m"
  using assms by (metis mod_diff_eq mod_mod_cancel)

lemma ucast_diff_eq_0:
  "(ucast (x - y :: u64) :: u32) = 0 \<longleftrightarrow> (ucast x :: u32) = ucast y"
proof -
  have "(ucast (x - y) :: u32) = ucast x - ucast y"
    by transfer (simp add: take_bit_eq_mod mod_diff_mod_cancel mod_mod_cancel)
  then show ?thesis by simp
qed

end
