(* ===== verification/HashContainer.thy ===== *)
theory HashContainer
  imports Prelude
begin

section \<open>Hash containers\<close>

text \<open>
  Models \<open>src/src/data_info/hash_container.h\<close> and \<open>hash_container.c\<close>: containers that find an
  element by its key and iterate in insertion order, built on the uthash macros; \<open>UthashRefine\<close> shows that they behave as these lists do.
  \<^item> A container is the list of its elements in insertion order. An element keeps an
    identity \<open>el_id\<close>, the address of its \<open>hash_container_el_t\<close>; an iterator holds identities
    (\<open>None\<close> is NULL), so that one that outlives its element is seen. \<open>hc_make\<close> is what
    \<open>calloc\<close> and \<open>data_constructor\<close> leave in the data of an element created without any.
  \<^item> \<open>HASH_FIND\<close> is a search for the key from the newest element. Only a container in which
    \<open>HAM_NoCheck\<close> has put a key twice can tell the order of that search; the theories that
    use containers prove that theirs never do.
  \<^item> The spinlocks are left out here (\<open>ContainerThreads\<close> has them), and a \<open>bool *\<close> result is always returned.
  The lemmas give the container as a finite map with an insertion order (\<open>hash_map\<close>,
  \<open>hash_items\<close>), and show that the iterator loop of the clients visits the items in order.
\<close>

record ('k, 'v) hash_container_el =
  el_id :: nat
  el_key :: 'k
  el_data :: 'v

record ('k, 'v) hash_container =
  hc_els :: "('k, 'v) hash_container_el list"
  hc_next_id :: nat
  hc_make :: "'k \<Rightarrow> 'v"

record hash_iterator =
  it_current :: "nat option"
  it_next :: "nat option"
  it_prev :: "nat option"

datatype hash_add_mode = HAM_NoCheck | HAM_FailIfExists | HAM_OverwriteIfExists

datatype hash_value_mode = HVM_FailIfNonExistant | HVM_CreateIfNonExistant

subsection \<open>Elements\<close>

definition hash_create :: "('k \<Rightarrow> 'v) \<Rightarrow> ('k, 'v) hash_container" where
  "hash_create ctor = \<lparr>hc_els = [], hc_next_id = 0, hc_make = ctor\<rparr>"

definition hash_find_el :: "('k, 'v) hash_container \<Rightarrow> 'k \<Rightarrow> ('k, 'v) hash_container_el option" where
  "hash_find_el c key = find (\<lambda>e. el_key e = key) (rev (hc_els c))"

definition hash_el_at :: "('k, 'v) hash_container \<Rightarrow> nat \<Rightarrow> ('k, 'v) hash_container_el option" where
  "hash_el_at c i = find (\<lambda>e. el_id e = i) (hc_els c)"

text \<open>\<open>hh.next\<close> and \<open>hh.prev\<close> of an element; \<open>None\<close> when the element has been freed.\<close>

fun id_after :: "nat list \<Rightarrow> nat \<Rightarrow> nat option option" where
  "id_after [] i = None"
| "id_after (j # js) i = (if j = i then Some (case js of [] \<Rightarrow> None | k # _ \<Rightarrow> Some k) else id_after js i)"

definition hh_next :: "('k, 'v) hash_container \<Rightarrow> nat \<Rightarrow> nat option option" where
  "hh_next c i = id_after (map el_id (hc_els c)) i"

definition hh_prev :: "('k, 'v) hash_container \<Rightarrow> nat \<Rightarrow> nat option option" where
  "hh_prev c i = id_after (rev (map el_id (hc_els c))) i"

text \<open>The iterator standing on an element of the container.\<close>

definition it_at :: "('k, 'v) hash_container \<Rightarrow> nat \<Rightarrow> hash_iterator" where
  "it_at c i = \<lparr>it_current = Some i,
                it_next = (case hh_next c i of Some n \<Rightarrow> n | None \<Rightarrow> None),
                it_prev = (case hh_prev c i of Some p \<Rightarrow> p | None \<Rightarrow> None)\<rparr>"

subsection \<open>Iterators\<close>

definition hash_end :: "('k, 'v) hash_container \<Rightarrow> hash_iterator" where
  "hash_end c = \<lparr>it_current = None, it_next = None,
                 it_prev = (if hc_els c = [] then None else Some (el_id (last (hc_els c))))\<rparr>"

definition hash_begin :: "('k, 'v) hash_container \<Rightarrow> hash_iterator" where
  "hash_begin c = (case hc_els c of [] \<Rightarrow> hash_end c | e # _ \<Rightarrow> it_at c (el_id e))"

text \<open>\<open>hash_begin(NULL, NULL)\<close>: an iterator that stands on nothing.\<close>

definition hash_it_null :: hash_iterator where
  "hash_it_null = \<lparr>it_current = None, it_next = None, it_prev = None\<rparr>"

definition hash_it_inc :: "('k, 'v) hash_container \<Rightarrow> hash_iterator \<Rightarrow> hash_iterator option" where
  "hash_it_inc c it =
     (case it_next it of
        None \<Rightarrow> Some \<lparr>it_current = None, it_next = None, it_prev = it_current it\<rparr>
      | Some i \<Rightarrow> map_option (\<lambda>n. \<lparr>it_current = Some i, it_next = n, it_prev = it_current it\<rparr>) (hh_next c i))"

definition hash_it_dec :: "('k, 'v) hash_container \<Rightarrow> hash_iterator \<Rightarrow> hash_iterator option" where
  "hash_it_dec c it =
     (case it_prev it of
        None \<Rightarrow> Some \<lparr>it_current = None, it_next = it_current it, it_prev = None\<rparr>
      | Some i \<Rightarrow> map_option (\<lambda>p. \<lparr>it_current = Some i, it_next = it_current it, it_prev = p\<rparr>) (hh_prev c i))"

definition hash_it_equ :: "hash_iterator \<Rightarrow> hash_iterator \<Rightarrow> bool" where
  "hash_it_equ it other_it \<longleftrightarrow> it_current it = it_current other_it"

text \<open>The outer option is the access to a freed element, the inner one the NULL returned.\<close>

definition hash_it_value :: "('k, 'v) hash_container \<Rightarrow> hash_iterator \<Rightarrow> 'v option option" where
  "hash_it_value c it =
     (case it_current it of None \<Rightarrow> Some None | Some i \<Rightarrow> map_option (Some \<circ> el_data) (hash_el_at c i))"

definition hash_it_key :: "('k, 'v) hash_container \<Rightarrow> hash_iterator \<Rightarrow> 'k option option" where
  "hash_it_key c it =
     (case it_current it of None \<Rightarrow> Some None | Some i \<Rightarrow> map_option (Some \<circ> el_key) (hash_el_at c i))"

text \<open>\<open>HASH_DEL\<close> unlinks one element.\<close>

definition hash_unlink :: "nat \<Rightarrow> ('k, 'v) hash_container \<Rightarrow> ('k, 'v) hash_container" where
  "hash_unlink i c = c\<lparr>hc_els := filter (\<lambda>e. el_id e \<noteq> i) (hc_els c)\<rparr>"

text \<open>
  The two removals differ in what they free: with \<open>hash_it_remove_ref\<close> the data lives on.
  Both return the iterator on the next element.
\<close>

definition hash_it_remove_ref ::
    "('k, 'v) hash_container \<Rightarrow> hash_iterator \<Rightarrow> (hash_iterator \<times> ('k, 'v) hash_container) option" where
  "hash_it_remove_ref c it =
     do { next_it \<leftarrow> hash_it_inc c it;
          i \<leftarrow> it_current it;
          hash_el_at c i;
          Some (next_it, hash_unlink i c) }"

definition hash_it_delete_value ::
    "('k, 'v) hash_container \<Rightarrow> hash_iterator \<Rightarrow> (hash_iterator \<times> ('k, 'v) hash_container) option" where
  "hash_it_delete_value c it =
     do { next_it \<leftarrow> hash_it_inc c it;
          i \<leftarrow> it_current it;
          hash_el_at c i;
          Some (next_it, hash_unlink i c) }"

subsection \<open>Operations by key\<close>

definition hash_find :: "('k, 'v) hash_container \<Rightarrow> 'k \<Rightarrow> bool \<times> hash_iterator" where
  "hash_find c key =
     (case hash_find_el c key of
        Some element \<Rightarrow> (True, it_at c (el_id element))
      | None \<Rightarrow> (False, hash_end c))"

definition hash_append :: "'k \<Rightarrow> 'v \<Rightarrow> ('k, 'v) hash_container \<Rightarrow> ('k, 'v) hash_container" where
  "hash_append key data c =
     c\<lparr>hc_els := hc_els c @ [\<lparr>el_id = hc_next_id c, el_key = key, el_data = data\<rparr>],
       hc_next_id := Suc (hc_next_id c)\<rparr>"

definition hash_set_data :: "nat \<Rightarrow> 'v \<Rightarrow> ('k, 'v) hash_container \<Rightarrow> ('k, 'v) hash_container" where
  "hash_set_data i data c =
     c\<lparr>hc_els := map (\<lambda>e. if el_id e = i then e\<lparr>el_data := data\<rparr> else e) (hc_els c)\<rparr>"

text \<open>The result: what is returned, \<open>was_existing\<close>, the iterator and the container.\<close>

definition hash_add_ref ::
    "('k, 'v) hash_container \<Rightarrow> 'k \<Rightarrow> 'v \<Rightarrow> hash_add_mode
      \<Rightarrow> bool \<times> bool \<times> hash_iterator \<times> ('k, 'v) hash_container" where
  "hash_add_ref c key data mode =
     (let element = (if mode \<noteq> HAM_NoCheck then hash_find_el c key else None) in
      case element of
        Some e \<Rightarrow>
          if mode = HAM_FailIfExists then (False, True, it_at c (el_id e), c)
          else let c' = hash_set_data (el_id e) data c in (True, True, it_at c' (el_id e), c')
      | None \<Rightarrow>
          let c' = hash_append key data c in (True, False, it_at c' (hc_next_id c), c'))"

definition hash_add ::
    "('k, 'v) hash_container \<Rightarrow> 'k \<Rightarrow> 'v option \<Rightarrow> hash_add_mode
      \<Rightarrow> bool \<times> bool \<times> hash_iterator \<times> ('k, 'v) hash_container" where
  "hash_add c key data mode =
     (let data_content = (case data of Some d \<Rightarrow> d | None \<Rightarrow> hc_make c key)
      in hash_add_ref c key data_content mode)"

text \<open>The result: the data returned, \<open>was_created\<close> and the container.\<close>

definition hash_value ::
    "('k, 'v) hash_container \<Rightarrow> 'k \<Rightarrow> hash_value_mode
      \<Rightarrow> ('v option \<times> bool \<times> ('k, 'v) hash_container) option" where
  "hash_value c key mode =
     (let (found, iterator) = hash_find c key in
      if \<not> found \<and> mode = HVM_CreateIfNonExistant then
        let (added, _, iterator', c') = hash_add c key None HAM_NoCheck in
        if added then do { d \<leftarrow> hash_it_value c' iterator'; Some (d, True, c') }
        else Some (None, False, c')
      else do { d \<leftarrow> hash_it_value c iterator; Some (d, False, c) })"

definition hash_remove_ref :: "('k, 'v) hash_container \<Rightarrow> 'k \<Rightarrow> ('v option \<times> ('k, 'v) hash_container) option" where
  "hash_remove_ref c key =
     (let (found, iterator) = hash_find c key in
      if found then do { (_, c') \<leftarrow> hash_it_remove_ref c iterator; Some (None, c') }
      else Some (None, c))"

definition hash_delete :: "('k, 'v) hash_container \<Rightarrow> 'k \<Rightarrow> (bool \<times> ('k, 'v) hash_container) option" where
  "hash_delete c key =
     (let (found, iterator) = hash_find c key in
      if found then do { (_, c') \<leftarrow> hash_it_delete_value c iterator; Some (True, c') }
      else Some (False, c))"

definition hash_clear :: "('k, 'v) hash_container \<Rightarrow> ('k, 'v) hash_container" where
  "hash_clear c = fold (\<lambda>e c. hash_unlink (el_id e) c) (hc_els c) c"

definition hash_size :: "('k, 'v) hash_container \<Rightarrow> nat" where
  "hash_size c = length (hc_els c)"

text \<open>The loop of \<open>hash_dup\<close>, from the iterator's element on; the fuel bounds its length.\<close>

fun hash_dup_loop ::
    "nat \<Rightarrow> ('k, 'v) hash_container \<Rightarrow> hash_iterator \<Rightarrow> ('k, 'v) hash_container \<Rightarrow> ('k, 'v) hash_container option" where
  "hash_dup_loop 0 c it new_hash = None"
| "hash_dup_loop (Suc fuel) c it new_hash =
     (if hash_it_equ it (hash_end c) then Some new_hash
      else do { i \<leftarrow> it_current it;
                e \<leftarrow> hash_el_at c i;
                let (_, _, _, new_hash') = hash_add new_hash (el_key e) (Some (el_data e)) HAM_NoCheck;
                it' \<leftarrow> hash_it_inc c it;
                hash_dup_loop fuel c it' new_hash' })"

definition hash_dup :: "('k, 'v) hash_container \<Rightarrow> ('k, 'v) hash_container option" where
  "hash_dup c = hash_dup_loop (Suc (hash_size c)) c (hash_begin c) (c\<lparr>hc_els := []\<rparr>)"

subsection \<open>The container as a map\<close>

definition hash_items :: "('k, 'v) hash_container \<Rightarrow> ('k \<times> 'v) list" where
  "hash_items c = map (\<lambda>e. (el_key e, el_data e)) (hc_els c)"

definition hash_map :: "('k, 'v) hash_container \<Rightarrow> 'k \<rightharpoonup> 'v" where
  "hash_map c = map_of (hash_items c)"

definition hash_ok :: "('k, 'v) hash_container \<Rightarrow> bool" where
  "hash_ok c \<longleftrightarrow> distinct (map el_key (hc_els c)) \<and> distinct (map el_id (hc_els c))
     \<and> (\<forall>e\<in>set (hc_els c). el_id e < hc_next_id c)"

lemma hash_okD:
  "hash_ok c \<Longrightarrow> distinct (map el_key (hc_els c))"
  "hash_ok c \<Longrightarrow> distinct (map el_id (hc_els c))"
  "hash_ok c \<Longrightarrow> e \<in> set (hc_els c) \<Longrightarrow> el_id e < hc_next_id c"
  by (simp_all add: hash_ok_def)

lemma hash_ok_create [simp]: "hash_ok (hash_create ctor)"
  by (simp add: hash_ok_def hash_create_def)

lemma hash_items_create [simp]: "hash_items (hash_create ctor) = []"
  by (simp add: hash_items_def hash_create_def)

lemma keys_items: "map fst (hash_items c) = map el_key (hc_els c)"
  by (simp add: hash_items_def)

lemma hash_ok_items: "hash_ok c \<Longrightarrow> distinct (map fst (hash_items c))"
  by (simp add: keys_items hash_okD)

lemma hash_map_items: "hash_ok c \<Longrightarrow> (k, v) \<in> set (hash_items c) \<longleftrightarrow> hash_map c k = Some v"
  by (simp add: hash_map_def hash_ok_items)

lemma dom_hash_map: "dom (hash_map c) = fst ` set (hash_items c)"
  by (simp add: hash_map_def dom_map_of_conv_image_fst)

lemma find_distinct: "distinct (map f xs) \<Longrightarrow> x \<in> set xs \<Longrightarrow> find (\<lambda>y. f y = f x) xs = Some x"
  by (induction xs) (auto simp: image_iff)

lemma find_SomeD: "find P xs = Some x \<Longrightarrow> x \<in> set xs \<and> P x"
  by (induction xs) (auto split: if_splits)

lemma find_rev_distinct:
  assumes "distinct (map f xs)"
  shows "find (\<lambda>y. f y = k) (rev xs) = find (\<lambda>y. f y = k) xs"
proof (cases "find (\<lambda>y. f y = k) xs")
  case None
  then have "find (\<lambda>y. f y = k) (rev xs) = None" by (simp add: find_None_iff)
  with None show ?thesis by simp
next
  case (Some x)
  then have x: "x \<in> set xs" "f x = k" by (auto dest: find_SomeD)
  then show ?thesis
    using Some find_distinct [of f "rev xs" x] assms by (simp add: rev_map [symmetric])
qed

lemma hash_find_el_Some: "hash_find_el c k = Some e \<Longrightarrow> e \<in> set (hc_els c) \<and> el_key e = k"
  unfolding hash_find_el_def by (auto dest: find_SomeD)

lemma map_of_find: "map_of (map (\<lambda>e. (el_key e, el_data e)) es) k = map_option el_data (find (\<lambda>e. el_key e = k) es)"
  by (induction es) auto

lemma hash_map_find: "hash_ok c \<Longrightarrow> hash_map c k = map_option el_data (hash_find_el c k)"
  by (simp add: hash_map_def hash_items_def hash_find_el_def map_of_find find_rev_distinct hash_okD)

lemma hash_find_el_None: "hash_ok c \<Longrightarrow> hash_find_el c k = None \<longleftrightarrow> hash_map c k = None"
  by (simp add: hash_map_find)

lemma hash_el_at: "hash_ok c \<Longrightarrow> e \<in> set (hc_els c) \<Longrightarrow> hash_el_at c (el_id e) = Some e"
  by (simp add: hash_el_at_def find_distinct hash_okD)

subsection \<open>What each operation does to the map\<close>

lemma hash_map_None: "hash_map c k = None \<longleftrightarrow> k \<notin> el_key ` set (hc_els c)"
  by (force simp: hash_map_def hash_items_def map_of_eq_None_iff)

lemma hash_append_ok: "hash_ok c \<Longrightarrow> hash_map c k = None \<Longrightarrow> hash_ok (hash_append k v c)"
  by (auto simp: hash_ok_def hash_append_def hash_map_None less_Suc_eq)

lemma hash_append_items [simp]: "hash_items (hash_append k v c) = hash_items c @ [(k, v)]"
  by (simp add: hash_items_def hash_append_def)

lemma hash_append_map: "hash_map c k = None \<Longrightarrow> hash_map (hash_append k v c) = (hash_map c)(k \<mapsto> v)"
  by (auto simp: hash_map_def fun_eq_iff map_add_def split: option.split)

lemma hash_it_value_at: "hash_ok c \<Longrightarrow> e \<in> set (hc_els c) \<Longrightarrow> hash_it_value c (it_at c (el_id e)) = Some (Some (el_data e))"
  by (simp add: hash_it_value_def it_at_def hash_el_at)

lemma hash_value_find:
  assumes "hash_ok c"
  shows "hash_value c k HVM_FailIfNonExistant = Some (hash_map c k, False, c)"
proof (cases "hash_find_el c k")
  case None
  then have "hash_find c k = (False, hash_end c)" by (simp add: hash_find_def)
  moreover have "hash_it_value c (hash_end c) = Some None" by (simp add: hash_it_value_def hash_end_def)
  ultimately show ?thesis
    using None hash_map_find [OF assms, of k] by (simp only: hash_value_def) simp
next
  case (Some e)
  then have "hash_find c k = (True, it_at c (el_id e))" by (simp add: hash_find_def)
  moreover have "hash_it_value c (it_at c (el_id e)) = Some (Some (el_data e))"
    using hash_it_value_at [OF assms conjunct1 [OF hash_find_el_Some [OF Some]]] .
  ultimately show ?thesis
    using Some hash_map_find [OF assms, of k] by (simp only: hash_value_def) simp
qed

lemma hash_add_nocheck:
  "hash_add c k (Some v) HAM_NoCheck = (True, False, it_at (hash_append k v c) (hc_next_id c), hash_append k v c)"
  by (simp add: hash_add_def hash_add_ref_def Let_def)

lemma hash_value_create:
  assumes "hash_ok c" "hash_map c k = None"
  shows "hash_value c k HVM_CreateIfNonExistant = Some (Some (hc_make c k), True, hash_append k (hc_make c k) c)"
proof -
  let ?e = "\<lparr>el_id = hc_next_id c, el_key = k, el_data = hc_make c k\<rparr>"
  let ?c = "hash_append k (hc_make c k) c"
  have "?e \<in> set (hc_els ?c)" by (simp add: hash_append_def)
  from hash_it_value_at [OF hash_append_ok [OF assms] this]
  have v: "hash_it_value ?c (it_at ?c (hc_next_id c)) = Some (Some (hc_make c k))" by simp
  have "hash_add c k None HAM_NoCheck = (True, False, it_at ?c (hc_next_id c), ?c)"
    by (simp add: hash_add_def hash_add_ref_def Let_def)
  moreover have "hash_find_el c k = None" using assms by (simp add: hash_find_el_None)
  ultimately show ?thesis
    using v by (simp only: hash_value_def hash_find_def) simp
qed

lemma hash_set_data_ok: "hash_ok c \<Longrightarrow> hash_ok (hash_set_data i v c)"
proof -
  have "map el_key (hc_els (hash_set_data i v c)) = map el_key (hc_els c)"
    and "map el_id (hc_els (hash_set_data i v c)) = map el_id (hc_els c)"
    and "hc_next_id (hash_set_data i v c) = hc_next_id c"
    by (simp_all add: hash_set_data_def)
  moreover have "hash_ok c' \<longleftrightarrow> distinct (map el_key (hc_els c')) \<and> distinct (map el_id (hc_els c'))
     \<and> (\<forall>j\<in>set (map el_id (hc_els c')). j < hc_next_id c')" for c' :: "('a, 'b) hash_container"
    by (simp add: hash_ok_def)
  ultimately show "hash_ok c \<Longrightarrow> ?thesis" by (simp del: set_map)
qed

lemma hash_set_data_map:
  assumes "hash_ok c" "e \<in> set (hc_els c)"
  shows "hash_map (hash_set_data (el_id e) v c) = (hash_map c)(el_key e \<mapsto> v)"
proof -
  have same: "el_id x = el_id e \<longleftrightarrow> el_key x = el_key e" if "x \<in> set (hc_els c)" for x
    using assms that hash_okD(1,2) [OF assms(1)] by (metis distinct_map inj_on_def)
  have "map_of (map (\<lambda>e. (el_key e, el_data e)) (map (\<lambda>y. if el_id y = el_id e then y\<lparr>el_data := v\<rparr> else y) es)) k
      = (if k = el_key e then if el_key e \<in> el_key ` set es then Some v else None
         else map_of (map (\<lambda>e. (el_key e, el_data e)) es) k)"
    if "set es \<subseteq> set (hc_els c)" for es k
    using that by (induction es) (auto simp: same)
  from this [of "hc_els c"] assms show ?thesis
    by (auto simp: fun_eq_iff hash_map_def hash_items_def hash_set_data_def)
qed

lemma hash_set_data_keys [simp]: "map fst (hash_items (hash_set_data i v c)) = map fst (hash_items c)"
  by (simp add: hash_items_def hash_set_data_def)

text \<open>Adding with a check: the first outcome of the second mode, then of the third.\<close>

lemma hash_add_overwrite:
  assumes "hash_ok c"
  shows "\<exists>it c'. hash_add c k (Some v) HAM_OverwriteIfExists = (True, hash_map c k \<noteq> None, it, c')
    \<and> hash_ok c' \<and> hash_map c' = (hash_map c)(k \<mapsto> v)
    \<and> map fst (hash_items c') = (if hash_map c k = None then map fst (hash_items c) @ [k] else map fst (hash_items c))"
proof (cases "hash_find_el c k")
  case None
  moreover from None have "hash_map c k = None" using assms by (simp add: hash_find_el_None)
  ultimately show ?thesis
    using assms by (simp add: hash_add_def hash_add_ref_def Let_def hash_append_ok hash_append_map)
next
  case (Some e)
  then have e: "e \<in> set (hc_els c)" "el_key e = k" by (auto dest: hash_find_el_Some)
  with Some show ?thesis
    using assms hash_set_data_map [OF assms e(1), of v]
    by (simp add: hash_add_def hash_add_ref_def Let_def hash_map_find hash_set_data_ok)
qed

lemma hash_add_fail_if_exists:
  assumes "hash_ok c" "hash_map c k \<noteq> None"
  shows "\<exists>it. hash_add c k (Some v) HAM_FailIfExists = (False, True, it, c)"
  using assms by (auto simp: hash_add_def hash_add_ref_def Let_def hash_map_find)

text \<open>All modes together: what is returned, the iterator, and the map.\<close>

lemma hash_find_result:
  assumes "hash_ok c"
  shows "\<exists>it. hash_find c k = (hash_map c k \<noteq> None, it) \<and> hash_it_value c it = Some (hash_map c k)"
proof (cases "hash_find_el c k")
  case None
  then show ?thesis
    using hash_map_find [OF assms, of k] by (simp add: hash_find_def hash_it_value_def hash_end_def)
next
  case (Some e)
  then show ?thesis
    using hash_map_find [OF assms, of k] hash_it_value_at [OF assms conjunct1 [OF hash_find_el_Some [OF Some]]]
    by (simp add: hash_find_def)
qed

lemma hash_add_absent:
  assumes "hash_ok c" "hash_map c k = None"
  shows "\<exists>it. hash_add c k (Some v) mode = (True, False, it, hash_append k v c) \<and> hash_it_value (hash_append k v c) it = Some (Some v)"
proof -
  have "\<lparr>el_id = hc_next_id c, el_key = k, el_data = v\<rparr> \<in> set (hc_els (hash_append k v c))" by (simp add: hash_append_def)
  from hash_it_value_at [OF hash_append_ok [OF assms] this]
  have "hash_it_value (hash_append k v c) (it_at (hash_append k v c) (hc_next_id c)) = Some (Some v)" by simp
  moreover have "hash_find_el c k = None" using assms by (simp add: hash_find_el_None)
  ultimately show ?thesis by (simp add: hash_add_def hash_add_ref_def Let_def)
qed

lemma hash_add_result:
  assumes "hash_ok c" "mode = HAM_NoCheck \<Longrightarrow> hash_map c k = None"
  shows "\<exists>it c'. hash_add c k (Some v) mode = (hash_map c k = None \<or> mode = HAM_OverwriteIfExists, hash_map c k \<noteq> None, it, c') \<and> hash_ok c'
    \<and> (if hash_map c k \<noteq> None \<and> mode = HAM_FailIfExists then c' = c else hash_map c' = (hash_map c)(k \<mapsto> v))
    \<and> hash_it_value c' it = Some (hash_map c' k)"
proof (cases "hash_find_el c k")
  case None
  then have "hash_map c k = None" using assms(1) by (simp add: hash_find_el_None)
  with hash_add_absent [OF assms(1) this, of v mode] show ?thesis
    using assms(1) by (auto simp: hash_append_ok hash_append_map)
next
  case (Some e)
  then have e: "e \<in> set (hc_els c)" "el_key e = k" "hash_map c k = Some (el_data e)"
    using hash_map_find [OF assms(1), of k] by (auto dest: hash_find_el_Some)
  have m: "mode \<noteq> HAM_NoCheck" using assms(2) e(3) by auto
  have "\<lparr>el_id = el_id e, el_key = k, el_data = v\<rparr> \<in> set (hc_els (hash_set_data (el_id e) v c))"
    using e(1,2) by (auto simp: hash_set_data_def image_iff intro!: bexI [of _ e])
  from hash_it_value_at [OF hash_set_data_ok [OF assms(1)] this]
  have "hash_it_value (hash_set_data (el_id e) v c) (it_at (hash_set_data (el_id e) v c) (el_id e)) = Some (Some v)" by simp
  moreover have "hash_it_value c (it_at c (el_id e)) = Some (Some (el_data e))" by (rule hash_it_value_at [OF assms(1) e(1)])
  ultimately show ?thesis
    using Some e m assms(1) hash_set_data_map [OF assms(1) e(1), of v]
    by (cases mode) (simp_all add: hash_add_def hash_add_ref_def Let_def hash_set_data_ok)
qed

subsection \<open>Removing\<close>

lemma hash_unlink_ok: "hash_ok c \<Longrightarrow> hash_ok (hash_unlink i c)"
  by (auto simp: hash_ok_def hash_unlink_def distinct_map_filter)

lemma hash_unlink_items:
  assumes "hash_ok c" "e \<in> set (hc_els c)"
  shows "hash_items (hash_unlink (el_id e) c) = filter (\<lambda>(k, v). k \<noteq> el_key e) (hash_items c)"
proof -
  have same: "el_id x = el_id e \<longleftrightarrow> el_key x = el_key e" if "x \<in> set (hc_els c)" for x
    using assms that hash_okD(1,2) [OF assms(1)] by (metis distinct_map inj_on_def)
  then have "filter (\<lambda>x. el_id x \<noteq> el_id e) (hc_els c) = filter (\<lambda>x. el_key x \<noteq> el_key e) (hc_els c)"
    by (auto intro: filter_cong)
  then show ?thesis by (simp add: hash_items_def hash_unlink_def filter_map comp_def)
qed

lemma map_of_filter_key: "map_of (filter (\<lambda>(k', v). k' \<noteq> k) xs) = (map_of xs)(k := None)"
  by (induction xs) (auto simp: fun_eq_iff)

lemma id_after_mem: "i \<in> set js \<Longrightarrow> id_after js i \<noteq> None"
  by (induction js) auto

lemma hh_next_mem: "e \<in> set (hc_els c) \<Longrightarrow> hh_next c (el_id e) \<noteq> None"
  by (simp add: hh_next_def id_after_mem)

lemma id_after_in: "id_after js i = Some (Some k) \<Longrightarrow> k \<in> set js"
  by (induction js) (auto split: if_splits list.splits)

lemma hash_it_delete_at:
  assumes "hash_ok c" "e \<in> set (hc_els c)"
  shows "\<exists>it. hash_it_delete_value c (it_at c (el_id e)) = Some (it, hash_unlink (el_id e) c)"
proof -
  obtain n where n: "hh_next c (el_id e) = Some n" using hh_next_mem [OF assms(2)] by blast
  have "\<exists>it. hash_it_inc c (it_at c (el_id e)) = Some it"
  proof (cases n)
    case (Some i)
    then have "i \<in> set (map el_id (hc_els c))" using n id_after_in by (metis hh_next_def)
    then have "hh_next c i \<noteq> None" by (auto simp: hh_next_def id_after_mem)
    then show ?thesis using n Some by (auto simp: hash_it_inc_def it_at_def)
  qed (simp add: n hash_it_inc_def it_at_def)
  then show ?thesis
    using assms by (auto simp: hash_it_delete_value_def hash_el_at) (simp add: it_at_def hash_el_at)
qed

lemma hash_delete_result:
  assumes "hash_ok c"
  shows "\<exists>c'. hash_delete c k = Some (hash_map c k \<noteq> None, c') \<and> hash_ok c'
    \<and> hash_items c' = filter (\<lambda>(k', v). k' \<noteq> k) (hash_items c)"
proof (cases "hash_find_el c k")
  case None
  then have "k \<notin> fst ` set (hash_items c)" and m: "hash_map c k = None"
    using assms by (auto simp: hash_find_el_None dom_hash_map [symmetric] domIff)
  then have "filter (\<lambda>(k', v). k' \<noteq> k) (hash_items c) = hash_items c"
    by (force simp: filter_id_conv)
  with None m assms show ?thesis by (simp add: hash_delete_def hash_find_def)
next
  case (Some e)
  then have e: "e \<in> set (hc_els c)" "el_key e = k" by (auto dest: hash_find_el_Some)
  obtain it where "hash_it_delete_value c (it_at c (el_id e)) = Some (it, hash_unlink (el_id e) c)"
    using hash_it_delete_at [OF assms e(1)] by blast
  with Some e assms show ?thesis
    by (simp add: hash_delete_def hash_find_def hash_map_find hash_unlink_ok hash_unlink_items [OF assms e(1)])
qed

lemma hash_map_filter: "hash_items c' = filter (\<lambda>(k', v). k' \<noteq> k) (hash_items c) \<Longrightarrow> hash_map c' = (hash_map c)(k := None)"
  by (simp add: hash_map_def map_of_filter_key)

lemma hash_clear_items [simp]: "hash_items (hash_clear c) = []"
proof -
  have "hc_els (fold (\<lambda>e c. hash_unlink (el_id e) c) es c') = filter (\<lambda>x. el_id x \<notin> el_id ` set es) (hc_els c')"
    for es and c' :: "('a, 'b) hash_container"
    by (induction es arbitrary: c') (auto simp: hash_unlink_def intro: filter_cong)
  from this [of "hc_els c" c] show ?thesis by (simp add: hash_clear_def hash_items_def filter_empty_conv)
qed

subsection \<open>Iterating\<close>

text \<open>
  The loop of the clients, \<open>for(hash_begin(c, it), hash_end(c, itEnd); !hash_it_equ(it, itEnd);
  hash_it_inc(it))\<close> around a body that reads \<open>hash_it_key\<close> and \<open>hash_it_value\<close>, on a container the body
  leaves alone. The fuel bounds its turns; one more than the size is enough.
\<close>

fun hash_loop ::
    "nat \<Rightarrow> ('k, 'v) hash_container \<Rightarrow> ('k \<Rightarrow> 'v \<Rightarrow> 's \<Rightarrow> 's option) \<Rightarrow> hash_iterator \<Rightarrow> 's \<Rightarrow> 's option" where
  "hash_loop 0 c body it s = None"
| "hash_loop (Suc fuel) c body it s =
     (if hash_it_equ it (hash_end c) then Some s
      else do { key \<leftarrow> hash_it_key c it; value \<leftarrow> hash_it_value c it;
                k \<leftarrow> key; v \<leftarrow> value; s' \<leftarrow> body k v s;
                it' \<leftarrow> hash_it_inc c it;
                hash_loop fuel c body it' s' })"

text \<open>The iterator standing before the elements \<open>post\<close> of the container.\<close>

definition it_before :: "('k, 'v) hash_container \<Rightarrow> ('k, 'v) hash_container_el list \<Rightarrow> hash_iterator \<Rightarrow> bool" where
  "it_before c post it \<longleftrightarrow>
     it_current it = (case post of [] \<Rightarrow> None | e # _ \<Rightarrow> Some (el_id e))
     \<and> it_next it = (case post of e # f # _ \<Rightarrow> Some (el_id f) | _ \<Rightarrow> None)
     \<and> (\<exists>pre. hc_els c = pre @ post)"

lemma id_after_append: "i \<notin> set pre \<Longrightarrow> id_after (pre @ i # js) i = Some (case js of [] \<Rightarrow> None | k # _ \<Rightarrow> Some k)"
  by (induction pre) auto

lemma hh_next_split:
  assumes "hash_ok c" "hc_els c = pre @ e # post"
  shows "hh_next c (el_id e) = Some (case post of [] \<Rightarrow> None | f # _ \<Rightarrow> Some (el_id f))"
proof -
  have "el_id e \<notin> set (map el_id pre)" using hash_okD(2) [OF assms(1)] assms(2) by auto
  then show ?thesis
    using id_after_append [of "el_id e" "map el_id pre" "map el_id post"] assms(2)
    by (simp add: hh_next_def split: list.splits)
qed

lemma it_before_begin: "hash_ok c \<Longrightarrow> it_before c (hc_els c) (hash_begin c)"
proof (cases "hc_els c")
  case (Cons e es)
  moreover assume "hash_ok c"
  ultimately show ?thesis
    using hh_next_split [of c "[]" e es] by (simp add: it_before_def hash_begin_def it_at_def split: list.splits)
qed (simp add: it_before_def hash_begin_def hash_end_def)

lemma it_before_inc:
  assumes "hash_ok c" "it_before c (e # post) it"
  shows "\<exists>it'. hash_it_inc c it = Some it' \<and> it_before c post it'"
proof -
  obtain pre where pre: "hc_els c = pre @ e # post" using assms(2) by (auto simp: it_before_def)
  show ?thesis
  proof (cases post)
    case Nil
    then show ?thesis using assms(2) pre by (simp add: it_before_def hash_it_inc_def)
  next
    case (Cons f post')
    then have "hh_next c (el_id f) = Some (case post' of [] \<Rightarrow> None | g # _ \<Rightarrow> Some (el_id g))"
      using hh_next_split [OF assms(1), of "pre @ [e]" f post'] pre by simp
    then show ?thesis
      using assms(2) pre Cons by (auto simp: it_before_def hash_it_inc_def split: list.splits)
  qed
qed

text \<open>A loop over the container visits its items in insertion order, each exactly once.\<close>

lemma hash_loop_before:
  "hash_ok c \<Longrightarrow> it_before c post it \<Longrightarrow> length post < fuel \<Longrightarrow>
     hash_loop fuel c body it s = each (\<lambda>(k, v). body k v) (map (\<lambda>e. (el_key e, el_data e)) post) s"
proof (induction post arbitrary: fuel it s)
  case Nil
  then show ?case by (cases fuel) (auto simp: it_before_def hash_it_equ_def hash_end_def)
next
  case (Cons e post)
  obtain fuel' where fuel: "fuel = Suc fuel'" "length post < fuel'" using Cons.prems(3) by (cases fuel) auto
  obtain it' where it': "hash_it_inc c it = Some it'" "it_before c post it'"
    using it_before_inc [OF Cons.prems(1,2)] by blast
  have e: "e \<in> set (hc_els c)" "it_current it = Some (el_id e)"
    using Cons.prems(2) by (auto simp: it_before_def)
  then have "hash_it_key c it = Some (Some (el_key e))" "hash_it_value c it = Some (Some (el_data e))"
    using hash_el_at [OF Cons.prems(1) e(1)] by (simp_all add: hash_it_key_def hash_it_value_def)
  moreover have "\<not> hash_it_equ it (hash_end c)" using e by (simp add: hash_it_equ_def hash_end_def)
  ultimately show ?case
    using it' Cons.IH [OF Cons.prems(1) it'(2) fuel(2)] fuel(1) by (simp add: fun_eq_iff split: bind_splits)
qed

lemma hash_loop_items:
  "hash_ok c \<Longrightarrow> hash_loop (Suc (hash_size c)) c body (hash_begin c) s = each (\<lambda>(k, v). body k v) (hash_items c) s"
  using hash_loop_before [OF _ it_before_begin, of c "Suc (hash_size c)" body s]
  by (simp add: hash_items_def hash_size_def del: hash_loop.simps)

text \<open>A copy holds the same items in the same order.\<close>

lemma hash_dup_before:
  "hash_ok c \<Longrightarrow> it_before c post it \<Longrightarrow> length post < fuel \<Longrightarrow>
     hash_ok new \<Longrightarrow> distinct (map fst (hash_items new) @ map el_key post) \<Longrightarrow>
     \<exists>new'. hash_dup_loop fuel c it new = Some new' \<and> hash_ok new'
       \<and> hash_items new' = hash_items new @ map (\<lambda>e. (el_key e, el_data e)) post"
proof (induction post arbitrary: fuel it new)
  case Nil
  then show ?case by (cases fuel) (auto simp: it_before_def hash_it_equ_def hash_end_def)
next
  case (Cons e post)
  obtain fuel' where fuel: "fuel = Suc fuel'" "length post < fuel'" using Cons.prems(3) by (cases fuel) auto
  obtain it' where it': "hash_it_inc c it = Some it'" "it_before c post it'"
    using it_before_inc [OF Cons.prems(1,2)] by blast
  have e: "e \<in> set (hc_els c)" "it_current it = Some (el_id e)"
    using Cons.prems(2) by (auto simp: it_before_def)
  have at: "hash_el_at c (el_id e) = Some e" using hash_el_at [OF Cons.prems(1) e(1)] .
  have neq: "\<not> hash_it_equ it (hash_end c)" using e by (simp add: hash_it_equ_def hash_end_def)
  let ?new = "hash_append (el_key e) (el_data e) new"
  have "hash_map new (el_key e) = None"
    using Cons.prems(5) by (auto simp: hash_map_def map_of_eq_None_iff)
  then have "hash_ok ?new" using Cons.prems(4) by (rule hash_append_ok [rotated])
  moreover have "distinct (map fst (hash_items ?new) @ map el_key post)" using Cons.prems(5) by auto
  ultimately obtain new' where "hash_dup_loop fuel' c it' ?new = Some new'" "hash_ok new'"
      "hash_items new' = hash_items ?new @ map (\<lambda>e. (el_key e, el_data e)) post"
    using Cons.IH [OF Cons.prems(1) it'(2) fuel(2)] by blast
  then show ?case using it'(1) fuel(1) e(2) at neq by (simp add: hash_add_nocheck)
qed

lemma hash_dup_items:
  assumes "hash_ok c"
  shows "\<exists>c'. hash_dup c = Some c' \<and> hash_ok c' \<and> hash_items c' = hash_items c"
proof -
  have "hash_ok (c\<lparr>hc_els := []\<rparr>)" "hash_items (c\<lparr>hc_els := []\<rparr>) = []"
    by (simp_all add: hash_ok_def hash_items_def)
  then show ?thesis
    using hash_dup_before [OF assms it_before_begin [OF assms], of "Suc (hash_size c)" "c\<lparr>hc_els := []\<rparr>"]
      hash_okD(1) [OF assms]
    by (simp add: hash_dup_def hash_size_def hash_items_def)
qed

subsection \<open>The contract of a map\<close>

lemma hash_value_create_result:
  assumes "hash_ok c"
  shows "\<exists>c'. hash_value c k HVM_CreateIfNonExistant = Some (hash_map c' k, hash_map c k = None, c') \<and> hash_ok c'
    \<and> (if hash_map c k = None then hash_map c' = (hash_map c)(k \<mapsto> hc_make c k) else c' = c)"
proof (cases "hash_map c k")
  case None
  then show ?thesis using assms hash_value_create [OF assms None] by (simp add: hash_append_ok hash_append_map)
next
  case (Some v)
  then obtain it where "hash_find c k = (True, it)" using hash_find_result [OF assms, of k] by auto
  then have "hash_value c k HVM_CreateIfNonExistant = hash_value c k HVM_FailIfNonExistant"
    by (simp add: hash_value_def)
  then show ?thesis using hash_value_find [OF assms, of k] Some assms by simp
qed

lemma hash_removals:
  assumes "hash_ok c"
  shows "\<exists>c'. hash_delete c k = Some (hash_map c k \<noteq> None, c') \<and> hash_remove_ref c k = Some (None, c')
    \<and> hash_ok c' \<and> hash_map c' = (hash_map c)(k := None)"
proof -
  have "hash_it_remove_ref c it = hash_it_delete_value c it" for it
    by (simp add: hash_it_remove_ref_def hash_it_delete_value_def)
  then have "hash_remove_ref c k = map_option (\<lambda>(_, c'). (None, c')) (hash_delete c k)"
    by (auto simp: hash_remove_ref_def hash_delete_def map_option_case split: prod.split bind_split option.split)
  then show ?thesis using hash_delete_result [OF assms, of k] hash_map_filter by fastforce
qed

lemma hash_clear_map: "hash_ok c \<Longrightarrow> hash_ok (hash_clear c) \<and> hash_map (hash_clear c) = Map.empty"
  using hash_clear_items [of c] by (simp add: hash_map_def hash_ok_def hash_items_def)

lemma hash_size_map:
  assumes "hash_ok c"
  shows "hash_size c = card (dom (hash_map c))"
proof -
  have "dom (hash_map c) = set (map el_key (hc_els c))" by (simp add: dom_hash_map hash_items_def image_image)
  then show ?thesis using distinct_card [OF hash_okD(1) [OF assms]] by (simp add: hash_size_def)
qed

subsection \<open>The properties\<close>

text \<open>
  C20. A hash container is a finite map, and the operations by key are those of a map. \<open>hash_find\<close> and \<open>hash_value\<close> read it, and with
  \<open>HVM_CreateIfNonExistant\<close> a key that is not there is inserted with what the constructor makes for it. \<open>hash_add\<close> inserts a key that is not
  there in every mode; one that is there is left alone and refused with \<open>HAM_FailIfExists\<close>, and gets the new data with \<open>HAM_OverwriteIfExists\<close> (\<open>HAM_NoCheck\<close>
  is for keys that are not there); the iterator then stands on the key, and data that is NULL is made by the constructor. \<open>hash_delete\<close> and \<open>hash_remove_ref\<close> remove
  one key; the first tells whether it was there, the second always returns NULL. \<open>hash_clear\<close> removes all of them, and \<open>hash_size\<close> is their number. None of them fails, and each keeps the container well formed.
\<close>

theorem hash_container_is_map:
  assumes "hash_ok c"
  shows "(\<exists>it. hash_find c k = (hash_map c k \<noteq> None, it) \<and> hash_it_value c it = Some (hash_map c k))
    \<and> hash_value c k HVM_FailIfNonExistant = Some (hash_map c k, False, c)
    \<and> (\<exists>c'. hash_value c k HVM_CreateIfNonExistant = Some (hash_map c' k, hash_map c k = None, c') \<and> hash_ok c'
        \<and> (if hash_map c k = None then hash_map c' = (hash_map c)(k \<mapsto> hc_make c k) else c' = c))
    \<and> (mode \<noteq> HAM_NoCheck \<or> hash_map c k = None \<longrightarrow>
        (\<exists>it c'. hash_add c k x mode = (hash_map c k = None \<or> mode = HAM_OverwriteIfExists, hash_map c k \<noteq> None, it, c') \<and> hash_ok c'
          \<and> (if hash_map c k \<noteq> None \<and> mode = HAM_FailIfExists then c' = c
              else hash_map c' = (hash_map c)(k \<mapsto> (case x of Some v \<Rightarrow> v | None \<Rightarrow> hc_make c k)))
          \<and> hash_it_value c' it = Some (hash_map c' k)))
    \<and> (\<exists>c'. hash_delete c k = Some (hash_map c k \<noteq> None, c') \<and> hash_remove_ref c k = Some (None, c')
        \<and> hash_ok c' \<and> hash_map c' = (hash_map c)(k := None))
    \<and> hash_ok (hash_clear c) \<and> hash_map (hash_clear c) = Map.empty \<and> hash_size c = card (dom (hash_map c))"
proof -
  define d where "d = (case x of Some v \<Rightarrow> v | None \<Rightarrow> hc_make c k)"
  have x: "hash_add c k x mode = hash_add c k (Some d) mode" by (simp add: hash_add_def d_def split: option.split)
  show ?thesis
    unfolding x d_def [symmetric] using hash_find_result [OF assms(1), of k] hash_value_find [OF assms(1), of k] hash_value_create_result [OF assms(1), of k]
      hash_add_result [OF assms(1), of mode k d] hash_removals [OF assms(1), of k] hash_clear_map [OF assms(1)] hash_size_map [OF assms(1)]
    by blast
qed

theorem hash_container_is_map_witness:
  "\<exists>c'. hash_delete (hash_append ''key'' ''a'' (hash_create (\<lambda>_. []))) ''key'' = Some (True, c') \<and> hash_map c' ''key'' = None"
proof -
  let ?c = "hash_append ''key'' ''a'' (hash_create (\<lambda>_. []))"
  have "hash_ok ?c" by (rule hash_append_ok) (simp_all add: hash_map_def)
  from hash_container_is_map [OF this, of "''key''", THEN conjunct2, THEN conjunct2, THEN conjunct2, THEN conjunct2, THEN conjunct1]
  obtain c' where "hash_delete ?c ''key'' = Some (hash_map ?c ''key'' \<noteq> None, c')" "hash_map c' = (hash_map ?c)(''key'' := None)"
    by blast
  moreover have "hash_map ?c ''key'' \<noteq> None" by (simp add: hash_map_def)
  ultimately show ?thesis by simp
qed

text \<open>
  C26. The loop of the clients over a container ends and runs its body on every item once, in the order of insertion; and
  \<open>hash_dup\<close> makes a container with the same items in the same order.
\<close>

theorem hash_iteration_in_order:
  assumes "hash_ok c"
  shows "hash_loop (Suc (hash_size c)) c body (hash_begin c) s = each (\<lambda>(k, v). body k v) (hash_items c) s
    \<and> (\<exists>c'. hash_dup c = Some c' \<and> hash_ok c' \<and> hash_items c' = hash_items c)"
  using hash_loop_before [OF assms it_before_begin [OF assms], of "Suc (hash_size c)" body s] hash_dup_items [OF assms]
  by (simp add: hash_size_def hash_items_def)

theorem hash_iteration_in_order_witness:
  "hash_loop (Suc (hash_size (hash_append ''y'' ''b'' (hash_append ''x'' ''a'' (hash_create (\<lambda>_. []))))))
     (hash_append ''y'' ''b'' (hash_append ''x'' ''a'' (hash_create (\<lambda>_. [])))) (\<lambda>k v s. Some (s @ k @ v))
     (hash_begin (hash_append ''y'' ''b'' (hash_append ''x'' ''a'' (hash_create (\<lambda>_. []))))) [] = Some ''xayb''"
proof -
  let ?c = "hash_append ''y'' ''b'' (hash_append ''x'' ''a'' (hash_create (\<lambda>_. [])))"
  have "hash_ok ?c" by (intro hash_append_ok) (simp_all add: hash_map_def)
  from hash_iteration_in_order [OF this, of "\<lambda>k v s. Some (s @ k @ v)" "[]", THEN conjunct1]
  show ?thesis by (simp del: hash_loop.simps)
qed

text \<open>
  \<open>hash_remove_ref\<close> removes the key, but the data that it is meant to hand to its caller is always NULL: the
  variable that it returns is never set.
\<close>

theorem hash_remove_ref_returns_null:
  assumes "hash_ok c"
  shows "\<exists>c'. hash_remove_ref c k = Some (None, c') \<and> hash_ok c' \<and> hash_map c' = (hash_map c)(k := None)"
  using hash_removals [OF assms, of k] by blast

theorem hash_remove_ref_returns_null_witness:
  "\<exists>c'. hash_remove_ref (hash_append ''key'' ''a'' (hash_create (\<lambda>_. []))) ''key'' = Some (None, c') \<and> hash_map c' ''key'' = None"
proof -
  have "hash_ok (hash_append ''key'' ''a'' (hash_create (\<lambda>_. [])))"
    by (rule hash_append_ok) (simp_all add: hash_map_def)
  from hash_remove_ref_returns_null [OF this, of "''key''"] show ?thesis by auto
qed

end
