(* ===== verification/Address.thy ===== *)
theory Address
  imports Prelude
begin

section \<open>Addresses\<close>

text \<open>
  Models \<open>src/src/data_info/address.h\<close> and \<open>address.c\<close>: the 128-bit IPv6 address, the
  64-bit IEEE 802.15.4 address, prefixes, and the comparisons and conversions between them.
  \<open>struct in6_addr\<close> is its \<open>__u6_addr32\<close> view: four 32-bit words as a little-endian
  host loads them, so that byte \<open>i\<close> of the address is byte \<open>i mod 4\<close> of word \<open>i div 4\<close>.
  A comparison returns a C \<open>int\<close>, of which the callers only test whether it is 0.
  The lemmas say what a zero result means, down to the bits of the address.
\<close>

subsection \<open>The types\<close>

record in6_addr =
  u6_addr32_0 :: u32
  u6_addr32_1 :: u32
  u6_addr32_2 :: u32
  u6_addr32_3 :: u32

type_synonym addr_wpan = u64

record di_prefix =
  pfx_length :: u8
  pfx_prefix :: in6_addr

definition u6_addr32 :: "in6_addr \<Rightarrow> nat \<Rightarrow> u32" where
  "u6_addr32 a j = (if j = 0 then u6_addr32_0 a else if j = 1 then u6_addr32_1 a
                    else if j = 2 then u6_addr32_2 a else u6_addr32_3 a)"

definition u6_addr8 :: "in6_addr \<Rightarrow> nat \<Rightarrow> u8" where
  "u6_addr8 a i = byte_of (u6_addr32 a (i div 4)) (i mod 4)"

definition in6_of_bytes :: "u8 list \<Rightarrow> in6_addr" where
  "in6_of_bytes bs =
     \<lparr>u6_addr32_0 = word_of_bytes (take 4 bs),
      u6_addr32_1 = word_of_bytes (take 4 (drop 4 bs)),
      u6_addr32_2 = word_of_bytes (take 4 (drop 8 bs)),
      u6_addr32_3 = word_of_bytes (take 4 (drop 12 bs))\<rparr>"

text \<open>Bit \<open>k\<close> of an address in network order: bit 0 is the first bit on the wire.\<close>

definition addr_bit :: "in6_addr \<Rightarrow> nat \<Rightarrow> bool" where
  "addr_bit a k = bit (u6_addr8 a (k div 8)) (7 - k mod 8)"

subsection \<open>Initialisation\<close>

definition init_ipv6_addr :: in6_addr where
  "init_ipv6_addr = \<lparr>u6_addr32_0 = 0, u6_addr32_1 = 0, u6_addr32_2 = 0, u6_addr32_3 = 0\<rparr>"

definition init_prefix :: di_prefix where
  "init_prefix = \<lparr>pfx_length = 0, pfx_prefix = init_ipv6_addr\<rparr>"

subsection \<open>Comparisons\<close>

definition addr_compare_ip :: "in6_addr \<Rightarrow> in6_addr \<Rightarrow> c_int" where
  "addr_compare_ip a b =
     (let res = u6_addr32_0 a - u6_addr32_0 b in if res \<noteq> 0 then res else
      let res = u6_addr32_1 a - u6_addr32_1 b in if res \<noteq> 0 then res else
      let res = u6_addr32_2 a - u6_addr32_2 b in if res \<noteq> 0 then res else
      u6_addr32_3 a - u6_addr32_3 b)"

text \<open>The 64-bit difference is returned as an \<open>int\<close>: only its low 32 bits are kept.\<close>

definition addr_compare_wpan :: "addr_wpan \<Rightarrow> addr_wpan \<Rightarrow> c_int" where
  "addr_compare_wpan a b = ucast (a - b)"

definition addr_list_compare :: "addr_wpan \<Rightarrow> addr_wpan \<Rightarrow> c_int" where
  "addr_list_compare a b = addr_compare_wpan a b"

text \<open>The mask loop \<open>for(mask = i = 0; i < n; i++) mask = (mask >> 1) | 0x8000000000000000\<close>.\<close>

fun prefix_mask :: "nat \<Rightarrow> u64" where
  "prefix_mask 0 = 0"
| "prefix_mask (Suc n) = drop_bit 1 (prefix_mask n) OR 0x8000000000000000"

definition masked_diff :: "u32 \<Rightarrow> u32 \<Rightarrow> u64 \<Rightarrow> c_int" where
  "masked_diff x y m = ucast ((ucast x AND m) - (ucast y AND m) :: u64)"

definition addr_compare_ip_len :: "in6_addr \<Rightarrow> in6_addr \<Rightarrow> nat \<Rightarrow> c_int" where
  "addr_compare_ip_len a b bit_len =
     (let mask = (if bit_len < 64 then bswap64 (prefix_mask bit_len) else 0xFFFFFFFFFFFFFFFF);
          res = masked_diff (u6_addr32_0 a) (u6_addr32_0 b) (mask AND 0xFFFFFFFF) in
      if res \<noteq> 0 then res else
      let res = masked_diff (u6_addr32_1 a) (u6_addr32_1 b) (drop_bit 32 mask) in
      if res \<noteq> 0 then res else
      if bit_len > 64 then
        let mask = bswap64 (prefix_mask (bit_len - 64));
            res = masked_diff (u6_addr32_2 a) (u6_addr32_2 b) (mask AND 0xFFFFFFFF) in
        if res \<noteq> 0 then res else
        masked_diff (u6_addr32_3 a) (u6_addr32_3 b) (drop_bit 32 mask)
      else res)"

definition prefix_compare :: "di_prefix \<Rightarrow> di_prefix \<Rightarrow> c_int" where
  "prefix_compare a b =
     (if pfx_length a = pfx_length b
         \<and> addr_compare_ip_len (pfx_prefix a) (pfx_prefix b) (unat (pfx_length a)) = 0
      then 0 else 1)"

definition addr_prefix_compare :: "di_prefix \<Rightarrow> in6_addr \<Rightarrow> c_int" where
  "addr_prefix_compare a b = addr_compare_ip_len (pfx_prefix a) b (unat (pfx_length a))"

subsection \<open>Lists of 802.15.4 addresses\<close>

text \<open>
  \<open>LL_SEARCH\<close> finds the first element the comparison calls equal, \<open>LL_PREPEND\<close> puts a new
  one in front, \<open>LL_DELETE\<close> unlinks the element found. The element returned is its address.
\<close>

definition addr_wpan_add_to_list :: "addr_wpan list \<Rightarrow> addr_wpan \<Rightarrow> addr_wpan \<times> addr_wpan list" where
  "addr_wpan_add_to_list xs address =
     (case find (\<lambda>x. addr_list_compare x address = 0) xs of
        None \<Rightarrow> (address, address # xs)
      | Some found \<Rightarrow> (found, xs))"

fun delete_first :: "('a \<Rightarrow> bool) \<Rightarrow> 'a list \<Rightarrow> 'a list" where
  "delete_first P [] = []"
| "delete_first P (x # xs) = (if P x then xs else x # delete_first P xs)"

definition addr_wpan_del_from_list ::
    "addr_wpan list \<Rightarrow> addr_wpan \<Rightarrow> addr_wpan option \<times> addr_wpan list" where
  "addr_wpan_del_from_list xs address =
     (case find (\<lambda>x. addr_list_compare x address = 0) xs of
        None \<Rightarrow> (None, xs)
      | Some found \<Rightarrow> (Some found, delete_first (\<lambda>x. addr_list_compare x address = 0) xs))"

subsection \<open>Conversions\<close>

definition addr_get_int_id_from_mac64 :: "addr_wpan \<Rightarrow> u64" where
  "addr_get_int_id_from_mac64 mac_address = mac_address XOR 0x0200000000000000"

definition addr_get_mac64_from_int_id :: "u64 \<Rightarrow> addr_wpan" where
  "addr_get_mac64_from_int_id int_id = int_id XOR 0x0200000000000000"

definition addr_get_mac64_from_ip :: "in6_addr \<Rightarrow> addr_wpan" where
  "addr_get_mac64_from_ip address =
     addr_get_mac64_from_int_id
       (push_bit 32 (ucast (bswap32 (u6_addr32_2 address)))
        OR ucast (bswap32 (u6_addr32_3 address)))"

text \<open>The eight bytes \<open>(int_id >> 56) & 0xFF, ..., int_id & 0xFF\<close> of the initialisers.\<close>

definition int_id_bytes :: "u64 \<Rightarrow> u8 list" where
  "int_id_bytes int_id =
     map (\<lambda>s. ucast (drop_bit s int_id AND 0xFF)) [56, 48, 40, 32, 24, 16, 8, 0]"

definition addr_get_local_ip_from_mac64 :: "addr_wpan \<Rightarrow> in6_addr" where
  "addr_get_local_ip_from_mac64 mac_address =
     in6_of_bytes ([0xFE, 0x80, 0, 0, 0, 0, 0, 0]
                   @ int_id_bytes (addr_get_int_id_from_mac64 mac_address))"

definition addr_get_global_ip_from_mac64 :: "di_prefix \<Rightarrow> addr_wpan \<Rightarrow> in6_addr" where
  "addr_get_global_ip_from_mac64 prefix mac_address =
     (let int_id = addr_get_int_id_from_mac64 mac_address;
          len = (if 64 < pfx_length prefix then 64 else pfx_length prefix);
          mask = bswap64 (prefix_mask (unat len));
          masked = (pfx_prefix prefix)
            \<lparr>u6_addr32_0 := u6_addr32_0 (pfx_prefix prefix) AND ucast (mask AND 0xFFFFFFFF),
             u6_addr32_1 := u6_addr32_1 (pfx_prefix prefix) AND ucast (drop_bit 32 mask),
             u6_addr32_2 := 0, u6_addr32_3 := 0\<rparr>
      in in6_of_bytes (map (u6_addr8 masked) [0..<8] @ int_id_bytes int_id))"

subsection \<open>Classification\<close>

definition addr_is_ip_any :: "in6_addr \<Rightarrow> bool" where
  "addr_is_ip_any address \<longleftrightarrow> address = init_ipv6_addr"

definition addr_is_ip_multicast :: "in6_addr \<Rightarrow> bool" where
  "addr_is_ip_multicast address \<longleftrightarrow> u6_addr8 address 0 = 0xFF"

definition addr_is_ip_local :: "in6_addr \<Rightarrow> bool" where
  "addr_is_ip_local address \<longleftrightarrow> u6_addr8 address 0 = 0xFE"

definition addr_is_ip_global :: "in6_addr \<Rightarrow> bool" where
  "addr_is_ip_global address \<longleftrightarrow> u6_addr8 address 0 \<noteq> 0xFE \<and> u6_addr8 address 0 \<noteq> 0xFF"

definition addr_is_mac64_broadcast :: "addr_wpan \<Rightarrow> bool" where
  "addr_is_mac64_broadcast address \<longleftrightarrow> address = 0xFFFF \<or> address = 0"

subsection \<open>What the comparisons mean\<close>

lemma addr_compare_ip_eq_0 [simp]: "addr_compare_ip a b = 0 \<longleftrightarrow> a = b"
  by (cases a; cases b) (auto simp: addr_compare_ip_def Let_def)

lemma addr_compare_wpan_eq_0: "addr_compare_wpan a b = 0 \<longleftrightarrow> (ucast a :: u32) = ucast b"
  by (simp add: addr_compare_wpan_def ucast_diff_eq_0)

lemma bit_push_bit_1: "bit (push_bit n 1 :: u64) j \<longleftrightarrow> j = n \<and> n < 64"
  by (auto simp: bit_simps bit_1_iff)

lemma bit_prefix_mask: "bit (prefix_mask n) j \<longleftrightarrow> j < 64 \<and> 64 - n \<le> j"
proof (induction n arbitrary: j)
  case 0
  then show ?case by simp
next
  case (Suc n)
  have top: "bit (0x8000000000000000 :: u64) j \<longleftrightarrow> j = 63"
    using bit_push_bit_1 [of 63 j] by simp
  have "bit (prefix_mask (Suc n)) j \<longleftrightarrow> bit (prefix_mask n) (Suc j) \<or> j = 63"
    by (simp only: prefix_mask.simps bit_or_iff top bit_drop_bit_eq comp_apply plus_1_eq_Suc)
  then show ?case by (auto simp: Suc.IH)
qed

lemma masked_diff_eq_0:
  "masked_diff x y m = 0 \<longleftrightarrow> (\<forall>t<32. bit m t \<longrightarrow> (bit x t \<longleftrightarrow> bit y t))"
proof -
  have "masked_diff x y m = 0 \<longleftrightarrow> (ucast (ucast x AND m) :: u32) = ucast (ucast y AND m)"
    by (simp add: masked_diff_def ucast_diff_eq_0)
  also have "\<dots> \<longleftrightarrow> (\<forall>t<32. bit m t \<longrightarrow> (bit x t \<longleftrightarrow> bit y t))"
    by (auto simp: bit_eq_iff bit_simps dest: bit_imp_le_length)
  finally show ?thesis .
qed

text \<open>The position inside a word of a network-order bit, and back: the bits of a byte are reversed.\<close>

definition net_pos :: "nat \<Rightarrow> nat" where
  "net_pos t = 8 * (t div 8) + (7 - t mod 8)"

lemma byte_bit_split: obtains q r where "(t::nat) = 8 * q + r" and "r < 8"
  by (metis mult_div_mod_eq mod_less_divisor zero_less_numeral)

lemma net_pos_split: "r < 8 \<Longrightarrow> net_pos (8 * q + r) = 8 * q + (7 - r)"
  by (simp add: net_pos_def)

lemma net_pos_less:
  assumes "t < 32"
  shows "net_pos t < 32"
proof (rule byte_bit_split [of t])
  fix q r assume t: "t = 8 * q + r" and r: "r < (8::nat)"
  have "q < 4" using t assms by simp
  then have "8 * q + (7 - r) < 32" by linarith
  then show ?thesis by (simp only: t net_pos_split [OF r])
qed

lemma net_pos_net_pos [simp]: "net_pos (net_pos t) = t"
proof (rule byte_bit_split [of t])
  fix q r assume t: "t = 8 * q + r" and r: "r < (8::nat)"
  then have "net_pos (8 * q + (7 - r)) = 8 * q + (7 - (7 - r))"
    by (intro net_pos_split) simp
  also have "\<dots> = t" using t r by simp
  finally show ?thesis by (simp only: t net_pos_split [OF r])
qed

lemma net_pos_32: "net_pos (32 + t) = 32 + net_pos t"
proof (rule byte_bit_split [of t])
  fix q r assume t: "t = 8 * q + r" and r: "r < (8::nat)"
  have "32 + t = 8 * (4 + q) + r" using t by simp
  then show ?thesis using net_pos_split [OF r, of "4 + q"] net_pos_split [OF r, of q] t by (simp add: add.assoc)
qed

lemma addr_bit_word: "t < 32 \<Longrightarrow> addr_bit a (32 * j + net_pos t) = bit (u6_addr32 a j) t"
proof (rule byte_bit_split [of t])
  fix q r assume t: "t = 8 * q + r" and r: "r < (8::nat)" and "t < 32"
  then have q: "q < 4" by simp
  have k: "32 * j + net_pos t = 8 * (4 * j + q) + (7 - r)"
    using r by (simp add: t net_pos_split)
  have "(32 * j + net_pos t) div 8 = 4 * j + q" "7 - (32 * j + net_pos t) mod 8 = r"
    using r by (simp_all only: k div_mult_self4 mod_mult_self4) simp_all
  then show ?thesis
    using q r by (simp add: addr_bit_def u6_addr8_def bit_byte_of t)
qed

text \<open>A mask that selects the network-order bits below \<open>n\<close> compares exactly those bits.\<close>

definition bits_agree :: "in6_addr \<Rightarrow> in6_addr \<Rightarrow> nat \<Rightarrow> nat \<Rightarrow> nat \<Rightarrow> bool" where
  "bits_agree a b lo hi n \<longleftrightarrow> (\<forall>k. lo \<le> k \<and> k < hi \<and> k < n \<longrightarrow> addr_bit a k = addr_bit b k)"

lemma masked_word_agrees:
  fixes m :: u64
  assumes "\<And>t. t < 32 \<Longrightarrow> bit m t \<longleftrightarrow> 32 * j + net_pos t < n"
  shows "masked_diff (u6_addr32 a j) (u6_addr32 b j) m = 0 \<longleftrightarrow> bits_agree a b (32 * j) (32 * j + 32) n"
proof
  assume L: "masked_diff (u6_addr32 a j) (u6_addr32 b j) m = 0"
  show "bits_agree a b (32 * j) (32 * j + 32) n"
    unfolding bits_agree_def
  proof (intro allI impI)
    fix k assume k: "32 * j \<le> k \<and> k < 32 * j + 32 \<and> k < n"
    define t where "t = net_pos (k - 32 * j)"
    have t: "t < 32" and kt: "k = 32 * j + net_pos t"
      using k net_pos_less [of "k - 32 * j"] by (auto simp: t_def)
    then show "addr_bit a k = addr_bit b k"
      using L assms [OF t] k by (simp add: masked_diff_eq_0 addr_bit_word)
  qed
next
  assume R: "bits_agree a b (32 * j) (32 * j + 32) n"
  show "masked_diff (u6_addr32 a j) (u6_addr32 b j) m = 0"
    unfolding masked_diff_eq_0
  proof (intro allI impI)
    fix t assume t: "t < 32" and "bit m t"
    then have "32 * j + net_pos t < n" by (simp add: assms)
    then have "addr_bit a (32 * j + net_pos t) = addr_bit b (32 * j + net_pos t)"
      using R net_pos_less [OF t] by (simp add: bits_agree_def)
    then show "bit (u6_addr32 a j) t = bit (u6_addr32 b j) t"
      using t by (simp add: addr_bit_word)
  qed
qed

lemma low_mask_bits: "t < 32 \<Longrightarrow> bit (m AND 0xFFFFFFFF :: u64) t = bit m t"
proof -
  assume "t < 32"
  moreover have "(0xFFFFFFFF :: u64) = mask 32" by (simp add: mask_eq_decr_exp)
  ultimately show ?thesis by (simp only: bit_and_iff bit_mask_iff) simp
qed

lemma low_mask_ucast: "(ucast (m AND 0xFFFFFFFF :: u64) :: u32) = ucast m"
  using low_mask_bits [of _ m] by (intro bit_word_eqI) (simp add: bit_ucast_iff)

lemma all_ones_bits: "t < 64 \<Longrightarrow> bit (0xFFFFFFFFFFFFFFFF :: u64) t"
proof -
  assume "t < 64"
  moreover have "(0xFFFFFFFFFFFFFFFF :: u64) = mask 64" by (simp add: mask_eq_decr_exp)
  ultimately show ?thesis by (simp only: bit_mask_iff) simp
qed

lemma swapped_mask_bits:
  "p < 64 \<Longrightarrow> bit (bswap64 (prefix_mask n)) p \<longleftrightarrow> net_pos p < n"
proof (rule byte_bit_split [of p])
  fix q r assume p: "p = 8 * q + r" and r: "r < (8::nat)" and "p < 64"
  then have q: "q < 8" by simp
  show ?thesis using q r by (auto simp: p bit_bswap64 bit_prefix_mask net_pos_split)
qed

lemma bits_agree_split:
  "bits_agree a b 0 128 n \<longleftrightarrow>
     bits_agree a b (32 * 0) (32 * 0 + 32) n \<and> bits_agree a b (32 * 1) (32 * 1 + 32) n \<and>
     bits_agree a b (32 * 2) (32 * 2 + 32) n \<and> bits_agree a b (32 * 3) (32 * 3 + 32) n"
  unfolding bits_agree_def by (auto; metis le_less_linear)

lemma bits_agree_beyond: "n \<le> lo \<Longrightarrow> bits_agree a b lo hi n"
  by (auto simp: bits_agree_def)

text \<open>
  The masked comparison returns 0 exactly when the two addresses agree on their first
  \<open>bit_len\<close> bits, for every length, 64 and 128 included.
\<close>

lemma addr_compare_ip_len_agrees:
  "addr_compare_ip_len a b n = 0 \<longleftrightarrow> bits_agree a b 0 128 n"
proof -
  define m where "m = (if n < 64 then bswap64 (prefix_mask n) else 0xFFFFFFFFFFFFFFFF)"
  define m' where "m' = bswap64 (prefix_mask (n - 64))"
  have m: "bit m p \<longleftrightarrow> net_pos p < n" if "p < 64" for p
  proof (cases "n < 64")
    case True
    then show ?thesis using that by (simp add: m_def swapped_mask_bits)
  next
    case False
    moreover have "net_pos p < 64"
      using net_pos_less [of p] net_pos_less [of "p - 32"] net_pos_32 [of "p - 32"] that
      by (cases "p < 32") auto
    ultimately show ?thesis using all_ones_bits [OF that] by (simp add: m_def)
  qed
  have w0: "masked_diff (u6_addr32 a 0) (u6_addr32 b 0) (m AND 0xFFFFFFFF) = 0
      \<longleftrightarrow> bits_agree a b (32 * 0) (32 * 0 + 32) n"
    by (rule masked_word_agrees) (simp add: low_mask_bits m)
  have w1: "masked_diff (u6_addr32 a 1) (u6_addr32 b 1) (drop_bit 32 m) = 0
      \<longleftrightarrow> bits_agree a b (32 * 1) (32 * 1 + 32) n"
    by (rule masked_word_agrees) (simp add: bit_drop_bit_eq m net_pos_32)
  have w2: "masked_diff (u6_addr32 a 2) (u6_addr32 b 2) (m' AND 0xFFFFFFFF) = 0
      \<longleftrightarrow> bits_agree a b (32 * 2) (32 * 2 + 32) n"
    by (rule masked_word_agrees) (auto simp: low_mask_bits m'_def swapped_mask_bits)
  have w3: "masked_diff (u6_addr32 a 3) (u6_addr32 b 3) (drop_bit 32 m') = 0
      \<longleftrightarrow> bits_agree a b (32 * 3) (32 * 3 + 32) n"
    by (rule masked_word_agrees)
      (auto simp: bit_drop_bit_eq m'_def swapped_mask_bits net_pos_32)
  show ?thesis
  proof (cases "n > 64")
    case True
    then show ?thesis
      using w0 w1 w2 w3
      by (simp add: addr_compare_ip_len_def Let_def m_def m'_def u6_addr32_def bits_agree_split)
  next
    case False
    then have "bits_agree a b (32 * 2) (32 * 2 + 32) n" "bits_agree a b (32 * 3) (32 * 3 + 32) n"
      by (simp_all add: bits_agree_beyond)
    then show ?thesis
      using w0 w1 False
      by (simp add: addr_compare_ip_len_def Let_def m_def u6_addr32_def bits_agree_split)
  qed
qed

subsection \<open>Addresses from bytes\<close>

lemma u6_addr8_in6_of_bytes:
  assumes "length bs = 16" and "i < 16"
  shows "u6_addr8 (in6_of_bytes bs) i = bs ! i"
proof -
  have w: "u6_addr32 (in6_of_bytes bs) j = word_of_bytes (take 4 (drop (4 * j) bs))" if "j < 4" for j
    using that by (auto simp: u6_addr32_def in6_of_bytes_def less_Suc_eq numeral_eq_Suc)
  have "i div 4 < 4" and i: "i = 4 * (i div 4) + i mod 4" using assms(2) by simp_all
  from \<open>i div 4 < 4\<close> have "4 * (i div 4) + 4 \<le> 16" by simp
  then have len: "length (take 4 (drop (4 * (i div 4)) bs)) = 4"
    using assms(1) by (auto simp: min_def)
  have "u6_addr8 (in6_of_bytes bs) i = take 4 (drop (4 * (i div 4)) bs) ! (i mod 4)"
    unfolding u6_addr8_def w [OF \<open>i div 4 < 4\<close>]
    by (rule byte_of_word_of_bytes) (use assms len in simp_all)
  also have "\<dots> = bs ! (4 * (i div 4) + i mod 4)"
    using assms by (subst nth_take) (auto intro!: nth_drop)
  finally show ?thesis using i by simp
qed

lemma in6_addr_eq_bytes:
  "(\<And>i. i < 16 \<Longrightarrow> u6_addr8 a i = u6_addr8 b i) \<Longrightarrow> a = b"
proof -
  assume bytes: "\<And>i. i < 16 \<Longrightarrow> u6_addr8 a i = u6_addr8 b i"
  have "u6_addr32 a j = u6_addr32 b j" if j: "j < 4" for j
  proof (rule bit_word_eqI)
    fix t assume "t < LENGTH(32)"
    then have t: "t div 8 < 4" by simp
    then have "byte_of (u6_addr32 a j) (t div 8) = byte_of (u6_addr32 b j) (t div 8)"
      using bytes [of "4 * j + t div 8"] j by (simp add: u6_addr8_def)
    then have "bit (byte_of (u6_addr32 a j) (t div 8)) (t mod 8)
        = bit (byte_of (u6_addr32 b j) (t div 8)) (t mod 8)" by simp
    then show "bit (u6_addr32 a j) t = bit (u6_addr32 b j) t"
      by (simp add: bit_byte_of)
  qed
  from this [of 0] this [of 1] this [of 2] this [of 3] show "a = b"
    by (simp add: u6_addr32_def)
qed

lemma int_id_bytes_eq: "int_id_bytes w = rev (bytes_of 8 w)"
proof -
  have ff: "(0xFF :: u64) = mask 8" by (simp add: mask_eq_decr_exp)
  have "ucast (drop_bit s w AND 0xFF) = (ucast (drop_bit s w) :: u8)" for s
    unfolding ff by (rule bit_word_eqI) (auto simp: bit_simps)
  then show ?thesis
    by (simp add: int_id_bytes_def bytes_of_def byte_of_def upt_rec)
qed

lemma length_int_id_bytes [simp]: "length (int_id_bytes w) = 8"
  by (simp add: int_id_bytes_def)

lemma bswap32_word_of_bytes: "bswap32 (word_of_bytes [a, b, c, d]) = word_of_bytes [d, c, b, a]"
  by (simp only: bswap32_def) (simp add: bytes_of_def byte_of_word_of_bytes upt_rec del: word_of_bytes.simps)

lemma word_of_bytes_append:
  "(word_of_bytes (xs @ ys) :: 'a::len word) = word_of_bytes xs OR push_bit (8 * length xs) (word_of_bytes ys)"
  by (induction xs) (simp_all add: push_bit_or or.assoc push_bit_push_bit add.commute)

lemma ucast_word_of_bytes:
  "8 * length bs \<le> LENGTH('a::len) \<Longrightarrow> LENGTH('a) \<le> LENGTH('b::len) \<Longrightarrow>
     (ucast (word_of_bytes bs :: 'a word) :: 'b word) = word_of_bytes bs"
  by (rule bit_word_eqI) (auto simp: bit_simps bit_word_of_bytes)

text \<open>The interface identifier read back from an address is the one written into it.\<close>

lemma mac64_from_ip_of_bytes:
  assumes "length pre = 8"
  shows "addr_get_mac64_from_ip (in6_of_bytes (pre @ int_id_bytes w)) = addr_get_mac64_from_int_id w"
proof -
  obtain a0 a1 a2 a3 a4 a5 a6 a7 where bs: "bytes_of 8 w = [a0, a1, a2, a3, a4, a5, a6, a7]"
    by (simp add: bytes_of_def upt_rec)
  have "push_bit 32 (ucast (word_of_bytes [a4, a5, a6, a7] :: u32)) OR
      (ucast (word_of_bytes [a0, a1, a2, a3] :: u32) :: u64) = word_of_bytes ([a0, a1, a2, a3] @ [a4, a5, a6, a7])"
    by (simp only: word_of_bytes_append) (simp add: ucast_word_of_bytes or.commute del: word_of_bytes.simps)
  also have "\<dots> = w"
    using word_of_bytes_bytes_of [of 8 w] by (simp add: bs del: word_of_bytes.simps)
  finally show ?thesis
    using assms
    by (simp add: addr_get_mac64_from_ip_def in6_of_bytes_def int_id_bytes_eq bs
        bswap32_word_of_bytes del: word_of_bytes.simps)
qed

lemma int_id_mac64 [simp]: "addr_get_mac64_from_int_id (addr_get_int_id_from_mac64 m) = m"
  by (simp add: addr_get_mac64_from_int_id_def addr_get_int_id_from_mac64_def xor.assoc)

lemma mac64_int_id [simp]: "addr_get_int_id_from_mac64 (addr_get_mac64_from_int_id w) = w"
  by (simp add: addr_get_mac64_from_int_id_def addr_get_int_id_from_mac64_def xor.assoc)

lemma u6_addr8_eq_bits: "u6_addr8 a i = u6_addr8 b i \<longleftrightarrow> (\<forall>t<8. addr_bit a (8 * i + t) = addr_bit b (8 * i + t))"
proof -
  have "(\<forall>t<8. addr_bit a (8 * i + t) = addr_bit b (8 * i + t))
      \<longleftrightarrow> (\<forall>t<8. bit (u6_addr8 a i) (7 - t) = bit (u6_addr8 b i) (7 - t))"
    by (simp add: addr_bit_def)
  also have "\<dots> \<longleftrightarrow> (\<forall>t<8. bit (u6_addr8 a i) t = bit (u6_addr8 b i) t)"
  proof (rule iffI; intro allI impI)
    fix t :: nat
    assume "\<forall>t<8. bit (u6_addr8 a i) (7 - t) = bit (u6_addr8 b i) (7 - t)" and "t < 8"
    then have "bit (u6_addr8 a i) (7 - (7 - t)) = bit (u6_addr8 b i) (7 - (7 - t))"
      by (metis diff_less_Suc eval_nat_numeral(2) eval_nat_numeral(3) semiring_norm(26,27))
    with \<open>t < 8\<close> show "bit (u6_addr8 a i) t = bit (u6_addr8 b i) t" by simp
  qed auto
  also have "\<dots> \<longleftrightarrow> u6_addr8 a i = u6_addr8 b i"
    by (auto simp: bit_eq_iff dest: bit_imp_le_length)
  finally show ?thesis by blast
qed

lemma in6_addr_eq_bits: "a = b \<longleftrightarrow> (\<forall>k<128. addr_bit a k = addr_bit b k)"
proof
  assume bits: "\<forall>k<128. addr_bit a k = addr_bit b k"
  show "a = b"
  proof (rule in6_addr_eq_bytes)
    fix i :: nat assume "i < 16"
    then show "u6_addr8 a i = u6_addr8 b i" using bits by (simp add: u6_addr8_eq_bits)
  qed
qed simp

lemma addr_compare_ip_len_refl [simp]: "addr_compare_ip_len a a n = 0"
  by (simp add: addr_compare_ip_len_agrees bits_agree_def)

lemma addr_compare_ip_len_sym: "addr_compare_ip_len a b n = 0 \<longleftrightarrow> addr_compare_ip_len b a n = 0"
  by (auto simp: addr_compare_ip_len_agrees bits_agree_def)

lemma addr_compare_ip_len_trans:
  "addr_compare_ip_len a b n = 0 \<Longrightarrow> addr_compare_ip_len b c n = 0 \<Longrightarrow> addr_compare_ip_len a c n = 0"
  by (simp add: addr_compare_ip_len_agrees bits_agree_def)

lemma addr_compare_ip_len_full: "128 \<le> n \<Longrightarrow> addr_compare_ip_len a b n = 0 \<longleftrightarrow> a = b"
  by (auto simp: addr_compare_ip_len_agrees bits_agree_def in6_addr_eq_bits)

lemma prefix_compare_refl [simp]: "prefix_compare p p = 0"
  by (simp add: prefix_compare_def)

subsection \<open>Global addresses lie in their prefix\<close>

lemma addr_bit_masked_prefix:
  assumes "k < 64"
  shows "addr_bit (pfx\<lparr>u6_addr32_0 := u6_addr32_0 pfx AND ucast (bswap64 (prefix_mask n) AND 0xFFFFFFFF),
      u6_addr32_1 := u6_addr32_1 pfx AND ucast (drop_bit 32 (bswap64 (prefix_mask n))),
      u6_addr32_2 := 0, u6_addr32_3 := 0\<rparr>) k \<longleftrightarrow> k < n \<and> addr_bit pfx k"
    (is "addr_bit ?a k \<longleftrightarrow> _")
proof (cases "k < 32")
  case True
  then obtain t where t: "t < 32" and k: "k = 32 * 0 + net_pos t"
    using net_pos_less [of k] by (metis add_0 mult_0_right net_pos_net_pos)
  show ?thesis
    unfolding k addr_bit_word [OF t] using t
    by (auto simp: u6_addr32_def bit_simps low_mask_ucast swapped_mask_bits)
next
  case False
  then have "net_pos (k - 32) < 32" using assms by (simp add: net_pos_less)
  then obtain t where t: "t < 32" and k: "k = 32 * 1 + net_pos t"
    using False by (metis le_add_diff_inverse linorder_not_less mult_1_right net_pos_net_pos)
  show ?thesis
    unfolding k addr_bit_word [OF t] using t
    by (auto simp: u6_addr32_def bit_simps swapped_mask_bits net_pos_32)
qed

lemma global_ip_bytes:
  "\<exists>pre. length pre = 8 \<and> addr_get_global_ip_from_mac64 p m = in6_of_bytes (pre @ int_id_bytes (addr_get_int_id_from_mac64 m))"
  unfolding addr_get_global_ip_from_mac64_def Let_def
  by (rule exI, rule conjI [rotated], rule refl) simp

lemma addr_bit_global_ip:
  assumes "k < 64"
  shows "addr_bit (addr_get_global_ip_from_mac64 p m) k \<longleftrightarrow>
    k < min 64 (unat (pfx_length p)) \<and> addr_bit (pfx_prefix p) k"
proof -
  define len where "len = (if 64 < pfx_length p then 64 else pfx_length p)"
  define a where "a = (pfx_prefix p)
    \<lparr>u6_addr32_0 := u6_addr32_0 (pfx_prefix p) AND ucast (bswap64 (prefix_mask (unat len)) AND 0xFFFFFFFF),
     u6_addr32_1 := u6_addr32_1 (pfx_prefix p) AND ucast (drop_bit 32 (bswap64 (prefix_mask (unat len)))),
     u6_addr32_2 := 0, u6_addr32_3 := 0\<rparr>"
  have "k div 8 < 8" using assms by simp
  then have byte: "u6_addr8 (addr_get_global_ip_from_mac64 p m) (k div 8) = u6_addr8 a (k div 8)"
    by (simp add: addr_get_global_ip_from_mac64_def Let_def a_def len_def u6_addr8_in6_of_bytes nth_append)
  have "unat len = min 64 (unat (pfx_length p))"
    by (auto simp: len_def word_less_nat_alt min_def)
  with addr_bit_masked_prefix [OF assms, of "pfx_prefix p" "unat len"] byte show ?thesis
    by (simp add: addr_bit_def a_def)
qed

subsection \<open>The properties\<close>

text \<open>
  C28. The masked comparison is exact: it returns 0 when, and only when, the two addresses agree on their
  first \<open>n\<close> bits in network order, for every \<open>n\<close>; and two prefixes are equal when they have the
  same length and agree on that many bits, whatever the bits behind.
\<close>

theorem masked_comparison_exact:
  "(addr_compare_ip_len a b n = 0 \<longleftrightarrow> bits_agree a b 0 128 n)
   \<and> (prefix_compare p q = 0 \<longleftrightarrow> pfx_length p = pfx_length q \<and> bits_agree (pfx_prefix p) (pfx_prefix q) 0 128 (unat (pfx_length p)))"
  by (auto simp: addr_compare_ip_len_agrees prefix_compare_def)

text \<open>
  The MAC address of a node is read back from the local address made of it, and from the global address made of it with any
  prefix.
\<close>

theorem mac_address_round_trip:
  "addr_get_mac64_from_ip (addr_get_local_ip_from_mac64 m) = m \<and> addr_get_mac64_from_ip (addr_get_global_ip_from_mac64 p m) = m"
proof -
  obtain pre where "length pre = 8"
      "addr_get_global_ip_from_mac64 p m = in6_of_bytes (pre @ int_id_bytes (addr_get_int_id_from_mac64 m))"
    using global_ip_bytes by blast
  moreover have "addr_get_local_ip_from_mac64 m = in6_of_bytes ([0xFE, 0x80, 0, 0, 0, 0, 0, 0] @ int_id_bytes (addr_get_int_id_from_mac64 m))"
    by (simp only: addr_get_local_ip_from_mac64_def)
  ultimately show ?thesis
    using mac64_from_ip_of_bytes [of "[0xFE, 0x80, 0, 0, 0, 0, 0, 0]"] mac64_from_ip_of_bytes [of pre] by simp
qed

text \<open>
  The global address of a node lies in its prefix, for every prefix of at most 64 bits, and the bits between the
  end of the prefix and the interface identifier are 0.
\<close>

theorem global_address_in_prefix:
  assumes "unat (pfx_length p) \<le> 64"
  shows "addr_prefix_compare p (addr_get_global_ip_from_mac64 p m) = 0
    \<and> (\<forall>k. unat (pfx_length p) \<le> k \<and> k < 64 \<longrightarrow> \<not> addr_bit (addr_get_global_ip_from_mac64 p m) k)"
  using assms by (auto simp: addr_prefix_compare_def addr_compare_ip_len_agrees bits_agree_def addr_bit_global_ip)

theorem global_address_in_prefix_witness:
  "addr_prefix_compare \<lparr>pfx_length = 16, pfx_prefix = init_ipv6_addr\<lparr>u6_addr32_0 := 0xFFFFB8FC\<rparr>\<rparr>
      (addr_get_global_ip_from_mac64 \<lparr>pfx_length = 16, pfx_prefix = init_ipv6_addr\<lparr>u6_addr32_0 := 0xFFFFB8FC\<rparr>\<rparr> 0x1234) = 0"
  by (rule global_address_in_prefix [THEN conjunct1]) simp

text \<open>
  \<open>addr_compare_wpan\<close> returns the 64-bit difference as an \<open>int\<close>: it takes two addresses for the same when only their
  upper halves differ, and such an address is then not added to a list.
\<close>

theorem wpan_comparison_truncates:
  "addr_compare_wpan (a + push_bit 32 c) a = 0 \<and> addr_wpan_add_to_list (a # as) (a + push_bit 32 c) = (a, a # as)"
proof -
  have "(ucast (push_bit 32 c) :: u32) = 0" by (rule bit_word_eqI) (simp add: bit_simps)
  then have "(ucast (a + push_bit 32 c) :: u32) = ucast a" using ucast_diff_eq_0 [of "a + push_bit 32 c" a] by simp
  then show ?thesis by (simp add: addr_wpan_add_to_list_def addr_list_compare_def addr_compare_wpan_eq_0)
qed

end
