(* ===== verification/Sixlowpan.thy ===== *)
theory Sixlowpan
  imports Address
begin

section \<open>6LoWPAN information\<close>

text \<open>
  Models \<open>src/src/data_info/6lowpan_def.h\<close> and \<open>6lowpan_def.c\<close>: the packet header every parsed
  packet carries, the 6LoWPAN part of a node, and the differences between two of them.
  A difference function writes every field of its result, so it is a function of the two sides;
  \<open>None\<close> is a NULL side. \<open>init_sixlowpan_config\<close> leaves one field alone and takes the old value.
  A \<open>double\<close> is a real number.
\<close>

datatype packet_type =
    PT_None | PT_ICMPv6_Unknown | PT_PING_ECHO | PT_PING_REPLY | PT_NDP_RS | PT_NDP_RA
  | PT_NDP_NS | PT_NDP_NA | PT_NDP_Redirect | PT_6ND_DAR | PT_6ND_DAC | PT_RPL_Unknown
  | PT_DIS | PT_DIO | PT_DAO | PT_UDP | PT_TCP | PT_IPv6_Unknown

record packet_info =
  pkt_src_wpan_address :: addr_wpan
  pkt_dst_wpan_address :: addr_wpan
  pkt_src_ip_address :: in6_addr
  pkt_dst_ip_address :: in6_addr
  pkt_timestamp :: real
  pkt_hop_limit :: c_int
  pkt_type :: packet_type

record sixlowpan_config =
  sc_has_seen_local_address :: bool
  sc_is_custom_local_address :: bool
  sc_local_address :: in6_addr
  sc_has_seen_global_address :: bool
  sc_is_custom_global_address :: bool
  sc_global_address :: in6_addr
  sc_is_prefix_valid :: bool

record sixlowpan_config_delta =
  scd_has_changed :: bool
  scd_local_address :: bool
  scd_global_address :: bool

record sixlowpan_statistics =
  ss_packet_count :: c_int

record sixlowpan_statistics_delta =
  ssd_has_changed :: bool
  ssd_packet_count :: c_int

record sixlowpan_errors =
  se_invalid_ip :: c_int
  se_invalid_prefix :: c_int

record sixlowpan_errors_delta =
  sed_has_changed :: bool
  sed_invalid_ip :: c_int
  sed_invalid_prefix :: c_int

definition init_sixlowpan_config :: "sixlowpan_config \<Rightarrow> sixlowpan_config" where
  "init_sixlowpan_config config = config
     \<lparr>sc_local_address := init_ipv6_addr, sc_global_address := init_ipv6_addr,
      sc_has_seen_local_address := False, sc_is_custom_local_address := False,
      sc_has_seen_global_address := False, sc_is_custom_global_address := False\<rparr>"

definition init_sixlowpan_statistics :: sixlowpan_statistics where
  "init_sixlowpan_statistics = \<lparr>ss_packet_count = 0\<rparr>"

definition init_sixlowpan_statistics_delta :: sixlowpan_statistics_delta where
  "init_sixlowpan_statistics_delta = \<lparr>ssd_has_changed = False, ssd_packet_count = 0\<rparr>"

definition init_sixlowpan_errors :: sixlowpan_errors where
  "init_sixlowpan_errors = \<lparr>se_invalid_ip = 0, se_invalid_prefix = 0\<rparr>"

definition init_sixlowpan_errors_delta :: sixlowpan_errors_delta where
  "init_sixlowpan_errors_delta =
     \<lparr>sed_has_changed = False, sed_invalid_ip = 0, sed_invalid_prefix = 0\<rparr>"

definition sixlowpan_config_delta ::
    "sixlowpan_config option \<Rightarrow> sixlowpan_config option \<Rightarrow> sixlowpan_config_delta" where
  "sixlowpan_config_delta left right =
     (let (local, global) =
        (case (left, right) of
           (None, None) \<Rightarrow> (False, False)
         | (Some l, Some r) \<Rightarrow>
             (addr_compare_ip (sc_local_address r) (sc_local_address l) \<noteq> 0,
              addr_compare_ip (sc_global_address r) (sc_global_address l) \<noteq> 0)
         | _ \<Rightarrow> (True, True))
      in \<lparr>scd_has_changed = (local \<or> global), scd_local_address = local, scd_global_address = global\<rparr>)"

text \<open>
  The difference of an \<open>int\<close> counter, here and in \<open>rpl_def.c\<close>: the right side less the left
  one, or the only side there is.
\<close>

definition int_delta :: "('a \<Rightarrow> c_int) \<Rightarrow> 'a option \<Rightarrow> 'a option \<Rightarrow> c_int" where
  "int_delta field left right =
     (case (left, right) of
        (None, None) \<Rightarrow> 0
      | (Some l, Some r) \<Rightarrow> field r - field l
      | (Some l, None) \<Rightarrow> field l
      | (None, Some r) \<Rightarrow> field r)"

definition sixlowpan_statistics_delta ::
    "sixlowpan_statistics option \<Rightarrow> sixlowpan_statistics option \<Rightarrow> sixlowpan_statistics_delta" where
  "sixlowpan_statistics_delta left right =
     (let n = int_delta ss_packet_count left right
      in \<lparr>ssd_has_changed = (n \<noteq> 0), ssd_packet_count = n\<rparr>)"

definition sixlowpan_errors_delta ::
    "sixlowpan_errors option \<Rightarrow> sixlowpan_errors option \<Rightarrow> sixlowpan_errors_delta" where
  "sixlowpan_errors_delta left right =
     (let ip = int_delta se_invalid_ip left right;
          pfx = int_delta se_invalid_prefix left right
      in \<lparr>sed_has_changed = (ip \<noteq> 0 \<or> pfx \<noteq> 0), sed_invalid_ip = ip, sed_invalid_prefix = pfx\<rparr>)"

lemma int_delta_simps [simp]:
  "int_delta f None None = 0"
  "int_delta f (Some l) (Some r) = f r - f l"
  "int_delta f (Some l) None = f l"
  "int_delta f None (Some r) = f r"
  by (simp_all add: int_delta_def)

lemma sixlowpan_config_delta_changed:
  "scd_has_changed (sixlowpan_config_delta (Some l) (Some r)) \<longleftrightarrow>
     sc_local_address l \<noteq> sc_local_address r \<or> sc_global_address l \<noteq> sc_global_address r"
  by (auto simp: sixlowpan_config_delta_def)

lemma sixlowpan_statistics_delta_changed:
  "ssd_has_changed (sixlowpan_statistics_delta (Some l) (Some r)) \<longleftrightarrow> l \<noteq> r"
  by (auto simp: sixlowpan_statistics_delta_def Let_def)

lemma sixlowpan_errors_delta_changed:
  "sed_has_changed (sixlowpan_errors_delta (Some l) (Some r)) \<longleftrightarrow> l \<noteq> r"
  by (auto simp: sixlowpan_errors_delta_def Let_def)

end
