(* ===== verification/Events.thy ===== *)
theory Events
  imports Sixlowpan
begin

section \<open>References and pending events\<close>

text \<open>
  The references that name the objects of the analyzer (\<open>di_node_ref_t\<close> of
  \<open>src/src/data_info/node.h\<close>, \<open>di_dodag_ref_t\<close> of \<open>dodag.h\<close>, \<open>di_rpl_instance_ref_t\<close> of
  \<open>rpl_instance.h\<close>, \<open>di_link_ref_t\<close> of \<open>link.h\<close>) and the list of pending events of
  \<open>src/src/data_collector/rpl_event_callbacks.c\<close>. A key of an object is its reference alone. The
  list is the doubly linked list \<open>head\<close>, oldest first; \<open>rpl_event_node\<close> and the others are
  given the reference that the code reads from the object. \<open>tracks\<close> is what every setter of
  an object keeps: at most one event, and only when the object had not changed before.
\<close>

record di_node_ref =
  nr_wpan_address :: addr_wpan

record di_dodag_ref =
  dr_dodagid :: in6_addr
  dr_version :: u16

record di_rpl_instance_ref =
  ir_rpl_instance :: u16

record di_link_ref =
  lr_child :: di_node_ref
  lr_parent :: di_node_ref

definition node_ref_init :: "addr_wpan \<Rightarrow> di_node_ref" where
  "node_ref_init wpan_address = \<lparr>nr_wpan_address = wpan_address\<rparr>"

definition dodag_ref_init :: "in6_addr \<Rightarrow> u8 \<Rightarrow> di_dodag_ref" where
  "dodag_ref_init dodag_id dodag_version = \<lparr>dr_dodagid = dodag_id, dr_version = ucast dodag_version\<rparr>"

definition rpl_instance_ref_init :: "u8 \<Rightarrow> di_rpl_instance_ref" where
  "rpl_instance_ref_init rpl_instance = \<lparr>ir_rpl_instance = ucast rpl_instance\<rparr>"

definition link_ref_init :: "di_node_ref \<Rightarrow> di_node_ref \<Rightarrow> di_link_ref" where
  "link_ref_init child parent = \<lparr>lr_child = child, lr_parent = parent\<rparr>"

datatype rpl_event_type = RET_Created | RET_Updated | RET_Deleted

text \<open>\<open>object_type\<close> and the union it selects.\<close>

datatype rpl_event =
    ROT_Node rpl_event_type di_node_ref
  | ROT_Dodag rpl_event_type di_dodag_ref
  | ROT_Link rpl_event_type di_link_ref
  | ROT_RplInstance rpl_event_type di_rpl_instance_ref
  | ROT_Packet c_int packet_info

definition rpl_event_packet :: "c_int \<Rightarrow> packet_info \<Rightarrow> rpl_event list \<Rightarrow> rpl_event list" where
  "rpl_event_packet packet_id pkt_info head = head @ [ROT_Packet packet_id pkt_info]"

definition rpl_event_node :: "di_node_ref \<Rightarrow> rpl_event_type \<Rightarrow> rpl_event list \<Rightarrow> rpl_event list" where
  "rpl_event_node ref type head = head @ [ROT_Node type ref]"

definition rpl_event_dodag :: "di_dodag_ref \<Rightarrow> rpl_event_type \<Rightarrow> rpl_event list \<Rightarrow> rpl_event list" where
  "rpl_event_dodag ref type head = head @ [ROT_Dodag type ref]"

definition rpl_event_link :: "di_link_ref \<Rightarrow> rpl_event_type \<Rightarrow> rpl_event list \<Rightarrow> rpl_event list" where
  "rpl_event_link ref type head = head @ [ROT_Link type ref]"

definition rpl_event_rpl_instance ::
    "di_rpl_instance_ref \<Rightarrow> rpl_event_type \<Rightarrow> rpl_event list \<Rightarrow> rpl_event list" where
  "rpl_event_rpl_instance ref type head = head @ [ROT_RplInstance type ref]"

subsection \<open>The events of one kind\<close>

fun node_event :: "rpl_event \<Rightarrow> (rpl_event_type \<times> di_node_ref) option" where
  "node_event (ROT_Node t r) = Some (t, r)"
| "node_event _ = None"

fun dodag_event :: "rpl_event \<Rightarrow> (rpl_event_type \<times> di_dodag_ref) option" where
  "dodag_event (ROT_Dodag t r) = Some (t, r)"
| "dodag_event _ = None"

fun link_event :: "rpl_event \<Rightarrow> (rpl_event_type \<times> di_link_ref) option" where
  "link_event (ROT_Link t r) = Some (t, r)"
| "link_event _ = None"

fun rpl_instance_event :: "rpl_event \<Rightarrow> (rpl_event_type \<times> di_rpl_instance_ref) option" where
  "rpl_instance_event (ROT_RplInstance t r) = Some (t, r)"
| "rpl_instance_event _ = None"

definition events_of :: "(rpl_event \<Rightarrow> 'e option) \<Rightarrow> rpl_event list \<Rightarrow> 'e list" where
  "events_of kind head = List.map_filter kind head"

lemma events_of_simps [simp]:
  "events_of kind [] = []"
  "events_of kind (xs @ ys) = events_of kind xs @ events_of kind ys"
  by (simp_all add: events_of_def List.map_filter_def)

lemma events_of_Cons:
  "events_of kind (e # es) = (case kind e of None \<Rightarrow> events_of kind es | Some x \<Rightarrow> x # events_of kind es)"
  by (simp add: events_of_def List.map_filter_def split: option.split)

lemma events_of_single [simp]:
  "events_of node_event [ROT_Node t r] = [(t, r)]"
  "events_of node_event [ROT_Dodag t d] = []"
  "events_of node_event [ROT_Link t l] = []"
  "events_of node_event [ROT_RplInstance t i] = []"
  "events_of node_event [ROT_Packet n p] = []"
  "events_of dodag_event [ROT_Node t r] = []"
  "events_of dodag_event [ROT_Dodag t d] = [(t, d)]"
  "events_of dodag_event [ROT_Link t l] = []"
  "events_of dodag_event [ROT_RplInstance t i] = []"
  "events_of dodag_event [ROT_Packet n p] = []"
  "events_of link_event [ROT_Node t r] = []"
  "events_of link_event [ROT_Dodag t d] = []"
  "events_of link_event [ROT_Link t l] = [(t, l)]"
  "events_of link_event [ROT_RplInstance t i] = []"
  "events_of link_event [ROT_Packet n p] = []"
  "events_of rpl_instance_event [ROT_Node t r] = []"
  "events_of rpl_instance_event [ROT_Dodag t d] = []"
  "events_of rpl_instance_event [ROT_Link t l] = []"
  "events_of rpl_instance_event [ROT_RplInstance t i] = [(t, i)]"
  "events_of rpl_instance_event [ROT_Packet n p] = []"
  by (simp_all add: events_of_Cons)

subsection \<open>What the setters of an object do to the event list\<close>

text \<open>
  An operation that \<open>tracks\<close> takes an object and the pending events and leaves the key alone;
  either the object's \<open>has_changed\<close> flag and the events stay, or the flag goes up and one
  update event of the object is appended.
\<close>

named_theorems tracking "the setters track their object"

type_synonym 'o tracked = "'o \<times> rpl_event list"

definition tracks ::
    "('o \<Rightarrow> 'r) \<Rightarrow> ('o \<Rightarrow> bool) \<Rightarrow> (rpl_event_type \<Rightarrow> 'r \<Rightarrow> rpl_event) \<Rightarrow> 'o tracked \<Rightarrow> 'o tracked \<Rightarrow> bool" where
  "tracks key changed ev s s' \<longleftrightarrow> key (fst s') = key (fst s) \<and>
     (changed (fst s') = changed (fst s) \<and> snd s' = snd s
      \<or> \<not> changed (fst s) \<and> changed (fst s') \<and> snd s' = snd s @ [ev RET_Updated (key (fst s))])"

lemma tracks_refl [simp]: "tracks key changed ev s s"
  by (simp add: tracks_def)

lemma tracks_trans: "tracks key changed ev s t \<Longrightarrow> tracks key changed ev t u \<Longrightarrow> tracks key changed ev s u"
  by (auto simp: tracks_def)

lemma tracks_field: "key x' = key x \<Longrightarrow> changed x' = changed x \<Longrightarrow> tracks key changed ev (x, h) (x', h)"
  by (simp add: tracks_def)

lemma tracks_from: "key x' = key x \<Longrightarrow> changed x' = changed x \<Longrightarrow> tracks key changed ev (x', h) s
    \<Longrightarrow> tracks key changed ev (x, h) s"
  by (simp add: tracks_def)

end
