(* ===== verification/Family.thy ===== *)
theory Family
  imports HashContainer Events
begin

section \<open>Versioned families of objects\<close>

text \<open>
  What \<open>src/src/data_info/rpl_data.c\<close> does in the same way for nodes, DODAGs, RPL instances and
  links: \<open>collected_data.nodes\<close> maps a version to the container of the objects of that version,
  each container maps a reference to a pointer; version 0 is the working version, and
  \<open>node_last_version\<close> is the last one made. A family is these three things for one kind of
  object: the heap of the objects, the containers by version (a container is stored under one
  version only, so it is kept by value) and the last version. The polymorphic functions are the
  text the four C functions share; the theory \<open>RplData\<close> instantiates them.

  The locale \<open>versioned_object\<close> says what the loop of \<open>rpldata_add_node_version\<close> relies on; the
  lemmas proved in it show that a new version is a snapshot of the working objects that leaves
  every older version alone.
\<close>

record ('r, 'o) family =
  fm_heap :: "'o heap"
  fm_versions :: "(u32, ('r, nat) hash_container) hash_container"
  fm_last :: u32

definition new_container :: "('r, nat) hash_container" where
  "new_container = hash_create (\<lambda>_. 0)"

text \<open>The part of \<open>rpldata_init\<close> for one kind of object.\<close>

definition fam_init :: "'o heap \<Rightarrow> ('r, 'o) family" where
  "fam_init heap =
     (let (_, _, _, versions) = hash_add (hash_create (\<lambda>_. new_container)) 0 (Some new_container) HAM_NoCheck
      in \<lparr>fm_heap = heap, fm_versions = versions, fm_last = 0\<rparr>)"

text \<open>The container stored under a version: the inner \<open>None\<close> is the NULL of \<open>hash_value\<close>.\<close>

definition fam_container :: "u32 \<Rightarrow> ('r, 'o) family \<Rightarrow> ('r, nat) hash_container option option" where
  "fam_container version fam =
     do { (ptr, _, _) \<leftarrow> hash_value (fm_versions fam) version HVM_FailIfNonExistant; Some ptr }"

text \<open>A change made to that container through its pointer.\<close>

definition fam_set_container :: "u32 \<Rightarrow> ('r, nat) hash_container \<Rightarrow> ('r, 'o) family \<Rightarrow> ('r, 'o) family" where
  "fam_set_container version c fam =
     (case hash_find_el (fm_versions fam) version of
        None \<Rightarrow> fam
      | Some e \<Rightarrow> fam\<lparr>fm_versions := hash_set_data (el_id e) c (fm_versions fam)\<rparr>)"

definition fam_store :: "nat \<Rightarrow> 'o \<Rightarrow> ('r, 'o) family \<Rightarrow> ('r, 'o) family" where
  "fam_store p obj fam = fam\<lparr>fm_heap := heap_put p obj (fm_heap fam)\<rparr>"

definition fam_load :: "nat \<Rightarrow> ('r, 'o) family \<Rightarrow> 'o option" where
  "fam_load p fam = hp_map (fm_heap fam) p"

subsection \<open>Finding or creating an object\<close>

text \<open>
  \<open>'e\<close> is what \<open>onInit\<close> changes besides the object: the pending events, and for nodes the
  counter of identifiers. The result: the pointer, \<open>was_created\<close>, the container, the heap, \<open>'e\<close>.
\<close>

definition rpldata_get_object ::
    "('r \<Rightarrow> 'e \<Rightarrow> 'o \<times> 'e) \<Rightarrow> 'r \<Rightarrow> hash_value_mode \<Rightarrow> ('r, nat) hash_container \<Rightarrow> 'o heap \<Rightarrow> 'e
      \<Rightarrow> (nat \<times> bool \<times> ('r, nat) hash_container \<times> 'o heap \<times> 'e) option" where
  "rpldata_get_object onInit key value_mode container heap env =
     do { (new_node_ptr, _, _) \<leftarrow> hash_value container key HVM_FailIfNonExistant;
          let new_node = (case new_node_ptr of Some p \<Rightarrow> p | None \<Rightarrow> 0);
          if new_node = 0 \<and> value_mode = HVM_CreateIfNonExistant then
            (let (obj, env') = onInit key env;
                 (p, heap') = heap_alloc obj heap;
                 (_, _, _, container') = hash_add container key (Some p) HAM_NoCheck
             in Some (p, True, container', heap', env'))
          else Some (new_node, False, container, heap, env) }"

text \<open>The same on a family, with the container of a version.\<close>

definition fam_get_object ::
    "('r \<Rightarrow> 'e \<Rightarrow> 'o \<times> 'e) \<Rightarrow> 'r \<Rightarrow> hash_value_mode \<Rightarrow> u32 \<Rightarrow> ('r, 'o) family \<Rightarrow> 'e
      \<Rightarrow> (nat \<times> bool \<times> ('r, 'o) family \<times> 'e) option" where
  "fam_get_object onInit key value_mode version fam env =
     do { ptr \<leftarrow> fam_container version fam;
          container \<leftarrow> ptr;
          (p, was_created, container', heap', env') \<leftarrow>
            rpldata_get_object onInit key value_mode container (fm_heap fam) env;
          Some (p, was_created,
                if was_created then fam_set_container version container' (fam\<lparr>fm_heap := heap'\<rparr>) else fam,
                env') }"

subsection \<open>Making a version\<close>

text \<open>The object of the last version that a reference leads to, as \<open>node_fill_delta\<close> reads it.\<close>

definition last_object :: "('r, nat) hash_container \<Rightarrow> 'r \<Rightarrow> 'o heap \<Rightarrow> 'o option option" where
  "last_object last_container ref heap =
     do { (ptr, _, _) \<leftarrow> hash_value last_container ref HVM_FailIfNonExistant;
          case ptr of
            None \<Rightarrow> Some None
          | Some q \<Rightarrow> if q = 0 then Some None else map_option Some (hp_map heap q) }"

text \<open>
  The body of the loop. \<open>with_prev\<close> tells the loop of the nodes, which fills the differences with
  the last version and accepts that there is none, from the other three, which do neither.
  \<open>dup\<close> returns the copy and what it leaves of the original; \<open>score\<close> counts the errors.
\<close>

definition version_step ::
    "bool \<Rightarrow> ('o \<Rightarrow> 'r) \<Rightarrow> ('o \<Rightarrow> bool) \<Rightarrow> ('o \<Rightarrow> 'o) \<Rightarrow> ('o \<Rightarrow> ('o \<times> 'o) option) \<Rightarrow> ('o \<Rightarrow> 'o option \<Rightarrow> 'o)
      \<Rightarrow> ('o \<Rightarrow> u32) \<Rightarrow> ('r, nat) hash_container \<Rightarrow> 'r \<times> nat
      \<Rightarrow> 'o heap \<times> ('r, nat) hash_container \<times> u32 \<Rightarrow> ('o heap \<times> ('r, nat) hash_container \<times> u32) option" where
  "version_step with_prev key changed reset dup fill score last_container item state =
     (let (_, p) = item; (heap, new_version_container, errors) = state in
      do { obj \<leftarrow> hp_map heap p;
           let ref = key obj;
           if changed obj then
             do { (copy, obj') \<leftarrow> dup (reset obj);
                  let heap = heap_put p obj' heap;
                  prev \<leftarrow> (if with_prev then last_object last_container ref heap else Some None);
                  let new_obj = fill copy prev;
                  let (q, heap) = heap_alloc new_obj heap;
                  let (_, _, _, new_version_container) = hash_add new_version_container ref (Some q) HAM_NoCheck;
                  Some (heap, new_version_container, errors + score new_obj) }
           else
             do { (ptr, _, _) \<leftarrow> hash_value last_container ref HVM_FailIfNonExistant;
                  q \<leftarrow> (case ptr of Some q \<Rightarrow> Some q | None \<Rightarrow> if with_prev then Some 0 else None);
                  let (_, _, _, new_version_container) = hash_add new_version_container ref (Some q) HAM_NoCheck;
                  Some (heap, new_version_container, errors) } })"

definition add_version ::
    "bool \<Rightarrow> ('o \<Rightarrow> 'r) \<Rightarrow> ('o \<Rightarrow> bool) \<Rightarrow> ('o \<Rightarrow> 'o) \<Rightarrow> ('o \<Rightarrow> ('o \<times> 'o) option) \<Rightarrow> ('o \<Rightarrow> 'o option \<Rightarrow> 'o)
      \<Rightarrow> ('o \<Rightarrow> u32) \<Rightarrow> ('r, nat) hash_container \<Rightarrow> ('r, 'o) family \<Rightarrow> (u32 \<times> u32 \<times> ('r, 'o) family) option" where
  "add_version with_prev key changed reset dup fill score working_container fam =
     (let new_version = fm_last fam + 1; old_version = new_version - 1 in
      do { last_ptr \<leftarrow> fam_container old_version fam;
           last_container \<leftarrow> last_ptr;
           (heap, new_version_container, errors) \<leftarrow>
             each (version_step with_prev key changed reset dup fill score last_container)
               (hash_items working_container) (fm_heap fam, new_container, 0);
           let (_, _, _, versions) =
             hash_add (fm_versions fam) new_version (Some new_version_container) HAM_NoCheck;
           Some (new_version, errors, fam\<lparr>fm_heap := heap, fm_versions := versions, fm_last := new_version\<rparr>) })"

subsection \<open>Well-formed families\<close>

lemma word_succ_unat: "x + 1 \<noteq> 0 \<Longrightarrow> unat (x + 1 :: 'a::len word) = Suc (unat x)"
  using unatSuc [of x] by (simp add: add.commute)

lemma word_succ_less: "x + 1 \<noteq> 0 \<Longrightarrow> (x :: 'a::len word) < x + 1"
  by (simp add: word_less_nat_alt word_succ_unat)

lemma word_le_succ: "x + 1 \<noteq> 0 \<Longrightarrow> (w :: 'a::len word) \<le> x + 1 \<longleftrightarrow> w \<le> x \<or> w = x + 1"
  by (auto simp: word_le_nat_alt word_unat_eq_iff word_succ_unat)

text \<open>The pointers of a container lead to objects that carry the reference they are found under.\<close>

definition container_ok :: "('o \<Rightarrow> 'r) \<Rightarrow> ('o \<Rightarrow> bool) \<Rightarrow> 'o heap \<Rightarrow> ('r, nat) hash_container \<Rightarrow> bool" where
  "container_ok key good heap c \<longleftrightarrow> hash_ok c \<and>
     (\<forall>r p. hash_map c r = Some p \<longrightarrow> (\<exists>obj. hp_map heap p = Some obj \<and> key obj = r \<and> good obj))"

definition working :: "('r, 'o) family \<Rightarrow> ('r, nat) hash_container" where
  "working fam = (case hash_map (fm_versions fam) 0 of Some c \<Rightarrow> c | None \<Rightarrow> new_container)"

definition version_at :: "u32 \<Rightarrow> ('r, 'o) family \<Rightarrow> 'r \<rightharpoonup> nat" where
  "version_at v fam = (case hash_map (fm_versions fam) v of Some c \<Rightarrow> hash_map c | None \<Rightarrow> Map.empty)"

text \<open>
  The versions are 0 to the last one, all containers are well-formed, and no version shares an
  object with the working one.
\<close>

definition fam_ok :: "('o \<Rightarrow> 'r) \<Rightarrow> ('o \<Rightarrow> bool) \<Rightarrow> ('r, 'o) family \<Rightarrow> bool" where
  "fam_ok key good fam \<longleftrightarrow> heap_ok (fm_heap fam) \<and> hash_ok (fm_versions fam)
     \<and> (\<forall>v. hash_map (fm_versions fam) v \<noteq> None \<longleftrightarrow> v \<le> fm_last fam)
     \<and> (\<forall>v c. hash_map (fm_versions fam) v = Some c \<longrightarrow> container_ok key good (fm_heap fam) c)
     \<and> (\<forall>v r q. 0 < v \<longrightarrow> version_at v fam r = Some q \<longrightarrow> q \<notin> ran (hash_map (working fam)))"

text \<open>
  The pending events of the kind account for the working objects: a changed object has an event
  pending, an unchanged one is in the last version; an event names a working object, or if it
  is a deletion, an object of the last version.
\<close>

definition fam_pending ::
    "('o \<Rightarrow> bool) \<Rightarrow> ('r, 'o) family \<Rightarrow> (rpl_event_type \<times> 'r) list \<Rightarrow> bool" where
  "fam_pending changed fam evs \<longleftrightarrow>
     (\<forall>r p obj. hash_map (working fam) r = Some p \<longrightarrow> hp_map (fm_heap fam) p = Some obj \<longrightarrow>
        (if changed obj then evs \<noteq> [] else fm_last fam \<noteq> 0 \<and> r \<in> dom (version_at (fm_last fam) fam)))
     \<and> (\<forall>(t, r)\<in>set evs.
          if t = RET_Deleted then fm_last fam \<noteq> 0 \<and> r \<in> dom (version_at (fm_last fam) fam)
          else r \<in> dom (hash_map (working fam)))"

subsection \<open>Reading and storing\<close>

lemma fam_okD:
  assumes "fam_ok key good fam"
  shows "heap_ok (fm_heap fam)" "hash_ok (fm_versions fam)"
    "hash_map (fm_versions fam) v \<noteq> None \<longleftrightarrow> v \<le> fm_last fam"
    "hash_map (fm_versions fam) v = Some c \<Longrightarrow> container_ok key good (fm_heap fam) c"
    "0 < v \<Longrightarrow> version_at v fam r = Some q \<Longrightarrow> hash_map (working fam) r' = Some p \<Longrightarrow> p \<noteq> q"
  using assms unfolding fam_ok_def ran_def by blast+

lemma fam_container_eq: "fam_ok key good fam \<Longrightarrow> fam_container v fam = Some (hash_map (fm_versions fam) v)"
  by (simp add: fam_container_def hash_value_find fam_okD)

lemma working_Some: "fam_ok key good fam \<Longrightarrow> hash_map (fm_versions fam) 0 = Some (working fam)"
  using fam_okD(3) [of key good fam 0] by (auto simp: working_def)

lemma working_ok: "fam_ok key good fam \<Longrightarrow> container_ok key good (fm_heap fam) (working fam)"
  by (rule fam_okD(4) [OF _ working_Some])

lemma version_at_0: "fam_ok key good fam \<Longrightarrow> version_at 0 fam = hash_map (working fam)"
  by (simp add: version_at_def working_Some)

lemma working_object:
  assumes "fam_ok key good fam" "hash_map (working fam) r = Some p"
  shows "\<exists>obj. hp_map (fm_heap fam) p = Some obj \<and> key obj = r \<and> good obj"
  using working_ok [OF assms(1)] assms(2) by (simp add: container_ok_def)

lemma version_object:
  assumes "fam_ok key good fam" "version_at v fam r = Some p"
  shows "\<exists>obj. hp_map (fm_heap fam) p = Some obj \<and> key obj = r \<and> good obj"
  using fam_okD(4) [OF assms(1), of v] assms(2) by (auto simp: version_at_def container_ok_def split: option.splits)

lemma heap_ok_pos: "heap_ok h \<Longrightarrow> hp_map h p = Some obj \<Longrightarrow> 0 < p"
  by (auto simp: heap_ok_def)

lemma working_pos: "fam_ok key good fam \<Longrightarrow> hash_map (working fam) r = Some p \<Longrightarrow> 0 < p"
  using working_object heap_ok_pos fam_okD(1) by metis

lemma working_inj:
  "fam_ok key good fam \<Longrightarrow> hash_map (working fam) r = Some p \<Longrightarrow> hash_map (working fam) r' = Some p \<Longrightarrow> r = r'"
  using working_object [of key good fam r p] working_object [of key good fam r' p] by auto

lemma fam_store_simps [simp]:
  "fm_versions (fam_store p obj fam) = fm_versions fam"
  "fm_last (fam_store p obj fam) = fm_last fam"
  "working (fam_store p obj fam) = working fam"
  "version_at v (fam_store p obj fam) = version_at v fam"
  "hp_map (fm_heap (fam_store p obj fam)) = (hp_map (fm_heap fam))(p \<mapsto> obj)"
  by (simp_all add: fam_store_def working_def version_at_def)

lemma container_ok_put:
  assumes "container_ok key good h c" "hp_map h p = Some obj" "key obj' = key obj" "good obj'"
  shows "container_ok key good (heap_put p obj' h) c"
  using assms unfolding container_ok_def by (auto, metis option.inject)

lemma fam_store_ok:
  fixes key :: "'o \<Rightarrow> 'r"
  assumes "fam_ok key good fam" "hp_map (fm_heap fam) p = Some obj" "key obj' = key obj" "good obj'"
  shows "fam_ok key good (fam_store p obj' fam)"
proof -
  have "container_ok key good (heap_put p obj' (fm_heap fam)) c"
    if "container_ok key good (fm_heap fam) c" for c :: "('r, nat) hash_container"
    by (rule container_ok_put [OF that assms(2-4)])
  moreover have "heap_ok (heap_put p obj' (fm_heap fam))"
    using assms(1,2) by (intro heap_ok_put) (auto simp: fam_ok_def)
  ultimately show ?thesis
    using assms(1) unfolding fam_ok_def by (simp add: fam_store_def version_at_def working_def)
qed

lemma fam_pendingD:
  assumes "fam_pending changed fam evs"
  shows "hash_map (working fam) r = Some p \<Longrightarrow> hp_map (fm_heap fam) p = Some obj \<Longrightarrow> changed obj \<Longrightarrow> evs \<noteq> []"
    and "hash_map (working fam) r = Some p \<Longrightarrow> hp_map (fm_heap fam) p = Some obj \<Longrightarrow> \<not> changed obj
      \<Longrightarrow> fm_last fam \<noteq> 0 \<and> r \<in> dom (version_at (fm_last fam) fam)"
    and "(t, r) \<in> set evs \<Longrightarrow> t \<noteq> RET_Deleted \<Longrightarrow> r \<in> dom (hash_map (working fam))"
    and "(RET_Deleted, r) \<in> set evs \<Longrightarrow> fm_last fam \<noteq> 0 \<and> r \<in> dom (version_at (fm_last fam) fam)"
  using assms unfolding fam_pending_def by (meson, meson, fastforce, fastforce)

text \<open>A tracking setter on a working object keeps the events in step.\<close>

lemma fam_store_pending:
  assumes fam: "fam_ok key good fam" and pend: "fam_pending changed fam evs"
    and obj: "hash_map (working fam) r = Some p" "hp_map (fm_heap fam) p = Some obj"
    and step: "changed obj' = changed obj \<and> evs' = evs
      \<or> \<not> changed obj \<and> changed obj' \<and> evs' = evs @ [(RET_Updated, key obj)]"
  shows "fam_pending changed (fam_store p obj' fam) evs'"
proof -
  have "key obj = r" using working_object [OF fam obj(1)] obj(2) by auto
  with pend obj step show ?thesis
    unfolding fam_pending_def by (auto split: if_splits)
qed

text \<open>An object of an older version is not a working object.\<close>

lemma fam_store_snapshot_pending:
  assumes fam: "fam_ok key good fam" and pend: "fam_pending changed fam evs"
    and obj: "version_at v fam r = Some q" "0 < v"
  shows "fam_pending changed (fam_store q obj' fam) evs"
  using pend fam_okD(5) [OF fam obj(2,1)] unfolding fam_pending_def by (auto split: if_splits)

subsection \<open>Finding or creating\<close>

lemma fam_set_container_0:
  assumes "fam_ok key good fam"
  shows "hash_map (fm_versions (fam_set_container 0 c fam)) = (hash_map (fm_versions fam))(0 \<mapsto> c)"
    and "hash_ok (fm_versions (fam_set_container 0 c fam))"
    and "fm_last (fam_set_container 0 c fam) = fm_last fam"
    and "fm_heap (fam_set_container 0 c fam) = fm_heap fam"
    and "working (fam_set_container 0 c fam) = c"
    and "v \<noteq> 0 \<Longrightarrow> version_at v (fam_set_container 0 c fam) = version_at v fam"
proof -
  have ok: "hash_ok (fm_versions fam)" by (rule fam_okD [OF assms])
  obtain e where e: "hash_find_el (fm_versions fam) 0 = Some e"
    using working_Some [OF assms] hash_map_find [OF ok, of 0] by auto
  from hash_find_el_Some [OF e] have e': "e \<in> set (hc_els (fm_versions fam))" "el_key e = 0" by simp_all
  have m: "hash_map (hash_set_data (el_id e) c (fm_versions fam)) = (hash_map (fm_versions fam))(0 \<mapsto> c)"
    using hash_set_data_map [OF ok e'(1), of c] e'(2) by simp
  show "hash_map (fm_versions (fam_set_container 0 c fam)) = (hash_map (fm_versions fam))(0 \<mapsto> c)"
    and "hash_ok (fm_versions (fam_set_container 0 c fam))"
    and "fm_last (fam_set_container 0 c fam) = fm_last fam"
    and "fm_heap (fam_set_container 0 c fam) = fm_heap fam"
    and "working (fam_set_container 0 c fam) = c"
    and "v \<noteq> 0 \<Longrightarrow> version_at v (fam_set_container 0 c fam) = version_at v fam"
    using m hash_set_data_ok [OF ok]
    by (simp_all add: fam_set_container_def e working_def version_at_def)
qed

lemma fam_set_container_heap:
  "fam_set_container v c (fam\<lparr>fm_heap := h\<rparr>) = (fam_set_container v c fam)\<lparr>fm_heap := h\<rparr>"
  by (simp add: fam_set_container_def split: option.split)

lemma fam_find_object:
  assumes "fam_ok key good fam" "hash_map (working fam) k = Some p"
  shows "fam_get_object onInit k mode 0 fam env = Some (p, False, fam, env)"
  using assms working_pos [OF assms] working_ok [OF assms(1)]
  by (simp add: fam_get_object_def fam_container_eq working_Some rpldata_get_object_def
      hash_value_find container_ok_def)

lemma fam_find_nothing:
  assumes "fam_ok key good fam" "hash_map (working fam) k = None"
  shows "fam_get_object onInit k HVM_FailIfNonExistant 0 fam env = Some (0, False, fam, env)"
  using assms working_ok [OF assms(1)]
  by (simp add: fam_get_object_def fam_container_eq working_Some rpldata_get_object_def
      hash_value_find container_ok_def)

text \<open>The family after an object has been created.\<close>

definition fam_create :: "'r \<Rightarrow> 'o \<Rightarrow> ('r, 'o) family \<Rightarrow> ('r, 'o) family" where
  "fam_create k obj fam =
     (fam_set_container 0 (hash_append k (hp_next (fm_heap fam)) (working fam)) fam)
       \<lparr>fm_heap := snd (heap_alloc obj (fm_heap fam))\<rparr>"

lemma fam_create_object:
  assumes "fam_ok key good fam" "hash_map (working fam) k = None"
  shows "fam_get_object onInit k HVM_CreateIfNonExistant 0 fam env =
    Some (hp_next (fm_heap fam), True, fam_create k (fst (onInit k env)) fam, snd (onInit k env))"
  using assms working_ok [OF assms(1)]
  by (simp add: fam_get_object_def fam_container_eq working_Some rpldata_get_object_def
      hash_value_find container_ok_def heap_alloc_def hash_add_nocheck fam_set_container_heap fam_create_def
      case_prod_beta)

lemma fam_create_simps:
  assumes "fam_ok key good fam" "hash_map (working fam) k = None"
  shows "fm_last (fam_create k obj fam) = fm_last fam"
    and "hash_map (working (fam_create k obj fam)) = (hash_map (working fam))(k \<mapsto> hp_next (fm_heap fam))"
    and "hp_map (fm_heap (fam_create k obj fam)) = (hp_map (fm_heap fam))(hp_next (fm_heap fam) \<mapsto> obj)"
    and "v \<noteq> 0 \<Longrightarrow> version_at v (fam_create k obj fam) = version_at v fam"
  using fam_set_container_0 [OF assms(1)] hash_append_map [OF assms(2)]
  by (simp_all add: fam_create_def version_at_def working_def)

lemma fresh_pointer:
  assumes "fam_ok key good fam" "hp_map (fm_heap fam) p = Some obj"
  shows "p \<noteq> hp_next (fm_heap fam)"
  using assms fam_okD(1) by (fastforce simp: heap_ok_def)

lemma container_ok_alloc:
  assumes "container_ok key good h c" "heap_ok h"
  shows "container_ok key good (snd (heap_alloc obj h)) c"
  using assms by (auto simp: container_ok_def heap_ok_def)

lemma fam_create_ok:
  assumes fam: "fam_ok key good fam" and k: "hash_map (working fam) k = None" and obj: "key obj = k" "good obj"
  shows "fam_ok key good (fam_create k obj fam)"
proof -
  let ?p = "hp_next (fm_heap fam)" and ?fam = "fam_create k obj fam"
  have h: "heap_ok (fm_heap fam)" and ok: "hash_ok (working fam)"
    using fam_okD(1) [OF fam] working_ok [OF fam] by (simp_all add: container_ok_def)
  let ?c = "hash_append k ?p (working fam)"
  have v: "hash_map (fm_versions ?fam) = (hash_map (fm_versions fam))(0 \<mapsto> ?c)"
    and vok: "hash_ok (fm_versions ?fam)" and heap: "fm_heap ?fam = snd (heap_alloc obj (fm_heap fam))"
    using fam_set_container_0 [OF fam] by (simp_all add: fam_create_def)
  have "container_ok key good (fm_heap ?fam) ?c"
    using container_ok_alloc [OF working_ok [OF fam] h, of obj] hash_append_ok [OF ok k] obj
    by (auto simp: container_ok_def heap hash_append_map [OF k])
  then have "container_ok key good (fm_heap ?fam) c" if "hash_map (fm_versions ?fam) w = Some c" for w c
    using that container_ok_alloc [OF fam_okD(4) [OF fam] h] by (auto simp: v heap split: if_splits)
  moreover have "q \<notin> ran (hash_map (working ?fam))" if "0 < w" "version_at w ?fam r = Some q" for w r q
  proof -
    have at: "version_at w fam r = Some q" using that fam_create_simps(4) [OF fam k] by simp
    have "q \<noteq> ?p" using version_object [OF fam at] fresh_pointer [OF fam] by blast
    then show ?thesis
      using fam_okD(5) [OF fam that(1) at] k by (auto simp: fam_create_simps(2) [OF fam k] ran_def)
  qed
  moreover have "hash_map (fm_versions ?fam) w \<noteq> None \<longleftrightarrow> w \<le> fm_last ?fam" for w
    using fam_okD(3) [OF fam, of w] by (auto simp: v fam_create_simps(1) [OF fam k])
  ultimately show ?thesis
    using vok heap_ok_alloc [OF h, of obj] unfolding fam_ok_def heap by blast
qed

lemma fam_create_pending:
  assumes fam: "fam_ok key good fam" and k: "hash_map (working fam) k = None"
    and pend: "fam_pending changed fam evs" and obj: "changed obj"
  shows "fam_pending changed (fam_create k obj fam) (evs @ [(RET_Created, k)])"
proof -
  have "p \<noteq> hp_next (fm_heap fam)" if "hash_map (working fam) r = Some p" for r p
    using working_object [OF fam that] fresh_pointer [OF fam] by blast
  then show ?thesis
    using pend obj fam_create_simps [OF fam k]
    unfolding fam_pending_def by (auto split: if_splits)
qed

subsection \<open>A view of the working objects\<close>

definition fam_view :: "('o \<Rightarrow> 'a) \<Rightarrow> ('r, 'o) family \<Rightarrow> 'r \<rightharpoonup> 'a" where
  "fam_view f fam r =
     (case hash_map (working fam) r of None \<Rightarrow> None | Some p \<Rightarrow> map_option f (fam_load p fam))"

lemma fam_view_store:
  assumes fam: "fam_ok key good fam" and p: "hash_map (working fam) r = Some p"
  shows "fam_view f (fam_store p x fam) = (fam_view f fam)(r \<mapsto> f x)"
proof
  fix r' show "fam_view f (fam_store p x fam) r' = ((fam_view f fam)(r \<mapsto> f x)) r'"
  proof (cases "r' = r")
    case True
    then show ?thesis using p by (simp add: fam_view_def fam_load_def)
  next
    case False
    then have "hash_map (working fam) r' \<noteq> Some p" using working_inj [OF fam p] by blast
    with False show ?thesis by (auto simp: fam_view_def fam_load_def split: option.split)
  qed
qed

lemma fam_view_create:
  assumes fam: "fam_ok key good fam" and k: "hash_map (working fam) k = None"
  shows "fam_view f (fam_create k obj fam) = (fam_view f fam)(k \<mapsto> f obj)"
proof
  fix r show "fam_view f (fam_create k obj fam) r = ((fam_view f fam)(k \<mapsto> f obj)) r"
  proof (cases "hash_map (working fam) r")
    case None
    then show ?thesis by (simp add: fam_view_def fam_load_def fam_create_simps [OF fam k])
  next
    case (Some p)
    then have "p \<noteq> hp_next (fm_heap fam)" "r \<noteq> k"
      using working_object [OF fam Some] fresh_pointer [OF fam] k by auto
    with Some show ?thesis by (simp add: fam_view_def fam_load_def fam_create_simps [OF fam k])
  qed
qed

lemma fam_view_Some:
  "fam_ok key good fam \<Longrightarrow> hash_map (working fam) r = Some p \<Longrightarrow> fam_load p fam = Some x \<Longrightarrow> fam_view f fam r = Some (f x)"
  by (simp add: fam_view_def)

lemma fam_view_None: "fam_ok key good fam \<Longrightarrow> fam_view f fam r = None \<longleftrightarrow> hash_map (working fam) r = None"
  using working_object [of key good fam r] by (auto simp: fam_view_def fam_load_def split: option.split)

subsection \<open>Deleting from the working version\<close>

definition fam_remove :: "'r \<Rightarrow> ('r, nat) hash_container \<Rightarrow> ('r, 'o) family \<Rightarrow> bool" where
  "fam_remove k c fam \<longleftrightarrow> hash_ok c \<and> hash_map c = (hash_map (working fam))(k := None)"

lemma fam_remove_ok:
  assumes fam: "fam_ok key good fam" and c: "fam_remove k c fam"
  shows "fam_ok key good (fam_set_container 0 c fam)"
proof -
  let ?fam = "fam_set_container 0 c fam"
  have cok: "container_ok key good (fm_heap fam) c"
    using working_ok [OF fam] c by (simp add: container_ok_def fam_remove_def)
  have "container_ok key good (fm_heap ?fam) c'" if "hash_map (fm_versions ?fam) w = Some c'" for w c'
    using that cok fam_okD(4) [OF fam, of w] by (auto simp: fam_set_container_0 [OF fam] split: if_splits)
  moreover have "q \<notin> ran (hash_map (working ?fam))" if "0 < w" "version_at w ?fam r = Some q" for w r q
    using that fam_okD(5) [OF fam, of w r q] c
    by (auto simp: fam_set_container_0 [OF fam] fam_remove_def ran_def)
  moreover have "hash_map (fm_versions ?fam) w \<noteq> None \<longleftrightarrow> w \<le> fm_last ?fam" for w
    using fam_okD(3) [OF fam, of w] by (auto simp: fam_set_container_0 [OF fam])
  ultimately show ?thesis
    using fam_okD(1) [OF fam] unfolding fam_ok_def by (simp add: fam_set_container_0 [OF fam])
qed

lemma fam_remove_pending:
  assumes fam: "fam_ok key good fam" and c: "fam_remove k c fam" and pend: "fam_pending changed fam evs"
    and obj: "hash_map (working fam) k = Some p" "hp_map (fm_heap fam) p = Some obj" "\<not> changed obj"
    and others: "\<forall>(t, r)\<in>set evs. t = RET_Deleted"
  shows "fam_pending changed (fam_set_container 0 c fam) (evs @ [(RET_Deleted, k)])"
proof -
  have last: "fm_last fam \<noteq> 0" "k \<in> dom (version_at (fm_last fam) fam)"
    using fam_pendingD(2) [OF pend obj] by simp_all
  show ?thesis
    using pend others last c
    unfolding fam_pending_def by (auto simp: fam_set_container_0 [OF fam] fam_remove_def split: if_splits)
qed

subsection \<open>A version is a snapshot\<close>

text \<open>
  What the loop has done with one item of the working container: \<open>h0\<close> is the heap it started
  from, \<open>h\<close> and \<open>nc\<close> are the heap and the new container it has made. A changed object is
  replaced by what \<open>dup\<close> leaves of it and has a new copy, with its differences to the object of
  the last version; in the first version that is the working object itself. An object that has
  not changed is the one of the last version.
\<close>

definition snapped ::
    "bool \<Rightarrow> ('o \<Rightarrow> bool) \<Rightarrow> ('o \<Rightarrow> 'o) \<Rightarrow> ('o \<Rightarrow> ('o \<times> 'o) option) \<Rightarrow> ('o \<Rightarrow> 'o option \<Rightarrow> 'o) \<Rightarrow> ('r, 'o) family
      \<Rightarrow> 'o heap \<Rightarrow> ('r \<rightharpoonup> nat) \<Rightarrow> 'r \<Rightarrow> nat \<Rightarrow> bool" where
  "snapped with_prev changed reset dup fill fam h nc r p \<longleftrightarrow>
     (\<exists>obj q. hp_map (fm_heap fam) p = Some obj \<and> nc r = Some q \<and> q \<notin> ran (hash_map (working fam)) \<and> q < hp_next h \<and>
        (if changed obj then
           hp_next (fm_heap fam) \<le> q \<and>
           (\<exists>copy obj'. dup (reset obj) = Some (copy, obj') \<and> hp_map h p = Some obj' \<and>
              hp_map h q = Some (fill copy
                (if \<not> with_prev then None else if fm_last fam = 0 then Some obj'
                 else Option.bind (version_at (fm_last fam) fam r) (hp_map (fm_heap fam)))))
         else hp_map h p = Some obj \<and> fm_last fam \<noteq> 0 \<and> version_at (fm_last fam) fam r = Some q))"

lemma old_pointer:
  assumes "fam_ok key good fam" "version_at v fam r = Some q" "v \<noteq> 0"
  shows "q < hp_next (fm_heap fam) \<and> q \<notin> ran (hash_map (working fam)) \<and> 0 < q"
  using version_object [OF assms(1,2)] fam_okD(1) [OF assms(1)] fam_okD(5) [OF assms(1) _ assms(2)] assms(3)
  by (auto simp: heap_ok_def ran_def word_gt_0)

lemma working_below:
  assumes "fam_ok key good fam" "hash_map (working fam) r = Some p"
  shows "p < hp_next (fm_heap fam)"
  using working_object [OF assms] fam_okD(1) [OF assms(1)] by (auto simp: heap_ok_def)

lemma hash_append_ran: "hash_map c k = None \<Longrightarrow> ran (hash_map (hash_append k v c)) = insert v (ran (hash_map c))"
  by (simp add: hash_append_map)

text \<open>The object the differences are filled from, once the working object has been replaced by \<open>obj'\<close>.\<close>

lemma last_object_prev:
  assumes fam: "fam_ok key good fam" and p: "hash_map (working fam) r = Some p"
    and last: "hash_map (fm_versions fam) (fm_last fam) = Some last_container"
    and h: "\<forall>q. q < hp_next (fm_heap fam) \<longrightarrow> q \<notin> ran (hash_map (working fam)) \<longrightarrow> hp_map h q = hp_map (fm_heap fam) q"
  shows "last_object last_container r (heap_put p obj' h) = Some (if fm_last fam = 0 then Some obj'
           else Option.bind (version_at (fm_last fam) fam r) (hp_map (fm_heap fam)))"
proof -
  have lok: "hash_ok last_container" "hash_map last_container = version_at (fm_last fam) fam"
    using fam_okD(4) [OF fam last] last by (simp_all add: container_ok_def version_at_def)
  show ?thesis
  proof (cases "fm_last fam = 0 \<or> version_at (fm_last fam) fam r = None")
    case True
    then show ?thesis
      using p working_pos [OF fam p] by (auto simp: last_object_def hash_value_find lok version_at_0 [OF fam])
  next
    case False
    then obtain q where q: "version_at (fm_last fam) fam r = Some q" and n0: "fm_last fam \<noteq> 0" by auto
    then show ?thesis
      using old_pointer [OF fam q n0] p h version_object [OF fam q]
      by (auto simp: last_object_def hash_value_find lok ran_def)
  qed
qed

locale versioned_object =
  fixes key :: "'o \<Rightarrow> 'r"
    and changed :: "'o \<Rightarrow> bool"
    and reset :: "'o \<Rightarrow> 'o"
    and dup :: "'o \<Rightarrow> ('o \<times> 'o) option"
    and fill :: "'o \<Rightarrow> 'o option \<Rightarrow> 'o"
    and good :: "'o \<Rightarrow> bool"
  assumes reset_key: "key (reset x) = key x"
    and reset_changed: "\<not> changed (reset x)"
    and reset_good: "good x \<Longrightarrow> good (reset x)"
    and dup_some: "good x \<Longrightarrow> \<exists>copy x'. dup x = Some (copy, x') \<and> key copy = key x \<and> key x' = key x
      \<and> changed copy = changed x \<and> changed x' = changed x \<and> good copy \<and> good x'"
    and fill_key: "key (fill x prev) = key x"
    and fill_changed: "changed (fill x prev) = changed x"
    and fill_good: "good x \<Longrightarrow> good (fill x prev)"
begin

lemma snapped_working:
  assumes "snapped with_prev changed reset dup fill fam h nc r p" "fam_ok key good fam" "hash_map (working fam) r = Some p"
  shows "\<exists>obj. hp_map h p = Some obj \<and> key obj = r \<and> good obj \<and> \<not> changed obj"
proof -
  obtain obj where obj: "hp_map (fm_heap fam) p = Some obj" "key obj = r" "good obj"
    using working_object [OF assms(2,3)] by blast
  show ?thesis
  proof (cases "changed obj")
    case True
    then obtain copy obj' where "dup (reset obj) = Some (copy, obj')" "hp_map h p = Some obj'"
      using assms(1) obj by (auto simp: snapped_def)
    then show ?thesis
      using dup_some [OF reset_good [OF obj(3)]] obj(2) reset_key reset_changed by auto
  next
    case False
    then show ?thesis using assms(1) obj by (auto simp: snapped_def)
  qed
qed

text \<open>The invariant of the loop, for the items it has done and those still to come.\<close>

definition loop_inv ::
    "bool \<Rightarrow> ('r, 'o) family \<Rightarrow> ('r \<times> nat) list \<Rightarrow> ('r \<times> nat) list \<Rightarrow> 'o heap \<times> ('r, nat) hash_container \<times> u32 \<Rightarrow> bool" where
  "loop_inv with_prev fam did todo state \<longleftrightarrow>
     (case state of (h, nc, errors) \<Rightarrow>
        heap_ok h \<and> hp_next (fm_heap fam) \<le> hp_next h \<and> hash_ok nc
        \<and> dom (hash_map nc) = fst ` set did
        \<and> (\<forall>(r, p)\<in>set todo. hp_map h p = hp_map (fm_heap fam) p)
        \<and> (\<forall>(r, p)\<in>set did. snapped with_prev changed reset dup fill fam h (hash_map nc) r p)
        \<and> (\<forall>q. q < hp_next (fm_heap fam) \<longrightarrow> q \<notin> ran (hash_map (working fam)) \<longrightarrow>
             hp_map h q = hp_map (fm_heap fam) q))"

text \<open>One turn of the loop, first on a changed object, then on one that has not changed.\<close>

lemma version_step_changed:
  assumes fam: "fam_ok key good fam" and p: "hash_map (working fam) r = Some p"
    and last: "hash_map (fm_versions fam) (fm_last fam) = Some last_container"
    and h: "\<forall>q. q < hp_next (fm_heap fam) \<longrightarrow> q \<notin> ran (hash_map (working fam)) \<longrightarrow> hp_map h q = hp_map (fm_heap fam) q"
      "hp_next (fm_heap fam) \<le> hp_next h"
    and obj: "hp_map (fm_heap fam) p = Some obj" "hp_map h p = Some obj" "changed obj"
  shows "\<exists>obj' new e. version_step with_prev key changed reset dup fill score last_container (r, p) (h, nc, errors)
        = Some (snd (heap_alloc new (heap_put p obj' h)), hash_append r (hp_next h) nc, e)
      \<and> (hash_map nc r = None \<longrightarrow> snapped with_prev changed reset dup fill fam
           (snd (heap_alloc new (heap_put p obj' h))) (hash_map (hash_append r (hp_next h) nc)) r p)"
proof -
  have key: "key obj = r" and good: "good obj" using working_object [OF fam p] obj(1) by auto
  obtain copy obj' where dup: "dup (reset obj) = Some (copy, obj')"
    using dup_some [OF reset_good [OF good]] by blast
  define prev where "prev = (if \<not> with_prev then None else if fm_last fam = 0 then Some obj'
       else Option.bind (version_at (fm_last fam) fam r) (hp_map (fm_heap fam)))"
  have "(if with_prev then last_object last_container r (heap_put p obj' h) else Some None) = Some prev"
    using last_object_prev [OF fam p last h(1)] by (simp add: prev_def)
  then have "version_step with_prev key changed reset dup fill score last_container (r, p) (h, nc, errors)
      = Some (snd (heap_alloc (fill copy prev) (heap_put p obj' h)), hash_append r (hp_next h) nc,
              errors + score (fill copy prev))"
    using obj key dup
    by (cases with_prev) (simp_all add: version_step_def Let_def heap_alloc_def hash_add_nocheck case_prod_beta)
  moreover have "p < hp_next h" "hp_next h \<notin> ran (hash_map (working fam))"
    using working_below [OF fam] p h(2) by (fastforce simp: ran_def)+
  ultimately show ?thesis
    using obj dup h(2) unfolding prev_def by (fastforce simp: snapped_def hash_append_map)
qed

lemma version_step_unchanged:
  assumes fam: "fam_ok key good fam" and pend: "fam_pending changed fam evs" and p: "hash_map (working fam) r = Some p"
    and last: "hash_map (fm_versions fam) (fm_last fam) = Some last_container"
    and h: "hp_next (fm_heap fam) \<le> hp_next h"
    and obj: "hp_map (fm_heap fam) p = Some obj" "hp_map h p = Some obj" "\<not> changed obj"
  shows "\<exists>q. version_step with_prev key changed reset dup fill score last_container (r, p) (h, nc, errors)
        = Some (h, hash_append r q nc, errors)
      \<and> (hash_map nc r = None \<longrightarrow> snapped with_prev changed reset dup fill fam h (hash_map (hash_append r q nc)) r p)"
proof -
  have lok: "hash_ok last_container" "hash_map last_container = version_at (fm_last fam) fam"
    using fam_okD(4) [OF fam last] last by (simp_all add: container_ok_def version_at_def)
  obtain q where q: "version_at (fm_last fam) fam r = Some q" "fm_last fam \<noteq> 0"
    using fam_pendingD(2) [OF pend p obj(1,3)] by auto
  have "key obj = r" using working_object [OF fam p] obj(1) by auto
  then have "version_step with_prev key changed reset dup fill score last_container (r, p) (h, nc, errors)
      = Some (h, hash_append r q nc, errors)"
    using obj q by (simp add: version_step_def Let_def hash_add_nocheck hash_value_find lok)
  then show ?thesis
    using obj q h old_pointer [OF fam q] by (auto simp: snapped_def hash_append_map)
qed

text \<open>What was done for the other items stays done.\<close>

definition agrees_below :: "nat \<Rightarrow> 'o heap \<Rightarrow> 'o heap \<Rightarrow> bool" where
  "agrees_below p h h' \<longleftrightarrow> hp_next h \<le> hp_next h' \<and> (\<forall>p'. p' \<noteq> p \<longrightarrow> p' < hp_next h \<longrightarrow> hp_map h' p' = hp_map h p')"

lemma snapped_other:
  assumes "snapped with_prev changed reset dup fill fam h nc r' p'" "r' \<noteq> r" "p' \<noteq> p" "p' < hp_next h"
    and p: "p \<in> ran (hash_map (working fam))" and h': "agrees_below p h h'"
  shows "snapped with_prev changed reset dup fill fam h' (nc(r \<mapsto> q)) r' p'"
proof -
  obtain obj q' where *: "hp_map (fm_heap fam) p' = Some obj" "nc r' = Some q'"
      "q' \<notin> ran (hash_map (working fam))" "q' < hp_next h"
    using assms(1) by (auto simp: snapped_def)
  moreover have "q' \<noteq> p" using *(3) p by auto
  ultimately show ?thesis
    using assms(1-4) h' by (auto simp: snapped_def agrees_below_def split: if_splits)
qed

lemma loop_inv_extend:
  assumes inv: "loop_inv with_prev fam did ((r, p) # todo) (h, nc, errors)"
    and nc_r: "hash_map nc r = None" and p: "p \<in> ran (hash_map (working fam))" "p < hp_next (fm_heap fam)"
    and other: "\<And>r' p'. (r', p') \<in> set did \<union> set todo \<Longrightarrow> r' \<noteq> r \<and> p' \<noteq> p \<and> p' < hp_next (fm_heap fam)"
    and h': "heap_ok h'" "agrees_below p h h'"
    and snap: "snapped with_prev changed reset dup fill fam h' (hash_map (hash_append r q nc)) r p"
  shows "loop_inv with_prev fam (did @ [(r, p)]) todo (h', hash_append r q nc, errors')"
proof -
  have h: "hp_next (fm_heap fam) \<le> hp_next h" "hash_ok nc" "dom (hash_map nc) = fst ` set did"
      "\<forall>(r, p)\<in>set todo. hp_map h p = hp_map (fm_heap fam) p"
      "\<forall>(r, p)\<in>set did. snapped with_prev changed reset dup fill fam h (hash_map nc) r p"
      "\<forall>q. q < hp_next (fm_heap fam) \<longrightarrow> q \<notin> ran (hash_map (working fam)) \<longrightarrow> hp_map h q = hp_map (fm_heap fam) q"
    using inv by (auto simp: loop_inv_def)
  have low: "hp_map h' p' = hp_map h p'" if "p' < hp_next (fm_heap fam)" "p' \<noteq> p" for p'
    using that h(1) h'(2) by (simp add: agrees_below_def)
  have "snapped with_prev changed reset dup fill fam h' (hash_map (hash_append r q nc)) r' p'"
    if d: "(r', p') \<in> set did" for r' p'
  proof -
    have "snapped with_prev changed reset dup fill fam h (hash_map nc) r' p'" using h(5) d by blast
    then show ?thesis
      unfolding hash_append_map [OF nc_r]
      using other [of r' p'] d h(1) p(1) h'(2) by (intro snapped_other) auto
  qed
  moreover have "hp_map h' p' = hp_map (fm_heap fam) p'" if "(r', p') \<in> set todo" for r' p'
    using other [of r' p'] that low [of p'] h(4) by auto
  moreover have "hp_map h' q' = hp_map (fm_heap fam) q'"
    if "q' < hp_next (fm_heap fam)" "q' \<notin> ran (hash_map (working fam))" for q'
    using that h(6) low [of q'] p(1) by auto
  moreover have "dom (hash_map (hash_append r q nc)) = fst ` set (did @ [(r, p)])"
    using h(3) by (auto simp: hash_append_map [OF nc_r])
  ultimately show ?thesis
    using snap h'(1) h'(2) h(1) hash_append_ok [OF h(2) nc_r, of q]
    unfolding loop_inv_def agrees_below_def by auto
qed

lemma version_step_inv:
  assumes fam: "fam_ok key good fam" and pend: "fam_pending changed fam evs"
    and last: "hash_map (fm_versions fam) (fm_last fam) = Some last_container"
    and items: "hash_items (working fam) = did @ (r, p) # todo"
    and inv: "loop_inv with_prev fam did ((r, p) # todo) (h, nc, errors)"
  shows "wp (version_step with_prev key changed reset dup fill score last_container (r, p) (h, nc, errors))
    (loop_inv with_prev fam (did @ [(r, p)]) todo)"
proof -
  have wok: "hash_ok (working fam)" using working_ok [OF fam] by (simp add: container_ok_def)
  then have dist: "distinct (map fst (did @ (r, p) # todo))" using hash_ok_items items by metis
  have W: "hash_map (working fam) r' = Some p' \<longleftrightarrow> (r', p') \<in> set (did @ (r, p) # todo)" for r' p'
    using hash_map_items [OF wok] items by metis
  then have p: "hash_map (working fam) r = Some p" "p \<in> ran (hash_map (working fam))" by (auto simp: ran_def)
  obtain obj where obj: "hp_map (fm_heap fam) p = Some obj" using working_object [OF fam p(1)] by blast
  have h: "heap_ok h" "hp_next (fm_heap fam) \<le> hp_next h" "hash_ok nc" "dom (hash_map nc) = fst ` set did"
      "\<forall>(r, p)\<in>set todo. hp_map h p = hp_map (fm_heap fam) p" "hp_map h p = Some obj"
      "\<forall>(r, p)\<in>set did. snapped with_prev changed reset dup fill fam h (hash_map nc) r p"
      "\<forall>q. q < hp_next (fm_heap fam) \<longrightarrow> q \<notin> ran (hash_map (working fam)) \<longrightarrow> hp_map h q = hp_map (fm_heap fam) q"
    using inv obj by (auto simp: loop_inv_def)
  have nc_r: "hash_map nc r = None" using h(4) dist by (auto simp: domIff)
  have other: "r' \<noteq> r \<and> p' \<noteq> p \<and> p' < hp_next (fm_heap fam)" if d: "(r', p') \<in> set did \<union> set todo" for r' p'
  proof -
    have "(r', p') \<in> set (did @ (r, p) # todo)" using d by auto
    then have p': "hash_map (working fam) r' = Some p'" by (simp only: W)
    moreover have "r' \<noteq> r" using d dist by force
    ultimately show ?thesis using working_inj [OF fam p(1)] working_below [OF fam p'] by auto
  qed
  show ?thesis
  proof (cases "changed obj")
    case True
    obtain obj' new e where step:
        "version_step with_prev key changed reset dup fill score last_container (r, p) (h, nc, errors)
          = Some (snd (heap_alloc new (heap_put p obj' h)), hash_append r (hp_next h) nc, e)"
        "snapped with_prev changed reset dup fill fam (snd (heap_alloc new (heap_put p obj' h)))
           (hash_map (hash_append r (hp_next h) nc)) r p"
      using version_step_changed [OF fam p(1) last h(8,2) obj h(6) True] nc_r by blast
    have "heap_ok (snd (heap_alloc new (heap_put p obj' h)))"
      using h(1,6) by (intro heap_ok_alloc heap_ok_put) auto
    moreover have "agrees_below p h (snd (heap_alloc new (heap_put p obj' h)))"
      by (simp add: agrees_below_def)
    ultimately have "loop_inv with_prev fam (did @ [(r, p)]) todo
        (snd (heap_alloc new (heap_put p obj' h)), hash_append r (hp_next h) nc, e)"
      using loop_inv_extend [OF inv nc_r p(2) working_below [OF fam p(1)] other _ _ step(2)] by blast
    then show ?thesis by (simp add: step(1))
  next
    case False
    obtain q where step:
        "version_step with_prev key changed reset dup fill score last_container (r, p) (h, nc, errors)
          = Some (h, hash_append r q nc, errors)"
        "snapped with_prev changed reset dup fill fam h (hash_map (hash_append r q nc)) r p"
      using version_step_unchanged [OF fam pend p(1) last h(2) obj h(6) False] nc_r by blast
    have "agrees_below p h h" by (simp add: agrees_below_def)
    then have "loop_inv with_prev fam (did @ [(r, p)]) todo (h, hash_append r q nc, errors)"
      using loop_inv_extend [OF inv nc_r p(2) working_below [OF fam p(1)] other h(1) _ step(2)] by blast
    then show ?thesis by (simp add: step(1))
  qed
qed

lemma snapped_version:
  assumes snap: "snapped with_prev changed reset dup fill fam h nc r p" and fam: "fam_ok key good fam"
    and p: "hash_map (working fam) r = Some p"
    and h: "\<forall>q. q < hp_next (fm_heap fam) \<longrightarrow> q \<notin> ran (hash_map (working fam)) \<longrightarrow> hp_map h q = hp_map (fm_heap fam) q"
  shows "\<exists>q obj. nc r = Some q \<and> q \<notin> ran (hash_map (working fam)) \<and> hp_map h q = Some obj \<and> key obj = r \<and> good obj"
proof -
  obtain obj where obj: "hp_map (fm_heap fam) p = Some obj" "key obj = r" "good obj"
    using working_object [OF fam p] by blast
  obtain q where q: "nc r = Some q" "q \<notin> ran (hash_map (working fam))" using snap by (auto simp: snapped_def)
  show ?thesis
  proof (cases "changed obj")
    case True
    then obtain copy obj' prev where "dup (reset obj) = Some (copy, obj')" "hp_map h q = Some (fill copy prev)"
      using snap obj q by (auto simp: snapped_def)
    then show ?thesis
      using q dup_some [OF reset_good [OF obj(3)]] obj(2) fill_key fill_good reset_key by auto
  next
    case False
    then have v: "version_at (fm_last fam) fam r = Some q" "fm_last fam \<noteq> 0"
      using snap obj q by (auto simp: snapped_def)
    then show ?thesis using q h old_pointer [OF fam v] version_object [OF fam v(1)] by auto
  qed
qed

text \<open>Assembling the new family.\<close>

definition version_added :: "bool \<Rightarrow> ('r, 'o) family \<Rightarrow> ('r, 'o) family \<Rightarrow> bool" where
  "version_added with_prev fam fam' \<longleftrightarrow>
     fm_last fam' = fm_last fam + 1 \<and> fam_ok key good fam' \<and> working fam' = working fam
     \<and> (\<forall>w\<le>fm_last fam. version_at w fam' = version_at w fam)
     \<and> dom (version_at (fm_last fam') fam') = dom (hash_map (working fam))
     \<and> (\<forall>r p. hash_map (working fam) r = Some p \<longrightarrow>
          snapped with_prev changed reset dup fill fam (fm_heap fam') (version_at (fm_last fam') fam') r p)
     \<and> (\<forall>q. q < hp_next (fm_heap fam) \<longrightarrow> q \<notin> ran (hash_map (working fam)) \<longrightarrow>
          hp_map (fm_heap fam') q = hp_map (fm_heap fam) q)
     \<and> fam_pending changed fam' []"

lemma version_assembled:
  assumes fam: "fam_ok key good fam" and wrap: "fm_last fam + 1 \<noteq> 0"
    and inv: "loop_inv with_prev fam (hash_items (working fam)) [] (h, nc, errors)"
    and fam': "fam' = fam\<lparr>fm_heap := h, fm_versions := hash_append (fm_last fam + 1) nc (fm_versions fam),
      fm_last := fm_last fam + 1\<rparr>"
  shows "version_added with_prev fam fam'"
proof -
  let ?v = "fm_last fam + 1"
  have up: "fm_last fam < ?v" "w \<le> ?v \<longleftrightarrow> w \<le> fm_last fam \<or> w = ?v" for w
    using word_succ_less [OF wrap] word_le_succ [OF wrap] by simp_all
  have none: "hash_map (fm_versions fam) ?v = None"
    using fam_okD(3) [OF fam, of ?v] up(1) by auto
  have W: "hash_map (working fam) r = Some p \<longleftrightarrow> (r, p) \<in> set (hash_items (working fam))" for r p
    using hash_map_items working_ok [OF fam] by (metis container_ok_def)
  have l: "heap_ok h" "hash_ok nc" "dom (hash_map nc) = dom (hash_map (working fam))"
      "\<And>r p. hash_map (working fam) r = Some p \<Longrightarrow> snapped with_prev changed reset dup fill fam h (hash_map nc) r p"
      "\<forall>q. q < hp_next (fm_heap fam) \<longrightarrow> q \<notin> ran (hash_map (working fam)) \<longrightarrow> hp_map h q = hp_map (fm_heap fam) q"
    using inv by (auto simp: loop_inv_def dom_hash_map W)
  have vs: "hash_map (fm_versions fam') = (hash_map (fm_versions fam))(?v \<mapsto> nc)" "hash_ok (fm_versions fam')"
    using hash_append_map [OF none] hash_append_ok [OF fam_okD(2) [OF fam] none] by (simp_all add: fam')
  have same: "working fam' = working fam" "version_at ?v fam' = hash_map nc"
      "w \<noteq> ?v \<Longrightarrow> version_at w fam' = version_at w fam" for w
    using wrap by (auto simp: working_def version_at_def vs(1))
  have new: "\<exists>obj. hp_map h q = Some obj \<and> key obj = r \<and> good obj \<and> q \<notin> ran (hash_map (working fam))"
    if nc: "hash_map nc r = Some q" for r q
  proof -
    obtain p where p: "hash_map (working fam) r = Some p" using domI [of "hash_map nc", OF nc] l(3) by auto
    show ?thesis using snapped_version [OF l(4) [OF p] fam p l(5)] nc by auto
  qed
  have wk: "\<exists>obj. hp_map h p = Some obj \<and> key obj = r \<and> good obj \<and> \<not> changed obj"
    if "hash_map (working fam) r = Some p" for r p
    by (rule snapped_working [OF l(4) [OF that] fam that])
  have "container_ok key good h nc" unfolding container_ok_def using l(2) new by blast
  moreover have "hash_ok (working fam)" using working_ok [OF fam] by (simp add: container_ok_def)
  then have "container_ok key good h (working fam)" unfolding container_ok_def using wk by blast
  ultimately have ends: "container_ok key good h nc" "container_ok key good h (working fam)" by simp_all
  have "container_ok key good h c" if c: "hash_map (fm_versions fam') w = Some c" for w c
  proof (cases "w = ?v \<or> w = 0")
    case True
    then show ?thesis
      using c ends wrap by (auto simp: vs(1) working_Some [OF fam])
  next
    case False
    then have w: "hash_map (fm_versions fam) w = Some c" "w \<noteq> 0" using c by (simp_all add: vs(1))
    have "hp_map h q = hp_map (fm_heap fam) q" if "hash_map c r = Some q" for r q
      using old_pointer [OF fam, of w r q] that w l(5) by (simp add: version_at_def)
    then show ?thesis using fam_okD(4) [OF fam w(1)] unfolding container_ok_def by metis
  qed
  moreover have "q \<notin> ran (hash_map (working fam'))" if "0 < w" "version_at w fam' r = Some q" for w r q
    using that new [of r q] old_pointer [OF fam, of w r q] same by (cases "w = ?v") (auto simp: word_gt_0)
  moreover have new_fields: "fm_last fam' = ?v" "fm_heap fam' = h" by (simp_all add: fam')
  moreover have "hash_map (fm_versions fam') w \<noteq> None \<longleftrightarrow> w \<le> ?v" for w
    using fam_okD(3) [OF fam, of w] up(2) [of w] by (auto simp: vs(1))
  ultimately have ok: "fam_ok key good fam'"
    using l(1) vs(2) unfolding fam_ok_def by simp
  have "\<not> changed obj \<and> r \<in> dom (hash_map nc)"
    if "hash_map (working fam) r = Some p" "hp_map h p = Some obj" for r p obj
    using wk [OF that(1)] that l(3) by auto
  then have pend: "fam_pending changed fam' []"
    using wrap unfolding fam_pending_def same new_fields by auto
  have "version_at w fam' = version_at w fam" if "w \<le> fm_last fam" for w
    using that up(1) by (intro same(3)) auto
  with l(3-5) ok pend show ?thesis
    unfolding version_added_def new_fields same(1,2) by simp
qed

lemma add_version_added:
  assumes fam: "fam_ok key good fam" and pend: "fam_pending changed fam evs" and wrap: "fm_last fam + 1 \<noteq> 0"
  shows "wp (add_version with_prev key changed reset dup fill score (working fam) fam)
    (\<lambda>(v, errors, fam'). v = fm_last fam + 1 \<and> version_added with_prev fam fam')"
proof -
  obtain last_container where last: "hash_map (fm_versions fam) (fm_last fam) = Some last_container"
    using fam_okD(3) [OF fam, of "fm_last fam"] by auto
  define I where "I todo st \<longleftrightarrow> (\<exists>did. hash_items (working fam) = did @ todo \<and> loop_inv with_prev fam did todo st)"
    for todo st
  have "loop_inv with_prev fam [] (hash_items (working fam)) (fm_heap fam, new_container, 0)"
    using fam_okD(1) [OF fam]
    by (auto simp: loop_inv_def new_container_def hash_map_def)
  then have "wp (each (version_step with_prev key changed reset dup fill score last_container)
      (hash_items (working fam)) (fm_heap fam, new_container, 0)) (I [])"
    by (intro wp_each) (auto simp: I_def intro!: wp_mono [OF version_step_inv [OF fam pend last]])
  moreover have "version_added with_prev fam (fam\<lparr>fm_heap := h,
      fm_versions := hash_append (fm_last fam + 1) nc (fm_versions fam), fm_last := fm_last fam + 1\<rparr>)"
    if "I [] (h, nc, errors)" for h nc errors
    using that version_assembled [OF fam wrap _ refl] by (simp add: I_def)
  ultimately show ?thesis
    unfolding add_version_def Let_def
    by (auto simp: fam_container_eq [OF fam] last hash_add_nocheck elim!: wp_mono)
qed

end

end
