(* ===== verification/Route.thy ===== *)
theory Route
  imports Address
begin

section \<open>Routing tables\<close>

text \<open>
  Models \<open>src/src/data_info/route.h\<close> and \<open>route.c\<close>: the routing table of a node, a singly
  linked list of prefixes with the node they are reached through. \<open>bool *was_already_existing\<close>
  is an option: \<open>None\<close> is the NULL pointer, \<open>Some b\<close> a flag that held \<open>b\<close> before the call.
  The arguments \<open>allow_summary\<close> and \<open>auto_summary\<close> are taken and ignored, as in the code.
  The lemmas give the table its contract: at most one route for a prefix, which adding and
  removing keep, and what a lookup returns after either.
\<close>

record di_route =
  rt_length :: u8
  rt_prefix :: in6_addr
  rt_expiration_time :: u32

record di_route_el =
  re_target :: di_route
  re_via_node :: addr_wpan
  re_user_data :: nat

type_synonym di_route_list = "di_route_el list"

text \<open>The test the three loops share: same length, same bits up to that length.\<close>

definition route_matches :: "di_route \<Rightarrow> di_route_el \<Rightarrow> bool" where
  "route_matches target route \<longleftrightarrow>
     rt_length target = rt_length (re_target route)
     \<and> addr_compare_ip_len (rt_prefix (re_target route)) (rt_prefix target) (unat (rt_length target)) = 0"

fun route_get :: "di_route_list \<Rightarrow> di_route \<Rightarrow> addr_wpan \<Rightarrow> bool \<Rightarrow> di_route_el option" where
  "route_get [] target via_node allow_summary = None"
| "route_get (route # rest) target via_node allow_summary =
     (if re_via_node route = via_node \<and> route_matches target route then Some route
      else route_get rest target via_node allow_summary)"

text \<open>The loop of \<open>route_add\<close>: \<open>None\<close> when it runs to the end of the list.\<close>

fun route_add_loop :: "di_route_list \<Rightarrow> di_route \<Rightarrow> addr_wpan \<Rightarrow> bool option
    \<Rightarrow> (di_route_el \<times> di_route_list \<times> bool option) option" where
  "route_add_loop [] target via_node was = None"
| "route_add_loop (route # rest) target via_node was =
     (if route_matches target route then
        (if re_via_node route = via_node \<and> was \<noteq> None then Some (route, route # rest, Some True)
         else let route' = route\<lparr>re_via_node := via_node\<rparr> in Some (route', route' # rest, was))
      else map_option (\<lambda>(r, rest', w). (r, route # rest', w)) (route_add_loop rest target via_node was))"

definition route_add :: "di_route_list \<Rightarrow> di_route \<Rightarrow> addr_wpan \<Rightarrow> bool \<Rightarrow> bool option
    \<Rightarrow> di_route_el \<times> di_route_list \<times> bool option" where
  "route_add xs target via_node auto_summary was =
     (case route_add_loop xs target via_node was of
        Some result \<Rightarrow> result
      | None \<Rightarrow>
          let route = \<lparr>re_target = target, re_via_node = via_node, re_user_data = 0\<rparr>
          in (route, route # xs, map_option (\<lambda>_. False) was))"

fun route_remove :: "di_route_list \<Rightarrow> di_route \<Rightarrow> addr_wpan \<Rightarrow> bool \<times> di_route_list" where
  "route_remove [] target via_node = (False, [])"
| "route_remove (route # rest) target via_node =
     (if re_via_node route = via_node \<and> route_matches target route then (True, rest)
      else let (found, rest') = route_remove rest target via_node in (found, route # rest'))"

definition route_del_all_outdated :: "di_route_list \<Rightarrow> bool" where
  "route_del_all_outdated xs = False"

definition route_dup :: "di_route_list \<Rightarrow> di_route_list" where
  "route_dup routes = fold (\<lambda>route new_routes. new_routes @ [route]) routes []"

definition route_destroy :: "di_route_list \<Rightarrow> di_route_list" where
  "route_destroy routes = fold (\<lambda>route remaining. remove1 route remaining) routes routes"

subsection \<open>Matching is an equivalence of targets\<close>

lemma route_matches_trans:
  "route_matches t x \<Longrightarrow> route_matches (re_target x) y \<Longrightarrow> route_matches t y"
  by (auto simp: route_matches_def intro: addr_compare_ip_len_trans)

lemma route_matches_sym: "route_matches t x \<Longrightarrow> route_matches t y \<Longrightarrow> route_matches (re_target x) y"
  unfolding route_matches_def using addr_compare_ip_len_sym addr_compare_ip_len_trans by metis

lemma route_matches_self [simp]: "route_matches (re_target x) x"
  by (simp add: route_matches_def)

lemma route_matches_via [simp]: "route_matches t (x\<lparr>re_via_node := v\<rparr>) = route_matches t x"
  by (simp add: route_matches_def)

text \<open>A table holds at most one route for a prefix.\<close>

definition routes_ok :: "di_route_list \<Rightarrow> bool" where
  "routes_ok xs \<longleftrightarrow> sorted_wrt (\<lambda>x y. \<not> route_matches (re_target x) y) xs"

lemma routes_ok_Nil [simp]: "routes_ok []"
  by (simp add: routes_ok_def)

lemma routes_ok_Cons [simp]:
  "routes_ok (x # xs) \<longleftrightarrow> (\<forall>y\<in>set xs. \<not> route_matches (re_target x) y) \<and> routes_ok xs"
  by (simp add: routes_ok_def)

lemma route_get_None: "\<forall>y\<in>set xs. \<not> route_matches t y \<Longrightarrow> route_get xs t v s = None"
  by (induction xs) auto

lemma route_get_Some: "route_get xs t v s = Some r \<Longrightarrow> r \<in> set xs \<and> route_matches t r \<and> re_via_node r = v"
  by (induction xs) (auto split: if_splits)

lemma route_get_is_Some:
  "route_get xs t v s \<noteq> None \<longleftrightarrow> (\<exists>r\<in>set xs. route_matches t r \<and> re_via_node r = v)"
  by (induction xs) auto

lemma route_add_loop_None: "route_add_loop xs t v w = None \<longleftrightarrow> (\<forall>y\<in>set xs. \<not> route_matches t y)"
  by (induction xs) (auto simp: Let_def)

lemma route_add_loop_targets:
  "route_add_loop xs t v w = Some (r, ys, w') \<Longrightarrow> map re_target ys = map re_target xs"
  by (induction xs arbitrary: ys) (auto simp: Let_def split: if_splits)

lemma routes_ok_same_targets:
  "map re_target ys = map re_target xs \<Longrightarrow> routes_ok ys = routes_ok xs"
proof -
  have "routes_ok zs = sorted_wrt (\<lambda>a b. \<not> (rt_length a = rt_length b
      \<and> addr_compare_ip_len (rt_prefix b) (rt_prefix a) (unat (rt_length a)) = 0)) (map re_target zs)" for zs
    by (simp add: routes_ok_def sorted_wrt_map route_matches_def)
  then show "map re_target ys = map re_target xs \<Longrightarrow> routes_ok ys = routes_ok xs" by simp
qed

lemma route_add_loop_get:
  "route_add_loop xs t v w = Some (r, ys, w') \<Longrightarrow> routes_ok xs \<Longrightarrow> route_get ys t v s = Some r"
proof (induction xs arbitrary: ys)
  case (Cons x xs)
  then show ?case by (auto simp: Let_def split: if_splits)
qed simp

lemma route_add_loop_result:
  "route_add_loop xs t v w = Some (r, ys, w') \<Longrightarrow> r \<in> set ys \<and> route_matches t r \<and> re_via_node r = v"
  by (induction xs arbitrary: ys) (auto simp: Let_def split: if_splits)

text \<open>Two different prefixes: no route can match both.\<close>

definition same_prefix :: "di_route \<Rightarrow> di_route \<Rightarrow> bool" where
  "same_prefix t u \<longleftrightarrow> rt_length t = rt_length u
     \<and> addr_compare_ip_len (rt_prefix u) (rt_prefix t) (unat (rt_length t)) = 0"

lemma route_matches_same_prefix: "route_matches t x \<longleftrightarrow> same_prefix t (re_target x)"
  by (simp add: route_matches_def same_prefix_def)

lemma same_prefix_refl [simp]: "same_prefix t t"
  by (simp add: same_prefix_def)

lemma same_prefix_sym: "same_prefix t u \<longleftrightarrow> same_prefix u t"
  unfolding same_prefix_def by (metis addr_compare_ip_len_sym)

lemma same_prefix_trans: "same_prefix t u \<Longrightarrow> same_prefix u v \<Longrightarrow> same_prefix t v"
  unfolding same_prefix_def by (metis addr_compare_ip_len_trans)

lemma route_matches_both: "route_matches t x \<Longrightarrow> route_matches u x \<Longrightarrow> same_prefix u t"
  by (metis route_matches_same_prefix same_prefix_sym same_prefix_trans)

lemma route_add_loop_other:
  assumes "\<not> same_prefix u t"
  shows "route_add_loop xs t v w = Some (r, ys, w') \<Longrightarrow> route_get ys u v' s = route_get xs u v' s"
proof (induction xs arbitrary: ys)
  case (Cons x xs)
  have no: "\<not> (route_matches t x \<and> route_matches u x)"
    using assms route_matches_both by blast
  show ?case
  proof (cases "route_matches t x")
    case True
    then have "\<not> route_matches u x" using no by blast
    then show ?thesis using Cons.prems True by (auto simp: Let_def split: if_splits)
  next
    case False
    then show ?thesis using Cons by auto
  qed
qed simp

lemma routes_ok_via: "routes_ok (xs @ x\<lparr>re_via_node := v\<rparr> # ys) = routes_ok (xs @ x # ys)"
  by (rule routes_ok_same_targets) simp

subsection \<open>The contract of a routing table\<close>

lemma route_add_ok: "routes_ok xs \<Longrightarrow> routes_ok (fst (snd (route_add xs t v s w)))"
  unfolding route_add_def
  by (auto simp: route_add_loop_None Let_def route_matches_same_prefix
      dest: route_add_loop_targets routes_ok_same_targets split: option.split)

lemma route_remove_subset: "set (snd (route_remove xs t v)) \<subseteq> set xs"
  by (induction xs) (auto split: prod.split)

lemma route_remove_ok: "routes_ok xs \<Longrightarrow> routes_ok (snd (route_remove xs t v))"
proof (induction xs)
  case (Cons x xs)
  then show ?case using route_remove_subset [of xs t v] by (auto split: prod.split)
qed simp

lemma route_get_added: "routes_ok xs \<Longrightarrow> route_get (fst (snd (route_add xs t v s w))) t v s' = Some (fst (route_add xs t v s w))"
  unfolding route_add_def
  by (auto simp: Let_def route_matches_same_prefix dest: route_add_loop_get split: option.split)

lemma route_get_added_other:
  "\<not> same_prefix u t \<Longrightarrow> route_get (fst (snd (route_add xs t v s w))) u v' s' = route_get xs u v' s'"
  unfolding route_add_def
  by (auto simp: Let_def route_matches_same_prefix dest: route_add_loop_other split: option.split)

lemma route_remove_found: "fst (route_remove xs t v) \<longleftrightarrow> route_get xs t v s \<noteq> None"
  by (induction xs) (auto split: prod.split)

lemma route_get_removed: "routes_ok xs \<Longrightarrow> route_get (snd (route_remove xs t v)) t v s = None"
proof (induction xs)
  case (Cons x xs)
  show ?case
  proof (cases "re_via_node x = v \<and> route_matches t x")
    case True
    then have "\<forall>y\<in>set xs. \<not> route_matches t y"
      using Cons.prems by (metis routes_ok_Cons route_matches_same_prefix same_prefix_sym same_prefix_trans)
    then show ?thesis using True by (simp add: route_get_None)
  next
    case False
    then show ?thesis using Cons by (auto split: prod.split)
  qed
qed simp

lemma route_get_removed_other:
  assumes "\<not> same_prefix u t"
  shows "route_get (snd (route_remove xs t v)) u v' s = route_get xs u v' s"
proof (induction xs)
  case (Cons x xs)
  show ?case
    using Cons route_matches_both [of t x u] assms by (auto split: prod.split)
qed simp

lemma route_dup_id [simp]: "route_dup xs = xs"
proof -
  have "fold (\<lambda>route new_routes. new_routes @ [route]) xs ys = ys @ xs" for ys
    by (induction xs arbitrary: ys) auto
  then show ?thesis by (simp add: route_dup_def)
qed

lemma route_destroy_Nil [simp]: "route_destroy xs = []"
proof -
  have "fold (\<lambda>route remaining. remove1 route remaining) xs (xs @ ys) = ys" for ys
    by (induction xs) auto
  from this [of "[]"] show ?thesis by (simp add: route_destroy_def)
qed

subsection \<open>The properties\<close>

text \<open>
  C27. The routing table of a node holds at most one route for a prefix. Adding a route keeps this, makes the lookup of the prefix
  through that node return the route added, and changes no lookup of another prefix.
\<close>

theorem route_add_contract:
  assumes "routes_ok xs" "\<not> same_prefix u t"
  shows "routes_ok (fst (snd (route_add xs t v s w)))
    \<and> route_get (fst (snd (route_add xs t v s w))) t v s' = Some (fst (route_add xs t v s w))
    \<and> route_get (fst (snd (route_add xs t v s w))) u v' s' = route_get xs u v' s'"
  using route_add_ok [OF assms(1)] route_get_added [OF assms(1)] route_get_added_other [OF assms(2)] by blast

theorem route_add_contract_witness:
  "route_get (fst (snd (route_add [] \<lparr>rt_length = 8, rt_prefix = init_ipv6_addr, rt_expiration_time = 0\<rparr> 7 False (Some True))))
     \<lparr>rt_length = 8, rt_prefix = init_ipv6_addr, rt_expiration_time = 0\<rparr> 7 False
   = Some (fst (route_add [] \<lparr>rt_length = 8, rt_prefix = init_ipv6_addr, rt_expiration_time = 0\<rparr> 7 False (Some True)))"
  using route_add_contract [of "[]" "\<lparr>rt_length = 16, rt_prefix = init_ipv6_addr, rt_expiration_time = 0\<rparr>"
      "\<lparr>rt_length = 8, rt_prefix = init_ipv6_addr, rt_expiration_time = 0\<rparr>" 7 False "Some True" False]
  by (simp add: same_prefix_def)

text \<open>
  Removing a route says whether the table had it; the prefix is then no longer found through that node, and no lookup of another prefix
  changes.
\<close>

theorem route_remove_contract:
  assumes "routes_ok xs" "\<not> same_prefix u t"
  shows "routes_ok (snd (route_remove xs t v)) \<and> (fst (route_remove xs t v) \<longleftrightarrow> route_get xs t v s \<noteq> None)
    \<and> route_get (snd (route_remove xs t v)) t v s = None \<and> route_get (snd (route_remove xs t v)) u v' s = route_get xs u v' s"
  using route_remove_ok [OF assms(1)] route_remove_found route_get_removed [OF assms(1)] route_get_removed_other [OF assms(2)] by blast

theorem route_remove_contract_witness:
  "fst (route_remove [\<lparr>re_target = \<lparr>rt_length = 8, rt_prefix = init_ipv6_addr, rt_expiration_time = 0\<rparr>, re_via_node = 7, re_user_data = 0\<rparr>]
     \<lparr>rt_length = 8, rt_prefix = init_ipv6_addr, rt_expiration_time = 1\<rparr> 7)"
  using route_remove_contract [of "[\<lparr>re_target = \<lparr>rt_length = 8, rt_prefix = init_ipv6_addr, rt_expiration_time = 0\<rparr>, re_via_node = 7, re_user_data = 0\<rparr>]"
      "\<lparr>rt_length = 16, rt_prefix = init_ipv6_addr, rt_expiration_time = 0\<rparr>" "\<lparr>rt_length = 8, rt_prefix = init_ipv6_addr, rt_expiration_time = 1\<rparr>" 7 False]
  by (simp add: same_prefix_def route_matches_def)

end
