(* ===== verification/RplDef.thy ===== *)
theory RplDef
  imports Sixlowpan
begin

section \<open>RPL information\<close>

text \<open>
  Models \<open>src/src/data_info/rpl_def.h\<close> and \<open>rpl_def.c\<close>: the parsed RPL messages and options,
  the RPL part of a node and of a DODAG, how a message updates them, and the difference and
  comparison functions the version history is built with. An enum that the parser fills from a
  number is kept as that number (\<open>u32\<close>). A NULL argument is \<open>None\<close>. The \<open>double\<close> differences
  go through the rounding \<open>fl\<close>. The lemmas say which differences a comparison sees.
\<close>

subsection \<open>Messages and options\<close>

text \<open>The enums: \<open>di_rpl_mop_e\<close>, \<open>rpl_dio_opt_metric_type_e\<close>, \<open>di_objective_function_e\<close>.\<close>

definition RDMOP_NoDownwardRoute :: u32 where "RDMOP_NoDownwardRoute = 0"
definition RDMOP_NonStoring :: u32 where "RDMOP_NonStoring = 1"
definition RDMOP_StoringWithoutMulticast :: u32 where "RDMOP_StoringWithoutMulticast = 2"
definition RDMOP_StoringWithMulticast :: u32 where "RDMOP_StoringWithMulticast = 3"
definition RDOMT_ETX :: u32 where "RDOMT_ETX = 7"
definition ROF_ETX :: u32 where "ROF_ETX = 1"

record rpl_metric =
  mm_type :: u32
  mm_value :: u32

record rpl_prefix =
  px_prefix :: di_prefix
  px_on_link :: bool
  px_auto_address_config :: bool
  px_router_address :: bool
  px_valid_lifetime :: u32
  px_preferred_lifetime :: u32

record rpl_route =
  rr_preference :: u8
  rr_lifetime :: u32
  rr_prefix_bit_length :: u8
  rr_route_prefix :: in6_addr

record rpl_dodag_config =
  dc_auth_enabled :: u16
  dc_path_control_size :: u8
  dc_dio_interval_min :: u8
  dc_dio_interval_max :: u8
  dc_dio_redundancy_constant :: u8
  dc_max_rank_inc :: u16
  dc_min_hop_rank_inc :: u16
  dc_default_lifetime :: u8
  dc_lifetime_unit :: u16
  dc_objective_function :: u32

record rpl_dio =
  dio_rpl_instance_id :: u8
  dio_version_number :: u8
  dio_rank :: u16
  dio_grounded :: bool
  dio_preference :: u8
  dio_mode_of_operation :: u32
  dio_dtsn :: u8
  dio_dodagid :: in6_addr

record rpl_dao =
  dao_rpl_instance_id :: u8
  dao_want_ack :: bool
  dao_dodagid_present :: bool
  dao_dodagid :: in6_addr
  dao_dao_sequence :: u8

record rpl_dao_opt_target =
  tgt_target_bit_length :: u8
  tgt_target :: in6_addr

record rpl_dao_opt_transit =
  tra_external :: bool
  tra_parent_addr_present :: bool
  tra_path_control :: u8
  tra_path_sequence :: u8
  tra_path_lifetime :: u8
  tra_parent_address :: in6_addr

record rpl_dis_opt_info_req =
  dis_instance_predicate :: bool
  dis_rpl_instance_id :: u8
  dis_version_predicate :: bool
  dis_rpl_version :: u8
  dis_dodag_predicate :: bool
  dis_dodagid :: in6_addr

record rpl_hop_by_hop_opt =
  hbh_packet_toward_root :: bool
  hbh_rank_error :: bool
  hbh_forwarding_error :: bool
  hbh_rpl_instance_id :: u8
  hbh_sender_rank :: u16

subsection \<open>What a node and a DODAG keep\<close>

record rpl_instance_config =
  ic_rpl_instance_id :: u8
  ic_has_dodagid :: bool
  ic_dodagid :: in6_addr
  ic_has_dio_config :: bool
  ic_version_number :: u8
  ic_mode_of_operation :: u32

record rpl_instance_data =
  idt_rpl_instance_id :: u8
  idt_has_rank :: bool
  idt_rank :: u16
  idt_has_dio_data :: bool
  idt_grounded :: bool
  idt_preference :: u8
  idt_dtsn :: u8
  idt_has_dao_data :: bool
  idt_latest_dao_sequence :: u8
  idt_has_metric :: bool
  idt_metric :: rpl_metric

record rpl_statistics =
  st_last_dao_timestamp :: real
  st_last_dio_timestamp :: real
  st_max_dao_interval :: real
  st_max_dio_interval :: real
  st_dis :: c_int
  st_dio :: c_int
  st_dao :: c_int

record rpl_errors =
  er_rank_errors :: c_int
  er_forward_errors :: c_int
  er_upward_rank_errors :: c_int
  er_downward_rank_errors :: c_int
  er_route_loop_errors :: c_int
  er_ip_mismatch_errors :: c_int
  er_dodag_version_decrease_errors :: c_int
  er_dodag_mismatch_errors :: c_int
  er_dodag_config_mismatch_errors :: c_int

text \<open>The difference records; \<open>_t\<close> tells them from the functions of the same name.\<close>

record rpl_instance_config_delta_t =
  icd_has_changed :: bool
  icd_rpl_instance_id :: bool
  icd_has_dodagid :: bool
  icd_dodagid :: bool
  icd_has_dio_config :: bool
  icd_version_number :: bool
  icd_mode_of_operation :: bool

record rpl_instance_data_delta_t =
  idd_has_changed :: bool
  idd_rpl_instance_id :: bool
  idd_has_metric :: bool
  idd_metric :: c_int
  idd_has_rank :: bool
  idd_rank :: c_int
  idd_has_dio_data :: bool
  idd_grounded :: bool
  idd_preference :: bool
  idd_dtsn :: c_int
  idd_has_dao_data :: bool
  idd_latest_dao_sequence :: u8

record rpl_dodag_config_delta_t =
  dcd_has_changed :: bool
  dcd_auth_enabled :: bool
  dcd_path_control_size :: bool
  dcd_dio_interval_min :: bool
  dcd_dio_interval_max :: bool
  dcd_dio_redundancy_constant :: bool
  dcd_max_rank_inc :: bool
  dcd_min_hop_rank_inc :: bool
  dcd_default_lifetime :: bool
  dcd_lifetime_unit :: bool
  dcd_objective_function :: bool

record rpl_prefix_delta_t =
  pxd_has_changed :: bool
  pxd_prefix :: bool
  pxd_on_link :: bool
  pxd_auto_address_config :: bool
  pxd_router_address :: bool
  pxd_valid_lifetime :: bool
  pxd_preferred_lifetime :: bool

record rpl_statistics_delta_t =
  std_has_changed :: bool
  std_last_dao_timestamp :: real
  std_last_dio_timestamp :: real
  std_max_dao_interval :: real
  std_max_dio_interval :: real
  std_dis :: c_int
  std_dio :: c_int
  std_dao :: c_int

record rpl_errors_delta_t =
  erd_has_changed :: c_int
  erd_rank_errors :: c_int
  erd_forward_errors :: c_int
  erd_upward_rank_errors :: c_int
  erd_downward_rank_errors :: c_int
  erd_route_loop_errors :: c_int
  erd_ip_mismatch_errors :: c_int
  erd_dodag_version_decrease_errors :: c_int
  erd_dodag_mismatch_errors :: c_int
  erd_dodag_config_mismatch_errors :: c_int

subsection \<open>Initialisation\<close>

definition init_rpl_metric :: rpl_metric where
  "init_rpl_metric = \<lparr>mm_type = 0, mm_value = 0\<rparr>"

definition init_rpl_instance_config :: rpl_instance_config where
  "init_rpl_instance_config =
     \<lparr>ic_rpl_instance_id = 0, ic_has_dodagid = False, ic_dodagid = init_ipv6_addr,
      ic_has_dio_config = False, ic_version_number = 0, ic_mode_of_operation = 0\<rparr>"

definition init_rpl_dodag_config :: rpl_dodag_config where
  "init_rpl_dodag_config =
     \<lparr>dc_auth_enabled = 0, dc_path_control_size = 0, dc_dio_interval_min = 0,
      dc_dio_interval_max = 0, dc_dio_redundancy_constant = 0, dc_max_rank_inc = 0,
      dc_min_hop_rank_inc = 0, dc_default_lifetime = 0, dc_lifetime_unit = 0,
      dc_objective_function = 0\<rparr>"

definition init_rpl_prefix :: rpl_prefix where
  "init_rpl_prefix =
     \<lparr>px_prefix = init_prefix, px_on_link = False, px_auto_address_config = False,
      px_router_address = False, px_valid_lifetime = 0, px_preferred_lifetime = 0\<rparr>"

definition init_rpl_statistics :: rpl_statistics where
  "init_rpl_statistics =
     \<lparr>st_last_dao_timestamp = 0, st_last_dio_timestamp = 0, st_max_dao_interval = 0,
      st_max_dio_interval = 0, st_dis = 0, st_dio = 0, st_dao = 0\<rparr>"

definition init_rpl_errors :: rpl_errors where
  "init_rpl_errors =
     \<lparr>er_rank_errors = 0, er_forward_errors = 0, er_upward_rank_errors = 0,
      er_downward_rank_errors = 0, er_route_loop_errors = 0, er_ip_mismatch_errors = 0,
      er_dodag_version_decrease_errors = 0, er_dodag_mismatch_errors = 0,
      er_dodag_config_mismatch_errors = 0\<rparr>"

text \<open>\<open>init_rpl_instance_data\<close> does not write the two DAO fields.\<close>

definition init_rpl_instance_data :: "rpl_instance_data \<Rightarrow> rpl_instance_data" where
  "init_rpl_instance_data data = data
     \<lparr>idt_rpl_instance_id := 0, idt_has_dio_data := False, idt_grounded := False,
      idt_preference := 0, idt_dtsn := 0, idt_has_rank := False, idt_rank := 0,
      idt_has_metric := False, idt_metric := init_rpl_metric\<rparr>"

subsection \<open>Updates from messages\<close>

definition update_rpl_instance_config_from_dio ::
    "rpl_instance_config \<Rightarrow> rpl_dio option \<Rightarrow> rpl_instance_config" where
  "update_rpl_instance_config_from_dio config dio =
     (case dio of None \<Rightarrow> config
      | Some dio \<Rightarrow> config
          \<lparr>ic_rpl_instance_id := dio_rpl_instance_id dio, ic_has_dodagid := True,
           ic_dodagid := dio_dodagid dio, ic_has_dio_config := True,
           ic_version_number := dio_version_number dio,
           ic_mode_of_operation := dio_mode_of_operation dio\<rparr>)"

definition update_rpl_instance_data_from_dio ::
    "rpl_instance_data \<Rightarrow> rpl_dio option \<Rightarrow> rpl_instance_data" where
  "update_rpl_instance_data_from_dio data dio =
     (case dio of None \<Rightarrow> data
      | Some dio \<Rightarrow> data
          \<lparr>idt_has_dio_data := True, idt_has_rank := True,
           idt_rpl_instance_id := dio_rpl_instance_id dio, idt_rank := dio_rank dio,
           idt_grounded := dio_grounded dio, idt_preference := dio_preference dio,
           idt_dtsn := dio_dtsn dio\<rparr>)"

definition update_rpl_instance_data_from_metric ::
    "rpl_instance_data \<Rightarrow> rpl_metric option \<Rightarrow> rpl_instance_data" where
  "update_rpl_instance_data_from_metric data metric =
     (case metric of Some metric \<Rightarrow> data\<lparr>idt_has_metric := True, idt_metric := metric\<rparr>
      | None \<Rightarrow> data\<lparr>idt_has_metric := False\<rparr>)"

definition update_rpl_instance_data_from_hop_by_hop ::
    "rpl_instance_data \<Rightarrow> rpl_hop_by_hop_opt option \<Rightarrow> rpl_instance_data" where
  "update_rpl_instance_data_from_hop_by_hop data hop_by_hop =
     (case hop_by_hop of
        Some hop_by_hop \<Rightarrow> data\<lparr>idt_has_rank := True, idt_rank := hbh_sender_rank hop_by_hop\<rparr>
      | None \<Rightarrow> data)"

definition update_rpl_instance_config_from_dao ::
    "rpl_instance_config \<Rightarrow> rpl_dao option \<Rightarrow> rpl_instance_config" where
  "update_rpl_instance_config_from_dao config dao =
     (case dao of None \<Rightarrow> config
      | Some dao \<Rightarrow>
          let config = config\<lparr>ic_rpl_instance_id := dao_rpl_instance_id dao\<rparr>
          in if dao_dodagid_present dao
             then config\<lparr>ic_has_dodagid := True, ic_dodagid := dao_dodagid dao\<rparr> else config)"

definition update_rpl_instance_data_from_dao ::
    "rpl_instance_data \<Rightarrow> rpl_dao option \<Rightarrow> rpl_instance_data" where
  "update_rpl_instance_data_from_dao data dao =
     (case dao of None \<Rightarrow> data
      | Some dao \<Rightarrow> data
          \<lparr>idt_has_dao_data := True, idt_latest_dao_sequence := dao_dao_sequence dao\<rparr>)"

subsection \<open>Differences\<close>

text \<open>A field that is \<open>false\<close> without sides, \<open>true\<close> with one and compared with two.\<close>

definition bool_delta :: "('a \<Rightarrow> 'a \<Rightarrow> bool) \<Rightarrow> 'a option \<Rightarrow> 'a option \<Rightarrow> bool" where
  "bool_delta differ left right =
     (case (left, right) of
        (None, None) \<Rightarrow> False
      | (Some l, Some r) \<Rightarrow> differ l r
      | _ \<Rightarrow> True)"

text \<open>A field that is zero without sides, the field of the only side with one, and compared with two.\<close>

definition side_delta :: "('a \<Rightarrow> 'b) \<Rightarrow> ('a \<Rightarrow> 'a \<Rightarrow> 'b) \<Rightarrow> 'b \<Rightarrow> 'a option \<Rightarrow> 'a option \<Rightarrow> 'b" where
  "side_delta field compare zero left right =
     (case (left, right) of
        (None, None) \<Rightarrow> zero
      | (Some l, Some r) \<Rightarrow> compare l r
      | (Some l, None) \<Rightarrow> field l
      | (None, Some r) \<Rightarrow> field r)"

definition rpl_instance_config_delta ::
    "rpl_instance_config option \<Rightarrow> rpl_instance_config option \<Rightarrow> rpl_instance_config_delta_t" where
  "rpl_instance_config_delta left right =
     (let rpl_instance_id' = bool_delta (\<lambda>l r. ic_rpl_instance_id r \<noteq> ic_rpl_instance_id l) left right;
          has_dodagid' = bool_delta (\<lambda>l r. ic_has_dodagid r \<noteq> ic_has_dodagid l) left right;
          dodagid' = bool_delta (\<lambda>l r. addr_compare_ip (ic_dodagid r) (ic_dodagid l) \<noteq> 0) left right;
          has_dio_config' = bool_delta (\<lambda>l r. ic_has_dio_config r \<noteq> ic_has_dio_config l) left right;
          version_number' = bool_delta (\<lambda>l r. ic_version_number r \<noteq> ic_version_number l) left right;
          mode_of_operation' = bool_delta (\<lambda>l r. ic_mode_of_operation r \<noteq> ic_mode_of_operation l) left right
      in \<lparr>icd_has_changed = (rpl_instance_id' \<or> has_dodagid' \<or> dodagid' \<or> has_dio_config' \<or> version_number' \<or> mode_of_operation'),
      icd_rpl_instance_id = rpl_instance_id', icd_has_dodagid = has_dodagid',
      icd_dodagid = dodagid', icd_has_dio_config = has_dio_config',
      icd_version_number = version_number', icd_mode_of_operation = mode_of_operation'\<rparr>)"

definition rpl_instance_data_delta ::
    "rpl_instance_data option \<Rightarrow> rpl_instance_data option \<Rightarrow> rpl_instance_data_delta_t" where
  "rpl_instance_data_delta left right =
     (let rpl_instance_id = bool_delta (\<lambda>l r. idt_rpl_instance_id r \<noteq> idt_rpl_instance_id l) left right;
          has_metric = bool_delta (\<lambda>l r. idt_has_metric r \<noteq> idt_has_metric l) left right;
          metric = int_delta (\<lambda>d. mm_value (idt_metric d)) left right;
          has_rank = side_delta idt_has_rank (\<lambda>l r. idt_has_rank l \<noteq> idt_has_rank r) False left right;
          rank = side_delta (\<lambda>d. ucast (idt_rank d)) (\<lambda>l r. of_bool (idt_rank r \<noteq> idt_rank l)) 0 left right;
          has_dio_data =
            side_delta idt_has_dio_data (\<lambda>l r. idt_has_dio_data l \<noteq> idt_has_dio_data r) False left right;
          grounded = bool_delta (\<lambda>l r. idt_grounded r \<noteq> idt_grounded l) left right;
          preference = bool_delta (\<lambda>l r. idt_preference r \<noteq> idt_preference l) left right;
          dtsn = side_delta (\<lambda>d. ucast (idt_dtsn d)) (\<lambda>l r. of_bool (idt_dtsn r \<noteq> idt_dtsn l)) 0 left right;
          has_dao_data =
            side_delta idt_has_dao_data (\<lambda>l r. idt_has_dao_data l \<noteq> idt_has_dao_data r) False left right;
          latest_dao_sequence =
            side_delta idt_latest_dao_sequence
              (\<lambda>l r. idt_latest_dao_sequence r - idt_latest_dao_sequence l) 0 left right
      in \<lparr>idd_has_changed = (rpl_instance_id \<or> has_metric \<or> metric \<noteq> 0 \<or> has_rank \<or> rank \<noteq> 0
            \<or> has_dio_data \<or> grounded \<or> preference \<or> dtsn \<noteq> 0 \<or> has_dao_data \<or> latest_dao_sequence \<noteq> 0),
          idd_rpl_instance_id = rpl_instance_id, idd_has_metric = has_metric, idd_metric = metric,
          idd_has_rank = has_rank, idd_rank = rank, idd_has_dio_data = has_dio_data,
          idd_grounded = grounded, idd_preference = preference, idd_dtsn = dtsn,
          idd_has_dao_data = has_dao_data, idd_latest_dao_sequence = latest_dao_sequence\<rparr>)"

definition rpl_dodag_config_delta ::
    "rpl_dodag_config option \<Rightarrow> rpl_dodag_config option \<Rightarrow> rpl_dodag_config_delta_t" where
  "rpl_dodag_config_delta left right =
     (let auth_enabled' = bool_delta (\<lambda>l r. dc_auth_enabled r \<noteq> dc_auth_enabled l) left right;
          path_control_size' = bool_delta (\<lambda>l r. dc_path_control_size r \<noteq> dc_path_control_size l) left right;
          dio_interval_min' = bool_delta (\<lambda>l r. dc_dio_interval_min r \<noteq> dc_dio_interval_min l) left right;
          dio_interval_max' = bool_delta (\<lambda>l r. dc_dio_interval_max r \<noteq> dc_dio_interval_max l) left right;
          dio_redundancy_constant' = bool_delta (\<lambda>l r. dc_dio_redundancy_constant r \<noteq> dc_dio_redundancy_constant l) left right;
          max_rank_inc' = bool_delta (\<lambda>l r. dc_max_rank_inc r \<noteq> dc_max_rank_inc l) left right;
          min_hop_rank_inc' = bool_delta (\<lambda>l r. dc_min_hop_rank_inc r \<noteq> dc_min_hop_rank_inc l) left right;
          default_lifetime' = bool_delta (\<lambda>l r. dc_default_lifetime r \<noteq> dc_default_lifetime l) left right;
          lifetime_unit' = bool_delta (\<lambda>l r. dc_lifetime_unit r \<noteq> dc_lifetime_unit l) left right;
          objective_function' = bool_delta (\<lambda>l r. dc_objective_function r \<noteq> dc_objective_function l) left right
      in \<lparr>dcd_has_changed = (auth_enabled' \<or> path_control_size' \<or> dio_interval_min' \<or> dio_interval_max' \<or> dio_redundancy_constant' \<or> max_rank_inc' \<or> min_hop_rank_inc' \<or> default_lifetime' \<or> lifetime_unit' \<or> objective_function'),
      dcd_auth_enabled = auth_enabled', dcd_path_control_size = path_control_size',
      dcd_dio_interval_min = dio_interval_min', dcd_dio_interval_max = dio_interval_max',
      dcd_dio_redundancy_constant = dio_redundancy_constant', dcd_max_rank_inc = max_rank_inc',
      dcd_min_hop_rank_inc = min_hop_rank_inc', dcd_default_lifetime = default_lifetime',
      dcd_lifetime_unit = lifetime_unit', dcd_objective_function = objective_function'\<rparr>)"

definition rpl_prefix_delta ::
    "rpl_prefix option \<Rightarrow> rpl_prefix option \<Rightarrow> rpl_prefix_delta_t" where
  "rpl_prefix_delta left right =
     (let prefix' = bool_delta (\<lambda>l r. prefix_compare (px_prefix r) (px_prefix l) \<noteq> 0) left right;
          on_link' = bool_delta (\<lambda>l r. px_on_link r \<noteq> px_on_link l) left right;
          auto_address_config' = bool_delta (\<lambda>l r. px_auto_address_config r \<noteq> px_auto_address_config l) left right;
          router_address' = bool_delta (\<lambda>l r. px_router_address r \<noteq> px_router_address l) left right;
          valid_lifetime' = bool_delta (\<lambda>l r. px_valid_lifetime r \<noteq> px_valid_lifetime l) left right;
          preferred_lifetime' = bool_delta (\<lambda>l r. px_preferred_lifetime r \<noteq> px_preferred_lifetime l) left right
      in \<lparr>pxd_has_changed = (prefix' \<or> on_link' \<or> auto_address_config' \<or> router_address' \<or> valid_lifetime' \<or> preferred_lifetime'),
      pxd_prefix = prefix', pxd_on_link = on_link',
      pxd_auto_address_config = auto_address_config', pxd_router_address = router_address',
      pxd_valid_lifetime = valid_lifetime', pxd_preferred_lifetime = preferred_lifetime'\<rparr>)"

text \<open>The two timestamps of the result are not written: they keep the value they had.\<close>

definition rpl_statistics_delta ::
    "(real \<Rightarrow> real) \<Rightarrow> rpl_statistics option \<Rightarrow> rpl_statistics option
      \<Rightarrow> rpl_statistics_delta_t \<Rightarrow> rpl_statistics_delta_t" where
  "rpl_statistics_delta fl left right delta =
     (let max_dao_interval =
            side_delta st_max_dao_interval (\<lambda>l r. fl (st_max_dao_interval r - st_max_dao_interval l)) 0 left right;
          max_dio_interval =
            side_delta st_max_dio_interval (\<lambda>l r. fl (st_max_dio_interval r - st_max_dio_interval l)) 0 left right;
          dis = int_delta st_dis left right;
          dio = int_delta st_dio left right;
          dao = int_delta st_dao left right
      in delta\<lparr>std_max_dao_interval := max_dao_interval, std_max_dio_interval := max_dio_interval,
               std_dis := dis, std_dio := dio, std_dao := dao,
               std_has_changed := (max_dao_interval \<noteq> 0 \<or> max_dio_interval \<noteq> 0
                 \<or> dis \<noteq> 0 \<or> dio \<noteq> 0 \<or> dao \<noteq> 0)\<rparr>)"

text \<open>\<open>has_changed\<close> is the sum of the differences, the version decreases left out.\<close>

definition rpl_errors_delta ::
    "rpl_errors option \<Rightarrow> rpl_errors option \<Rightarrow> rpl_errors_delta_t" where
  "rpl_errors_delta left right =
     (let rank_errors = int_delta er_rank_errors left right;
          forward_errors = int_delta er_forward_errors left right;
          upward_rank_errors = int_delta er_upward_rank_errors left right;
          downward_rank_errors = int_delta er_downward_rank_errors left right;
          route_loop_errors = int_delta er_route_loop_errors left right;
          ip_mismatch_errors = int_delta er_ip_mismatch_errors left right;
          dodag_version_decrease_errors = int_delta er_dodag_version_decrease_errors left right;
          dodag_mismatch_errors = int_delta er_dodag_mismatch_errors left right;
          dodag_config_mismatch_errors = int_delta er_dodag_config_mismatch_errors left right
      in \<lparr>erd_has_changed = 
        rank_errors + forward_errors + upward_rank_errors + downward_rank_errors + route_loop_errors
        + ip_mismatch_errors + dodag_mismatch_errors + dodag_config_mismatch_errors,
      erd_rank_errors = rank_errors, erd_forward_errors = forward_errors,
      erd_upward_rank_errors = upward_rank_errors,
      erd_downward_rank_errors = downward_rank_errors, erd_route_loop_errors = route_loop_errors,
      erd_ip_mismatch_errors = ip_mismatch_errors,
      erd_dodag_version_decrease_errors = dodag_version_decrease_errors,
      erd_dodag_mismatch_errors = dodag_mismatch_errors,
      erd_dodag_config_mismatch_errors = dodag_config_mismatch_errors\<rparr>)"

subsection \<open>Comparisons\<close>

definition rpl_instance_config_compare :: "rpl_instance_config option \<Rightarrow> rpl_instance_config option \<Rightarrow> bool" where
  "rpl_instance_config_compare left right = icd_has_changed (rpl_instance_config_delta left right)"

definition rpl_dodag_config_compare :: "rpl_dodag_config option \<Rightarrow> rpl_dodag_config option \<Rightarrow> bool" where
  "rpl_dodag_config_compare left right = dcd_has_changed (rpl_dodag_config_delta left right)"

definition rpl_prefix_compare :: "rpl_prefix option \<Rightarrow> rpl_prefix option \<Rightarrow> bool" where
  "rpl_prefix_compare left right = pxd_has_changed (rpl_prefix_delta left right)"

definition rpl_instance_data_compare :: "rpl_instance_data option \<Rightarrow> rpl_instance_data option \<Rightarrow> bool" where
  "rpl_instance_data_compare left right = idd_has_changed (rpl_instance_data_delta left right)"

text \<open>The local difference record starts with unspecified timestamps; the result ignores them.\<close>

definition rpl_statistics_compare ::
    "(real \<Rightarrow> real) \<Rightarrow> rpl_statistics option \<Rightarrow> rpl_statistics option \<Rightarrow> bool" where
  "rpl_statistics_compare fl left right =
     std_has_changed (rpl_statistics_delta fl left right
       \<lparr>std_has_changed = False, std_last_dao_timestamp = 0, std_last_dio_timestamp = 0,
        std_max_dao_interval = 0, std_max_dio_interval = 0, std_dis = 0, std_dio = 0, std_dao = 0\<rparr>)"

definition rpl_errors_compare :: "rpl_errors option \<Rightarrow> rpl_errors option \<Rightarrow> bool" where
  "rpl_errors_compare left right \<longleftrightarrow> erd_has_changed (rpl_errors_delta left right) \<noteq> 0"

subsection \<open>What a comparison sees\<close>

lemma bool_delta_simps [simp]:
  "bool_delta d None None = False"
  "bool_delta d (Some l) (Some r) = d l r"
  "bool_delta d (Some l) None = True"
  "bool_delta d None (Some r) = True"
  by (simp_all add: bool_delta_def)

lemma side_delta_simps [simp]:
  "side_delta f c z None None = z"
  "side_delta f c z (Some l) (Some r) = c l r"
  "side_delta f c z (Some l) None = f l"
  "side_delta f c z None (Some r) = f r"
  by (simp_all add: side_delta_def)

lemma rpl_instance_config_compare_iff:
  "rpl_instance_config_compare (Some l) (Some r) \<longleftrightarrow> l \<noteq> r"
  by (cases l; cases r) (auto simp: rpl_instance_config_compare_def rpl_instance_config_delta_def Let_def)

lemma rpl_dodag_config_compare_iff:
  "rpl_dodag_config_compare (Some l) (Some r) \<longleftrightarrow> l \<noteq> r"
  by (cases l; cases r) (auto simp: rpl_dodag_config_compare_def rpl_dodag_config_delta_def Let_def)

lemma rpl_prefix_compare_iff:
  "rpl_prefix_compare (Some l) (Some r) \<longleftrightarrow>
     prefix_compare (px_prefix r) (px_prefix l) \<noteq> 0 \<or> l\<lparr>px_prefix := px_prefix r\<rparr> \<noteq> r"
  by (cases l; cases r) (auto simp: rpl_prefix_compare_def rpl_prefix_delta_def Let_def)

text \<open>Of two instance data only a different metric type goes unseen.\<close>

lemma rpl_instance_data_compare_iff:
  "rpl_instance_data_compare (Some l) (Some r) \<longleftrightarrow>
     l\<lparr>idt_metric := (idt_metric l)\<lparr>mm_type := mm_type (idt_metric r)\<rparr>\<rparr> \<noteq> r"
  by (cases l; cases r; cases "idt_metric l"; cases "idt_metric r")
    (auto simp: rpl_instance_data_compare_def rpl_instance_data_delta_def Let_def)

lemma compare_NULL:
  "\<not> rpl_instance_config_compare None None" "\<not> rpl_dodag_config_compare None None"
  "\<not> rpl_prefix_compare None None" "\<not> rpl_instance_data_compare None None"
  "rpl_instance_config_compare (Some l) None" "rpl_instance_config_compare None (Some l)"
  "rpl_dodag_config_compare (Some c) None" "rpl_dodag_config_compare None (Some c)"
  "rpl_prefix_compare (Some p) None" "rpl_prefix_compare None (Some p)"
  "rpl_instance_data_compare (Some d) None" "rpl_instance_data_compare None (Some d)"
  by (simp_all add: rpl_instance_config_compare_def rpl_instance_config_delta_def
      rpl_dodag_config_compare_def rpl_dodag_config_delta_def rpl_prefix_compare_def
      rpl_prefix_delta_def rpl_instance_data_compare_def rpl_instance_data_delta_def Let_def)

end
