(* ===== verification/Dodag.thy ===== *)
theory Dodag
  imports Events HashContainer RplDef
begin

section \<open>DODAGs\<close>

text \<open>
  Models the object of \<open>src/src/data_info/dodag.c\<close>: what the root of a DODAG announces and the
  container of the nodes that belong to it. The setters work on the object and the pending
  events; \<open>dodag_add_node\<close>, \<open>dodag_del_node\<close> and \<open>dodag_set_nodes_changed\<close>, which also change
  nodes, are in the theory \<open>RplData\<close>.
\<close>

record di_dodag =
  d_key :: di_dodag_ref
  d_instance_config :: rpl_instance_config
  d_instance_config_delta :: rpl_instance_config_delta_t
  d_has_dodag_config :: bool
  d_dodag_config :: rpl_dodag_config
  d_dodag_config_delta :: rpl_dodag_config_delta_t
  d_has_prefix_info :: bool
  d_prefix_info :: rpl_prefix
  d_prefix_info_delta :: rpl_prefix_delta_t
  d_rpl_instance :: di_rpl_instance_ref
  d_nodes :: "(di_node_ref, di_node_ref) hash_container"
  d_has_changed :: bool
  d_user_data :: nat

text \<open>The difference records after \<open>memset\<close>: all fields are false.\<close>

definition rpl_instance_config_delta_zero :: rpl_instance_config_delta_t where
  "rpl_instance_config_delta_zero = rpl_instance_config_delta None None"

definition rpl_dodag_config_delta_zero :: rpl_dodag_config_delta_t where
  "rpl_dodag_config_delta_zero = rpl_dodag_config_delta None None"

definition rpl_prefix_delta_zero :: rpl_prefix_delta_t where
  "rpl_prefix_delta_zero = rpl_prefix_delta None None"

definition node_ref_zero :: di_node_ref where
  "node_ref_zero = \<lparr>nr_wpan_address = 0\<rparr>"

definition dodag_init :: "di_dodag_ref \<Rightarrow> rpl_event list \<Rightarrow> di_dodag tracked" where
  "dodag_init key head =
     (let dodag =
        \<lparr>d_key = key,
         d_instance_config = init_rpl_instance_config,
         d_instance_config_delta = rpl_instance_config_delta_zero,
         d_has_dodag_config = False,
         d_dodag_config = init_rpl_dodag_config,
         d_dodag_config_delta = rpl_dodag_config_delta_zero,
         d_has_prefix_info = False,
         d_prefix_info = init_rpl_prefix,
         d_prefix_info_delta = rpl_prefix_delta_zero,
         d_rpl_instance = \<lparr>ir_rpl_instance = -1\<rparr>,
         d_nodes = hash_create (\<lambda>_. node_ref_zero),
         d_has_changed = True,
         d_user_data = 0\<rparr>
      in (dodag, rpl_event_dodag (d_key dodag) RET_Created head))"

definition dodag_destroy :: "di_dodag \<Rightarrow> di_dodag" where
  "dodag_destroy dodag = dodag\<lparr>d_nodes := hash_clear (d_nodes dodag)\<rparr>"

definition dodag_dup :: "di_dodag \<Rightarrow> di_dodag option" where
  "dodag_dup dodag = do { nodes \<leftarrow> hash_dup (d_nodes dodag); Some (dodag\<lparr>d_nodes := nodes\<rparr>) }"

definition dodag_set_changed :: "di_dodag tracked \<Rightarrow> di_dodag tracked" where
  "dodag_set_changed = (\<lambda>(dodag, head).
     (dodag\<lparr>d_has_changed := True\<rparr>,
      if d_has_changed dodag = False then rpl_event_dodag (d_key dodag) RET_Updated head else head))"

definition dodag_set_key :: "di_dodag_ref \<Rightarrow> di_dodag tracked \<Rightarrow> di_dodag tracked" where
  "dodag_set_key key = (\<lambda>(dodag, head).
     if d_key dodag \<noteq> key then dodag_set_changed (dodag\<lparr>d_key := key\<rparr>, head) else (dodag, head))"

definition dodag_set_user_data :: "nat \<Rightarrow> di_dodag \<Rightarrow> di_dodag" where
  "dodag_set_user_data user_data dodag = dodag\<lparr>d_user_data := user_data\<rparr>"

definition dodag_has_changed :: "di_dodag \<Rightarrow> bool" where
  "dodag_has_changed dodag = d_has_changed dodag"

definition dodag_reset_changed :: "di_dodag \<Rightarrow> di_dodag" where
  "dodag_reset_changed dodag = dodag\<lparr>d_has_changed := False\<rparr>"

definition dodag_update_from_dio :: "rpl_dio option \<Rightarrow> di_dodag tracked \<Rightarrow> di_dodag tracked" where
  "dodag_update_from_dio dio = (\<lambda>(dodag, head).
     if dio = None then (dodag, head)
     else
       let new_config = update_rpl_instance_config_from_dio (d_instance_config dodag) dio in
       if rpl_instance_config_compare (Some new_config) (Some (d_instance_config dodag))
       then dodag_set_changed (dodag\<lparr>d_instance_config := new_config\<rparr>, head)
       else (dodag, head))"

definition dodag_update_from_dodag_config :: "rpl_dodag_config option \<Rightarrow> di_dodag tracked \<Rightarrow> di_dodag tracked" where
  "dodag_update_from_dodag_config dodag_config = (\<lambda>(dodag, head).
     case dodag_config of
       Some config \<Rightarrow>
         let (dodag, head) =
           (if rpl_dodag_config_compare dodag_config (Some (d_dodag_config dodag))
            then dodag_set_changed (dodag\<lparr>d_dodag_config := config\<rparr>, head) else (dodag, head))
         in (dodag\<lparr>d_has_dodag_config := True\<rparr>, head)
     | None \<Rightarrow>
         let (dodag, head) =
           (if d_has_dodag_config dodag then dodag_set_changed (dodag, head) else (dodag, head))
         in (dodag\<lparr>d_has_dodag_config := False\<rparr>, head))"

definition dodag_update_from_dodag_prefix_info :: "rpl_prefix option \<Rightarrow> di_dodag tracked \<Rightarrow> di_dodag tracked" where
  "dodag_update_from_dodag_prefix_info prefix = (\<lambda>(dodag, head).
     case prefix of
       Some prefix_info \<Rightarrow>
         let (dodag, head) =
           (if rpl_prefix_compare prefix (Some (d_prefix_info dodag))
            then dodag_set_changed (dodag\<lparr>d_prefix_info := prefix_info\<rparr>, head) else (dodag, head))
         in (dodag\<lparr>d_has_prefix_info := True\<rparr>, head)
     | None \<Rightarrow>
         let (dodag, head) =
           (if d_has_prefix_info dodag then dodag_set_changed (dodag, head) else (dodag, head))
         in (dodag\<lparr>d_has_prefix_info := False\<rparr>, head))"

definition dodag_set_rpl_instance :: "di_rpl_instance_ref \<Rightarrow> di_dodag tracked \<Rightarrow> di_dodag tracked" where
  "dodag_set_rpl_instance rpl_instance = (\<lambda>(dodag, head).
     if ir_rpl_instance (d_rpl_instance dodag) \<noteq> ir_rpl_instance rpl_instance
     then dodag_set_changed (dodag\<lparr>d_rpl_instance := rpl_instance\<rparr>, head) else (dodag, head))"

text \<open>The container part of \<open>dodag_add_node\<close>, with \<open>was_already_in_dodag\<close>, and of \<open>dodag_del_node\<close>.\<close>

definition dodag_hash_add_node :: "di_node_ref \<Rightarrow> di_dodag \<Rightarrow> bool \<times> di_dodag" where
  "dodag_hash_add_node ref dodag =
     (let (_, was_already_in_dodag, _, nodes) = hash_add (d_nodes dodag) ref (Some ref) HAM_OverwriteIfExists
      in (was_already_in_dodag, dodag\<lparr>d_nodes := nodes\<rparr>))"

definition dodag_hash_del_node :: "di_node_ref \<Rightarrow> di_dodag \<Rightarrow> (bool \<times> di_dodag) option" where
  "dodag_hash_del_node ref dodag =
     do { (found, nodes) \<leftarrow> hash_delete (d_nodes dodag) ref; Some (found, dodag\<lparr>d_nodes := nodes\<rparr>) }"

definition null_ref :: di_dodag_ref where
  "null_ref = \<lparr>dr_dodagid = init_ipv6_addr, dr_version = -1\<rparr>"

definition dodag_get_instance_config :: "di_dodag \<Rightarrow> rpl_instance_config" where
  "dodag_get_instance_config dodag = d_instance_config dodag"

definition dodag_get_dodag_config :: "di_dodag \<Rightarrow> rpl_dodag_config option" where
  "dodag_get_dodag_config dodag = (if d_has_dodag_config dodag then Some (d_dodag_config dodag) else None)"

definition dodag_get_prefix :: "di_dodag \<Rightarrow> rpl_prefix option" where
  "dodag_get_prefix dodag = (if d_has_prefix_info dodag then Some (d_prefix_info dodag) else None)"

abbreviation dodag_tracks :: "di_dodag tracked \<Rightarrow> di_dodag tracked \<Rightarrow> bool" where
  "dodag_tracks \<equiv> tracks d_key d_has_changed ROT_Dodag"

definition dodag_ok :: "di_dodag \<Rightarrow> bool" where
  "dodag_ok d \<longleftrightarrow> hash_ok (d_nodes d) \<and> (\<forall>r r'. hash_map (d_nodes d) r = Some r' \<longrightarrow> r' = r)"

lemma dodag_set_changed_tracks: "dodag_tracks s (dodag_set_changed s)"
  by (cases s) (simp add: tracks_def dodag_set_changed_def rpl_event_dodag_def)

lemma dodag_set_changed_nodes [simp]: "d_nodes (fst (dodag_set_changed s)) = d_nodes (fst s)"
  by (cases s) (simp add: dodag_set_changed_def)

lemma dodag_update_from_dio_tracks: "dodag_tracks s (dodag_update_from_dio dio s)"
  by (cases s) (auto simp: dodag_update_from_dio_def Let_def intro!: tracks_from [OF _ _ dodag_set_changed_tracks])

lemma dodag_update_from_dodag_config_tracks: "dodag_tracks s (dodag_update_from_dodag_config c s)"
  by (cases s) (auto simp: dodag_update_from_dodag_config_def Let_def tracks_def dodag_set_changed_def
      rpl_event_dodag_def split: option.split)

lemma dodag_update_from_dodag_prefix_info_tracks: "dodag_tracks s (dodag_update_from_dodag_prefix_info c s)"
  by (cases s) (auto simp: dodag_update_from_dodag_prefix_info_def Let_def tracks_def dodag_set_changed_def
      rpl_event_dodag_def split: option.split)

lemma dodag_set_rpl_instance_tracks: "dodag_tracks s (dodag_set_rpl_instance r s)"
  by (cases s) (auto simp: dodag_set_rpl_instance_def intro!: tracks_from [OF _ _ dodag_set_changed_tracks])

lemma dodag_setters_nodes [simp]:
  "d_nodes (fst (dodag_update_from_dio dio s)) = d_nodes (fst s)"
  "d_nodes (fst (dodag_update_from_dodag_config config s)) = d_nodes (fst s)"
  "d_nodes (fst (dodag_update_from_dodag_prefix_info prefix s)) = d_nodes (fst s)"
  "d_nodes (fst (dodag_set_rpl_instance ref s)) = d_nodes (fst s)"
  by (cases s; auto simp: dodag_update_from_dio_def dodag_update_from_dodag_config_def
      dodag_update_from_dodag_prefix_info_def dodag_set_rpl_instance_def dodag_set_changed_def Let_def
      split: option.split)+

lemma dodag_hash_add_node_result:
  assumes "dodag_ok d"
  shows "fst (dodag_hash_add_node ref d) \<longleftrightarrow> hash_map (d_nodes d) ref \<noteq> None"
    and "dodag_ok (snd (dodag_hash_add_node ref d))"
    and "d_key (snd (dodag_hash_add_node ref d)) = d_key d"
    and "d_has_changed (snd (dodag_hash_add_node ref d)) = d_has_changed d"
    and "hash_map (d_nodes (snd (dodag_hash_add_node ref d))) = (hash_map (d_nodes d))(ref \<mapsto> ref)"
  using hash_add_overwrite [of "d_nodes d" ref ref] assms
  by (auto simp: dodag_hash_add_node_def dodag_ok_def split: if_splits)

lemma dodag_hash_del_node_result:
  assumes "dodag_ok d"
  shows "\<exists>nodes. dodag_hash_del_node ref d = Some (hash_map (d_nodes d) ref \<noteq> None, d\<lparr>d_nodes := nodes\<rparr>)
    \<and> dodag_ok (d\<lparr>d_nodes := nodes\<rparr>) \<and> hash_map nodes = (hash_map (d_nodes d))(ref := None)"
proof -
  obtain c' where c': "hash_delete (d_nodes d) ref = Some (hash_map (d_nodes d) ref \<noteq> None, c')" "hash_ok c'"
      "hash_items c' = filter (\<lambda>(k', v). k' \<noteq> ref) (hash_items (d_nodes d))"
    using hash_delete_result [of "d_nodes d" ref] assms by (auto simp: dodag_ok_def)
  with hash_map_filter [OF c'(3)] assms show ?thesis
    by (intro exI [of _ c']) (auto simp: dodag_hash_del_node_def dodag_ok_def split: if_splits)
qed

lemma dodag_dup_result:
  "dodag_ok d \<Longrightarrow> \<exists>nodes. dodag_dup d = Some (d\<lparr>d_nodes := nodes\<rparr>)
     \<and> hash_ok nodes \<and> hash_items nodes = hash_items (d_nodes d)"
  using hash_dup_items [of "d_nodes d"] by (auto simp: dodag_dup_def dodag_ok_def)

end
