(* ===== verification/Node.thy ===== *)
theory Node
  imports Events Route RplDef Dodag
begin

section \<open>Nodes\<close>

text \<open>
  Models the object of \<open>src/src/data_info/node.c\<close>: everything the analyzer knows of one node.
  The setters work on the object and the pending events and take the DODAG they read as an
  option, \<open>None\<close> being NULL. \<open>node_set_ip\<close>, \<open>node_add_packet_count\<close> and \<open>nodes_clear_all_errors\<close>
  go through the collected data and are in the theory \<open>RplData\<close>. \<open>fl\<close> is the rounding of the
  machine's \<open>double\<close> subtraction. The lemmas show that every setter \<open>tracks\<close> the node.
\<close>

record di_node =
  n_key :: di_node_ref
  n_simple_id :: u16
  n_dodag :: di_dodag_ref
  n_has_changed :: bool
  n_has_errors :: c_int
  n_sixlowpan_config :: sixlowpan_config
  n_sixlowpan_config_delta :: sixlowpan_config_delta
  n_has_rpl_instance_config :: bool
  n_rpl_instance_config :: rpl_instance_config
  n_rpl_instance_config_delta :: rpl_instance_config_delta_t
  n_actual_rpl_instance_config_delta :: rpl_instance_config_delta_t
  n_has_rpl_instance_data :: bool
  n_rpl_instance_data :: rpl_instance_data
  n_rpl_instance_data_delta :: rpl_instance_data_delta_t
  n_has_rpl_dodag_config :: bool
  n_rpl_dodag_config :: rpl_dodag_config
  n_rpl_dodag_config_delta :: rpl_dodag_config_delta_t
  n_actual_rpl_dodag_config_delta :: rpl_dodag_config_delta_t
  n_has_rpl_dodag_prefix_info :: bool
  n_rpl_dodag_prefix_info :: rpl_prefix
  n_rpl_dodag_prefix_info_delta :: rpl_prefix_delta_t
  n_actual_rpl_dodag_prefix_info_delta :: rpl_prefix_delta_t
  n_routes_delta :: bool
  n_routes :: di_route_list
  n_sixlowpan_statistics :: sixlowpan_statistics
  n_sixlowpan_statistics_delta :: sixlowpan_statistics_delta
  n_rpl_statistics :: rpl_statistics
  n_rpl_statistics_delta :: rpl_statistics_delta_t
  n_sixlowpan_errors :: sixlowpan_errors
  n_sixlowpan_errors_delta :: sixlowpan_errors_delta
  n_rpl_errors :: rpl_errors
  n_rpl_errors_delta :: rpl_errors_delta_t

subsection \<open>Creation\<close>

text \<open>The node after \<open>calloc\<close>: every byte is zero.\<close>

definition node_calloc :: di_node where
  "node_calloc =
    \<lparr>n_key = node_ref_zero,
     n_simple_id = 0,
     n_dodag = \<lparr>dr_dodagid = init_ipv6_addr, dr_version = 0\<rparr>,
     n_has_changed = False,
     n_has_errors = 0,
     n_sixlowpan_config =
       \<lparr>sc_has_seen_local_address = False, sc_is_custom_local_address = False,
        sc_local_address = init_ipv6_addr, sc_has_seen_global_address = False,
        sc_is_custom_global_address = False, sc_global_address = init_ipv6_addr,
        sc_is_prefix_valid = False\<rparr>,
     n_sixlowpan_config_delta = sixlowpan_config_delta None None,
     n_has_rpl_instance_config = False,
     n_rpl_instance_config = init_rpl_instance_config,
     n_rpl_instance_config_delta = rpl_instance_config_delta_zero,
     n_actual_rpl_instance_config_delta = rpl_instance_config_delta_zero,
     n_has_rpl_instance_data = False,
     n_rpl_instance_data =
       \<lparr>idt_rpl_instance_id = 0, idt_has_rank = False, idt_rank = 0, idt_has_dio_data = False,
        idt_grounded = False, idt_preference = 0, idt_dtsn = 0, idt_has_dao_data = False,
        idt_latest_dao_sequence = 0, idt_has_metric = False, idt_metric = init_rpl_metric\<rparr>,
     n_rpl_instance_data_delta = rpl_instance_data_delta None None,
     n_has_rpl_dodag_config = False,
     n_rpl_dodag_config = init_rpl_dodag_config,
     n_rpl_dodag_config_delta = rpl_dodag_config_delta_zero,
     n_actual_rpl_dodag_config_delta = rpl_dodag_config_delta_zero,
     n_has_rpl_dodag_prefix_info = False,
     n_rpl_dodag_prefix_info = init_rpl_prefix,
     n_rpl_dodag_prefix_info_delta = rpl_prefix_delta_zero,
     n_actual_rpl_dodag_prefix_info_delta = rpl_prefix_delta_zero,
     n_routes_delta = False,
     n_routes = [],
     n_sixlowpan_statistics = init_sixlowpan_statistics,
     n_sixlowpan_statistics_delta = init_sixlowpan_statistics_delta,
     n_rpl_statistics = init_rpl_statistics,
     n_rpl_statistics_delta =
       \<lparr>std_has_changed = False, std_last_dao_timestamp = 0, std_last_dio_timestamp = 0,
        std_max_dao_interval = 0, std_max_dio_interval = 0, std_dis = 0, std_dio = 0, std_dao = 0\<rparr>,
     n_sixlowpan_errors = init_sixlowpan_errors,
     n_sixlowpan_errors_delta = init_sixlowpan_errors_delta,
     n_rpl_errors = init_rpl_errors,
     n_rpl_errors_delta = rpl_errors_delta None None\<rparr>"

definition node_set_changed :: "di_node tracked \<Rightarrow> di_node tracked" where
  "node_set_changed = (\<lambda>(node, head).
     (node\<lparr>n_has_changed := True\<rparr>,
      if n_has_changed node = False then rpl_event_node (n_key node) RET_Updated head else head))"

definition node_has_changed :: "di_node \<Rightarrow> bool" where
  "node_has_changed node = n_has_changed node"

definition node_reset_changed :: "di_node \<Rightarrow> di_node" where
  "node_reset_changed node = node\<lparr>n_has_changed := False\<rparr>"

definition node_set_key :: "di_node_ref \<Rightarrow> di_node tracked \<Rightarrow> di_node tracked" where
  "node_set_key key = (\<lambda>(node, head).
     if n_key node \<noteq> key then
       let node = node\<lparr>n_key := key\<rparr>;
           cfg = n_sixlowpan_config node;
           node =
             (if \<not> sc_is_custom_local_address cfg
              then node\<lparr>n_sixlowpan_config :=
                     cfg\<lparr>sc_local_address := addr_get_local_ip_from_mac64 (nr_wpan_address (n_key node))\<rparr>\<rparr>
              else node)
       in node_set_changed (node, head)
     else (node, head))"

text \<open>\<open>node_init\<close> also hands out the next \<open>last_simple_id\<close>, a 16-bit counter that wraps.\<close>

definition node_init :: "di_node_ref \<Rightarrow> rpl_event list \<times> u16 \<Rightarrow> di_node \<times> rpl_event list \<times> u16" where
  "node_init key = (\<lambda>(head, last_simple_id).
     let node = node_calloc;
         node = node\<lparr>n_dodag := (n_dodag node)\<lparr>dr_version := -1\<rparr>, n_has_changed := True, n_has_errors := 0\<rparr>;
         node = node
           \<lparr>n_sixlowpan_config := init_sixlowpan_config (n_sixlowpan_config node),
            n_sixlowpan_statistics := init_sixlowpan_statistics,
            n_sixlowpan_statistics_delta := init_sixlowpan_statistics_delta,
            n_sixlowpan_errors := init_sixlowpan_errors,
            n_sixlowpan_errors_delta := init_sixlowpan_errors_delta,
            n_rpl_instance_config := init_rpl_instance_config,
            n_rpl_instance_data := init_rpl_instance_data (n_rpl_instance_data node),
            n_rpl_dodag_config := init_rpl_dodag_config,
            n_rpl_dodag_prefix_info := init_rpl_prefix,
            n_rpl_statistics := init_rpl_statistics,
            n_rpl_errors := init_rpl_errors,
            n_routes_delta := False\<rparr>;
         last_simple_id = last_simple_id + 1;
         node = node\<lparr>n_simple_id := last_simple_id\<rparr>;
         (node, head) = node_set_key key (node, head)
     in (node, rpl_event_node (n_key node) RET_Created head, last_simple_id))"

definition node_destroy :: "di_node \<Rightarrow> di_node" where
  "node_destroy node = node\<lparr>n_routes := route_destroy (n_routes node)\<rparr>"

text \<open>\<open>node_dup\<close> returns the copy and the node it was made of.\<close>

definition node_dup :: "di_node \<Rightarrow> di_node \<times> di_node" where
  "node_dup node =
     (node\<lparr>n_routes := route_dup (n_routes node),
           n_sixlowpan_statistics_delta := init_sixlowpan_statistics_delta,
           n_sixlowpan_errors_delta := init_sixlowpan_errors_delta\<rparr>,
      node\<lparr>n_routes_delta := False\<rparr>)"

subsection \<open>Getters with a NULL result\<close>

definition node_get_dodag :: "di_node \<Rightarrow> di_dodag_ref option" where
  "node_get_dodag node = (if 0 \<le> sint (dr_version (n_dodag node)) then Some (n_dodag node) else None)"

definition node_get_instance_config :: "di_node option \<Rightarrow> rpl_instance_config option" where
  "node_get_instance_config node =
     (case node of None \<Rightarrow> None
      | Some n \<Rightarrow> if n_has_rpl_instance_config n then Some (n_rpl_instance_config n) else None)"

definition node_get_instance_data :: "di_node option \<Rightarrow> rpl_instance_data option" where
  "node_get_instance_data node =
     (case node of None \<Rightarrow> None
      | Some n \<Rightarrow> if n_has_rpl_instance_data n then Some (n_rpl_instance_data n) else None)"

definition node_get_dodag_config :: "di_node option \<Rightarrow> rpl_dodag_config option" where
  "node_get_dodag_config node =
     (case node of None \<Rightarrow> None
      | Some n \<Rightarrow> if n_has_rpl_dodag_config n then Some (n_rpl_dodag_config n) else None)"

definition node_get_dodag_prefix_info :: "di_node option \<Rightarrow> rpl_prefix option" where
  "node_get_dodag_prefix_info node =
     (case node of None \<Rightarrow> None
      | Some n \<Rightarrow> if n_has_rpl_dodag_prefix_info n then Some (n_rpl_dodag_prefix_info n) else None)"

definition node_get_sixlowpan_config :: "di_node option \<Rightarrow> sixlowpan_config option" where
  "node_get_sixlowpan_config node = map_option n_sixlowpan_config node"

definition node_get_rpl_statistics :: "di_node option \<Rightarrow> rpl_statistics option" where
  "node_get_rpl_statistics node = map_option n_rpl_statistics node"

definition node_get_rpl_errors :: "di_node option \<Rightarrow> rpl_errors option" where
  "node_get_rpl_errors node = map_option n_rpl_errors node"

definition node_get_mac64 :: "di_node \<Rightarrow> addr_wpan" where
  "node_get_mac64 node = nr_wpan_address (n_key node)"

definition node_get_local_ip :: "di_node \<Rightarrow> in6_addr" where
  "node_get_local_ip node = sc_local_address (n_sixlowpan_config node)"

definition node_get_global_ip :: "di_node \<Rightarrow> in6_addr" where
  "node_get_global_ip node = sc_global_address (n_sixlowpan_config node)"

definition node_has_rank :: "di_node \<Rightarrow> bool" where
  "node_has_rank node = idt_has_rank (n_rpl_instance_data node)"

definition node_get_rank :: "di_node \<Rightarrow> c_int" where
  "node_get_rank node = ucast (idt_rank (n_rpl_instance_data node))"

subsection \<open>Differences with the previous version\<close>

definition node_fill_delta :: "(real \<Rightarrow> real) \<Rightarrow> di_node \<Rightarrow> di_node option \<Rightarrow> di_node" where
  "node_fill_delta fl node prev_node =
     (let errors_delta = rpl_errors_delta (node_get_rpl_errors prev_node) (node_get_rpl_errors (Some node))
      in node
        \<lparr>n_sixlowpan_config_delta :=
           sixlowpan_config_delta (node_get_sixlowpan_config prev_node) (node_get_sixlowpan_config (Some node)),
         n_rpl_instance_config_delta :=
           rpl_instance_config_delta (node_get_instance_config prev_node) (node_get_instance_config (Some node)),
         n_rpl_instance_data_delta :=
           rpl_instance_data_delta (node_get_instance_data prev_node) (node_get_instance_data (Some node)),
         n_rpl_dodag_config_delta :=
           rpl_dodag_config_delta (node_get_dodag_config prev_node) (node_get_dodag_config (Some node)),
         n_rpl_dodag_prefix_info_delta :=
           rpl_prefix_delta (node_get_dodag_prefix_info prev_node) (node_get_dodag_prefix_info (Some node)),
         n_rpl_statistics_delta :=
           rpl_statistics_delta fl (node_get_rpl_statistics prev_node) (node_get_rpl_statistics (Some node))
             (n_rpl_statistics_delta node),
         n_rpl_errors_delta := errors_delta,
         n_has_errors :=
           of_bool (erd_has_changed errors_delta \<noteq> 0 \<or> sed_has_changed (n_sixlowpan_errors_delta node))\<rparr>)"

subsection \<open>Setters\<close>

text \<open>A new DODAG: everything learnt from the previous one is dropped.\<close>

definition node_set_dodag :: "di_dodag_ref \<Rightarrow> di_node tracked \<Rightarrow> di_node tracked" where
  "node_set_dodag dodag_ref = (\<lambda>(node, head).
     if n_dodag node \<noteq> dodag_ref then
       let node = node
             \<lparr>n_dodag := dodag_ref,
              n_has_rpl_instance_config := False,
              n_rpl_instance_config :=
                (n_rpl_instance_config node)\<lparr>ic_has_dodagid := False, ic_has_dio_config := False\<rparr>,
              n_has_rpl_instance_data := False,
              n_rpl_instance_data := (n_rpl_instance_data node)
                \<lparr>idt_has_dao_data := False, idt_has_dio_data := False, idt_has_rank := False, idt_has_metric := False\<rparr>,
              n_has_rpl_dodag_config := False,
              n_has_rpl_dodag_prefix_info := False\<rparr>;
           cfg = n_sixlowpan_config node;
           node =
             (if \<not> sc_is_custom_global_address cfg
              then node\<lparr>n_sixlowpan_config :=
                     cfg\<lparr>sc_global_address := init_ipv6_addr, sc_has_seen_global_address := False\<rparr>\<rparr>
              else node)
       in node_set_changed (node, head)
     else (node, head))"

definition node_errors_inc :: "(rpl_errors \<Rightarrow> rpl_errors) \<Rightarrow> di_node tracked \<Rightarrow> di_node tracked" where
  "node_errors_inc inc = (\<lambda>(node, head). node_set_changed (node\<lparr>n_rpl_errors := inc (n_rpl_errors node)\<rparr>, head))"

definition node_add_rank_error :: "di_node tracked \<Rightarrow> di_node tracked" where
  "node_add_rank_error = node_errors_inc (\<lambda>e. e\<lparr>er_rank_errors := er_rank_errors e + 1\<rparr>)"

definition node_add_forward_error :: "di_node tracked \<Rightarrow> di_node tracked" where
  "node_add_forward_error = node_errors_inc (\<lambda>e. e\<lparr>er_forward_errors := er_forward_errors e + 1\<rparr>)"

definition node_add_upward_error :: "di_node tracked \<Rightarrow> di_node tracked" where
  "node_add_upward_error = node_errors_inc (\<lambda>e. e\<lparr>er_upward_rank_errors := er_upward_rank_errors e + 1\<rparr>)"

definition node_add_downward_error :: "di_node tracked \<Rightarrow> di_node tracked" where
  "node_add_downward_error = node_errors_inc (\<lambda>e. e\<lparr>er_downward_rank_errors := er_downward_rank_errors e + 1\<rparr>)"

definition node_add_route_error :: "di_node tracked \<Rightarrow> di_node tracked" where
  "node_add_route_error = node_errors_inc (\<lambda>e. e\<lparr>er_route_loop_errors := er_route_loop_errors e + 1\<rparr>)"

definition node_add_dodag_version_error :: "di_node tracked \<Rightarrow> di_node tracked" where
  "node_add_dodag_version_error =
     node_errors_inc (\<lambda>e. e\<lparr>er_dodag_version_decrease_errors := er_dodag_version_decrease_errors e + 1\<rparr>)"

definition node_add_ip_mismatch_error :: "di_node tracked \<Rightarrow> di_node tracked" where
  "node_add_ip_mismatch_error = node_errors_inc (\<lambda>e. e\<lparr>er_ip_mismatch_errors := er_ip_mismatch_errors e + 1\<rparr>)"

definition node_add_dodag_mismatch_error :: "di_node tracked \<Rightarrow> di_node tracked" where
  "node_add_dodag_mismatch_error =
     node_errors_inc (\<lambda>e. e\<lparr>er_dodag_mismatch_errors := er_dodag_mismatch_errors e + 1\<rparr>)"

definition node_add_dodag_config_mismatch_error :: "di_node tracked \<Rightarrow> di_node tracked" where
  "node_add_dodag_config_mismatch_error =
     node_errors_inc (\<lambda>e. e\<lparr>er_dodag_config_mismatch_errors := er_dodag_config_mismatch_errors e + 1\<rparr>)"

text \<open>The first two tests of the updates from a message, each with its own \<open>node_set_changed\<close>.\<close>

definition node_take_config :: "rpl_instance_config \<Rightarrow> di_node tracked \<Rightarrow> di_node tracked" where
  "node_take_config new_config = (\<lambda>(node, head).
     if rpl_instance_config_compare (Some new_config) (Some (n_rpl_instance_config node))
     then node_set_changed (node\<lparr>n_rpl_instance_config := new_config\<rparr>, head) else (node, head))"

definition node_take_data :: "rpl_instance_data \<Rightarrow> di_node tracked \<Rightarrow> di_node tracked" where
  "node_take_data new_data = (\<lambda>(node, head).
     if rpl_instance_data_compare (Some new_data) (Some (n_rpl_instance_data node))
     then node_set_changed (node\<lparr>n_rpl_instance_data := new_data\<rparr>, head) else (node, head))"

definition node_update_from_dio :: "rpl_dio option \<Rightarrow> di_dodag option \<Rightarrow> di_node tracked \<Rightarrow> di_node tracked" where
  "node_update_from_dio dio dodag = (\<lambda>(node, head).
     if dio = None then (node, head)
     else
       let new_config = update_rpl_instance_config_from_dio (n_rpl_instance_config node) dio;
           new_data = update_rpl_instance_data_from_dio (n_rpl_instance_data node) dio;
           (node, head) = node_take_data new_data (node_take_config new_config (node, head));
           stats = n_rpl_statistics node
       in (node\<lparr>n_rpl_statistics := stats\<lparr>st_dio := st_dio stats + 1\<rparr>,
                n_has_rpl_instance_config := True, n_has_rpl_instance_data := True\<rparr>, head))"

text \<open>The other updates set \<open>has_rpl_instance_data\<close> only when the data differ.\<close>

definition node_take_data_has :: "rpl_instance_data \<Rightarrow> di_node tracked \<Rightarrow> di_node tracked" where
  "node_take_data_has new_data = (\<lambda>(node, head).
     if rpl_instance_data_compare (Some new_data) (Some (n_rpl_instance_data node))
     then node_set_changed (node\<lparr>n_rpl_instance_data := new_data, n_has_rpl_instance_data := True\<rparr>, head)
     else (node, head))"

definition node_take_config_has :: "rpl_instance_config \<Rightarrow> di_node tracked \<Rightarrow> di_node tracked" where
  "node_take_config_has new_config = (\<lambda>(node, head).
     if rpl_instance_config_compare (Some new_config) (Some (n_rpl_instance_config node))
     then node_set_changed (node\<lparr>n_rpl_instance_config := new_config, n_has_rpl_instance_config := True\<rparr>, head)
     else (node, head))"

definition node_update_from_metric :: "rpl_metric option \<Rightarrow> di_node tracked \<Rightarrow> di_node tracked" where
  "node_update_from_metric metric = (\<lambda>(node, head).
     node_take_data_has (update_rpl_instance_data_from_metric (n_rpl_instance_data node) metric) (node, head))"

definition node_update_from_hop_by_hop :: "rpl_hop_by_hop_opt option \<Rightarrow> di_node tracked \<Rightarrow> di_node tracked" where
  "node_update_from_hop_by_hop hop_by_hop = (\<lambda>(node, head).
     if hop_by_hop = None then (node, head)
     else node_take_data_has (update_rpl_instance_data_from_hop_by_hop (n_rpl_instance_data node) hop_by_hop)
            (node, head))"

definition node_update_from_dao :: "rpl_dao option \<Rightarrow> di_dodag option \<Rightarrow> di_node tracked \<Rightarrow> di_node tracked" where
  "node_update_from_dao dao dodag = (\<lambda>(node, head).
     if dao = None then (node, head)
     else
       let new_config = update_rpl_instance_config_from_dao (n_rpl_instance_config node) dao;
           new_data = update_rpl_instance_data_from_dao (n_rpl_instance_data node) dao;
           (node, head) = node_take_data_has new_data (node_take_config_has new_config (node, head));
           stats = n_rpl_statistics node
       in node_set_changed (node\<lparr>n_rpl_statistics := stats\<lparr>st_dao := st_dao stats + 1\<rparr>\<rparr>, head))"

definition node_update_from_dodag_config ::
    "rpl_dodag_config option \<Rightarrow> di_dodag option \<Rightarrow> di_node tracked \<Rightarrow> di_node tracked" where
  "node_update_from_dodag_config config dodag = (\<lambda>(node, head).
     let (node, head) =
       (case config of
          Some cfg \<Rightarrow>
            let (node, head) =
              (if rpl_dodag_config_compare config (Some (n_rpl_dodag_config node))
               then node_set_changed (node\<lparr>n_rpl_dodag_config := cfg\<rparr>, head) else (node, head))
            in (node\<lparr>n_has_rpl_dodag_config := True\<rparr>, head)
        | None \<Rightarrow>
            let (node, head) =
              (if n_has_rpl_dodag_config node then node_set_changed (node, head) else (node, head))
            in (node\<lparr>n_has_rpl_dodag_config := False\<rparr>, head))
     in case Option.bind dodag dodag_get_dodag_config of
          None \<Rightarrow> (node, head)
        | Some dodag_config \<Rightarrow>
            let delta = rpl_dodag_config_delta (Some dodag_config) (Some (n_rpl_dodag_config node));
                node = node\<lparr>n_actual_rpl_dodag_config_delta := delta\<rparr>
            in if dcd_has_changed delta then node_add_dodag_config_mismatch_error (node, head) else (node, head))"

text \<open>Taking the global address of a node from a prefix and its interface identifier.\<close>

definition node_autoconf_global :: "rpl_prefix \<Rightarrow> di_node \<Rightarrow> di_node" where
  "node_autoconf_global prefix_info node = node\<lparr>n_sixlowpan_config := (n_sixlowpan_config node)
     \<lparr>sc_global_address :=
        addr_get_global_ip_from_mac64 (px_prefix prefix_info) (nr_wpan_address (n_key node)),
      sc_is_custom_global_address := False\<rparr>\<rparr>"

definition node_update_from_dodag_prefix_info ::
    "rpl_prefix option \<Rightarrow> di_dodag option \<Rightarrow> di_node tracked \<Rightarrow> di_node tracked" where
  "node_update_from_dodag_prefix_info prefix_info dodag = (\<lambda>(node, head).
     let (node, head) =
       (case prefix_info of
          Some prefix \<Rightarrow>
            let (node, head) =
                  (if rpl_prefix_compare prefix_info (Some (n_rpl_dodag_prefix_info node))
                   then node_set_changed (node\<lparr>n_rpl_dodag_prefix_info := prefix\<rparr>, head) else (node, head));
                node =
                  (if \<not> sc_has_seen_global_address (n_sixlowpan_config node)
                   then node_autoconf_global prefix node else node)
            in (node\<lparr>n_has_rpl_dodag_prefix_info := True\<rparr>, head)
        | None \<Rightarrow>
            let (node, head) =
              (if n_has_rpl_dodag_prefix_info node then node_set_changed (node, head) else (node, head))
            in (node\<lparr>n_has_rpl_dodag_prefix_info := False\<rparr>, head))
     in case Option.bind dodag dodag_get_prefix of
          None \<Rightarrow> (node, head)
        | Some dodag_prefix_info \<Rightarrow>
            let delta = rpl_prefix_delta (Some dodag_prefix_info) (Some (n_rpl_dodag_prefix_info node));
                node = node\<lparr>n_actual_rpl_dodag_prefix_info_delta := delta\<rparr>
            in if pxd_has_changed delta then node_add_dodag_config_mismatch_error (node, head) else (node, head))"

definition node_update_from_dis :: "rpl_dis_opt_info_req option \<Rightarrow> di_node tracked \<Rightarrow> di_node tracked" where
  "node_update_from_dis dis = (\<lambda>(node, head).
     let stats = n_rpl_statistics node
     in node_set_changed (node\<lparr>n_rpl_statistics := stats\<lparr>st_dis := st_dis stats + 1\<rparr>\<rparr>, head))"

definition node_update_from_dodag :: "di_dodag option \<Rightarrow> di_node tracked \<Rightarrow> di_node tracked" where
  "node_update_from_dodag dodag = (\<lambda>(node, head).
     case dodag of None \<Rightarrow> (node, head)
     | Some dodag \<Rightarrow>
         let dodag_config = dodag_get_dodag_config dodag;
             dodag_prefix_info = dodag_get_prefix dodag;
             node =
               (if n_has_rpl_dodag_config node
                then node\<lparr>n_actual_rpl_dodag_config_delta :=
                       rpl_dodag_config_delta dodag_config (Some (n_rpl_dodag_config node))\<rparr>
                else node);
             node =
               (if n_has_rpl_dodag_prefix_info node
                then node\<lparr>n_actual_rpl_dodag_prefix_info_delta :=
                       rpl_prefix_delta dodag_prefix_info (Some (n_rpl_dodag_prefix_info node))\<rparr>
                else node);
             node =
               (case dodag_prefix_info of
                  Some prefix \<Rightarrow>
                    if \<not> n_has_rpl_dodag_prefix_info node
                       \<and> \<not> sc_has_seen_global_address (n_sixlowpan_config node)
                    then node_autoconf_global prefix node else node
                | None \<Rightarrow> node)
         in if dcd_has_changed (n_actual_rpl_dodag_config_delta node)
               \<or> pxd_has_changed (n_actual_rpl_dodag_prefix_info_delta node)
            then node_add_dodag_config_mismatch_error (node, head) else (node, head))"

definition node_add_route :: "di_route \<Rightarrow> addr_wpan \<Rightarrow> di_node tracked \<Rightarrow> di_node tracked" where
  "node_add_route route_prefix via_node = (\<lambda>(node, head).
     let (_, routes, route_already_existing) =
           route_add (n_routes node) route_prefix via_node False (Some False);
         node = node\<lparr>n_routes := routes\<rparr>
     in if route_already_existing = Some False
        then node_set_changed (node\<lparr>n_routes_delta := True\<rparr>, head) else (node, head))"

definition node_del_route :: "di_route \<Rightarrow> addr_wpan \<Rightarrow> di_node tracked \<Rightarrow> di_node tracked" where
  "node_del_route route_prefix via_node = (\<lambda>(node, head).
     let (removed, routes) = route_remove (n_routes node) route_prefix via_node;
         node = node\<lparr>n_routes := routes\<rparr>
     in if removed then node_set_changed (node\<lparr>n_routes_delta := True\<rparr>, head) else (node, head))"

text \<open>A \<open>double\<close> is false in a condition exactly when it is zero.\<close>

definition node_update_dao_interval :: "(real \<Rightarrow> real) \<Rightarrow> real \<Rightarrow> di_node tracked \<Rightarrow> di_node tracked" where
  "node_update_dao_interval fl timestamp = (\<lambda>(node, head).
     let stats = n_rpl_statistics node;
         stats =
           (if st_last_dao_timestamp stats \<noteq> 0 then
              let interval = fl (timestamp - st_last_dao_timestamp stats)
              in if st_max_dao_interval stats = 0 \<or> st_max_dao_interval stats < interval
                 then stats\<lparr>st_max_dao_interval := interval\<rparr> else stats
            else stats)
     in node_set_changed (node\<lparr>n_rpl_statistics := stats\<lparr>st_last_dao_timestamp := timestamp\<rparr>\<rparr>, head))"

definition node_update_dio_interval :: "(real \<Rightarrow> real) \<Rightarrow> real \<Rightarrow> di_node tracked \<Rightarrow> di_node tracked" where
  "node_update_dio_interval fl timestamp = (\<lambda>(node, head).
     let stats = n_rpl_statistics node;
         stats =
           (if st_last_dio_timestamp stats \<noteq> 0 then
              let interval = fl (timestamp - st_last_dio_timestamp stats)
              in if st_max_dio_interval stats = 0 \<or> st_max_dio_interval stats < interval
                 then stats\<lparr>st_max_dio_interval := interval\<rparr> else stats
            else stats)
     in node_set_changed (node\<lparr>n_rpl_statistics := stats\<lparr>st_last_dio_timestamp := timestamp\<rparr>\<rparr>, head))"

text \<open>What \<open>nodes_clear_all_errors\<close> does to one node.\<close>

definition node_clear_errors :: "di_node tracked \<Rightarrow> di_node tracked" where
  "node_clear_errors = (\<lambda>(node, head).
     node_set_changed
       (node\<lparr>n_sixlowpan_errors := init_sixlowpan_errors, n_rpl_errors := init_rpl_errors\<rparr>, head))"

subsection \<open>Every setter tracks the node\<close>

text \<open>
  Beyond \<open>tracks\<close>: the DODAG and the identifier of the node stay, and a routing table with
  one route for a prefix stays one.
\<close>

definition node_tracks :: "di_node tracked \<Rightarrow> di_node tracked \<Rightarrow> bool" where
  "node_tracks s s' \<longleftrightarrow> tracks n_key n_has_changed ROT_Node s s'
     \<and> n_dodag (fst s') = n_dodag (fst s) \<and> n_simple_id (fst s') = n_simple_id (fst s)
     \<and> (routes_ok (n_routes (fst s)) \<longrightarrow> routes_ok (n_routes (fst s')))"

lemma node_tracks_refl [simp]: "node_tracks s s"
  by (simp add: node_tracks_def)

lemma node_tracks_trans: "node_tracks s t \<Longrightarrow> node_tracks t u \<Longrightarrow> node_tracks s u"
  by (auto simp: node_tracks_def intro: tracks_trans)

lemma node_tracks_key: "node_tracks s s' \<Longrightarrow> n_key (fst s') = n_key (fst s)"
  by (simp add: node_tracks_def tracks_def)

text \<open>The fields \<open>node_tracks\<close> reads.\<close>

definition same_core :: "di_node \<Rightarrow> di_node \<Rightarrow> bool" where
  "same_core n m \<longleftrightarrow> n_key n = n_key m \<and> n_has_changed n = n_has_changed m \<and> n_dodag n = n_dodag m
     \<and> n_simple_id n = n_simple_id m \<and> (routes_ok (n_routes n) \<longrightarrow> routes_ok (n_routes m))"

lemma node_tracks_first: "node_tracks (m, h) s \<Longrightarrow> same_core n m \<Longrightarrow> node_tracks (n, h) s"
  by (auto simp: node_tracks_def tracks_def same_core_def)

lemma node_tracks_last: "node_tracks s (n, h) \<Longrightarrow> same_core n m \<Longrightarrow> node_tracks s (m, h)"
  by (auto simp: node_tracks_def tracks_def same_core_def)

lemma node_tracks_core: "same_core n m \<Longrightarrow> node_tracks (n, h) (m, h)"
  by (auto simp: node_tracks_def tracks_def same_core_def)

lemma node_set_changed_tracks [tracking]: "node_tracks s (node_set_changed s)"
  by (cases s) (simp add: node_tracks_def tracks_def node_set_changed_def rpl_event_node_def)

lemma node_set_changed_from: "same_core n m \<Longrightarrow> node_tracks (n, h) (node_set_changed (m, h))"
  by (rule node_tracks_first [OF node_set_changed_tracks])

lemma node_errors_inc_tracks [tracking]: "node_tracks s (node_errors_inc f s)"
  by (cases s) (simp add: node_errors_inc_def node_set_changed_from same_core_def)

lemma node_add_error_tracks [tracking]:
  "node_tracks s (node_add_rank_error s)" "node_tracks s (node_add_forward_error s)"
  "node_tracks s (node_add_upward_error s)" "node_tracks s (node_add_downward_error s)"
  "node_tracks s (node_add_route_error s)" "node_tracks s (node_add_dodag_version_error s)"
  "node_tracks s (node_add_ip_mismatch_error s)" "node_tracks s (node_add_dodag_mismatch_error s)"
  "node_tracks s (node_add_dodag_config_mismatch_error s)"
  by (simp_all add: node_add_rank_error_def node_add_forward_error_def node_add_upward_error_def
      node_add_downward_error_def node_add_route_error_def node_add_dodag_version_error_def
      node_add_ip_mismatch_error_def node_add_dodag_mismatch_error_def
      node_add_dodag_config_mismatch_error_def node_errors_inc_tracks)

lemma node_take_tracks [tracking]:
  "node_tracks s (node_take_config c s)" "node_tracks s (node_take_data d s)"
  "node_tracks s (node_take_config_has c s)" "node_tracks s (node_take_data_has d s)"
  by (cases s; simp add: node_take_config_def node_take_data_def node_take_config_has_def
      node_take_data_has_def node_set_changed_from same_core_def)+

text \<open>An operation that ends in an update of other fields, or in one more operation.\<close>

lemma node_tracks_update:
  "node_tracks s t \<Longrightarrow> same_core (fst t) m \<Longrightarrow> node_tracks s (m, snd t)"
  by (cases t) (auto intro: node_tracks_last)

lemma node_update_from_dio_tracks [tracking]: "node_tracks s (node_update_from_dio dio dodag s)"
proof (cases s)
  case (Pair node head)
  have "node_tracks (node, head) (node_take_data d (node_take_config c (node, head)))" for c d
    by (rule node_tracks_trans) (rule tracking)+
  then show ?thesis
    by (auto simp: Pair node_update_from_dio_def Let_def case_prod_beta same_core_def intro: node_tracks_update)
qed

lemma node_update_from_metric_tracks [tracking]: "node_tracks s (node_update_from_metric m s)"
  by (cases s) (simp add: node_update_from_metric_def tracking)

lemma node_update_from_hop_by_hop_tracks [tracking]: "node_tracks s (node_update_from_hop_by_hop m s)"
  by (cases s) (simp add: node_update_from_hop_by_hop_def tracking)

lemma node_update_from_dao_tracks [tracking]: "node_tracks s (node_update_from_dao dao dodag s)"
proof (cases s)
  case (Pair node head)
  have "node_tracks (node, head) (node_take_data_has d (node_take_config_has c (node, head)))" for c d
    by (rule node_tracks_trans) (rule tracking)+
  then have "node_tracks (node, head) (node_set_changed (n, h))"
    if "h = snd (node_take_data_has d (node_take_config_has c (node, head)))"
      and "same_core (fst (node_take_data_has d (node_take_config_has c (node, head)))) n" for c d n h
    unfolding that(1) by (rule node_tracks_trans [OF node_tracks_update [OF _ that(2)] node_set_changed_tracks])
  then show ?thesis
    by (auto simp: Pair node_update_from_dao_def Let_def case_prod_beta same_core_def)
qed

lemma node_update_from_dis_tracks [tracking]: "node_tracks s (node_update_from_dis d s)"
  by (cases s) (simp add: node_update_from_dis_def Let_def node_set_changed_from same_core_def)

lemma node_update_from_dodag_config_tracks [tracking]: "node_tracks s (node_update_from_dodag_config c d s)"
proof (cases s)
  case (Pair node head)
  define t where "t = (case c of
          Some cfg \<Rightarrow>
            let (node, head) =
              (if rpl_dodag_config_compare c (Some (n_rpl_dodag_config node))
               then node_set_changed (node\<lparr>n_rpl_dodag_config := cfg\<rparr>, head) else (node, head))
            in (node\<lparr>n_has_rpl_dodag_config := True\<rparr>, head)
        | None \<Rightarrow>
            let (node, head) =
              (if n_has_rpl_dodag_config node then node_set_changed (node, head) else (node, head))
            in (node\<lparr>n_has_rpl_dodag_config := False\<rparr>, head))"
  have t: "node_tracks (node, head) t"
    unfolding t_def
    by (auto simp: Let_def case_prod_beta same_core_def split: option.split
        intro!: node_tracks_update node_tracks_core node_set_changed_from tracking)
  then have "node_tracks (node, head) (node_errors_inc f (m, snd t))" if "same_core (fst t) m" for f m
    by (rule node_tracks_trans [OF node_tracks_update [OF _ that] node_errors_inc_tracks])
  with t show ?thesis
    unfolding Pair node_update_from_dodag_config_def split_conv t_def [symmetric]
    by (auto simp: Let_def case_prod_beta same_core_def node_add_dodag_config_mismatch_error_def
        split: option.split intro: node_tracks_update)
qed

lemma node_update_from_dodag_prefix_info_tracks [tracking]:
  "node_tracks s (node_update_from_dodag_prefix_info p d s)"
proof (cases s)
  case (Pair node head)
  define t where "t = (case p of
          Some prefix \<Rightarrow>
            let (node, head) =
                  (if rpl_prefix_compare p (Some (n_rpl_dodag_prefix_info node))
                   then node_set_changed (node\<lparr>n_rpl_dodag_prefix_info := prefix\<rparr>, head) else (node, head));
                node =
                  (if \<not> sc_has_seen_global_address (n_sixlowpan_config node)
                   then node_autoconf_global prefix node else node)
            in (node\<lparr>n_has_rpl_dodag_prefix_info := True\<rparr>, head)
        | None \<Rightarrow>
            let (node, head) =
              (if n_has_rpl_dodag_prefix_info node then node_set_changed (node, head) else (node, head))
            in (node\<lparr>n_has_rpl_dodag_prefix_info := False\<rparr>, head))"
  have t: "node_tracks (node, head) t"
    unfolding t_def
    by (auto simp: Let_def case_prod_beta same_core_def node_autoconf_global_def split: option.split
        intro!: node_tracks_update node_tracks_core node_set_changed_from tracking)
  then have "node_tracks (node, head) (node_errors_inc f (m, snd t))" if "same_core (fst t) m" for f m
    by (rule node_tracks_trans [OF node_tracks_update [OF _ that] node_errors_inc_tracks])
  with t show ?thesis
    unfolding Pair node_update_from_dodag_prefix_info_def split_conv t_def [symmetric]
    by (auto simp: Let_def case_prod_beta same_core_def node_add_dodag_config_mismatch_error_def
        split: option.split intro: node_tracks_update)
qed

lemma node_update_from_dodag_tracks [tracking]: "node_tracks s (node_update_from_dodag d s)"
proof (cases s)
  case (Pair node head)
  have "node_tracks (node, head) (node_errors_inc f (m, head))" if "same_core node m" for f m
    by (rule node_tracks_first [OF node_errors_inc_tracks that])
  then show ?thesis
    by (auto simp: Pair node_update_from_dodag_def Let_def same_core_def node_autoconf_global_def
        node_add_dodag_config_mismatch_error_def split: option.split intro!: node_tracks_core)
qed

lemma node_add_route_tracks [tracking]: "node_tracks s (node_add_route r v s)"
  by (cases s) (auto simp: node_add_route_def Let_def case_prod_beta same_core_def
      intro!: node_tracks_core node_set_changed_from route_add_ok)

lemma node_del_route_tracks [tracking]: "node_tracks s (node_del_route r v s)"
  by (cases s) (auto simp: node_del_route_def Let_def case_prod_beta same_core_def
      intro!: node_tracks_core node_set_changed_from route_remove_ok)

lemma node_update_interval_tracks [tracking]:
  "node_tracks s (node_update_dao_interval fl t s)" "node_tracks s (node_update_dio_interval fl t s)"
  by (cases s; simp add: node_update_dao_interval_def node_update_dio_interval_def Let_def
      node_set_changed_from same_core_def)+

lemma node_clear_errors_tracks [tracking]: "node_tracks s (node_clear_errors s)"
  by (cases s) (simp add: node_clear_errors_def node_set_changed_from same_core_def)

text \<open>\<open>node_set_dodag\<close> is the one setter that changes the DODAG.\<close>

lemma node_set_dodag_tracks:
  "tracks n_key n_has_changed ROT_Node s (node_set_dodag r s)"
  "n_dodag (fst (node_set_dodag r s)) = r"
  "n_routes (fst (node_set_dodag r s)) = n_routes (fst s)"
  by (cases s; simp add: node_set_dodag_def Let_def tracks_def node_set_changed_def rpl_event_node_def)+

text \<open>A new node.\<close>

lemma node_init_result:
  "\<exists>node. node_init key (head, sid) = (node, head @ [ROT_Node RET_Created key], sid + 1)
     \<and> n_key node = key \<and> n_has_changed node \<and> node_get_dodag node = None \<and> n_routes node = []"
  by (cases "key = node_ref_zero")
    (simp_all add: node_init_def node_set_key_def node_set_changed_def rpl_event_node_def Let_def
      node_calloc_def node_get_dodag_def node_ref_zero_def)

lemma node_dup_fields [simp]:
  "n_key (fst (node_dup n)) = n_key n" "n_key (snd (node_dup n)) = n_key n"
  "n_has_changed (fst (node_dup n)) = n_has_changed n" "n_has_changed (snd (node_dup n)) = n_has_changed n"
  "n_dodag (snd (node_dup n)) = n_dodag n" "n_routes (snd (node_dup n)) = n_routes n"
  by (simp_all add: node_dup_def)

lemma node_fill_delta_fields [simp]:
  "n_key (node_fill_delta fl n p) = n_key n" "n_has_changed (node_fill_delta fl n p) = n_has_changed n"
  by (simp_all add: node_fill_delta_def Let_def)

lemma node_reset_changed_fields [simp]:
  "n_key (node_reset_changed n) = n_key n" "\<not> n_has_changed (node_reset_changed n)"
  "n_dodag (node_reset_changed n) = n_dodag n" "n_routes (node_reset_changed n) = n_routes n"
  by (simp_all add: node_reset_changed_def)

subsection \<open>The properties\<close>

text \<open>
  The flag that a node has new errors is computed from the sum of the differences, which can cancel: when the errors of
  a node have been cleared after a version with one rank error, one new forwarding error goes unnoticed.
\<close>

theorem error_differences_cancel:
  "n_has_errors (node_fill_delta fl
      (fst (node_add_forward_error (node\<lparr>n_rpl_errors := init_rpl_errors, n_sixlowpan_errors_delta := init_sixlowpan_errors_delta\<rparr>, head)))
      (Some (fst (node_add_rank_error (node\<lparr>n_rpl_errors := init_rpl_errors\<rparr>, head))))) = 0"
  by (simp add: node_fill_delta_def node_get_rpl_errors_def node_add_forward_error_def node_add_rank_error_def node_errors_inc_def
      node_set_changed_def rpl_errors_delta_def init_rpl_errors_def init_sixlowpan_errors_delta_def Let_def)

text \<open>
  What the updates may change in silence, next to the flag itself: each view leaves it out. A DIO counts itself and says that the node
  has a configuration and data, even when these are what they were; the other updates recompute the differences with the DODAG and take a
  global address.
\<close>

definition node_content :: "di_node \<Rightarrow> di_node" where
  "node_content n = n\<lparr>n_has_changed := False\<rparr>"

definition dio_content :: "di_node \<Rightarrow> di_node" where
  "dio_content n = n\<lparr>n_has_changed := False, n_rpl_statistics := (n_rpl_statistics n)\<lparr>st_dio := 0\<rparr>,
     n_has_rpl_instance_config := False, n_has_rpl_instance_data := False\<rparr>"

definition config_content :: "di_node \<Rightarrow> di_node" where
  "config_content n = n\<lparr>n_has_changed := False, n_has_rpl_dodag_config := False,
     n_actual_rpl_dodag_config_delta := rpl_dodag_config_delta_zero\<rparr>"

definition address_content :: "di_node \<Rightarrow> di_node" where
  "address_content n = n\<lparr>n_has_changed := False, n_has_rpl_dodag_prefix_info := False,
     n_sixlowpan_config := (n_sixlowpan_config n)\<lparr>sc_global_address := init_ipv6_addr, sc_is_custom_global_address := False\<rparr>,
     n_actual_rpl_dodag_config_delta := rpl_dodag_config_delta_zero,
     n_actual_rpl_dodag_prefix_info_delta := rpl_prefix_delta_zero\<rparr>"

text \<open>An update is reported when a change that the view shows leaves the flag set.\<close>

definition reported :: "(di_node \<Rightarrow> di_node) \<Rightarrow> di_node tracked \<Rightarrow> di_node tracked \<Rightarrow> bool" where
  "reported view s s' \<longleftrightarrow> node_tracks s s' \<and> (view (fst s') \<noteq> view (fst s) \<longrightarrow> n_has_changed (fst s'))"

lemma reportedI: "node_tracks s s' \<Longrightarrow> (\<not> n_has_changed (fst s') \<Longrightarrow> view (fst s') = view (fst s)) \<Longrightarrow> reported view s s'"
  by (auto simp: reported_def)

lemma set_changed_flag: "n_has_changed (fst (node_set_changed s))"
  by (cases s) (simp add: node_set_changed_def)

lemma errors_inc_flag: "n_has_changed (fst (node_errors_inc f s))"
  by (cases s) (simp add: node_errors_inc_def set_changed_flag)

lemmas flag_set = set_changed_flag errors_inc_flag

text \<open>A step that leaves the flag unset has done nothing.\<close>

lemma node_take_quiet:
  "\<not> n_has_changed (fst (node_take_config c s)) \<Longrightarrow> node_take_config c s = s"
  "\<not> n_has_changed (fst (node_take_data d s)) \<Longrightarrow> node_take_data d s = s"
  "\<not> n_has_changed (fst (node_take_data_has d s)) \<Longrightarrow> node_take_data_has d s = s"
  by (cases s; simp add: node_take_config_def node_take_data_def node_take_data_has_def flag_set split: if_splits)+

lemma update_from_dio_reported: "reported dio_content s (node_update_from_dio dio dodag s)"
proof -
  define t where "t = node_take_data (update_rpl_instance_data_from_dio (n_rpl_instance_data (fst s)) dio)
    (node_take_config (update_rpl_instance_config_from_dio (n_rpl_instance_config (fst s)) dio) s)"
  have t: "node_update_from_dio dio dodag s = (if dio = None then s
      else ((fst t)\<lparr>n_rpl_statistics := (n_rpl_statistics (fst t))\<lparr>st_dio := st_dio (n_rpl_statistics (fst t)) + 1\<rparr>,
        n_has_rpl_instance_config := True, n_has_rpl_instance_data := True\<rparr>, snd t))"
    by (cases s) (simp add: node_update_from_dio_def t_def Let_def case_prod_beta)
  show ?thesis
  proof (rule reportedI [OF node_update_from_dio_tracks])
    assume "\<not> n_has_changed (fst (node_update_from_dio dio dodag s))"
    then have "\<not> n_has_changed (fst t)" if "dio \<noteq> None" using that by (simp add: t)
    then have "dio = None \<or> t = s" unfolding t_def by (metis node_take_quiet(1,2))
    moreover have "node_update_from_dio None dodag s = s" by (cases s) (simp add: node_update_from_dio_def)
    ultimately show "dio_content (fst (node_update_from_dio dio dodag s)) = dio_content (fst s)"
      by (elim disjE; cases "dio = None"; simp add: t dio_content_def)
  qed
qed

lemma small_updates_reported:
  "reported node_content s (node_update_from_metric metric s)"
  "reported node_content s (node_update_from_hop_by_hop hop s)"
  "reported node_content s (node_update_from_dis request s)"
  "reported node_content s (node_update_from_dao dao dodag s)"
proof -
  show "reported node_content s (node_update_from_metric metric s)"
    by (cases s, rule reportedI [OF node_update_from_metric_tracks]) (simp add: node_update_from_metric_def node_take_quiet)
  show "reported node_content s (node_update_from_hop_by_hop hop s)"
    by (cases s, rule reportedI [OF node_update_from_hop_by_hop_tracks])
      (cases hop; simp add: node_update_from_hop_by_hop_def node_take_quiet)
  show "reported node_content s (node_update_from_dis request s)"
    by (cases s, rule reportedI [OF node_update_from_dis_tracks]) (simp add: node_update_from_dis_def flag_set Let_def)
  show "reported node_content s (node_update_from_dao dao dodag s)"
    by (cases s, rule reportedI [OF node_update_from_dao_tracks])
      (cases dao; simp add: node_update_from_dao_def flag_set Let_def case_prod_beta)
qed

lemma update_from_dodag_config_reported: "reported config_content s (node_update_from_dodag_config config dodag s)"
  by (cases s, rule reportedI [OF node_update_from_dodag_config_tracks])
    (cases config; cases "Option.bind dodag dodag_get_dodag_config";
     simp add: node_update_from_dodag_config_def node_add_dodag_config_mismatch_error_def flag_set Let_def case_prod_beta config_content_def split: if_splits)

lemma update_from_dodag_prefix_info_reported: "reported address_content s (node_update_from_dodag_prefix_info prefix dodag s)"
  by (cases s, rule reportedI [OF node_update_from_dodag_prefix_info_tracks])
    (cases prefix; cases "Option.bind dodag dodag_get_prefix";
     simp add: node_update_from_dodag_prefix_info_def node_add_dodag_config_mismatch_error_def flag_set node_autoconf_global_def Let_def case_prod_beta
       address_content_def split: if_splits)

lemma update_from_dodag_reported: "reported address_content s (node_update_from_dodag dodag s)"
  by (cases s, rule reportedI [OF node_update_from_dodag_tracks])
    (cases dodag; simp add: node_update_from_dodag_def node_add_dodag_config_mismatch_error_def flag_set node_autoconf_global_def Let_def
       address_content_def split: if_splits option.splits)

lemma route_add_quiet: "route_add xs target via summary (Some False) = (r, ys, Some True) \<Longrightarrow> ys = xs"
proof -
  have "route_add_loop xs target via (Some False) = Some (r, ys, Some True) \<Longrightarrow> ys = xs"
    by (induction xs arbitrary: ys) (auto simp: Let_def split: if_splits)
  then show "route_add xs target via summary (Some False) = (r, ys, Some True) \<Longrightarrow> ys = xs"
    by (auto simp: route_add_def Let_def split: option.splits)
qed

lemma route_add_flag: "snd (snd (route_add xs target via summary (Some False))) \<noteq> None"
proof -
  have "route_add_loop xs target via (Some False) = Some (r, ys, w) \<Longrightarrow> w \<noteq> None" for r ys w
    by (induction xs arbitrary: ys) (auto simp: Let_def split: if_splits)
  then show ?thesis by (auto simp: route_add_def Let_def split: option.splits)
qed

lemma route_remove_quiet: "route_remove xs target via = (False, ys) \<Longrightarrow> ys = xs"
  by (induction xs arbitrary: ys) (auto split: if_splits prod.splits)

lemma routes_reported:
  "reported node_content s (node_add_route route via s)" "reported node_content s (node_del_route route via s)"
proof -
  obtain node head where s: "s = (node, head)" by (cases s)
  obtain r ys w where add: "route_add (n_routes node) route via False (Some False) = (r, ys, w)" by (metis prod_cases3)
  then have "w \<noteq> None" "w = Some True \<Longrightarrow> ys = n_routes node"
    using route_add_flag [of "n_routes node" route via False] route_add_quiet [of "n_routes node" route via False r ys] by (simp_all add: add)
  then have "w = Some False \<or> w = Some True \<and> ys = n_routes node" by auto
  then show "reported node_content s (node_add_route route via s)"
    by (intro reportedI [OF node_add_route_tracks]) (elim disjE; simp add: s node_add_route_def add flag_set Let_def)
  obtain removed zs where del: "route_remove (n_routes node) route via = (removed, zs)" by (cases "route_remove (n_routes node) route via")
  then have "removed \<or> zs = n_routes node" using route_remove_quiet by (cases removed) auto
  then show "reported node_content s (node_del_route route via s)"
    by (intro reportedI [OF node_del_route_tracks], cases removed) (simp_all add: s node_del_route_def del flag_set Let_def)
qed

text \<open>What the updates store.\<close>

lemma node_take_fields:
  "n_rpl_instance_config (fst (node_take_config c s)) = c"
  "n_rpl_instance_data (fst (node_take_config c s)) = n_rpl_instance_data (fst s)"
  "n_rpl_statistics (fst (node_take_config c s)) = n_rpl_statistics (fst s)"
  "n_rpl_instance_config (fst (node_take_config_has c s)) = c"
  "n_rpl_instance_data (fst (node_take_config_has c s)) = n_rpl_instance_data (fst s)"
  "n_rpl_statistics (fst (node_take_config_has c s)) = n_rpl_statistics (fst s)"
  "n_rpl_instance_config (fst (node_take_data d s)) = n_rpl_instance_config (fst s)"
  "n_rpl_instance_config (fst (node_take_data_has d s)) = n_rpl_instance_config (fst s)"
  "n_rpl_statistics (fst (node_take_data d s)) = n_rpl_statistics (fst s)"
  "n_rpl_statistics (fst (node_take_data_has d s)) = n_rpl_statistics (fst s)"
  by (cases s; simp add: node_take_config_def node_take_config_has_def node_take_data_def node_take_data_has_def node_set_changed_def
      rpl_instance_config_compare_iff)+

text \<open>The data that is stored is the new one, but for the type of a metric whose value stays.\<close>

definition data_stored :: "rpl_instance_data \<Rightarrow> rpl_instance_data \<Rightarrow> bool" where
  "data_stored new stored \<longleftrightarrow> stored = new\<lparr>idt_metric := (idt_metric new)\<lparr>mm_type := mm_type (idt_metric stored)\<rparr>\<rparr>"

lemma node_take_data_stored:
  "data_stored d (n_rpl_instance_data (fst (node_take_data_has d s)))"
  "idt_metric d = idt_metric (n_rpl_instance_data (fst s)) \<Longrightarrow> n_rpl_instance_data (fst (node_take_data_has d s)) = d"
  "idt_metric d = idt_metric (n_rpl_instance_data (fst s)) \<Longrightarrow> n_rpl_instance_data (fst (node_take_data d s)) = d"
proof -
  let ?e = "n_rpl_instance_data (fst s)"
  define differ where "differ = rpl_instance_data_compare (Some d) (Some ?e)"
  have differ: "\<not> differ \<Longrightarrow> ?e = d\<lparr>idt_metric := (idt_metric d)\<lparr>mm_type := mm_type (idt_metric ?e)\<rparr>\<rparr>"
    unfolding differ_def rpl_instance_data_compare_iff by metis
  have taken: "n_rpl_instance_data (fst (node_take_data_has d s)) = (if differ then d else ?e)"
      "n_rpl_instance_data (fst (node_take_data d s)) = (if differ then d else ?e)"
    by (cases s; simp add: node_take_data_has_def node_take_data_def node_set_changed_def differ_def)+
  show "data_stored d (n_rpl_instance_data (fst (node_take_data_has d s)))"
    using differ unfolding taken data_stored_def by (cases differ) simp_all
  assume "idt_metric d = idt_metric ?e"
  then have "(if differ then d else ?e) = d" using differ by (cases differ) (simp_all flip: \<open>idt_metric d = idt_metric ?e\<close>)
  then show "n_rpl_instance_data (fst (node_take_data_has d s)) = d" "n_rpl_instance_data (fst (node_take_data d s)) = d"
    by (simp_all only: taken)
qed

lemma updates_keep_metric:
  "idt_metric (update_rpl_instance_data_from_dio d dio) = idt_metric d"
  "idt_metric (update_rpl_instance_data_from_dao d dao) = idt_metric d"
  "idt_metric (update_rpl_instance_data_from_hop_by_hop d hop) = idt_metric d"
  by (simp_all add: update_rpl_instance_data_from_dio_def update_rpl_instance_data_from_dao_def update_rpl_instance_data_from_hop_by_hop_def
      split: option.split)

lemma update_from_dio_stores:
  "n_rpl_instance_config (fst (node_update_from_dio dio dodag s)) = update_rpl_instance_config_from_dio (n_rpl_instance_config (fst s)) dio"
  "n_rpl_instance_data (fst (node_update_from_dio dio dodag s)) = update_rpl_instance_data_from_dio (n_rpl_instance_data (fst s)) dio"
  "st_dio (n_rpl_statistics (fst (node_update_from_dio dio dodag s))) = st_dio (n_rpl_statistics (fst s)) + (if dio = None then 0 else 1)"
  by (cases s; cases dio; simp add: node_update_from_dio_def Let_def case_prod_beta node_take_fields node_take_data_stored(3) updates_keep_metric;
      simp add: update_rpl_instance_config_from_dio_def update_rpl_instance_data_from_dio_def)+

lemma update_from_dao_stores:
  "n_rpl_instance_config (fst (node_update_from_dao dao dodag s)) = update_rpl_instance_config_from_dao (n_rpl_instance_config (fst s)) dao"
  "n_rpl_instance_data (fst (node_update_from_dao dao dodag s)) = update_rpl_instance_data_from_dao (n_rpl_instance_data (fst s)) dao"
  "st_dao (n_rpl_statistics (fst (node_update_from_dao dao dodag s))) = st_dao (n_rpl_statistics (fst s)) + (if dao = None then 0 else 1)"
  by (cases s; cases dao; simp add: node_update_from_dao_def Let_def case_prod_beta node_set_changed_def node_take_fields node_take_data_stored(2) updates_keep_metric;
      simp add: update_rpl_instance_config_from_dao_def update_rpl_instance_data_from_dao_def)+

lemma other_updates_store:
  "data_stored (update_rpl_instance_data_from_metric (n_rpl_instance_data (fst s)) metric)
     (n_rpl_instance_data (fst (node_update_from_metric metric s)))"
  "n_rpl_instance_data (fst (node_update_from_hop_by_hop hop s)) = update_rpl_instance_data_from_hop_by_hop (n_rpl_instance_data (fst s)) hop"
  "st_dis (n_rpl_statistics (fst (node_update_from_dis request s))) = st_dis (n_rpl_statistics (fst s)) + 1"
  "n_routes (fst (node_add_route route via s)) = fst (snd (route_add (n_routes (fst s)) route via False (Some False)))"
  "n_routes (fst (node_del_route route via s)) = snd (route_remove (n_routes (fst s)) route via)"
proof -
  obtain node head where s: "s = (node, head)" by (cases s)
  show "data_stored (update_rpl_instance_data_from_metric (n_rpl_instance_data (fst s)) metric)
     (n_rpl_instance_data (fst (node_update_from_metric metric s)))"
    by (simp add: s node_update_from_metric_def node_take_data_stored(1))
  show "n_rpl_instance_data (fst (node_update_from_hop_by_hop hop s)) = update_rpl_instance_data_from_hop_by_hop (n_rpl_instance_data (fst s)) hop"
    by (cases hop) (simp_all add: s node_update_from_hop_by_hop_def node_take_data_stored(2) updates_keep_metric,
      simp add: update_rpl_instance_data_from_hop_by_hop_def)
qed (cases s; simp add: node_update_from_dis_def node_add_route_def node_del_route_def node_set_changed_def Let_def case_prod_beta)+


end
