(* ===== verification/RplInstance.thy ===== *)
theory RplInstance
  imports Events HashContainer RplDef
begin

section \<open>RPL instances\<close>

text \<open>
  Models \<open>src/src/data_info/rpl_instance.c\<close>: an instance keeps its mode of operation and the
  container of the DODAGs that belong to it. The two operations that also change the DODAG
  return the reference to give it, if any; the theory \<open>RplData\<close> passes it on.
\<close>

record di_rpl_instance =
  i_key :: di_rpl_instance_ref
  i_dodags :: "(di_dodag_ref, di_dodag_ref) hash_container"
  i_mode_of_operation :: u32
  i_has_changed :: bool
  i_user_data :: nat

text \<open>What \<open>hash_add\<close> puts in an element without data and constructor: zero bytes.\<close>

definition dodag_ref_zero :: di_dodag_ref where
  "dodag_ref_zero = \<lparr>dr_dodagid = init_ipv6_addr, dr_version = 0\<rparr>"

definition rpl_instance_init :: "di_rpl_instance_ref \<Rightarrow> rpl_event list \<Rightarrow> di_rpl_instance tracked" where
  "rpl_instance_init key head =
     (let instance = \<lparr>i_key = key, i_dodags = hash_create (\<lambda>_. dodag_ref_zero), i_mode_of_operation = 0,
                      i_has_changed = True, i_user_data = 0\<rparr>
      in (instance, rpl_event_rpl_instance (i_key instance) RET_Created head))"

definition rpl_instance_destroy :: "di_rpl_instance \<Rightarrow> di_rpl_instance" where
  "rpl_instance_destroy instance = instance\<lparr>i_dodags := hash_clear (i_dodags instance)\<rparr>"

definition rpl_instance_dup :: "di_rpl_instance \<Rightarrow> di_rpl_instance option" where
  "rpl_instance_dup rpl_instance =
     do { dodags \<leftarrow> hash_dup (i_dodags rpl_instance); Some (rpl_instance\<lparr>i_dodags := dodags\<rparr>) }"

definition rpl_instance_set_changed :: "di_rpl_instance tracked \<Rightarrow> di_rpl_instance tracked" where
  "rpl_instance_set_changed = (\<lambda>(rpl_instance, head).
     (rpl_instance\<lparr>i_has_changed := True\<rparr>,
      if i_has_changed rpl_instance = False
      then rpl_event_rpl_instance (i_key rpl_instance) RET_Updated head else head))"

definition rpl_instance_set_key :: "di_rpl_instance_ref \<Rightarrow> di_rpl_instance tracked \<Rightarrow> di_rpl_instance tracked" where
  "rpl_instance_set_key key = (\<lambda>(rpl_instance, head).
     if i_key rpl_instance \<noteq> key
     then rpl_instance_set_changed (rpl_instance\<lparr>i_key := key\<rparr>, head) else (rpl_instance, head))"

definition rpl_instance_set_mop :: "u32 \<Rightarrow> di_rpl_instance tracked \<Rightarrow> di_rpl_instance tracked" where
  "rpl_instance_set_mop mop = (\<lambda>(rpl_instance, head).
     if i_mode_of_operation rpl_instance \<noteq> mop
     then rpl_instance_set_changed (rpl_instance\<lparr>i_mode_of_operation := mop\<rparr>, head)
     else (rpl_instance, head))"

definition rpl_instance_has_changed :: "di_rpl_instance \<Rightarrow> bool" where
  "rpl_instance_has_changed rpl_instance = i_has_changed rpl_instance"

definition rpl_instance_reset_changed :: "di_rpl_instance \<Rightarrow> di_rpl_instance" where
  "rpl_instance_reset_changed rpl_instance = rpl_instance\<lparr>i_has_changed := False\<rparr>"

text \<open>
  \<open>rpl_instance_add_dodag\<close> in two steps around the change of the DODAG: the container of the
  instance with \<open>was_already_existing\<close>, and the flag.
\<close>

definition rpl_instance_hash_add_dodag :: "di_dodag_ref \<Rightarrow> di_rpl_instance \<Rightarrow> bool \<times> di_rpl_instance" where
  "rpl_instance_hash_add_dodag ref rpl_instance =
     (let (_, was_already_existing, _, dodags) =
        hash_add (i_dodags rpl_instance) ref (Some ref) HAM_OverwriteIfExists
      in (was_already_existing, rpl_instance\<lparr>i_dodags := dodags\<rparr>))"

definition rpl_instance_hash_del_dodag :: "di_dodag_ref \<Rightarrow> di_rpl_instance \<Rightarrow> (bool \<times> di_rpl_instance) option" where
  "rpl_instance_hash_del_dodag ref rpl_instance =
     do { (found, dodags) \<leftarrow> hash_delete (i_dodags rpl_instance) ref;
          Some (found, rpl_instance\<lparr>i_dodags := dodags\<rparr>) }"

definition null_rpl_instance :: di_rpl_instance_ref where
  "null_rpl_instance = \<lparr>ir_rpl_instance = -1\<rparr>"

definition instance_ok :: "di_rpl_instance \<Rightarrow> bool" where
  "instance_ok i \<longleftrightarrow> hash_ok (i_dodags i)"

abbreviation instance_tracks :: "di_rpl_instance tracked \<Rightarrow> di_rpl_instance tracked \<Rightarrow> bool" where
  "instance_tracks \<equiv> tracks i_key i_has_changed ROT_RplInstance"

lemma rpl_instance_set_changed_tracks: "instance_tracks s (rpl_instance_set_changed s)"
  by (cases s) (simp add: tracks_def rpl_instance_set_changed_def rpl_event_rpl_instance_def)

lemma rpl_instance_set_changed_ok [simp]: "instance_ok (fst (rpl_instance_set_changed s)) = instance_ok (fst s)"
  by (cases s) (simp add: rpl_instance_set_changed_def instance_ok_def)

lemma rpl_instance_set_mop_tracks: "instance_tracks s (rpl_instance_set_mop m s)"
  by (cases s) (auto simp: rpl_instance_set_mop_def intro!: tracks_from [OF _ _ rpl_instance_set_changed_tracks])

lemma rpl_instance_set_mop_ok [simp]: "instance_ok (fst (rpl_instance_set_mop m s)) = instance_ok (fst s)"
  by (cases s) (simp add: rpl_instance_set_mop_def, simp add: instance_ok_def)

lemma rpl_instance_hash_add_dodag_result:
  assumes "instance_ok i"
  shows "fst (rpl_instance_hash_add_dodag ref i) \<longleftrightarrow> hash_map (i_dodags i) ref \<noteq> None"
    and "instance_ok (snd (rpl_instance_hash_add_dodag ref i))"
    and "i_key (snd (rpl_instance_hash_add_dodag ref i)) = i_key i"
    and "i_has_changed (snd (rpl_instance_hash_add_dodag ref i)) = i_has_changed i"
    and "hash_map (i_dodags (snd (rpl_instance_hash_add_dodag ref i))) = (hash_map (i_dodags i))(ref \<mapsto> ref)"
  using hash_add_overwrite [of "i_dodags i" ref ref] assms
  by (auto simp: rpl_instance_hash_add_dodag_def instance_ok_def)

lemma rpl_instance_dup_result:
  "instance_ok i \<Longrightarrow> \<exists>dodags. rpl_instance_dup i = Some (i\<lparr>i_dodags := dodags\<rparr>)
     \<and> hash_ok dodags \<and> hash_items dodags = hash_items (i_dodags i)"
  using hash_dup_items [of "i_dodags i"] by (auto simp: rpl_instance_dup_def instance_ok_def)

end
