(* ===== verification/Metric.thy ===== *)
theory Metric
  imports Prelude
begin

section \<open>Metric types\<close>

text \<open>
  Models \<open>src/src/data_info/metric.h\<close> and \<open>metric.c\<close>: the registry of metric types, a
  linked list to which new types are prepended, and the two conversions that use it. The
  function pointers of a metric type are functions, \<open>None\<close> when the pointer is NULL (a conversion
  to text can itself fail); a
  pointer to a registered type is the type itself. A C \<open>double\<close> is a real, and \<open>fl\<close> is
  the rounding of the machine's arithmetic.
\<close>

record di_metric_type =
  mt_name :: string
  mt_to_string :: "(u64 \<Rightarrow> string option) option"
  mt_to_display_value :: "(u64 \<Rightarrow> real) option"

record di_metric =
  me_type :: "di_metric_type option"
  me_value :: u64

type_synonym metric_registry = "di_metric_type list"

definition metric_add_type :: "metric_registry \<Rightarrow> di_metric_type \<Rightarrow> metric_registry" where
  "metric_add_type metrics metric_model = metric_model # metrics"

fun metric_get_type :: "metric_registry \<Rightarrow> string \<Rightarrow> di_metric_type option" where
  "metric_get_type [] name = None"
| "metric_get_type (t # ts) name = (if mt_name t = name then Some t else metric_get_type ts name)"

text \<open>The outer option is a failure of the conversion, the inner one the NULL returned.\<close>

definition metric_to_string :: "di_metric \<Rightarrow> string option option" where
  "metric_to_string m =
     (case me_type m of None \<Rightarrow> Some None
      | Some t \<Rightarrow> (case mt_to_string t of None \<Rightarrow> Some None | Some f \<Rightarrow> map_option Some (f (me_value m))))"

definition metric_get_display_value :: "(real \<Rightarrow> real) \<Rightarrow> di_metric \<Rightarrow> real" where
  "metric_get_display_value fl m =
     (case me_type m of None \<Rightarrow> fl (real (unat (me_value m)))
      | Some t \<Rightarrow> (case mt_to_display_value t of
                    None \<Rightarrow> fl (real (unat (me_value m))) | Some f \<Rightarrow> f (me_value m)))"

text \<open>\<open>metric_enumerate\<close> calls its callback on every type; the calls, in order.\<close>

definition metric_enumerate :: "metric_registry \<Rightarrow> di_metric_type list" where
  "metric_enumerate metrics = fold (\<lambda>t calls. calls @ [t]) metrics []"

lemma metric_get_after_add:
  "metric_get_type (metric_add_type ms t) name =
     (if mt_name t = name then Some t else metric_get_type ms name)"
  by (simp add: metric_add_type_def)

lemma metric_get_type_Some: "metric_get_type ms name = Some t \<Longrightarrow> t \<in> set ms \<and> mt_name t = name"
  by (induction ms) (auto split: if_splits)

lemma metric_get_type_None: "metric_get_type ms name = None \<longleftrightarrow> name \<notin> mt_name ` set ms"
  by (induction ms) auto

lemma metric_enumerate_all: "metric_enumerate ms = ms"
proof -
  have "fold (\<lambda>t calls. calls @ [t]) ms acc = acc @ ms" for acc :: "di_metric_type list"
    by (induction ms arbitrary: acc) simp_all
  then show ?thesis by (simp add: metric_enumerate_def)
qed

end
