(* ===== verification/Link.thy ===== *)
theory Link
  imports Events Metric
begin

section \<open>Links\<close>

text \<open>
  Models the object of \<open>src/src/data_info/link.c\<close>: a link from a child node to its parent. The
  setters work on the object and the pending events; the operations that go through the
  collected data (\<open>link_update\<close> and the loops over all links) are in the theory \<open>RplData\<close>.
  \<open>time_t\<close> is a 64-bit integer, a \<open>user_data\<close> pointer a number. A metric type is compared by
  its pointer in the code; here the pointer is a number as well.
\<close>

record link_metric =
  lm_type :: nat
  lm_value :: u64

record di_link =
  l_key :: di_link_ref
  l_metric :: link_metric
  l_last_update :: u64
  l_expiration_time :: u64
  l_packet_count :: u32
  l_deprecated :: bool
  l_has_changed :: bool
  l_user_data :: nat

text \<open>The object after \<open>calloc\<close>.\<close>

definition link_calloc :: di_link where
  "link_calloc = \<lparr>l_key = \<lparr>lr_child = \<lparr>nr_wpan_address = 0\<rparr>, lr_parent = \<lparr>nr_wpan_address = 0\<rparr>\<rparr>,
     l_metric = \<lparr>lm_type = 0, lm_value = 0\<rparr>, l_last_update = 0, l_expiration_time = 0,
     l_packet_count = 0, l_deprecated = False, l_has_changed = False, l_user_data = 0\<rparr>"

definition link_init :: "di_link_ref \<Rightarrow> rpl_event list \<Rightarrow> di_link tracked" where
  "link_init key head =
     (let link = link_calloc\<lparr>l_key := key, l_has_changed := True\<rparr>
      in (link, rpl_event_link (l_key link) RET_Created head))"

definition link_set_changed :: "di_link tracked \<Rightarrow> di_link tracked" where
  "link_set_changed = (\<lambda>(link, head).
     (link\<lparr>l_has_changed := True\<rparr>,
      if l_has_changed link = False then rpl_event_link (l_key link) RET_Updated head else head))"

definition link_dup :: "di_link \<Rightarrow> di_link" where
  "link_dup link = link"

definition link_set_key :: "di_link_ref \<Rightarrow> di_link tracked \<Rightarrow> di_link tracked" where
  "link_set_key key = (\<lambda>(link, head).
     if l_key link \<noteq> key then link_set_changed (link\<lparr>l_key := key\<rparr>, head) else (link, head))"

definition link_set_metric :: "link_metric \<Rightarrow> di_link tracked \<Rightarrow> di_link tracked" where
  "link_set_metric metric = (\<lambda>(link, head).
     if lm_type (l_metric link) \<noteq> lm_type metric \<or> lm_value (l_metric link) \<noteq> lm_value metric
     then link_set_changed (link\<lparr>l_metric := metric\<rparr>, head) else (link, head))"

definition link_set_user_data :: "nat \<Rightarrow> di_link \<Rightarrow> di_link" where
  "link_set_user_data user_data link = link\<lparr>l_user_data := user_data\<rparr>"

definition link_has_changed :: "di_link \<Rightarrow> bool" where
  "link_has_changed link = l_has_changed link"

definition link_reset_changed :: "di_link \<Rightarrow> di_link" where
  "link_reset_changed link = link\<lparr>l_has_changed := False\<rparr>"

text \<open>The parts of \<open>link_update\<close> before and after it copies the packet count to the last version.\<close>

definition link_count :: "u64 \<Rightarrow> u32 \<Rightarrow> di_link \<Rightarrow> di_link" where
  "link_count time added_packet_count link =
     link\<lparr>l_last_update := time, l_packet_count := l_packet_count link + added_packet_count\<rparr>"

definition link_revive :: "di_link tracked \<Rightarrow> di_link tracked" where
  "link_revive = (\<lambda>(link, head).
     if l_deprecated link then link_set_changed (link\<lparr>l_deprecated := False\<rparr>, head) else (link, head))"

text \<open>The body of the loop of \<open>links_deprecate_all_from\<close> for one link.\<close>

definition link_deprecate_from :: "di_link_ref \<Rightarrow> di_link tracked \<Rightarrow> di_link tracked" where
  "link_deprecate_from new_link_ref = (\<lambda>(link, head).
     if nr_wpan_address (lr_child (l_key link)) = nr_wpan_address (lr_child new_link_ref)
        \<and> nr_wpan_address (lr_parent (l_key link)) \<noteq> nr_wpan_address (lr_parent new_link_ref)
     then link_set_changed (link\<lparr>l_deprecated := True\<rparr>, head) else (link, head))"

abbreviation link_tracks :: "di_link tracked \<Rightarrow> di_link tracked \<Rightarrow> bool" where
  "link_tracks \<equiv> tracks l_key l_has_changed ROT_Link"

lemma link_set_changed_tracks: "link_tracks s (link_set_changed s)"
  by (cases s) (simp add: tracks_def link_set_changed_def rpl_event_link_def)

lemma link_set_metric_tracks: "link_tracks s (link_set_metric m s)"
  by (cases s) (auto simp: link_set_metric_def intro!: tracks_from [OF _ _ link_set_changed_tracks])

lemma link_revive_tracks: "link_tracks s (link_revive s)"
  by (cases s) (auto simp: link_revive_def intro!: tracks_from [OF _ _ link_set_changed_tracks])

lemma link_deprecate_from_tracks: "link_tracks s (link_deprecate_from r s)"
  by (cases s) (auto simp: link_deprecate_from_def intro!: tracks_from [OF _ _ link_set_changed_tracks])

lemma link_count_tracks: "link_tracks (l, h) (link_count t n l, h)"
  by (simp add: tracks_def link_count_def)

end
