(* ===== verification/RplData.thy ===== *)
theory RplData
  imports Family Node Dodag RplInstance Link
begin

section \<open>The collected data\<close>

text \<open>
  Models \<open>src/src/data_info/rpl_data.c\<close> and the operations of \<open>node.c\<close>, \<open>dodag.c\<close>,
  \<open>rpl_instance.c\<close> and \<open>link.c\<close> that reach other objects through it. The globals of these files
  are the fields of \<open>world\<close>: the four families, the array of network versions, the pending
  events \<open>head\<close>, the list of allocated objects, \<open>last_simple_id\<close>, the configuration that
  \<open>rpl_tool_get_analyser_config\<close> returns, and the trace \<open>w_out\<close> of the callbacks made. \<open>w_time\<close> is
  what \<open>time(NULL)\<close> returns and \<open>w_fl\<close> the rounding of \<open>double\<close> arithmetic.

  An operation returns \<open>None\<close> when the code would dereference NULL or a freed object, index
  \<open>wsn_versions\<close> past its end or fail an assertion. Memory allocation does not fail. A loop over a
  container is a loop over its items, as \<open>hash_loop_items\<close> shows. The test
  \<open>wsn_versions[version].node_version < 0\<close> is on an unsigned field, so it is never true.
\<close>

subsection \<open>The state\<close>

record di_rpl_wsn_state =
  x_node_version :: u32
  x_dodag_version :: u32
  x_rpl_instance_version :: u32
  x_links_version :: u32
  x_timestamp :: real
  x_packet_id :: u32
  x_has_errors :: u32

record analyser_config =
  cfg_root_rank :: c_int
  cfg_context0 :: in6_addr
  cfg_address_autconf_only :: bool
  cfg_one_preferred_parent :: bool
  cfg_sender_rank_inverted :: bool

text \<open>The callbacks that are not NULL, and the calls made.\<close>

record rpl_event_callbacks =
  cb_onNodeEvent :: bool
  cb_onDodagEvent :: bool
  cb_onLinkEvent :: bool
  cb_onRplInstanceEvent :: bool
  cb_onPacketEvent :: bool
  cb_onClearEvent :: bool

datatype callback =
    onNodeEvent nat rpl_event_type
  | onDodagEvent nat rpl_event_type
  | onLinkEvent nat rpl_event_type
  | onRplInstanceEvent nat rpl_event_type
  | onPacketEvent c_int packet_info
  | onClearEvent

text \<open>An element of \<open>allocated_objects.nodes\<close>: the object and the \<open>destroy\<close> of its kind.\<close>

datatype di_rpl_object_el = el_node nat | el_dodag nat | el_rpl_instance nat | el_link nat

record world =
  w_config :: analyser_config
  w_time :: u64
  w_fl :: "real \<Rightarrow> real"
  w_last_simple_id :: u16
  w_nodes :: "(di_node_ref, di_node) family"
  w_dodags :: "(di_dodag_ref, di_dodag) family"
  w_rpl_instances :: "(di_rpl_instance_ref, di_rpl_instance) family"
  w_links :: "(di_link_ref, di_link) family"
  w_allocated :: "di_rpl_object_el list"
  w_wsn_versions :: "u32 \<Rightarrow> di_rpl_wsn_state"
  w_wsn_version_array_size :: u32
  w_wsn_last_version :: u32
  w_node_last_version_has_errors :: u32
  w_head :: "rpl_event list"
  w_callbacks :: rpl_event_callbacks
  w_out :: "callback list"

subsection \<open>Containers of a network version\<close>

text \<open>An access to the array \<open>wsn_versions\<close>.\<close>

definition wsn_at :: "u32 \<Rightarrow> world \<Rightarrow> di_rpl_wsn_state option" where
  "wsn_at version w =
     (if version < w_wsn_version_array_size w then Some (w_wsn_versions w version) else None)"

definition rpldata_get_nodes :: "u32 \<Rightarrow> world \<Rightarrow> (di_node_ref, nat) hash_container option option" where
  "rpldata_get_nodes version w = do { s \<leftarrow> wsn_at version w; fam_container (x_node_version s) (w_nodes w) }"

definition rpldata_get_dodags :: "u32 \<Rightarrow> world \<Rightarrow> (di_dodag_ref, nat) hash_container option option" where
  "rpldata_get_dodags version w = do { s \<leftarrow> wsn_at version w; fam_container (x_dodag_version s) (w_dodags w) }"

definition rpldata_get_rpl_instances ::
    "u32 \<Rightarrow> world \<Rightarrow> (di_rpl_instance_ref, nat) hash_container option option" where
  "rpldata_get_rpl_instances version w =
     do { s \<leftarrow> wsn_at version w; fam_container (x_rpl_instance_version s) (w_rpl_instances w) }"

definition rpldata_get_links :: "u32 \<Rightarrow> world \<Rightarrow> (di_link_ref, nat) hash_container option option" where
  "rpldata_get_links version w = do { s \<leftarrow> wsn_at version w; fam_container (x_links_version s) (w_links w) }"

definition rpldata_init :: "world \<Rightarrow> world" where
  "rpldata_init w =
     (let w = (if w_wsn_version_array_size w < 256 then w\<lparr>w_wsn_version_array_size := 256\<rparr> else w);
          s = (w_wsn_versions w 0)
            \<lparr>x_node_version := 0, x_dodag_version := 0, x_rpl_instance_version := 0, x_links_version := 0,
             x_timestamp := 0, x_has_errors := 0\<rparr>
      in w\<lparr>w_nodes := fam_init (fm_heap (w_nodes w)),
           w_dodags := fam_init (fm_heap (w_dodags w)),
           w_rpl_instances := fam_init (fm_heap (w_rpl_instances w)),
           w_links := fam_init (fm_heap (w_links w)),
           w_wsn_last_version := 0,
           w_wsn_versions := (w_wsn_versions w)(0 := s)\<rparr>)"

subsection \<open>Objects by reference\<close>

definition rpldata_get_node :: "di_node_ref \<Rightarrow> hash_value_mode \<Rightarrow> world \<Rightarrow> (nat \<times> bool \<times> world) option" where
  "rpldata_get_node node_ref value_mode w =
     do { s \<leftarrow> wsn_at 0 w;
          (p, was_created, fam, head, last_simple_id) \<leftarrow>
            fam_get_object node_init node_ref value_mode (x_node_version s) (w_nodes w)
              (w_head w, w_last_simple_id w);
          Some (p, was_created,
                w\<lparr>w_nodes := fam, w_head := head, w_last_simple_id := last_simple_id,
                  w_allocated := w_allocated w @ (if was_created then [el_node p] else [])\<rparr>) }"

definition rpldata_get_dodag :: "di_dodag_ref \<Rightarrow> hash_value_mode \<Rightarrow> world \<Rightarrow> (nat \<times> bool \<times> world) option" where
  "rpldata_get_dodag dodag_ref value_mode w =
     do { s \<leftarrow> wsn_at 0 w;
          (p, was_created, fam, head) \<leftarrow>
            fam_get_object dodag_init dodag_ref value_mode (x_dodag_version s) (w_dodags w) (w_head w);
          Some (p, was_created,
                w\<lparr>w_dodags := fam, w_head := head,
                  w_allocated := w_allocated w @ (if was_created then [el_dodag p] else [])\<rparr>) }"

definition rpldata_get_rpl_instance ::
    "di_rpl_instance_ref \<Rightarrow> hash_value_mode \<Rightarrow> world \<Rightarrow> (nat \<times> bool \<times> world) option" where
  "rpldata_get_rpl_instance rpl_instance_ref value_mode w =
     do { s \<leftarrow> wsn_at 0 w;
          (p, was_created, fam, head) \<leftarrow>
            fam_get_object rpl_instance_init rpl_instance_ref value_mode (x_rpl_instance_version s)
              (w_rpl_instances w) (w_head w);
          Some (p, was_created,
                w\<lparr>w_rpl_instances := fam, w_head := head,
                  w_allocated := w_allocated w @ (if was_created then [el_rpl_instance p] else [])\<rparr>) }"

definition rpldata_get_link :: "di_link_ref \<Rightarrow> hash_value_mode \<Rightarrow> world \<Rightarrow> (nat \<times> bool \<times> world) option" where
  "rpldata_get_link link_ref value_mode w =
     do { s \<leftarrow> wsn_at 0 w;
          (p, was_created, fam, head) \<leftarrow>
            fam_get_object link_init link_ref value_mode (x_links_version s) (w_links w) (w_head w);
          Some (p, was_created,
                w\<lparr>w_links := fam, w_head := head,
                  w_allocated := w_allocated w @ (if was_created then [el_link p] else [])\<rparr>) }"

text \<open>The link deleted, or 0 when there is none. The object itself lives on.\<close>

definition rpldata_del_link :: "di_link_ref \<Rightarrow> world \<Rightarrow> (nat \<times> world) option" where
  "rpldata_del_link link_ref w =
     do { s \<leftarrow> wsn_at 0 w;
          ptr \<leftarrow> rpldata_get_links 0 w;
          container \<leftarrow> ptr;
          let (found, it) = hash_find container link_ref;
          if found then
            do { v \<leftarrow> hash_it_value container it;
                 deleted_link \<leftarrow> v;
                 (_, container') \<leftarrow> hash_it_delete_value container it;
                 Some (deleted_link,
                       w\<lparr>w_links := fam_set_container (x_links_version s) container' (w_links w)\<rparr>) }
          else Some (0, w) }"

subsection \<open>A setter on an object\<close>

text \<open>Loading an object, running a setter on it with the pending events, storing it.\<close>

definition node_op :: "nat \<Rightarrow> (di_node tracked \<Rightarrow> di_node tracked) \<Rightarrow> world \<Rightarrow> world option" where
  "node_op p f w =
     do { node \<leftarrow> fam_load p (w_nodes w);
          let (node', head) = f (node, w_head w);
          Some (w\<lparr>w_nodes := fam_store p node' (w_nodes w), w_head := head\<rparr>) }"

definition dodag_op :: "nat \<Rightarrow> (di_dodag tracked \<Rightarrow> di_dodag tracked) \<Rightarrow> world \<Rightarrow> world option" where
  "dodag_op p f w =
     do { dodag \<leftarrow> fam_load p (w_dodags w);
          let (dodag', head) = f (dodag, w_head w);
          Some (w\<lparr>w_dodags := fam_store p dodag' (w_dodags w), w_head := head\<rparr>) }"

definition rpl_instance_op ::
    "nat \<Rightarrow> (di_rpl_instance tracked \<Rightarrow> di_rpl_instance tracked) \<Rightarrow> world \<Rightarrow> world option" where
  "rpl_instance_op p f w =
     do { rpl_instance \<leftarrow> fam_load p (w_rpl_instances w);
          let (rpl_instance', head) = f (rpl_instance, w_head w);
          Some (w\<lparr>w_rpl_instances := fam_store p rpl_instance' (w_rpl_instances w), w_head := head\<rparr>) }"

definition link_op :: "nat \<Rightarrow> (di_link tracked \<Rightarrow> di_link tracked) \<Rightarrow> world \<Rightarrow> world option" where
  "link_op p f w =
     do { link \<leftarrow> fam_load p (w_links w);
          let (link', head) = f (link, w_head w);
          Some (w\<lparr>w_links := fam_store p link' (w_links w), w_head := head\<rparr>) }"

subsection \<open>Fields copied to the last version\<close>

text \<open>
  \<open>memcpy\<close> of the field at an offset is the function \<open>copy\<close>, which takes the field from its first
  argument to its second.
\<close>

definition node_update_old_field :: "(di_node \<Rightarrow> di_node \<Rightarrow> di_node) \<Rightarrow> nat \<Rightarrow> world \<Rightarrow> world option" where
  "node_update_old_field copy p w =
     do { node \<leftarrow> fam_load p (w_nodes w);
          let version = w_wsn_last_version w;
          if version = 0 then Some w
          else
            do { ptr \<leftarrow> rpldata_get_nodes version w;
                 case ptr of
                   None \<Rightarrow> Some w
                 | Some container \<Rightarrow>
                     do { (versionned_node_ptr, _, _) \<leftarrow> hash_value container (n_key node) HVM_FailIfNonExistant;
                          case versionned_node_ptr of
                            None \<Rightarrow> Some w
                          | Some q \<Rightarrow>
                              if q = p then Some w
                              else do { old \<leftarrow> fam_load q (w_nodes w);
                                        Some (w\<lparr>w_nodes := fam_store q (copy node old) (w_nodes w)\<rparr>) } } } }"

definition link_update_old_field :: "(di_link \<Rightarrow> di_link \<Rightarrow> di_link) \<Rightarrow> nat \<Rightarrow> world \<Rightarrow> world option" where
  "link_update_old_field copy p w =
     do { link \<leftarrow> fam_load p (w_links w);
          let version = w_wsn_last_version w;
          if version = 0 then Some w
          else
            do { ptr \<leftarrow> rpldata_get_links version w;
                 case ptr of
                   None \<Rightarrow> Some w
                 | Some container \<Rightarrow>
                     do { (versionned_link_ptr, _, _) \<leftarrow> hash_value container (l_key link) HVM_FailIfNonExistant;
                          case versionned_link_ptr of
                            None \<Rightarrow> Some w
                          | Some q \<Rightarrow>
                              if q = p then Some w
                              else do { old \<leftarrow> fam_load q (w_links w);
                                        Some (w\<lparr>w_links := fam_store q (copy link old) (w_links w)\<rparr>) } } } }"

subsection \<open>\<open>node_set_ip\<close> and the other operations of node.c\<close>

text \<open>The two branches that only touch the node; \<open>autoconf\<close> is \<open>address_autconf_only\<close>.\<close>

definition node_set_local_ip :: "bool \<Rightarrow> in6_addr \<Rightarrow> di_node tracked \<Rightarrow> di_node tracked" where
  "node_set_local_ip autoconf address = (\<lambda>(node, head).
     let wpan_addr = addr_get_mac64_from_ip address;
         node = node\<lparr>n_sixlowpan_config := (n_sixlowpan_config node)\<lparr>sc_has_seen_local_address := True\<rparr>\<rparr>
     in if addr_compare_ip (sc_local_address (n_sixlowpan_config node)) address \<noteq> 0 then
          let custom = (addr_compare_wpan wpan_addr (nr_wpan_address (n_key node)) \<noteq> 0);
              node = node\<lparr>n_sixlowpan_config := (n_sixlowpan_config node)
                       \<lparr>sc_local_address := address, sc_is_custom_local_address := custom\<rparr>\<rparr>;
              errors = n_sixlowpan_errors node;
              node =
                (if custom \<and> autoconf
                 then node\<lparr>n_sixlowpan_errors := errors\<lparr>se_invalid_ip := se_invalid_ip errors + 1\<rparr>\<rparr> else node)
          in node_set_changed (node, head)
        else (node, head))"

definition node_set_global_ip :: "bool \<Rightarrow> in6_addr \<Rightarrow> di_node tracked \<Rightarrow> di_node tracked" where
  "node_set_global_ip autoconf address = (\<lambda>(node, head).
     let wpan_addr = addr_get_mac64_from_ip address;
         node = node\<lparr>n_sixlowpan_config := (n_sixlowpan_config node)\<lparr>sc_has_seen_global_address := True\<rparr>\<rparr>
     in if addr_compare_ip (sc_global_address (n_sixlowpan_config node)) address \<noteq> 0 then
          let custom = (addr_compare_wpan wpan_addr (nr_wpan_address (n_key node)) \<noteq> 0);
              node = node\<lparr>n_sixlowpan_config := (n_sixlowpan_config node)
                       \<lparr>sc_global_address := address, sc_is_custom_global_address := custom\<rparr>\<rparr>;
              errors = n_sixlowpan_errors node;
              node =
                (if custom \<and> autoconf
                 then node\<lparr>n_sixlowpan_errors := errors\<lparr>se_invalid_ip := se_invalid_ip errors + 1\<rparr>\<rparr> else node)
          in node_set_changed (node, head)
        else (node, head))"

text \<open>The single fields that are copied to the last version.\<close>

definition copy_invalid_ip :: "di_node \<Rightarrow> di_node \<Rightarrow> di_node" where
  "copy_invalid_ip node old = old\<lparr>n_sixlowpan_errors :=
     (n_sixlowpan_errors old)\<lparr>se_invalid_ip := se_invalid_ip (n_sixlowpan_errors node)\<rparr>\<rparr>"

definition copy_invalid_ip_delta :: "di_node \<Rightarrow> di_node \<Rightarrow> di_node" where
  "copy_invalid_ip_delta node old = old\<lparr>n_sixlowpan_errors_delta :=
     (n_sixlowpan_errors_delta old)\<lparr>sed_invalid_ip := sed_invalid_ip (n_sixlowpan_errors_delta node)\<rparr>\<rparr>"

definition copy_invalid_prefix :: "di_node \<Rightarrow> di_node \<Rightarrow> di_node" where
  "copy_invalid_prefix node old = old\<lparr>n_sixlowpan_errors :=
     (n_sixlowpan_errors old)\<lparr>se_invalid_prefix := se_invalid_prefix (n_sixlowpan_errors node)\<rparr>\<rparr>"

definition copy_invalid_prefix_delta :: "di_node \<Rightarrow> di_node \<Rightarrow> di_node" where
  "copy_invalid_prefix_delta node old = old\<lparr>n_sixlowpan_errors_delta :=
     (n_sixlowpan_errors_delta old)\<lparr>sed_invalid_prefix := sed_invalid_prefix (n_sixlowpan_errors_delta node)\<rparr>\<rparr>"

definition copy_has_errors :: "di_node \<Rightarrow> di_node \<Rightarrow> di_node" where
  "copy_has_errors node old = old\<lparr>n_has_errors := n_has_errors node\<rparr>"

definition copy_packet_count :: "di_node \<Rightarrow> di_node \<Rightarrow> di_node" where
  "copy_packet_count node old = old\<lparr>n_sixlowpan_statistics :=
     (n_sixlowpan_statistics old)\<lparr>ss_packet_count := ss_packet_count (n_sixlowpan_statistics node)\<rparr>\<rparr>"

definition copy_packet_count_delta :: "di_node \<Rightarrow> di_node \<Rightarrow> di_node" where
  "copy_packet_count_delta node old = old\<lparr>n_sixlowpan_statistics_delta :=
     (n_sixlowpan_statistics_delta old)\<lparr>ssd_packet_count := ssd_packet_count (n_sixlowpan_statistics_delta node)\<rparr>\<rparr>"

text \<open>The increments of an error and of its difference, then of \<open>has_errors\<close>, without an event.\<close>

definition node_inc_invalid_ip :: "di_node tracked \<Rightarrow> di_node tracked" where
  "node_inc_invalid_ip = (\<lambda>(node, head).
     (node\<lparr>n_sixlowpan_errors :=
             (n_sixlowpan_errors node)\<lparr>se_invalid_ip := se_invalid_ip (n_sixlowpan_errors node) + 1\<rparr>,
           n_sixlowpan_errors_delta :=
             (n_sixlowpan_errors_delta node)\<lparr>sed_invalid_ip := sed_invalid_ip (n_sixlowpan_errors_delta node) + 1\<rparr>\<rparr>,
      head))"

definition node_inc_invalid_prefix :: "di_node tracked \<Rightarrow> di_node tracked" where
  "node_inc_invalid_prefix = (\<lambda>(node, head).
     (node\<lparr>n_sixlowpan_errors :=
             (n_sixlowpan_errors node)\<lparr>se_invalid_prefix := se_invalid_prefix (n_sixlowpan_errors node) + 1\<rparr>,
           n_sixlowpan_errors_delta :=
             (n_sixlowpan_errors_delta node)
               \<lparr>sed_invalid_prefix := sed_invalid_prefix (n_sixlowpan_errors_delta node) + 1\<rparr>\<rparr>,
      head))"

definition node_mark_errors :: "di_node tracked \<Rightarrow> di_node tracked" where
  "node_mark_errors = (\<lambda>(node, head). (node\<lparr>n_has_errors := 1\<rparr>, head))"

definition node_set_ip :: "nat \<Rightarrow> in6_addr \<Rightarrow> world \<Rightarrow> world option" where
  "node_set_ip p address w =
     (let autoconf = cfg_address_autconf_only (w_config w) in
      if addr_is_ip_local address then node_op p (node_set_local_ip autoconf address) w
      else if addr_is_ip_global address then
        do { w \<leftarrow> node_op p (node_set_global_ip autoconf address) w;
             node \<leftarrow> fam_load p (w_nodes w);
             if n_has_rpl_dodag_prefix_info node
                \<and> addr_prefix_compare (px_prefix (n_rpl_dodag_prefix_info node))
                    (sc_global_address (n_sixlowpan_config node)) \<noteq> 0
             then
               do { w \<leftarrow> node_op p node_inc_invalid_prefix w;
                    w \<leftarrow> node_update_old_field copy_invalid_prefix p w;
                    w \<leftarrow> node_update_old_field copy_invalid_prefix_delta p w;
                    w \<leftarrow> node_op p node_mark_errors w;
                    node_update_old_field copy_has_errors p w }
             else Some w }
      else
        do { w \<leftarrow> node_op p node_inc_invalid_ip w;
             w \<leftarrow> node_update_old_field copy_invalid_ip p w;
             w \<leftarrow> node_update_old_field copy_invalid_ip_delta p w;
             w \<leftarrow> node_op p node_mark_errors w;
             node_update_old_field copy_has_errors p w })"

definition node_count_packets :: "c_int \<Rightarrow> di_node tracked \<Rightarrow> di_node tracked" where
  "node_count_packets count = (\<lambda>(node, head).
     (node\<lparr>n_sixlowpan_statistics :=
             (n_sixlowpan_statistics node)\<lparr>ss_packet_count := ss_packet_count (n_sixlowpan_statistics node) + count\<rparr>,
           n_sixlowpan_statistics_delta :=
             (n_sixlowpan_statistics_delta node)
               \<lparr>ssd_packet_count := ssd_packet_count (n_sixlowpan_statistics_delta node) + count\<rparr>\<rparr>,
      head))"

definition node_add_packet_count :: "nat \<Rightarrow> c_int \<Rightarrow> world \<Rightarrow> world option" where
  "node_add_packet_count p count w =
     do { w \<leftarrow> node_op p (node_count_packets count) w;
          w \<leftarrow> node_update_old_field copy_packet_count p w;
          node_update_old_field copy_packet_count_delta p w }"

definition nodes_clear_all_errors :: "world \<Rightarrow> world option" where
  "nodes_clear_all_errors w =
     do { ptr \<leftarrow> rpldata_get_nodes 0 w;
          working_container \<leftarrow> ptr;
          each (\<lambda>(_, p). node_op p node_clear_errors) (hash_items working_container) w }"

subsection \<open>Operations of dodag.c and rpl\_instance.c\<close>

definition dodag_set_nodes_changed :: "nat \<Rightarrow> world \<Rightarrow> world option" where
  "dodag_set_nodes_changed p w =
     do { dodag \<leftarrow> fam_load p (w_dodags w);
          each (\<lambda>(_, ref) w.
                  do { (np, _, w) \<leftarrow> rpldata_get_node ref HVM_FailIfNonExistant w;
                       c_assert (np \<noteq> 0);
                       node \<leftarrow> fam_load np (w_nodes w);
                       dodag \<leftarrow> fam_load p (w_dodags w);
                       dodag_ref \<leftarrow> node_get_dodag node;
                       c_assert (dodag_ref = d_key dodag);
                       node_op np (node_update_from_dodag (Some dodag)) w })
            (hash_items (d_nodes dodag)) w }"

definition dodag_del_node :: "nat \<Rightarrow> nat \<Rightarrow> world \<Rightarrow> world option" where
  "dodag_del_node p np w =
     do { dodag \<leftarrow> fam_load p (w_dodags w);
          node \<leftarrow> fam_load np (w_nodes w);
          (found, dodag') \<leftarrow> dodag_hash_del_node (n_key node) dodag;
          let w = w\<lparr>w_dodags := fam_store p dodag' (w_dodags w)\<rparr>;
          if found then
            do { w \<leftarrow> node_op np (node_set_dodag null_ref) w;
                 dodag_op p dodag_set_changed w }
          else Some w }"

text \<open>\<open>previous_dodag_ref\<close> points into the node, so the assertion at the end reads the node again.\<close>

definition dodag_add_node :: "nat \<Rightarrow> nat \<Rightarrow> world \<Rightarrow> world option" where
  "dodag_add_node p np w =
     do { dodag \<leftarrow> fam_load p (w_dodags w);
          node \<leftarrow> fam_load np (w_nodes w);
          let previous_dodag_ref = node_get_dodag node;
          w \<leftarrow> (case previous_dodag_ref of
                  None \<Rightarrow> Some w
                | Some ref \<Rightarrow>
                    if 0 \<le> sint (dr_version ref)
                       \<and> (dr_version ref \<noteq> dr_version (d_key dodag) \<or> dr_dodagid ref \<noteq> dr_dodagid (d_key dodag))
                    then
                      do { (previous_dodag, _, w) \<leftarrow> rpldata_get_dodag ref HVM_FailIfNonExistant w;
                           if previous_dodag = 0 then Some w else dodag_del_node previous_dodag np w }
                    else Some w);
          dodag \<leftarrow> fam_load p (w_dodags w);
          node \<leftarrow> fam_load np (w_nodes w);
          let (was_already_in_dodag, dodag') = dodag_hash_add_node (n_key node) dodag;
          let w = w\<lparr>w_dodags := fam_store p dodag' (w_dodags w)\<rparr>;
          if \<not> was_already_in_dodag then
            do { w \<leftarrow> node_op np (node_set_dodag (d_key dodag')) w;
                 dodag_op p dodag_set_changed w }
          else
            do { c_assert (previous_dodag_ref \<noteq> None);
                 c_assert (dr_version (n_dodag node) = dr_version (d_key dodag')
                   \<and> dr_dodagid (n_dodag node) = dr_dodagid (d_key dodag'));
                 Some w } }"

definition rpl_instance_add_dodag :: "nat \<Rightarrow> nat \<Rightarrow> world \<Rightarrow> world option" where
  "rpl_instance_add_dodag p dp w =
     do { rpl_instance \<leftarrow> fam_load p (w_rpl_instances w);
          dodag \<leftarrow> fam_load dp (w_dodags w);
          let (was_already_existing, rpl_instance') = rpl_instance_hash_add_dodag (d_key dodag) rpl_instance;
          let w = w\<lparr>w_rpl_instances := fam_store p rpl_instance' (w_rpl_instances w)\<rparr>;
          if \<not> was_already_existing then
            do { w \<leftarrow> dodag_op dp (dodag_set_rpl_instance (i_key rpl_instance')) w;
                 rpl_instance_op p rpl_instance_set_changed w }
          else Some w }"

definition rpl_instance_del_dodag :: "nat \<Rightarrow> nat \<Rightarrow> world \<Rightarrow> world option" where
  "rpl_instance_del_dodag p dp w =
     do { rpl_instance \<leftarrow> fam_load p (w_rpl_instances w);
          dodag \<leftarrow> fam_load dp (w_dodags w);
          (found, rpl_instance') \<leftarrow> rpl_instance_hash_del_dodag (d_key dodag) rpl_instance;
          let w = w\<lparr>w_rpl_instances := fam_store p rpl_instance' (w_rpl_instances w)\<rparr>;
          if found then
            do { w \<leftarrow> dodag_op dp (dodag_set_rpl_instance null_rpl_instance) w;
                 rpl_instance_op p rpl_instance_set_changed w }
          else Some w }"

subsection \<open>Operations of link.c\<close>

definition copy_link_packet_count :: "di_link \<Rightarrow> di_link \<Rightarrow> di_link" where
  "copy_link_packet_count link old = old\<lparr>l_packet_count := l_packet_count link\<rparr>"

definition link_update :: "nat \<Rightarrow> u64 \<Rightarrow> u32 \<Rightarrow> world \<Rightarrow> world option" where
  "link_update p time added_packet_count w =
     do { w \<leftarrow> link_op p (\<lambda>(link, head). (link_count time added_packet_count link, head)) w;
          w \<leftarrow> link_update_old_field copy_link_packet_count p w;
          link_op p link_revive w }"

definition links_deprecate_all_from :: "di_link_ref \<Rightarrow> world \<Rightarrow> world option" where
  "links_deprecate_all_from new_link_ref w =
     do { ptr \<leftarrow> rpldata_get_links 0 w;
          working_container \<leftarrow> ptr;
          each (\<lambda>(_, p). link_op p (link_deprecate_from new_link_ref)) (hash_items working_container) w }"

text \<open>
  \<open>links_clear_all_deprecated\<close> deletes the first deprecated link, then starts again from the
  first element, until there is none.
\<close>

fun first_deprecated :: "(di_link_ref \<times> nat) list \<Rightarrow> world \<Rightarrow> (di_link_ref \<times> nat) option option" where
  "first_deprecated [] w = Some None"
| "first_deprecated ((ref, p) # items) w =
     do { link \<leftarrow> fam_load p (w_links w);
          if l_deprecated link then Some (Some (ref, p)) else first_deprecated items w }"

partial_function (option) links_clear_all_deprecated :: "world \<Rightarrow> world option" where
  "links_clear_all_deprecated w =
     do { ptr \<leftarrow> rpldata_get_links 0 w;
          working_container \<leftarrow> ptr;
          deprecated \<leftarrow> first_deprecated (hash_items working_container) w;
          case deprecated of
            None \<Rightarrow> Some w
          | Some (ref, p) \<Rightarrow>
              do { (_, w) \<leftarrow> rpldata_del_link ref w;
                   link \<leftarrow> fam_load p (w_links w);
                   links_clear_all_deprecated (w\<lparr>w_head := rpl_event_link (l_key link) RET_Deleted (w_head w)\<rparr>) } }"

subsection \<open>Making versions\<close>

definition rpldata_add_node_version :: "world \<Rightarrow> (u32 \<times> world) option" where
  "rpldata_add_node_version w =
     do { ptr \<leftarrow> rpldata_get_nodes 0 w;
          working_container \<leftarrow> ptr;
          (new_version, errors, fam) \<leftarrow>
            add_version True n_key node_has_changed node_reset_changed (\<lambda>node. Some (node_dup node))
              (node_fill_delta (w_fl w)) n_has_errors working_container (w_nodes w);
          Some (new_version, w\<lparr>w_nodes := fam, w_node_last_version_has_errors := errors\<rparr>) }"

text \<open>The other three copies leave the original alone and fill no differences.\<close>

definition rpldata_add_dodag_version :: "world \<Rightarrow> (u32 \<times> world) option" where
  "rpldata_add_dodag_version w =
     do { ptr \<leftarrow> rpldata_get_dodags 0 w;
          working_container \<leftarrow> ptr;
          (new_version, _, fam) \<leftarrow>
            add_version False d_key dodag_has_changed dodag_reset_changed
              (\<lambda>dodag. map_option (\<lambda>copy. (copy, dodag)) (dodag_dup dodag))
              (\<lambda>copy _. copy) (\<lambda>_. 0) working_container (w_dodags w);
          Some (new_version, w\<lparr>w_dodags := fam\<rparr>) }"

definition rpldata_add_rpl_instance_version :: "world \<Rightarrow> (u32 \<times> world) option" where
  "rpldata_add_rpl_instance_version w =
     do { ptr \<leftarrow> rpldata_get_rpl_instances 0 w;
          working_container \<leftarrow> ptr;
          (new_version, _, fam) \<leftarrow>
            add_version False i_key rpl_instance_has_changed rpl_instance_reset_changed
              (\<lambda>rpl_instance. map_option (\<lambda>copy. (copy, rpl_instance)) (rpl_instance_dup rpl_instance))
              (\<lambda>copy _. copy) (\<lambda>_. 0) working_container (w_rpl_instances w);
          Some (new_version, w\<lparr>w_rpl_instances := fam\<rparr>) }"

definition rpldata_add_link_version :: "world \<Rightarrow> (u32 \<times> world) option" where
  "rpldata_add_link_version w =
     do { ptr \<leftarrow> rpldata_get_links 0 w;
          working_container \<leftarrow> ptr;
          (new_version, _, fam) \<leftarrow>
            add_version False l_key link_has_changed link_reset_changed (\<lambda>link. Some (link_dup link, link))
              (\<lambda>copy _. copy) (\<lambda>_. 0) working_container (w_links w);
          Some (new_version, w\<lparr>w_links := fam\<rparr>) }"

end
