(* ===== verification/EventCommit.thy ===== *)
theory EventCommit
  imports RplData
begin

section \<open>Committing events and clearing\<close>

text \<open>
  Models \<open>rpl_event_commit_changed_objects\<close>, \<open>rpl_event_process_events\<close> and \<open>rpl_event_clear\<close> of
  \<open>src/src/data_collector/rpl_event_callbacks.c\<close>, and \<open>rpldata_wsn_create_version\<close>,
  \<open>rpldata_clear\<close> and the version getters of \<open>rpl_data.c\<close>. A callback that is not NULL is one more
  element of the trace \<open>w_out\<close>; callbacks do not call back into the analyzer.
\<close>

text \<open>
  One event: the object is looked up in the version of the event, the one before for a deletion.
  A container that is NULL, or an object that is not there, is a NULL dereference.
\<close>

definition event_object :: "('r, nat) hash_container option option \<Rightarrow> 'r \<Rightarrow> nat option" where
  "event_object container ref =
     do { ptr \<leftarrow> container;
          c \<leftarrow> ptr;
          (obj, _, _) \<leftarrow> hash_value c ref HVM_FailIfNonExistant;
          obj }"

definition emit :: "bool \<Rightarrow> callback \<Rightarrow> world \<Rightarrow> world" where
  "emit enabled cb w = (if enabled then w\<lparr>w_out := w_out w @ [cb]\<rparr> else w)"

definition event_version :: "u32 \<Rightarrow> rpl_event_type \<Rightarrow> u32" where
  "event_version wsn_version type = (if type = RET_Deleted then wsn_version - 1 else wsn_version)"

fun process_event :: "u32 \<Rightarrow> rpl_event \<Rightarrow> world \<Rightarrow> world option" where
  "process_event wsn_version (ROT_Dodag type ref) w =
     do { dodag \<leftarrow> event_object (rpldata_get_dodags (event_version wsn_version type) w) ref;
          Some (emit (cb_onDodagEvent (w_callbacks w)) (onDodagEvent dodag type) w) }"
| "process_event wsn_version (ROT_Link type ref) w =
     do { link \<leftarrow> event_object (rpldata_get_links (event_version wsn_version type) w) ref;
          Some (emit (cb_onLinkEvent (w_callbacks w)) (onLinkEvent link type) w) }"
| "process_event wsn_version (ROT_Node type ref) w =
     do { node \<leftarrow> event_object (rpldata_get_nodes (event_version wsn_version type) w) ref;
          Some (emit (cb_onNodeEvent (w_callbacks w)) (onNodeEvent node type) w) }"
| "process_event wsn_version (ROT_RplInstance type ref) w =
     do { rpl_instance \<leftarrow> event_object (rpldata_get_rpl_instances (event_version wsn_version type) w) ref;
          Some (emit (cb_onRplInstanceEvent (w_callbacks w)) (onRplInstanceEvent rpl_instance type) w) }"
| "process_event wsn_version (ROT_Packet packet_id pkt_info) w =
     Some (emit (cb_onPacketEvent (w_callbacks w)) (onPacketEvent packet_id pkt_info) w)"

text \<open>The loop takes each event off the list once it has been processed.\<close>

definition rpl_event_process_events :: "u32 \<Rightarrow> world \<Rightarrow> world option" where
  "rpl_event_process_events wsn_version w =
     each (\<lambda>event w. do { w \<leftarrow> process_event wsn_version event w; Some (w\<lparr>w_head := drop 1 (w_head w)\<rparr>) })
       (w_head w) w"

text \<open>A version number that is 0 is recorded as \<open>-1\<close>: there is no such version.\<close>

definition version_or_none :: "u32 \<Rightarrow> u32" where
  "version_or_none v = (if v \<noteq> 0 then v else -1)"

definition rpldata_wsn_create_version :: "c_int \<Rightarrow> real \<Rightarrow> world \<Rightarrow> world option" where
  "rpldata_wsn_create_version packet_id timestamp w =
     (let last = w_wsn_last_version w + 1;
          w = w\<lparr>w_wsn_last_version := last\<rparr>;
          w = (if w_wsn_version_array_size w \<le> last
               then w\<lparr>w_wsn_version_array_size := w_wsn_version_array_size w * 2\<rparr> else w) in
      do { wsn_at last w;
           let s = \<lparr>x_node_version = version_or_none (fm_last (w_nodes w)),
                    x_dodag_version = version_or_none (fm_last (w_dodags w)),
                    x_rpl_instance_version = version_or_none (fm_last (w_rpl_instances w)),
                    x_links_version = version_or_none (fm_last (w_links w)),
                    x_timestamp = timestamp,
                    x_packet_id = packet_id,
                    x_has_errors = w_node_last_version_has_errors w\<rparr>;
           let w = w\<lparr>w_wsn_versions := (w_wsn_versions w)(last := s), w_node_last_version_has_errors := 0\<rparr>;
           rpl_event_process_events last w })"

text \<open>
  The loop over the pending events makes one version of each kind of object that has an event;
  \<open>made\<close> are the four flags \<open>node\<close>, \<open>dodag\<close>, \<open>link\<close> and \<open>rpl_instance\<close>.
\<close>

record made_versions =
  mv_node :: bool
  mv_dodag :: bool
  mv_link :: bool
  mv_rpl_instance :: bool

fun commit_event :: "rpl_event \<Rightarrow> made_versions \<times> world \<Rightarrow> (made_versions \<times> world) option" where
  "commit_event (ROT_Dodag _ _) (made, w) =
     (if mv_dodag made then Some (made, w)
      else do { (_, w) \<leftarrow> rpldata_add_dodag_version w; Some (made\<lparr>mv_dodag := True\<rparr>, w) })"
| "commit_event (ROT_Link _ _) (made, w) =
     (if mv_link made then Some (made, w)
      else do { (_, w) \<leftarrow> rpldata_add_link_version w; Some (made\<lparr>mv_link := True\<rparr>, w) })"
| "commit_event (ROT_Node _ _) (made, w) =
     (if mv_node made then Some (made, w)
      else do { (_, w) \<leftarrow> rpldata_add_node_version w; Some (made\<lparr>mv_node := True\<rparr>, w) })"
| "commit_event (ROT_RplInstance _ _) (made, w) =
     (if mv_rpl_instance made then Some (made, w)
      else do { (_, w) \<leftarrow> rpldata_add_rpl_instance_version w; Some (made\<lparr>mv_rpl_instance := True\<rparr>, w) })"
| "commit_event (ROT_Packet _ _) (made, w) = Some (made, w)"

definition rpl_event_commit_changed_objects :: "c_int \<Rightarrow> real \<Rightarrow> world \<Rightarrow> (bool \<times> world) option" where
  "rpl_event_commit_changed_objects packet_id timestamp w =
     do { (made, w) \<leftarrow> each commit_event (w_head w)
            (\<lparr>mv_node = False, mv_dodag = False, mv_link = False, mv_rpl_instance = False\<rparr>, w);
          let changed = (mv_node made \<or> mv_link made \<or> mv_dodag made \<or> mv_rpl_instance made);
          w \<leftarrow> (if changed then rpldata_wsn_create_version packet_id timestamp w else Some w);
          w \<leftarrow> rpl_event_process_events (w_wsn_last_version w) w;
          Some (changed, w) }"

definition rpl_event_clear :: "world \<Rightarrow> world" where
  "rpl_event_clear w = emit (cb_onClearEvent (w_callbacks w)) onClearEvent w"

definition rpl_event_set_callbacks :: "rpl_event_callbacks \<Rightarrow> world \<Rightarrow> world" where
  "rpl_event_set_callbacks callbacks w = w\<lparr>w_callbacks := callbacks\<rparr>"

subsection \<open>Clearing\<close>

text \<open>
  \<open>rpldata_clear\<close> destroys and frees the objects of the list of allocated objects, frees the
  containers and starts again from version 0. The copies made for the versions are not in that
  list. Freeing an object twice, or one that is not there, fails.
\<close>

fun free_object :: "di_rpl_object_el \<Rightarrow> world \<Rightarrow> world option" where
  "free_object (el_node p) w =
     do { _ \<leftarrow> fam_load p (w_nodes w);
          Some (w\<lparr>w_nodes := (w_nodes w)\<lparr>fm_heap := heap_free p (fm_heap (w_nodes w))\<rparr>\<rparr>) }"
| "free_object (el_dodag p) w =
     do { _ \<leftarrow> fam_load p (w_dodags w);
          Some (w\<lparr>w_dodags := (w_dodags w)\<lparr>fm_heap := heap_free p (fm_heap (w_dodags w))\<rparr>\<rparr>) }"
| "free_object (el_rpl_instance p) w =
     do { _ \<leftarrow> fam_load p (w_rpl_instances w);
          Some (w\<lparr>w_rpl_instances := (w_rpl_instances w)\<lparr>fm_heap := heap_free p (fm_heap (w_rpl_instances w))\<rparr>\<rparr>) }"
| "free_object (el_link p) w =
     do { _ \<leftarrow> fam_load p (w_links w);
          Some (w\<lparr>w_links := (w_links w)\<lparr>fm_heap := heap_free p (fm_heap (w_links w))\<rparr>\<rparr>) }"

definition rpldata_clear :: "world \<Rightarrow> world option" where
  "rpldata_clear w =
     do { w \<leftarrow> each free_object (w_allocated w) w;
          let w = w\<lparr>w_allocated := []\<rparr>;
          Some (rpl_event_clear (rpldata_init w)) }"

subsection \<open>Getters\<close>

definition rpldata_wsn_version_get_timestamp :: "u32 \<Rightarrow> world \<Rightarrow> real option" where
  "rpldata_wsn_version_get_timestamp version w =
     map_option x_timestamp (wsn_at (if version = 0 then w_wsn_last_version w else version) w)"

definition rpldata_wsn_version_get_packet_count :: "u32 \<Rightarrow> world \<Rightarrow> u32 option" where
  "rpldata_wsn_version_get_packet_count version w =
     map_option x_packet_id (wsn_at (if version = 0 then w_wsn_last_version w else version) w)"

definition rpldata_wsn_version_get_has_errors :: "u32 \<Rightarrow> world \<Rightarrow> u32 option" where
  "rpldata_wsn_version_get_has_errors version w =
     map_option x_has_errors (wsn_at (if version = 0 then w_wsn_last_version w else version) w)"

end
