(* ===== verification/Collector.thy ===== *)
theory Collector
  imports EventCommit
begin

section \<open>The RPL collector\<close>

text \<open>
  Models \<open>src/src/data_collector/rpl_collector.c\<close>: what a DIO, a DAO, a DIS and a data packet do to
  the collected data. An option that the packet does not carry is \<open>None\<close>, the NULL of the code.
\<close>

definition is_root_rank :: "rpl_dio \<Rightarrow> world \<Rightarrow> bool" where
  "is_root_rank dio w \<longleftrightarrow> dio_rank dio = 0 \<or> (ucast (dio_rank dio) :: c_int) = cfg_root_rank (w_config w)"

definition rpl_collector_parse_dio ::
    "packet_info \<Rightarrow> rpl_dio \<Rightarrow> rpl_dodag_config option \<Rightarrow> rpl_metric option \<Rightarrow> rpl_prefix option
      \<Rightarrow> rpl_route option \<Rightarrow> world \<Rightarrow> world option" where
  "rpl_collector_parse_dio pkt_info dio dodag_config metric prefix route_info w =
     do { (rpl_instance, _, w) \<leftarrow>
            rpldata_get_rpl_instance (rpl_instance_ref_init (dio_rpl_instance_id dio)) HVM_CreateIfNonExistant w;
          (dodag, _, w) \<leftarrow>
            rpldata_get_dodag (dodag_ref_init (dio_dodagid dio) (dio_version_number dio)) HVM_CreateIfNonExistant w;
          (node, _, w) \<leftarrow>
            rpldata_get_node (node_ref_init (pkt_src_wpan_address pkt_info)) HVM_CreateIfNonExistant w;
          w \<leftarrow> dodag_add_node dodag node w;
          w \<leftarrow> (if is_root_rank dio w then
                  do { w \<leftarrow> rpl_instance_add_dodag rpl_instance dodag w;
                       w \<leftarrow> rpl_instance_op rpl_instance (rpl_instance_set_mop (dio_mode_of_operation dio)) w;
                       w \<leftarrow> dodag_op dodag (dodag_update_from_dio (Some dio)) w;
                       w \<leftarrow> dodag_op dodag (dodag_update_from_dodag_config dodag_config) w;
                       dodag_op dodag (dodag_update_from_dodag_prefix_info prefix) w }
                else Some w);
          w \<leftarrow> node_add_packet_count node 1 w;
          w \<leftarrow> node_op node (node_update_dio_interval (w_fl w) (pkt_timestamp pkt_info)) w;
          w \<leftarrow> node_set_ip node (pkt_src_ip_address pkt_info) w;
          d \<leftarrow> fam_load dodag (w_dodags w);
          w \<leftarrow> node_op node (node_update_from_dio (Some dio) (Some d)) w;
          w \<leftarrow> node_op node (node_update_from_metric metric) w;
          w \<leftarrow> node_op node (node_update_from_dodag_config dodag_config (Some d)) w;
          w \<leftarrow> node_op node (node_update_from_dodag_prefix_info prefix (Some d)) w;
          if is_root_rank dio w then dodag_set_nodes_changed dodag w else Some w }"

text \<open>
  The branch of a DAO whose transit option has a lifetime: the link from the child to the parent
  is made or renewed, and a parent that the child has a route to is a routing loop.
\<close>

definition dao_path :: "nat \<Rightarrow> nat \<Rightarrow> world \<Rightarrow> world option" where
  "dao_path child parent w =
     do { c \<leftarrow> fam_load child (w_nodes w);
          p \<leftarrow> fam_load parent (w_nodes w);
          let link_ref = link_ref_init \<lparr>nr_wpan_address = node_get_mac64 c\<rparr> \<lparr>nr_wpan_address = node_get_mac64 p\<rparr>;
          (new_link, _, w) \<leftarrow> rpldata_get_link link_ref HVM_CreateIfNonExistant w;
          w \<leftarrow> (if cfg_one_preferred_parent (w_config w) then links_deprecate_all_from link_ref w else Some w);
          w \<leftarrow> link_update new_link (w_time w) 1 w;
          c \<leftarrow> fam_load child (w_nodes w);
          p \<leftarrow> fam_load parent (w_nodes w);
          if \<exists>route\<in>set (n_routes c). addr_compare_ip (rt_prefix (re_target route)) (node_get_global_ip p) = 0
          then node_op child node_add_route_error w else Some w }"

text \<open>The branch of a No-Path DAO: the link is deleted if the target is the child itself.\<close>

definition dao_no_path :: "nat \<Rightarrow> nat \<Rightarrow> rpl_dao_opt_target option \<Rightarrow> world \<Rightarrow> world option" where
  "dao_no_path child parent target w =
     (case target of
        None \<Rightarrow> Some w
      | Some target \<Rightarrow>
          do { c \<leftarrow> fam_load child (w_nodes w);
               p \<leftarrow> fam_load parent (w_nodes w);
               if addr_compare_ip_len (node_get_global_ip c) (tgt_target target)
                    (unat (tgt_target_bit_length target)) = 0
               then
                 do { let link_ref =
                        link_ref_init \<lparr>nr_wpan_address = node_get_mac64 c\<rparr> \<lparr>nr_wpan_address = node_get_mac64 p\<rparr>;
                      (old_link, w) \<leftarrow> rpldata_del_link link_ref w;
                      if old_link \<noteq> 0 then
                        do { link \<leftarrow> fam_load old_link (w_links w);
                             Some (w\<lparr>w_head := rpl_event_link (l_key link) RET_Deleted (w_head w)\<rparr>) }
                      else Some w }
               else Some w })"

text \<open>The route that a DAO with a target and a transit option adds to the parent, or removes.\<close>

definition dao_route ::
    "packet_info \<Rightarrow> rpl_dao \<Rightarrow> nat \<Rightarrow> nat \<Rightarrow> rpl_dao_opt_target \<Rightarrow> rpl_dao_opt_transit \<Rightarrow> world \<Rightarrow> world option" where
  "dao_route pkt_info dao child parent target transit w =
     do { c \<leftarrow> fam_load child (w_nodes w);
          let route = \<lparr>rt_length = tgt_target_bit_length target, rt_prefix = tgt_target target,
                       rt_expiration_time = ucast (tra_path_lifetime transit)\<rparr>;
          w \<leftarrow> (if 0 < tra_path_lifetime transit
                then node_op parent (node_add_route route (node_get_mac64 c)) w
                else node_op parent (node_del_route route (node_get_mac64 c)) w);
          c \<leftarrow> fam_load child (w_nodes w);
          if addr_compare_ip (tgt_target target) (node_get_global_ip c) = 0 then
            do { w \<leftarrow> node_op child (node_update_from_dao (Some dao) None) w;
                 node_op child (node_update_dao_interval (w_fl w) (pkt_timestamp pkt_info)) w }
          else Some w }"

definition rpl_collector_parse_dao ::
    "packet_info \<Rightarrow> rpl_dao \<Rightarrow> rpl_dao_opt_target option \<Rightarrow> rpl_dao_opt_transit option \<Rightarrow> world \<Rightarrow> world option" where
  "rpl_collector_parse_dao pkt_info dao target transit w =
     do { (child, _, w) \<leftarrow>
            rpldata_get_node (node_ref_init (pkt_src_wpan_address pkt_info)) HVM_CreateIfNonExistant w;
          w \<leftarrow> node_add_packet_count child 1 w;
          w \<leftarrow> node_set_ip child (pkt_src_ip_address pkt_info) w;
          (parent, _, w) \<leftarrow>
            rpldata_get_node (node_ref_init (pkt_dst_wpan_address pkt_info)) HVM_CreateIfNonExistant w;
          (_, _, w) \<leftarrow>
            rpldata_get_rpl_instance (rpl_instance_ref_init (dao_rpl_instance_id dao)) HVM_CreateIfNonExistant w;
          p \<leftarrow> fam_load parent (w_nodes w);
          w \<leftarrow> (if addr_compare_ip (node_get_local_ip p) (pkt_dst_ip_address pkt_info) \<noteq> 0
                then node_op child node_add_ip_mismatch_error w else Some w);
          c \<leftarrow> fam_load child (w_nodes w);
          p \<leftarrow> fam_load parent (w_nodes w);
          w \<leftarrow> (if dao_dodagid_present dao \<and> node_get_dodag c \<noteq> None then
                  (case node_get_dodag p of
                     None \<Rightarrow> Some w
                   | Some dodag_ref \<Rightarrow>
                       if addr_compare_ip (dao_dodagid dao) (dr_dodagid dodag_ref) = 0 then Some w
                       else node_op child node_add_dodag_mismatch_error w)
                else Some w);
          w \<leftarrow> (case transit of
                  None \<Rightarrow> Some w
                | Some transit \<Rightarrow>
                    if 0 < tra_path_lifetime transit then dao_path child parent w
                    else dao_no_path child parent target w);
          case (target, transit) of
            (Some target, Some transit) \<Rightarrow> dao_route pkt_info dao child parent target transit w
          | _ \<Rightarrow> Some w }"

definition rpl_collector_parse_dis ::
    "packet_info \<Rightarrow> rpl_dis_opt_info_req option \<Rightarrow> world \<Rightarrow> world option" where
  "rpl_collector_parse_dis pkt_info request w =
     do { (node, _, w) \<leftarrow>
            rpldata_get_node (node_ref_init (pkt_src_wpan_address pkt_info)) HVM_CreateIfNonExistant w;
          w \<leftarrow> node_add_packet_count node 1 w;
          w \<leftarrow> node_set_ip node (pkt_src_ip_address pkt_info) w;
          node_op node (node_update_from_dis request) w }"

definition ADDR_MAC64_BROADCAST :: addr_wpan where
  "ADDR_MAC64_BROADCAST = 0xFFFF"

text \<open>The two directions of a data packet with a hop-by-hop option.\<close>

definition data_upward :: "packet_info \<Rightarrow> rpl_hop_by_hop_opt \<Rightarrow> nat \<Rightarrow> nat \<Rightarrow> world \<Rightarrow> world option" where
  "data_upward pkt_info rpl_info src dst w =
     do { s \<leftarrow> fam_load src (w_nodes w);
          d \<leftarrow> fam_load dst (w_nodes w);
          let link_ref = link_ref_init \<lparr>nr_wpan_address = node_get_mac64 s\<rparr> \<lparr>nr_wpan_address = node_get_mac64 d\<rparr>;
          (link, _, w) \<leftarrow> rpldata_get_link link_ref HVM_CreateIfNonExistant w;
          w \<leftarrow> (if cfg_one_preferred_parent (w_config w) then links_deprecate_all_from link_ref w else Some w);
          w \<leftarrow> link_update link (w_time w) 1 w;
          let route = \<lparr>rt_length = 128, rt_prefix = pkt_src_ip_address pkt_info, rt_expiration_time = 0\<rparr>;
          w \<leftarrow> node_op dst (node_add_route route (node_get_mac64 s)) w;
          s \<leftarrow> fam_load src (w_nodes w);
          d \<leftarrow> fam_load dst (w_nodes w);
          w \<leftarrow> (if \<exists>route\<in>set (n_routes s). addr_compare_ip (rt_prefix (re_target route)) (node_get_global_ip d) = 0
                then node_op src node_add_route_error w else Some w);
          d \<leftarrow> fam_load dst (w_nodes w);
          if node_has_rank d \<and> sint (ucast (hbh_sender_rank rpl_info) :: c_int) < sint (node_get_rank d)
          then node_op src node_add_upward_error w else Some w }"

definition data_downward :: "packet_info \<Rightarrow> rpl_hop_by_hop_opt \<Rightarrow> nat \<Rightarrow> nat \<Rightarrow> world \<Rightarrow> world option" where
  "data_downward pkt_info rpl_info src dst w =
     do { d \<leftarrow> fam_load dst (w_nodes w);
          let route = \<lparr>rt_length = 128, rt_prefix = pkt_dst_ip_address pkt_info, rt_expiration_time = 0\<rparr>;
          w \<leftarrow> node_op src (node_add_route route (node_get_mac64 d)) w;
          d \<leftarrow> fam_load dst (w_nodes w);
          if node_has_rank d \<and> sint (node_get_rank d) < sint (ucast (hbh_sender_rank rpl_info) :: c_int)
          then node_op src node_add_downward_error w else Some w }"

definition rpl_collector_parse_data ::
    "packet_info \<Rightarrow> rpl_hop_by_hop_opt option \<Rightarrow> world \<Rightarrow> world option" where
  "rpl_collector_parse_data pkt_info rpl_info w =
     do { (src, _, w) \<leftarrow>
            rpldata_get_node (node_ref_init (pkt_src_wpan_address pkt_info)) HVM_CreateIfNonExistant w;
          w \<leftarrow> node_add_packet_count src 1 w;
          w \<leftarrow> (if pkt_hop_limit pkt_info = 64 then node_set_ip src (pkt_src_ip_address pkt_info) w else Some w);
          w \<leftarrow> node_op src (node_update_from_hop_by_hop rpl_info) w;
          if pkt_dst_wpan_address pkt_info \<noteq> 0 \<and> pkt_dst_wpan_address pkt_info \<noteq> ADDR_MAC64_BROADCAST then
            do { (dst, _, w) \<leftarrow>
                   rpldata_get_node (node_ref_init (pkt_dst_wpan_address pkt_info)) HVM_CreateIfNonExistant w;
                 case rpl_info of
                   None \<Rightarrow> Some w
                 | Some info \<Rightarrow>
                     do { w \<leftarrow> (if hbh_rank_error info then node_op src node_add_rank_error w else Some w);
                          w \<leftarrow> (if hbh_forwarding_error info then node_op src node_add_forward_error w else Some w);
                          if hbh_packet_toward_root info then data_upward pkt_info info src dst w
                          else data_downward pkt_info info src dst w } }
          else Some w }"

end
