(* ===== verification/WorldInv.thy ===== *)
theory WorldInv
  imports Collector
begin

section \<open>The invariant of the collected data\<close>

text \<open>
  \<open>world_ok\<close> is the invariant that every operation of the analyzer keeps between two packets and
  in the middle of one: the four families are well-formed, the pending events account for the
  changed objects, the array of network versions records the last versions, every node is in
  the container of its DODAG and of no other, and the list of allocated objects holds live
  objects only. The rules of this theory say that an operation does not fail and keeps the
  invariant; they are stated with \<open>st\<close>, which also remembers the pointers that the code holds.
\<close>

subsection \<open>The invariant\<close>

definition node_good :: "di_node \<Rightarrow> bool" where
  "node_good n \<longleftrightarrow> routes_ok (n_routes n)"

abbreviation node_events :: "world \<Rightarrow> (rpl_event_type \<times> di_node_ref) list" where
  "node_events w \<equiv> events_of node_event (w_head w)"

abbreviation dodag_events :: "world \<Rightarrow> (rpl_event_type \<times> di_dodag_ref) list" where
  "dodag_events w \<equiv> events_of dodag_event (w_head w)"

abbreviation instance_events :: "world \<Rightarrow> (rpl_event_type \<times> di_rpl_instance_ref) list" where
  "instance_events w \<equiv> events_of rpl_instance_event (w_head w)"

abbreviation link_events :: "world \<Rightarrow> (rpl_event_type \<times> di_link_ref) list" where
  "link_events w \<equiv> events_of link_event (w_head w)"

definition families_ok :: "world \<Rightarrow> bool" where
  "families_ok w \<longleftrightarrow>
     fam_ok n_key node_good (w_nodes w) \<and> fam_ok d_key dodag_ok (w_dodags w)
     \<and> fam_ok i_key instance_ok (w_rpl_instances w) \<and> fam_ok l_key (\<lambda>_. True) (w_links w)"

definition pending_ok :: "world \<Rightarrow> bool" where
  "pending_ok w \<longleftrightarrow>
     fam_pending n_has_changed (w_nodes w) (node_events w)
     \<and> fam_pending d_has_changed (w_dodags w) (dodag_events w)
     \<and> fam_pending i_has_changed (w_rpl_instances w) (instance_events w)
     \<and> fam_pending l_has_changed (w_links w) (link_events w)"

text \<open>The array of network versions, for the last version of each kind.\<close>

definition wsn_records :: "u32 \<Rightarrow> u32 \<Rightarrow> u32 \<Rightarrow> u32 \<Rightarrow> di_rpl_wsn_state \<Rightarrow> bool" where
  "wsn_records nv dv iv lv s \<longleftrightarrow>
     x_node_version s = nv \<and> x_dodag_version s = dv \<and> x_rpl_instance_version s = iv \<and> x_links_version s = lv"

definition wsn_ok :: "world \<Rightarrow> bool" where
  "wsn_ok w \<longleftrightarrow>
     256 \<le> w_wsn_version_array_size w \<and> w_wsn_last_version w < w_wsn_version_array_size w
     \<and> wsn_records 0 0 0 0 (w_wsn_versions w 0)
     \<and> (w_wsn_last_version w \<noteq> 0 \<longrightarrow>
          wsn_records (version_or_none (fm_last (w_nodes w))) (version_or_none (fm_last (w_dodags w)))
            (version_or_none (fm_last (w_rpl_instances w))) (version_or_none (fm_last (w_links w)))
            (w_wsn_versions w (w_wsn_last_version w)))
     \<and> fm_last (w_nodes w) \<le> w_wsn_last_version w \<and> fm_last (w_dodags w) \<le> w_wsn_last_version w
     \<and> fm_last (w_rpl_instances w) \<le> w_wsn_last_version w \<and> fm_last (w_links w) \<le> w_wsn_last_version w"

text \<open>Nodes and DODAGs agree on who belongs where.\<close>

text \<open>The DODAG of each working node, and the nodes of each working DODAG.\<close>

definition node_in :: "world \<Rightarrow> di_node_ref \<Rightarrow> di_dodag_ref option option" where
  "node_in w = fam_view node_get_dodag (w_nodes w)"

definition members :: "world \<Rightarrow> di_dodag_ref \<Rightarrow> di_node_ref set option" where
  "members w = fam_view (\<lambda>d. dom (hash_map (d_nodes d))) (w_dodags w)"

definition members_ok :: "world \<Rightarrow> bool" where
  "members_ok w \<longleftrightarrow>
     (\<forall>dr R. members w dr = Some R \<longrightarrow> R = {r. node_in w r = Some (Some dr)} \<and> 0 \<le> sint (dr_version dr))
     \<and> (\<forall>r dr. node_in w r = Some (Some dr) \<longrightarrow> members w dr \<noteq> None)"

fun live :: "world \<Rightarrow> di_rpl_object_el \<Rightarrow> bool" where
  "live w (el_node p) = (fam_load p (w_nodes w) \<noteq> None)"
| "live w (el_dodag p) = (fam_load p (w_dodags w) \<noteq> None)"
| "live w (el_rpl_instance p) = (fam_load p (w_rpl_instances w) \<noteq> None)"
| "live w (el_link p) = (fam_load p (w_links w) \<noteq> None)"

definition alloc_ok :: "world \<Rightarrow> bool" where
  "alloc_ok w \<longleftrightarrow> distinct (w_allocated w) \<and> (\<forall>el\<in>set (w_allocated w). live w el)"

text \<open>The invariant without the membership, which moving a node breaks for a moment.\<close>

definition base_ok :: "world \<Rightarrow> bool" where
  "base_ok w \<longleftrightarrow> families_ok w \<and> pending_ok w \<and> wsn_ok w \<and> alloc_ok w"

definition world_ok :: "world \<Rightarrow> bool" where
  "world_ok w \<longleftrightarrow> base_ok w \<and> members_ok w"

lemma base_okD:
  assumes "base_ok w"
  shows "fam_ok n_key node_good (w_nodes w)" "fam_ok d_key dodag_ok (w_dodags w)"
    "fam_ok i_key instance_ok (w_rpl_instances w)" "fam_ok l_key (\<lambda>_. True) (w_links w)"
    "fam_pending n_has_changed (w_nodes w) (node_events w)"
    "fam_pending d_has_changed (w_dodags w) (dodag_events w)"
    "fam_pending i_has_changed (w_rpl_instances w) (instance_events w)"
    "fam_pending l_has_changed (w_links w) (link_events w)"
    "wsn_ok w" "alloc_ok w"
  using assms by (simp_all add: base_ok_def families_ok_def pending_ok_def)

lemma world_okD: "world_ok w \<Longrightarrow> base_ok w" "world_ok w \<Longrightarrow> members_ok w"
  by (simp_all add: world_ok_def)

subsection \<open>What an operation may change\<close>

text \<open>The fields that only a commit, a clear or the user changes.\<close>

definition fam_fixed :: "('r, 'o) family \<Rightarrow> ('r, 'o) family \<Rightarrow> bool" where
  "fam_fixed f f' \<longleftrightarrow> fm_last f' = fm_last f \<and> (\<forall>v. v \<noteq> 0 \<longrightarrow> version_at v f' = version_at v f)"

definition fixed :: "world \<Rightarrow> world \<Rightarrow> bool" where
  "fixed w w' \<longleftrightarrow>
     w_config w' = w_config w \<and> w_time w' = w_time w \<and> w_fl w' = w_fl w \<and> w_callbacks w' = w_callbacks w
     \<and> w_out w' = w_out w \<and> w_wsn_versions w' = w_wsn_versions w
     \<and> w_wsn_version_array_size w' = w_wsn_version_array_size w \<and> w_wsn_last_version w' = w_wsn_last_version w
     \<and> fam_fixed (w_nodes w) (w_nodes w') \<and> fam_fixed (w_dodags w) (w_dodags w')
     \<and> fam_fixed (w_rpl_instances w) (w_rpl_instances w') \<and> fam_fixed (w_links w) (w_links w')"

lemma fam_fixed_refl [simp]: "fam_fixed f f"
  by (simp add: fam_fixed_def)

lemma fam_fixed_trans: "fam_fixed f g \<Longrightarrow> fam_fixed g h \<Longrightarrow> fam_fixed f h"
  by (simp add: fam_fixed_def)

lemma fixed_refl [simp]: "fixed w w"
  by (simp add: fixed_def)

lemma fixed_trans: "fixed u v \<Longrightarrow> fixed v w \<Longrightarrow> fixed u w"
  by (auto simp: fixed_def intro: fam_fixed_trans)

lemma fam_fixed_store [simp]: "fam_fixed f (fam_store p x f)"
  by (simp add: fam_fixed_def)

definition links_same :: "world \<Rightarrow> world \<Rightarrow> bool" where
  "links_same w w' \<longleftrightarrow> w_links w' = w_links w \<and> link_events w' = link_events w"

text \<open>
  The state between two operations of a handler that started in \<open>w0\<close>: the invariant without the
  membership, what is fixed, the pointers held (\<open>N\<close>, \<open>D\<close>, \<open>I\<close>, \<open>L\<close>, with their references), and,
  if \<open>b\<close>, that no link has been touched yet.
\<close>

definition holds :: "('r \<times> nat) set \<Rightarrow> ('r, 'o) family \<Rightarrow> bool" where
  "holds P fam \<longleftrightarrow> (\<forall>(r, p)\<in>P. hash_map (working fam) r = Some p)"

definition base_st ::
    "bool \<Rightarrow> world \<Rightarrow> (di_node_ref \<times> nat) set \<Rightarrow> (di_dodag_ref \<times> nat) set \<Rightarrow> (di_rpl_instance_ref \<times> nat) set
      \<Rightarrow> (di_link_ref \<times> nat) set \<Rightarrow> world \<Rightarrow> bool" where
  "base_st b w0 N D I L w \<longleftrightarrow> base_ok w \<and> fixed w0 w \<and> (b \<longrightarrow> links_same w0 w)
     \<and> holds N (w_nodes w) \<and> holds D (w_dodags w) \<and> holds I (w_rpl_instances w) \<and> holds L (w_links w)"

definition st ::
    "bool \<Rightarrow> world \<Rightarrow> (di_node_ref \<times> nat) set \<Rightarrow> (di_dodag_ref \<times> nat) set \<Rightarrow> (di_rpl_instance_ref \<times> nat) set
      \<Rightarrow> (di_link_ref \<times> nat) set \<Rightarrow> world \<Rightarrow> bool" where
  "st b w0 N D I L w \<longleftrightarrow> base_st b w0 N D I L w \<and> members_ok w"

definition same_members :: "world \<Rightarrow> world \<Rightarrow> bool" where
  "same_members w w' \<longleftrightarrow> node_in w' = node_in w \<and> members w' = members w"

lemma same_members_ok: "same_members w w' \<Longrightarrow> members_ok w \<Longrightarrow> members_ok w'"
  by (simp add: same_members_def members_ok_def)

lemma st_start: "world_ok w \<Longrightarrow> st True w {} {} {} {} w"
  by (simp add: st_def base_st_def links_same_def holds_def world_ok_def)

lemma st_world: "st b w0 N D I L w \<Longrightarrow> world_ok w"
  by (simp add: st_def base_st_def world_ok_def)

lemma st_weaken: "st b w0 N D I L w \<Longrightarrow> st False w0 N D I L w"
  by (simp add: st_def base_st_def)

lemma holdsD: "holds P fam \<Longrightarrow> (r, p) \<in> P \<Longrightarrow> hash_map (working fam) r = Some p"
  by (auto simp: holds_def)

lemma holds_mono: "holds P fam \<Longrightarrow> hash_map (working fam) \<subseteq>\<^sub>m hash_map (working fam') \<Longrightarrow> holds P fam'"
  by (fastforce simp: holds_def map_le_def dom_def)

lemma holds_same: "holds P fam \<Longrightarrow> working fam' = working fam \<Longrightarrow> holds P fam'"
  by (simp add: holds_def)

lemma wsn_ok_fixed: "wsn_ok w \<Longrightarrow> fixed w w' \<Longrightarrow> wsn_ok w'"
  by (simp add: wsn_ok_def fixed_def fam_fixed_def)

definition keeps_live :: "('r, 'o) family \<Rightarrow> ('r, 'o) family \<Rightarrow> bool" where
  "keeps_live f f' \<longleftrightarrow> (\<forall>p. fam_load p f \<noteq> None \<longrightarrow> fam_load p f' \<noteq> None)"

lemma keeps_live_refl [simp]: "keeps_live f f"
  by (simp add: keeps_live_def)

lemma keeps_live_store [simp]: "keeps_live f (fam_store p x f)"
  by (simp add: keeps_live_def fam_load_def)

lemma alloc_ok_live:
  assumes "alloc_ok w" "w_allocated w' = w_allocated w"
    and "keeps_live (w_nodes w) (w_nodes w')" "keeps_live (w_dodags w) (w_dodags w')"
    and "keeps_live (w_rpl_instances w) (w_rpl_instances w')" "keeps_live (w_links w) (w_links w')"
  shows "alloc_ok w'"
proof -
  have "live w' el" if "live w el" for el
    using that assms(3-6) by (cases el) (auto simp: keeps_live_def)
  then show ?thesis using assms(1,2) by (simp add: alloc_ok_def)
qed

subsection \<open>Setters\<close>

text \<open>One family after a setter: shared by the four kinds of object.\<close>

lemma setter_family:
  assumes fam: "fam_ok key good fam" "fam_pending changed fam (events_of kind h)"
    and p: "hash_map (working fam) r = Some p" "fam_load p fam = Some x"
    and step: "tracks key changed ev (x, h) (x', h')" "good x'"
    and kind: "\<And>t r. events_of kind [ev t r] = [(t, r)]"
  shows "fam_ok key good (fam_store p x' fam)" "fam_pending changed (fam_store p x' fam) (events_of kind h')"
    "\<And>kind'. (\<And>t r. events_of kind' [ev t r] = []) \<Longrightarrow> events_of kind' h' = events_of kind' h"
proof -
  show "fam_ok key good (fam_store p x' fam)"
    using fam_store_ok [OF fam(1), of p x x'] p(2) step by (simp add: fam_load_def tracks_def)
  show "fam_pending changed (fam_store p x' fam) (events_of kind h')"
    by (rule fam_store_pending [OF fam p(1)]) (use p(2) step in \<open>auto simp: fam_load_def tracks_def kind\<close>)
  show "\<And>kind'. (\<And>t r. events_of kind' [ev t r] = []) \<Longrightarrow> events_of kind' h' = events_of kind' h"
    using step by (auto simp: tracks_def)
qed

lemma load_working:
  assumes "fam_ok key good fam" "hash_map (working fam) r = Some p"
  obtains x where "fam_load p fam = Some x" "key x = r" "good x"
  using working_object [OF assms] by (auto simp: fam_load_def)

text \<open>A setter of a node that may also change its DODAG.\<close>

lemma node_op_base:
  assumes s: "base_st b w0 N D I L w" and p: "(r, p) \<in> N"
    and f: "\<And>x. tracks n_key n_has_changed ROT_Node x (f x)"
      "\<And>x. node_good (fst x) \<Longrightarrow> node_good (fst (f x))"
  shows "wp (node_op p f w) (\<lambda>w'. base_st b w0 N D I L w' \<and> w_links w' = w_links w \<and> w_dodags w' = w_dodags w \<and>
    (\<exists>n. fam_load p (w_nodes w) = Some n \<and> n_key n = r \<and> node_good n
       \<and> node_in w' = (node_in w)(r \<mapsto> node_get_dodag (fst (f (n, w_head w))))))"
proof -
  have ok: "base_ok w" and N: "hash_map (working (w_nodes w)) r = Some p"
    using s p by (auto simp: base_st_def dest: holdsD)
  obtain n where n: "fam_load p (w_nodes w) = Some n" "n_key n = r" "node_good n"
    by (rule load_working [OF base_okD(1) [OF ok] N])
  obtain n' head' where f': "f (n, w_head w) = (n', head')" by fastforce
  let ?w = "w\<lparr>w_nodes := fam_store p n' (w_nodes w), w_head := head'\<rparr>"
  have t: "tracks n_key n_has_changed ROT_Node (n, w_head w) (n', head')" "node_good n'"
    using f(1) [of "(n, w_head w)"] f(2) [of "(n, w_head w)"] n(3) by (simp_all add: f')
  note fam = setter_family [OF base_okD(1,5) [OF ok] N n(1) t, simplified]
  have others: "dodag_events ?w = dodag_events w" "instance_events ?w = instance_events w"
      "link_events ?w = link_events w"
    by (simp_all add: fam(3))
  have "fixed w ?w" by (simp add: fixed_def)
  moreover have "base_ok ?w"
    using base_okD [OF ok] fam(1,2) others wsn_ok_fixed [OF _ \<open>fixed w ?w\<close>] alloc_ok_live [of w ?w]
    by (simp add: base_ok_def families_ok_def pending_ok_def)
  moreover have "links_same w ?w" using others by (simp add: links_same_def)
  moreover have "node_in ?w = (node_in w)(r \<mapsto> node_get_dodag n')"
    by (simp add: node_in_def fam_view_store [OF base_okD(1) [OF ok] N])
  ultimately have "base_st b w0 N D I L ?w \<and> node_in ?w = (node_in w)(r \<mapsto> node_get_dodag (fst (f (n, w_head w))))"
    using s fixed_trans by (auto simp: base_st_def f' links_same_def holds_def)
  then show ?thesis using n f' by (auto simp: node_op_def)
qed

lemma node_tracks_dodag: "node_tracks s s' \<Longrightarrow> node_get_dodag (fst s') = node_get_dodag (fst s)"
  by (simp add: node_tracks_def node_get_dodag_def)

lemma node_in_Some: "base_ok w \<Longrightarrow> hash_map (working (w_nodes w)) r = Some p \<Longrightarrow> fam_load p (w_nodes w) = Some n
    \<Longrightarrow> node_in w r = Some (node_get_dodag n)"
  using fam_view_Some [OF base_okD(1)] by (simp add: node_in_def)

lemma members_Some: "base_ok w \<Longrightarrow> hash_map (working (w_dodags w)) r = Some p \<Longrightarrow> fam_load p (w_dodags w) = Some d
    \<Longrightarrow> members w r = Some (dom (hash_map (d_nodes d)))"
  using fam_view_Some [OF base_okD(2)] by (simp add: members_def)

text \<open>A setter that tracks the node, in any handler.\<close>

lemma node_op_st [wp_intro]:
  assumes s: "st b w0 N D I L w" and p: "(r, p) \<in> N" and f: "\<And>x. node_tracks x (f x)"
  shows "wp (node_op p f w) (st b w0 N D I L)"
proof -
  have base: "base_st b w0 N D I L w" and m: "members_ok w" using s by (simp_all add: st_def)
  have N: "hash_map (working (w_nodes w)) r = Some p" using base p by (auto simp: base_st_def dest: holdsD)
  have tr: "tracks n_key n_has_changed ROT_Node x (f x)" "node_good (fst x) \<Longrightarrow> node_good (fst (f x))" for x
    using f [of x] by (simp_all add: node_tracks_def node_good_def)
  show ?thesis
  proof (rule wp_mono [OF node_op_base [OF base p tr]])
    fix w' assume *: "base_st b w0 N D I L w' \<and> w_links w' = w_links w \<and> w_dodags w' = w_dodags w \<and>
      (\<exists>n. fam_load p (w_nodes w) = Some n \<and> n_key n = r \<and> node_good n
         \<and> node_in w' = (node_in w)(r \<mapsto> node_get_dodag (fst (f (n, w_head w)))))"
    then obtain n where "fam_load p (w_nodes w) = Some n"
        "node_in w' = (node_in w)(r \<mapsto> node_get_dodag n)"
      using node_tracks_dodag [OF f] by auto
    moreover from this have "node_in w r = Some (node_get_dodag n)"
      using node_in_Some N base by (auto simp: base_st_def)
    ultimately have "same_members w w'"
      using * by (simp add: same_members_def members_def fun_upd_idem)
    then show "st b w0 N D I L w'" using * m same_members_ok by (simp add: st_def)
  qed auto
qed

lemma dodag_op_base:
  assumes s: "base_st b w0 N D I L w" and p: "(r, p) \<in> D"
    and f: "\<And>x. dodag_tracks x (f x)" "\<And>x. d_nodes (fst (f x)) = d_nodes (fst x)"
  shows "wp (dodag_op p f w) (\<lambda>w'. base_st b w0 N D I L w' \<and> same_members w w')"
proof -
  have ok: "base_ok w" and P: "hash_map (working (w_dodags w)) r = Some p"
    using s p by (auto simp: base_st_def dest: holdsD)
  obtain x where x: "fam_load p (w_dodags w) = Some x" "d_key x = r" "dodag_ok x"
    by (rule load_working [OF base_okD(2) [OF ok] P])
  obtain x' head' where f': "f (x, w_head w) = (x', head')" by fastforce
  let ?w = "w\<lparr>w_dodags := fam_store p x' (w_dodags w), w_head := head'\<rparr>"
  have t: "dodag_tracks (x, w_head w) (x', head')" "d_nodes x' = d_nodes x" "dodag_ok x'"
    using f(1) [of "(x, w_head w)"] f(2) [of "(x, w_head w)"] x(3) by (simp_all add: f' dodag_ok_def)
  note fam = setter_family [OF base_okD(2,6) [OF ok] P x(1) t(1,3), simplified]
  have others: "node_events ?w = node_events w" "instance_events ?w = instance_events w" "link_events ?w = link_events w"
    by (simp_all add: fam(3))
  have "fixed w ?w" by (simp add: fixed_def)
  moreover have "base_ok ?w"
    using base_okD [OF ok] fam(1,2) others wsn_ok_fixed [OF _ \<open>fixed w ?w\<close>] alloc_ok_live [of w ?w]
    by (simp add: base_ok_def families_ok_def pending_ok_def)
  moreover have "links_same w ?w" using others by (simp add: links_same_def)
  moreover have "same_members w ?w"
    using members_Some [OF ok P x(1)] t(2)
    by (simp add: same_members_def node_in_def members_def fam_view_store [OF base_okD(2) [OF ok] P] fun_upd_idem)
  ultimately have "base_st b w0 N D I L ?w \<and> same_members w ?w"
    using s fixed_trans by (auto simp: base_st_def links_same_def holds_def)
  then show ?thesis using x f' by (auto simp: dodag_op_def)
qed

lemma st_from_base:
  assumes "members_ok w" "wp m (\<lambda>w'. base_st b w0 N D I L w' \<and> same_members w w')"
  shows "wp m (st b w0 N D I L)"
  using assms(2) by (rule wp_mono) (use assms(1) same_members_ok in \<open>auto simp: st_def\<close>)

lemma dodag_op_st [wp_intro]:
  assumes "st b w0 N D I L w" "(r, p) \<in> D" "\<And>x. dodag_tracks x (f x)" "\<And>x. d_nodes (fst (f x)) = d_nodes (fst x)"
  shows "wp (dodag_op p f w) (st b w0 N D I L)"
  by (rule st_from_base) (use assms dodag_op_base [of b w0 N D I L w r p f] in \<open>auto simp: st_def\<close>)

lemma rpl_instance_op_st [wp_intro]:
  assumes s: "st b w0 N D I L w" and p: "(r, p) \<in> I"
    and f: "\<And>x. instance_tracks x (f x)" "\<And>x. instance_ok (fst (f x)) = instance_ok (fst x)"
  shows "wp (rpl_instance_op p f w) (st b w0 N D I L)"
proof -
  have ok: "base_ok w" and P: "hash_map (working (w_rpl_instances w)) r = Some p"
    using s p by (auto simp: st_def base_st_def dest: holdsD)
  obtain x where x: "fam_load p (w_rpl_instances w) = Some x" "i_key x = r" "instance_ok x"
    by (rule load_working [OF base_okD(3) [OF ok] P])
  obtain x' head' where f': "f (x, w_head w) = (x', head')" by fastforce
  let ?w = "w\<lparr>w_rpl_instances := fam_store p x' (w_rpl_instances w), w_head := head'\<rparr>"
  have t: "instance_tracks (x, w_head w) (x', head')" "instance_ok x'"
    using f(1) [of "(x, w_head w)"] f(2) [of "(x, w_head w)"] x(3) by (simp_all add: f')
  note fam = setter_family [OF base_okD(3,7) [OF ok] P x(1) t, simplified]
  have others: "node_events ?w = node_events w" "dodag_events ?w = dodag_events w" "link_events ?w = link_events w"
    by (simp_all add: fam(3))
  have "fixed w ?w" by (simp add: fixed_def)
  moreover have "base_ok ?w"
    using base_okD [OF ok] fam(1,2) others wsn_ok_fixed [OF _ \<open>fixed w ?w\<close>] alloc_ok_live [of w ?w]
    by (simp add: base_ok_def families_ok_def pending_ok_def)
  moreover have "links_same w ?w" using others by (simp add: links_same_def)
  moreover have "same_members w ?w" by (simp add: same_members_def node_in_def members_def)
  ultimately have "st b w0 N D I L ?w"
    using s fixed_trans same_members_ok by (auto simp: st_def base_st_def links_same_def holds_def)
  then show ?thesis using x f' by (auto simp: rpl_instance_op_def)
qed

lemma link_op_st [wp_intro]:
  assumes s: "st b w0 N D I L w" and p: "(r, p) \<in> L" and f: "\<And>x. link_tracks x (f x)"
  shows "wp (link_op p f w) (st False w0 N D I L)"
proof -
  have ok: "base_ok w" and P: "hash_map (working (w_links w)) r = Some p"
    using s p by (auto simp: st_def base_st_def dest: holdsD)
  obtain x where x: "fam_load p (w_links w) = Some x" "l_key x = r"
    by (rule load_working [OF base_okD(4) [OF ok] P])
  obtain x' head' where f': "f (x, w_head w) = (x', head')" by fastforce
  let ?w = "w\<lparr>w_links := fam_store p x' (w_links w), w_head := head'\<rparr>"
  have t: "link_tracks (x, w_head w) (x', head')" using f(1) [of "(x, w_head w)"] by (simp add: f')
  note fam = setter_family [OF base_okD(4,8) [OF ok] P x(1) t TrueI, simplified]
  have others: "node_events ?w = node_events w" "dodag_events ?w = dodag_events w" "instance_events ?w = instance_events w"
    by (simp_all add: fam(3))
  have "fixed w ?w" by (simp add: fixed_def)
  moreover have "base_ok ?w"
    using base_okD [OF ok] fam(1,2) others wsn_ok_fixed [OF _ \<open>fixed w ?w\<close>] alloc_ok_live [of w ?w]
    by (simp add: base_ok_def families_ok_def pending_ok_def)
  moreover have "same_members w ?w" by (simp add: same_members_def node_in_def members_def)
  ultimately have "st False w0 N D I L ?w"
    using s fixed_trans same_members_ok by (auto simp: st_def base_st_def holds_def)
  then show ?thesis using x f' by (auto simp: link_op_def)
qed

subsection \<open>Finding or creating\<close>

lemma wsn_at_0: "wsn_ok w \<Longrightarrow> wsn_at 0 w = Some (w_wsn_versions w 0) \<and> wsn_records 0 0 0 0 (w_wsn_versions w 0)"
proof -
  assume ok: "wsn_ok w"
  then have "(0 :: u32) < w_wsn_version_array_size w"
    by (auto simp: wsn_ok_def word_le_nat_alt word_less_nat_alt)
  with ok show ?thesis by (simp add: wsn_at_def wsn_ok_def)
qed

text \<open>One family after an object has been created: shared by the four kinds of object.\<close>

lemma create_family:
  assumes fam: "fam_ok key good fam" "fam_pending changed fam (events_of kind h)" and k: "hash_map (working fam) k = None"
    and obj: "key x = k" "good x" "changed x" and kind: "\<And>t r. events_of kind [ev t r] = [(t, r)]"
  shows "fam_ok key good (fam_create k x fam)"
    "fam_pending changed (fam_create k x fam) (events_of kind (h @ [ev RET_Created k]))"
    "fam_fixed fam (fam_create k x fam)" "keeps_live fam (fam_create k x fam)"
    "fam_load (hp_next (fm_heap fam)) (fam_create k x fam) \<noteq> None"
    "fam_load (hp_next (fm_heap fam)) fam = None"
    "holds P fam \<Longrightarrow> holds (insert (k, hp_next (fm_heap fam)) P) (fam_create k x fam)"
proof -
  note simps = fam_create_simps [OF fam(1) k]
  show "fam_ok key good (fam_create k x fam)" by (rule fam_create_ok [OF fam(1) k obj(1,2)])
  show "fam_pending changed (fam_create k x fam) (events_of kind (h @ [ev RET_Created k]))"
    using fam_create_pending [OF fam(1) k fam(2), of x] obj by (simp add: kind)
  show "fam_fixed fam (fam_create k x fam)" by (simp add: fam_fixed_def simps)
  show "keeps_live fam (fam_create k x fam)" by (simp add: keeps_live_def fam_load_def simps)
  show "fam_load (hp_next (fm_heap fam)) (fam_create k x fam) \<noteq> None" by (simp add: fam_load_def simps)
  show "fam_load (hp_next (fm_heap fam)) fam = None"
    using fam_okD(1) [OF fam(1)] by (simp add: fam_load_def heap_ok_fresh)
  show "holds P fam \<Longrightarrow> holds (insert (k, hp_next (fm_heap fam)) P) (fam_create k x fam)"
    using k by (fastforce simp: holds_def simps)
qed

lemma members_okD:
  assumes "members_ok w"
  shows "members w dr = Some R \<Longrightarrow> r \<in> R \<longleftrightarrow> node_in w r = Some (Some dr)"
    and "members w dr = Some R \<Longrightarrow> 0 \<le> sint (dr_version dr)"
    and "node_in w r = Some (Some dr) \<Longrightarrow> \<exists>R. members w dr = Some R"
  using assms unfolding members_ok_def by blast+

lemma members_ok_new_node:
  assumes "members_ok w" "node_in w r = None" "node_in w' = (node_in w)(r \<mapsto> None)" "members w' = members w"
  shows "members_ok w'"
proof -
  have "node_in w' r' = Some (Some dr) \<longleftrightarrow> node_in w r' = Some (Some dr)" for r' dr
    using assms(2,3) by simp
  then show ?thesis using assms(1) unfolding members_ok_def assms(4) by simp
qed

lemma members_ok_new_dodag:
  assumes "members_ok w" "members w dr = None" "members w' = (members w)(dr \<mapsto> {})" "node_in w' = node_in w"
    and "0 \<le> sint (dr_version dr)"
  shows "members_ok w'"
proof -
  have "node_in w r \<noteq> Some (Some dr)" for r
    using members_okD(3) [OF assms(1), of r dr] assms(2) by auto
  then show ?thesis using assms(1,5) unfolding members_ok_def assms(3,4) by auto
qed

lemma alloc_ok_new:
  assumes "alloc_ok w" "w_allocated w' = w_allocated w @ [el]" "\<not> live w el" "live w' el"
    and "keeps_live (w_nodes w) (w_nodes w')" "keeps_live (w_dodags w) (w_dodags w')"
    and "keeps_live (w_rpl_instances w) (w_rpl_instances w')" "keeps_live (w_links w) (w_links w')"
  shows "alloc_ok w'"
proof -
  have "live w' el'" if "live w el'" for el'
    using that assms(5-8) by (cases el') (auto simp: keeps_live_def)
  then show ?thesis using assms(1-4) by (auto simp: alloc_ok_def)
qed

lemma rpldata_get_node_st [wp_intro]:
  assumes s: "st b w0 N D I L w"
  shows "wp (rpldata_get_node ref HVM_CreateIfNonExistant w) (\<lambda>(p, _, w'). st b w0 (insert (ref, p) N) D I L w')"
proof -
  have ok: "base_ok w" and m: "members_ok w" using s by (simp_all add: st_def base_st_def)
  note fam = base_okD(1) [OF ok]
  have ver: "wsn_at 0 w = Some (w_wsn_versions w 0)" "x_node_version (w_wsn_versions w 0) = 0"
    using wsn_at_0 [OF base_okD(9) [OF ok]] by (simp_all add: wsn_records_def)
  show ?thesis
  proof (cases "hash_map (working (w_nodes w)) ref")
    case (Some p)
    then have "rpldata_get_node ref HVM_CreateIfNonExistant w = Some (p, False, w)"
      by (simp add: rpldata_get_node_def ver fam_find_object [OF fam Some])
    then show ?thesis using s Some by (auto simp: st_def base_st_def holds_def)
  next
    case None
    obtain n where n: "node_init ref (w_head w, w_last_simple_id w)
          = (n, w_head w @ [ROT_Node RET_Created ref], w_last_simple_id w + 1)"
        "n_key n = ref" "n_has_changed n" "node_get_dodag n = None" "n_routes n = []"
      using node_init_result [of ref "w_head w" "w_last_simple_id w"] by blast
    let ?p = "hp_next (fm_heap (w_nodes w))"
    let ?w = "w\<lparr>w_nodes := fam_create ref n (w_nodes w), w_head := w_head w @ [ROT_Node RET_Created ref],
      w_last_simple_id := w_last_simple_id w + 1, w_allocated := w_allocated w @ [el_node ?p]\<rparr>"
    have get: "rpldata_get_node ref HVM_CreateIfNonExistant w = Some (?p, True, ?w)"
      by (simp add: rpldata_get_node_def ver fam_create_object [OF fam None] n(1))
    note c = create_family [OF fam base_okD(5) [OF ok] None n(2), of ROT_Node, simplified node_good_def, simplified n(3,5), simplified]
    have "alloc_ok ?w"
      by (rule alloc_ok_new [OF base_okD(10) [OF ok], of _ "el_node ?p"]) (use c(4-6) in simp_all)
    moreover have "fixed w ?w" using c(3) by (simp add: fixed_def)
    ultimately have "base_ok ?w"
      using base_okD [OF ok] c(1,2) wsn_ok_fixed [of w ?w]
      by (simp add: base_ok_def families_ok_def pending_ok_def node_good_def)
    moreover have "members_ok ?w"
      by (rule members_ok_new_node [OF m, of ref])
        (simp_all add: node_in_def members_def fam_view_None [OF fam] None fam_view_create [OF fam None] n(4))
    ultimately have "st b w0 (insert (ref, ?p) N) D I L ?w"
      using s c(7) fixed_trans [OF _ \<open>fixed w ?w\<close>] by (auto simp: st_def base_st_def links_same_def)
    then show ?thesis by (simp add: get)
  qed
qed

lemma dodag_init_result:
  "\<exists>d. dodag_init key head = (d, head @ [ROT_Dodag RET_Created key]) \<and> d_key d = key \<and> d_has_changed d
     \<and> dodag_ok d \<and> dom (hash_map (d_nodes d)) = {}"
  by (simp add: dodag_init_def rpl_event_dodag_def dodag_ok_def hash_map_def)

lemma rpl_instance_init_result:
  "\<exists>i. rpl_instance_init key head = (i, head @ [ROT_RplInstance RET_Created key]) \<and> i_key i = key
     \<and> i_has_changed i \<and> instance_ok i"
  by (simp add: rpl_instance_init_def rpl_event_rpl_instance_def instance_ok_def)

lemma link_init_result:
  "\<exists>l. link_init key head = (l, head @ [ROT_Link RET_Created key]) \<and> l_key l = key \<and> l_has_changed l"
  by (simp add: link_init_def rpl_event_link_def)

lemma rpldata_get_dodag_st [wp_intro]:
  assumes s: "st b w0 N D I L w" and ref: "0 \<le> sint (dr_version ref)"
  shows "wp (rpldata_get_dodag ref HVM_CreateIfNonExistant w) (\<lambda>(p, _, w'). st b w0 N (insert (ref, p) D) I L w')"
proof -
  have ok: "base_ok w" and m: "members_ok w" using s by (simp_all add: st_def base_st_def)
  note fam = base_okD(2) [OF ok]
  have ver: "wsn_at 0 w = Some (w_wsn_versions w 0)" "x_dodag_version (w_wsn_versions w 0) = 0"
    using wsn_at_0 [OF base_okD(9) [OF ok]] by (simp_all add: wsn_records_def)
  show ?thesis
  proof (cases "hash_map (working (w_dodags w)) ref")
    case (Some p)
    then have "rpldata_get_dodag ref HVM_CreateIfNonExistant w = Some (p, False, w)"
      by (simp add: rpldata_get_dodag_def ver fam_find_object [OF fam Some])
    then show ?thesis using s Some by (auto simp: st_def base_st_def holds_def)
  next
    case None
    obtain d where d: "dodag_init ref (w_head w) = (d, w_head w @ [ROT_Dodag RET_Created ref])"
        "d_key d = ref" "d_has_changed d" "dodag_ok d" "dom (hash_map (d_nodes d)) = {}"
      using dodag_init_result [of ref "w_head w"] by blast
    let ?p = "hp_next (fm_heap (w_dodags w))"
    let ?w = "w\<lparr>w_dodags := fam_create ref d (w_dodags w), w_head := w_head w @ [ROT_Dodag RET_Created ref],
      w_allocated := w_allocated w @ [el_dodag ?p]\<rparr>"
    have get: "rpldata_get_dodag ref HVM_CreateIfNonExistant w = Some (?p, True, ?w)"
      by (simp add: rpldata_get_dodag_def ver fam_create_object [OF fam None] d(1))
    note c = create_family [OF fam base_okD(6) [OF ok] None d(2,4,3), of ROT_Dodag, simplified]
    have "alloc_ok ?w"
      by (rule alloc_ok_new [OF base_okD(10) [OF ok], of _ "el_dodag ?p"]) (use c(4-6) in simp_all)
    moreover have "fixed w ?w" using c(3) by (simp add: fixed_def)
    ultimately have "base_ok ?w"
      using base_okD [OF ok] c(1,2) wsn_ok_fixed [of w ?w]
      by (simp add: base_ok_def families_ok_def pending_ok_def)
    moreover have "members_ok ?w"
      by (rule members_ok_new_dodag [OF m, of ref])
        (simp_all add: node_in_def members_def fam_view_None [OF fam] None fam_view_create [OF fam None] d(5) ref)
    ultimately have "st b w0 N (insert (ref, ?p) D) I L ?w"
      using s c(7) fixed_trans [OF _ \<open>fixed w ?w\<close>] by (auto simp: st_def base_st_def links_same_def)
    then show ?thesis by (simp add: get)
  qed
qed

lemma rpldata_get_rpl_instance_st [wp_intro]:
  assumes s: "st b w0 N D I L w"
  shows "wp (rpldata_get_rpl_instance ref HVM_CreateIfNonExistant w) (\<lambda>(p, _, w'). st b w0 N D (insert (ref, p) I) L w')"
proof -
  have ok: "base_ok w" using s by (simp add: st_def base_st_def)
  note fam = base_okD(3) [OF ok]
  have ver: "wsn_at 0 w = Some (w_wsn_versions w 0)" "x_rpl_instance_version (w_wsn_versions w 0) = 0"
    using wsn_at_0 [OF base_okD(9) [OF ok]] by (simp_all add: wsn_records_def)
  show ?thesis
  proof (cases "hash_map (working (w_rpl_instances w)) ref")
    case (Some p)
    then have "rpldata_get_rpl_instance ref HVM_CreateIfNonExistant w = Some (p, False, w)"
      by (simp add: rpldata_get_rpl_instance_def ver fam_find_object [OF fam Some])
    then show ?thesis using s Some by (auto simp: st_def base_st_def holds_def)
  next
    case None
    obtain i where i: "rpl_instance_init ref (w_head w) = (i, w_head w @ [ROT_RplInstance RET_Created ref])"
        "i_key i = ref" "i_has_changed i" "instance_ok i"
      using rpl_instance_init_result [of ref "w_head w"] by blast
    let ?p = "hp_next (fm_heap (w_rpl_instances w))"
    let ?w = "w\<lparr>w_rpl_instances := fam_create ref i (w_rpl_instances w),
      w_head := w_head w @ [ROT_RplInstance RET_Created ref], w_allocated := w_allocated w @ [el_rpl_instance ?p]\<rparr>"
    have get: "rpldata_get_rpl_instance ref HVM_CreateIfNonExistant w = Some (?p, True, ?w)"
      by (simp add: rpldata_get_rpl_instance_def ver fam_create_object [OF fam None] i(1))
    note c = create_family [OF fam base_okD(7) [OF ok] None i(2,4,3), of ROT_RplInstance, simplified]
    have "alloc_ok ?w"
      by (rule alloc_ok_new [OF base_okD(10) [OF ok], of _ "el_rpl_instance ?p"]) (use c(4-6) in simp_all)
    moreover have "fixed w ?w" using c(3) by (simp add: fixed_def)
    ultimately have "base_ok ?w"
      using base_okD [OF ok] c(1,2) wsn_ok_fixed [of w ?w]
      by (simp add: base_ok_def families_ok_def pending_ok_def)
    moreover have "same_members w ?w" by (simp add: same_members_def node_in_def members_def)
    ultimately have "st b w0 N D (insert (ref, ?p) I) L ?w"
      using s c(7) fixed_trans [OF _ \<open>fixed w ?w\<close>] same_members_ok
      by (auto simp: st_def base_st_def links_same_def)
    then show ?thesis by (simp add: get)
  qed
qed

lemma rpldata_get_link_st [wp_intro]:
  assumes s: "st b w0 N D I L w"
  shows "wp (rpldata_get_link ref HVM_CreateIfNonExistant w) (\<lambda>(p, _, w'). st False w0 N D I (insert (ref, p) L) w')"
proof -
  have ok: "base_ok w" using s by (simp add: st_def base_st_def)
  note fam = base_okD(4) [OF ok]
  have ver: "wsn_at 0 w = Some (w_wsn_versions w 0)" "x_links_version (w_wsn_versions w 0) = 0"
    using wsn_at_0 [OF base_okD(9) [OF ok]] by (simp_all add: wsn_records_def)
  show ?thesis
  proof (cases "hash_map (working (w_links w)) ref")
    case (Some p)
    then have "rpldata_get_link ref HVM_CreateIfNonExistant w = Some (p, False, w)"
      by (simp add: rpldata_get_link_def ver fam_find_object [OF fam Some])
    then show ?thesis using s Some by (auto simp: st_def base_st_def holds_def)
  next
    case None
    obtain l where l: "link_init ref (w_head w) = (l, w_head w @ [ROT_Link RET_Created ref])"
        "l_key l = ref" "l_has_changed l"
      using link_init_result [of ref "w_head w"] by blast
    let ?p = "hp_next (fm_heap (w_links w))"
    let ?w = "w\<lparr>w_links := fam_create ref l (w_links w), w_head := w_head w @ [ROT_Link RET_Created ref],
      w_allocated := w_allocated w @ [el_link ?p]\<rparr>"
    have get: "rpldata_get_link ref HVM_CreateIfNonExistant w = Some (?p, True, ?w)"
      by (simp add: rpldata_get_link_def ver fam_create_object [OF fam None] l(1))
    note c = create_family [OF fam base_okD(8) [OF ok] None l(2) TrueI l(3), of ROT_Link, simplified]
    have "alloc_ok ?w"
      by (rule alloc_ok_new [OF base_okD(10) [OF ok], of _ "el_link ?p"]) (use c(4-6) in simp_all)
    moreover have "fixed w ?w" using c(3) by (simp add: fixed_def)
    ultimately have "base_ok ?w"
      using base_okD [OF ok] c(1,2) wsn_ok_fixed [of w ?w]
      by (simp add: base_ok_def families_ok_def pending_ok_def)
    moreover have "same_members w ?w" by (simp add: same_members_def node_in_def members_def)
    ultimately have "st False w0 N D I (insert (ref, ?p) L) ?w"
      using s c(7) fixed_trans [OF _ \<open>fixed w ?w\<close>] same_members_ok by (auto simp: st_def base_st_def)
    then show ?thesis by (simp add: get)
  qed
qed

text \<open>Looking up without creating changes nothing.\<close>

lemma rpldata_find_node:
  assumes "base_ok w"
  shows "rpldata_get_node ref HVM_FailIfNonExistant w =
    Some (case hash_map (working (w_nodes w)) ref of None \<Rightarrow> 0 | Some p \<Rightarrow> p, False, w)"
  using wsn_at_0 [OF base_okD(9) [OF assms]] base_okD(1) [OF assms]
  by (auto simp: rpldata_get_node_def wsn_records_def fam_find_object fam_find_nothing split: option.split)

lemma rpldata_find_dodag:
  assumes "base_ok w"
  shows "rpldata_get_dodag ref HVM_FailIfNonExistant w =
    Some (case hash_map (working (w_dodags w)) ref of None \<Rightarrow> 0 | Some p \<Rightarrow> p, False, w)"
  using wsn_at_0 [OF base_okD(9) [OF assms]] base_okD(2) [OF assms]
  by (auto simp: rpldata_get_dodag_def wsn_records_def fam_find_object fam_find_nothing split: option.split)

subsection \<open>Fields copied to the last version\<close>

text \<open>One family after an object of a version has been changed.\<close>

lemma snapshot_family:
  assumes fam: "fam_ok key good fam" "fam_pending changed fam evs"
    and q: "version_at v fam r = Some q" "v \<noteq> 0" "fam_load q fam = Some x" and x': "key x' = key x" "good x \<longrightarrow> good x'"
  shows "fam_ok key good (fam_store q x' fam)" "fam_pending changed (fam_store q x' fam) evs"
    "fam_view f (fam_store q x' fam) = fam_view f fam"
proof -
  have old: "q \<notin> ran (hash_map (working fam))" and x: "good x"
    using old_pointer [OF fam(1) q(1,2)] version_object [OF fam(1) q(1)] q(3) by (auto simp: fam_load_def)
  show "fam_ok key good (fam_store q x' fam)"
    using fam_store_ok [OF fam(1), of q x x'] q(3) x x' by (simp add: fam_load_def)
  show "fam_pending changed (fam_store q x' fam) evs"
    by (rule fam_store_snapshot_pending [OF fam q(1)]) (use q(2) in \<open>simp add: word_gt_0\<close>)
  show "fam_view f (fam_store q x' fam) = fam_view f fam"
    using old by (auto simp: fun_eq_iff fam_view_def fam_load_def ran_def split: option.split)
qed

text \<open>The container of the last network version, if there is one.\<close>

lemma last_version_container:
  assumes "fam_ok key good fam" "fm_last fam + 1 \<noteq> 0"
  shows "fam_container (version_or_none (fm_last fam)) fam
    = Some (if fm_last fam = 0 then None else hash_map (fm_versions fam) (fm_last fam))"
proof (cases "fm_last fam = 0")
  case True
  have "\<not> (- 1 :: u32) \<le> 0" by simp
  then have "hash_map (fm_versions fam) (- 1) = None"
    using fam_okD(3) [OF assms(1), of "-1"] True by simp
  then show ?thesis using True by (simp add: fam_container_eq [OF assms(1)] version_or_none_def)
next
  case False
  then show ?thesis by (simp add: fam_container_eq [OF assms(1)] version_or_none_def)
qed

lemma no_wrap: "(x :: u32) \<le> y \<Longrightarrow> y < z \<Longrightarrow> x + 1 \<noteq> 0"
proof
  assume "x \<le> y" "y < z" "x + 1 = 0"
  then have "x = - 1" by (simp add: eq_neg_iff_add_eq_0)
  then have "z \<le> x" by simp
  with \<open>x \<le> y\<close> \<open>y < z\<close> show False by (meson leD order.trans)
qed

lemma last_no_wrap:
  assumes "wsn_ok w"
  shows "fm_last (w_nodes w) + 1 \<noteq> 0" "fm_last (w_dodags w) + 1 \<noteq> 0"
    "fm_last (w_rpl_instances w) + 1 \<noteq> 0" "fm_last (w_links w) + 1 \<noteq> 0"
  using assms no_wrap unfolding wsn_ok_def by blast+

lemma wsn_at_last:
  assumes "wsn_ok w" "w_wsn_last_version w \<noteq> 0"
  shows "\<exists>s. wsn_at (w_wsn_last_version w) w = Some s \<and>
    wsn_records (version_or_none (fm_last (w_nodes w))) (version_or_none (fm_last (w_dodags w)))
      (version_or_none (fm_last (w_rpl_instances w))) (version_or_none (fm_last (w_links w))) s"
  using assms by (simp add: wsn_ok_def wsn_at_def)

text \<open>The object of the last version that a reference leads to, for the two copying functions.\<close>

lemma old_object:
  assumes fam: "fam_ok key good fam" "fm_last fam + 1 \<noteq> 0" and p: "hash_map (working fam) r = Some p"
  shows "fam_container (version_or_none (fm_last fam)) fam = Some None
    \<or> (\<exists>c. fam_container (version_or_none (fm_last fam)) fam = Some (Some c) \<and>
         (hash_value c r HVM_FailIfNonExistant = Some (None, False, c)
          \<or> (\<exists>q x. hash_value c r HVM_FailIfNonExistant = Some (Some q, False, c) \<and> q \<noteq> p
               \<and> fam_load q fam = Some x \<and> version_at (fm_last fam) fam r = Some q \<and> fm_last fam \<noteq> 0)))"
proof (cases "fm_last fam = 0")
  case True
  then show ?thesis using last_version_container [OF fam] by simp
next
  case False
  obtain c where c: "hash_map (fm_versions fam) (fm_last fam) = Some c"
    using fam_okD(3) [OF fam(1), of "fm_last fam"] by auto
  then have ok: "hash_ok c" and at: "hash_map c = version_at (fm_last fam) fam"
    using fam_okD(4) [OF fam(1) c] by (simp_all add: container_ok_def version_at_def)
  have "\<exists>x. fam_load q fam = Some x \<and> q \<noteq> p" if "version_at (fm_last fam) fam r = Some q" for q
    using version_object [OF fam(1) that] old_pointer [OF fam(1) that False] p by (auto simp: fam_load_def ran_def)
  then show ?thesis
    using False c last_version_container [OF fam] by (cases "hash_map c r") (auto simp: hash_value_find ok at)
qed

text \<open>What the functions \<open>copy\<close> leave alone in the object they write to.\<close>

definition copies_node_field :: "(di_node \<Rightarrow> di_node \<Rightarrow> di_node) \<Rightarrow> bool" where
  "copies_node_field copy \<longleftrightarrow> (\<forall>n old. n_key (copy n old) = n_key old \<and> n_routes (copy n old) = n_routes old
     \<and> n_has_changed (copy n old) = n_has_changed old \<and> n_dodag (copy n old) = n_dodag old)"

lemma node_update_old_field_st [wp_intro]:
  assumes s: "st b w0 N D I L w" and p: "(r, p) \<in> N" and copy: "copies_node_field copy"
  shows "wp (node_update_old_field copy p w) (st b w0 N D I L)"
proof -
  have ok: "base_ok w" and P: "hash_map (working (w_nodes w)) r = Some p"
    using s p by (auto simp: st_def base_st_def dest: holdsD)
  note fam = base_okD(1) [OF ok] and wrap = last_no_wrap(1) [OF base_okD(9) [OF ok]]
  obtain n where n: "fam_load p (w_nodes w) = Some n" "n_key n = r" by (rule load_working [OF fam P])
  show ?thesis
  proof (cases "w_wsn_last_version w = 0")
    case True
    then show ?thesis using s n by (simp add: node_update_old_field_def)
  next
    case False
    have get: "rpldata_get_nodes (w_wsn_last_version w) w = fam_container (version_or_none (fm_last (w_nodes w))) (w_nodes w)"
      using wsn_at_last [OF base_okD(9) [OF ok] False] by (auto simp: rpldata_get_nodes_def wsn_records_def)
    have "st b w0 N D I L (w\<lparr>w_nodes := fam_store q (copy n old) (w_nodes w)\<rparr>)"
      if q: "fam_load q (w_nodes w) = Some old" "version_at (fm_last (w_nodes w)) (w_nodes w) r = Some q"
        "fm_last (w_nodes w) \<noteq> 0" for q old
    proof -
      let ?w = "w\<lparr>w_nodes := fam_store q (copy n old) (w_nodes w)\<rparr>"
      note c = snapshot_family [OF fam base_okD(5) [OF ok] q(2,3,1), of "copy n old"]
      have copy': "n_key (copy n old) = n_key old" "node_good old \<longrightarrow> node_good (copy n old)"
        using copy by (simp_all add: copies_node_field_def node_good_def)
      have "fixed w ?w" by (simp add: fixed_def)
      then have "base_ok ?w"
        using base_okD [OF ok] c [OF copy'] wsn_ok_fixed [of w ?w] alloc_ok_live [of w ?w]
        by (simp add: base_ok_def families_ok_def pending_ok_def)
      moreover have "same_members w ?w" by (simp add: same_members_def node_in_def members_def c [OF copy'])
      ultimately show ?thesis
        using s fixed_trans [OF _ \<open>fixed w ?w\<close>] same_members_ok
        by (auto simp: st_def base_st_def links_same_def holds_def)
    qed
    then show ?thesis
      using old_object [OF fam wrap P] n s False by (auto simp: node_update_old_field_def get)
  qed
qed

lemma link_update_old_field_st [wp_intro]:
  assumes s: "st False w0 N D I L w" and p: "(r, p) \<in> L"
  shows "wp (link_update_old_field copy_link_packet_count p w) (st False w0 N D I L)"
proof -
  have ok: "base_ok w" and P: "hash_map (working (w_links w)) r = Some p"
    using s p by (auto simp: st_def base_st_def dest: holdsD)
  note fam = base_okD(4) [OF ok] and wrap = last_no_wrap(4) [OF base_okD(9) [OF ok]]
  obtain l where l: "fam_load p (w_links w) = Some l" "l_key l = r" by (rule load_working [OF fam P])
  show ?thesis
  proof (cases "w_wsn_last_version w = 0")
    case True
    then show ?thesis using s l by (simp add: link_update_old_field_def)
  next
    case False
    have get: "rpldata_get_links (w_wsn_last_version w) w = fam_container (version_or_none (fm_last (w_links w))) (w_links w)"
      using wsn_at_last [OF base_okD(9) [OF ok] False] by (auto simp: rpldata_get_links_def wsn_records_def)
    have "st False w0 N D I L (w\<lparr>w_links := fam_store q (copy_link_packet_count l old) (w_links w)\<rparr>)"
      if q: "fam_load q (w_links w) = Some old" "version_at (fm_last (w_links w)) (w_links w) r = Some q"
        "fm_last (w_links w) \<noteq> 0" for q old
    proof -
      let ?w = "w\<lparr>w_links := fam_store q (copy_link_packet_count l old) (w_links w)\<rparr>"
      note c = snapshot_family [OF fam base_okD(8) [OF ok] q(2,3,1), of "copy_link_packet_count l old"]
      have copy': "l_key (copy_link_packet_count l old) = l_key old" by (simp add: copy_link_packet_count_def)
      have "fixed w ?w" by (simp add: fixed_def)
      then have "base_ok ?w"
        using base_okD [OF ok] c [OF copy'] wsn_ok_fixed [of w ?w] alloc_ok_live [of w ?w]
        by (simp add: base_ok_def families_ok_def pending_ok_def)
      moreover have "same_members w ?w" by (simp add: same_members_def node_in_def members_def)
      ultimately show ?thesis
        using s fixed_trans [OF _ \<open>fixed w ?w\<close>] same_members_ok
        by (auto simp: st_def base_st_def holds_def)
    qed
    then show ?thesis
      using old_object [OF fam wrap P] l s False by (auto simp: link_update_old_field_def get)
  qed
qed

end
