(* ===== verification/CollectorInv.thy ===== *)
theory CollectorInv
  imports WorldInv
begin

section \<open>The operations that reach several objects\<close>

text \<open>
  The rules of the operations of \<open>node.c\<close>, \<open>dodag.c\<close>, \<open>rpl_instance.c\<close> and \<open>link.c\<close> that reach
  several objects, and the form of all the rules that the proofs of the handlers use, one after
  the other, in the order of the code.
\<close>

subsection \<open>node.c\<close>

lemma node_set_ip_tracks [tracking]:
  "node_tracks s (node_set_local_ip a ip s)" "node_tracks s (node_set_global_ip a ip s)"
  by (cases s; simp add: node_set_local_ip_def node_set_global_ip_def Let_def same_core_def
      node_set_changed_from node_tracks_core)+

lemma node_count_tracks [tracking]:
  "node_tracks s (node_inc_invalid_ip s)" "node_tracks s (node_inc_invalid_prefix s)"
  "node_tracks s (node_mark_errors s)" "node_tracks s (node_count_packets n s)"
  by (cases s; simp add: node_inc_invalid_ip_def node_inc_invalid_prefix_def node_mark_errors_def
      node_count_packets_def same_core_def node_tracks_core)+

lemma copies_fields [tracking]:
  "copies_node_field copy_invalid_ip" "copies_node_field copy_invalid_ip_delta"
  "copies_node_field copy_invalid_prefix" "copies_node_field copy_invalid_prefix_delta"
  "copies_node_field copy_has_errors" "copies_node_field copy_packet_count"
  "copies_node_field copy_packet_count_delta"
  by (simp_all add: copies_node_field_def copy_invalid_ip_def copy_invalid_ip_delta_def copy_invalid_prefix_def
      copy_invalid_prefix_delta_def copy_has_errors_def copy_packet_count_def copy_packet_count_delta_def)

lemma st_load_node:
  assumes "st b w0 N D I L w" "(r, p) \<in> N"
  obtains n where "fam_load p (w_nodes w) = Some n" "n_key n = r"
  using load_working [OF base_okD(1), of w r p] assms by (auto simp: st_def base_st_def dest: holdsD)

lemma st_load_dodag:
  assumes "st b w0 N D I L w" "(r, p) \<in> D"
  obtains d where "fam_load p (w_dodags w) = Some d" "d_key d = r" "dodag_ok d"
  using load_working [OF base_okD(2), of w r p] assms by (auto simp: st_def base_st_def dest: holdsD)

lemma st_load_link:
  assumes "st b w0 N D I L w" "(r, p) \<in> L"
  obtains l where "fam_load p (w_links w) = Some l" "l_key l = r"
proof -
  have "base_ok w" "hash_map (working (w_links w)) r = Some p"
    using assms by (auto simp: st_def base_st_def dest: holdsD)
  then show thesis using load_working [OF base_okD(4)] that by metis
qed

lemma node_set_ip_st [wp_intro]:
  assumes s: "st b w0 N D I L w" and p: "(r, p) \<in> N"
  shows "wp (node_set_ip p address w) (st b w0 N D I L)"
proof -
  have step: "wp (node_op p f w1) (st b w0 N D I L)" if "st b w0 N D I L w1" "\<And>x. node_tracks x (f x)" for f w1
    by (rule node_op_st [OF that(1) p that(2)])
  have copy: "wp (node_update_old_field c p w1) (st b w0 N D I L)" if "st b w0 N D I L w1" "copies_node_field c" for c w1
    by (rule node_update_old_field_st [OF that(1) p that(2)])
  have load: "wp (fam_load p (w_nodes w1)) (\<lambda>_. True)" if "st b w0 N D I L w1" for w1
    by (rule st_load_node [OF that p]) simp
  show ?thesis
    unfolding node_set_ip_def Let_def
    by (auto simp: s tracking intro!: wp_mono [OF step] wp_mono [OF copy] wp_mono [OF load])
qed

lemma node_add_packet_count_st [wp_intro]:
  assumes s: "st b w0 N D I L w" and p: "(r, p) \<in> N"
  shows "wp (node_add_packet_count p count w) (st b w0 N D I L)"
  unfolding node_add_packet_count_def
  by (auto simp: tracking intro!: wp_mono [OF node_op_st [OF s p]]
      wp_mono [OF node_update_old_field_st [OF _ p]])

subsection \<open>dodag.c\<close>

text \<open>The container of a DODAG, changed through a pointer the code holds.\<close>

lemma dodag_store_base:
  assumes s: "base_st b w0 N D I L w" and p: "(r, p) \<in> D" and d: "fam_load p (w_dodags w) = Some d"
    and d': "d_key d' = d_key d" "d_has_changed d' = d_has_changed d" "dodag_ok d'"
  shows "base_st b w0 N D I L (w\<lparr>w_dodags := fam_store p d' (w_dodags w)\<rparr>)"
    and "node_in (w\<lparr>w_dodags := fam_store p d' (w_dodags w)\<rparr>) = node_in w"
    and "members (w\<lparr>w_dodags := fam_store p d' (w_dodags w)\<rparr>) = (members w)(r \<mapsto> dom (hash_map (d_nodes d')))"
proof -
  let ?w = "w\<lparr>w_dodags := fam_store p d' (w_dodags w)\<rparr>"
  have ok: "base_ok w" and P: "hash_map (working (w_dodags w)) r = Some p"
    using s p by (auto simp: base_st_def dest: holdsD)
  have "dodag_tracks (d, w_head w) (d', w_head w)" using d' by (simp add: tracks_def)
  note fam = setter_family [OF base_okD(2,6) [OF ok] P d this d'(3), simplified]
  have "fixed w ?w" by (simp add: fixed_def)
  then have "base_ok ?w"
    using base_okD [OF ok] fam(1,2) wsn_ok_fixed [of w ?w] alloc_ok_live [of w ?w]
    by (simp add: base_ok_def families_ok_def pending_ok_def)
  then show "base_st b w0 N D I L ?w"
    using s fixed_trans [OF _ \<open>fixed w ?w\<close>] by (auto simp: base_st_def links_same_def holds_def)
  show "node_in ?w = node_in w" by (simp add: node_in_def)
  show "members ?w = (members w)(r \<mapsto> dom (hash_map (d_nodes d')))"
    by (simp add: members_def fam_view_store [OF base_okD(2) [OF ok] P])
qed

lemma node_set_dodag_get: "node_get_dodag (fst (node_set_dodag r s)) = (if 0 \<le> sint (dr_version r) then Some r else None)"
  by (simp add: node_get_dodag_def node_set_dodag_tracks)

text \<open>The two changes that end both \<open>dodag_add_node\<close> and \<open>dodag_del_node\<close>.\<close>

lemma move_node:
  assumes s: "base_st b w0 N D I L w" and n: "(nr, np) \<in> N" and p: "(dr, p) \<in> D"
  shows "wp (node_op np (node_set_dodag r) w) (\<lambda>w'. wp (dodag_op p dodag_set_changed w') (\<lambda>w''.
    base_st b w0 N D I L w'' \<and> members w'' = members w
    \<and> node_in w'' = (node_in w)(nr \<mapsto> if 0 \<le> sint (dr_version r) then Some r else None)))"
proof (rule wp_mono [OF node_op_base [OF s n]])
  show "tracks n_key n_has_changed ROT_Node x (node_set_dodag r x)" for x by (rule node_set_dodag_tracks)
  show "node_good (fst x) \<Longrightarrow> node_good (fst (node_set_dodag r x))" for x
    by (simp add: node_good_def node_set_dodag_tracks)
  fix w' assume w': "base_st b w0 N D I L w' \<and> w_links w' = w_links w \<and> w_dodags w' = w_dodags w \<and>
      (\<exists>n. fam_load np (w_nodes w) = Some n \<and> n_key n = nr \<and> node_good n
         \<and> node_in w' = (node_in w)(nr \<mapsto> node_get_dodag (fst (node_set_dodag r (n, w_head w)))))"
  then have "members w' = members w" by (simp add: members_def)
  with w' show "wp (dodag_op p dodag_set_changed w') (\<lambda>w''. base_st b w0 N D I L w'' \<and> members w'' = members w
      \<and> node_in w'' = (node_in w)(nr \<mapsto> if 0 \<le> sint (dr_version r) then Some r else None))"
    by (intro wp_mono [OF dodag_op_base [OF _ p dodag_set_changed_tracks]])
      (auto simp: same_members_def node_set_dodag_get)
qed

lemma base_load_node:
  assumes "base_st b w0 N D I L w" "(r, p) \<in> N"
  obtains n where "fam_load p (w_nodes w) = Some n" "n_key n = r" "node_in w r = Some (node_get_dodag n)"
proof -
  have ok: "base_ok w" and P: "hash_map (working (w_nodes w)) r = Some p"
    using assms by (auto simp: base_st_def dest: holdsD)
  obtain n where "fam_load p (w_nodes w) = Some n" "n_key n = r"
    by (rule load_working [OF base_okD(1) [OF ok] P])
  then show thesis using that node_in_Some [OF ok P] by blast
qed

lemma base_load_dodag:
  assumes "base_st b w0 N D I L w" "(r, p) \<in> D"
  obtains d where "fam_load p (w_dodags w) = Some d" "d_key d = r" "dodag_ok d"
    "members w r = Some (dom (hash_map (d_nodes d)))"
proof -
  have ok: "base_ok w" and P: "hash_map (working (w_dodags w)) r = Some p"
    using assms by (auto simp: base_st_def dest: holdsD)
  obtain d where "fam_load p (w_dodags w) = Some d" "d_key d = r" "dodag_ok d"
    by (rule load_working [OF base_okD(2) [OF ok] P])
  then show thesis using that members_Some [OF ok P] by blast
qed

lemma dodag_del_node_base:
  assumes s: "base_st b w0 N D I L w" and n: "(nr, np) \<in> N" and p: "(dr, p) \<in> D"
    and R: "members w dr = Some R" "nr \<in> R"
  shows "wp (dodag_del_node p np w) (\<lambda>w'. base_st b w0 N D I L w'
    \<and> node_in w' = (node_in w)(nr \<mapsto> None) \<and> members w' = (members w)(dr \<mapsto> R - {nr}))"
proof -
  obtain node where node: "fam_load np (w_nodes w) = Some node" "n_key node = nr"
    by (rule base_load_node [OF s n])
  obtain d where d: "fam_load p (w_dodags w) = Some d" "d_key d = dr" "dodag_ok d"
      "R = dom (hash_map (d_nodes d))"
    by (rule base_load_dodag [OF s p]) (use R in auto)
  obtain nodes where del: "dodag_hash_del_node nr d = Some (True, d\<lparr>d_nodes := nodes\<rparr>)"
      "dodag_ok (d\<lparr>d_nodes := nodes\<rparr>)" "hash_map nodes = (hash_map (d_nodes d))(nr := None)"
    using dodag_hash_del_node_result [OF d(3), of nr] R(2) d(4) by auto
  note c = dodag_store_base [OF s p d(1), of "d\<lparr>d_nodes := nodes\<rparr>", simplified, OF del(2)]
  have "sint (dr_version null_ref) < 0" by (simp add: null_ref_def)
  then show ?thesis
    using node d(1) del(1)
    by (auto simp: dodag_del_node_def c(2,3) del(3) d(4) intro!: wp_mono [OF move_node [OF c(1) n p]] elim!: wp_mono)
qed

lemma members_ok_remove:
  assumes "members_ok w" "node_in w r = Some (Some dr)" "members w dr = Some R"
    and "node_in w' = (node_in w)(r \<mapsto> None)" "members w' = (members w)(dr \<mapsto> R - {r})"
  shows "members_ok w'"
proof -
  have "r \<notin> S" if "members w x = Some S" "x \<noteq> dr" for x S
    using members_okD(1) [OF assms(1) that(1), of r] assms(2) that(2) by auto
  then show ?thesis
    using assms(1) members_okD(1,2) [OF assms(1,3)] unfolding members_ok_def assms(4,5) by auto
qed

lemma members_ok_insert:
  assumes "members_ok w" "node_in w r = Some None" "members w dr = Some R"
    and "node_in w' = (node_in w)(r \<mapsto> Some dr)" "members w' = (members w)(dr \<mapsto> insert r R)"
  shows "members_ok w'"
proof -
  have "r \<notin> S" if "members w x = Some S" for x S
    using members_okD(1) [OF assms(1) that, of r] assms(2) by auto
  then show ?thesis
    using assms(1) members_okD(1,2) [OF assms(1,3)] assms(3) unfolding members_ok_def assms(4,5)
    by (auto split: if_splits)
qed

text \<open>Adding a node that is in no DODAG.\<close>

lemma dodag_add_fresh:
  assumes s: "base_st b w0 N D I L w" and m: "members_ok w" and n: "(nr, np) \<in> N" and p: "(dr, p) \<in> D"
    and free: "node_in w nr = Some None" and M: "(node_in w)(nr \<mapsto> Some dr) = M"
  shows "wp (do { dodag \<leftarrow> fam_load p (w_dodags w);
          node \<leftarrow> fam_load np (w_nodes w);
          let (was_already_in_dodag, dodag') = dodag_hash_add_node (n_key node) dodag;
          let w = w\<lparr>w_dodags := fam_store p dodag' (w_dodags w)\<rparr>;
          if \<not> was_already_in_dodag then
            do { w \<leftarrow> node_op np (node_set_dodag (d_key dodag')) w;
                 dodag_op p dodag_set_changed w }
          else
            do { c_assert (prev \<noteq> None);
                 c_assert (dr_version (n_dodag node) = dr_version (d_key dodag')
                   \<and> dr_dodagid (n_dodag node) = dr_dodagid (d_key dodag'));
                 Some w } })
    (\<lambda>w'. st b w0 N D I L w' \<and> node_in w' = M)"
proof -
  obtain node where node: "fam_load np (w_nodes w) = Some node" "n_key node = nr"
    by (rule base_load_node [OF s n])
  obtain d where d: "fam_load p (w_dodags w) = Some d" "d_key d = dr" "dodag_ok d"
      "members w dr = Some (dom (hash_map (d_nodes d)))"
    by (rule base_load_dodag [OF s p])
  have new: "nr \<notin> dom (hash_map (d_nodes d))" and ver: "0 \<le> sint (dr_version dr)"
    using members_okD(1,2) [OF m d(4)] free by auto
  obtain d' where d': "dodag_hash_add_node nr d = (False, d')"
    using dodag_hash_add_node_result(1) [OF d(3), of nr] new by (cases "dodag_hash_add_node nr d") auto
  then have eq: "dodag_ok d'" "d_key d' = d_key d" "d_has_changed d' = d_has_changed d"
      "hash_map (d_nodes d') = (hash_map (d_nodes d))(nr \<mapsto> nr)"
    using dodag_hash_add_node_result [OF d(3), of nr] by simp_all
  note c = dodag_store_base [OF s p d(1) eq(2,3,1)]
  have "st b w0 N D I L w'' \<and> node_in w'' = M"
    if "base_st b w0 N D I L w''" "members w'' = (members w)(dr \<mapsto> dom (hash_map (d_nodes d')))"
      "node_in w'' = (node_in w)(nr \<mapsto> Some dr)" for w''
    using that members_ok_insert [OF m free d(4), of w''] by (simp add: st_def eq(4) M)
  then show ?thesis
    using node d d' eq(2) ver c
    by (auto intro!: wp_mono [OF move_node [OF c(1) n p]] elim!: wp_mono)
qed

text \<open>The node is in the DODAG afterwards, and in no other.\<close>

lemma dodag_add_node_joins:
  assumes s: "st b w0 N D I L w" and n: "(nr, np) \<in> N" and p: "(dr, p) \<in> D"
  shows "wp (dodag_add_node p np w) (\<lambda>w'. st b w0 N D I L w' \<and> node_in w' = (node_in w)(nr \<mapsto> Some dr))"
proof -
  have b: "base_st b w0 N D I L w" and m: "members_ok w" using s by (simp_all add: st_def)
  have ok: "base_ok w" using b by (simp add: base_st_def)
  obtain node where node: "fam_load np (w_nodes w) = Some node" "n_key node = nr"
      "node_in w nr = Some (node_get_dodag node)"
    by (rule base_load_node [OF b n])
  obtain d where d: "fam_load p (w_dodags w) = Some d" "d_key d = dr" "dodag_ok d"
      "members w dr = Some (dom (hash_map (d_nodes d)))"
    by (rule base_load_dodag [OF b p])
  show ?thesis
  proof (cases "node_get_dodag node")
    case None
    then show ?thesis
      using dodag_add_fresh [OF b m n p _ refl, of None] node d by (simp add: dodag_add_node_def)
  next
    case (Some ref)
    then have ver: "0 \<le> sint (dr_version ref)" and ref: "n_dodag node = ref"
      by (auto simp: node_get_dodag_def split: if_splits)
    show ?thesis
    proof (cases "ref = dr")
      case True
      then have "nr \<in> dom (hash_map (d_nodes d))" using members_okD(1) [OF m d(4)] node(3) Some by simp
      then obtain d' where d': "dodag_hash_add_node nr d = (True, d')"
        using dodag_hash_add_node_result(1) [OF d(3), of nr] by (cases "dodag_hash_add_node nr d") auto
      then have eq: "dodag_ok d'" "d_key d' = d_key d" "d_has_changed d' = d_has_changed d"
          "dom (hash_map (d_nodes d')) = dom (hash_map (d_nodes d))"
        using dodag_hash_add_node_result [OF d(3), of nr] \<open>nr \<in> dom (hash_map (d_nodes d))\<close> by auto
      note c = dodag_store_base [OF b p d(1) eq(2,3,1)]
      have "same_members w (w\<lparr>w_dodags := fam_store p d' (w_dodags w)\<rparr>)"
        using c(2,3) d(4) eq(4) by (simp add: same_members_def fun_upd_idem)
      moreover have "node_in w = (node_in w)(nr \<mapsto> Some dr)" using node(3) Some True by (simp add: fun_upd_idem)
      ultimately have "st b w0 N D I L (w\<lparr>w_dodags := fam_store p d' (w_dodags w)\<rparr>)
          \<and> node_in (w\<lparr>w_dodags := fam_store p d' (w_dodags w)\<rparr>) = (node_in w)(nr \<mapsto> Some dr)"
        using c(1) m same_members_ok by (auto simp: st_def same_members_def)
      then show ?thesis
        using node d Some True d' eq(2) ver ref by (simp add: dodag_add_node_def)
    next
      case False
      then have neq: "dr_version ref \<noteq> dr_version dr \<or> dr_dodagid ref \<noteq> dr_dodagid dr"
        by (metis di_dodag_ref.surjective old.unit.exhaust)
      obtain R where R: "members w ref = Some R" "nr \<in> R"
        using members_okD(3) [OF m, of nr ref] members_okD(1) [OF m] node(3) Some by auto
      then obtain q where q: "hash_map (working (w_dodags w)) ref = Some q"
        by (auto simp: members_def fam_view_def split: option.splits)
      then have "0 < q" using working_pos [OF base_okD(2) [OF ok]] by blast
      have b': "base_st b w0 N (insert (ref, q) D) I L w" using b q by (auto simp: base_st_def holds_def)
      have del: "wp (dodag_del_node q np w) (\<lambda>w'. base_st b w0 N D I L w' \<and> members_ok w' \<and> node_in w' = (node_in w)(nr \<mapsto> None))"
      proof (rule wp_mono [OF dodag_del_node_base [OF b' n _ R]])
        fix w' assume w': "base_st b w0 N (insert (ref, q) D) I L w' \<and> node_in w' = (node_in w)(nr \<mapsto> None)
            \<and> members w' = (members w)(ref \<mapsto> R - {nr})"
        then have "members_ok w'" using members_ok_remove [OF m, of nr ref R w'] R node(3) Some by simp
        with w' show "base_st b w0 N D I L w' \<and> members_ok w' \<and> node_in w' = (node_in w)(nr \<mapsto> None)"
          by (auto simp: base_st_def holds_def)
      qed simp
      show ?thesis
        using node d Some ver neq q \<open>0 < q\<close>
        apply (simp add: dodag_add_node_def rpldata_find_dodag [OF ok])
        apply (rule wp_mono [OF del])
        subgoal for x using dodag_add_fresh [of b w0 N D I L x, OF _ _ n p _ refl, of "Some ref"] by auto
        done
    qed
  qed
qed

lemma dodag_add_node_st [wp_intro]:
  assumes "st b w0 N D I L w" "(nr, np) \<in> N" "(dr, p) \<in> D"
  shows "wp (dodag_add_node p np w) (st b w0 N D I L)"
  by (rule wp_mono [OF dodag_add_node_joins [OF assms]]) simp

lemma node_op_dodags: "node_op p f w = Some w' \<Longrightarrow> members w' = members w"
  by (auto simp: node_op_def members_def case_prod_beta split: bind_splits)

lemma st_insert_node: "st b w0 N D I L w \<Longrightarrow> hash_map (working (w_nodes w)) r = Some p \<Longrightarrow> st b w0 (insert (r, p) N) D I L w"
  by (simp add: st_def base_st_def holds_def)

lemma st_drop_node: "st b w0 (insert x N) D I L w \<Longrightarrow> st b w0 N D I L w"
  by (simp add: st_def base_st_def holds_def)

lemma st_insert_link: "st b w0 N D I L w \<Longrightarrow> hash_map (working (w_links w)) r = Some p \<Longrightarrow> st b w0 N D I (insert (r, p) L) w"
  by (simp add: st_def base_st_def holds_def)

lemma st_drop_link: "st b w0 N D I (insert x L) w \<Longrightarrow> st b w0 N D I L w"
  by (simp add: st_def base_st_def holds_def)

text \<open>A setter that only tracks the node leaves it in its DODAG.\<close>

lemma node_op_in:
  assumes s: "st b w0 N D I L w" and p: "(r, p) \<in> N" and f: "\<And>x. node_tracks x (f x)"
  shows "wp (node_op p f w) (\<lambda>w'. st b w0 N D I L w' \<and> node_in w' = node_in w)"
proof (rule wp_mono [OF node_op_st [OF s p f]])
  have ok: "base_ok w" and P: "hash_map (working (w_nodes w)) r = Some p"
    using s p by (auto simp: st_def base_st_def dest: holdsD)
  obtain n where n: "fam_load p (w_nodes w) = Some n" by (rule st_load_node [OF s p])
  obtain n' h where f': "f (n, w_head w) = (n', h)" by fastforce
  fix w' assume st: "st b w0 N D I L w'" and "node_op p f w = Some w'"
  then have "w' = w\<lparr>w_nodes := fam_store p n' (w_nodes w), w_head := h\<rparr>" using n f' by (simp add: node_op_def)
  moreover have "node_get_dodag n' = node_get_dodag n" using node_tracks_dodag [OF f, of "(n, w_head w)"] f' by simp
  ultimately show "st b w0 N D I L w' \<and> node_in w' = node_in w"
    using st fam_view_Some [OF base_okD(1) [OF ok] P n, of node_get_dodag]
    by (simp add: node_in_def fam_view_store [OF base_okD(1) [OF ok] P] fun_upd_idem)
qed

lemma dodag_set_nodes_changed_in:
  assumes s: "st b w0 N D I L w" and p: "(dr, p) \<in> D"
  shows "wp (dodag_set_nodes_changed p w) (\<lambda>w'. st b w0 N D I L w' \<and> node_in w' = node_in w)"
proof -
  have b: "base_st b w0 N D I L w" using s by (simp add: st_def)
  obtain d where d: "fam_load p (w_dodags w) = Some d" "dodag_ok d" "members w dr = Some (dom (hash_map (d_nodes d)))"
    by (rule base_load_dodag [OF b p])
  let ?R = "dom (hash_map (d_nodes d))" and ?M = "node_in w"
  have "wp (each (\<lambda>(_, ref) w.
                  do { (np, _, w) \<leftarrow> rpldata_get_node ref HVM_FailIfNonExistant w;
                       c_assert (np \<noteq> 0);
                       node \<leftarrow> fam_load np (w_nodes w);
                       dodag \<leftarrow> fam_load p (w_dodags w);
                       dodag_ref \<leftarrow> node_get_dodag node;
                       c_assert (dodag_ref = d_key dodag);
                       node_op np (node_update_from_dodag (Some dodag)) w }) (hash_items (d_nodes d)) w)
          (\<lambda>w. st b w0 N D I L w \<and> members w dr = Some ?R \<and> node_in w = ?M)"
  proof (rule wp_each_inv)
    show "st b w0 N D I L w \<and> members w dr = Some ?R \<and> node_in w = ?M" using s d by simp
    fix x w
    assume item: "x \<in> set (hash_items (d_nodes d))" and w: "st b w0 N D I L w \<and> members w dr = Some ?R \<and> node_in w = ?M"
    have nodes_ok: "hash_ok (d_nodes d)" using d(2) by (simp add: dodag_ok_def)
    obtain k ref where "x = (k, ref)" by fastforce
    with item hash_map_items [OF nodes_ok] have kv: "x = (k, ref)" "hash_map (d_nodes d) k = Some ref" by simp_all
    then have x: "x = (ref, ref)" and ref: "ref \<in> ?R" using d(2) by (auto simp: dodag_ok_def)
    have ok: "base_ok w" and m: "members_ok w" and b': "base_st b w0 N D I L w" using w by (simp_all add: st_def base_st_def)
    have "node_in w ref = Some (Some dr)" using members_okD(1) [OF m] w ref by blast
    then obtain np where np: "hash_map (working (w_nodes w)) ref = Some np"
      by (auto simp: node_in_def fam_view_def split: option.splits)
    have pos: "0 < np" by (rule working_pos [OF base_okD(1) [OF ok] np])
    have s': "st b w0 (insert (ref, np) N) D I L w" using w np st_insert_node by blast
    obtain node where node: "fam_load np (w_nodes w) = Some node" "node_in w ref = Some (node_get_dodag node)"
      using base_load_node [of b w0 "insert (ref, np) N" D I L w ref np] s' by (auto simp: st_def)
    have get: "node_get_dodag node = Some dr" using node(2) \<open>node_in w ref = Some (Some dr)\<close> by simp
    obtain d' where d': "fam_load p (w_dodags w) = Some d'" "d_key d' = dr" by (rule base_load_dodag [OF b' p])
    show "wp ((case x of (_, ref) \<Rightarrow> \<lambda>w.
                  do { (np, _, w) \<leftarrow> rpldata_get_node ref HVM_FailIfNonExistant w;
                       c_assert (np \<noteq> 0);
                       node \<leftarrow> fam_load np (w_nodes w);
                       dodag \<leftarrow> fam_load p (w_dodags w);
                       dodag_ref \<leftarrow> node_get_dodag node;
                       c_assert (dodag_ref = d_key dodag);
                       node_op np (node_update_from_dodag (Some dodag)) w }) w)
          (\<lambda>w. st b w0 N D I L w \<and> members w dr = Some ?R \<and> node_in w = ?M)"
      using node(1) get d' np pos w
      by (auto simp: x rpldata_find_node [OF ok] node_op_dodags tracking
          intro!: wp_mono [OF node_op_in [OF s' insertI1]] intro: st_drop_node)
  qed
  then show ?thesis using d(1) by (auto simp: dodag_set_nodes_changed_def elim: wp_mono)
qed

lemma dodag_set_nodes_changed_st [wp_intro]:
  assumes "st b w0 N D I L w" "(dr, p) \<in> D"
  shows "wp (dodag_set_nodes_changed p w) (st b w0 N D I L)"
  by (rule wp_mono [OF dodag_set_nodes_changed_in [OF assms]]) simp

subsection \<open>rpl\_instance.c\<close>

lemma rpl_instance_add_dodag_st [wp_intro]:
  assumes s: "st b w0 N D I L w" and i: "(ir, ip) \<in> I" and p: "(dr, p) \<in> D"
  shows "wp (rpl_instance_add_dodag ip p w) (st b w0 N D I L)"
proof -
  have ok: "base_ok w" and P: "hash_map (working (w_rpl_instances w)) ir = Some ip"
    using s i by (auto simp: st_def base_st_def dest: holdsD)
  obtain x where x: "fam_load ip (w_rpl_instances w) = Some x" "i_key x = ir" "instance_ok x"
    by (rule load_working [OF base_okD(3) [OF ok] P])
  obtain d where d: "fam_load p (w_dodags w) = Some d" by (rule st_load_dodag [OF s p])
  obtain was x' where add: "rpl_instance_hash_add_dodag (d_key d) x = (was, x')" by fastforce
  then have x': "instance_ok x'" "i_key x' = i_key x" "i_has_changed x' = i_has_changed x"
    using rpl_instance_hash_add_dodag_result [OF x(3), of "d_key d"] by simp_all
  let ?w = "w\<lparr>w_rpl_instances := fam_store ip x' (w_rpl_instances w)\<rparr>"
  have "instance_tracks (x, w_head w) (x', w_head w)" using x' by (simp add: tracks_def)
  note fam = setter_family [OF base_okD(3,7) [OF ok] P x(1) this x'(1), simplified]
  have "fixed w ?w" by (simp add: fixed_def)
  then have "base_ok ?w"
    using base_okD [OF ok] fam(1,2) wsn_ok_fixed [of w ?w] alloc_ok_live [of w ?w]
    by (simp add: base_ok_def families_ok_def pending_ok_def)
  moreover have "same_members w ?w" by (simp add: same_members_def node_in_def members_def)
  ultimately have s': "st b w0 N D I L ?w"
    using s fixed_trans [OF _ \<open>fixed w ?w\<close>] same_members_ok
    by (auto simp: st_def base_st_def links_same_def holds_def)
  then show ?thesis
    using x d add
    by (auto simp: rpl_instance_add_dodag_def Let_def dodag_set_rpl_instance_tracks rpl_instance_set_changed_tracks
        intro!: wp_mono [OF dodag_op_st [OF s' p]] rpl_instance_op_st [OF _ i])
qed

subsection \<open>link.c\<close>

lemma st_get_links:
  assumes "st b w0 N D I L w"
  shows "rpldata_get_links 0 w = Some (Some (working (w_links w)))"
proof -
  have ok: "base_ok w" using assms by (simp add: st_def base_st_def)
  show ?thesis
    using wsn_at_0 [OF base_okD(9) [OF ok]] fam_container_eq [OF base_okD(4) [OF ok]] working_Some [OF base_okD(4) [OF ok]]
    by (simp add: rpldata_get_links_def wsn_records_def)
qed

lemma link_update_st [wp_intro]:
  assumes s: "st b w0 N D I L w" and p: "(r, p) \<in> L"
  shows "wp (link_update p time n w) (st False w0 N D I L)"
proof -
  have "link_tracks x ((\<lambda>(link, head). (link_count time n link, head)) x)" for x
    by (cases x) (simp add: link_count_tracks)
  then show ?thesis
    unfolding link_update_def
    by (auto simp: link_revive_tracks intro!: wp_mono [OF link_op_st [OF s p]]
        wp_mono [OF link_update_old_field_st [OF _ p]] link_op_st [OF _ p])
qed

lemma links_deprecate_all_from_st [wp_intro]:
  assumes s: "st b w0 N D I L w"
  shows "wp (links_deprecate_all_from r w) (st False w0 N D I L)"
proof -
  let ?A = "set (hash_items (working (w_links w)))"
  have "hash_ok (working (w_links w))"
    using working_ok [OF base_okD(4)] s by (auto simp: st_def base_st_def container_ok_def)
  then have "st False w0 N D I (L \<union> ?A) w"
    using s hash_map_items [of "working (w_links w)"] by (auto simp: st_def base_st_def holds_def)
  then have "wp (each (\<lambda>(_, p). link_op p (link_deprecate_from r)) (hash_items (working (w_links w))) w)
      (st False w0 N D I (L \<union> ?A))"
    by (rule wp_each_inv) (auto intro!: link_op_st link_deprecate_from_tracks)
  then show ?thesis
    unfolding links_deprecate_all_from_def
    by (auto simp: st_get_links [OF s] st_def base_st_def holds_def elim!: wp_mono)
qed

subsection \<open>The rules of the handlers\<close>

text \<open>The same rules for a pointer that the code holds, in the order in which a proof uses them.\<close>

lemma held: "p \<in> snd ` N \<Longrightarrow> \<exists>r. (r, p) \<in> N"
  by auto

lemma handler_get:
  assumes "st b w0 N D I L w"
  shows "(\<And>p c w'. st b w0 (insert (nr, p) N) D I L w' \<Longrightarrow> Q (p, c, w')) \<Longrightarrow> wp (rpldata_get_node nr HVM_CreateIfNonExistant w) Q"
    and "(\<And>p c w'. st b w0 N D (insert (ir, p) I) L w' \<Longrightarrow> Q' (p, c, w')) \<Longrightarrow> wp (rpldata_get_rpl_instance ir HVM_CreateIfNonExistant w) Q'"
    and "(\<And>p c w'. st b w0 N (insert (dodag_ref_init di dv, p) D) I L w' \<Longrightarrow> Q'' (p, c, w')) \<Longrightarrow>
      wp (rpldata_get_dodag (dodag_ref_init di dv) HVM_CreateIfNonExistant w) Q''"
    and "(\<And>p c w'. st False w0 N D I (insert (lr, p) L) w' \<Longrightarrow> Q3 (p, c, w')) \<Longrightarrow> wp (rpldata_get_link lr HVM_CreateIfNonExistant w) Q3"
proof -
  have "0 \<le> sint (dr_version (dodag_ref_init di dv))"
    using bit_last_iff [of "ucast dv :: u16"] bit_imp_le_length [of dv 15]
    by (auto simp: dodag_ref_init_def bit_simps)
  note get_dodag = rpldata_get_dodag_st [OF assms this]
  show "(\<And>p c w'. st b w0 (insert (nr, p) N) D I L w' \<Longrightarrow> Q (p, c, w')) \<Longrightarrow> wp (rpldata_get_node nr HVM_CreateIfNonExistant w) Q"
    by (rule wp_mono [OF rpldata_get_node_st [OF assms]]) auto
  show "(\<And>p c w'. st b w0 N D (insert (ir, p) I) L w' \<Longrightarrow> Q' (p, c, w')) \<Longrightarrow> wp (rpldata_get_rpl_instance ir HVM_CreateIfNonExistant w) Q'"
    by (rule wp_mono [OF rpldata_get_rpl_instance_st [OF assms]]) auto
  show "(\<And>p c w'. st b w0 N (insert (dodag_ref_init di dv, p) D) I L w' \<Longrightarrow> Q'' (p, c, w')) \<Longrightarrow>
      wp (rpldata_get_dodag (dodag_ref_init di dv) HVM_CreateIfNonExistant w) Q''"
    by (rule wp_mono [OF get_dodag]) auto
  show "(\<And>p c w'. st False w0 N D I (insert (lr, p) L) w' \<Longrightarrow> Q3 (p, c, w')) \<Longrightarrow> wp (rpldata_get_link lr HVM_CreateIfNonExistant w) Q3"
    by (rule wp_mono [OF rpldata_get_link_st [OF assms]]) auto
qed

lemma handler_node:
  assumes "st b w0 N D I L w" "p \<in> snd ` N"
  shows "(\<And>x. node_tracks x (f x)) \<Longrightarrow> (\<And>w'. st b w0 N D I L w' \<Longrightarrow> Q w') \<Longrightarrow> wp (node_op p f w) Q"
    and "(\<And>w'. st b w0 N D I L w' \<Longrightarrow> Q w') \<Longrightarrow> wp (node_set_ip p address w) Q"
    and "(\<And>w'. st b w0 N D I L w' \<Longrightarrow> Q w') \<Longrightarrow> wp (node_add_packet_count p n w) Q"
    and "(\<And>n. fam_load p (w_nodes w) = Some n \<Longrightarrow> Q1 n) \<Longrightarrow> wp (fam_load p (w_nodes w)) Q1"
proof -
  obtain r where r: "(r, p) \<in> N" using assms(2) by auto
  note rules = node_op_st [OF assms(1) r] node_set_ip_st [OF assms(1) r] node_add_packet_count_st [OF assms(1) r]
  show "(\<And>x. node_tracks x (f x)) \<Longrightarrow> (\<And>w'. st b w0 N D I L w' \<Longrightarrow> Q w') \<Longrightarrow> wp (node_op p f w) Q"
    by (rule wp_mono [OF rules(1)])
  show "(\<And>w'. st b w0 N D I L w' \<Longrightarrow> Q w') \<Longrightarrow> wp (node_set_ip p address w) Q"
    by (rule wp_mono [OF rules(2)])
  show "(\<And>w'. st b w0 N D I L w' \<Longrightarrow> Q w') \<Longrightarrow> wp (node_add_packet_count p n w) Q"
    by (rule wp_mono [OF rules(3)])
  show "(\<And>n. fam_load p (w_nodes w) = Some n \<Longrightarrow> Q1 n) \<Longrightarrow> wp (fam_load p (w_nodes w)) Q1"
    by (rule st_load_node [OF assms(1) r]) auto
qed

lemma handler_dodag:
  assumes "st b w0 N D I L w" "p \<in> snd ` D"
  shows "(\<And>x. dodag_tracks x (f x)) \<Longrightarrow> (\<And>x. d_nodes (fst (f x)) = d_nodes (fst x))
      \<Longrightarrow> (\<And>w'. st b w0 N D I L w' \<Longrightarrow> Q w') \<Longrightarrow> wp (dodag_op p f w) Q"
    and "np \<in> snd ` N \<Longrightarrow> (\<And>w'. st b w0 N D I L w' \<Longrightarrow> Q w') \<Longrightarrow> wp (dodag_add_node p np w) Q"
    and "ip \<in> snd ` I \<Longrightarrow> (\<And>w'. st b w0 N D I L w' \<Longrightarrow> Q w') \<Longrightarrow> wp (rpl_instance_add_dodag ip p w) Q"
    and "(\<And>w'. st b w0 N D I L w' \<Longrightarrow> Q w') \<Longrightarrow> wp (dodag_set_nodes_changed p w) Q"
    and "(\<And>d. fam_load p (w_dodags w) = Some d \<Longrightarrow> Q1 d) \<Longrightarrow> wp (fam_load p (w_dodags w)) Q1"
proof -
  obtain r where r: "(r, p) \<in> D" using assms(2) by auto
  show "(\<And>x. dodag_tracks x (f x)) \<Longrightarrow> (\<And>x. d_nodes (fst (f x)) = d_nodes (fst x))
      \<Longrightarrow> (\<And>w'. st b w0 N D I L w' \<Longrightarrow> Q w') \<Longrightarrow> wp (dodag_op p f w) Q"
    by (rule wp_mono [OF dodag_op_st [OF assms(1) r]])
  show "np \<in> snd ` N \<Longrightarrow> (\<And>w'. st b w0 N D I L w' \<Longrightarrow> Q w') \<Longrightarrow> wp (dodag_add_node p np w) Q"
    by (drule held, erule exE, rule wp_mono [OF dodag_add_node_st [OF assms(1) _ r]])
  show "ip \<in> snd ` I \<Longrightarrow> (\<And>w'. st b w0 N D I L w' \<Longrightarrow> Q w') \<Longrightarrow> wp (rpl_instance_add_dodag ip p w) Q"
    by (drule held, erule exE, rule wp_mono [OF rpl_instance_add_dodag_st [OF assms(1) _ r]])
  show "(\<And>w'. st b w0 N D I L w' \<Longrightarrow> Q w') \<Longrightarrow> wp (dodag_set_nodes_changed p w) Q"
    by (rule wp_mono [OF dodag_set_nodes_changed_st [OF assms(1) r]])
  show "(\<And>d. fam_load p (w_dodags w) = Some d \<Longrightarrow> Q1 d) \<Longrightarrow> wp (fam_load p (w_dodags w)) Q1"
    by (rule st_load_dodag [OF assms(1) r]) auto
qed

lemma handler_others:
  assumes "st b w0 N D I L w"
  shows "p \<in> snd ` I \<Longrightarrow> (\<And>x. instance_tracks x (f x)) \<Longrightarrow> (\<And>x. instance_ok (fst (f x)) = instance_ok (fst x))
      \<Longrightarrow> (\<And>w'. st b w0 N D I L w' \<Longrightarrow> Q w') \<Longrightarrow> wp (rpl_instance_op p f w) Q"
    and "lp \<in> snd ` L \<Longrightarrow> (\<And>w'. st False w0 N D I L w' \<Longrightarrow> Q w') \<Longrightarrow> wp (link_update lp time n w) Q"
    and "(\<And>w'. st False w0 N D I L w' \<Longrightarrow> Q w') \<Longrightarrow> wp (links_deprecate_all_from lr w) Q"
  using assms
  by (auto intro!: wp_mono [OF links_deprecate_all_from_st] elim: wp_mono [OF rpl_instance_op_st] wp_mono [OF link_update_st])

lemma handler_if:
  assumes "st b w0 N D I L w"
  shows "(c \<Longrightarrow> wp m (st b w0 N D I L)) \<Longrightarrow> (\<And>w'. st b w0 N D I L w' \<Longrightarrow> Q w') \<Longrightarrow> wp (if c then m else Some w) Q"
  using assms by (cases c) (auto elim: wp_mono)

lemmas handler_rules = handler_get handler_node handler_dodag handler_others

declare dodag_update_from_dio_tracks [tracking] dodag_update_from_dodag_config_tracks [tracking]
  dodag_update_from_dodag_prefix_info_tracks [tracking] rpl_instance_set_mop_tracks [tracking]

end
