(* ===== verification/Handlers.thy ===== *)
theory Handlers
  imports CollectorInv
begin

section \<open>The handlers keep the invariant\<close>

text \<open>
  The four handlers of \<open>src/src/data_collector/rpl_collector.c\<close>: none of them fails in a state that
  satisfies the invariant, whatever packet it is given, and each leaves such a state. A No-Path
  DAO deletes a link, whose deletion is looked up in the version before the next one: this needs
  that the link is in it, hence that no change of a link is pending when the packet comes
  (\<open>links_quiet\<close>), which is so after every commit.
\<close>

subsection \<open>Deleting a link\<close>

definition links_quiet :: "world \<Rightarrow> bool" where
  "links_quiet w \<longleftrightarrow> (\<forall>(t, r)\<in>set (link_events w). t = RET_Deleted)
     \<and> (\<forall>r p link. hash_map (working (w_links w)) r = Some p \<longrightarrow> fam_load p (w_links w) = Some link \<longrightarrow>
          \<not> l_has_changed link)"

lemma rpldata_get_working_links: "base_ok w \<Longrightarrow> rpldata_get_links 0 w = Some (Some (working (w_links w)))"
  using wsn_at_0 [OF base_okD(9)] fam_container_eq [OF base_okD(4)] working_Some [OF base_okD(4)]
  by (auto simp: rpldata_get_links_def wsn_records_def)

lemma rpldata_del_link_result:
  assumes ok: "base_ok w"
  shows "rpldata_del_link ref w =
    (case hash_map (working (w_links w)) ref of
       None \<Rightarrow> Some (0, w)
     | Some p \<Rightarrow> Some (p, w\<lparr>w_links := fam_set_container 0 (snd (the (hash_delete (working (w_links w)) ref))) (w_links w)\<rparr>))"
    and "fam_remove ref (snd (the (hash_delete (working (w_links w)) ref))) (w_links w)"
proof -
  let ?c = "working (w_links w)"
  have c: "hash_ok ?c" using working_ok [OF base_okD(4) [OF ok]] by (simp add: container_ok_def)
  have ver: "wsn_at 0 w = Some (w_wsn_versions w 0)" "x_links_version (w_wsn_versions w 0) = 0"
    using wsn_at_0 [OF base_okD(9) [OF ok]] by (simp_all add: wsn_records_def)
  obtain c' where c': "hash_delete ?c ref = Some (hash_map ?c ref \<noteq> None, c')" "hash_ok c'"
      "hash_items c' = filter (\<lambda>(k', v). k' \<noteq> ref) (hash_items ?c)"
    using hash_delete_result [OF c] by blast
  then show "fam_remove ref (snd (the (hash_delete ?c ref))) (w_links w)"
    by (simp add: fam_remove_def hash_map_filter)
  show "rpldata_del_link ref w = (case hash_map ?c ref of
       None \<Rightarrow> Some (0, w)
     | Some p \<Rightarrow> Some (p, w\<lparr>w_links := fam_set_container 0 (snd (the (hash_delete ?c ref))) (w_links w)\<rparr>))"
  proof (cases "hash_find_el ?c ref")
    case None
    then show ?thesis
      using c by (simp add: rpldata_del_link_def ver rpldata_get_working_links [OF ok] hash_find_def hash_map_find)
  next
    case (Some e)
    then have e: "e \<in> set (hc_els ?c)" by (auto dest: hash_find_el_Some)
    then show ?thesis
      using Some c hash_it_delete_at [OF c e]
      by (auto simp: rpldata_del_link_def ver rpldata_get_working_links [OF ok] hash_find_def hash_map_find
          hash_it_value_at hash_delete_def)
  qed
qed

text \<open>The state after a working link has been taken out and its deletion recorded.\<close>

lemma link_deleted_base:
  assumes ok: "base_ok w" and quiet: "links_quiet w" and p: "hash_map (working (w_links w)) ref = Some p"
    and c: "fam_remove ref c (w_links w)"
    and w': "w' = w\<lparr>w_links := fam_set_container 0 c (w_links w), w_head := w_head w @ [ROT_Link RET_Deleted ref]\<rparr>"
  shows "base_ok w'" "fixed w w'" "same_members w w'" "links_quiet w'"
proof -
  note fam = base_okD(4) [OF ok]
  obtain link where link: "fam_load p (w_links w) = Some link" "l_key link = ref" by (rule load_working [OF fam p])
  have "\<not> l_has_changed link" "\<forall>(t, r)\<in>set (link_events w). t = RET_Deleted"
    using quiet p link by (auto simp: links_quiet_def)
  then have pend: "fam_pending l_has_changed (fam_set_container 0 c (w_links w)) (link_events w @ [(RET_Deleted, ref)])"
    using fam_remove_pending [OF fam c base_okD(8) [OF ok] p] link by (simp add: fam_load_def)
  show fixed: "fixed w w'"
    using fam_set_container_0 [OF fam] by (simp add: fixed_def w' fam_fixed_def)
  have "keeps_live (w_links w) (fam_set_container 0 c (w_links w))"
    by (simp add: keeps_live_def fam_load_def fam_set_container_0 [OF fam])
  then have "alloc_ok w'" using alloc_ok_live [OF base_okD(10) [OF ok], of w'] by (simp add: w')
  then show "base_ok w'"
    using base_okD [OF ok] fam_remove_ok [OF fam c] pend wsn_ok_fixed [OF _ fixed]
    by (simp add: base_ok_def families_ok_def pending_ok_def w')
  show "same_members w w'" by (simp add: same_members_def node_in_def members_def w')
  show "links_quiet w'"
    using quiet c fam_set_container_0 [OF fam]
    by (auto simp: links_quiet_def w' fam_load_def fam_remove_def split: if_splits)
qed

lemma links_quiet_same: "links_same w w' \<Longrightarrow> links_quiet w \<Longrightarrow> links_quiet w'"
  by (simp add: links_same_def links_quiet_def)

lemma dao_no_path_st:
  assumes s: "st True w0 N D I L w" and quiet: "links_quiet w0" and c: "child \<in> snd ` N" and p: "parent \<in> snd ` N"
  shows "wp (dao_no_path child parent target w) (st False w0 N D I {})"
proof -
  have ok: "base_ok w" and q: "links_quiet w"
    using s quiet links_quiet_same by (auto simp: st_def base_st_def)
  have same: "st False w0 N D I {} w" using s by (simp add: st_def base_st_def holds_def)
  have "st False w0 N D I {} w'"
    if d: "hash_map (working (w_links w)) ref = Some lp" "fam_remove ref c (w_links w)"
      "w' = w\<lparr>w_links := fam_set_container 0 c (w_links w), w_head := w_head w @ [ROT_Link RET_Deleted ref]\<rparr>"
    for ref lp c w'
    using link_deleted_base [OF ok q d] s fixed_trans [of w0 w w'] same_members_ok
    by (auto simp: st_def base_st_def holds_def d(3))
  note deleted = this [OF _ _ refl]
  obtain cn pn where "fam_load child (w_nodes w) = Some cn" "fam_load parent (w_nodes w) = Some pn"
    using st_load_node [OF s] c p by (metis held)
  moreover have "wp (fam_load lp (fam_set_container 0 c (w_links w))) Q"
    if r: "hash_map (working (w_links w)) ref = Some lp" and Q: "\<And>link. l_key link = ref \<Longrightarrow> Q link" for ref lp c Q
  proof -
    obtain link where "fam_load lp (w_links w) = Some link" "l_key link = ref"
      by (rule load_working [OF base_okD(4) [OF ok] r])
    then show ?thesis using Q by (simp add: fam_load_def fam_set_container_0 [OF base_okD(4) [OF ok]])
  qed
  moreover have "hash_map (working (w_links w)) ref \<noteq> Some 0" for ref
    using working_pos [OF base_okD(4) [OF ok], of ref 0] by auto
  ultimately show ?thesis
    using same rpldata_del_link_result [OF ok] deleted
    by (auto simp: dao_no_path_def Let_def rpl_event_link_def split: option.split)
qed

subsection \<open>The handlers\<close>

text \<open>What every handler guarantees, in the state \<open>w0\<close> it started from.\<close>

definition handled :: "world \<Rightarrow> world \<Rightarrow> bool" where
  "handled w0 w \<longleftrightarrow> world_ok w \<and> fixed w0 w"

lemma st_handled: "st b w0 N D I L w \<Longrightarrow> handled w0 w"
  using st_world [of b w0 N D I L w] by (simp add: handled_def) (simp add: st_def base_st_def)


lemma rpl_collector_parse_dio_st:
  assumes "st b w0 N D I L w"
  shows "wp (rpl_collector_parse_dio pkt_info dio dodag_config metric prefix route_info w) (handled w0)"
  unfolding rpl_collector_parse_dio_def
  using assms
  apply (clarsimp split del: if_split)
  apply ((rule handler_rules, assumption, ((simp add: tracking; fail)+)?)
     | (rule handler_if, assumption) | (erule st_handled) | (assumption) | (clarsimp split del: if_split))+
  done


lemma rpl_collector_parse_dis_st:
  assumes "st b w0 N D I L w"
  shows "wp (rpl_collector_parse_dis pkt_info request w) (handled w0)"
  unfolding rpl_collector_parse_dis_def
  using assms
  apply clarsimp
  apply ((rule handler_rules, assumption, ((simp add: tracking; fail)+)?)
     | (rule handler_if, assumption) | (erule st_handled) | (assumption) | (clarsimp split del: if_split))+
  done

lemma dao_path_st:
  assumes "st b w0 N D I L w" "child \<in> snd ` N" "parent \<in> snd ` N"
  shows "wp (dao_path child parent w) (\<lambda>w'. \<exists>L'. st False w0 N D I L' w')"
  unfolding dao_path_def
  using assms
  apply (clarsimp simp: Let_def split del: if_split del: imageE)
  apply ((rule handler_rules, assumption, ((simp add: tracking; fail)+)?)
     | (rule handler_if, assumption) | (rule exI, assumption) | (assumption)
     | (clarsimp simp: Let_def split del: if_split del: imageE))+
  done


lemma handler_branch: "(c \<Longrightarrow> wp m Q) \<Longrightarrow> (\<not> c \<Longrightarrow> wp n Q) \<Longrightarrow> wp (if c then m else n) Q"
  by simp

lemma handler_last: "(c \<Longrightarrow> wp m (handled w0)) \<Longrightarrow> (\<not> c \<Longrightarrow> wp n (handled w0)) \<Longrightarrow> wp (if c then m else n) (handled w0)"
  by simp

lemma handler_option: "(x = None \<Longrightarrow> wp m Q) \<Longrightarrow> (\<And>y. x = Some y \<Longrightarrow> wp (f y) Q)
    \<Longrightarrow> wp (case x of None \<Rightarrow> m | Some y \<Rightarrow> f y) Q"
  by (simp split: option.split)

lemma dao_route_st:
  assumes "st b w0 N D I L w" "child \<in> snd ` N" "parent \<in> snd ` N"
  shows "wp (dao_route pkt_info dao child parent target transit w) (st b w0 N D I L)"
  unfolding dao_route_def
  using assms
  apply (clarsimp simp: Let_def split del: if_split del: imageE)
  apply ((rule handler_rules, assumption, ((simp add: tracking; fail)+)?) | (rule handler_if, assumption)
     | (rule exI, assumption) | (erule st_handled) | (assumption) | (rule handler_branch)
     | (clarsimp simp: Let_def split del: if_split del: imageE))+
  done

lemma data_downward_st:
  assumes "st b w0 N D I L w" "src \<in> snd ` N" "dst \<in> snd ` N"
  shows "wp (data_downward pkt_info rpl_info src dst w) (st b w0 N D I L)"
  unfolding data_downward_def
  using assms
  apply (clarsimp simp: Let_def split del: if_split del: imageE)
  apply ((rule handler_rules, assumption, ((simp add: tracking; fail)+)?) | (rule handler_if, assumption)
     | (rule exI, assumption) | (erule st_handled) | (assumption) | (rule handler_branch)
     | (clarsimp simp: Let_def split del: if_split del: imageE))+
  done

lemma data_upward_st:
  assumes "st b w0 N D I L w" "src \<in> snd ` N" "dst \<in> snd ` N"
  shows "wp (data_upward pkt_info rpl_info src dst w) (\<lambda>w'. \<exists>L'. st False w0 N D I L' w')"
  unfolding data_upward_def
  using assms
  apply (clarsimp simp: Let_def split del: if_split del: imageE)
  apply ((rule handler_rules, assumption, ((simp add: tracking; fail)+)?) | (rule handler_if, assumption)
     | (rule exI, assumption) | (erule st_handled) | (assumption) | (rule handler_branch)
     | (clarsimp simp: Let_def split del: if_split del: imageE))+
  done

lemma data_upward_ok: "st b w0 N D I L w \<Longrightarrow> src \<in> snd ` N \<Longrightarrow> dst \<in> snd ` N
    \<Longrightarrow> wp (data_upward pkt_info rpl_info src dst w) (handled w0)"
  by (rule wp_mono [OF data_upward_st]) (auto intro: st_handled)

lemma data_downward_ok: "st b w0 N D I L w \<Longrightarrow> src \<in> snd ` N \<Longrightarrow> dst \<in> snd ` N
    \<Longrightarrow> wp (data_downward pkt_info rpl_info src dst w) (handled w0)"
  by (rule wp_mono [OF data_downward_st]) (auto intro: st_handled)

lemma rpl_collector_parse_data_st:
  assumes "st b w0 N D I L w"
  shows "wp (rpl_collector_parse_data pkt_info rpl_info w) (handled w0)"
  unfolding rpl_collector_parse_data_def
  using assms
  apply (cases rpl_info; clarsimp simp: Let_def split del: if_split del: imageE)
  apply ((rule handler_rules data_upward_ok data_downward_ok, assumption, ((simp add: tracking; fail)+)?)
     | (rule handler_last) | (rule handler_if, assumption) | (erule st_handled) | (assumption)
     | (clarsimp simp: Let_def split del: if_split del: imageE))+
  done

text \<open>The part of \<open>rpl_collector_parse_dao\<close> up to the transit option, and what follows.\<close>

lemma dao_end_ok:
  assumes "st b w0 N D I L w" "child \<in> snd ` N" "parent \<in> snd ` N"
  shows "wp (case target of None \<Rightarrow> Some w
      | Some target \<Rightarrow> (case transit of None \<Rightarrow> Some w
          | Some transit \<Rightarrow> dao_route pkt_info dao child parent target transit w)) (handled w0)"
  using assms by (auto intro: st_handled elim!: wp_mono [OF dao_route_st] split: option.split)

lemma dao_link_ok:
  assumes s: "st True w0 N D I L w" and q: "links_quiet w0" and c: "child \<in> snd ` N" and p: "parent \<in> snd ` N"
  shows "wp (case transit of
                  None \<Rightarrow> Some w
                | Some transit \<Rightarrow>
                    if 0 < tra_path_lifetime transit then dao_path child parent w
                    else dao_no_path child parent target w) (\<lambda>w'. \<exists>L'. st False w0 N D I L' w')"
  using st_weaken [OF s] dao_path_st [OF s c p] dao_no_path_st [OF s q c p, of target]
  by (auto elim: wp_mono split: option.split)

lemma rpl_collector_parse_dao_st:
  assumes s: "st True w0 N D I L w" and q: "links_quiet w0"
  shows "wp (rpl_collector_parse_dao pkt_info dao target transit w) (handled w0)"
  unfolding rpl_collector_parse_dao_def
  using s
  apply (clarsimp simp: Let_def split del: if_split split del: option.split)
  apply ((rule handler_rules, assumption, ((simp add: tracking; fail)+)?) | (rule handler_if, assumption)
     | (rule wp_mono [OF dao_link_ok [OF _ q]], assumption, simp, simp, erule exE, rule dao_end_ok, assumption, simp, simp)
     | (assumption) | (rule handler_option) | (rule handler_branch) | (clarsimp simp: Let_def split del: if_split))+
  done

end
