(* ===== verification/Versions.thy ===== *)
theory Versions
  imports Handlers
begin

section \<open>The versions of the four kinds of objects\<close>

text \<open>
  The contract \<open>versioned_object\<close> holds of nodes, DODAGs, RPL instances and links: making a
  version of any of them succeeds, leaves the older versions alone and is a snapshot of the
  working objects, none of which counts as changed afterwards.
\<close>

context versioned_object
begin

text \<open>What the code reads of a working object stays, if the copying leaves it alone.\<close>

lemma version_added_view:
  assumes v: "version_added with_prev fam fam'" and fam: "fam_ok key good fam"
    and f: "\<And>x copy x'. dup (reset x) = Some (copy, x') \<Longrightarrow> f x' = f x"
  shows "fam_view f fam' = fam_view f fam"
proof
  fix r show "fam_view f fam' r = fam_view f fam r"
  proof (cases "hash_map (working fam) r")
    case None
    then show ?thesis using v by (simp add: version_added_def fam_view_def)
  next
    case (Some p)
    then have "snapped with_prev changed reset dup fill fam (fm_heap fam') (version_at (fm_last fam') fam') r p"
      using v by (auto simp: version_added_def)
    then have "map_option f (fam_load p fam') = map_option f (fam_load p fam)"
      using f by (auto simp: snapped_def fam_load_def split: if_splits)
    then show ?thesis using v Some by (simp add: version_added_def fam_view_def)
  qed
qed

lemma version_added_live:
  assumes v: "version_added with_prev fam fam'" and fam: "fam_ok key good fam"
  shows "keeps_live fam fam'"
  unfolding keeps_live_def
proof (intro allI impI)
  fix p assume p: "fam_load p fam \<noteq> None"
  show "fam_load p fam' \<noteq> None"
  proof (cases "p \<in> ran (hash_map (working fam))")
    case True
    then obtain r where r: "hash_map (working fam) r = Some p" by (auto simp: ran_def)
    then show ?thesis
      using v snapped_working [OF _ fam r] by (fastforce simp: version_added_def fam_load_def)
  next
    case False
    moreover have "p < hp_next (fm_heap fam)"
      using p fam_okD(1) [OF fam] by (auto simp: fam_load_def heap_ok_def)
    ultimately show ?thesis using p v by (simp add: version_added_def fam_load_def)
  qed
qed

text \<open>A version that is older keeps its objects as well as its references.\<close>

lemma version_added_old:
  assumes v: "version_added with_prev fam fam'" and fam: "fam_ok key good fam"
    and q: "w \<le> fm_last fam" "w \<noteq> 0" "version_at w fam r = Some q"
  shows "version_at w fam' r = Some q" "fam_load q fam' = fam_load q fam"
  using v q old_pointer [OF fam q(3,2)] by (simp_all add: version_added_def fam_load_def)

end

lemma node_good_parts:
  "node_good (node_reset_changed n) = node_good n" "node_good (node_fill_delta fl n prev) = node_good n"
  "node_good (fst (node_dup n)) = node_good n" "node_good (snd (node_dup n)) = node_good n"
  by (simp_all add: node_good_def node_dup_def route_dup_id node_fill_delta_def Let_def)

interpretation node_versions: versioned_object n_key n_has_changed node_reset_changed "\<lambda>node. Some (node_dup node)"
    "node_fill_delta fl" node_good for fl
proof unfold_locales
  show "node_good x \<Longrightarrow> \<exists>copy x'. Some (node_dup x) = Some (copy, x') \<and> n_key copy = n_key x \<and> n_key x' = n_key x
      \<and> n_has_changed copy = n_has_changed x \<and> n_has_changed x' = n_has_changed x \<and> node_good copy \<and> node_good x'" for x
    by (intro exI [of _ "fst (node_dup x)"] exI [of _ "snd (node_dup x)"]) (simp add: node_good_parts)
qed (simp_all add: node_good_parts)

lemma dodag_dup_good:
  assumes "dodag_ok d"
  shows "\<exists>copy. dodag_dup d = Some copy \<and> d_key copy = d_key d \<and> d_has_changed copy = d_has_changed d \<and> dodag_ok copy"
proof -
  obtain nodes where "dodag_dup d = Some (d\<lparr>d_nodes := nodes\<rparr>)" "hash_ok nodes" "hash_items nodes = hash_items (d_nodes d)"
    using dodag_dup_result [OF assms] by blast
  then show ?thesis using assms by (simp add: dodag_ok_def hash_map_def)
qed

interpretation dodag_versions: versioned_object d_key d_has_changed dodag_reset_changed
    "\<lambda>dodag. map_option (\<lambda>copy. (copy, dodag)) (dodag_dup dodag)" "\<lambda>copy _. copy" dodag_ok
proof unfold_locales
  show "dodag_ok x \<Longrightarrow> dodag_ok (dodag_reset_changed x)" for x by (simp add: dodag_reset_changed_def dodag_ok_def)
  show "dodag_ok x \<Longrightarrow> \<exists>copy x'. map_option (\<lambda>copy. (copy, x)) (dodag_dup x) = Some (copy, x') \<and> d_key copy = d_key x
      \<and> d_key x' = d_key x \<and> d_has_changed copy = d_has_changed x \<and> d_has_changed x' = d_has_changed x
      \<and> dodag_ok copy \<and> dodag_ok x'" for x
    using dodag_dup_good [of x] by auto
qed (simp_all add: dodag_reset_changed_def)

lemma rpl_instance_dup_good:
  assumes "instance_ok i"
  shows "\<exists>copy. rpl_instance_dup i = Some copy \<and> i_key copy = i_key i \<and> i_has_changed copy = i_has_changed i
    \<and> instance_ok copy"
proof -
  obtain dodags where "rpl_instance_dup i = Some (i\<lparr>i_dodags := dodags\<rparr>)" "hash_ok dodags"
      "hash_items dodags = hash_items (i_dodags i)"
    using rpl_instance_dup_result [OF assms] by blast
  then show ?thesis using assms by (simp add: instance_ok_def hash_map_def)
qed

interpretation rpl_instance_versions: versioned_object i_key i_has_changed rpl_instance_reset_changed
    "\<lambda>rpl_instance. map_option (\<lambda>copy. (copy, rpl_instance)) (rpl_instance_dup rpl_instance)" "\<lambda>copy _. copy" instance_ok
proof unfold_locales
  show "instance_ok x \<Longrightarrow> instance_ok (rpl_instance_reset_changed x)" for x
    by (simp add: rpl_instance_reset_changed_def instance_ok_def)
  show "instance_ok x \<Longrightarrow> \<exists>copy x'. map_option (\<lambda>copy. (copy, x)) (rpl_instance_dup x) = Some (copy, x')
      \<and> i_key copy = i_key x \<and> i_key x' = i_key x \<and> i_has_changed copy = i_has_changed x
      \<and> i_has_changed x' = i_has_changed x \<and> instance_ok copy \<and> instance_ok x'" for x
    using rpl_instance_dup_good [of x] by auto
qed (simp_all add: rpl_instance_reset_changed_def)

interpretation link_versions: versioned_object l_key l_has_changed link_reset_changed
    "\<lambda>link. Some (link_dup link, link)" "\<lambda>copy _. copy" "\<lambda>_. True"
  by unfold_locales (auto simp: link_reset_changed_def link_dup_def)

subsection \<open>The four functions that make a version\<close>

abbreviation node_version_added :: "world \<Rightarrow> (di_node_ref, di_node) family \<Rightarrow> (di_node_ref, di_node) family \<Rightarrow> bool" where
  "node_version_added w \<equiv> versioned_object.version_added n_key n_has_changed node_reset_changed
     (\<lambda>node. Some (node_dup node)) (node_fill_delta (w_fl w)) node_good True"

abbreviation dodag_version_added :: "(di_dodag_ref, di_dodag) family \<Rightarrow> (di_dodag_ref, di_dodag) family \<Rightarrow> bool" where
  "dodag_version_added \<equiv> versioned_object.version_added d_key d_has_changed dodag_reset_changed
     (\<lambda>dodag. map_option (\<lambda>copy. (copy, dodag)) (dodag_dup dodag)) (\<lambda>copy _. copy) dodag_ok False"

abbreviation rpl_instance_version_added ::
    "(di_rpl_instance_ref, di_rpl_instance) family \<Rightarrow> (di_rpl_instance_ref, di_rpl_instance) family \<Rightarrow> bool" where
  "rpl_instance_version_added \<equiv> versioned_object.version_added i_key i_has_changed rpl_instance_reset_changed
     (\<lambda>rpl_instance. map_option (\<lambda>copy. (copy, rpl_instance)) (rpl_instance_dup rpl_instance)) (\<lambda>copy _. copy) instance_ok False"

abbreviation link_version_added :: "(di_link_ref, di_link) family \<Rightarrow> (di_link_ref, di_link) family \<Rightarrow> bool" where
  "link_version_added \<equiv> versioned_object.version_added l_key l_has_changed link_reset_changed
     (\<lambda>link. Some (link_dup link, link)) (\<lambda>copy _. copy) (\<lambda>_. True) False"

lemma has_changed_eta:
  "node_has_changed = n_has_changed" "dodag_has_changed = d_has_changed"
  "rpl_instance_has_changed = i_has_changed" "link_has_changed = l_has_changed"
  by (simp_all add: fun_eq_iff node_has_changed_def dodag_has_changed_def rpl_instance_has_changed_def link_has_changed_def)

text \<open>What the four functions need of the world: the zeroth entry of the array of versions.\<close>

definition working_entry :: "world \<Rightarrow> bool" where
  "working_entry w \<longleftrightarrow> 0 < w_wsn_version_array_size w \<and> wsn_records 0 0 0 0 (w_wsn_versions w 0)"

lemma wsn_ok_working: "wsn_ok w \<Longrightarrow> working_entry w"
  by (auto simp: wsn_ok_def working_entry_def word_gt_0)

lemmas add_version_defs = rpldata_add_node_version_def rpldata_add_dodag_version_def rpldata_add_rpl_instance_version_def
  rpldata_add_link_version_def rpldata_get_nodes_def rpldata_get_dodags_def rpldata_get_rpl_instances_def
  rpldata_get_links_def wsn_at_def working_entry_def wsn_records_def fam_container_eq working_Some has_changed_eta

lemma rpldata_add_node_version_result:
  assumes "working_entry w" "fam_ok n_key node_good (w_nodes w)" "fam_pending n_has_changed (w_nodes w) evs"
    "fm_last (w_nodes w) + 1 \<noteq> 0"
  shows "wp (rpldata_add_node_version w) (\<lambda>(v, w'). \<exists>fam errors. node_version_added w (w_nodes w) fam
    \<and> w' = w\<lparr>w_nodes := fam, w_node_last_version_has_errors := errors\<rparr>)"
  using assms by (auto simp: add_version_defs intro!: wp_mono [OF node_versions.add_version_added] | blast)+

lemma rpldata_add_dodag_version_result:
  assumes "working_entry w" "fam_ok d_key dodag_ok (w_dodags w)" "fam_pending d_has_changed (w_dodags w) evs"
    "fm_last (w_dodags w) + 1 \<noteq> 0"
  shows "wp (rpldata_add_dodag_version w) (\<lambda>(v, w'). \<exists>fam. dodag_version_added (w_dodags w) fam \<and> w' = w\<lparr>w_dodags := fam\<rparr>)"
  using assms by (auto simp: add_version_defs intro!: wp_mono [OF dodag_versions.add_version_added] | blast)+

lemma rpldata_add_rpl_instance_version_result:
  assumes "working_entry w" "fam_ok i_key instance_ok (w_rpl_instances w)"
    "fam_pending i_has_changed (w_rpl_instances w) evs" "fm_last (w_rpl_instances w) + 1 \<noteq> 0"
  shows "wp (rpldata_add_rpl_instance_version w) (\<lambda>(v, w'). \<exists>fam. rpl_instance_version_added (w_rpl_instances w) fam \<and> w' = w\<lparr>w_rpl_instances := fam\<rparr>)"
  using assms by (auto simp: add_version_defs intro!: wp_mono [OF rpl_instance_versions.add_version_added] | blast)+

lemma rpldata_add_link_version_result:
  assumes "working_entry w" "fam_ok l_key (\<lambda>_. True) (w_links w)" "fam_pending l_has_changed (w_links w) evs"
    "fm_last (w_links w) + 1 \<noteq> 0"
  shows "wp (rpldata_add_link_version w) (\<lambda>(v, w'). \<exists>fam. link_version_added (w_links w) fam \<and> w' = w\<lparr>w_links := fam\<rparr>)"
  using assms by (auto simp: add_version_defs intro!: wp_mono [OF link_versions.add_version_added] | blast)+

end
