(* ===== verification/CommitInv.thy ===== *)
theory CommitInv
  imports Versions
begin

section \<open>A commit succeeds and records a snapshot\<close>

text \<open>
  \<open>rpl_event_commit_changed_objects\<close>, in a state that satisfies the invariant and has made fewer
  than 2^31 network versions: it makes one version of each kind of object that has a pending
  event, records them as a new network version, and delivers each pending event, in order, with
  the object it is about, to the callbacks.
\<close>

subsection \<open>The versions that the loop over the events makes\<close>

definition committed :: "made_versions \<Rightarrow> world \<Rightarrow> world \<Rightarrow> bool" where
  "committed made w w' \<longleftrightarrow>
     (if mv_node made then node_version_added w (w_nodes w) (w_nodes w') else w_nodes w' = w_nodes w)
     \<and> (if mv_dodag made then dodag_version_added (w_dodags w) (w_dodags w') else w_dodags w' = w_dodags w)
     \<and> (if mv_rpl_instance made then rpl_instance_version_added (w_rpl_instances w) (w_rpl_instances w')
        else w_rpl_instances w' = w_rpl_instances w)
     \<and> (if mv_link made then link_version_added (w_links w) (w_links w') else w_links w' = w_links w)
     \<and> w'\<lparr>w_nodes := w_nodes w, w_dodags := w_dodags w, w_rpl_instances := w_rpl_instances w, w_links := w_links w,
           w_node_last_version_has_errors := w_node_last_version_has_errors w\<rparr> = w"

definition no_versions :: made_versions where
  "no_versions = \<lparr>mv_node = False, mv_dodag = False, mv_link = False, mv_rpl_instance = False\<rparr>"

text \<open>The flags after the events of a list.\<close>

definition made_for :: "rpl_event list \<Rightarrow> made_versions" where
  "made_for evs = \<lparr>mv_node = (events_of node_event evs \<noteq> []), mv_dodag = (events_of dodag_event evs \<noteq> []),
     mv_link = (events_of link_event evs \<noteq> []), mv_rpl_instance = (events_of rpl_instance_event evs \<noteq> [])\<rparr>"

lemma committed_fields:
  assumes "committed made w w'"
  shows "w_fl w' = w_fl w" "w_head w' = w_head w" "w_callbacks w' = w_callbacks w" "w_out w' = w_out w"
    "w_wsn_versions w' = w_wsn_versions w" "w_wsn_version_array_size w' = w_wsn_version_array_size w"
    "w_wsn_last_version w' = w_wsn_last_version w" "w_allocated w' = w_allocated w"
    "working_entry w' = working_entry w" "w_config w' = w_config w" "w_time w' = w_time w"
proof -
  let ?w = "w'\<lparr>w_nodes := w_nodes w, w_dodags := w_dodags w, w_rpl_instances := w_rpl_instances w, w_links := w_links w,
     w_node_last_version_has_errors := w_node_last_version_has_errors w\<rparr>"
  have w: "?w = w" using assms by (simp add: committed_def)
  have fields: "w_fl ?w = w_fl w'" "w_head ?w = w_head w'" "w_callbacks ?w = w_callbacks w'" "w_out ?w = w_out w'"
    "w_wsn_versions ?w = w_wsn_versions w'" "w_wsn_version_array_size ?w = w_wsn_version_array_size w'"
    "w_wsn_last_version ?w = w_wsn_last_version w'" "w_allocated ?w = w_allocated w'"
    "working_entry ?w = working_entry w'" "w_config ?w = w_config w'" "w_time ?w = w_time w'"
    by (simp_all add: working_entry_def)
  then show "w_fl w' = w_fl w" "w_head w' = w_head w" "w_callbacks w' = w_callbacks w" "w_out w' = w_out w"
    "w_wsn_versions w' = w_wsn_versions w" "w_wsn_version_array_size w' = w_wsn_version_array_size w"
    "w_wsn_last_version w' = w_wsn_last_version w" "w_allocated w' = w_allocated w"
    "working_entry w' = working_entry w" "w_config w' = w_config w" "w_time w' = w_time w"
    unfolding w by simp_all
qed

lemma made_for_snoc: "made_for (evs @ [ev]) = (case ev of
     ROT_Node _ _ \<Rightarrow> (made_for evs)\<lparr>mv_node := True\<rparr> | ROT_Dodag _ _ \<Rightarrow> (made_for evs)\<lparr>mv_dodag := True\<rparr>
   | ROT_Link _ _ \<Rightarrow> (made_for evs)\<lparr>mv_link := True\<rparr> | ROT_RplInstance _ _ \<Rightarrow> (made_for evs)\<lparr>mv_rpl_instance := True\<rparr>
   | ROT_Packet _ _ \<Rightarrow> made_for evs)"
  by (cases ev) (simp_all add: made_for_def)

lemma commit_event_committed:
  assumes ok: "base_ok (w\<lparr>w_head := h\<rparr>)" and c: "committed (made_for evs) w w'"
  shows "wp (commit_event ev (made_for evs, w'))
    (\<lambda>(made, w''). committed made w w'' \<and> made = made_for (evs @ [ev]))"
proof -
  note [simp] = committed_fields [OF c]
  have entry: "working_entry w" using wsn_ok_working [OF base_okD(9) [OF ok]] by (simp add: working_entry_def)
  note wrap = last_no_wrap [OF base_okD(9) [OF ok], simplified] and b = base_okD(1-8) [OF ok, simplified]
  show ?thesis
  proof (cases ev)
    case (ROT_Node t r)
    then show ?thesis
      using c entry b wrap
      by (cases "mv_node (made_for evs)")
        (auto simp: made_for_snoc committed_def intro!: wp_mono [OF rpldata_add_node_version_result])
  next
    case (ROT_Dodag t r)
    then show ?thesis
      using c entry b wrap
      by (cases "mv_dodag (made_for evs)")
        (auto simp: made_for_snoc committed_def intro!: wp_mono [OF rpldata_add_dodag_version_result])
  next
    case (ROT_Link t r)
    then show ?thesis
      using c entry b wrap
      by (cases "mv_link (made_for evs)")
        (auto simp: made_for_snoc committed_def intro!: wp_mono [OF rpldata_add_link_version_result])
  next
    case (ROT_RplInstance t r)
    then show ?thesis
      using c entry b wrap
      by (cases "mv_rpl_instance (made_for evs)")
        (auto simp: made_for_snoc committed_def intro!: wp_mono [OF rpldata_add_rpl_instance_version_result])
  next
    case (ROT_Packet n i)
    then show ?thesis using c by (simp add: made_for_snoc)
  qed
qed

text \<open>
  The loop only reads the kinds of the events, so this holds whatever events \<open>h\<close> the invariant
  would have.
\<close>

lemma commit_events_committed:
  assumes ok: "base_ok (w\<lparr>w_head := h\<rparr>)"
  shows "wp (each commit_event (w_head w) (no_versions, w))
    (\<lambda>(made, w'). made = made_for (w_head w) \<and> committed made w w')"
proof -
  define I where "I todo s \<longleftrightarrow> (\<exists>did. w_head w = did @ todo \<and> fst s = made_for did \<and> committed (fst s) w (snd s))"
    for todo and s :: "made_versions \<times> world"
  have "I (w_head w) (no_versions, w)"
    by (simp add: I_def made_for_def no_versions_def committed_def)
  moreover have "wp (commit_event ev s) (I todo)" if inv: "I (ev # todo) s" for ev todo s
  proof -
    obtain did where did: "w_head w = did @ ev # todo" "fst s = made_for did" "committed (made_for did) w (snd s)"
      using inv by (auto simp: I_def)
    then have "s = (made_for did, snd s)" by (simp add: prod_eq_iff)
    then show ?thesis
      using did commit_event_committed [OF ok did(3), of ev]
      by (fastforce simp: I_def elim: wp_mono)
  qed
  ultimately have "wp (each commit_event (w_head w) (no_versions, w)) (I [])"
    by (intro wp_each)
  then show ?thesis by (rule wp_mono) (auto simp: I_def)
qed

subsection \<open>What is delivered\<close>

text \<open>The callbacks that one event makes: \<open>None\<close> when the object cannot be found.\<close>

fun event_callbacks :: "u32 \<Rightarrow> world \<Rightarrow> rpl_event \<Rightarrow> callback list option" where
  "event_callbacks v w (ROT_Dodag t r) =
     do { dodag \<leftarrow> event_object (rpldata_get_dodags (event_version v t) w) r;
          Some (if cb_onDodagEvent (w_callbacks w) then [onDodagEvent dodag t] else []) }"
| "event_callbacks v w (ROT_Link t r) =
     do { link \<leftarrow> event_object (rpldata_get_links (event_version v t) w) r;
          Some (if cb_onLinkEvent (w_callbacks w) then [onLinkEvent link t] else []) }"
| "event_callbacks v w (ROT_Node t r) =
     do { node \<leftarrow> event_object (rpldata_get_nodes (event_version v t) w) r;
          Some (if cb_onNodeEvent (w_callbacks w) then [onNodeEvent node t] else []) }"
| "event_callbacks v w (ROT_RplInstance t r) =
     do { rpl_instance \<leftarrow> event_object (rpldata_get_rpl_instances (event_version v t) w) r;
          Some (if cb_onRplInstanceEvent (w_callbacks w) then [onRplInstanceEvent rpl_instance t] else []) }"
| "event_callbacks v w (ROT_Packet n i) =
     Some (if cb_onPacketEvent (w_callbacks w) then [onPacketEvent n i] else [])"

definition deliveries :: "u32 \<Rightarrow> world \<Rightarrow> rpl_event list \<Rightarrow> callback list" where
  "deliveries v w evs = concat (map (the \<circ> event_callbacks v w) evs)"

lemma process_event_callbacks:
  "process_event v ev w = map_option (\<lambda>cbs. w\<lparr>w_out := w_out w @ cbs\<rparr>) (event_callbacks v w ev)"
  by (cases ev) (simp_all add: emit_def split: bind_splits)

lemma event_callbacks_out: "event_callbacks v (w\<lparr>w_out := out, w_head := h\<rparr>) ev = event_callbacks v w ev"
  by (cases ev) (simp_all add: rpldata_get_dodags_def rpldata_get_nodes_def rpldata_get_links_def
      rpldata_get_rpl_instances_def wsn_at_def)

lemma process_events_from:
  assumes "\<forall>ev\<in>set evs. event_callbacks v w ev \<noteq> None"
  shows "each (\<lambda>event w. do { w \<leftarrow> process_event v event w; Some (w\<lparr>w_head := drop 1 (w_head w)\<rparr>) }) evs
      (w\<lparr>w_out := out, w_head := evs\<rparr>)
    = Some (w\<lparr>w_out := out @ deliveries v w evs, w_head := []\<rparr>)"
  using assms
proof (induction evs arbitrary: out)
  case Nil
  then show ?case by (simp add: deliveries_def)
next
  case (Cons ev evs)
  then obtain cbs where cbs: "event_callbacks v w ev = Some cbs" by auto
  then have "process_event v ev (w\<lparr>w_out := out, w_head := ev # evs\<rparr>) = Some (w\<lparr>w_out := out @ cbs, w_head := ev # evs\<rparr>)"
    by (simp add: process_event_callbacks event_callbacks_out)
  then show ?case
    using Cons.IH [of "out @ cbs"] Cons.prems cbs by (simp add: deliveries_def)
qed

lemma rpl_event_process_events_result:
  assumes "\<forall>ev\<in>set (w_head w). event_callbacks v w ev \<noteq> None"
  shows "rpl_event_process_events v w = Some (w\<lparr>w_out := w_out w @ deliveries v w (w_head w), w_head := []\<rparr>)"
  using process_events_from [OF assms, of "w_out w"] by (simp add: rpl_event_process_events_def)

text \<open>The lookup, in a family that has the version.\<close>

lemma event_object_find:
  assumes "fam_ok key good fam" "v \<le> fm_last fam" "r \<in> dom (version_at v fam)"
  shows "event_object (fam_container v fam) r = version_at v fam r"
proof -
  obtain c where c: "hash_map (fm_versions fam) v = Some c" using fam_okD(3) [OF assms(1), of v] assms(2) by auto
  then have "hash_ok c" using fam_okD(4) [OF assms(1) c] by (simp add: container_ok_def)
  then show ?thesis
    using c by (simp add: event_object_def fam_container_eq [OF assms(1)] hash_value_find version_at_def)
qed

subsection \<open>One kind of object across a commit\<close>

context versioned_object
begin

definition kind_committed :: "bool \<Rightarrow> (rpl_event_type \<times> 'r) list \<Rightarrow> ('r, 'o) family \<Rightarrow> ('r, 'o) family \<Rightarrow> bool" where
  "kind_committed with_prev evs fam fam' \<longleftrightarrow> (if evs \<noteq> [] then version_added with_prev fam fam' else fam' = fam)"

lemma kind_committed_ok:
  assumes c: "kind_committed with_prev evs fam fam'" and fam: "fam_ok key good fam" "fam_pending changed fam evs"
  shows "fam_ok key good fam'" "fam_pending changed fam' []" "working fam' = working fam" "keeps_live fam fam'"
    "fm_last fam' = (if evs = [] then fm_last fam else fm_last fam + 1)"
    "w \<le> fm_last fam \<Longrightarrow> version_at w fam' = version_at w fam"
  using c fam version_added_live [OF _ fam(1)]
  by (auto simp: kind_committed_def version_added_def split: if_splits)

lemma kind_committed_found:
  assumes c: "kind_committed with_prev evs fam fam'" and fam: "fam_ok key good fam" "fam_pending changed fam evs"
    and ev: "(t, r) \<in> set evs"
  shows "t \<noteq> RET_Deleted \<Longrightarrow> r \<in> dom (version_at (fm_last fam') fam')"
    and "t = RET_Deleted \<Longrightarrow> fm_last fam \<noteq> 0 \<and> r \<in> dom (version_at (fm_last fam) fam')"
proof -
  have v: "version_added with_prev fam fam'" using c ev by (auto simp: kind_committed_def split: if_splits)
  then have dom: "dom (version_at (fm_last fam') fam') = dom (hash_map (working fam))"
    unfolding version_added_def by blast
  show "t \<noteq> RET_Deleted \<Longrightarrow> r \<in> dom (version_at (fm_last fam') fam')"
    using fam_pendingD(3) [OF fam(2) ev] dom by blast
  show "t = RET_Deleted \<Longrightarrow> fm_last fam \<noteq> 0 \<and> r \<in> dom (version_at (fm_last fam) fam')"
    using v fam_pendingD(4) [OF fam(2)] ev by (auto simp: version_added_def)
qed

text \<open>
  The lookup of an event, through the entry \<open>s\<close> of the new network version, or the entry \<open>old\<close> of
  the one before for a deletion.
\<close>

lemma kind_committed_lookup:
  assumes c: "kind_committed with_prev evs fam fam'" and fam: "fam_ok key good fam" "fam_pending changed fam evs"
    and ev: "(t, r) \<in> set evs" and wrap: "fm_last fam + 1 \<noteq> 0"
    and entry: "t \<noteq> RET_Deleted \<Longrightarrow> entry = Some (version_or_none (fm_last fam'))"
      "t = RET_Deleted \<Longrightarrow> fm_last fam \<noteq> 0 \<Longrightarrow> entry = Some (version_or_none (fm_last fam))"
  shows "event_object (do { v \<leftarrow> entry; fam_container v fam' }) r
      = version_at (if t = RET_Deleted then fm_last fam else fm_last fam') fam' r"
    and "version_at (if t = RET_Deleted then fm_last fam else fm_last fam') fam' r \<noteq> None"
proof -
  note ok = kind_committed_ok [OF c fam] and found = kind_committed_found [OF c fam ev]
  have last: "fm_last fam' = fm_last fam + 1" using ok(5) ev by auto
  then have le: "fm_last fam \<le> fm_last fam'" using word_le_succ [OF wrap] by simp
  show "event_object (do { v \<leftarrow> entry; fam_container v fam' }) r
      = version_at (if t = RET_Deleted then fm_last fam else fm_last fam') fam' r"
    using entry found event_object_find [OF ok(1), of _ r] last le wrap
    by (cases "t = RET_Deleted") (simp_all add: version_or_none_def)
  show "version_at (if t = RET_Deleted then fm_last fam else fm_last fam') fam' r \<noteq> None"
    using found by (cases "t = RET_Deleted") auto
qed

end

text \<open>The four kinds, after the loop over the events.\<close>

abbreviation node_committed :: "world \<Rightarrow> world \<Rightarrow> bool" where
  "node_committed w w' \<equiv> versioned_object.kind_committed n_key n_has_changed node_reset_changed
     (\<lambda>node. Some (node_dup node)) (node_fill_delta (w_fl w)) node_good True (node_events w) (w_nodes w) (w_nodes w')"

abbreviation dodag_committed :: "world \<Rightarrow> world \<Rightarrow> bool" where
  "dodag_committed w w' \<equiv> versioned_object.kind_committed d_key d_has_changed dodag_reset_changed
     (\<lambda>dodag. map_option (\<lambda>copy. (copy, dodag)) (dodag_dup dodag)) (\<lambda>copy _. copy) dodag_ok False
     (dodag_events w) (w_dodags w) (w_dodags w')"

abbreviation rpl_instance_committed :: "world \<Rightarrow> world \<Rightarrow> bool" where
  "rpl_instance_committed w w' \<equiv> versioned_object.kind_committed i_key i_has_changed rpl_instance_reset_changed
     (\<lambda>rpl_instance. map_option (\<lambda>copy. (copy, rpl_instance)) (rpl_instance_dup rpl_instance)) (\<lambda>copy _. copy) instance_ok False
     (instance_events w) (w_rpl_instances w) (w_rpl_instances w')"

abbreviation link_committed :: "world \<Rightarrow> world \<Rightarrow> bool" where
  "link_committed w w' \<equiv> versioned_object.kind_committed l_key l_has_changed link_reset_changed
     (\<lambda>link. Some (link_dup link, link)) (\<lambda>copy _. copy) (\<lambda>_. True) False (link_events w) (w_links w) (w_links w')"

lemma committed_kinds:
  assumes "committed (made_for (w_head w)) w w'"
  shows "node_committed w w'" "dodag_committed w w'" "rpl_instance_committed w w'" "link_committed w w'"
  using assms
  by (simp_all add: committed_def made_for_def node_versions.kind_committed_def dodag_versions.kind_committed_def
      rpl_instance_versions.kind_committed_def link_versions.kind_committed_def)

subsection \<open>The new network version\<close>

text \<open>The array of network versions doubles when it is full; below 2^31 versions that is enough.\<close>

lemma array_grows:
  assumes "wsn_ok w" "unat (w_wsn_last_version w) + 1 < 2 ^ 31"
  defines "ver \<equiv> w_wsn_last_version w + 1"
  defines "len \<equiv> if w_wsn_version_array_size w \<le> ver then w_wsn_version_array_size w * 2 else w_wsn_version_array_size w"
  shows "ver < len" "w_wsn_last_version w < len" "256 \<le> len" "w_wsn_last_version w < ver" "ver \<noteq> 0"
proof -
  have old: "256 \<le> unat (w_wsn_version_array_size w)" "unat (w_wsn_last_version w) < unat (w_wsn_version_array_size w)"
    using assms(1) by (simp_all add: wsn_ok_def word_le_nat_alt word_less_nat_alt)
  have ver: "unat ver = unat (w_wsn_last_version w) + 1"
    using word_succ_unat [OF no_wrap [OF order_refl]] assms(1) by (auto simp: ver_def wsn_ok_def)
  have "unat (w_wsn_version_array_size w * 2) = unat (w_wsn_version_array_size w) * 2"
    if "w_wsn_version_array_size w \<le> ver"
    using that ver assms(2) by (simp add: unat_word_ariths word_le_nat_alt)
  then have len: "unat len = (if unat (w_wsn_version_array_size w) \<le> unat ver
      then unat (w_wsn_version_array_size w) * 2 else unat (w_wsn_version_array_size w))"
    by (simp add: len_def word_le_nat_alt)
  show "ver < len" "w_wsn_last_version w < len" "256 \<le> len" "w_wsn_last_version w < ver"
    using old ver len by (simp_all add: word_le_nat_alt word_less_nat_alt split: if_splits)
  then show "ver \<noteq> 0" by auto
qed

text \<open>
  The world between the end of the loop and the delivery of the events: \<open>w\<close> is the world before
  the commit, \<open>w'\<close> the one after the loop.
\<close>

definition new_entry :: "c_int \<Rightarrow> real \<Rightarrow> world \<Rightarrow> di_rpl_wsn_state" where
  "new_entry packet_id timestamp w' =
     \<lparr>x_node_version = version_or_none (fm_last (w_nodes w')),
      x_dodag_version = version_or_none (fm_last (w_dodags w')),
      x_rpl_instance_version = version_or_none (fm_last (w_rpl_instances w')),
      x_links_version = version_or_none (fm_last (w_links w')),
      x_timestamp = timestamp, x_packet_id = packet_id, x_has_errors = w_node_last_version_has_errors w'\<rparr>"

definition recorded :: "c_int \<Rightarrow> real \<Rightarrow> world \<Rightarrow> world" where
  "recorded packet_id timestamp w' =
     (let ver = w_wsn_last_version w' + 1 in
      w'\<lparr>w_wsn_last_version := ver,
         w_wsn_version_array_size :=
           (if w_wsn_version_array_size w' \<le> ver then w_wsn_version_array_size w' * 2 else w_wsn_version_array_size w'),
         w_wsn_versions := (w_wsn_versions w')(ver := new_entry packet_id timestamp w'),
         w_node_last_version_has_errors := 0\<rparr>)"

lemma rpldata_wsn_create_version_recorded:
  assumes "wsn_ok w" "unat (w_wsn_last_version w) + 1 < 2 ^ 31"
    and "w_wsn_last_version w' = w_wsn_last_version w" "w_wsn_version_array_size w' = w_wsn_version_array_size w"
  shows "rpldata_wsn_create_version packet_id timestamp w' =
    rpl_event_process_events (w_wsn_last_version w' + 1) (recorded packet_id timestamp w')"
  using array_grows [OF assms(1,2)] assms(3,4) [symmetric]
  by (cases "w_wsn_version_array_size w \<le> w_wsn_last_version w + 1")
    (simp_all add: rpldata_wsn_create_version_def recorded_def new_entry_def Let_def wsn_at_def)

text \<open>The object of an event: in the new version, or in the one before for a deletion.\<close>

fun event_delivery :: "world \<Rightarrow> world \<Rightarrow> rpl_event \<Rightarrow> callback list" where
  "event_delivery w w' (ROT_Node t r) =
     (if cb_onNodeEvent (w_callbacks w) then
        [onNodeEvent (the (version_at (if t = RET_Deleted then fm_last (w_nodes w) else fm_last (w_nodes w')) (w_nodes w') r)) t] else [])"
| "event_delivery w w' (ROT_Dodag t r) =
     (if cb_onDodagEvent (w_callbacks w) then
        [onDodagEvent (the (version_at (if t = RET_Deleted then fm_last (w_dodags w) else fm_last (w_dodags w')) (w_dodags w') r)) t] else [])"
| "event_delivery w w' (ROT_Link t r) =
     (if cb_onLinkEvent (w_callbacks w) then
        [onLinkEvent (the (version_at (if t = RET_Deleted then fm_last (w_links w) else fm_last (w_links w')) (w_links w') r)) t] else [])"
| "event_delivery w w' (ROT_RplInstance t r) =
     (if cb_onRplInstanceEvent (w_callbacks w) then
        [onRplInstanceEvent (the (version_at (if t = RET_Deleted then fm_last (w_rpl_instances w) else fm_last (w_rpl_instances w'))
           (w_rpl_instances w') r)) t] else [])"
| "event_delivery w w' (ROT_Packet n i) = (if cb_onPacketEvent (w_callbacks w) then [onPacketEvent n i] else [])"

lemma in_events_of: "ev \<in> set evs \<Longrightarrow> kind ev = Some x \<Longrightarrow> x \<in> set (events_of kind evs)"
  by (induction evs) (auto simp: events_of_Cons split: option.split)

text \<open>The two entries that the delivery reads.\<close>

lemma recorded_entries:
  assumes ok: "wsn_ok w" "unat (w_wsn_last_version w) + 1 < 2 ^ 31" and c: "committed made w w'"
  shows "wsn_at (event_version (w_wsn_last_version w + 1) t) (recorded pid ts w') =
     Some (if t = RET_Deleted then w_wsn_versions w (w_wsn_last_version w) else new_entry pid ts w')"
  using array_grows [OF ok] committed_fields [OF c]
  by (simp add: recorded_def Let_def wsn_at_def event_version_def split: if_splits)

lemma recorded_fields [simp]:
  "w_nodes (recorded pid ts w) = w_nodes w" "w_dodags (recorded pid ts w) = w_dodags w"
  "w_rpl_instances (recorded pid ts w) = w_rpl_instances w" "w_links (recorded pid ts w) = w_links w"
  "w_head (recorded pid ts w) = w_head w" "w_out (recorded pid ts w) = w_out w"
  "w_callbacks (recorded pid ts w) = w_callbacks w" "w_allocated (recorded pid ts w) = w_allocated w"
  by (simp_all add: recorded_def Let_def)

lemma event_callbacks_delivery:
  assumes ok: "base_ok w" "unat (w_wsn_last_version w) + 1 < 2 ^ 31" and c: "committed (made_for (w_head w)) w w'"
    and ev: "ev \<in> set (w_head w)"
  shows "event_callbacks (w_wsn_last_version w + 1) (recorded pid ts w') ev = Some (event_delivery w w' ev)"
proof -
  note b = base_okD [OF ok(1)] and kinds = committed_kinds [OF c] and wrap = last_no_wrap [OF base_okD(9) [OF ok(1)]]
  note entries = recorded_entries [OF b(9) ok(2) c]
  have cb: "w_callbacks w' = w_callbacks w" using committed_fields [OF c] by simp
  have le: "fm_last (w_nodes w) \<le> w_wsn_last_version w" "fm_last (w_dodags w) \<le> w_wsn_last_version w"
    "fm_last (w_rpl_instances w) \<le> w_wsn_last_version w" "fm_last (w_links w) \<le> w_wsn_last_version w"
    and old: "w_wsn_last_version w \<noteq> 0 \<Longrightarrow>
       wsn_records (version_or_none (fm_last (w_nodes w))) (version_or_none (fm_last (w_dodags w)))
         (version_or_none (fm_last (w_rpl_instances w))) (version_or_none (fm_last (w_links w)))
         (w_wsn_versions w (w_wsn_last_version w))"
    using b(9) by (auto simp: wsn_ok_def)
  have nz: "fm_last fam \<le> w_wsn_last_version w \<Longrightarrow> fm_last fam \<noteq> 0 \<Longrightarrow> w_wsn_last_version w \<noteq> 0"
    for fam :: "('x, 'y) family" by (metis word_le_0_iff)
  show ?thesis
  proof (cases ev)
    case (ROT_Node t r)
    then have r: "(t, r) \<in> set (node_events w)" using in_events_of [OF ev, of node_event] by simp
    let ?entry = "map_option x_node_version (wsn_at (event_version (w_wsn_last_version w + 1) t) (recorded pid ts w'))"
    have "t = RET_Deleted \<Longrightarrow> fm_last (w_nodes w) \<noteq> 0 \<Longrightarrow> ?entry = Some (version_or_none (fm_last (w_nodes w)))"
      using old nz [OF le(1)] by (simp add: entries wsn_records_def)
    moreover have "t \<noteq> RET_Deleted \<Longrightarrow> ?entry = Some (version_or_none (fm_last (w_nodes w')))"
      by (simp add: entries new_entry_def)
    ultimately have "event_object (do { v \<leftarrow> ?entry; fam_container v (w_nodes w') }) r =
        Some (the (version_at (if t = RET_Deleted then fm_last (w_nodes w) else fm_last (w_nodes w')) (w_nodes w') r))"
      using node_versions.kind_committed_lookup [OF kinds(1) b(1,5) r wrap(1), of ?entry] by auto
    moreover have "rpldata_get_nodes (event_version (w_wsn_last_version w + 1) t) (recorded pid ts w')
        = do { v \<leftarrow> ?entry; fam_container v (w_nodes w') }"
      by (simp add: rpldata_get_nodes_def entries)
    ultimately show ?thesis using ROT_Node cb by (simp only: event_callbacks.simps event_delivery.simps recorded_fields) simp
  next
    case (ROT_Dodag t r)
    then have r: "(t, r) \<in> set (dodag_events w)" using in_events_of [OF ev, of dodag_event] by simp
    let ?entry = "map_option x_dodag_version (wsn_at (event_version (w_wsn_last_version w + 1) t) (recorded pid ts w'))"
    have "t = RET_Deleted \<Longrightarrow> fm_last (w_dodags w) \<noteq> 0 \<Longrightarrow> ?entry = Some (version_or_none (fm_last (w_dodags w)))"
      using old nz [OF le(2)] by (simp add: entries wsn_records_def)
    moreover have "t \<noteq> RET_Deleted \<Longrightarrow> ?entry = Some (version_or_none (fm_last (w_dodags w')))"
      by (simp add: entries new_entry_def)
    ultimately have "event_object (do { v \<leftarrow> ?entry; fam_container v (w_dodags w') }) r =
        Some (the (version_at (if t = RET_Deleted then fm_last (w_dodags w) else fm_last (w_dodags w')) (w_dodags w') r))"
      using dodag_versions.kind_committed_lookup [OF kinds(2) b(2,6) r wrap(2), of ?entry] by auto
    moreover have "rpldata_get_dodags (event_version (w_wsn_last_version w + 1) t) (recorded pid ts w')
        = do { v \<leftarrow> ?entry; fam_container v (w_dodags w') }"
      by (simp add: rpldata_get_dodags_def entries)
    ultimately show ?thesis using ROT_Dodag cb by (simp only: event_callbacks.simps event_delivery.simps recorded_fields) simp
  next
    case (ROT_RplInstance t r)
    then have r: "(t, r) \<in> set (instance_events w)" using in_events_of [OF ev, of rpl_instance_event] by simp
    let ?entry = "map_option x_rpl_instance_version
        (wsn_at (event_version (w_wsn_last_version w + 1) t) (recorded pid ts w'))"
    have "t = RET_Deleted \<Longrightarrow> fm_last (w_rpl_instances w) \<noteq> 0
        \<Longrightarrow> ?entry = Some (version_or_none (fm_last (w_rpl_instances w)))"
      using old nz [OF le(3)] by (simp add: entries wsn_records_def)
    moreover have "t \<noteq> RET_Deleted \<Longrightarrow> ?entry = Some (version_or_none (fm_last (w_rpl_instances w')))"
      by (simp add: entries new_entry_def)
    ultimately have "event_object (do { v \<leftarrow> ?entry; fam_container v (w_rpl_instances w') }) r =
        Some (the (version_at (if t = RET_Deleted then fm_last (w_rpl_instances w) else fm_last (w_rpl_instances w')) (w_rpl_instances w') r))"
      using rpl_instance_versions.kind_committed_lookup [OF kinds(3) b(3,7) r wrap(3), of ?entry] by auto
    moreover have "rpldata_get_rpl_instances (event_version (w_wsn_last_version w + 1) t) (recorded pid ts w')
        = do { v \<leftarrow> ?entry; fam_container v (w_rpl_instances w') }"
      by (simp add: rpldata_get_rpl_instances_def entries)
    ultimately show ?thesis using ROT_RplInstance cb by (simp only: event_callbacks.simps event_delivery.simps recorded_fields) simp
  next
    case (ROT_Link t r)
    then have r: "(t, r) \<in> set (link_events w)" using in_events_of [OF ev, of link_event] by simp
    let ?entry = "map_option x_links_version (wsn_at (event_version (w_wsn_last_version w + 1) t) (recorded pid ts w'))"
    have "t = RET_Deleted \<Longrightarrow> fm_last (w_links w) \<noteq> 0 \<Longrightarrow> ?entry = Some (version_or_none (fm_last (w_links w)))"
      using old nz [OF le(4)] by (simp add: entries wsn_records_def)
    moreover have "t \<noteq> RET_Deleted \<Longrightarrow> ?entry = Some (version_or_none (fm_last (w_links w')))"
      by (simp add: entries new_entry_def)
    ultimately have "event_object (do { v \<leftarrow> ?entry; fam_container v (w_links w') }) r =
        Some (the (version_at (if t = RET_Deleted then fm_last (w_links w) else fm_last (w_links w')) (w_links w') r))"
      using link_versions.kind_committed_lookup [OF kinds(4) b(4,8) r wrap(4), of ?entry] by auto
    moreover have "rpldata_get_links (event_version (w_wsn_last_version w + 1) t) (recorded pid ts w')
        = do { v \<leftarrow> ?entry; fam_container v (w_links w') }"
      by (simp add: rpldata_get_links_def entries)
    ultimately show ?thesis using ROT_Link cb by (simp only: event_callbacks.simps event_delivery.simps recorded_fields) simp
  qed (simp add: cb)
qed

subsection \<open>The older network versions\<close>

text \<open>
  The entries of the array of network versions name versions that exist, or none. A commit keeps
  what they lead to: \<open>node_at v r w\<close> and the others read an object of a network version the way
  the user interface does.
\<close>

definition names_version :: "('r, 'o) family \<Rightarrow> u32 \<Rightarrow> bool" where
  "names_version fam v \<longleftrightarrow> v = - 1 \<or> 0 < v \<and> v \<le> fm_last fam"

definition history_ok :: "world \<Rightarrow> bool" where
  "history_ok w \<longleftrightarrow> (\<forall>v. 0 < v \<longrightarrow> v \<le> w_wsn_last_version w \<longrightarrow>
     names_version (w_nodes w) (x_node_version (w_wsn_versions w v))
     \<and> names_version (w_dodags w) (x_dodag_version (w_wsn_versions w v))
     \<and> names_version (w_rpl_instances w) (x_rpl_instance_version (w_wsn_versions w v))
     \<and> names_version (w_links w) (x_links_version (w_wsn_versions w v)))"

lemma history_ok_fixed: "fixed w w' \<Longrightarrow> history_ok w \<Longrightarrow> history_ok w'"
  by (simp add: fixed_def fam_fixed_def names_version_def history_ok_def)

definition object_at :: "('r, nat) hash_container option option \<Rightarrow> ('r, 'o) family \<Rightarrow> 'r \<Rightarrow> 'o option" where
  "object_at container fam r = do { p \<leftarrow> event_object container r; fam_load p fam }"

definition node_at :: "u32 \<Rightarrow> di_node_ref \<Rightarrow> world \<Rightarrow> di_node option" where
  "node_at v r w = object_at (rpldata_get_nodes v w) (w_nodes w) r"

definition dodag_at :: "u32 \<Rightarrow> di_dodag_ref \<Rightarrow> world \<Rightarrow> di_dodag option" where
  "dodag_at v r w = object_at (rpldata_get_dodags v w) (w_dodags w) r"

definition rpl_instance_at :: "u32 \<Rightarrow> di_rpl_instance_ref \<Rightarrow> world \<Rightarrow> di_rpl_instance option" where
  "rpl_instance_at v r w = object_at (rpldata_get_rpl_instances v w) (w_rpl_instances w) r"

definition link_at :: "u32 \<Rightarrow> di_link_ref \<Rightarrow> world \<Rightarrow> di_link option" where
  "link_at v r w = object_at (rpldata_get_links v w) (w_links w) r"

lemma event_object_version:
  assumes "fam_ok key good fam"
  shows "event_object (fam_container v fam) r = version_at v fam r"
proof (cases "hash_map (fm_versions fam) v")
  case None
  then show ?thesis by (simp add: event_object_def fam_container_eq [OF assms] version_at_def)
next
  case (Some c)
  then have "hash_ok c" using fam_okD(4) [OF assms Some] by (simp add: container_ok_def)
  with Some show ?thesis by (simp add: event_object_def fam_container_eq [OF assms] hash_value_find version_at_def)
qed

lemma no_such_version: "fam_ok key good fam \<Longrightarrow> fm_last fam + 1 \<noteq> 0 \<Longrightarrow> version_at (- 1) fam = Map.empty"
proof -
  assume fam: "fam_ok key good fam" "fm_last fam + 1 \<noteq> 0"
  have "\<not> (- 1 :: u32) \<le> fm_last fam"
    using fam(2) by (metis add.left_inverse add.commute word_order.extremum_unique)
  then have "hash_map (fm_versions fam) (- 1) = None" using fam_okD(3) [OF fam(1), of "- 1"] by auto
  then show ?thesis by (simp add: version_at_def)
qed

context versioned_object
begin

lemma kind_committed_object_at:
  assumes c: "kind_committed with_prev evs fam fam'" and fam: "fam_ok key good fam" "fam_pending changed fam evs"
    and wrap: "fm_last fam + 1 \<noteq> 0" "fm_last fam' + 1 \<noteq> 0" and v: "names_version fam v"
  shows "object_at (fam_container v fam') fam' r = object_at (fam_container v fam) fam r"
proof -
  note ok = kind_committed_ok [OF c fam]
  have nz: "v \<noteq> 0" using v by (auto simp: names_version_def)
  show ?thesis
  proof (cases "v \<le> fm_last fam")
    case True
    have "fam_load q fam' = fam_load q fam" if "version_at v fam r = Some q" for q
      using c version_added_old(2) [OF _ fam(1) True nz that] by (auto simp: kind_committed_def split: if_splits)
    then show ?thesis
      using ok(6) [OF True]
      by (cases "version_at v fam r") (simp_all add: object_at_def event_object_version [OF ok(1)] event_object_version [OF fam(1)])
  next
    case False
    then have "v = - 1" using v by (simp add: names_version_def)
    then show ?thesis
      using no_such_version [OF fam(1) wrap(1)] no_such_version [OF ok(1) wrap(2)]
      by (simp add: object_at_def event_object_version [OF ok(1)] event_object_version [OF fam(1)])
  qed
qed

lemma kind_committed_names:
  assumes "kind_committed with_prev evs fam fam'" "fam_ok key good fam" "fam_pending changed fam evs"
    "fm_last fam + 1 \<noteq> 0" "names_version fam v"
  shows "names_version fam' v" "names_version fam' (version_or_none (fm_last fam'))"
  using kind_committed_ok(5) [OF assms(1-3)] assms(5) word_le_succ [OF assms(4)]
  by (auto simp: names_version_def version_or_none_def word_gt_0)

end

lemma recorded_history_ok:
  assumes ok: "base_ok w" "unat (w_wsn_last_version w) + 1 < 2 ^ 31" and c: "committed (made_for (w_head w)) w w'"
    and h: "history_ok w"
  shows "history_ok (recorded pid ts w')"
proof -
  note b = base_okD [OF ok(1)] and kinds = committed_kinds [OF c] and wrap = last_no_wrap [OF base_okD(9) [OF ok(1)]]
  note n = node_versions.kind_committed_names [OF kinds(1) b(1,5) wrap(1)]
    and d = dodag_versions.kind_committed_names [OF kinds(2) b(2,6) wrap(2)]
    and i = rpl_instance_versions.kind_committed_names [OF kinds(3) b(3,7) wrap(3)]
    and l = link_versions.kind_committed_names [OF kinds(4) b(4,8) wrap(4)]
  have none: "names_version fam (- 1)" for fam :: "('x, 'y) family" by (simp add: names_version_def)
  have same: "w_wsn_last_version w' = w_wsn_last_version w" "w_wsn_versions w' = w_wsn_versions w"
    using committed_fields [OF c] by simp_all
  show ?thesis
    unfolding history_ok_def
  proof (intro allI impI)
    fix v assume v: "0 < v" "v \<le> w_wsn_last_version (recorded pid ts w')"
    then have le: "v \<le> w_wsn_last_version w \<or> v = w_wsn_last_version w + 1"
      using word_le_succ [OF array_grows(5) [OF b(9) ok(2)]] by (simp add: recorded_def Let_def same)
    let ?s = "w_wsn_versions (recorded pid ts w') v" and ?r = "recorded pid ts w'"
    show "names_version (w_nodes ?r) (x_node_version ?s) \<and> names_version (w_dodags ?r) (x_dodag_version ?s)
        \<and> names_version (w_rpl_instances ?r) (x_rpl_instance_version ?s) \<and> names_version (w_links ?r) (x_links_version ?s)"
    proof (cases "v = w_wsn_last_version w + 1")
      case True
      then have "?s = new_entry pid ts w'" by (simp add: recorded_def Let_def same)
      then show ?thesis using n(2) [OF none] d(2) [OF none] i(2) [OF none] l(2) [OF none] by (simp add: new_entry_def)
    next
      case False
      then have "?s = w_wsn_versions w v" by (simp add: recorded_def Let_def same)
      moreover have "v \<le> w_wsn_last_version w" using le False by simp
      ultimately show ?thesis using h v(1) n(1) d(1) i(1) l(1) by (simp add: history_ok_def)
    qed
  qed
qed


subsection \<open>The whole commit\<close>

fun object_event :: "rpl_event \<Rightarrow> bool" where
  "object_event (ROT_Packet _ _) = False"
| "object_event _ = True"

lemma made_for_any:
  "(mv_node (made_for evs) \<or> mv_link (made_for evs) \<or> mv_dodag (made_for evs) \<or> mv_rpl_instance (made_for evs))
     \<longleftrightarrow> (\<exists>ev\<in>set evs. object_event ev)"
proof (induction evs rule: rev_induct)
  case Nil
  show ?case by (simp add: made_for_def)
next
  case (snoc ev evs)
  show ?case using snoc by (cases ev) (auto simp: made_for_snoc)
qed

text \<open>The parts of the invariant that do not depend on the array of network versions.\<close>

lemma committed_families:
  assumes ok: "world_ok w" and c: "committed (made_for (w_head w)) w w'"
    and w'': "w_nodes w'' = w_nodes w'" "w_dodags w'' = w_dodags w'" "w_rpl_instances w'' = w_rpl_instances w'"
      "w_links w'' = w_links w'" "w_head w'' = []" "w_allocated w'' = w_allocated w"
  shows "families_ok w''" "pending_ok w''" "alloc_ok w''" "members_ok w''" "links_quiet w''"
proof -
  note b = base_okD [OF world_okD(1) [OF ok]] and kinds = committed_kinds [OF c]
  note n = node_versions.kind_committed_ok [OF kinds(1) b(1,5)] and d = dodag_versions.kind_committed_ok [OF kinds(2) b(2,6)]
    and i = rpl_instance_versions.kind_committed_ok [OF kinds(3) b(3,7)] and l = link_versions.kind_committed_ok [OF kinds(4) b(4,8)]
  show "families_ok w''" using n(1) d(1) i(1) l(1) by (simp add: families_ok_def w'')
  show "pending_ok w''" using n(2) d(2) i(2) l(2) by (simp add: pending_ok_def w'')
  show "alloc_ok w''" by (rule alloc_ok_live [OF b(10)]) (use n(4) d(4) i(4) l(4) in \<open>simp_all add: w''\<close>)
  have "Some (node_dup (node_reset_changed x)) = Some (copy, x') \<Longrightarrow> node_get_dodag x' = node_get_dodag x" for x copy x'
    by (auto simp: node_get_dodag_def node_dup_def)
  note keep = node_versions.version_added_view [OF _ b(1) this]
  have "node_in w'' = node_in w"
    using kinds(1) keep [of "w_fl w" True "w_nodes w'"]
    by (cases "node_events w = []") (simp_all add: node_in_def w'' node_versions.kind_committed_def)
  moreover have "members w'' = members w"
    using kinds(2) dodag_versions.version_added_view [OF _ b(2), where f = "\<lambda>d. dom (hash_map (d_nodes d))"]
    by (auto simp: members_def w'' dodag_versions.kind_committed_def dodag_reset_changed_def split: if_splits)
  ultimately show "members_ok w''" using world_okD(2) [OF ok] by (simp add: members_ok_def)
  show "links_quiet w''"
    using l(2) by (auto simp: links_quiet_def w'' fam_pending_def fam_load_def split: if_splits)
qed

lemma last_le:
  assumes "fm_last fam' = (if evs = [] then fm_last fam else fm_last fam + 1)"
    and "fm_last fam \<le> (v :: u32)" "v + 1 \<noteq> 0"
  shows "fm_last fam' \<le> v + 1"
proof -
  have "fm_last fam + 1 \<noteq> 0" using assms(2,3) no_wrap [of _ v "v + 1"] word_succ_less [OF assms(3)] by blast
  then show ?thesis
    using assms word_succ_unat [of v] word_succ_unat [of "fm_last fam"] by (auto simp: word_le_nat_alt)
qed

lemma recorded_wsn_ok:
  assumes ok: "base_ok w" "unat (w_wsn_last_version w) + 1 < 2 ^ 31" and c: "committed (made_for (w_head w)) w w'"
  shows "wsn_ok (recorded pid ts w')"
proof -
  note b = base_okD [OF ok(1)] and kinds = committed_kinds [OF c] and grow = array_grows [OF base_okD(9) [OF ok(1)] ok(2)]
  have "fm_last (w_nodes w) \<le> w_wsn_last_version w" "fm_last (w_dodags w) \<le> w_wsn_last_version w"
    "fm_last (w_rpl_instances w) \<le> w_wsn_last_version w" "fm_last (w_links w) \<le> w_wsn_last_version w"
    using b(9) by (simp_all add: wsn_ok_def)
  then have "fm_last (w_nodes w') \<le> w_wsn_last_version w + 1" "fm_last (w_dodags w') \<le> w_wsn_last_version w + 1"
    "fm_last (w_rpl_instances w') \<le> w_wsn_last_version w + 1" "fm_last (w_links w') \<le> w_wsn_last_version w + 1"
    using grow(5) last_le node_versions.kind_committed_ok(5) [OF kinds(1) b(1,5)]
      dodag_versions.kind_committed_ok(5) [OF kinds(2) b(2,6)]
      rpl_instance_versions.kind_committed_ok(5) [OF kinds(3) b(3,7)]
      link_versions.kind_committed_ok(5) [OF kinds(4) b(4,8)] by blast+
  moreover have "wsn_records 0 0 0 0 (w_wsn_versions w 0)" using b(9) by (simp add: wsn_ok_def)
  ultimately show ?thesis
    using grow committed_fields [OF c]
    by (simp add: wsn_ok_def recorded_def Let_def wsn_records_def new_entry_def split: if_splits)
qed

text \<open>The state after a commit.\<close>

definition commit_result :: "c_int \<Rightarrow> real \<Rightarrow> world \<Rightarrow> bool \<Rightarrow> world \<Rightarrow> bool" where
  "commit_result packet_id timestamp w changed w' \<longleftrightarrow>
     (changed \<longleftrightarrow> (\<exists>ev\<in>set (w_head w). object_event ev))
     \<and> world_ok w' \<and> links_quiet w' \<and> w_head w' = []
     \<and> w_out w' = w_out w @ concat (map (event_delivery w w') (w_head w))
     \<and> node_committed w w' \<and> dodag_committed w w' \<and> rpl_instance_committed w w' \<and> link_committed w w'
     \<and> w_wsn_last_version w' = (if changed then w_wsn_last_version w + 1 else w_wsn_last_version w)
     \<and> (\<forall>v. v \<noteq> w_wsn_last_version w + 1 \<or> \<not> changed \<longrightarrow> w_wsn_versions w' v = w_wsn_versions w v)
     \<and> (changed \<longrightarrow> (\<exists>errors. w_wsn_versions w' (w_wsn_last_version w + 1) =
          \<lparr>x_node_version = version_or_none (fm_last (w_nodes w')),
           x_dodag_version = version_or_none (fm_last (w_dodags w')),
           x_rpl_instance_version = version_or_none (fm_last (w_rpl_instances w')),
           x_links_version = version_or_none (fm_last (w_links w')),
           x_timestamp = timestamp, x_packet_id = packet_id, x_has_errors = errors\<rparr>))
     \<and> (history_ok w \<longrightarrow> history_ok w')
     \<and> w_callbacks w' = w_callbacks w \<and> w_fl w' = w_fl w \<and> w_config w' = w_config w \<and> w_time w' = w_time w"

lemma event_delivery_same: "w_nodes w'' = w_nodes w' \<Longrightarrow> w_dodags w'' = w_dodags w' \<Longrightarrow> w_rpl_instances w'' = w_rpl_instances w'
    \<Longrightarrow> w_links w'' = w_links w' \<Longrightarrow> event_delivery w w'' = event_delivery w w'"
proof
  fix ev
  assume "w_nodes w'' = w_nodes w'" "w_dodags w'' = w_dodags w'" "w_rpl_instances w'' = w_rpl_instances w'"
    "w_links w'' = w_links w'"
  then show "event_delivery w w'' ev = event_delivery w w' ev" by (cases ev) simp_all
qed

lemma commit_changed:
  assumes ok: "world_ok w" and small: "unat (w_wsn_last_version w) + 1 < 2 ^ 31"
    and c: "committed (made_for (w_head w)) w w'" and any: "\<exists>ev\<in>set (w_head w). object_event ev"
  shows "\<exists>w''. rpldata_wsn_create_version pid ts w' = Some w'' \<and> commit_result pid ts w True w''"
proof -
  note b = base_okD [OF world_okD(1) [OF ok]] and same = committed_fields [OF c]
  let ?v = "w_wsn_last_version w + 1" and ?r = "recorded pid ts w'"
  define w'' where "w'' = ?r\<lparr>w_out := w_out w @ deliveries ?v ?r (w_head w), w_head := []\<rparr>"
  have found: "\<forall>ev\<in>set (w_head w). event_callbacks ?v ?r ev = Some (event_delivery w w' ev)"
    using event_callbacks_delivery [OF world_okD(1) [OF ok] small c] by blast
  then have "rpl_event_process_events ?v ?r = Some w''"
    using rpl_event_process_events_result [of ?r ?v] by (simp add: same w''_def)
  then have "rpldata_wsn_create_version pid ts w' = Some w''"
    using rpldata_wsn_create_version_recorded [OF b(9) small, of w'] by (simp add: same)
  moreover have "deliveries ?v ?r (w_head w) = concat (map (event_delivery w w') (w_head w))"
    using found by (simp add: deliveries_def cong: map_cong)
  moreover have "event_delivery w w'' = event_delivery w w'" by (rule event_delivery_same) (simp_all add: w''_def)
  moreover have "wsn_ok w''"
    using recorded_wsn_ok [OF world_okD(1) [OF ok] small c, of pid ts] by (simp add: w''_def wsn_ok_def)
  moreover have "history_ok w \<Longrightarrow> history_ok w''"
    using recorded_history_ok [OF world_okD(1) [OF ok] small c, of pid ts] by (simp add: w''_def history_ok_def)
  moreover note committed_families [OF ok c, of w'']
  ultimately show ?thesis
    using any committed_kinds [OF c] same
    by (intro exI [of _ w'']) (simp add: commit_result_def world_ok_def base_ok_def w''_def recorded_def Let_def new_entry_def)
qed

lemma commit_unchanged:
  assumes ok: "world_ok w" and c: "committed (made_for (w_head w)) w w'"
    and none: "\<not> (\<exists>ev\<in>set (w_head w). object_event ev)"
  shows "\<exists>w''. rpl_event_process_events (w_wsn_last_version w') w' = Some w'' \<and> commit_result pid ts w False w''"
proof -
  note b = base_okD [OF world_okD(1) [OF ok]] and same = committed_fields [OF c]
  let ?v = "w_wsn_last_version w"
  define w'' where "w'' = w'\<lparr>w_out := w_out w @ deliveries ?v w' (w_head w), w_head := []\<rparr>"
  have packets: "\<exists>n i. ev = ROT_Packet n i" if "ev \<in> set (w_head w)" for ev
    using none that by (cases ev) auto
  have found: "\<forall>ev\<in>set (w_head w). event_callbacks ?v w' ev = Some (event_delivery w w' ev)"
    using packets same by force
  then have run: "rpl_event_process_events (w_wsn_last_version w') w' = Some w''"
    using rpl_event_process_events_result [of w' ?v] by (simp add: same w''_def)
  have "made_for (w_head w) = no_versions"
    using none made_for_any [of "w_head w"] by (simp add: no_versions_def made_for_def)
  then have fam: "w_nodes w' = w_nodes w" "w_dodags w' = w_dodags w" "w_rpl_instances w' = w_rpl_instances w"
      "w_links w' = w_links w"
    using c by (simp_all add: committed_def no_versions_def)
  have "deliveries ?v w' (w_head w) = concat (map (event_delivery w w') (w_head w))"
    using found by (simp add: deliveries_def cong: map_cong)
  moreover have "event_delivery w w'' = event_delivery w w'" by (rule event_delivery_same) (simp_all add: w''_def)
  moreover have "wsn_ok w''" using b(9) by (simp add: w''_def wsn_ok_def fam same)
  moreover have "history_ok w \<Longrightarrow> history_ok w''" by (simp add: w''_def history_ok_def same fam)
  moreover note committed_families [OF ok c, of w'']
  ultimately show ?thesis
    using none committed_kinds [OF c] same run
    by (intro exI [of _ w'']) (simp add: commit_result_def world_ok_def base_ok_def w''_def fam)
qed

lemma commit_succeeds:
  assumes ok: "world_ok w" and small: "unat (w_wsn_last_version w) + 1 < 2 ^ 31"
  shows "wp (rpl_event_commit_changed_objects packet_id timestamp w)
    (\<lambda>(changed, w'). commit_result packet_id timestamp w changed w')"
proof -
  have idle: "rpl_event_process_events v w' = Some w'" if "w_head w' = []" for v w'
    using that by (simp add: rpl_event_process_events_def)
  have "wp (do {
          let changed = (mv_node made \<or> mv_link made \<or> mv_dodag made \<or> mv_rpl_instance made);
          w \<leftarrow> (if changed then rpldata_wsn_create_version packet_id timestamp w' else Some w');
          w \<leftarrow> rpl_event_process_events (w_wsn_last_version w) w;
          Some (changed, w) }) (\<lambda>(changed, w'). commit_result packet_id timestamp w changed w')"
    if made: "made = made_for (w_head w)" and c: "committed made w w'" for made w'
  proof (cases "\<exists>ev\<in>set (w_head w). object_event ev")
    case True
    obtain w'' where "rpldata_wsn_create_version packet_id timestamp w' = Some w''"
        "commit_result packet_id timestamp w True w''"
      using commit_changed [OF ok small _ True] c made by blast
    then show ?thesis
      using True made_for_any [of "w_head w"] made idle by (auto simp: Let_def commit_result_def)
  next
    case False
    then show ?thesis
      using commit_unchanged [OF ok _ False, of w' packet_id timestamp] c made made_for_any [of "w_head w"]
      by (auto simp: Let_def)
  qed
  then show ?thesis
    using commit_events_committed [where w = w and h = "w_head w"] world_okD(1) [OF ok]
    by (auto simp: rpl_event_commit_changed_objects_def no_versions_def elim!: wp_mono)
qed

text \<open>Every object of an older network version reads the same after a commit.\<close>

lemma commit_keeps_versions:
  assumes ok: "world_ok w" "history_ok w" and r: "commit_result pid ts w changed w'" and v: "0 < v" "v \<le> w_wsn_last_version w"
    and small: "unat (w_wsn_last_version w) + 1 < 2 ^ 31"
  shows "node_at v nr w' = node_at v nr w" "dodag_at v dr w' = dodag_at v dr w"
    "rpl_instance_at v ir w' = rpl_instance_at v ir w" "link_at v lr w' = link_at v lr w"
proof -
  note b = base_okD [OF world_okD(1) [OF ok(1)]] and wrap = last_no_wrap [OF base_okD(9) [OF world_okD(1) [OF ok(1)]]]
  have ne: "v \<noteq> w_wsn_last_version w + 1" using v(2) array_grows(4) [OF b(9) small] by auto
  have w': "world_ok w'" and kinds: "node_committed w w'" "dodag_committed w w'" "rpl_instance_committed w w'"
      "link_committed w w'" and last: "w_wsn_last_version w' = (if changed then w_wsn_last_version w + 1 else w_wsn_last_version w)"
    and same: "w_wsn_versions w' v = w_wsn_versions w v"
    using r ne by (simp_all add: commit_result_def)
  note b' = base_okD [OF world_okD(1) [OF w']] and wrap' = last_no_wrap [OF base_okD(9) [OF world_okD(1) [OF w']]]
  have "v \<le> w_wsn_last_version w'"
    using v(2) last word_le_succ [OF array_grows(5) [OF b(9) small]] by auto
  then have at: "wsn_at v w = Some (w_wsn_versions w v)" "wsn_at v w' = Some (w_wsn_versions w v)"
    using v b(9) b'(9) same by (auto simp: wsn_at_def wsn_ok_def intro: le_less_trans)
  have names: "names_version (w_nodes w) (x_node_version (w_wsn_versions w v))"
    "names_version (w_dodags w) (x_dodag_version (w_wsn_versions w v))"
    "names_version (w_rpl_instances w) (x_rpl_instance_version (w_wsn_versions w v))"
    "names_version (w_links w) (x_links_version (w_wsn_versions w v))"
    using ok(2) v by (simp_all add: history_ok_def)
  show "node_at v nr w' = node_at v nr w"
    using node_versions.kind_committed_object_at [OF kinds(1) b(1,5) wrap(1) wrap'(1) names(1)]
    by (simp add: node_at_def rpldata_get_nodes_def at)
  show "dodag_at v dr w' = dodag_at v dr w"
    using dodag_versions.kind_committed_object_at [OF kinds(2) b(2,6) wrap(2) wrap'(2) names(2)]
    by (simp add: dodag_at_def rpldata_get_dodags_def at)
  show "rpl_instance_at v ir w' = rpl_instance_at v ir w"
    using rpl_instance_versions.kind_committed_object_at [OF kinds(3) b(3,7) wrap(3) wrap'(3) names(3)]
    by (simp add: rpl_instance_at_def rpldata_get_rpl_instances_def at)
  show "link_at v lr w' = link_at v lr w"
    using link_versions.kind_committed_object_at [OF kinds(4) b(4,8) wrap(4) wrap'(4) names(4)]
    by (simp add: link_at_def rpldata_get_links_def at)
qed

end
