(* ===== verification/Analyzer.thy ===== *)
theory Analyzer
  imports CommitInv
begin

section \<open>The analyzer as a whole\<close>

text \<open>
  The operations that reach the analyzer from outside: a packet (the branch of \<open>rpl_parser_end_packet\<close> for a valid packet, in
  \<open>src/src/packet_parsers/rpl_parser.c\<close>), and what the user interface calls between two packets
  (\<open>nodes_clear_all_errors\<close>, \<open>links_clear_all_deprecated\<close>, \<open>rpldata_clear\<close>,
  \<open>rpl_tool_set_analyser_config\<close> and \<open>rpl_event_set_callbacks\<close>). \<open>settled\<close> is the invariant between
  two of them; no sequence of fewer than 2^31 packets makes the analyzer fail, if the data are
  never cleared while the user's own changes are still pending.
\<close>

subsection \<open>Operations\<close>

text \<open>A packet, by the branch of the \<open>switch\<close> it takes and the options it carries.\<close>

datatype rpl_packet =
    got_dis "rpl_dis_opt_info_req option"
  | got_dio rpl_dio "rpl_dodag_config option" "rpl_metric option" "rpl_prefix option" "rpl_route option"
  | got_dao rpl_dao "rpl_dao_opt_target option" "rpl_dao_opt_transit option"
  | got_data "rpl_hop_by_hop_opt option"

fun collect :: "packet_info \<Rightarrow> rpl_packet \<Rightarrow> world \<Rightarrow> world option" where
  "collect pkt_info (got_dis request) w = rpl_collector_parse_dis pkt_info request w"
| "collect pkt_info (got_dio dio config metric prefix route) w =
     rpl_collector_parse_dio pkt_info dio config metric prefix route w"
| "collect pkt_info (got_dao dao target transit) w = rpl_collector_parse_dao pkt_info dao target transit w"
| "collect pkt_info (got_data hop_info) w = rpl_collector_parse_data pkt_info hop_info w"

definition analyze_packet :: "c_int \<Rightarrow> packet_info \<Rightarrow> rpl_packet \<Rightarrow> world \<Rightarrow> world option" where
  "analyze_packet packet_id pkt_info packet w =
     do { w \<leftarrow> collect pkt_info packet (w\<lparr>w_head := rpl_event_packet packet_id pkt_info (w_head w)\<rparr>);
          (_, w) \<leftarrow> rpl_event_commit_changed_objects packet_id (pkt_timestamp pkt_info) w;
          Some w }"

datatype analyzer_op =
    op_packet u64 c_int packet_info rpl_packet
  | op_clear_errors
  | op_clear_deprecated
  | op_clear
  | op_config analyser_config
  | op_callbacks rpl_event_callbacks

fun analyzer_step :: "analyzer_op \<Rightarrow> world \<Rightarrow> world option" where
  "analyzer_step (op_packet time packet_id pkt_info packet) w =
     analyze_packet packet_id pkt_info packet (w\<lparr>w_time := time\<rparr>)"
| "analyzer_step op_clear_errors w = nodes_clear_all_errors w"
| "analyzer_step op_clear_deprecated w = links_clear_all_deprecated w"
| "analyzer_step op_clear w = rpldata_clear w"
| "analyzer_step (op_config config) w = Some (w\<lparr>w_config := config\<rparr>)"
| "analyzer_step (op_callbacks callbacks) w = Some (rpl_event_set_callbacks callbacks w)"

definition analyzer_run :: "analyzer_op list \<Rightarrow> world \<Rightarrow> world option" where
  "analyzer_run ops w = each analyzer_step ops w"

subsection \<open>Clearing the errors\<close>

lemma st_get_nodes:
  assumes "base_ok w"
  shows "rpldata_get_nodes 0 w = Some (Some (working (w_nodes w)))"
  using wsn_at_0 [OF base_okD(9) [OF assms]] fam_container_eq [OF base_okD(1) [OF assms]] working_Some [OF base_okD(1) [OF assms]]
  by (simp add: rpldata_get_nodes_def wsn_records_def)

definition settled :: "world \<Rightarrow> bool" where
  "settled w \<longleftrightarrow> world_ok w \<and> links_quiet w \<and> history_ok w"

text \<open>The invariant is about the collected data and the pending events that name objects.\<close>

definition same_data :: "world \<Rightarrow> world \<Rightarrow> bool" where
  "same_data w w' \<longleftrightarrow> w_nodes w' = w_nodes w \<and> w_dodags w' = w_dodags w \<and> w_rpl_instances w' = w_rpl_instances w
     \<and> w_links w' = w_links w \<and> w_allocated w' = w_allocated w \<and> w_wsn_versions w' = w_wsn_versions w
     \<and> w_wsn_version_array_size w' = w_wsn_version_array_size w \<and> w_wsn_last_version w' = w_wsn_last_version w
     \<and> node_events w' = node_events w \<and> dodag_events w' = dodag_events w \<and> instance_events w' = instance_events w
     \<and> link_events w' = link_events w"

lemma settled_same:
  assumes "settled w" "same_data w w'"
  shows "settled w'"
proof -
  have "live w' el = live w el" for el using assms(2) by (cases el) (simp_all add: same_data_def)
  then show ?thesis
    using assms
    by (simp add: same_data_def settled_def world_ok_def base_ok_def families_ok_def pending_ok_def alloc_ok_def
        wsn_ok_def members_ok_def node_in_def members_def links_quiet_def history_ok_def)
qed

lemma nodes_clear_all_errors_st:
  assumes s: "settled w"
  shows "wp (nodes_clear_all_errors w) (\<lambda>w'. settled w' \<and> w_wsn_last_version w' = w_wsn_last_version w)"
proof -
  let ?A = "set (hash_items (working (w_nodes w)))"
  have ok: "base_ok w" and w: "world_ok w" and q: "links_quiet w" using s by (simp_all add: settled_def world_ok_def)
  have "hash_ok (working (w_nodes w))" using working_ok [OF base_okD(1) [OF ok]] by (simp add: container_ok_def)
  then have "st True w ?A {} {} {} w"
    using st_start [OF w] hash_map_items [of "working (w_nodes w)"] by (auto simp: st_def base_st_def holds_def)
  then have "wp (each (\<lambda>(_, p). node_op p node_clear_errors) (hash_items (working (w_nodes w))) w) (st True w ?A {} {} {})"
    by (rule wp_each_inv) (auto intro!: node_op_st simp: tracking)
  then have "wp (nodes_clear_all_errors w) (st True w ?A {} {} {})"
    by (simp add: nodes_clear_all_errors_def st_get_nodes [OF ok])
  then show ?thesis
    by (rule wp_mono) (use s links_quiet_same history_ok_fixed in \<open>auto simp: settled_def st_def base_st_def world_ok_def fixed_def\<close>)
qed

subsection \<open>Clearing the deprecated links\<close>

lemma first_deprecated_result:
  assumes "\<forall>(r, p)\<in>set items. fam_load p (w_links w) \<noteq> None"
  shows "(first_deprecated items w = Some None \<and> (\<forall>(r, p)\<in>set items. \<not> l_deprecated (the (fam_load p (w_links w)))))
     \<or> (\<exists>r p link. first_deprecated items w = Some (Some (r, p)) \<and> (r, p) \<in> set items
          \<and> fam_load p (w_links w) = Some link \<and> l_deprecated link)"
  using assms
proof (induction items)
  case Nil
  then show ?case by simp
next
  case (Cons item items)
  obtain r p where item: "item = (r, p)" by fastforce
  obtain link where link: "fam_load p (w_links w) = Some link" using Cons.prems item by auto
  have "\<forall>(r, p)\<in>set items. fam_load p (w_links w) \<noteq> None" using Cons.prems by simp
  from Cons.IH [OF this] link show ?case by (cases "l_deprecated link") (auto simp: item)
qed

text \<open>Which links remain, and that no object changes.\<close>

definition deprecated_removed :: "world \<Rightarrow> world \<Rightarrow> bool" where
  "deprecated_removed w w' \<longleftrightarrow> fm_heap (w_links w') = fm_heap (w_links w)
     \<and> hash_map (working (w_links w')) = (\<lambda>r. case hash_map (working (w_links w)) r of None \<Rightarrow> None
          | Some p \<Rightarrow> if l_deprecated (the (fam_load p (w_links w))) then None else Some p)"

lemma deprecated_removed_step:
  assumes r: "hash_map (working (w_links w)) r = Some p" "l_deprecated (the (fam_load p (w_links w)))"
    and w': "hash_map (working (w_links w')) = (hash_map (working (w_links w)))(r := None)"
      "fm_heap (w_links w') = fm_heap (w_links w)"
    and rest: "deprecated_removed w' w''"
  shows "deprecated_removed w w''"
  using assms by (auto simp: deprecated_removed_def fun_eq_iff fam_load_def split: option.split)

lemma links_clear_all_deprecated_result:
  assumes "settled w"
  shows "wp (links_clear_all_deprecated w) (\<lambda>w'. settled w' \<and> w_wsn_last_version w' = w_wsn_last_version w
    \<and> deprecated_removed w w')"
  using assms
proof (induction "card (dom (hash_map (working (w_links w))))" arbitrary: w rule: less_induct)
  case less
  have ok: "base_ok w" and m: "members_ok w" and q: "links_quiet w"
    using less.prems by (simp_all add: settled_def world_ok_def)
  note fam = base_okD(4) [OF ok]
  let ?c = "working (w_links w)"
  have hok: "hash_ok ?c" using working_ok [OF fam] by (simp add: container_ok_def)
  have items: "(r, p) \<in> set (hash_items ?c) \<longleftrightarrow> hash_map ?c r = Some p" for r p using hash_map_items [OF hok] by simp
  have "\<forall>(r, p)\<in>set (hash_items ?c). fam_load p (w_links w) \<noteq> None"
    using working_object [OF fam] items by (fastforce simp: fam_load_def)
  from first_deprecated_result [OF this] consider
      (none) "first_deprecated (hash_items ?c) w = Some None"
        "\<forall>(r, p)\<in>set (hash_items ?c). \<not> l_deprecated (the (fam_load p (w_links w)))"
    | (some) r p link where "first_deprecated (hash_items ?c) w = Some (Some (r, p))" "hash_map ?c r = Some p"
        "fam_load p (w_links w) = Some link" "l_deprecated link"
    using items by blast
  then show ?case
  proof cases
    case none
    then have "deprecated_removed w w" by (auto simp: deprecated_removed_def fun_eq_iff items split: option.split)
    then show ?thesis
      using none less.prems by (simp add: links_clear_all_deprecated.simps [of w] rpldata_get_working_links [OF ok])
  next
    case some
    let ?c' = "snd (the (hash_delete ?c r))"
    let ?f = "fam_set_container 0 ?c' (w_links w)"
    let ?w = "w\<lparr>w_links := ?f, w_head := w_head w @ [ROT_Link RET_Deleted r]\<rparr>"
    note rem = rpldata_del_link_result(2) [OF ok, of r]
    note d = link_deleted_base [OF ok q some(2) rem refl]
    have key: "l_key link = r" using load_working [OF fam some(2)] some(3) by force
    have del: "rpldata_del_link r w = Some (p, w\<lparr>w_links := ?f\<rparr>)"
      using rpldata_del_link_result(1) [OF ok, of r] some(2) by simp
    have w': "hash_map (working (w_links ?w)) = (hash_map ?c)(r := None)" "fm_heap (w_links ?w) = fm_heap (w_links w)"
      using rem by (simp_all add: fam_set_container_0 [OF fam] fam_remove_def)
    have s: "settled ?w" using d m same_members_ok history_ok_fixed [OF d(2)] less.prems by (simp add: settled_def world_ok_def)
    have "finite (dom (hash_map ?c))" "r \<in> dom (hash_map ?c)"
      using some(2) by (simp_all add: hash_map_def finite_dom_map_of domI)
    then have "card (dom (hash_map (working (w_links ?w)))) < card (dom (hash_map ?c))"
      unfolding w' dom_fun_upd by (simp add: card_Diff1_less del: card_Diff_insert)
    note IH = less.hyps [OF this s]
    have "links_clear_all_deprecated w = links_clear_all_deprecated ?w"
      using some(1,3) del key
      by (simp add: links_clear_all_deprecated.simps [of w] rpldata_get_working_links [OF ok] rpl_event_link_def
          fam_load_def fam_set_container_0 [OF fam])
    then show ?thesis
      using IH deprecated_removed_step [OF some(2) _ w'] some(3,4) by (auto elim!: wp_mono)
  qed
qed

subsection \<open>Initialisation and clearing\<close>

lemma hash_map_create: "hash_map (hash_create c) k = None"
  by (simp add: hash_map_def)

lemma fam_init_ok:
  assumes "heap_ok h"
  shows "fam_ok key good (fam_init h)" "fam_pending changed (fam_init h) []" "fm_last (fam_init h) = 0"
    "hash_map (working (fam_init h)) = Map.empty"
proof -
  note none = hash_map_create
  have v: "fam_init h = \<lparr>fm_heap = h, fm_versions = hash_append 0 new_container (hash_create (\<lambda>_. new_container)),
      fm_last = 0\<rparr>"
    by (simp add: fam_init_def hash_add_nocheck)
  have m: "hash_map (fm_versions (fam_init h)) = [0 \<mapsto> new_container]"
    by (simp add: v hash_append_map [OF none]) (simp add: hash_map_def)
  have new: "hash_map new_container = Map.empty" "hash_ok new_container"
    by (simp_all add: new_container_def hash_map_def)
  have w: "working (fam_init h) = new_container" by (simp add: working_def m)
  show "fm_last (fam_init h) = 0" by (simp add: v)
  show "hash_map (working (fam_init h)) = Map.empty" by (simp add: w new)
  show "fam_ok key good (fam_init h)"
    unfolding fam_ok_def w m using assms hash_append_ok [OF hash_ok_create none, of 0 new_container]
    by (auto simp: v new container_ok_def version_at_def split: if_splits)
  show "fam_pending changed (fam_init h) []" by (simp add: fam_pending_def w new)
qed

definition heaps_ok :: "world \<Rightarrow> bool" where
  "heaps_ok w \<longleftrightarrow> heap_ok (fm_heap (w_nodes w)) \<and> heap_ok (fm_heap (w_dodags w))
     \<and> heap_ok (fm_heap (w_rpl_instances w)) \<and> heap_ok (fm_heap (w_links w))"

lemma rpldata_init_fields:
  "w_nodes (rpldata_init w) = fam_init (fm_heap (w_nodes w))" "w_dodags (rpldata_init w) = fam_init (fm_heap (w_dodags w))"
  "w_rpl_instances (rpldata_init w) = fam_init (fm_heap (w_rpl_instances w))"
  "w_links (rpldata_init w) = fam_init (fm_heap (w_links w))" "w_head (rpldata_init w) = w_head w"
  "w_allocated (rpldata_init w) = w_allocated w" "w_wsn_last_version (rpldata_init w) = 0"
  "w_callbacks (rpldata_init w) = w_callbacks w" "w_out (rpldata_init w) = w_out w"
  by (simp_all add: rpldata_init_def Let_def)

lemma rpldata_init_settled:
  assumes "heaps_ok w" "w_head w = []" "w_allocated w = []"
  shows "settled (rpldata_init w)"
proof -
  let ?w = "rpldata_init w"
  have "families_ok ?w" "pending_ok ?w"
    using assms by (simp_all add: fam_init_ok families_ok_def pending_ok_def heaps_ok_def rpldata_init_fields)
  moreover have "alloc_ok ?w" by (simp add: alloc_ok_def rpldata_init_fields assms)
  moreover have "wsn_ok ?w"
    using assms(1)
    by (simp add: fam_init_ok(3) wsn_ok_def rpldata_init_fields heaps_ok_def)
      (auto simp: rpldata_init_def Let_def wsn_records_def not_less elim: order_less_le_trans [rotated])
  moreover have "members_ok ?w" "links_quiet ?w"
    using assms
    by (simp_all add: fam_init_ok(4) members_ok_def node_in_def members_def fam_view_def links_quiet_def rpldata_init_fields heaps_ok_def)
  moreover have "history_ok ?w" by (simp add: history_ok_def rpldata_init_fields)
  ultimately show ?thesis by (simp add: settled_def world_ok_def base_ok_def)
qed

lemma free_object_live:
  assumes "live w el" "heaps_ok w"
  shows "wp (free_object el w) (\<lambda>w'. heaps_ok w' \<and> (\<forall>el'. el' \<noteq> el \<longrightarrow> live w el' \<longrightarrow> live w' el')
    \<and> w_head w' = w_head w \<and> w_wsn_last_version w' = w_wsn_last_version w)"
proof (cases el)
  case (el_node p)
  then obtain x where "fam_load p (w_nodes w) = Some x" using assms(1) by auto
  then show ?thesis using assms(2) el_node by (auto simp: heaps_ok_def fam_load_def heap_ok_free elim!: live.elims)
next
  case (el_dodag p)
  then obtain x where "fam_load p (w_dodags w) = Some x" using assms(1) by auto
  then show ?thesis using assms(2) el_dodag by (auto simp: heaps_ok_def fam_load_def heap_ok_free elim!: live.elims)
next
  case (el_rpl_instance p)
  then obtain x where "fam_load p (w_rpl_instances w) = Some x" using assms(1) by auto
  then show ?thesis using assms(2) el_rpl_instance by (auto simp: heaps_ok_def fam_load_def heap_ok_free elim!: live.elims)
next
  case (el_link p)
  then obtain x where "fam_load p (w_links w) = Some x" using assms(1) by auto
  then show ?thesis using assms(2) el_link by (auto simp: heaps_ok_def fam_load_def heap_ok_free elim!: live.elims)
qed

lemma free_all:
  assumes "distinct els" "\<forall>el\<in>set els. live w el" "heaps_ok w"
  shows "wp (each free_object els w) (\<lambda>w'. heaps_ok w' \<and> w_head w' = w_head w)"
  using assms
proof (induction els arbitrary: w)
  case Nil
  then show ?case by simp
next
  case (Cons el els)
  have "wp (each free_object els w') (\<lambda>w'. heaps_ok w' \<and> w_head w' = w_head w)"
    if "heaps_ok w' \<and> (\<forall>el'. el' \<noteq> el \<longrightarrow> live w el' \<longrightarrow> live w' el') \<and> w_head w' = w_head w" for w'
  proof -
    have "\<forall>el'\<in>set els. live w' el'" using that Cons.prems(1,2) by auto
    then show ?thesis using Cons.IH [of w'] Cons.prems(1) that by simp
  qed
  then show ?case using free_object_live [of w el] Cons.prems by (auto elim!: wp_mono)
qed

lemma rpldata_clear_settled:
  assumes s: "settled w" and idle: "w_head w = []"
  shows "wp (rpldata_clear w) (\<lambda>w'. settled w' \<and> w_wsn_last_version w' = 0 \<and> w_head w' = [])"
proof -
  have ok: "base_ok w" using s by (simp add: settled_def world_ok_def)
  have heaps: "heaps_ok w" using base_okD(1-4) [OF ok] by (auto simp: heaps_ok_def intro: fam_okD(1))
  have "wp (each free_object (w_allocated w) w) (\<lambda>w'. heaps_ok w' \<and> w_head w' = w_head w)"
    using base_okD(10) [OF ok] heaps by (intro free_all) (simp_all add: alloc_ok_def)
  moreover have "settled (rpl_event_clear (rpldata_init (w'\<lparr>w_allocated := []\<rparr>)))" if "heaps_ok w'" "w_head w' = []" for w'
  proof -
    have "settled (rpldata_init (w'\<lparr>w_allocated := []\<rparr>))"
      using that by (intro rpldata_init_settled) (simp_all add: heaps_ok_def)
    then show ?thesis by (rule settled_same) (simp_all add: rpl_event_clear_def emit_def same_data_def)
  qed
  moreover have "w_head (rpl_event_clear w') = w_head w'" "w_wsn_last_version (rpl_event_clear w') = w_wsn_last_version w'" for w'
    by (simp_all add: rpl_event_clear_def emit_def)
  ultimately show ?thesis
    using idle by (auto simp: rpldata_clear_def Let_def rpldata_init_fields elim!: wp_mono)
qed

text \<open>
  Clearing does not drop the pending events. The next commit then looks for objects that are
  not there any more, and dereferences NULL.
\<close>

lemma process_events_fail:
  assumes "ev \<in> set evs" "event_callbacks v w ev = None"
  shows "each (\<lambda>event w. do { w \<leftarrow> process_event v event w; Some (w\<lparr>w_head := drop 1 (w_head w)\<rparr>) }) evs
      (w\<lparr>w_out := out, w_head := evs\<rparr>) = None"
  using assms
proof (induction evs arbitrary: out)
  case Nil
  then show ?case by simp
next
  case (Cons ev' evs)
  show ?case
  proof (cases "event_callbacks v w ev'")
    case None
    then show ?thesis by (simp add: process_event_callbacks event_callbacks_out)
  next
    case (Some cbs)
    then have "ev \<in> set evs" using Cons.prems by auto
    moreover have "process_event v ev' (w\<lparr>w_out := out, w_head := ev' # evs\<rparr>) = Some (w\<lparr>w_out := out @ cbs, w_head := ev' # evs\<rparr>)"
      using Some by (simp add: process_event_callbacks event_callbacks_out)
    ultimately show ?thesis using Cons.IH [of "out @ cbs"] Cons.prems(2) by simp
  qed
qed

lemma event_object_nothing:
  assumes "fam_ok key good fam" "hash_map (working fam) = Map.empty"
    "fm_last fam \<noteq> 0 \<Longrightarrow> dom (version_at (fm_last fam) fam) = dom (hash_map (working fam))" "v = 0 \<or> v = fm_last fam"
  shows "event_object (fam_container v fam) r = None"
  using assms version_at_0 [OF assms(1)] by (cases "v = 0") (auto simp: event_object_version [OF assms(1)])

subsection \<open>Packets\<close>

lemma collect_ok:
  assumes "settled w"
  shows "wp (collect pkt_info packet w) (handled w)"
proof -
  have s: "st True w {} {} {} {} w" and q: "links_quiet w"
    using assms st_start by (simp_all add: settled_def)
  show ?thesis
    by (cases packet)
      (simp_all add: rpl_collector_parse_dis_st [OF s] rpl_collector_parse_dio_st [OF s]
        rpl_collector_parse_dao_st [OF s q] rpl_collector_parse_data_st [OF s])
qed

lemma analyze_packet_settled:
  assumes s: "settled w" and small: "unat (w_wsn_last_version w) + 1 < 2 ^ 31"
  shows "wp (analyze_packet packet_id pkt_info packet w) (\<lambda>w'. settled w' \<and> w_head w' = []
    \<and> unat (w_wsn_last_version w') \<le> unat (w_wsn_last_version w) + 1)"
proof -
  let ?w = "w\<lparr>w_head := rpl_event_packet packet_id pkt_info (w_head w)\<rparr>"
  have s': "settled ?w" by (rule settled_same [OF s]) (simp add: same_data_def rpl_event_packet_def)
  have "wp (rpl_event_commit_changed_objects packet_id (pkt_timestamp pkt_info) w')
      (\<lambda>x. settled (snd x) \<and> w_head (snd x) = [] \<and> unat (w_wsn_last_version (snd x)) \<le> unat (w_wsn_last_version w) + 1)"
    if "handled ?w w'" for w'
  proof -
    have w': "world_ok w'" "w_wsn_last_version w' = w_wsn_last_version w"
      using that by (simp_all add: handled_def fixed_def)
    have h: "history_ok w'" using s' history_ok_fixed [of ?w w'] that by (simp add: settled_def handled_def)
    have "unat (w_wsn_last_version w + 1) \<le> unat (w_wsn_last_version w) + 1"
      by (simp add: unat_word_ariths)
    then show ?thesis
      using small w'(2) h
      by (intro wp_mono [OF commit_succeeds [OF w'(1)]]) (auto simp: commit_result_def settled_def)
  qed
  then show ?thesis
    using collect_ok [OF s', of pkt_info packet]
    by (auto simp: analyze_packet_def case_prod_beta elim!: wp_mono)
qed

subsection \<open>Runs\<close>

text \<open>
  \<open>clears_idle pending ops\<close>: the data are not cleared between a change by the user and the next
  packet; \<open>pending\<close> tells whether such a change has been made before the first operation.
\<close>

fun clears_idle :: "bool \<Rightarrow> analyzer_op list \<Rightarrow> bool" where
  "clears_idle pending [] = True"
| "clears_idle pending (op_packet _ _ _ _ # ops) = clears_idle False ops"
| "clears_idle pending (op_clear_errors # ops) = clears_idle True ops"
| "clears_idle pending (op_clear_deprecated # ops) = clears_idle True ops"
| "clears_idle pending (op_clear # ops) = (\<not> pending \<and> clears_idle False ops)"
| "clears_idle pending (_ # ops) = clears_idle pending ops"

fun packets :: "analyzer_op list \<Rightarrow> nat" where
  "packets [] = 0"
| "packets (op_packet _ _ _ _ # ops) = Suc (packets ops)"
| "packets (_ # ops) = packets ops"

lemma analyzer_step_settled:
  assumes "settled w" "\<not> pending \<Longrightarrow> w_head w = []" "clears_idle pending (op # ops)"
    "unat (w_wsn_last_version w) + packets (op # ops) < 2 ^ 31"
  shows "wp (analyzer_step op w) (\<lambda>w'. settled w' \<and> (\<exists>pending'. (\<not> pending' \<longrightarrow> w_head w' = []) \<and> clears_idle pending' ops)
    \<and> unat (w_wsn_last_version w') + packets ops < 2 ^ 31)"
proof (cases op)
  case (op_packet time packet_id pkt_info packet)
  have "settled (w\<lparr>w_time := time\<rparr>)" by (rule settled_same [OF assms(1)]) (simp add: same_data_def)
  then show ?thesis
    using analyze_packet_settled [of "w\<lparr>w_time := time\<rparr>" packet_id pkt_info packet] assms op_packet
    by (auto elim!: wp_mono)
next
  case op_clear_errors
  then show ?thesis using nodes_clear_all_errors_st [OF assms(1)] assms by (auto elim!: wp_mono)
next
  case op_clear_deprecated
  then show ?thesis using links_clear_all_deprecated_result [OF assms(1)] assms by (auto elim!: wp_mono)
next
  case op_clear
  then show ?thesis using rpldata_clear_settled [OF assms(1)] assms by (auto elim!: wp_mono)
next
  case (op_config config)
  have "settled (w\<lparr>w_config := config\<rparr>)" by (rule settled_same [OF assms(1)]) (simp add: same_data_def)
  then show ?thesis using assms op_config by auto
next
  case (op_callbacks callbacks)
  have "settled (rpl_event_set_callbacks callbacks w)"
    by (rule settled_same [OF assms(1)]) (simp add: same_data_def rpl_event_set_callbacks_def)
  then show ?thesis using assms op_callbacks by (auto simp: rpl_event_set_callbacks_def)
qed

text \<open>A run keeps whatever its steps keep besides; the data are only cleared with no event pending.\<close>

lemma analyzer_runs_keeping:
  assumes "settled w" "I w" "\<not> pending \<Longrightarrow> w_head w = []" "clears_idle pending ops"
    "unat (w_wsn_last_version w) + packets ops < 2 ^ 31"
    and keep: "\<And>op w w'. op \<in> set ops \<Longrightarrow> settled w \<Longrightarrow> I w \<Longrightarrow> unat (w_wsn_last_version w) + packets [op] < 2 ^ 31
      \<Longrightarrow> analyzer_step op w = Some w' \<Longrightarrow> I w'"
  shows "wp (analyzer_run ops w) (\<lambda>w'. settled w' \<and> I w')"
  using assms
proof (induction ops arbitrary: w pending)
  case Nil
  then show ?case by (simp add: analyzer_run_def)
next
  case (Cons op ops)
  have "unat (w_wsn_last_version w) + packets [op] < 2 ^ 31" using Cons.prems(5) by (cases op) auto
  then have I: "I w'" if "analyzer_step op w = Some w'" for w' using Cons.prems(6) [of op w w'] Cons.prems(1,2) that by simp
  have "wp (analyzer_run ops w') (\<lambda>w'. settled w' \<and> I w')"
    if "settled w'" "I w'" "\<not> pending' \<Longrightarrow> w_head w' = []" "clears_idle pending' ops"
      "unat (w_wsn_last_version w') + packets ops < 2 ^ 31" for w' pending'
    by (rule Cons.IH [OF that], assumption, rule Cons.prems(6), simp_all)
  then show ?case
    using analyzer_step_settled [OF Cons.prems(1,3-5)] I by (fastforce simp: analyzer_run_def elim!: wp_mono)
qed

lemma analyzer_runs:
  assumes "settled w" "\<not> pending \<Longrightarrow> w_head w = []" "clears_idle pending ops"
    "unat (w_wsn_last_version w) + packets ops < 2 ^ 31"
  shows "wp (analyzer_run ops w) settled"
  using analyzer_runs_keeping [OF assms(1) _ assms(2-4), where I = "\<lambda>_. True"] by simp

text \<open>The state of the globals before \<open>rpl_tool_init\<close>, and what that function makes of it.\<close>

definition zero_family :: "('r, 'o) family" where
  "zero_family = \<lparr>fm_heap = heap_empty, fm_versions = hash_create (\<lambda>_. new_container), fm_last = 0\<rparr>"

definition initial_config :: analyser_config where
  "initial_config = \<lparr>cfg_root_rank = 256, cfg_context0 = in6_of_bytes [0xAA, 0xAA, 0, 0, 0, 0, 0, 0, 0, 0, 0, 0, 0, 0, 0, 0],
     cfg_address_autconf_only = True, cfg_one_preferred_parent = True, cfg_sender_rank_inverted = False\<rparr>"

definition no_callbacks :: rpl_event_callbacks where
  "no_callbacks = \<lparr>cb_onNodeEvent = False, cb_onDodagEvent = False, cb_onLinkEvent = False, cb_onRplInstanceEvent = False,
     cb_onPacketEvent = False, cb_onClearEvent = False\<rparr>"

definition zero_state :: di_rpl_wsn_state where
  "zero_state = \<lparr>x_node_version = 0, x_dodag_version = 0, x_rpl_instance_version = 0, x_links_version = 0,
     x_timestamp = 0, x_packet_id = 0, x_has_errors = 0\<rparr>"

definition rpl_tool_init :: "(real \<Rightarrow> real) \<Rightarrow> world" where
  "rpl_tool_init fl = rpldata_init
     \<lparr>w_config = initial_config, w_time = 0, w_fl = fl, w_last_simple_id = 0, w_nodes = zero_family, w_dodags = zero_family,
      w_rpl_instances = zero_family, w_links = zero_family, w_allocated = [], w_wsn_versions = (\<lambda>_. zero_state),
      w_wsn_version_array_size = 0, w_wsn_last_version = 0, w_node_last_version_has_errors = 0, w_head = [],
      w_callbacks = no_callbacks, w_out = []\<rparr>"

lemma rpl_tool_init_settled: "settled (rpl_tool_init fl)" "w_head (rpl_tool_init fl) = []"
    "w_wsn_last_version (rpl_tool_init fl) = 0"
  unfolding rpl_tool_init_def
  by (rule rpldata_init_settled; simp add: heaps_ok_def zero_family_def) (simp_all add: rpldata_init_fields)

subsection \<open>Committing after a clear with events pending\<close>

text \<open>A world without objects that has never been committed, whatever its pending events.\<close>

definition emptied :: "world \<Rightarrow> bool" where
  "emptied w \<longleftrightarrow> world_ok (w\<lparr>w_head := []\<rparr>) \<and> w_wsn_last_version w = 0
     \<and> hash_map (working (w_nodes w)) = Map.empty \<and> hash_map (working (w_dodags w)) = Map.empty
     \<and> hash_map (working (w_rpl_instances w)) = Map.empty \<and> hash_map (working (w_links w)) = Map.empty"

lemma rpldata_clear_emptied:
  assumes ok: "world_ok w"
  shows "wp (rpldata_clear w) (\<lambda>w'. emptied w' \<and> w_head w' = w_head w)"
proof -
  have base: "base_ok w" using ok by (simp add: world_ok_def)
  have heaps: "heaps_ok w" using base_okD(1-4) [OF base] by (auto simp: heaps_ok_def intro: fam_okD(1))
  have "wp (each free_object (w_allocated w) w) (\<lambda>w'. heaps_ok w' \<and> w_head w' = w_head w)"
    using base_okD(10) [OF base] heaps by (intro free_all) (simp_all add: alloc_ok_def)
  moreover have "emptied (rpl_event_clear (rpldata_init (w'\<lparr>w_allocated := []\<rparr>)))
      \<and> w_head (rpl_event_clear (rpldata_init (w'\<lparr>w_allocated := []\<rparr>))) = w_head w'" if "heaps_ok w'" for w'
  proof -
    let ?init = "rpldata_init (w'\<lparr>w_allocated := []\<rparr>)"
    have "settled (rpldata_init (w'\<lparr>w_allocated := [], w_head := []\<rparr>))"
      using that by (intro rpldata_init_settled) (simp_all add: heaps_ok_def)
    then have "settled ((rpl_event_clear ?init)\<lparr>w_head := []\<rparr>)"
      by (rule settled_same) (simp add: rpl_event_clear_def emit_def same_data_def rpldata_init_def Let_def)
    then show ?thesis
      using that by (simp add: emptied_def settled_def rpl_event_clear_def emit_def rpldata_init_fields fam_init_ok heaps_ok_def)
  qed
  ultimately show ?thesis by (auto simp: rpldata_clear_def Let_def elim!: wp_mono)
qed

lemma emptied_lookup_fails:
  assumes e: "emptied w" and c: "committed (made_for (w_head w)) w w'" and ev: "ev \<in> set (w_head w)" "object_event ev"
  shows "event_callbacks 1 (recorded pid ts w') ev = None"
proof -
  have ok: "base_ok (w\<lparr>w_head := []\<rparr>)" using e by (simp add: emptied_def world_ok_def)
  note b = base_okD [OF ok, simplified]
  have wsn: "wsn_ok w" "w_wsn_last_version w = 0" using b(9) e by (simp_all add: wsn_ok_def emptied_def)
  have zero: "fm_last (w_nodes w) = 0" "fm_last (w_dodags w) = 0" "fm_last (w_rpl_instances w) = 0" "fm_last (w_links w) = 0"
    and entry0: "wsn_records 0 0 0 0 (w_wsn_versions w 0)"
    using wsn by (simp_all add: wsn_ok_def)
  have entries: "wsn_at (event_version 1 t) (recorded pid ts w') =
      Some (if t = RET_Deleted then w_wsn_versions w 0 else new_entry pid ts w')" for t
    using recorded_entries [OF wsn(1) _ c, of t pid ts] wsn(2) by simp
  have made: "ev = ROT_Node t r \<Longrightarrow> mv_node (made_for (w_head w))" "ev = ROT_Dodag t d \<Longrightarrow> mv_dodag (made_for (w_head w))"
    "ev = ROT_RplInstance t i \<Longrightarrow> mv_rpl_instance (made_for (w_head w))" "ev = ROT_Link t l \<Longrightarrow> mv_link (made_for (w_head w))"
    for t r d i l
    using in_events_of [OF ev(1), of node_event] in_events_of [OF ev(1), of dodag_event]
      in_events_of [OF ev(1), of rpl_instance_event] in_events_of [OF ev(1), of link_event]
    by (auto simp: made_for_def)
  show ?thesis
  proof (cases ev)
    case (ROT_Node t r)
    then have v: "node_version_added w (w_nodes w) (w_nodes w')" using c made by (simp add: committed_def)
    show ?thesis
      using v e zero(1) entry0 ROT_Node event_object_nothing [of n_key node_good "w_nodes w'"]
      by (auto simp: node_versions.version_added_def emptied_def rpldata_get_nodes_def entries new_entry_def
          version_or_none_def wsn_records_def)
  next
    case (ROT_Dodag t r)
    then have v: "dodag_version_added (w_dodags w) (w_dodags w')" using c made by (simp add: committed_def)
    show ?thesis
      using v e zero(2) entry0 ROT_Dodag event_object_nothing [of d_key dodag_ok "w_dodags w'"]
      by (auto simp: dodag_versions.version_added_def emptied_def rpldata_get_dodags_def entries new_entry_def
          version_or_none_def wsn_records_def)
  next
    case (ROT_RplInstance t r)
    then have v: "rpl_instance_version_added (w_rpl_instances w) (w_rpl_instances w')" using c made by (simp add: committed_def)
    show ?thesis
      using v e zero(3) entry0 ROT_RplInstance event_object_nothing [of i_key instance_ok "w_rpl_instances w'"]
      by (auto simp: rpl_instance_versions.version_added_def emptied_def rpldata_get_rpl_instances_def entries new_entry_def
          version_or_none_def wsn_records_def)
  next
    case (ROT_Link t r)
    then have v: "link_version_added (w_links w) (w_links w')" using c made by (simp add: committed_def)
    show ?thesis
      using v e zero(4) entry0 ROT_Link event_object_nothing [of l_key "\<lambda>_. True" "w_links w'"]
      by (auto simp: link_versions.version_added_def emptied_def rpldata_get_links_def entries new_entry_def
          version_or_none_def wsn_records_def)
  next
    case (ROT_Packet n i)
    then show ?thesis using ev(2) by simp
  qed
qed

lemma emptied_commit_fails:
  assumes e: "emptied w" and ev: "ev \<in> set (w_head w)" "object_event ev"
  shows "rpl_event_commit_changed_objects packet_id timestamp w = None"
proof -
  have ok: "base_ok (w\<lparr>w_head := []\<rparr>)" using e by (simp add: emptied_def world_ok_def)
  have wsn: "wsn_ok w" "w_wsn_last_version w = 0" using base_okD(9) [OF ok] e by (simp_all add: wsn_ok_def emptied_def)
  obtain w' where w': "each commit_event (w_head w) (no_versions, w) = Some (made_for (w_head w), w')"
      "committed (made_for (w_head w)) w w'"
    using commit_events_committed [OF ok] by (auto simp: wp_def)
  let ?r = "recorded packet_id timestamp w'"
  have r: "?r\<lparr>w_out := w_out ?r, w_head := w_head w\<rparr> = ?r" "w_head ?r = w_head w"
    using committed_fields(2) [OF w'(2)] by simp_all
  have "rpl_event_process_events 1 ?r = None"
    using process_events_fail [OF ev(1) emptied_lookup_fails [OF e w'(2) ev, of packet_id timestamp], of "w_out ?r"]
    unfolding rpl_event_process_events_def r .
  moreover have "rpldata_wsn_create_version packet_id timestamp w' = rpl_event_process_events 1 ?r"
    using rpldata_wsn_create_version_recorded [OF wsn(1), of w'] committed_fields [OF w'(2)] wsn(2) by simp
  ultimately show ?thesis
    using w'(1) made_for_any [of "w_head w"] ev
    by (auto simp: rpl_event_commit_changed_objects_def no_versions_def [symmetric] Let_def)
qed

end
