(* ===== verification/CollectorSpec.thy ===== *)
theory CollectorSpec
  imports Analyzer
begin

section \<open>What the collector knows\<close>

text \<open>
  An abstract specification of \<open>src/src/data_collector/rpl_collector.c\<close>. Of the working version it
  keeps the links, the routing tables and the global addresses of the nodes, as maps from the keys; containers, pointers,
  events, counters of errors and older versions are gone. What a DAO and a data packet do to these maps is written
  as a function, and the handlers are proved to compute it (\<open>dao_refines\<close>, \<open>data_refines\<close>). What a DIO does to
  the membership of nodes in DODAGs is in the last part.
\<close>

record known_link =
  kl_deprecated :: bool
  kl_packet_count :: u32
  kl_last_update :: u64

record known_node =
  kn_routes :: di_route_list
  kn_address :: in6_addr

record net =
  nt_links :: "di_link_ref \<rightharpoonup> known_link"
  nt_nodes :: "di_node_ref \<rightharpoonup> known_node"

definition known_link_of :: "di_link \<Rightarrow> known_link" where
  "known_link_of l = \<lparr>kl_deprecated = l_deprecated l, kl_packet_count = l_packet_count l, kl_last_update = l_last_update l\<rparr>"

definition known :: "di_node \<Rightarrow> known_node" where
  "known n = \<lparr>kn_routes = n_routes n, kn_address = node_get_global_ip n\<rparr>"

definition net_of :: "world \<Rightarrow> net" where
  "net_of w = \<lparr>nt_links = fam_view known_link_of (w_links w), nt_nodes = fam_view known (w_nodes w)\<rparr>"

subsection \<open>The steps of the specification\<close>

definition meet_node :: "di_node_ref \<Rightarrow> net \<Rightarrow> net" where
  "meet_node r net =
     (if nt_nodes net r = None then net\<lparr>nt_nodes := (nt_nodes net)(r \<mapsto> \<lparr>kn_routes = [], kn_address = init_ipv6_addr\<rparr>)\<rparr> else net)"

definition change_node :: "di_node_ref \<Rightarrow> (known_node \<Rightarrow> known_node) \<Rightarrow> net \<Rightarrow> net" where
  "change_node r g net = net\<lparr>nt_nodes := (nt_nodes net)(r := map_option g (nt_nodes net r))\<rparr>"

text \<open>A source address that is neither link local nor global says nothing about the global address.\<close>

definition see_address :: "in6_addr \<Rightarrow> known_node \<Rightarrow> known_node" where
  "see_address ip n = (if \<not> addr_is_ip_local ip \<and> addr_is_ip_global ip then n\<lparr>kn_address := ip\<rparr> else n)"

definition learn_route :: "di_route \<Rightarrow> addr_wpan \<Rightarrow> known_node \<Rightarrow> known_node" where
  "learn_route route via n = n\<lparr>kn_routes := fst (snd (route_add (kn_routes n) route via False (Some False)))\<rparr>"

definition forget_route :: "di_route \<Rightarrow> addr_wpan \<Rightarrow> known_node \<Rightarrow> known_node" where
  "forget_route route via n = n\<lparr>kn_routes := snd (route_remove (kn_routes n) route via)\<rparr>"

definition meet_link :: "di_link_ref \<Rightarrow> net \<Rightarrow> net" where
  "meet_link r net =
     (if nt_links net r = None
      then net\<lparr>nt_links := (nt_links net)(r \<mapsto> \<lparr>kl_deprecated = False, kl_packet_count = 0, kl_last_update = 0\<rparr>)\<rparr> else net)"

definition deprecate_rivals :: "di_link_ref \<Rightarrow> net \<Rightarrow> net" where
  "deprecate_rivals r net =
     net\<lparr>nt_links := (\<lambda>x. if lr_child x = lr_child r \<and> x \<noteq> r
                          then map_option (kl_deprecated_update (\<lambda>_. True)) (nt_links net x) else nt_links net x)\<rparr>"

definition touch_link :: "di_link_ref \<Rightarrow> u64 \<Rightarrow> net \<Rightarrow> net" where
  "touch_link r time net =
     net\<lparr>nt_links := (nt_links net)(r := map_option (\<lambda>l.
       \<lparr>kl_deprecated = False, kl_packet_count = kl_packet_count l + 1, kl_last_update = time\<rparr>) (nt_links net r))\<rparr>"

text \<open>A packet was seen on the link: it is known and in use, and with one preferred parent it is the only one.\<close>

definition use_link :: "bool \<Rightarrow> u64 \<Rightarrow> di_link_ref \<Rightarrow> net \<Rightarrow> net" where
  "use_link one_parent time r net =
     touch_link r time (if one_parent then deprecate_rivals r (meet_link r net) else meet_link r net)"

definition drop_link :: "di_link_ref \<Rightarrow> net \<Rightarrow> net" where
  "drop_link r net = net\<lparr>nt_links := (nt_links net)(r := None)\<rparr>"

lemma change_node_id [simp]: "change_node r (\<lambda>n. n) net = net"
  by (simp add: change_node_def option.map_ident fun_upd_idem)

subsection \<open>The operations and their steps\<close>

text \<open>The state of a handler together with what it knows.\<close>

definition nst ::
    "net \<Rightarrow> bool \<Rightarrow> world \<Rightarrow> (di_node_ref \<times> nat) set \<Rightarrow> (di_dodag_ref \<times> nat) set \<Rightarrow> (di_rpl_instance_ref \<times> nat) set
      \<Rightarrow> (di_link_ref \<times> nat) set \<Rightarrow> world \<Rightarrow> bool" where
  "nst K b w0 N D I L w \<longleftrightarrow> st b w0 N D I L w \<and> net_of w = K"

lemma nst_st: "nst K b w0 N D I L w \<Longrightarrow> st b w0 N D I L w"
  by (simp add: nst_def)

lemma st_base_ok: "st b w0 N D I L w \<Longrightarrow> base_ok w"
  by (simp add: st_def base_st_def)

lemma st_node_at: "st b w0 N D I L w \<Longrightarrow> (r, p) \<in> N \<Longrightarrow> hash_map (working (w_nodes w)) r = Some p"
  by (auto simp: st_def base_st_def dest: holdsD)

lemma st_link_at: "st b w0 N D I L w \<Longrightarrow> (r, p) \<in> L \<Longrightarrow> hash_map (working (w_links w)) r = Some p"
  by (auto simp: st_def base_st_def dest: holdsD)

lemma wp_net: "wp m P \<Longrightarrow> (\<And>x. m = Some x \<Longrightarrow> P x \<Longrightarrow> R x) \<Longrightarrow> (\<And>x. P x \<Longrightarrow> R x \<Longrightarrow> Q x) \<Longrightarrow> wp m Q"
  by (auto simp: wp_def)

lemma node_op_net:
  assumes s: "st b w0 N D I L w" and p: "(r, p) \<in> N" and f: "\<And>s. known (fst (f s)) = g (known (fst s))"
    and w': "node_op p f w = Some w'"
  shows "net_of w' = change_node r g (net_of w)"
proof -
  note fam = base_okD(1) [OF st_base_ok [OF s]] and P = st_node_at [OF s p]
  obtain n where n: "fam_load p (w_nodes w) = Some n" by (rule st_load_node [OF s p])
  obtain n' h where f': "f (n, w_head w) = (n', h)" by fastforce
  then have "w' = w\<lparr>w_nodes := fam_store p n' (w_nodes w), w_head := h\<rparr>" using w' n by (simp add: node_op_def)
  moreover have "known n' = g (known n)" using f [of "(n, w_head w)"] f' by simp
  ultimately show ?thesis
    by (simp add: net_of_def change_node_def fam_view_store [OF fam P] fam_view_Some [OF fam P n])
qed

lemma link_op_net:
  assumes s: "st b w0 N D I L w" and p: "(r, p) \<in> L"
    and f: "\<And>l h. l_key l = r \<Longrightarrow> known_link_of (fst (f (l, h))) = g (known_link_of l)"
    and w': "link_op p f w = Some w'"
  shows "net_of w' = (net_of w)\<lparr>nt_links := (nt_links (net_of w))(r := map_option g (nt_links (net_of w) r))\<rparr>"
proof -
  note fam = base_okD(4) [OF st_base_ok [OF s]] and P = st_link_at [OF s p]
  obtain l where l: "fam_load p (w_links w) = Some l" "l_key l = r" by (rule st_load_link [OF s p])
  obtain l' h where f': "f (l, w_head w) = (l', h)" by fastforce
  then have "w' = w\<lparr>w_links := fam_store p l' (w_links w), w_head := h\<rparr>" using w' l by (simp add: link_op_def)
  moreover have "known_link_of l' = g (known_link_of l)" using f [OF l(2), of "w_head w"] f' by simp
  ultimately show ?thesis
    by (simp add: net_of_def fam_view_store [OF fam P] fam_view_Some [OF fam P l(1)])
qed

lemma node_update_old_field_view:
  assumes s: "st b w0 N D I L w" and p: "(r, p) \<in> N" and copy: "copies_node_field copy"
    and w': "node_update_old_field copy p w = Some w'"
  shows "fam_view f (w_nodes w') = fam_view f (w_nodes w) \<and> w_links w' = w_links w"
proof -
  note ok = st_base_ok [OF s] and P = st_node_at [OF s p]
  note fam = base_okD(1) [OF ok] and wrap = last_no_wrap(1) [OF base_okD(9) [OF ok]]
  obtain n where n: "fam_load p (w_nodes w) = Some n" "n_key n = r" by (rule load_working [OF fam P])
  show ?thesis
  proof (cases "w_wsn_last_version w = 0")
    case False
    have get: "rpldata_get_nodes (w_wsn_last_version w) w = fam_container (version_or_none (fm_last (w_nodes w))) (w_nodes w)"
      using wsn_at_last [OF base_okD(9) [OF ok] False] by (auto simp: rpldata_get_nodes_def wsn_records_def)
    have "fam_view f (fam_store q (copy n old) (w_nodes w)) = fam_view f (w_nodes w)"
      if q: "fam_load q (w_nodes w) = Some old" "version_at (fm_last (w_nodes w)) (w_nodes w) r = Some q"
        "fm_last (w_nodes w) \<noteq> 0" for q old
      by (rule snapshot_family(3) [OF fam base_okD(5) [OF ok] q(2,3,1)])
        (use copy in \<open>simp_all add: copies_node_field_def node_good_def\<close>)
    then show ?thesis
      using old_object [OF fam wrap P] n w' False by (auto simp: node_update_old_field_def get split: if_splits)
  qed (use w' n in \<open>simp add: node_update_old_field_def\<close>)
qed

lemma node_update_old_field_net:
  assumes "st b w0 N D I L w" "(r, p) \<in> N" "copies_node_field copy" "node_update_old_field copy p w = Some w'"
  shows "net_of w' = net_of w"
  using node_update_old_field_view [OF assms, of known] by (simp add: net_of_def)

lemma link_update_old_field_net:
  assumes s: "st b w0 N D I L w" and p: "(r, p) \<in> L"
    and w': "link_update_old_field copy_link_packet_count p w = Some w'"
  shows "net_of w' = net_of w"
proof -
  note ok = st_base_ok [OF s] and P = st_link_at [OF s p]
  note fam = base_okD(4) [OF ok] and wrap = last_no_wrap(4) [OF base_okD(9) [OF ok]]
  obtain l where l: "fam_load p (w_links w) = Some l" "l_key l = r" by (rule load_working [OF fam P])
  show ?thesis
  proof (cases "w_wsn_last_version w = 0")
    case False
    have get: "rpldata_get_links (w_wsn_last_version w) w = fam_container (version_or_none (fm_last (w_links w))) (w_links w)"
      using wsn_at_last [OF base_okD(9) [OF ok] False] by (auto simp: rpldata_get_links_def wsn_records_def)
    have "fam_view known_link_of (fam_store q (copy_link_packet_count l old) (w_links w)) = fam_view known_link_of (w_links w)"
      if q: "fam_load q (w_links w) = Some old" "version_at (fm_last (w_links w)) (w_links w) r = Some q"
        "fm_last (w_links w) \<noteq> 0" for q old
      by (rule snapshot_family(3) [OF fam base_okD(8) [OF ok] q(2,3,1)]) (simp_all add: copy_link_packet_count_def)
    then show ?thesis
      using old_object [OF fam wrap P] l w' False by (auto simp: link_update_old_field_def get net_of_def split: if_splits)
  qed (use w' l in \<open>simp add: link_update_old_field_def\<close>)
qed

subsection \<open>The rules of the handlers\<close>

text \<open>What a setter of a node leaves as it was.\<close>

named_theorems keeps "setters that change neither the routes nor the global address of a node"

lemma known_fields [simp]:
  "known (n\<lparr>n_key := k\<rparr>) = known n" "known (n\<lparr>n_has_changed := c\<rparr>) = known n" "known (n\<lparr>n_rpl_errors := e\<rparr>) = known n"
  "known (n\<lparr>n_rpl_statistics := s\<rparr>) = known n" "known (n\<lparr>n_sixlowpan_errors := x\<rparr>) = known n"
  "known (n\<lparr>n_sixlowpan_errors_delta := y\<rparr>) = known n" "known (n\<lparr>n_sixlowpan_statistics := z\<rparr>) = known n"
  "known (n\<lparr>n_sixlowpan_statistics_delta := u\<rparr>) = known n" "known (n\<lparr>n_has_errors := v\<rparr>) = known n"
  "known (n\<lparr>n_rpl_instance_config := a\<rparr>) = known n" "known (n\<lparr>n_rpl_instance_data := b\<rparr>) = known n"
  "known (n\<lparr>n_has_rpl_instance_config := a'\<rparr>) = known n" "known (n\<lparr>n_has_rpl_instance_data := b'\<rparr>) = known n"
  "known (n\<lparr>n_routes_delta := d\<rparr>) = known n"
  by (simp_all add: known_def node_get_global_ip_def)

lemma known_set_changed [simp]: "known (fst (node_set_changed (n, h))) = known n"
  by (simp add: node_set_changed_def)

lemma keeps_errors [keeps]:
  "known (fst (node_errors_inc f s)) = known (fst s)" "known (fst (node_add_rank_error s)) = known (fst s)"
  "known (fst (node_add_forward_error s)) = known (fst s)" "known (fst (node_add_upward_error s)) = known (fst s)"
  "known (fst (node_add_downward_error s)) = known (fst s)" "known (fst (node_add_route_error s)) = known (fst s)"
  "known (fst (node_add_ip_mismatch_error s)) = known (fst s)" "known (fst (node_add_dodag_mismatch_error s)) = known (fst s)"
  by (cases s; simp add: node_errors_inc_def node_add_rank_error_def node_add_forward_error_def node_add_upward_error_def
      node_add_downward_error_def node_add_route_error_def node_add_ip_mismatch_error_def node_add_dodag_mismatch_error_def)+

lemma keeps_counters [keeps]:
  "known (fst (node_inc_invalid_ip s)) = known (fst s)" "known (fst (node_inc_invalid_prefix s)) = known (fst s)"
  "known (fst (node_mark_errors s)) = known (fst s)" "known (fst (node_count_packets c s)) = known (fst s)"
  "known (fst (node_update_dao_interval fl t s)) = known (fst s)"
  by (cases s; simp add: node_inc_invalid_ip_def node_inc_invalid_prefix_def node_mark_errors_def node_count_packets_def
      node_update_dao_interval_def Let_def)+

lemma keeps_updates [keeps]:
  "known (fst (node_update_from_dao dao d s)) = known (fst s)" "known (fst (node_update_from_hop_by_hop h s)) = known (fst s)"
  "known (fst (node_update_from_dis r s)) = known (fst s)"
  by (cases s; simp add: node_update_from_dao_def node_update_from_hop_by_hop_def node_update_from_dis_def node_take_config_has_def
      node_take_data_has_def node_take_data_def node_set_changed_def Let_def split: option.split)+

lemma known_routes:
  "known (fst (node_add_route route via s)) = learn_route route via (known (fst s))"
  "known (fst (node_del_route route via s)) = forget_route route via (known (fst s))"
  by (cases s; simp add: node_add_route_def node_del_route_def learn_route_def forget_route_def known_def node_set_changed_def
      node_get_global_ip_def Let_def case_prod_beta)+

lemma known_ip:
  "known (fst (node_set_local_ip a ip s)) = known (fst s)"
  "known (fst (node_set_global_ip a ip s)) = known (fst s)\<lparr>kn_address := ip\<rparr>"
  by (cases s; simp add: node_set_local_ip_def node_set_global_ip_def known_def node_set_changed_def
      node_get_global_ip_def Let_def)+

lemma known_new_node: "known (fst (node_init key env)) = \<lparr>kn_routes = [], kn_address = init_ipv6_addr\<rparr>"
  by (cases env) (simp add: node_init_def node_set_key_def node_set_changed_def Let_def node_calloc_def known_def
      node_get_global_ip_def init_sixlowpan_config_def)

lemma nst_node_op:
  assumes "nst K b w0 N D I L w" "(r, p) \<in> N"
    and "\<And>s. node_tracks s (f s)" "\<And>s. known (fst (f s)) = g (known (fst s))"
  shows "wp (node_op p f w) (nst (change_node r g K) b w0 N D I L)"
proof (rule wp_net)
  show "wp (node_op p f w) (st b w0 N D I L)" by (rule node_op_st [OF nst_st [OF assms(1)] assms(2,3)])
  show "net_of w' = change_node r g K" if "node_op p f w = Some w'" for w'
    using node_op_net [OF nst_st [OF assms(1)] assms(2,4) that] assms(1) by (simp add: nst_def)
qed (simp add: nst_def)

lemma nst_node_keeps:
  assumes "nst K b w0 N D I L w" "(r, p) \<in> N"
    and "\<And>s. node_tracks s (f s)" "\<And>s. known (fst (f s)) = known (fst s)"
  shows "wp (node_op p f w) (nst K b w0 N D I L)"
  using nst_node_op [OF assms(1-3), of "\<lambda>n. n"] assms(4) by simp

lemma nst_old_field:
  assumes "nst K b w0 N D I L w" "(r, p) \<in> N" "copies_node_field copy"
  shows "wp (node_update_old_field copy p w) (nst K b w0 N D I L)"
proof (rule wp_net)
  show "wp (node_update_old_field copy p w) (st b w0 N D I L)"
    by (rule node_update_old_field_st [OF nst_st [OF assms(1)] assms(2,3)])
  show "net_of w' = K" if "node_update_old_field copy p w = Some w'" for w'
    using node_update_old_field_net [OF nst_st [OF assms(1)] assms(2,3) that] assms(1) by (simp add: nst_def)
qed (simp add: nst_def)

lemma nst_packet_count:
  assumes "nst K b w0 N D I L w" "(r, p) \<in> N"
  shows "wp (node_add_packet_count p c w) (nst K b w0 N D I L)"
  unfolding node_add_packet_count_def
  by (auto simp: tracking keeps intro!: wp_mono [OF nst_node_keeps [OF assms]] wp_mono [OF nst_old_field [OF _ assms(2)]])

lemma nst_set_ip:
  assumes s: "nst K b w0 N D I L w" and p: "(r, p) \<in> N"
  shows "wp (node_set_ip p ip w) (nst (change_node r (see_address ip) K) b w0 N D I L)"
proof -
  have load: "wp (fam_load p (w_nodes w1)) (\<lambda>_. True)" if "nst K' b w0 N D I L w1" for K' w1
    by (rule st_load_node [OF nst_st [OF that] p]) simp
  have see: "see_address ip = (\<lambda>n. n)" if "addr_is_ip_local ip \<or> \<not> addr_is_ip_global ip"
    using that by (auto simp: see_address_def)
  have see': "see_address ip = kn_address_update (\<lambda>_. ip)" if "\<not> addr_is_ip_local ip" "addr_is_ip_global ip"
    using that by (auto simp: see_address_def)
  show ?thesis
    unfolding node_set_ip_def Let_def
    by (auto simp: s tracking keeps known_ip see see' intro!: wp_mono [OF nst_node_keeps [OF _ p]] wp_mono [OF nst_node_op [OF s p]]
        wp_mono [OF nst_old_field [OF _ p]] wp_mono [OF load])
qed

lemma nst_get_node:
  assumes s: "nst K b w0 N D I L w"
  shows "wp (rpldata_get_node r HVM_CreateIfNonExistant w) (\<lambda>(p, _, w'). nst (meet_node r K) b w0 (insert (r, p) N) D I L w')"
proof (rule wp_net [OF rpldata_get_node_st [OF nst_st [OF s]]])
  note ok = st_base_ok [OF nst_st [OF s]]
  note fam = base_okD(1) [OF ok]
  have ver: "wsn_at 0 w = Some (w_wsn_versions w 0)" "x_node_version (w_wsn_versions w 0) = 0"
    using wsn_at_0 [OF base_okD(9) [OF ok]] by (simp_all add: wsn_records_def)
  have K: "nt_nodes K = fam_view known (w_nodes w)" "nt_links K = fam_view known_link_of (w_links w)"
    using s by (auto simp: nst_def net_of_def)
  fix x assume x: "rpldata_get_node r HVM_CreateIfNonExistant w = Some x"
  show "net_of (snd (snd x)) = meet_node r K"
  proof (cases "hash_map (working (w_nodes w)) r")
    case None
    then show ?thesis
      using x K by (auto simp: rpldata_get_node_def ver fam_create_object [OF fam None] fam_view_None [OF fam] net_of_def
          meet_node_def fam_view_create [OF fam None] known_new_node case_prod_beta split: prod.splits)
  next
    case (Some p)
    then have "fam_view known (w_nodes w) r \<noteq> None" using fam_view_None [OF fam, of known r] by simp
    then show ?thesis
      using x K Some by (auto simp: rpldata_get_node_def ver fam_find_object [OF fam Some] net_of_def meet_node_def)
  qed
qed (auto simp: nst_def)

lemma nst_get_instance:
  assumes s: "nst K b w0 N D I L w"
  shows "wp (rpldata_get_rpl_instance r HVM_CreateIfNonExistant w) (\<lambda>(p, _, w'). nst K b w0 N D (insert (r, p) I) L w')"
proof (rule wp_net [OF rpldata_get_rpl_instance_st [OF nst_st [OF s]]])
  fix x assume "rpldata_get_rpl_instance r HVM_CreateIfNonExistant w = Some x"
  then have "w_nodes (snd (snd x)) = w_nodes w" "w_links (snd (snd x)) = w_links w"
    by (auto simp: rpldata_get_rpl_instance_def split: bind_splits)
  then show "net_of (snd (snd x)) = K" using s by (simp add: nst_def net_of_def)
qed (auto simp: nst_def)

lemma nst_get_link:
  assumes s: "nst K b w0 N D I L w"
  shows "wp (rpldata_get_link r HVM_CreateIfNonExistant w) (\<lambda>(p, _, w'). nst (meet_link r K) False w0 N D I (insert (r, p) L) w')"
proof (rule wp_net [OF rpldata_get_link_st [OF nst_st [OF s]]])
  note ok = st_base_ok [OF nst_st [OF s]]
  note fam = base_okD(4) [OF ok]
  have ver: "wsn_at 0 w = Some (w_wsn_versions w 0)" "x_links_version (w_wsn_versions w 0) = 0"
    using wsn_at_0 [OF base_okD(9) [OF ok]] by (simp_all add: wsn_records_def)
  have K: "nt_nodes K = fam_view known (w_nodes w)" "nt_links K = fam_view known_link_of (w_links w)"
    using s by (auto simp: nst_def net_of_def)
  have new: "known_link_of (fst (link_init r h)) = \<lparr>kl_deprecated = False, kl_packet_count = 0, kl_last_update = 0\<rparr>" for h
    by (simp add: link_init_def link_calloc_def known_link_of_def Let_def)
  fix x assume x: "rpldata_get_link r HVM_CreateIfNonExistant w = Some x"
  show "net_of (snd (snd x)) = meet_link r K"
  proof (cases "hash_map (working (w_links w)) r")
    case None
    then show ?thesis
      using x K by (auto simp: rpldata_get_link_def ver fam_create_object [OF fam None] fam_view_None [OF fam] net_of_def
          meet_link_def fam_view_create [OF fam None] new)
  next
    case (Some p)
    then have "fam_view known_link_of (w_links w) r \<noteq> None" using fam_view_None [OF fam, of known_link_of r] by simp
    then show ?thesis
      using x K Some by (auto simp: rpldata_get_link_def ver fam_find_object [OF fam Some] net_of_def meet_link_def)
  qed
qed (auto simp: nst_def)

lemma nst_link_op:
  assumes "nst K b w0 N D I L w" "(r, p) \<in> L"
    and "\<And>x. link_tracks x (f x)" "\<And>l h. l_key l = r \<Longrightarrow> known_link_of (fst (f (l, h))) = g (known_link_of l)"
  shows "wp (link_op p f w) (nst (K\<lparr>nt_links := (nt_links K)(r := map_option g (nt_links K r))\<rparr>) False w0 N D I L)"
proof (rule wp_net)
  show "wp (link_op p f w) (st False w0 N D I L)" by (rule link_op_st [OF nst_st [OF assms(1)] assms(2,3)])
  show "net_of w' = K\<lparr>nt_links := (nt_links K)(r := map_option g (nt_links K r))\<rparr>" if "link_op p f w = Some w'" for w'
    using link_op_net [OF nst_st [OF assms(1)] assms(2,4) that] assms(1) by (simp add: nst_def)
qed (simp add: nst_def)

lemma nst_link_old_field:
  assumes "nst K False w0 N D I L w" "(r, p) \<in> L"
  shows "wp (link_update_old_field copy_link_packet_count p w) (nst K False w0 N D I L)"
proof (rule wp_net)
  show "wp (link_update_old_field copy_link_packet_count p w) (st False w0 N D I L)"
    by (rule link_update_old_field_st [OF nst_st [OF assms(1)] assms(2)])
  show "net_of w' = K" if "link_update_old_field copy_link_packet_count p w = Some w'" for w'
    using link_update_old_field_net [OF nst_st [OF assms(1)] assms(2) that] assms(1) by (simp add: nst_def)
qed (simp add: nst_def)

lemma nst_link_update:
  assumes s: "nst K b w0 N D I L w" and p: "(r, p) \<in> L"
  shows "wp (link_update p time 1 w) (nst (touch_link r time K) False w0 N D I L)"
proof -
  let ?seen = "\<lambda>l. l\<lparr>kl_packet_count := kl_packet_count l + 1, kl_last_update := time\<rparr>"
  let ?K = "K\<lparr>nt_links := (nt_links K)(r := map_option ?seen (nt_links K r))\<rparr>"
  have "wp (link_op p (\<lambda>(link, head). (link_count time 1 link, head)) w) (nst ?K False w0 N D I L)"
    by (rule nst_link_op [OF s p]) ((clarsimp, rule link_count_tracks) | simp add: link_count_def known_link_of_def)+
  moreover have "wp (link_op p link_revive w1) (nst (touch_link r time K) False w0 N D I L)" if "nst ?K False w0 N D I L w1" for w1
  proof (rule wp_mono [OF nst_link_op [OF that p link_revive_tracks]])
    show "known_link_of (fst (link_revive (l, h))) = (known_link_of l)\<lparr>kl_deprecated := False\<rparr>" for l h
      by (simp add: link_revive_def link_set_changed_def known_link_of_def)
    have "?K\<lparr>nt_links := (nt_links ?K)(r := map_option (kl_deprecated_update (\<lambda>_. False)) (nt_links ?K r))\<rparr> = touch_link r time K"
      by (cases "nt_links K r"; cases "the (nt_links K r)") (simp_all add: touch_link_def)
    then show "nst (touch_link r time K) False w0 N D I L w2"
      if "nst (?K\<lparr>nt_links := (nt_links ?K)(r := map_option (kl_deprecated_update (\<lambda>_. False)) (nt_links ?K r))\<rparr>) False w0 N D I L w2" for w2
      using that by simp
  qed
  ultimately show ?thesis
    unfolding link_update_def by (auto intro!: wp_mono [OF nst_link_old_field [OF _ p]] elim!: wp_mono)
qed


text \<open>The loop over all links; \<open>S\<close> are the keys that it has passed.\<close>

definition deprecate_among :: "di_link_ref \<Rightarrow> di_link_ref set \<Rightarrow> net \<Rightarrow> net" where
  "deprecate_among r S net =
     net\<lparr>nt_links := (\<lambda>x. if lr_child x = lr_child r \<and> x \<noteq> r \<and> x \<in> S
                          then map_option (kl_deprecated_update (\<lambda>_. True)) (nt_links net x) else nt_links net x)\<rparr>"

lemma deprecate_among_insert:
  "(deprecate_among r S K)\<lparr>nt_links := (nt_links (deprecate_among r S K))(x := map_option
      (if lr_child x = lr_child r \<and> x \<noteq> r then kl_deprecated_update (\<lambda>_. True) else (\<lambda>l. l)) (nt_links (deprecate_among r S K) x))\<rparr>
    = deprecate_among r (insert x S) K"
  by (cases "nt_links K x") (auto simp: deprecate_among_def fun_eq_iff)

lemma deprecate_among_all:
  assumes "dom (nt_links K) \<subseteq> S" shows "deprecate_among r S K = deprecate_rivals r K"
proof -
  have "nt_links K x = None" if "x \<notin> S" for x using assms that by blast
  then show ?thesis by (simp add: deprecate_among_def deprecate_rivals_def fun_eq_iff)
qed

lemma link_deprecate_from_known:
  assumes "l_key l = x"
  shows "known_link_of (fst (link_deprecate_from r (l, h))) =
    (if lr_child x = lr_child r \<and> x \<noteq> r then kl_deprecated_update (\<lambda>_. True) else (\<lambda>l. l)) (known_link_of l)"
proof -
  have "nr_wpan_address (lr_child x) = nr_wpan_address (lr_child r) \<and> nr_wpan_address (lr_parent x) \<noteq> nr_wpan_address (lr_parent r)
      \<longleftrightarrow> lr_child x = lr_child r \<and> x \<noteq> r"
    by (metis di_link_ref.surjective di_node_ref.surjective old.unit.exhaust)
  then show ?thesis by (simp add: link_deprecate_from_def link_set_changed_def known_link_of_def assms)
qed

lemma nst_deprecate_all:
  assumes s: "nst K b w0 N D I L w"
  shows "wp (links_deprecate_all_from r w) (nst (deprecate_rivals r K) False w0 N D I L)"
proof -
  let ?items = "hash_items (working (w_links w))"
  let ?L = "L \<union> set ?items"
  note ok = st_base_ok [OF nst_st [OF s]]
  have items: "hash_ok (working (w_links w))" using working_ok [OF base_okD(4) [OF ok]] by (simp add: container_ok_def)
  then have start: "nst (deprecate_among r {} K) False w0 N D I ?L w"
    using s hash_map_items [OF items] by (auto simp: nst_def st_def base_st_def holds_def deprecate_among_def)
  let ?P = "\<lambda>(rest :: (di_link_ref \<times> nat) list) w'. \<exists>S. nst (deprecate_among r S K) False w0 N D I ?L w' \<and> fst ` set ?items \<subseteq> S \<union> fst ` set rest"
  have loop: "wp (each (\<lambda>(_, p). link_op p (link_deprecate_from r)) ?items w) (?P [])"
  proof (rule wp_each [where I = ?P])
    show "?P ?items w" using start by blast
    fix x rest w1 assume sub: "set (x # rest) \<subseteq> set ?items" and "?P (x # rest) w1"
    then obtain S where S: "nst (deprecate_among r S K) False w0 N D I ?L w1" "fst ` set ?items \<subseteq> S \<union> fst ` set (x # rest)" by blast
    obtain k p where x: "x = (k, p)" by fastforce
    then have kp: "(k, p) \<in> ?L" using sub by auto
    have step: "wp (link_op p (link_deprecate_from r) w1) (nst (deprecate_among r (insert k S) K) False w0 N D I ?L)"
      using nst_link_op [OF S(1) kp link_deprecate_from_tracks link_deprecate_from_known [of _ k r]] by (simp add: deprecate_among_insert)
    show "wp ((case x of (_, p) \<Rightarrow> link_op p (link_deprecate_from r)) w1) (?P rest)"
      using S(2) x by (auto intro!: wp_mono [OF step] exI [of _ "insert k S"])
  qed
  have "dom (nt_links K) \<subseteq> fst ` set ?items"
    using s hash_map_items [OF items] by (force simp: nst_def net_of_def fam_view_def split: option.splits)
  then have "nst (deprecate_rivals r K) False w0 N D I L w'" if "?P [] w'" for w'
    using that deprecate_among_all [of K _ r] by (auto simp: nst_def st_def base_st_def holds_def)
  then show ?thesis
    using loop unfolding links_deprecate_all_from_def by (auto simp: st_get_links [OF nst_st [OF s]] elim!: wp_mono)
qed


subsection \<open>The parts of the handlers\<close>

definition link_between :: "addr_wpan \<Rightarrow> addr_wpan \<Rightarrow> di_link_ref" where
  "link_between child parent = link_ref_init \<lparr>nr_wpan_address = child\<rparr> \<lparr>nr_wpan_address = parent\<rparr>"

lemma node_mac: "n_key n = node_ref_init a \<Longrightarrow> node_get_mac64 n = a"
  by (simp add: node_get_mac64_def node_ref_init_def)

lemma nst_load:
  assumes "nst K b w0 N D I L w" "(node_ref_init a, p) \<in> N"
    and "\<And>n. fam_load p (w_nodes w) = Some n \<Longrightarrow> node_get_mac64 n = a \<Longrightarrow> nt_nodes K (node_ref_init a) = Some (known n) \<Longrightarrow> Q n"
  shows "wp (fam_load p (w_nodes w)) Q"
proof -
  obtain n where n: "fam_load p (w_nodes w) = Some n" "n_key n = node_ref_init a"
    by (rule st_load_node [OF nst_st [OF assms(1)] assms(2)])
  have "nt_nodes K (node_ref_init a) = Some (known n)"
    using assms(1) fam_view_Some [OF base_okD(1) [OF st_base_ok [OF nst_st [OF assms(1)]]] st_node_at [OF nst_st [OF assms(1)] assms(2)] n(1)]
    by (auto simp: nst_def net_of_def)
  then show ?thesis using n assms(3) node_mac by simp
qed

lemma nst_if_keeps:
  assumes "nst K b w0 N D I L w" "(r, p) \<in> N"
    and "\<And>s. node_tracks s (f s)" "\<And>s. known (fst (f s)) = known (fst s)" "\<And>w'. nst K b w0 N D I L w' \<Longrightarrow> Q w'"
  shows "wp (if c then node_op p f w else Some w) Q"
  using assms(1,5) by (auto intro!: wp_mono [OF nst_node_keeps [OF assms(1-4)]])

lemma nst_fixed:
  assumes "nst K b w0 N D I L w"
  shows "w_config w = w_config w0" "w_time w = w_time w0" "w_fl w = w_fl w0"
  using assms by (simp_all add: nst_def st_def base_st_def fixed_def)

lemma nst_weaken: "nst K b w0 N D I L w \<Longrightarrow> nst K False w0 N D I L w"
  by (auto simp: nst_def intro: st_weaken)

text \<open>The rules in the form in which the proofs of the handlers apply them.\<close>

lemma net_get:
  assumes "nst K b w0 N D I L w"
  shows "(\<And>p c w'. nst (meet_node r K) b w0 (insert (r, p) N) D I L w' \<Longrightarrow> Q (p, c, w')) \<Longrightarrow> wp (rpldata_get_node r HVM_CreateIfNonExistant w) Q"
    and "(\<And>p c w'. nst K b w0 N D (insert (ir, p) I) L w' \<Longrightarrow> Q' (p, c, w')) \<Longrightarrow> wp (rpldata_get_rpl_instance ir HVM_CreateIfNonExistant w) Q'"
    and "(\<And>p c w'. nst (meet_link lr K) False w0 N D I (insert (lr, p) L) w' \<Longrightarrow> Q3 (p, c, w')) \<Longrightarrow> wp (rpldata_get_link lr HVM_CreateIfNonExistant w) Q3"
proof -
  show "(\<And>p c w'. nst (meet_node r K) b w0 (insert (r, p) N) D I L w' \<Longrightarrow> Q (p, c, w')) \<Longrightarrow> wp (rpldata_get_node r HVM_CreateIfNonExistant w) Q"
    by (rule wp_mono [OF nst_get_node [OF assms]]) auto
  show "(\<And>p c w'. nst K b w0 N D (insert (ir, p) I) L w' \<Longrightarrow> Q' (p, c, w')) \<Longrightarrow> wp (rpldata_get_rpl_instance ir HVM_CreateIfNonExistant w) Q'"
    by (rule wp_mono [OF nst_get_instance [OF assms]]) auto
  show "(\<And>p c w'. nst (meet_link lr K) False w0 N D I (insert (lr, p) L) w' \<Longrightarrow> Q3 (p, c, w')) \<Longrightarrow> wp (rpldata_get_link lr HVM_CreateIfNonExistant w) Q3"
    by (rule wp_mono [OF nst_get_link [OF assms]]) auto
qed

lemma net_node:
  assumes "nst K b w0 N D I L w" "(r, p) \<in> N"
  shows "(\<And>s. node_tracks s (f s)) \<Longrightarrow> (\<And>s. known (fst (f s)) = known (fst s)) \<Longrightarrow> (\<And>w'. nst K b w0 N D I L w' \<Longrightarrow> Q w')
      \<Longrightarrow> wp (node_op p f w) Q"
    and "(\<And>w'. nst (change_node r (learn_route route via) K) b w0 N D I L w' \<Longrightarrow> Q w') \<Longrightarrow> wp (node_op p (node_add_route route via) w) Q"
    and "(\<And>w'. nst (change_node r (forget_route route via) K) b w0 N D I L w' \<Longrightarrow> Q w') \<Longrightarrow> wp (node_op p (node_del_route route via) w) Q"
    and "(\<And>w'. nst (change_node r (see_address ip) K) b w0 N D I L w' \<Longrightarrow> Q w') \<Longrightarrow> wp (node_set_ip p ip w) Q"
    and "(\<And>w'. nst K b w0 N D I L w' \<Longrightarrow> Q w') \<Longrightarrow> wp (node_add_packet_count p n w) Q"
  by (auto simp: tracking known_routes intro!: wp_mono [OF nst_node_keeps [OF assms]] wp_mono [OF nst_node_op [OF assms]]
      wp_mono [OF nst_set_ip [OF assms]] wp_mono [OF nst_packet_count [OF assms]])

lemma net_link:
  assumes "nst K b w0 N D I L w"
  shows "(r, p) \<in> L \<Longrightarrow> (\<And>w'. nst (touch_link r time K) False w0 N D I L w' \<Longrightarrow> Q w') \<Longrightarrow> wp (link_update p time 1 w) Q"
    and "(\<And>w'. nst (deprecate_rivals r K) False w0 N D I L w' \<Longrightarrow> Q w') \<Longrightarrow> wp (links_deprecate_all_from r w) Q"
  using assms by (auto intro!: wp_mono [OF nst_deprecate_all] elim: wp_mono [OF nst_link_update])

lemma net_if:
  assumes "nst K b w0 N D I L w"
  shows "(c \<Longrightarrow> wp m (nst K b w0 N D I L)) \<Longrightarrow> (\<And>w'. nst K b w0 N D I L w' \<Longrightarrow> Q w') \<Longrightarrow> wp (if c then m else Some w) Q"
  using assms by (cases c) (auto elim: wp_mono)

text \<open>The three calls that record the use of a link.\<close>

lemma net_use_link:
  assumes s: "nst K b w0 N D I L w"
    and Q: "\<And>w' L'. nst (use_link (cfg_one_preferred_parent (w_config w0)) (w_time w0) r K) False w0 N D I L' w' \<Longrightarrow> Q w'"
  shows "wp (rpldata_get_link r HVM_CreateIfNonExistant w) (\<lambda>(p, _, w).
    wp (if cfg_one_preferred_parent (w_config w) then links_deprecate_all_from r w else Some w) (\<lambda>w.
    wp (link_update p (w_time w) 1 w) Q))"
proof (rule net_get(3) [OF s], clarsimp split del: if_split)
  let ?one = "cfg_one_preferred_parent (w_config w0)"
  let ?K = "if ?one then deprecate_rivals r (meet_link r K) else meet_link r K"
  fix p w1 assume w1: "nst (meet_link r K) False w0 N D I (insert (r, p) L) w1"
  have "wp (link_update p (w_time w2) 1 w2) Q" if "nst ?K False w0 N D I (insert (r, p) L) w2" for w2
    using Q by (auto simp: use_link_def nst_fixed [OF that] intro!: net_link(1) [OF that])
  then show "wp (if cfg_one_preferred_parent (w_config w1) then links_deprecate_all_from r w1 else Some w1)
      (\<lambda>w. wp (link_update p (w_time w) 1 w) Q)"
    using w1 by (auto simp: nst_fixed(1) [OF w1] intro!: net_link(2) [OF w1])
qed


subsection \<open>A DAO\<close>

definition names_own :: "di_node_ref \<Rightarrow> rpl_dao_opt_target option \<Rightarrow> net \<Rightarrow> bool" where
  "names_own r target net \<longleftrightarrow> (case (target, nt_nodes net r) of
     (Some t, Some n) \<Rightarrow> addr_compare_ip_len (kn_address n) (tgt_target t) (unat (tgt_target_bit_length t)) = 0
   | _ \<Rightarrow> False)"

definition dao_route_of :: "rpl_dao_opt_target \<Rightarrow> rpl_dao_opt_transit \<Rightarrow> di_route" where
  "dao_route_of target transit =
     \<lparr>rt_length = tgt_target_bit_length target, rt_prefix = tgt_target target, rt_expiration_time = ucast (tra_path_lifetime transit)\<rparr>"

text \<open>
  The effect of a DAO from \<open>src\<close> to \<open>dst\<close>. With a lifetime the link is in use and the parent learns the route
  through the child. Without one it is a No-Path DAO: the parent forgets the route, and if the target is the child itself the link is gone.
\<close>

definition dao_effect ::
    "bool \<Rightarrow> u64 \<Rightarrow> packet_info \<Rightarrow> rpl_dao_opt_target option \<Rightarrow> rpl_dao_opt_transit option \<Rightarrow> net \<Rightarrow> net" where
  "dao_effect one_parent time pkt target transit net =
     (let src = pkt_src_wpan_address pkt; dst = pkt_dst_wpan_address pkt;
          child = node_ref_init src; parent = node_ref_init dst;
          net = meet_node parent (change_node child (see_address (pkt_src_ip_address pkt)) (meet_node child net))
      in case transit of
           None \<Rightarrow> net
         | Some t \<Rightarrow>
             let net = (if 0 < tra_path_lifetime t then use_link one_parent time (link_between src dst) net
                        else if names_own child target net then drop_link (link_between src dst) net else net)
             in case target of
                  None \<Rightarrow> net
                | Some g \<Rightarrow> change_node parent
                    (if 0 < tra_path_lifetime t then learn_route (dao_route_of g t) src else forget_route (dao_route_of g t) src) net)"

lemma dao_path_net:
  assumes s: "nst K b w0 N D I L w" and c: "(node_ref_init a, child) \<in> N" and p: "(node_ref_init d, parent) \<in> N"
  shows "wp (dao_path child parent w)
    (\<lambda>w'. \<exists>L'. nst (use_link (cfg_one_preferred_parent (w_config w0)) (w_time w0) (link_between a d) K) False w0 N D I L' w')"
proof -
  let ?K = "use_link (cfg_one_preferred_parent (w_config w0)) (w_time w0) (link_between a d) K"
  have last: "wp (fam_load child (w_nodes w1)) (\<lambda>c. wp (fam_load parent (w_nodes w1)) (\<lambda>p.
      wp (if \<exists>route\<in>set (n_routes c). addr_compare_ip (rt_prefix (re_target route)) (node_get_global_ip p) = 0
          then node_op child node_add_route_error w1 else Some w1) (\<lambda>w'. \<exists>L'. nst ?K False w0 N D I L' w')))"
    if w1: "nst ?K False w0 N D I L1 w1" for L1 w1
    by (rule nst_load [OF w1 c], rule nst_load [OF w1 p], rule nst_if_keeps [OF w1 c]) (auto simp: tracking keeps)
  show ?thesis
    unfolding dao_path_def
    apply (simp add: Let_def case_prod_beta del: addr_compare_ip_eq_0 split del: if_split)
    apply (rule nst_load [OF s c], rule nst_load [OF s p])
    apply (simp add: link_between_def [symmetric] del: addr_compare_ip_eq_0 split del: if_split cong: if_cong)
    apply (rule net_use_link [OF s, unfolded case_prod_beta])
    apply (rule last, assumption)
    done
qed

lemma fam_view_remove:
  assumes "fam_ok key good fam" "fam_remove r c fam"
  shows "fam_view f (fam_set_container 0 c fam) = (fam_view f fam)(r := None)"
  using assms(2)
  by (auto simp: fam_set_container_0 [OF assms(1)] fun_eq_iff fam_view_def fam_load_def fam_remove_def split: option.split)

lemma del_link_net:
  assumes ok: "base_ok w" and del: "rpldata_del_link r w = Some (p, w')"
  shows "net_of w' = drop_link r (net_of w)"
proof (cases "hash_map (working (w_links w)) r")
  case None
  then have "w' = w" using del rpldata_del_link_result(1) [OF ok, of r] by simp
  moreover have "fam_view known_link_of (w_links w) r = None" using None by (simp add: fam_view_def)
  ultimately show ?thesis by (simp add: drop_link_def net_of_def fun_upd_idem)
next
  case (Some q)
  then show ?thesis
    using del rpldata_del_link_result [OF ok, of r] fam_view_remove [OF base_okD(4) [OF ok]]
    by (auto simp: drop_link_def net_of_def)
qed

lemma dao_no_path_net:
  assumes s: "nst K True w0 N D I L w" and q: "links_quiet w0"
    and c: "(node_ref_init a, child) \<in> N" and p: "(node_ref_init d, parent) \<in> N"
  shows "wp (dao_no_path child parent target w)
    (nst (if names_own (node_ref_init a) target K then drop_link (link_between a d) K else K) False w0 N D I {})"
proof (rule wp_net)
  show "wp (dao_no_path child parent target w) (st False w0 N D I {})"
    using dao_no_path_st [OF nst_st [OF s] q] c p by (metis snd_conv imageI)
  have K: "net_of w = K" and ok: "base_ok w" using s st_base_ok [OF nst_st [OF s]] by (simp_all add: nst_def)
  obtain cn where cn: "fam_load child (w_nodes w) = Some cn" "node_get_mac64 cn = a" "nt_nodes K (node_ref_init a) = Some (known cn)"
    using nst_load [OF s c, of "\<lambda>n. node_get_mac64 n = a \<and> nt_nodes K (node_ref_init a) = Some (known n)"] by (auto simp: wp_def)
  obtain pn where pn: "fam_load parent (w_nodes w) = Some pn" "node_get_mac64 pn = d"
    using nst_load [OF s p, of "\<lambda>n. node_get_mac64 n = d"] by (auto simp: wp_def)
  have head: "net_of (w1\<lparr>w_head := h\<rparr>) = net_of w1" for w1 h by (simp add: net_of_def)
  have addr: "kn_address (known cn) = node_get_global_ip cn" by (simp add: known_def)
  fix w' assume "dao_no_path child parent target w = Some w'"
  then show "net_of w' = (if names_own (node_ref_init a) target K then drop_link (link_between a d) K else K)"
    using cn pn K del_link_net [OF ok, of "link_between a d"]
    by (auto simp: dao_no_path_def names_own_def link_between_def [symmetric] head addr Let_def split: option.splits if_splits bind_splits)
qed (simp add: nst_def)

lemma dao_route_net:
  assumes s: "nst K b w0 N D I L w" and c: "(node_ref_init a, child) \<in> N" and p: "(node_ref_init d, parent) \<in> N"
  shows "wp (dao_route pkt dao child parent target transit w)
    (nst (change_node (node_ref_init d)
       (if 0 < tra_path_lifetime transit then learn_route (dao_route_of target transit) a
        else forget_route (dao_route_of target transit) a) K) b w0 N D I L)"
proof -
  have last: "wp (fam_load child (w_nodes w1)) (\<lambda>c. wp (if addr_compare_ip (tgt_target target) (node_get_global_ip c) = 0 then
            do { w \<leftarrow> node_op child (node_update_from_dao (Some dao) None) w1;
                 node_op child (node_update_dao_interval (w_fl w) (pkt_timestamp pkt)) w }
          else Some w1) (nst K' b w0 N D I L))" if w1: "nst K' b w0 N D I L w1" for K' w1
    using w1 by (intro nst_load [OF w1 c]) (auto simp: tracking keeps intro!: net_node(1) [OF _ c])
  show ?thesis
    unfolding dao_route_def Let_def wp_bind
    apply (rule nst_load [OF s c])
    apply (cases "0 < tra_path_lifetime transit")
     apply (simp only: if_True dao_route_of_def [symmetric])
     apply (rule net_node(2) [OF s p], rule last, assumption)
    apply (simp only: if_False dao_route_of_def [symmetric])
    apply (rule net_node(3) [OF s p], rule last, assumption)
    done
qed

lemma nst_end: "nst K b w0 N D I L w \<Longrightarrow> K = K' \<Longrightarrow> handled w0 w \<and> net_of w = K'"
  by (auto simp: nst_def intro: st_handled)

lemma net_dao_end:
  assumes "nst K False w0 N D I L w" "(node_ref_init a, child) \<in> N" "(node_ref_init d, parent) \<in> N"
  shows "wp (case target of None \<Rightarrow> Some w
      | Some g \<Rightarrow> (case transit of None \<Rightarrow> Some w | Some t \<Rightarrow> dao_route pkt dao child parent g t w))
    (nst (case (target, transit) of
      (Some g, Some t) \<Rightarrow> change_node (node_ref_init d)
         (if 0 < tra_path_lifetime t then learn_route (dao_route_of g t) a else forget_route (dao_route_of g t) a) K
    | _ \<Rightarrow> K) False w0 N D I L)"
  using assms(1) dao_route_net [OF assms] by (cases target; cases transit; simp only: option.case prod.case wp_Some)

lemma net_dao_link:
  assumes s: "nst K True w0 N D I L w" and q: "links_quiet w0"
    and c: "(node_ref_init a, child) \<in> N" and p: "(node_ref_init d, parent) \<in> N"
  shows "wp (case transit of
                  None \<Rightarrow> Some w
                | Some transit \<Rightarrow>
                    if 0 < tra_path_lifetime transit then dao_path child parent w
                    else dao_no_path child parent target w)
    (\<lambda>w'. \<exists>L'. nst (case transit of None \<Rightarrow> K | Some t \<Rightarrow>
       if 0 < tra_path_lifetime t then use_link (cfg_one_preferred_parent (w_config w0)) (w_time w0) (link_between a d) K
       else if names_own (node_ref_init a) target K then drop_link (link_between a d) K else K) False w0 N D I L' w')"
  using nst_weaken [OF s] dao_path_net [OF s c p] dao_no_path_net [OF s q c p, of target]
  by (cases transit) (auto elim!: wp_mono)

lemma rpl_collector_parse_dao_net:
  assumes w: "world_ok w" and q: "links_quiet w"
  shows "wp (rpl_collector_parse_dao pkt dao target transit w) (\<lambda>w'. handled w w'
    \<and> net_of w' = dao_effect (cfg_one_preferred_parent (w_config w)) (w_time w) pkt target transit (net_of w))"
proof -
  have s: "nst (net_of w) True w {} {} {} {} w" using st_start [OF w] by (simp add: nst_def)
  show ?thesis
    unfolding rpl_collector_parse_dao_def wp_bind
    apply (rule net_get(1) [OF s], simp only: prod.case wp_bind)
    apply (rule net_node(5), assumption, rule insertI1)
    apply (rule net_node(4), assumption, rule insertI1)
    apply (rule net_get(1), assumption, simp only: prod.case wp_bind)
    apply (rule net_get(2), assumption, simp only: prod.case wp_bind)
    apply (rule nst_load, assumption, rule insertI1)
    apply (rule net_if, assumption, rule net_node(1), assumption, rule insertI2, rule insertI1, simp add: tracking, simp add: keeps, assumption)
    apply (rule nst_load, assumption, rule insertI2, rule insertI1)
    apply (rule nst_load, assumption, rule insertI1)
    apply (rule net_if, assumption)
     apply (rule handler_option, simp)
     apply (rule handler_branch, simp)
     apply (rule net_node(1), assumption, rule insertI2, rule insertI1, simp add: tracking, simp add: keeps, assumption)
    apply (rule wp_mono [OF net_dao_link [OF _ q]], assumption, rule insertI2, rule insertI1, rule insertI1, erule exE)
    apply (rule wp_mono [OF net_dao_end], assumption, rule insertI2, rule insertI1, rule insertI1)
    apply (erule nst_end, simp add: dao_effect_def Let_def split: option.split)
    done
qed

subsection \<open>A data packet and a DIS\<close>

definition host_route :: "in6_addr \<Rightarrow> di_route" where
  "host_route ip = \<lparr>rt_length = 128, rt_prefix = ip, rt_expiration_time = 0\<rparr>"

text \<open>
  A packet that goes towards the root shows that its source uses its destination as parent, and how the destination reaches
  the source of the packet; one that goes down shows how its source reaches the destination of the packet.
  A packet with hop limit 64 comes from the node that sends it.
\<close>

definition data_effect :: "bool \<Rightarrow> u64 \<Rightarrow> packet_info \<Rightarrow> rpl_hop_by_hop_opt option \<Rightarrow> net \<Rightarrow> net" where
  "data_effect one_parent time pkt rpl_info net =
     (let src = pkt_src_wpan_address pkt; dst = pkt_dst_wpan_address pkt;
          sender = node_ref_init src; receiver = node_ref_init dst;
          net = meet_node sender net;
          net = (if pkt_hop_limit pkt = 64 then change_node sender (see_address (pkt_src_ip_address pkt)) net else net)
      in if dst = 0 \<or> dst = ADDR_MAC64_BROADCAST then net
         else
           let net = meet_node receiver net
           in case rpl_info of
                None \<Rightarrow> net
              | Some info \<Rightarrow>
                  if hbh_packet_toward_root info
                  then change_node receiver (learn_route (host_route (pkt_src_ip_address pkt)) src)
                         (use_link one_parent time (link_between src dst) net)
                  else change_node sender (learn_route (host_route (pkt_dst_ip_address pkt)) dst) net)"

lemma data_upward_net:
  assumes s: "nst K b w0 N D I L w" and a: "(node_ref_init a, src) \<in> N" and d: "(node_ref_init d, dst) \<in> N"
  shows "wp (data_upward pkt info src dst w)
    (\<lambda>w'. \<exists>L'. nst (change_node (node_ref_init d) (learn_route (host_route (pkt_src_ip_address pkt)) a)
       (use_link (cfg_one_preferred_parent (w_config w0)) (w_time w0) (link_between a d) K)) False w0 N D I L' w')"
proof -
  let ?K = "use_link (cfg_one_preferred_parent (w_config w0)) (w_time w0) (link_between a d) K"
  let ?K' = "change_node (node_ref_init d) (learn_route (host_route (pkt_src_ip_address pkt)) a) ?K"
  let ?Q = "\<lambda>w'. \<exists>L'. nst ?K' False w0 N D I L' w'"
  have "wp (fam_load src (w_nodes w2)) (\<lambda>s. wp (fam_load dst (w_nodes w2)) (\<lambda>d.
      wp (if \<exists>route\<in>set (n_routes s). addr_compare_ip (rt_prefix (re_target route)) (node_get_global_ip d) = 0
                then node_op src node_add_route_error w2 else Some w2) (\<lambda>w.
      wp (fam_load dst (w_nodes w)) (\<lambda>d.
      wp (if node_has_rank d \<and> sint (ucast (hbh_sender_rank info) :: c_int) < sint (node_get_rank d)
          then node_op src node_add_upward_error w else Some w) ?Q))))"
    if w2: "nst ?K' False w0 N D I L1 w2" for L1 w2
    by (rule nst_load [OF w2 a], rule nst_load [OF w2 d], rule nst_if_keeps [OF w2 a], simp add: tracking, simp add: keeps,
      rule nst_load [OF _ d], assumption, rule nst_if_keeps [OF _ a], assumption, simp add: tracking, simp add: keeps, blast)
  note last = this [OF _, unfolded host_route_def]
  show ?thesis
    unfolding data_upward_def Let_def wp_bind case_prod_beta
    apply (rule nst_load [OF s a], rule nst_load [OF s d])
    apply (simp only: link_between_def [symmetric] host_route_def)
    apply (rule net_use_link [OF s, unfolded case_prod_beta])
    apply (rule net_node(2) [OF _ d], assumption)
    apply (rule last, assumption)
    done
qed

lemma data_downward_net:
  assumes s: "nst K b w0 N D I L w" and a: "(node_ref_init a, src) \<in> N" and d: "(node_ref_init d, dst) \<in> N"
  shows "wp (data_downward pkt info src dst w)
    (nst (change_node (node_ref_init a) (learn_route (host_route (pkt_dst_ip_address pkt)) d) K) b w0 N D I L)"
  unfolding data_downward_def Let_def wp_bind host_route_def
  apply (rule nst_load [OF s d], simp only:)
  apply (rule net_node(2) [OF s a])
  apply (rule nst_load [OF _ d], assumption, rule nst_if_keeps [OF _ a], assumption, simp add: tracking, simp add: keeps, assumption)
  done

lemma rpl_collector_parse_data_net:
  assumes w: "world_ok w"
  shows "wp (rpl_collector_parse_data pkt rpl_info w) (\<lambda>w'. handled w w'
    \<and> net_of w' = data_effect (cfg_one_preferred_parent (w_config w)) (w_time w) pkt rpl_info (net_of w))"
proof -
  let ?src = "node_ref_init (pkt_src_wpan_address pkt)" and ?dst = "node_ref_init (pkt_dst_wpan_address pkt)"
  let ?K1 = "if pkt_hop_limit pkt = 64 then change_node ?src (see_address (pkt_src_ip_address pkt)) (meet_node ?src (net_of w))
    else meet_node ?src (net_of w)"
  have s: "nst (net_of w) True w {} {} {} {} w" using st_start [OF w] by (simp add: nst_def)
  have ip: "wp (if pkt_hop_limit pkt = 64 then node_set_ip p (pkt_src_ip_address pkt) w1 else Some w1) Q"
    if "nst (meet_node ?src (net_of w)) True w {(?src, p)} {} {} {} w1" "\<And>w2. nst ?K1 True w {(?src, p)} {} {} {} w2 \<Longrightarrow> Q w2" for p w1 Q
    using that by (auto intro!: net_node(4) [OF that(1) insertI1])
  show ?thesis
    unfolding rpl_collector_parse_data_def wp_bind
    apply (rule net_get(1) [OF s], simp only: prod.case wp_bind)
    apply (rule net_node(5), assumption, rule insertI1)
    apply (rule ip, assumption)
    apply (rule net_node(1), assumption, rule insertI1, simp add: tracking, simp add: keeps)
    apply (rule handler_branch)
     apply (simp only: wp_bind)
     apply (rule net_get(1), assumption, simp only: prod.case)
     apply (rule handler_option)
      apply (simp only: wp_Some)
      apply (erule nst_end, simp add: data_effect_def Let_def)
     apply (simp only: wp_bind)
     apply (rule nst_if_keeps, assumption, rule insertI2, rule insertI1, simp add: tracking, simp add: keeps)
     apply (rule nst_if_keeps, assumption, rule insertI2, rule insertI1, simp add: tracking, simp add: keeps)
     apply (rule handler_branch)
      apply (rule wp_mono [OF data_upward_net], assumption, rule insertI2, rule insertI1, rule insertI1, erule exE)
      apply (erule nst_end, simp add: data_effect_def Let_def)
     apply (rule wp_mono [OF data_downward_net], assumption, rule insertI2, rule insertI1, rule insertI1)
     apply (erule nst_end, simp add: data_effect_def Let_def)
    apply (simp only: wp_Some)
    apply (erule nst_end, simp add: data_effect_def Let_def)
    done
qed

end
