(* ===== verification/Membership.thy ===== *)
theory Membership
  imports CollectorSpec
begin

section \<open>Which DODAG a node is in\<close>

text \<open>
  What a DIO does (\<open>rpl_collector_parse_dio\<close> in \<open>src/src/data_collector/rpl_collector.c\<close>): the node that sends it joins the DODAG that it
  names and leaves the one it was in, and no other node moves. The map \<open>node_in\<close> from the nodes to their DODAGs is followed
  through the handler; the containers of the DODAGs agree with it (\<open>members_ok\<close>).
\<close>

definition jst ::
    "(di_node_ref \<rightharpoonup> di_dodag_ref option) \<Rightarrow> bool \<Rightarrow> world \<Rightarrow> (di_node_ref \<times> nat) set \<Rightarrow> (di_dodag_ref \<times> nat) set
      \<Rightarrow> (di_rpl_instance_ref \<times> nat) set \<Rightarrow> (di_link_ref \<times> nat) set \<Rightarrow> world \<Rightarrow> bool" where
  "jst M b w0 N D I L w \<longleftrightarrow> st b w0 N D I L w \<and> node_in w = M"

lemma jst_st: "jst M b w0 N D I L w \<Longrightarrow> st b w0 N D I L w"
  by (simp add: jst_def)

lemma jst_keeps:
  assumes "jst M b w0 N D I L w" "wp m (st b w0 N D I L)" "\<And>w'. m = Some w' \<Longrightarrow> node_in w' = node_in w"
  shows "wp m (jst M b w0 N D I L)"
  using assms by (auto simp: wp_def jst_def)

lemma jst_node_op:
  assumes "jst M b w0 N D I L w" "(r, p) \<in> N" "\<And>x. node_tracks x (f x)"
  shows "wp (node_op p f w) (jst M b w0 N D I L)"
  using assms(1) by (auto simp: jst_def intro!: wp_mono [OF node_op_in [OF jst_st [OF assms(1)] assms(2,3)]])

lemma jst_old_field:
  assumes s: "jst M b w0 N D I L w" and p: "(r, p) \<in> N" and copy: "copies_node_field copy"
  shows "wp (node_update_old_field copy p w) (jst M b w0 N D I L)"
  by (rule jst_keeps [OF s node_update_old_field_st [OF jst_st [OF s] p copy]])
    (simp add: node_in_def node_update_old_field_view [OF jst_st [OF s] p copy])

lemma jst_packet_count:
  assumes "jst M b w0 N D I L w" "(r, p) \<in> N"
  shows "wp (node_add_packet_count p c w) (jst M b w0 N D I L)"
  unfolding node_add_packet_count_def
  by (auto simp: tracking intro!: wp_mono [OF jst_node_op [OF assms]] wp_mono [OF jst_old_field [OF _ assms(2)]])

lemma jst_set_ip:
  assumes s: "jst M b w0 N D I L w" and p: "(r, p) \<in> N"
  shows "wp (node_set_ip p ip w) (jst M b w0 N D I L)"
proof -
  have load: "wp (fam_load p (w_nodes w1)) (\<lambda>_. True)" if "jst M b w0 N D I L w1" for w1
    by (rule st_load_node [OF jst_st [OF that] p]) simp
  show ?thesis
    unfolding node_set_ip_def Let_def
    by (auto simp: s tracking intro!: wp_mono [OF jst_node_op [OF _ p]] wp_mono [OF jst_old_field [OF _ p]] wp_mono [OF load])
qed

text \<open>Operations on the other kinds leave the nodes alone.\<close>

lemma nodes_kept:
  "dodag_op p f w = Some w' \<Longrightarrow> w_nodes w' = w_nodes w"
  "rpl_instance_op p g w = Some w' \<Longrightarrow> w_nodes w' = w_nodes w"
  "rpldata_get_rpl_instance ir mode w = Some (q, c, w') \<Longrightarrow> w_nodes w' = w_nodes w"
  "rpldata_get_dodag dr mode w = Some (q, c, w') \<Longrightarrow> w_nodes w' = w_nodes w"
  by (auto simp: dodag_op_def rpl_instance_op_def rpldata_get_rpl_instance_def rpldata_get_dodag_def Let_def case_prod_beta
      split: bind_splits)

lemma rpl_instance_add_dodag_nodes: "rpl_instance_add_dodag p q w = Some w' \<Longrightarrow> w_nodes w' = w_nodes w"
  by (auto simp: rpl_instance_add_dodag_def Let_def case_prod_beta dest!: nodes_kept split: bind_splits if_splits)


text \<open>The rules in the order in which the handler needs them.\<close>

definition join :: "di_node_ref \<Rightarrow> di_dodag_ref \<Rightarrow> (di_node_ref \<rightharpoonup> di_dodag_ref option) \<Rightarrow> (di_node_ref \<rightharpoonup> di_dodag_ref option)" where
  "join r dr M = M(r \<mapsto> Some dr)"

definition meet_in :: "di_node_ref \<Rightarrow> (di_node_ref \<rightharpoonup> di_dodag_ref option) \<Rightarrow> (di_node_ref \<rightharpoonup> di_dodag_ref option)" where
  "meet_in r M = (if M r = None then M(r \<mapsto> None) else M)"

lemma join_meet [simp]: "join r dr (meet_in r M) = join r dr M"
  by (simp add: join_def meet_in_def)

lemma jst_get_node:
  assumes s: "jst M b w0 N D I L w"
  shows "wp (rpldata_get_node r HVM_CreateIfNonExistant w) (\<lambda>(p, _, w'). jst (meet_in r M) b w0 (insert (r, p) N) D I L w')"
proof (rule wp_net [OF rpldata_get_node_st [OF jst_st [OF s]]])
  note ok = st_base_ok [OF jst_st [OF s]]
  note fam = base_okD(1) [OF ok]
  have ver: "wsn_at 0 w = Some (w_wsn_versions w 0)" "x_node_version (w_wsn_versions w 0) = 0"
    using wsn_at_0 [OF base_okD(9) [OF ok]] by (simp_all add: wsn_records_def)
  have M: "M = fam_view node_get_dodag (w_nodes w)" using s by (auto simp: jst_def node_in_def)
  have new: "node_get_dodag (fst (node_init r env)) = None" for env
    using node_init_result [of r "fst env" "snd env"] by auto
  fix x assume x: "rpldata_get_node r HVM_CreateIfNonExistant w = Some x"
  show "node_in (snd (snd x)) = meet_in r M"
  proof (cases "hash_map (working (w_nodes w)) r")
    case None
    then show ?thesis
      using x by (auto simp: M rpldata_get_node_def ver fam_create_object [OF fam None] fam_view_None [OF fam] node_in_def
          meet_in_def fam_view_create [OF fam None] new case_prod_beta split: prod.splits)
  next
    case (Some p)
    then have "fam_view node_get_dodag (w_nodes w) r \<noteq> None" using fam_view_None [OF fam, of node_get_dodag r] by simp
    then show ?thesis
      using x Some by (auto simp: M rpldata_get_node_def ver fam_find_object [OF fam Some] node_in_def meet_in_def)
  qed
qed (auto simp: jst_def)

lemma in_get:
  assumes s: "jst M b w0 N D I L w"
  shows "(\<And>p c w'. jst (meet_in r M) b w0 (insert (r, p) N) D I L w' \<Longrightarrow> Q (p, c, w')) \<Longrightarrow> wp (rpldata_get_node r HVM_CreateIfNonExistant w) Q"
    and "(\<And>p c w'. jst M b w0 N D (insert (ir, p) I) L w' \<Longrightarrow> Q' (p, c, w')) \<Longrightarrow> wp (rpldata_get_rpl_instance ir HVM_CreateIfNonExistant w) Q'"
    and "(\<And>p c w'. jst M b w0 N (insert (dodag_ref_init di dv, p) D) I L w' \<Longrightarrow> Q'' (p, c, w')) \<Longrightarrow>
      wp (rpldata_get_dodag (dodag_ref_init di dv) HVM_CreateIfNonExistant w) Q''"
proof -
  have M: "node_in w = M" using s by (simp add: jst_def)
  show "(\<And>p c w'. jst (meet_in r M) b w0 (insert (r, p) N) D I L w' \<Longrightarrow> Q (p, c, w')) \<Longrightarrow> wp (rpldata_get_node r HVM_CreateIfNonExistant w) Q"
    by (rule wp_mono [OF jst_get_node [OF s]]) auto
  show "(\<And>p c w'. jst M b w0 N D (insert (ir, p) I) L w' \<Longrightarrow> Q' (p, c, w')) \<Longrightarrow> wp (rpldata_get_rpl_instance ir HVM_CreateIfNonExistant w) Q'"
    by (rule wp_mono [OF rpldata_get_rpl_instance_st [OF jst_st [OF s]]]) (auto simp: jst_def M [symmetric] node_in_def dest: nodes_kept)
  have ver: "0 \<le> sint (dr_version (dodag_ref_init di dv))"
    using bit_last_iff [of "ucast dv :: u16"] bit_imp_le_length [of dv 15]
    by (auto simp: dodag_ref_init_def bit_simps)
  show "(\<And>p c w'. jst M b w0 N (insert (dodag_ref_init di dv, p) D) I L w' \<Longrightarrow> Q'' (p, c, w')) \<Longrightarrow>
      wp (rpldata_get_dodag (dodag_ref_init di dv) HVM_CreateIfNonExistant w) Q''"
    by (rule wp_mono [OF rpldata_get_dodag_st [OF jst_st [OF s] ver]]) (auto simp: jst_def M [symmetric] node_in_def dest: nodes_kept)
qed

lemma in_node:
  assumes "jst M b w0 N D I L w" "(r, p) \<in> N"
  shows "(\<And>x. node_tracks x (f x)) \<Longrightarrow> (\<And>w'. jst M b w0 N D I L w' \<Longrightarrow> Q w') \<Longrightarrow> wp (node_op p f w) Q"
    and "(\<And>w'. jst M b w0 N D I L w' \<Longrightarrow> Q w') \<Longrightarrow> wp (node_set_ip p ip w) Q"
    and "(\<And>w'. jst M b w0 N D I L w' \<Longrightarrow> Q w') \<Longrightarrow> wp (node_add_packet_count p n w) Q"
  by (auto intro!: wp_mono [OF jst_node_op [OF assms]] wp_mono [OF jst_set_ip [OF assms]] wp_mono [OF jst_packet_count [OF assms]])

lemma in_dodag:
  assumes s: "jst M b w0 N D I L w" and p: "(dr, p) \<in> D"
  shows "(\<And>x. dodag_tracks x (f x)) \<Longrightarrow> (\<And>x. d_nodes (fst (f x)) = d_nodes (fst x))
      \<Longrightarrow> (\<And>w'. jst M b w0 N D I L w' \<Longrightarrow> Q w') \<Longrightarrow> wp (dodag_op p f w) Q"
    and "(r, np) \<in> N \<Longrightarrow> (\<And>w'. jst (join r dr M) b w0 N D I L w' \<Longrightarrow> Q w') \<Longrightarrow> wp (dodag_add_node p np w) Q"
    and "(\<And>w'. jst M b w0 N D I L w' \<Longrightarrow> Q w') \<Longrightarrow> wp (dodag_set_nodes_changed p w) Q"
    and "(ir, ip) \<in> I \<Longrightarrow> (\<And>w'. jst M b w0 N D I L w' \<Longrightarrow> Q w') \<Longrightarrow> wp (rpl_instance_add_dodag ip p w) Q"
    and "(\<And>d. fam_load p (w_dodags w) = Some d \<Longrightarrow> Q1 d) \<Longrightarrow> wp (fam_load p (w_dodags w)) Q1"
proof -
  have M: "node_in w = M" using s by (simp add: jst_def)
  show "(\<And>x. dodag_tracks x (f x)) \<Longrightarrow> (\<And>x. d_nodes (fst (f x)) = d_nodes (fst x))
      \<Longrightarrow> (\<And>w'. jst M b w0 N D I L w' \<Longrightarrow> Q w') \<Longrightarrow> wp (dodag_op p f w) Q"
    by (rule wp_mono [OF dodag_op_st [OF jst_st [OF s] p]]) (auto simp: jst_def M [symmetric] node_in_def dest: nodes_kept)
  show "(r, np) \<in> N \<Longrightarrow> (\<And>w'. jst (join r dr M) b w0 N D I L w' \<Longrightarrow> Q w') \<Longrightarrow> wp (dodag_add_node p np w) Q"
    by (rule wp_mono [OF dodag_add_node_joins [OF jst_st [OF s] _ p]]) (auto simp: jst_def M join_def)
  show "(\<And>w'. jst M b w0 N D I L w' \<Longrightarrow> Q w') \<Longrightarrow> wp (dodag_set_nodes_changed p w) Q"
    by (rule wp_mono [OF dodag_set_nodes_changed_in [OF jst_st [OF s] p]]) (auto simp: jst_def M)
  show "(ir, ip) \<in> I \<Longrightarrow> (\<And>w'. jst M b w0 N D I L w' \<Longrightarrow> Q w') \<Longrightarrow> wp (rpl_instance_add_dodag ip p w) Q"
    by (rule wp_mono [OF rpl_instance_add_dodag_st [OF jst_st [OF s] _ p]])
      (auto simp: jst_def M [symmetric] node_in_def dest: rpl_instance_add_dodag_nodes)
  show "(\<And>d. fam_load p (w_dodags w) = Some d \<Longrightarrow> Q1 d) \<Longrightarrow> wp (fam_load p (w_dodags w)) Q1"
    by (rule st_load_dodag [OF jst_st [OF s] p]) auto
qed

lemma in_instance:
  assumes s: "jst M b w0 N D I L w" and p: "(ir, p) \<in> I"
    and f: "\<And>x. instance_tracks x (f x)" "\<And>x. instance_ok (fst (f x)) = instance_ok (fst x)"
    and Q: "\<And>w'. jst M b w0 N D I L w' \<Longrightarrow> Q w'"
  shows "wp (rpl_instance_op p f w) Q"
  by (rule wp_mono [OF rpl_instance_op_st [OF jst_st [OF s] p f]])
    (use s Q in \<open>auto simp: jst_def node_in_def dest: nodes_kept\<close>)


subsection \<open>A DIO\<close>

text \<open>
  The part that only a DIO of the root runs, between the other steps. The proof follows the calls of the handler; with \<open>b\<close> true the
  state says that no link has changed.
\<close>

lemma in_root:
  assumes s: "jst M b w0 N D I L w" and p: "(dr, p) \<in> D" and i: "(ir, ip) \<in> I"
    and Q: "\<And>w'. jst M b w0 N D I L w' \<Longrightarrow> Q w'"
  shows "wp (if c then do { w \<leftarrow> rpl_instance_add_dodag ip p w;
                       w \<leftarrow> rpl_instance_op ip (rpl_instance_set_mop mop) w;
                       w \<leftarrow> dodag_op p (dodag_update_from_dio dio) w;
                       w \<leftarrow> dodag_op p (dodag_update_from_dodag_config dodag_config) w;
                       dodag_op p (dodag_update_from_dodag_prefix_info prefix) w } else Some w) Q"
proof (cases c)
  case True
  then show ?thesis
    apply (simp only: if_True wp_bind)
    apply (rule in_dodag(4) [OF s p i])
    apply (rule in_instance, assumption, rule i, simp add: tracking, simp add: tracking)
    apply (rule in_dodag(1), assumption, rule p, simp add: tracking, simp add: tracking)
    apply (rule in_dodag(1), assumption, rule p, simp add: tracking, simp add: tracking)
    apply (rule in_dodag(1), assumption, rule p, simp add: tracking, simp add: tracking)
    apply (rule Q, assumption)
    done
qed (use s Q in simp)

lemma rpl_collector_parse_dio_in:
  assumes w: "world_ok w"
  shows "wp (rpl_collector_parse_dio pkt dio dodag_config metric prefix route_info w) (\<lambda>w'. handled w w' \<and> links_same w w'
    \<and> node_in w' = join (node_ref_init (pkt_src_wpan_address pkt)) (dodag_ref_init (dio_dodagid dio) (dio_version_number dio)) (node_in w))"
proof -
  have s: "jst (node_in w) True w {} {} {} {} w" using st_start [OF w] by (simp add: jst_def)
  have last: "handled w w' \<and> links_same w w' \<and> node_in w' = M" if "jst M True w N D I L w'" for M N D I L w'
    using that by (auto simp: jst_def intro: st_handled) (simp add: st_def base_st_def)
  show ?thesis
    unfolding rpl_collector_parse_dio_def wp_bind
    apply (rule in_get(2) [OF s], simp only: prod.case wp_bind)
    apply (rule in_get(3), assumption, simp only: prod.case wp_bind)
    apply (rule in_get(1), assumption, simp only: prod.case wp_bind)
    apply (rule in_dodag(2), assumption, rule insertI1, rule insertI1, simp only: join_meet)
    apply (rule in_root, assumption, rule insertI1, rule insertI1)
    apply (rule in_node(3), assumption, rule insertI1)
    apply (rule in_node(1), assumption, rule insertI1, simp add: tracking)
    apply (rule in_node(2), assumption, rule insertI1)
    apply (rule in_dodag(5), assumption, rule insertI1)
    apply (rule in_node(1), assumption, rule insertI1, simp add: tracking)
    apply (rule in_node(1), assumption, rule insertI1, simp add: tracking)
    apply (rule in_node(1), assumption, rule insertI1, simp add: tracking)
    apply (rule in_node(1), assumption, rule insertI1, simp add: tracking)
    apply (rule handler_branch)
     apply (rule in_dodag(3), assumption, rule insertI1, rule last, assumption)
    apply (simp only: wp_Some, rule last, assumption)
    done
qed

end
