(* ===== verification/Scenario.thy ===== *)
theory Scenario
  imports Analyzer
begin

section \<open>Sample inputs\<close>

text \<open>
  Concrete packets and states that the witnesses of the properties use: the state just after
  \<open>rpl_tool_init\<close>, one in which a node has just been created, and one in which it has been
  committed.
\<close>

definition addr_zero :: in6_addr where
  "addr_zero = \<lparr>u6_addr32_0 = 0, u6_addr32_1 = 0, u6_addr32_2 = 0, u6_addr32_3 = 0\<rparr>"

definition sample_info :: packet_info where
  "sample_info = \<lparr>pkt_src_wpan_address = 1, pkt_dst_wpan_address = 2, pkt_src_ip_address = addr_zero,
     pkt_dst_ip_address = addr_zero, pkt_timestamp = 0, pkt_hop_limit = 64, pkt_type = PT_DIS\<rparr>"

definition sample_dio :: rpl_dio where
  "sample_dio = \<lparr>dio_rpl_instance_id = 3, dio_version_number = 1, dio_rank = 512, dio_grounded = True, dio_preference = 0,
     dio_mode_of_operation = 2, dio_dtsn = 0, dio_dodagid = addr_zero\<rparr>"

definition sample_dao :: rpl_dao where
  "sample_dao = \<lparr>dao_rpl_instance_id = 3, dao_want_ack = False, dao_dodagid_present = True, dao_dodagid = addr_zero, dao_dao_sequence = 1\<rparr>"

definition sample_target :: rpl_dao_opt_target where
  "sample_target = \<lparr>tgt_target_bit_length = 128, tgt_target = addr_zero\<rparr>"

definition sample_transit :: rpl_dao_opt_transit where
  "sample_transit = \<lparr>tra_external = False, tra_parent_addr_present = False, tra_path_control = 0, tra_path_sequence = 1,
     tra_path_lifetime = 255, tra_parent_address = addr_zero\<rparr>"

definition sample_hop :: rpl_hop_by_hop_opt where
  "sample_hop = \<lparr>hbh_packet_toward_root = True, hbh_rank_error = False, hbh_forwarding_error = False, hbh_rpl_instance_id = 3,
     hbh_sender_rank = 512\<rparr>"

abbreviation sample_start :: world where
  "sample_start \<equiv> rpl_tool_init (\<lambda>x. x)"

abbreviation sample_ops :: "analyzer_op list" where
  "sample_ops \<equiv> [op_packet 0 1 sample_info (got_dis None), op_clear_errors,
     op_packet 1 2 sample_info (got_data None), op_clear, op_packet 2 3 sample_info (got_dis None), op_clear_deprecated]"

definition sample_created :: world where
  "sample_created = snd (snd (the (rpldata_get_node (node_ref_init 1) HVM_CreateIfNonExistant sample_start)))"

lemma sample_created_result:
  "world_ok sample_created" "history_ok sample_created" "links_quiet sample_created"
  "w_wsn_last_version sample_created = 0" "w_head sample_created = [ROT_Node RET_Created (node_ref_init 1)]"
  "\<exists>p n. hash_map (working (w_nodes sample_created)) (node_ref_init 1) = Some p
     \<and> fam_load p (w_nodes sample_created) = Some n \<and> n_has_changed n"
proof -
  note init = rpl_tool_init_settled [of "\<lambda>x. x"]
  have ok: "base_ok sample_start" using init(1) by (simp add: settled_def world_ok_def)
  have s: "st True sample_start {} {} {} {} sample_start" by (rule st_start) (use init(1) in \<open>simp add: settled_def\<close>)
  have none: "hash_map (working (w_nodes sample_start)) (node_ref_init 1) = None"
    by (simp add: rpl_tool_init_def rpldata_init_fields fam_init_ok zero_family_def)
  have ver: "wsn_at 0 sample_start = Some (w_wsn_versions sample_start 0)" "x_node_version (w_wsn_versions sample_start 0) = 0"
    using wsn_at_0 [OF base_okD(9) [OF ok]] by (simp_all add: wsn_records_def)
  obtain n where n: "node_init (node_ref_init 1) (w_head sample_start, w_last_simple_id sample_start)
      = (n, w_head sample_start @ [ROT_Node RET_Created (node_ref_init 1)], w_last_simple_id sample_start + 1)" "n_has_changed n"
    using node_init_result [of "node_ref_init 1" "w_head sample_start" "w_last_simple_id sample_start"] by blast
  let ?p = "hp_next (fm_heap (w_nodes sample_start))"
  have get: "rpldata_get_node (node_ref_init 1) HVM_CreateIfNonExistant sample_start = Some (?p, True, sample_created)"
      "w_head sample_created = w_head sample_start @ [ROT_Node RET_Created (node_ref_init 1)]"
      "w_nodes sample_created = fam_create (node_ref_init 1) n (w_nodes sample_start)"
    unfolding sample_created_def
    by (simp_all add: rpldata_get_node_def ver fam_create_object [OF base_okD(1) [OF ok] none] n)
  have s': "st True sample_start {(node_ref_init 1, ?p)} {} {} {} sample_created"
    using rpldata_get_node_st [OF s, of "node_ref_init 1"] get(1) by simp
  then show "world_ok sample_created" by (rule st_world)
  have same: "fixed sample_start sample_created" "links_same sample_start sample_created"
    using s' by (simp_all add: st_def base_st_def)
  then show "history_ok sample_created" "links_quiet sample_created"
    using init(1) history_ok_fixed links_quiet_same by (auto simp: settled_def)
  show "w_wsn_last_version sample_created = 0" using same(1) init(3) by (simp add: fixed_def)
  show "w_head sample_created = [ROT_Node RET_Created (node_ref_init 1)]" using get(2) init(2) by simp
  show "\<exists>p n. hash_map (working (w_nodes sample_created)) (node_ref_init 1) = Some p
     \<and> fam_load p (w_nodes sample_created) = Some n \<and> n_has_changed n"
    using fam_create_simps [OF base_okD(1) [OF ok] none, where obj = n] n(2) by (auto simp: get(3) fam_load_def)
qed

definition sample_committed :: world where
  "sample_committed = snd (the (rpl_event_commit_changed_objects 7 3 sample_created))"

lemma sample_committed_result:
  "rpl_event_commit_changed_objects 7 3 sample_created = Some (True, sample_committed)"
  "commit_result 7 3 sample_created True sample_committed" "w_wsn_last_version sample_committed = 1"
  "settled sample_committed"
proof -
  obtain changed w where c: "rpl_event_commit_changed_objects 7 3 sample_created = Some (changed, w)"
      "commit_result 7 3 sample_created changed w"
    using commit_succeeds [OF sample_created_result(1), of 7 3] by (auto simp: sample_created_result wp_def)
  have "changed" using c(2) by (simp add: commit_result_def sample_created_result)
  with c have "rpl_event_commit_changed_objects 7 3 sample_created = Some (True, sample_committed)"
      "commit_result 7 3 sample_created True sample_committed"
    by (simp_all add: sample_committed_def)
  then show "rpl_event_commit_changed_objects 7 3 sample_created = Some (True, sample_committed)"
      "commit_result 7 3 sample_created True sample_committed" "w_wsn_last_version sample_committed = 1"
      "settled sample_committed"
    using sample_created_result by (simp_all add: commit_result_def settled_def)
qed

end
