(* ===== verification/CollectorProps.thy ===== *)
theory CollectorProps
  imports Membership Scenario
begin

section \<open>The analyzer refines its specification\<close>

text \<open>
  The functions of the theory \<open>CollectorSpec\<close> and the map of the theory \<open>Membership\<close> describe the whole treatment of a packet: the commit that
  follows the handler (\<open>rpl_parser_end_packet\<close> in \<open>src/src/packet_parsers/rpl_parser.c\<close>) leaves what is known as it is. Of whole runs this
  gives that with one preferred parent no node ever has two links in use.
\<close>

subsection \<open>A commit keeps what is known\<close>

lemma commit_keeps_known:
  assumes ok: "base_ok w" and c: "commit_result packet_id timestamp w changed w'"
  shows "net_of w' = net_of w" "node_in w' = node_in w"
proof -
  have n: "node_committed w w'" and l: "link_committed w w'" using c by (simp_all add: commit_result_def)
  have nodes: "fam_view f (w_nodes w') = fam_view f (w_nodes w)"
    if f: "\<And>x. f (snd (node_dup (node_reset_changed x))) = f x" for f
  proof -
    have "f x' = f x" if "Some (node_dup (node_reset_changed x)) = Some (copy, x')" for x copy x'
      using f [of x] that by simp
    then show ?thesis
      using n node_versions.version_added_view [OF _ base_okD(1) [OF ok], of "w_fl w" True "w_nodes w'" f]
      by (simp add: node_versions.kind_committed_def split: if_splits)
  qed
  have "fam_view known (w_nodes w') = fam_view known (w_nodes w)"
    by (rule nodes) (simp add: node_dup_def node_reset_changed_def)
  moreover have "fam_view known_link_of (w_links w') = fam_view known_link_of (w_links w)"
  proof -
    have "known_link_of x' = known_link_of x" if "Some (link_dup (link_reset_changed x), link_reset_changed x) = Some (copy, x')"
      for x copy x'
      using that by (auto simp: known_link_of_def link_reset_changed_def)
    then show ?thesis
      using l link_versions.version_added_view [OF _ base_okD(4) [OF ok], of False "w_links w'" known_link_of]
      by (simp add: link_versions.kind_committed_def split: if_splits)
  qed
  ultimately show "net_of w' = net_of w" by (simp add: net_of_def)
  show "node_in w' = node_in w"
    unfolding node_in_def by (rule nodes) (simp add: node_dup_def node_reset_changed_def node_get_dodag_def)
qed

text \<open>From a handler to the treatment of the packet.\<close>

lemma analyze_packet_from:
  assumes s: "settled w" and small: "unat (w_wsn_last_version w) + 1 < 2 ^ 31"
    and h: "\<And>w1. settled w1 \<Longrightarrow> net_of w1 = net_of w \<Longrightarrow> node_in w1 = node_in w \<Longrightarrow> w_config w1 = w_config w \<Longrightarrow> w_time w1 = w_time w
      \<Longrightarrow> wp (collect pkt packet w1) (\<lambda>w2. handled w1 w2 \<and> F (net_of w2) (node_in w2))"
  shows "wp (analyze_packet packet_id pkt packet w) (\<lambda>w'. settled w' \<and> w_config w' = w_config w \<and> F (net_of w') (node_in w'))"
proof -
  let ?w = "w\<lparr>w_head := rpl_event_packet packet_id pkt (w_head w)\<rparr>"
  have s1: "settled ?w" by (rule settled_same [OF s]) (simp add: same_data_def rpl_event_packet_def)
  have same: "net_of ?w = net_of w" "node_in ?w = node_in w" by (simp_all add: net_of_def node_in_def)
  have "wp (rpl_event_commit_changed_objects packet_id (pkt_timestamp pkt) w2)
      (\<lambda>x. settled (snd x) \<and> w_config (snd x) = w_config w \<and> F (net_of (snd x)) (node_in (snd x)))"
    if w2: "handled ?w w2" "F (net_of w2) (node_in w2)" for w2
  proof -
    have ok: "world_ok w2" "w_wsn_last_version w2 = w_wsn_last_version w" "w_config w2 = w_config w" "history_ok w2"
      using w2(1) s1 history_ok_fixed [of ?w w2] by (simp_all add: handled_def fixed_def settled_def)
    show ?thesis
    proof (rule wp_mono [OF commit_succeeds [OF ok(1)]])
      show "unat (w_wsn_last_version w2) + 1 < 2 ^ 31" using small ok(2) by simp
      fix x assume "case x of (changed, w') \<Rightarrow> commit_result packet_id (pkt_timestamp pkt) w2 changed w'"
      then have c: "commit_result packet_id (pkt_timestamp pkt) w2 (fst x) (snd x)" by (simp add: case_prod_beta)
      then have "settled (snd x)" "w_config (snd x) = w_config w"
        using ok by (simp_all add: commit_result_def settled_def)
      then show "settled (snd x) \<and> w_config (snd x) = w_config w \<and> F (net_of (snd x)) (node_in (snd x))"
        using w2(2) commit_keeps_known [OF world_okD(1) [OF ok(1)] c] by simp
    qed
  qed
  then show ?thesis
    using h [OF s1 same] by (auto simp: analyze_packet_def case_prod_beta elim!: wp_mono)
qed

lemma settledD: "settled w \<Longrightarrow> world_ok w" "settled w \<Longrightarrow> links_quiet w" "settled w \<Longrightarrow> base_ok w"
  by (simp_all add: settled_def world_ok_def)

subsection \<open>A DIS moves nobody and touches no link\<close>

lemma rpl_collector_parse_dis_in:
  assumes w: "world_ok w"
  shows "wp (rpl_collector_parse_dis pkt request w) (\<lambda>w'. handled w w' \<and> links_same w w')"
proof -
  have s: "jst (node_in w) True w {} {} {} {} w" using st_start [OF w] by (simp add: jst_def)
  have last: "handled w w' \<and> links_same w w'" if "jst M True w N D I L w'" for M N D I L w'
    using that by (auto simp: jst_def intro: st_handled) (simp add: st_def base_st_def)
  show ?thesis
    unfolding rpl_collector_parse_dis_def wp_bind
    apply (rule in_get(1) [OF s], simp only: prod.case wp_bind)
    apply (rule in_node(3), assumption, rule insertI1)
    apply (rule in_node(2), assumption, rule insertI1)
    apply (rule in_node(1), assumption, rule insertI1, simp add: tracking)
    apply (rule last, assumption)
    done
qed

subsection \<open>One link in use\<close>

definition single_parent :: "net \<Rightarrow> bool" where
  "single_parent net \<longleftrightarrow> (\<forall>x y l m. nt_links net x = Some l \<longrightarrow> nt_links net y = Some m \<longrightarrow> lr_child x = lr_child y
     \<longrightarrow> \<not> kl_deprecated l \<longrightarrow> \<not> kl_deprecated m \<longrightarrow> x = y)"

lemma single_parent_use: "single_parent net \<Longrightarrow> single_parent (use_link True time r net)"
  unfolding single_parent_def use_link_def touch_link_def deprecate_rivals_def meet_link_def
  by (auto split: if_splits)

lemma single_parent_nodes [simp]:
  "single_parent (change_node r g net) = single_parent net" "single_parent (meet_node r net) = single_parent net"
  by (simp_all add: single_parent_def change_node_def meet_node_def)

lemma single_parent_drop: "single_parent net \<Longrightarrow> single_parent (drop_link r net)"
  unfolding single_parent_def drop_link_def by (auto split: if_splits)

lemma single_parent_dao: "single_parent net \<Longrightarrow> single_parent (dao_effect True time pkt target transit net)"
  by (auto simp: dao_effect_def Let_def single_parent_use single_parent_drop split: option.split)

lemma single_parent_data: "single_parent net \<Longrightarrow> single_parent (data_effect True time pkt rpl_info net)"
  by (auto simp: data_effect_def Let_def single_parent_use split: option.split)


text \<open>The other operations: what they do to the links, and that they keep the configuration.\<close>

lemma each_keeps:
  assumes "each f xs s = Some s'" "\<And>x s s'. f x s = Some s' \<Longrightarrow> V s' = V s"
  shows "V s' = V s"
  using assms(1)
proof (induction xs arbitrary: s)
  case (Cons x xs)
  then obtain t where "f x s = Some t" "each f xs t = Some s'" by (auto split: bind_splits)
  then show ?case using Cons.IH assms(2) by metis
qed simp

lemma clear_errors_links:
  assumes "nodes_clear_all_errors w = Some w'"
  shows "w_links w' = w_links w \<and> w_config w' = w_config w"
proof -
  have "(w_links w2, w_config w2) = (w_links w1, w_config w1)"
    if "each (\<lambda>(_, p). node_op p node_clear_errors) (items :: (di_node_ref \<times> nat) list) w1 = Some w2" for items w1 w2
    by (rule each_keeps [OF that]) (auto simp: node_op_def case_prod_beta split: bind_splits)
  then show ?thesis using assms by (auto simp: nodes_clear_all_errors_def rpldata_get_nodes_def split: bind_splits)
qed

lemma rpldata_del_link_config: "rpldata_del_link r w = Some (p, w') \<Longrightarrow> w_config w' = w_config w"
  by (auto simp: rpldata_del_link_def Let_def case_prod_beta split: bind_splits if_splits)

lemma clear_deprecated_config:
  assumes "links_clear_all_deprecated w = Some w'" shows "w_config w' = w_config w"
proof (rule links_clear_all_deprecated.raw_induct [OF _ assms])
  fix f w w' assume IH: "\<And>w w'. f w = Some w' \<Longrightarrow> w_config w' = w_config w"
    and "do { ptr \<leftarrow> rpldata_get_links 0 w;
          working_container \<leftarrow> ptr;
          deprecated \<leftarrow> first_deprecated (hash_items working_container) w;
          case deprecated of
            None \<Rightarrow> Some w
          | Some (ref, p) \<Rightarrow>
              do { (_, w) \<leftarrow> rpldata_del_link ref w;
                   link \<leftarrow> fam_load p (w_links w);
                   f (w\<lparr>w_head := rpl_event_link (l_key link) RET_Deleted (w_head w)\<rparr>) } } = Some w'"
  then show "w_config w' = w_config w"
    by (auto dest!: rpldata_del_link_config IH split: bind_splits option.splits)
qed

lemma rpldata_clear_config: "rpldata_clear w = Some w' \<Longrightarrow> w_config w' = w_config w"
proof -
  have "w_config w2 = w_config w1" if "free_object el w1 = Some w2" for el w1 w2
    using that by (cases el) (auto split: bind_splits)
  then have "w_config w2 = w_config w1" if "each free_object els w1 = Some w2" for els w1 w2
    using each_keeps [OF that, of w_config] by blast
  then show "rpldata_clear w = Some w' \<Longrightarrow> w_config w' = w_config w"
    by (auto simp: rpldata_clear_def Let_def rpldata_init_def rpl_event_clear_def emit_def split: bind_splits)
qed

lemma net_links_of: "nt_links (net_of w) = fam_view known_link_of (w_links w)"
  by (simp add: net_of_def)

lemma single_parent_subset:
  "single_parent net \<Longrightarrow> nt_links net' \<subseteq>\<^sub>m nt_links net \<Longrightarrow> single_parent net'"
  unfolding single_parent_def map_le_def by (metis domI)

lemma deprecated_removed_links:
  assumes "deprecated_removed w w'"
  shows "nt_links (net_of w') \<subseteq>\<^sub>m nt_links (net_of w)"
  using assms by (auto simp: deprecated_removed_def net_links_of map_le_def fam_view_def fam_load_def split: option.splits if_splits)

lemma emptied_links: "emptied w \<Longrightarrow> nt_links (net_of w) = Map.empty"
  by (simp add: emptied_def net_links_of fam_view_def fun_eq_iff)


text \<open>The steps of a run, for users who keep one preferred parent.\<close>

definition one_parent_run :: "analyzer_op list \<Rightarrow> bool" where
  "one_parent_run ops \<longleftrightarrow> (\<forall>config. op_config config \<in> set ops \<longrightarrow> cfg_one_preferred_parent config)"

definition run_inv :: "world \<Rightarrow> bool" where
  "run_inv w \<longleftrightarrow> cfg_one_preferred_parent (w_config w) \<and> single_parent (net_of w)"

lemma collect_single_parent:
  assumes s: "settled w" and i: "run_inv w"
  shows "wp (collect pkt packet w) (\<lambda>w'. handled w w' \<and> single_parent (net_of w'))"
proof -
  note w = settledD(1,2) [OF s]
  have one: "cfg_one_preferred_parent (w_config w)" and K: "single_parent (net_of w)" using i by (simp_all add: run_inv_def)
  have same: "single_parent (net_of w')" if "links_same w w'" for w'
    using K that by (simp add: single_parent_def net_links_of links_same_def)
  show ?thesis
    by (cases packet)
      (auto intro!: wp_mono [OF rpl_collector_parse_dis_in [OF w(1)]] wp_mono [OF rpl_collector_parse_dio_in [OF w(1)]]
        wp_mono [OF rpl_collector_parse_dao_net [OF w]] wp_mono [OF rpl_collector_parse_data_net [OF w(1)]]
        simp: one same K single_parent_dao single_parent_data)
qed

lemma step_single_parent:
  assumes s: "settled w" "run_inv w"
    and small: "unat (w_wsn_last_version w) + packets [op] < 2 ^ 31" and one: "one_parent_run [op]"
    and w': "analyzer_step op w = Some w'"
  shows "run_inv w'"
proof (cases op)
  case (op_packet time packet_id pkt packet)
  let ?w = "w\<lparr>w_time := time\<rparr>"
  have "settled ?w" "run_inv ?w"
    using s by (auto simp: same_data_def run_inv_def net_of_def intro: settled_same)
  moreover have "net_of w1 = net_of ?w \<Longrightarrow> w_config w1 = w_config ?w \<Longrightarrow> run_inv w1" for w1
    using \<open>run_inv ?w\<close> by (simp add: run_inv_def)
  ultimately have "wp (analyze_packet packet_id pkt packet ?w) (\<lambda>w'. settled w' \<and> w_config w' = w_config ?w \<and> single_parent (net_of w'))"
    using small op_packet by (intro analyze_packet_from) (auto intro: collect_single_parent)
  then show ?thesis
    using w' op_packet s(2) by (simp add: run_inv_def wp_Some_iff)
next
  case op_clear_errors
  then show ?thesis
    using clear_errors_links [of w w'] w' s(2) by (simp add: run_inv_def single_parent_def net_links_of)
next
  case op_clear_deprecated
  then have "deprecated_removed w w'"
    using links_clear_all_deprecated_result [OF s(1)] w' by (auto simp: wp_def)
  then show ?thesis
    using single_parent_subset [OF _ deprecated_removed_links] clear_deprecated_config [of w w'] w' s(2) op_clear_deprecated
    by (auto simp: run_inv_def)
next
  case op_clear
  then have "emptied w'" using rpldata_clear_emptied [OF settledD(1) [OF s(1)]] w' by (auto simp: wp_def)
  then show ?thesis
    using rpldata_clear_config [of w w'] w' s(2) op_clear by (simp add: run_inv_def single_parent_def emptied_links)
next
  case (op_config config)
  then show ?thesis
    using w' s(2) one by (auto simp: run_inv_def one_parent_run_def net_of_def)
next
  case (op_callbacks callbacks)
  then show ?thesis
    using w' s(2) by (auto simp: run_inv_def rpl_event_set_callbacks_def net_of_def)
qed


subsection \<open>The properties\<close>

text \<open>
  C7. A DAO does what its specification says: with a lifetime its link is in use, with one preferred parent as the only link of the child, and the
  parent learns the route to the target through the child; a No-Path DAO makes the parent forget that route, and the link goes if the
  target is the address of the child. Nothing else of the links and the routing tables changes.
\<close>

theorem dao_refines:
  assumes "settled w" "unat (w_wsn_last_version w) + 1 < 2 ^ 31"
  shows "\<exists>w'. analyze_packet packet_id pkt (got_dao dao target transit) w = Some w' \<and> settled w'
    \<and> net_of w' = dao_effect (cfg_one_preferred_parent (w_config w)) (w_time w) pkt target transit (net_of w)"
proof -
  have "wp (analyze_packet packet_id pkt (got_dao dao target transit) w) (\<lambda>w'. settled w' \<and> w_config w' = w_config w
    \<and> net_of w' = dao_effect (cfg_one_preferred_parent (w_config w)) (w_time w) pkt target transit (net_of w))"
    by (rule analyze_packet_from [OF assms]) (use rpl_collector_parse_dao_net settledD in fastforce)
  then show ?thesis by (auto simp: wp_def)
qed

theorem dao_refines_witness:
  "\<exists>w'. analyze_packet 7 sample_info (got_dao sample_dao (Some sample_target) (Some sample_transit)) sample_committed = Some w'
    \<and> net_of w' = dao_effect (cfg_one_preferred_parent (w_config sample_committed)) (w_time sample_committed) sample_info
        (Some sample_target) (Some sample_transit) (net_of sample_committed)"
  using dao_refines [of sample_committed 7 sample_info sample_dao "Some sample_target" "Some sample_transit"] sample_committed_result by auto

text \<open>
  C8. A data packet does what its specification says: upwards it shows the link of its sender and a route from the receiver to its
  source, downwards a route from its sender to its destination.
\<close>

theorem data_refines:
  assumes "settled w" "unat (w_wsn_last_version w) + 1 < 2 ^ 31"
  shows "\<exists>w'. analyze_packet packet_id pkt (got_data rpl_info) w = Some w' \<and> settled w'
    \<and> net_of w' = data_effect (cfg_one_preferred_parent (w_config w)) (w_time w) pkt rpl_info (net_of w)"
proof -
  have "wp (analyze_packet packet_id pkt (got_data rpl_info) w) (\<lambda>w'. settled w' \<and> w_config w' = w_config w
    \<and> net_of w' = data_effect (cfg_one_preferred_parent (w_config w)) (w_time w) pkt rpl_info (net_of w))"
    by (rule analyze_packet_from [OF assms]) (use rpl_collector_parse_data_net settledD in fastforce)
  then show ?thesis by (auto simp: wp_def)
qed

theorem data_refines_witness:
  "\<exists>w'. analyze_packet 7 sample_info (got_data (Some sample_hop)) sample_committed = Some w'
    \<and> net_of w' = data_effect (cfg_one_preferred_parent (w_config sample_committed)) (w_time sample_committed) sample_info
        (Some sample_hop) (net_of sample_committed)"
  using data_refines [of sample_committed 7 sample_info "Some sample_hop"] sample_committed_result by auto

text \<open>
  C9. After a DIO its sender is a member of the DODAG that the DIO names and of no other, and every other node stays where it was.
\<close>

theorem dio_joins:
  assumes "settled w" "unat (w_wsn_last_version w) + 1 < 2 ^ 31"
  shows "\<exists>w'. analyze_packet packet_id pkt (got_dio dio config metric prefix route) w = Some w' \<and> settled w'
    \<and> node_in w' = (node_in w)(node_ref_init (pkt_src_wpan_address pkt) \<mapsto> Some (dodag_ref_init (dio_dodagid dio) (dio_version_number dio)))
    \<and> (\<forall>dr R. members w' dr = Some R \<longrightarrow> (node_ref_init (pkt_src_wpan_address pkt) \<in> R
          \<longleftrightarrow> dr = dodag_ref_init (dio_dodagid dio) (dio_version_number dio)))"
proof -
  let ?src = "node_ref_init (pkt_src_wpan_address pkt)" and ?dr = "dodag_ref_init (dio_dodagid dio) (dio_version_number dio)"
  have "wp (analyze_packet packet_id pkt (got_dio dio config metric prefix route) w) (\<lambda>w'. settled w' \<and> w_config w' = w_config w
    \<and> node_in w' = join ?src ?dr (node_in w))"
  proof (rule analyze_packet_from [OF assms])
    fix w1 assume "settled w1" "node_in w1 = node_in w"
    then show "wp (collect pkt (got_dio dio config metric prefix route) w1) (\<lambda>w2. handled w1 w2 \<and> node_in w2 = join ?src ?dr (node_in w))"
      using rpl_collector_parse_dio_in [OF settledD(1), of w1 pkt dio config metric prefix route] by (auto elim!: wp_mono)
  qed
  then obtain w' where w': "analyze_packet packet_id pkt (got_dio dio config metric prefix route) w = Some w'" "settled w'"
      "node_in w' = join ?src ?dr (node_in w)"
    by (auto simp: wp_def)
  have "?src \<in> R \<longleftrightarrow> dr = ?dr" if "members w' dr = Some R" for dr R
    using members_okD(1) [OF world_okD(2) [OF settledD(1) [OF w'(2)]] that] w'(3) by (auto simp: join_def)
  then show ?thesis using w' by (auto simp: join_def)
qed

theorem dio_joins_witness:
  "\<exists>w'. analyze_packet 7 sample_info (got_dio sample_dio None None None None) sample_committed = Some w'
    \<and> node_in w' (node_ref_init 1) = Some (Some (dodag_ref_init (dio_dodagid sample_dio) (dio_version_number sample_dio)))"
proof -
  obtain w' where "analyze_packet 7 sample_info (got_dio sample_dio None None None None) sample_committed = Some w'"
      "node_in w' = (node_in sample_committed)(node_ref_init (pkt_src_wpan_address sample_info)
         \<mapsto> Some (dodag_ref_init (dio_dodagid sample_dio) (dio_version_number sample_dio)))"
    using dio_joins [of sample_committed 7 sample_info sample_dio None None None None] sample_committed_result by auto
  then show ?thesis by (simp add: sample_info_def)
qed

text \<open>
  C10. As long as the user keeps one preferred parent, no run ever leaves a node with two links that are not deprecated.
\<close>

theorem one_live_parent:
  assumes "clears_idle False ops" "packets ops < 2 ^ 31" "one_parent_run ops"
  shows "\<exists>w. analyzer_run ops (rpl_tool_init fl) = Some w \<and> single_parent (net_of w)"
proof -
  have "run_inv (rpl_tool_init fl)"
    by (simp add: run_inv_def rpl_tool_init_def initial_config_def single_parent_def net_links_of rpldata_init_fields fam_view_def
        fam_init_ok zero_family_def)
      (simp add: rpldata_init_def Let_def)
  then have "wp (analyzer_run ops (rpl_tool_init fl)) (\<lambda>w. settled w \<and> run_inv w)"
  proof (rule analyzer_runs_keeping [where pending = False, OF rpl_tool_init_settled(1)])
    fix op w w' assume op: "op \<in> set ops" and w: "settled w" "run_inv w" "unat (w_wsn_last_version w) + packets [op] < 2 ^ 31"
      "analyzer_step op w = Some w'"
    have "one_parent_run [op]" using assms(3) op by (simp add: one_parent_run_def)
    then show "run_inv w'" using step_single_parent [OF w(1-3) _ w(4)] by blast
  qed (use assms in \<open>simp_all add: rpl_tool_init_settled\<close>)
  then show ?thesis by (auto simp: wp_def run_inv_def)
qed

theorem one_live_parent_witness:
  "\<exists>w. analyzer_run sample_ops (rpl_tool_init (\<lambda>x. x)) = Some w \<and> single_parent (net_of w)"
  by (rule one_live_parent) (simp_all add: one_parent_run_def)

end
