(* ===== verification/CString.thy ===== *)
theory CString
  imports Prelude
begin

section \<open>The functions of the C library on strings\<close>

text \<open>
  The functions of \<open>string.h\<close> and \<open>stdlib.h\<close> that the packet parsers call, on strings without
  their terminating NUL: \<open>strstr\<close>, \<open>strncmp\<close> against a literal, and the conversions of integers.
  A conversion skips white space, takes a sign, in base 16 an optional \<open>0x\<close>, then as many digits as
  there are; it stops at the first other character and saturates at the bounds of its type. The
  result is its 64-bit pattern (\<open>long\<close> and \<open>long long\<close> have 64 bits).
\<close>

definition strncmp_eq :: "string \<Rightarrow> string \<Rightarrow> nat \<Rightarrow> bool" where
  "strncmp_eq s t n \<longleftrightarrow> take n s = take n t"

fun strstr :: "string \<Rightarrow> string \<Rightarrow> bool" where
  "strstr [] needle = (needle = [])"
| "strstr (c # cs) needle = (take (length needle) (c # cs) = needle \<or> strstr cs needle)"

definition isspace :: "char \<Rightarrow> bool" where
  "isspace c = (let n = of_char c :: nat in n = 32 \<or> 9 \<le> n \<and> n \<le> 13)"

definition digit_of :: "char \<Rightarrow> nat option" where
  "digit_of c = (let n = of_char c :: nat in
     if 48 \<le> n \<and> n \<le> 57 then Some (n - 48)
     else if 97 \<le> n \<and> n \<le> 122 then Some (n - 87)
     else if 65 \<le> n \<and> n \<le> 90 then Some (n - 55)
     else None)"

fun digits :: "nat \<Rightarrow> string \<Rightarrow> nat \<Rightarrow> nat" where
  "digits base [] acc = acc"
| "digits base (c # cs) acc =
     (case digit_of c of
        Some d \<Rightarrow> if d < base then digits base cs (acc * base + d) else acc
      | None \<Rightarrow> acc)"

fun skip_hex_prefix :: "string \<Rightarrow> string" where
  "skip_hex_prefix (z # x # c # cs) =
     (if z = CHR ''0'' \<and> (x = CHR ''x'' \<or> x = CHR ''X'') \<and> (\<exists>d\<in>set_option (digit_of c). d < 16)
      then c # cs else z # x # c # cs)"
| "skip_hex_prefix s = s"

text \<open>The sign and the absolute value.\<close>

definition read_number :: "nat \<Rightarrow> string \<Rightarrow> bool \<times> nat" where
  "read_number base s =
     (let s = dropWhile isspace s;
          (negative, s) = (case s of
              c # cs \<Rightarrow> if c = CHR ''-'' then (True, cs) else if c = CHR ''+'' then (False, cs) else (False, s)
            | [] \<Rightarrow> (False, s));
          s = (if base = 16 then skip_hex_prefix s else s)
      in (negative, digits base s 0))"

definition strtoll :: "string \<Rightarrow> nat \<Rightarrow> u64" where
  "strtoll s base =
     (let (negative, n) = read_number base s; v = (if negative then - int n else int n)
      in word_of_int (max (- (2 ^ 63)) (min (2 ^ 63 - 1) v)))"

definition strtol :: "string \<Rightarrow> nat \<Rightarrow> u64" where
  "strtol s base = strtoll s base"

definition strtoull :: "string \<Rightarrow> nat \<Rightarrow> u64" where
  "strtoull s base =
     (let (negative, n) = read_number base s
      in if 2 ^ 64 \<le> n then - 1 else if negative then - word_of_nat n else word_of_nat n)"

definition strtoul :: "string \<Rightarrow> nat \<Rightarrow> u64" where
  "strtoul s base = strtoull s base"

lemma strstr_sublist: "strstr s needle \<longleftrightarrow> (\<exists>pre post. s = pre @ needle @ post)"
proof (induction s)
  case (Cons c cs)
  have "take (length needle) (c # cs) = needle \<longleftrightarrow> (\<exists>post. c # cs = needle @ post)"
    by (metis append_eq_conv_conj append_take_drop_id)
  with Cons show ?case by (auto simp: Cons_eq_append_conv)
qed auto

subsection \<open>Printing numbers\<close>

definition digit_char :: "nat \<Rightarrow> char" where
  "digit_char d = (if d < 10 then char_of (48 + d) else char_of (87 + d))"

function show_nat :: "nat \<Rightarrow> nat \<Rightarrow> string" where
  "show_nat base n = (if n < base \<or> base < 2 then [digit_char n] else show_nat base (n div base) @ [digit_char (n mod base)])"
  by pat_completeness auto
termination by (relation "measure snd") auto

declare show_nat.simps [simp del]

lemma digit_of_digit_char: "d < 36 \<Longrightarrow> digit_of (digit_char d) = Some d"
  by (simp add: digit_of_def digit_char_def)

lemma digits_append:
  "\<forall>c\<in>set s. \<exists>d<base. digit_of c = Some d \<Longrightarrow> digits base (s @ t) acc = digits base t (digits base s acc)"
  by (induction s arbitrary: acc) auto

lemma show_nat_digits:
  assumes "2 \<le> base" "base \<le> 36"
  shows "(\<forall>c\<in>set (show_nat base n). \<exists>d<base. digit_of c = Some d) \<and> digits base (show_nat base n) 0 = n"
proof (induction n rule: less_induct)
  case (less n)
  show ?case
  proof (cases "n < base")
    case True
    then show ?thesis using assms by (simp add: show_nat.simps [of base n] digit_of_digit_char)
  next
    case False
    then have "n div base < n" using assms by simp
    from less.IH [OF this] show ?thesis
      using assms False
      by (simp add: show_nat.simps [of base n] digits_append digit_of_digit_char order_less_le_trans [OF mod_less_divisor [of base n]])
  qed
qed

lemma digit_of_neither: "digit_of c \<noteq> None \<Longrightarrow> \<not> isspace c \<and> c \<noteq> CHR ''-'' \<and> c \<noteq> CHR ''+''"
  by (auto simp: digit_of_def isspace_def Let_def split: if_splits)

lemma digit_of_x: "digit_of c = Some d \<Longrightarrow> d < 16 \<Longrightarrow> c \<noteq> CHR ''x'' \<and> c \<noteq> CHR ''X''"
  by (auto simp: digit_of_def Let_def split: if_splits)

lemma read_show_nat:
  assumes "2 \<le> base" "base \<le> 16"
  shows "read_number base (show_nat base n) = (False, n)"
proof -
  note digs = show_nat_digits [of base n]
  have all: "\<forall>c\<in>set (show_nat base n). \<exists>d<16. digit_of c = Some d"
    using digs assms by fastforce
  have "show_nat base n \<noteq> []" by (subst show_nat.simps) simp
  then obtain c cs where s: "show_nat base n = c # cs" by (cases "show_nat base n") auto
  have c: "\<not> isspace c" "c \<noteq> CHR ''-''" "c \<noteq> CHR ''+''" using all s digit_of_neither [of c] by auto
  have "skip_hex_prefix (c # cs) = c # cs"
  proof (cases cs)
    case (Cons x cs')
    then have "x \<noteq> CHR ''x''" "x \<noteq> CHR ''X''" using all s digit_of_x [of x] by auto
    then show ?thesis using Cons by (cases cs') simp_all
  qed simp
  then show ?thesis using c s digs assms by (auto simp: read_number_def Let_def simp del: digits.simps)
qed

end
