(* ===== verification/Memory.thy ===== *)
theory Memory
  imports Address
begin

section \<open>Structures laid over bytes\<close>

text \<open>
  The bytes of a C object, by offset, for the code that keeps several structures in one union: the
  loads and stores of the types that their members have, on a little-endian host. A \<open>bool\<close> is a byte
  that is not 0.
  The locale \<open>member\<close> is the contract of a member of a structure: it occupies \<open>len\<close> bytes at \<open>off\<close>; a
  load sees these bytes only, gives back what was stored, and a store leaves every other byte
  alone. Two members that do not overlap are then independent. It is interpreted for every type
  of member.
\<close>

type_synonym memory = "nat \<Rightarrow> u8"

definition load :: "nat \<Rightarrow> nat \<Rightarrow> memory \<Rightarrow> u8 list" where
  "load off n m = map m [off..<off + n]"

definition store :: "nat \<Rightarrow> u8 list \<Rightarrow> memory \<Rightarrow> memory" where
  "store off bs m = (\<lambda>i. if off \<le> i \<and> i < off + length bs then bs ! (i - off) else m i)"

definition memory_zero :: memory where
  "memory_zero = (\<lambda>_. 0)"

abbreviation (input) load8 :: "nat \<Rightarrow> memory \<Rightarrow> u8" where
  "load8 off m \<equiv> m off"

abbreviation (input) store8 :: "nat \<Rightarrow> u8 \<Rightarrow> memory \<Rightarrow> memory" where
  "store8 off w \<equiv> store off [w]"

abbreviation (input) load_bool :: "nat \<Rightarrow> memory \<Rightarrow> bool" where
  "load_bool off m \<equiv> m off \<noteq> 0"

abbreviation (input) store_bool :: "nat \<Rightarrow> bool \<Rightarrow> memory \<Rightarrow> memory" where
  "store_bool off b \<equiv> store off [if b then 1 else 0]"

definition load16 :: "nat \<Rightarrow> memory \<Rightarrow> u16" where
  "load16 off m = word_of_bytes (load off 2 m)"

abbreviation (input) store16 :: "nat \<Rightarrow> u16 \<Rightarrow> memory \<Rightarrow> memory" where
  "store16 off w \<equiv> store off (bytes_of 2 w)"

definition load32 :: "nat \<Rightarrow> memory \<Rightarrow> u32" where
  "load32 off m = word_of_bytes (load off 4 m)"

abbreviation (input) store32 :: "nat \<Rightarrow> u32 \<Rightarrow> memory \<Rightarrow> memory" where
  "store32 off w \<equiv> store off (bytes_of 4 w)"

definition load_in6 :: "nat \<Rightarrow> memory \<Rightarrow> in6_addr" where
  "load_in6 off m = in6_of_bytes (load off 16 m)"

definition in6_bytes :: "in6_addr \<Rightarrow> u8 list" where
  "in6_bytes a = map (u6_addr8 a) [0..<16]"

abbreviation (input) store_in6 :: "nat \<Rightarrow> in6_addr \<Rightarrow> memory \<Rightarrow> memory" where
  "store_in6 off a \<equiv> store off (in6_bytes a)"

subsection \<open>Members\<close>

lemma load_store: "load off (length bs) (store off bs m) = bs"
  by (rule nth_equalityI) (simp_all add: load_def store_def)

lemma load_store_apart: "off + n \<le> off' \<or> off' + length bs \<le> off \<Longrightarrow> load off n (store off' bs m) = load off n m"
  by (auto simp: load_def store_def)

lemma load_1: "load off 1 m = [m off]"
  by (simp add: load_def)

locale member =
  fixes off len :: nat and get :: "memory \<Rightarrow> 'a" and dec :: "u8 list \<Rightarrow> 'a" and enc :: "'a \<Rightarrow> u8 list"
  assumes get_load: "get m = dec (load off len m)"
    and dec_enc: "dec (enc x) = x"
    and length_enc: "length (enc x) = len"
begin

lemma get_put: "get (store off (enc x) m) = x"
  using load_store [of off "enc x" m] by (simp add: get_load dec_enc length_enc)

lemma get_other: "off + len \<le> off' \<or> off' + length bs \<le> off \<Longrightarrow> get (store off' bs m) = get m"
  by (simp add: get_load load_store_apart)

end

lemma length_in6_bytes [simp]: "length (in6_bytes a) = 16"
  by (simp add: in6_bytes_def)

lemma in6_of_bytes_in6_bytes: "in6_of_bytes (in6_bytes a) = a"
proof -
  have words: "word_of_bytes (map (byte_of w) [0..<4]) = w" for w :: u32
    using word_of_bytes_bytes_of [of 4 w] by (simp add: bytes_of_def)
  have "take 4 (drop (4 * j) (in6_bytes a)) = map (byte_of (u6_addr32 a j)) [0..<4]" if "j < 4" for j
    using that by (auto simp: list_eq_iff_nth_eq u6_addr8_def in6_bytes_def)
  from this [of 0] this [of 1] this [of 2] this [of 3] show ?thesis
    by (simp add: in6_of_bytes_def words u6_addr32_def del: upt_conv_Cons)
qed

interpretation m8: member off 1 "load8 off" hd "\<lambda>w. [w]" for off
  by unfold_locales (simp_all add: load_1 [simplified])

interpretation m_bool: member off 1 "load_bool off" "\<lambda>bs. hd bs \<noteq> 0" "\<lambda>b. [if b then 1 else 0]" for off
  by unfold_locales (simp_all add: load_1 [simplified])

interpretation m16: member off 2 "load16 off" word_of_bytes "bytes_of 2" for off
  by unfold_locales (simp_all add: load16_def word_of_bytes_bytes_of)

interpretation m32: member off 4 "load32 off" word_of_bytes "bytes_of 4" for off
  by unfold_locales (simp_all add: load32_def word_of_bytes_bytes_of)

interpretation m_in6: member off 16 "load_in6 off" in6_of_bytes in6_bytes for off
  by unfold_locales (simp_all add: load_in6_def in6_of_bytes_in6_bytes)

text \<open>A member reads what was last stored in it, and a store elsewhere does not matter.\<close>

lemmas member_simps [simp] =
  m8.get_put m16.get_put m32.get_put m_in6.get_put
  m8.get_other m16.get_other m32.get_other m_in6.get_other

lemma load_zero [simp]:
  "memory_zero off = 0" "load16 off memory_zero = 0" "load32 off memory_zero = 0" "load_in6 off memory_zero = init_ipv6_addr"
proof -
  have word: "word_of_bytes (replicate n 0) = (0 :: 'a::len word)" for n
    by (rule bit_word_eqI) (simp add: bit_word_of_bytes)
  have mem: "load off n memory_zero = replicate n 0" for n
    by (simp add: load_def memory_zero_def list_eq_iff_nth_eq)
  show "memory_zero off = 0" by (simp add: memory_zero_def)
  show "load16 off memory_zero = 0" "load32 off memory_zero = 0" "load_in6 off memory_zero = init_ipv6_addr"
    by (simp_all only: load16_def load32_def load_in6_def mem word in6_of_bytes_def init_ipv6_addr_def
        drop_replicate take_replicate)
qed

end
