(* ===== verification/Parser.thy ===== *)
theory Parser
  imports Analyzer CString Memory
begin

section \<open>The parser of RPL packets\<close>

text \<open>
  Models \<open>src/src/packet_parsers/rpl_parser.c\<close>. A packet arrives as the fields that tshark has
  dissected: a name, the text shown, and the value if there is one, also read as a number. The
  static \<open>current_packet\<close> is the record \<open>rpl_packet_content\<close>. Its anonymous union is kept as bytes,
  because a field of one kind of packet can be written before the kind is known, and stays there
  when the kind changes; the offsets are those of the x86-64 System V ABI:
  \<^item> \<open>rpl_packet_dis_t\<close>: \<open>has_info\<close> 0; \<open>info\<close> 4: \<open>instance_predicate\<close> 4, \<open>rpl_instance_id\<close> 5,
    \<open>version_predicate\<close> 6, \<open>rpl_version\<close> 7, \<open>dodag_predicate\<close> 8, \<open>dodagid\<close> 12.
  \<^item> \<open>rpl_packet_dio_t\<close>: \<open>dio\<close> 0 (\<open>rank\<close> 2, \<open>grounded\<close> 4, \<open>preference\<close> 5, \<open>mode_of_operation\<close> 8,
    \<open>dtsn\<close> 12, \<open>dodagid\<close> 16), \<open>has_config\<close> 32, \<open>has_prefix\<close> 33, \<open>has_route\<close> 34, \<open>has_metric\<close> 35,
    \<open>config\<close> 36, \<open>prefix_info\<close> 56, \<open>route\<close> 88, \<open>metric\<close> 116.
  \<^item> \<open>rpl_packet_dao_t\<close>: \<open>dao\<close> 0 (\<open>dodagid\<close> 4, \<open>dao_sequence\<close> 20), \<open>has_target\<close> 24, \<open>has_transit\<close> 25,
    \<open>target\<close> 28, \<open>transit\<close> 48.
  \<^item> \<open>rpl_packet_data_t\<close>: \<open>has_hop_info\<close> 0, \<open>hop_info\<close> 2.
  \<open>strtod\<close> and \<open>inet_pton\<close> are parameters: \<open>None\<close> when the text is not an address, and then nothing is
  written. The messages on \<open>stderr\<close> are left out.
\<close>

record libc =
  lc_strtod :: "string \<Rightarrow> real"
  lc_inet_pton :: "string \<Rightarrow> in6_addr option"

record rpl_packet_content =
  pc_packet_id :: c_int
  pc_is_bad :: bool
  pc_pkt_info :: packet_info
  pc_union :: memory

definition rpl_parser_begin_packet :: rpl_packet_content where
  "rpl_parser_begin_packet =
     \<lparr>pc_packet_id = 0, pc_is_bad = False,
      pc_pkt_info = \<lparr>pkt_src_wpan_address = 0, pkt_dst_wpan_address = 0, pkt_src_ip_address = init_ipv6_addr,
        pkt_dst_ip_address = init_ipv6_addr, pkt_timestamp = 0, pkt_hop_limit = 0, pkt_type = PT_None\<rparr>,
      pc_union = memory_zero\<rparr>"

subsection \<open>The members of the union\<close>

definition union_dis_info :: "memory \<Rightarrow> rpl_dis_opt_info_req" where
  "union_dis_info m =
     \<lparr>dis_instance_predicate = load_bool 4 m, dis_rpl_instance_id = load8 5 m, dis_version_predicate = load_bool 6 m,
      dis_rpl_version = load8 7 m, dis_dodag_predicate = load_bool 8 m, dis_dodagid = load_in6 12 m\<rparr>"

definition union_dio :: "memory \<Rightarrow> rpl_dio" where
  "union_dio m =
     \<lparr>dio_rpl_instance_id = load8 0 m, dio_version_number = load8 1 m, dio_rank = load16 2 m, dio_grounded = load_bool 4 m,
      dio_preference = load8 5 m, dio_mode_of_operation = load32 8 m, dio_dtsn = load8 12 m, dio_dodagid = load_in6 16 m\<rparr>"

definition union_config :: "memory \<Rightarrow> rpl_dodag_config" where
  "union_config m =
     \<lparr>dc_auth_enabled = load16 36 m, dc_path_control_size = load8 38 m, dc_dio_interval_min = load8 39 m,
      dc_dio_interval_max = load8 40 m, dc_dio_redundancy_constant = load8 41 m, dc_max_rank_inc = load16 42 m,
      dc_min_hop_rank_inc = load16 44 m, dc_default_lifetime = load8 46 m, dc_lifetime_unit = load16 48 m,
      dc_objective_function = load32 52 m\<rparr>"

definition union_prefix_info :: "memory \<Rightarrow> rpl_prefix" where
  "union_prefix_info m =
     \<lparr>px_prefix = \<lparr>pfx_length = load8 56 m, pfx_prefix = load_in6 60 m\<rparr>, px_on_link = load_bool 76 m,
      px_auto_address_config = load_bool 77 m, px_router_address = load_bool 78 m, px_valid_lifetime = load32 80 m,
      px_preferred_lifetime = load32 84 m\<rparr>"

definition union_route :: "memory \<Rightarrow> rpl_route" where
  "union_route m =
     \<lparr>rr_preference = load8 88 m, rr_lifetime = load32 92 m, rr_prefix_bit_length = load8 96 m,
      rr_route_prefix = load_in6 100 m\<rparr>"

definition union_metric :: "memory \<Rightarrow> rpl_metric" where
  "union_metric m = \<lparr>mm_type = load32 116 m, mm_value = load32 120 m\<rparr>"

definition union_dao :: "memory \<Rightarrow> rpl_dao" where
  "union_dao m =
     \<lparr>dao_rpl_instance_id = load8 0 m, dao_want_ack = load_bool 1 m, dao_dodagid_present = load_bool 2 m,
      dao_dodagid = load_in6 4 m, dao_dao_sequence = load8 20 m\<rparr>"

definition union_target :: "memory \<Rightarrow> rpl_dao_opt_target" where
  "union_target m = \<lparr>tgt_target_bit_length = load8 28 m, tgt_target = load_in6 32 m\<rparr>"

definition union_transit :: "memory \<Rightarrow> rpl_dao_opt_transit" where
  "union_transit m =
     \<lparr>tra_external = load_bool 48 m, tra_parent_addr_present = load_bool 49 m, tra_path_control = load8 50 m,
      tra_path_sequence = load8 51 m, tra_path_lifetime = load8 52 m, tra_parent_address = load_in6 56 m\<rparr>"

definition union_hop_info :: "memory \<Rightarrow> rpl_hop_by_hop_opt" where
  "union_hop_info m =
     \<lparr>hbh_packet_toward_root = load_bool 2 m, hbh_rank_error = load_bool 3 m, hbh_forwarding_error = load_bool 4 m,
      hbh_rpl_instance_id = load8 5 m, hbh_sender_rank = load16 6 m\<rparr>"

subsection \<open>The fields of the headers\<close>

text \<open>\<open>inet_pton(AF_INET6, showStr, p)\<close>, into the union and into the packet information.\<close>

definition inet_pton_at :: "libc \<Rightarrow> string \<Rightarrow> nat \<Rightarrow> memory \<Rightarrow> memory" where
  "inet_pton_at lib showStr off m = (case lc_inet_pton lib showStr of None \<Rightarrow> m | Some a \<Rightarrow> store_in6 off a m)"

definition inet_pton_or :: "libc \<Rightarrow> string \<Rightarrow> in6_addr \<Rightarrow> in6_addr" where
  "inet_pton_or lib showStr old = (case lc_inet_pton lib showStr of None \<Rightarrow> old | Some a \<Rightarrow> a)"

definition type_of_next_header :: "u64 \<Rightarrow> packet_type" where
  "type_of_next_header valueInt =
     (if valueInt = 58 then PT_ICMPv6_Unknown else if valueInt = 6 then PT_TCP
      else if valueInt = 17 then PT_UDP else PT_IPv6_Unknown)"

definition type_of_icmpv6 :: "u64 \<Rightarrow> packet_type" where
  "type_of_icmpv6 valueInt =
     (if valueInt = 128 then PT_PING_ECHO else if valueInt = 129 then PT_PING_REPLY
      else if valueInt = 133 then PT_NDP_RS else if valueInt = 134 then PT_NDP_RA
      else if valueInt = 135 then PT_NDP_NS else if valueInt = 136 then PT_NDP_NA
      else if valueInt = 137 then PT_NDP_Redirect else if valueInt = 157 then PT_6ND_DAR
      else if valueInt = 158 then PT_6ND_DAC else if valueInt = 155 then PT_RPL_Unknown
      else PT_ICMPv6_Unknown)"

definition type_of_rpl_code :: "u64 \<Rightarrow> packet_type \<Rightarrow> packet_type" where
  "type_of_rpl_code valueInt type =
     (if valueInt = 0 then PT_DIS else if valueInt = 1 then PT_DIO else if valueInt = 2 then PT_DAO else type)"

definition htons :: "u64 \<Rightarrow> u64" where
  "htons v = ucast (word_of_bytes (rev (bytes_of 2 (ucast v :: u16))) :: u16)"

text \<open>The first chain of tests: the headers that every packet has, and the kind of packet.\<close>

definition parse_header ::
    "libc \<Rightarrow> string \<Rightarrow> string \<Rightarrow> string option \<Rightarrow> u64 \<Rightarrow> rpl_packet_content \<Rightarrow> rpl_packet_content" where
  "parse_header lib nameStr showStr valueStr valueInt c =
     (let info = pc_pkt_info c;
          seen_ip = (if pkt_type info = PT_None then PT_IPv6_Unknown else pkt_type info) in
      case valueStr of
        None \<Rightarrow>
          if nameStr = ''frame.number'' then c\<lparr>pc_packet_id := ucast (strtol showStr 10 - 1)\<rparr>
          else if nameStr = ''frame.time_epoch'' then c\<lparr>pc_pkt_info := info\<lparr>pkt_timestamp := lc_strtod lib showStr\<rparr>\<rparr>
          else c
      | Some value \<Rightarrow>
          if nameStr = ''icmpv6.checksum_bad'' \<and> showStr = ''1'' then c\<lparr>pc_is_bad := True\<rparr>
          else if nameStr = ''wpan.src16'' \<and> pkt_src_wpan_address info = 0 then
            c\<lparr>pc_pkt_info := info\<lparr>pkt_src_wpan_address := htons (strtoul value 16)\<rparr>\<rparr>
          else if nameStr = ''wpan.src64'' then
            c\<lparr>pc_pkt_info := info\<lparr>pkt_src_wpan_address := bswap64 (strtoull value 16)\<rparr>\<rparr>
          else if nameStr = ''wpan.dst64'' then
            c\<lparr>pc_pkt_info := info\<lparr>pkt_dst_wpan_address := bswap64 (strtoull value 16)\<rparr>\<rparr>
          else if nameStr = ''wpan.dst_addr64'' then
            c\<lparr>pc_pkt_info := info\<lparr>pkt_dst_wpan_address := bswap64 (strtoull value 16)\<rparr>\<rparr>
          else if nameStr = ''ipv6.src'' then
            c\<lparr>pc_pkt_info := info\<lparr>pkt_src_ip_address := inet_pton_or lib showStr (pkt_src_ip_address info), pkt_type := seen_ip\<rparr>\<rparr>
          else if nameStr = ''ipv6.dst'' then
            c\<lparr>pc_pkt_info := info\<lparr>pkt_dst_ip_address := inet_pton_or lib showStr (pkt_dst_ip_address info), pkt_type := seen_ip\<rparr>\<rparr>
          else if nameStr = ''ipv6.hlim'' then c\<lparr>pc_pkt_info := info\<lparr>pkt_hop_limit := ucast valueInt\<rparr>\<rparr>
          else if nameStr = ''ipv6.nxt'' then c\<lparr>pc_pkt_info := info\<lparr>pkt_type := type_of_next_header valueInt\<rparr>\<rparr>
          else if pkt_type info = PT_IPv6_Unknown \<and> strncmp_eq showStr ''Next header:'' 12 then
            c\<lparr>pc_pkt_info := info\<lparr>pkt_type := type_of_next_header valueInt\<rparr>\<rparr>
          else if nameStr = ''icmpv6.type'' then c\<lparr>pc_pkt_info := info\<lparr>pkt_type := type_of_icmpv6 valueInt\<rparr>\<rparr>
          else if pkt_type info = PT_RPL_Unknown \<and> nameStr = ''icmpv6.code'' then
            c\<lparr>pc_pkt_info := info\<lparr>pkt_type := type_of_rpl_code valueInt (pkt_type info)\<rparr>\<rparr>
          else c)"

subsection \<open>The fields of each kind of packet\<close>

text \<open>
  \<open>option_check\<close>: a group of fields marks its option as present, at offset \<open>has\<close>, when the name is one
  of its own; \<open>None\<close> is the last \<open>else\<close> of the group.
\<close>

definition option_group :: "nat \<Rightarrow> memory option \<Rightarrow> memory \<Rightarrow> memory" where
  "option_group has written m = (case written of None \<Rightarrow> m | Some m' \<Rightarrow> store_bool has True m')"

definition parse_dis :: "libc \<Rightarrow> string \<Rightarrow> string \<Rightarrow> u64 \<Rightarrow> memory \<Rightarrow> memory" where
  "parse_dis lib nameStr showStr valueInt m =
     (let m = (if \<not> load_bool 0 m \<and> strstr nameStr ''icmpv6.rpl.opt.solicited'' then store_bool 0 True m else m) in
      if nameStr = ''icmpv6.rpl.opt.solicited.flag.d'' then store_bool 8 (valueInt \<noteq> 0) m
      else if nameStr = ''icmpv6.rpl.opt.solicited.flag.i'' then store_bool 4 (valueInt \<noteq> 0) m
      else if nameStr = ''icmpv6.rpl.opt.solicited.flag.v'' then store_bool 6 (valueInt \<noteq> 0) m
      else if nameStr = ''icmpv6.rpl.opt.solicited.dodagid'' then inet_pton_at lib showStr 8 m
      else if nameStr = ''icmpv6.rpl.opt.solicited.instance'' then store8 5 (ucast valueInt) m
      else if nameStr = ''icmpv6.rpl.opt.solicited.version'' then store8 7 (ucast valueInt) m
      else m)"

definition dio_base_field :: "libc \<Rightarrow> string \<Rightarrow> string \<Rightarrow> u64 \<Rightarrow> memory \<Rightarrow> memory" where
  "dio_base_field lib nameStr showStr valueInt m =
     (if nameStr = ''icmpv6.rpl.dio.instance'' then store8 0 (ucast valueInt) m
      else if nameStr = ''icmpv6.rpl.dio.version'' then store8 1 (ucast valueInt) m
      else if nameStr = ''icmpv6.rpl.dio.rank'' then store16 2 (ucast valueInt) m
      else if nameStr = ''icmpv6.rpl.dio.flag.g'' then store_bool 4 (valueInt \<noteq> 0) m
      else if nameStr = ''icmpv6.rpl.dio.flag.preference'' then store8 5 (ucast valueInt) m
      else if nameStr = ''icmpv6.rpl.dio.flag.mop'' then store32 8 (ucast valueInt) m
      else if nameStr = ''icmpv6.rpl.dio.dtsn'' then store8 12 (ucast valueInt) m
      else if nameStr = ''icmpv6.rpl.dio.dagid'' then inet_pton_at lib showStr 16 m
      else m)"

definition metric_field :: "string \<Rightarrow> u64 \<Rightarrow> memory \<Rightarrow> memory option" where
  "metric_field nameStr valueInt m =
     (if nameStr = ''icmpv6.rpl.opt.metric.type'' then Some (store32 116 (ucast valueInt) m)
      else if nameStr = ''icmpv6.rpl.opt.metric.etx'' then Some (store32 120 (ucast valueInt) m)
      else None)"

definition route_field :: "libc \<Rightarrow> string \<Rightarrow> string \<Rightarrow> u64 \<Rightarrow> memory \<Rightarrow> memory option" where
  "route_field lib nameStr showStr valueInt m =
     (if nameStr = ''icmpv6.rpl.opt.route.pref'' then Some (store8 88 (ucast valueInt) m)
      else if nameStr = ''icmpv6.rpl.opt.route.lifetime'' then Some (store32 92 (ucast valueInt) m)
      else if nameStr = ''icmpv6.rpl.opt.route.prefix_length'' then Some (store8 96 (ucast valueInt) m)
      else if nameStr = ''icmpv6.rpl.opt.route.prefix'' then Some (inet_pton_at lib showStr 100 m)
      else None)"

definition config_field :: "string \<Rightarrow> u64 \<Rightarrow> memory \<Rightarrow> memory option" where
  "config_field nameStr valueInt m =
     (if nameStr = ''icmpv6.rpl.opt.config.auth'' then Some (store16 36 (ucast valueInt) m)
      else if nameStr = ''icmpv6.rpl.opt.config.pcs'' then Some (store8 38 (ucast valueInt) m)
      else if nameStr = ''icmpv6.rpl.opt.config.interval_min'' then Some (store8 39 (ucast valueInt) m)
      else if nameStr = ''icmpv6.rpl.opt.config.interval_double'' then Some (store8 40 (ucast valueInt) m)
      else if nameStr = ''icmpv6.rpl.opt.config.redundancy'' then Some (store8 41 (ucast valueInt) m)
      else if nameStr = ''icmpv6.rpl.opt.config.max_rank_inc'' then Some (store16 42 (ucast valueInt) m)
      else if nameStr = ''icmpv6.rpl.opt.config.min_hop_rank_inc'' then Some (store16 44 (ucast valueInt) m)
      else if nameStr = ''icmpv6.rpl.opt.config.def_lifetime'' then Some (store8 46 (ucast valueInt) m)
      else if nameStr = ''icmpv6.rpl.opt.config.lifetime_unit'' then Some (store16 48 (ucast valueInt) m)
      else if nameStr = ''icmpv6.rpl.opt.config.ocp'' then Some (store32 52 (ucast valueInt) m)
      else None)"

definition prefix_field :: "libc \<Rightarrow> string \<Rightarrow> string \<Rightarrow> u64 \<Rightarrow> memory \<Rightarrow> memory option" where
  "prefix_field lib nameStr showStr valueInt m =
     (if nameStr = ''icmpv6.rpl.opt.prefix.flag.l'' then Some (store_bool 76 (valueInt \<noteq> 0) m)
      else if nameStr = ''icmpv6.rpl.opt.prefix.preferred_lifetime'' then Some (store32 84 (ucast valueInt) m)
      else if nameStr = ''icmpv6.rpl.opt.prefix.valid_lifetime'' then Some (store32 80 (ucast valueInt) m)
      else if nameStr = ''icmpv6.rpl.opt.prefix.length'' then Some (store8 56 (ucast valueInt) m)
      else if nameStr = ''icmpv6.rpl.opt.config.flag.a'' then Some (store_bool 77 (valueInt \<noteq> 0) m)
      else if nameStr = ''icmpv6.rpl.opt.config.flag.r'' then Some (store_bool 78 (valueInt \<noteq> 0) m)
      else if nameStr = ''icmpv6.rpl.opt.prefix'' then Some (inet_pton_at lib showStr 60 m)
      else None)"

definition parse_dio :: "libc \<Rightarrow> string \<Rightarrow> string \<Rightarrow> u64 \<Rightarrow> memory \<Rightarrow> memory" where
  "parse_dio lib nameStr showStr valueInt m =
     (let m = dio_base_field lib nameStr showStr valueInt m;
          m = option_group 35 (metric_field nameStr valueInt m) m;
          m = option_group 34 (route_field lib nameStr showStr valueInt m) m;
          m = option_group 32 (config_field nameStr valueInt m) m
      in option_group 33 (prefix_field lib nameStr showStr valueInt m) m)"

definition dao_base_field :: "libc \<Rightarrow> string \<Rightarrow> string \<Rightarrow> u64 \<Rightarrow> memory \<Rightarrow> memory" where
  "dao_base_field lib nameStr showStr valueInt m =
     (if nameStr = ''icmpv6.rpl.dao.instance'' then store8 0 (ucast valueInt) m
      else if nameStr = ''icmpv6.rpl.dao.flag.k'' then store_bool 1 (valueInt \<noteq> 0) m
      else if nameStr = ''icmpv6.rpl.dao.flag.d'' then store_bool 2 (valueInt \<noteq> 0) m
      else if nameStr = ''icmpv6.rpl.dao.dodagid'' then inet_pton_at lib showStr 4 m
      else if nameStr = ''icmpv6.rpl.dao.sequence'' then store8 20 (ucast valueInt) m
      else m)"

definition target_field :: "libc \<Rightarrow> string \<Rightarrow> string \<Rightarrow> u64 \<Rightarrow> memory \<Rightarrow> memory option" where
  "target_field lib nameStr showStr valueInt m =
     (if nameStr = ''icmpv6.rpl.opt.target.prefix_length'' then Some (store8 28 (ucast valueInt) m)
      else if nameStr = ''icmpv6.rpl.opt.target.prefix'' then Some (inet_pton_at lib showStr 32 m)
      else None)"

definition transit_field :: "libc \<Rightarrow> string \<Rightarrow> string \<Rightarrow> u64 \<Rightarrow> memory \<Rightarrow> memory option" where
  "transit_field lib nameStr showStr valueInt m =
     (if nameStr = ''icmpv6.rpl.opt.transit.flag.e'' then Some (store_bool 48 (valueInt \<noteq> 0) m)
      else if nameStr = ''icmpv6.rpl.opt.transit.pathctl'' then Some (store8 50 (ucast valueInt) m)
      else if nameStr = ''icmpv6.rpl.opt.transit.pathseq'' then Some (store8 51 (ucast valueInt) m)
      else if nameStr = ''icmpv6.rpl.opt.transit.pathlifetime'' then Some (store8 52 (ucast valueInt) m)
      else if nameStr = ''icmpv6.rpl.opt.transit.parent'' then
        Some (inet_pton_at lib showStr 56 (store_bool 49 True m))
      else None)"

definition parse_dao :: "libc \<Rightarrow> string \<Rightarrow> string \<Rightarrow> u64 \<Rightarrow> memory \<Rightarrow> memory" where
  "parse_dao lib nameStr showStr valueInt m =
     (let m = dao_base_field lib nameStr showStr valueInt m;
          m = option_group 24 (target_field lib nameStr showStr valueInt m) m
      in option_group 25 (transit_field lib nameStr showStr valueInt m) m)"

definition hop_by_hop_field :: "bool \<Rightarrow> string \<Rightarrow> u64 \<Rightarrow> memory \<Rightarrow> memory option" where
  "hop_by_hop_field sender_rank_inverted nameStr valueInt m =
     (if nameStr = ''ipv6.opt.rpl.flag.f'' then Some (store_bool 4 (valueInt \<noteq> 0) m)
      else if nameStr = ''ipv6.opt.rpl.flag.o'' then Some (store_bool 2 (valueInt = 0) m)
      else if nameStr = ''ipv6.opt.rpl.flag.r'' then Some (store_bool 3 (valueInt \<noteq> 0) m)
      else if nameStr = ''ipv6.opt.rpl.instance_id'' then Some (store8 5 (ucast valueInt) m)
      else if nameStr = ''ipv6.opt.rpl.sender_rank'' then
        Some (store16 6 (if sender_rank_inverted
                         then ucast (drop_bit 8 (valueInt AND 0xFF00) OR push_bit 8 (valueInt AND 0xFF))
                         else ucast valueInt) m)
      else None)"

definition parse_data :: "bool \<Rightarrow> string \<Rightarrow> u64 \<Rightarrow> memory \<Rightarrow> memory" where
  "parse_data sender_rank_inverted nameStr valueInt m =
     option_group 0 (hop_by_hop_field sender_rank_inverted nameStr valueInt m) m"

text \<open>
  The whole function. The test before its second half, that the type is not one or not the other
  of two values, always holds.
\<close>

definition rpl_parser_parse_field ::
    "libc \<Rightarrow> analyser_config \<Rightarrow> string \<Rightarrow> string \<Rightarrow> string option \<Rightarrow> u64 \<Rightarrow> rpl_packet_content \<Rightarrow> rpl_packet_content" where
  "rpl_parser_parse_field lib config nameStr showStr valueStr valueInt c =
     (if pc_is_bad c then c
      else
        let c = parse_header lib nameStr showStr valueStr valueInt c; type = pkt_type (pc_pkt_info c); m = pc_union c in
        if type \<noteq> PT_None \<or> type \<noteq> PT_RPL_Unknown then
          c\<lparr>pc_union :=
              (case type of
                 PT_DIS \<Rightarrow> parse_dis lib nameStr showStr valueInt m
               | PT_DIO \<Rightarrow> parse_dio lib nameStr showStr valueInt m
               | PT_DAO \<Rightarrow> parse_dao lib nameStr showStr valueInt m
               | _ \<Rightarrow> parse_data (cfg_sender_rank_inverted config) nameStr valueInt m)\<rparr>
        else c)"

subsection \<open>The end of a packet\<close>

definition rpl_parser_end_packet :: "rpl_packet_content \<Rightarrow> world \<Rightarrow> world option" where
  "rpl_parser_end_packet c w =
     (if pc_is_bad c then Some w
      else
        let info = pc_pkt_info c; type = pkt_type info; m = pc_union c in
        if type \<noteq> PT_None \<and> type \<noteq> PT_RPL_Unknown then
          do { let w = w\<lparr>w_head := rpl_event_packet (pc_packet_id c) info (w_head w)\<rparr>;
               w \<leftarrow> (case type of
                       PT_DIS \<Rightarrow> rpl_collector_parse_dis info (if load_bool 0 m then Some (union_dis_info m) else None) w
                     | PT_DIO \<Rightarrow>
                         rpl_collector_parse_dio info (union_dio m)
                           (if load_bool 32 m then Some (union_config m) else None)
                           (if load_bool 35 m then Some (union_metric m) else None)
                           (if load_bool 33 m then Some (union_prefix_info m) else None)
                           (if load_bool 34 m then Some (union_route m) else None) w
                     | PT_DAO \<Rightarrow>
                         rpl_collector_parse_dao info (union_dao m)
                           (if load_bool 24 m then Some (union_target m) else None)
                           (if load_bool 25 m then Some (union_transit m) else None) w
                     | PT_RPL_Unknown \<Rightarrow> Some w
                     | PT_None \<Rightarrow> Some w
                     | _ \<Rightarrow> rpl_collector_parse_data info (if load_bool 0 m then Some (union_hop_info m) else None) w);
               (_, w) \<leftarrow> rpl_event_commit_changed_objects (pc_packet_id c) (pkt_timestamp info) w;
               Some w }
        else Some w)"

text \<open>
  What the collector receives. \<open>packet_of\<close> is the packet that the union holds, of the kind that the
  type names; a packet that is bad or of no known kind is dropped, and nothing is committed.
\<close>

definition packet_of :: "packet_type \<Rightarrow> memory \<Rightarrow> rpl_packet" where
  "packet_of type m =
     (case type of
        PT_DIS \<Rightarrow> got_dis (if load_bool 0 m then Some (union_dis_info m) else None)
      | PT_DIO \<Rightarrow> got_dio (union_dio m) (if load_bool 32 m then Some (union_config m) else None)
          (if load_bool 35 m then Some (union_metric m) else None)
          (if load_bool 33 m then Some (union_prefix_info m) else None)
          (if load_bool 34 m then Some (union_route m) else None)
      | PT_DAO \<Rightarrow> got_dao (union_dao m) (if load_bool 24 m then Some (union_target m) else None)
          (if load_bool 25 m then Some (union_transit m) else None)
      | _ \<Rightarrow> got_data (if load_bool 0 m then Some (union_hop_info m) else None))"

definition is_valid :: "rpl_packet_content \<Rightarrow> bool" where
  "is_valid c \<longleftrightarrow> \<not> pc_is_bad c \<and> pkt_type (pc_pkt_info c) \<noteq> PT_None \<and> pkt_type (pc_pkt_info c) \<noteq> PT_RPL_Unknown"

lemma rpl_parser_end_packet_analyzes:
  "rpl_parser_end_packet c w =
     (if is_valid c then analyze_packet (pc_packet_id c) (pc_pkt_info c) (packet_of (pkt_type (pc_pkt_info c)) (pc_union c)) w
      else Some w)"
proof (cases "is_valid c")
  case True
  then show ?thesis
    by (cases "pkt_type (pc_pkt_info c)")
      (simp_all add: rpl_parser_end_packet_def is_valid_def analyze_packet_def packet_of_def Let_def)
qed (auto simp: rpl_parser_end_packet_def is_valid_def)

subsection \<open>A sample library\<close>

text \<open>
  For the witnesses: an address is shown as the 16 characters of its bytes, and every number is 5.
\<close>

abbreviation sample_libc :: libc where
  "sample_libc \<equiv> \<lparr>lc_strtod = (\<lambda>_. 5), lc_inet_pton = (\<lambda>s. Some (in6_of_bytes (map of_char s)))\<rparr>"

end
