(* ===== verification/ParserRegister.thy ===== *)
theory ParserRegister
  imports Parser Metric
begin

section \<open>The registered parsers\<close>

text \<open>
  Models \<open>src/src/packet_parsers/parser_register.c\<close> and the registration of the RPL parser in
  \<open>rpl_parser.c\<close>. A parser is a record of its function pointers, which act on a state; the registry is
  the list of parsers, to which a new one is prepended. The state of the RPL parser, \<open>parsing\<close>, is its
  static \<open>current_packet\<close> with the globals of the analyzer and the registered metric types.
  \<open>sprintf("%f")\<close> prints six digits after the point, rounded to the nearest and to even; the buffer
  it writes to has 10 bytes, and a longer text is a failure.
\<close>

record 's parser =
  parser_name :: string
  begin_packet :: "'s \<Rightarrow> 's option"
  parse_field :: "string \<Rightarrow> string \<Rightarrow> string option \<Rightarrow> u64 \<Rightarrow> 's \<Rightarrow> 's option"
  end_packet :: "'s \<Rightarrow> 's option"

definition parser_add :: "'s parser \<Rightarrow> 's parser list \<Rightarrow> 's parser list" where
  "parser_add parser parsers = parser # parsers"

definition parser_begin_packet :: "'s parser list \<Rightarrow> 's \<Rightarrow> 's option" where
  "parser_begin_packet parsers s = each begin_packet parsers s"

definition parser_parse_field :: "'s parser list \<Rightarrow> string \<Rightarrow> string \<Rightarrow> string option \<Rightarrow> u64 \<Rightarrow> 's \<Rightarrow> 's option" where
  "parser_parse_field parsers nameStr showStr valueStr valueInt s =
     each (\<lambda>p. parse_field p nameStr showStr valueStr valueInt) parsers s"

definition parser_end_packet :: "'s parser list \<Rightarrow> 's \<Rightarrow> 's option" where
  "parser_end_packet parsers s = each end_packet parsers s"

subsection \<open>The metric of the RPL parser\<close>

definition round_even :: "real \<Rightarrow> nat" where
  "round_even r =
     (let f = nat \<lfloor>r\<rfloor>; d = r - real f in
      if d < 1 / 2 then f else if 1 / 2 < d then Suc f else if even f then f else Suc f)"

definition pad6 :: "nat \<Rightarrow> string" where
  "pad6 n = map (\<lambda>k. digit_char (n div 10 ^ k mod 10)) [5, 4, 3, 2, 1, 0]"

definition sprintf_f :: "real \<Rightarrow> string" where
  "sprintf_f r = (let n = round_even (r * 1000000) in show_nat 10 (n div 1000000) @ ''.'' @ pad6 (n mod 1000000))"

definition rpl_parser_metric_etx_to_double :: "(real \<Rightarrow> real) \<Rightarrow> u64 \<Rightarrow> real" where
  "rpl_parser_metric_etx_to_double fl value = fl (fl (real (unat value)) / 128)"

definition rpl_parser_metric_etx_to_string :: "(real \<Rightarrow> real) \<Rightarrow> u64 \<Rightarrow> string option" where
  "rpl_parser_metric_etx_to_string fl value =
     (let str = sprintf_f (fl (fl (real (unat value)) / 128)) in if length str + 1 \<le> 10 then Some str else None)"

definition metric_etx :: "(real \<Rightarrow> real) \<Rightarrow> di_metric_type" where
  "metric_etx fl =
     \<lparr>mt_name = ''ETX'', mt_to_string = Some (rpl_parser_metric_etx_to_string fl),
      mt_to_display_value = Some (rpl_parser_metric_etx_to_double fl)\<rparr>"

subsection \<open>The RPL parser\<close>

record parsing =
  ps_current :: rpl_packet_content
  ps_world :: world
  ps_metrics :: metric_registry

definition rpl_parser :: "libc \<Rightarrow> parsing parser" where
  "rpl_parser lib =
     \<lparr>parser_name = ''rpl'',
      begin_packet = (\<lambda>s. Some (s\<lparr>ps_current := rpl_parser_begin_packet\<rparr>)),
      parse_field = (\<lambda>nameStr showStr valueStr valueInt s.
        Some (s\<lparr>ps_current := rpl_parser_parse_field lib (w_config (ps_world s)) nameStr showStr valueStr valueInt (ps_current s)\<rparr>)),
      end_packet = (\<lambda>s. map_option (\<lambda>w. s\<lparr>ps_world := w\<rparr>) (rpl_parser_end_packet (ps_current s) (ps_world s)))\<rparr>"

definition rpl_parser_register :: "libc \<Rightarrow> parsing \<Rightarrow> parsing parser \<times> parsing" where
  "rpl_parser_register lib s =
     (rpl_parser lib, s\<lparr>ps_metrics := metric_add_type (ps_metrics s) (metric_etx (w_fl (ps_world s)))\<rparr>)"

definition parser_register_all :: "libc \<Rightarrow> parsing \<Rightarrow> parsing parser list \<times> parsing" where
  "parser_register_all lib s = (let (parser, s) = rpl_parser_register lib s in (parser_add parser [], s))"

subsection \<open>Printing the metric\<close>

lemma length_show_nat: "length (show_nat 10 n) \<le> 2 \<longleftrightarrow> n < 100"
proof -
  have pos: "0 < length (show_nat 10 m)" for m by (subst show_nat.simps) simp
  moreover have "length (show_nat 10 n) = (if n < 10 then 1 else Suc (length (show_nat 10 (n div 10))))"
      "length (show_nat 10 (n div 10)) = (if n div 10 < 10 then 1 else Suc (length (show_nat 10 (n div 10 div 10))))"
    by (subst show_nat.simps; simp)+
  ultimately show ?thesis
    using pos [of "n div 10 div 10"] by (auto simp: div_less_iff_less_mult split: if_splits)
qed

lemma length_sprintf_f: "length (sprintf_f r) + 1 \<le> 10 \<longleftrightarrow> round_even (r * 1000000) < 100000000"
  using length_show_nat [of "round_even (r * 1000000) div 1000000"]
  by (simp add: sprintf_f_def Let_def pad6_def div_less_iff_less_mult)

lemma round_even_bounds:
  assumes "0 \<le> r"
  shows "nat \<lfloor>r\<rfloor> \<le> round_even r" "round_even r \<le> Suc (nat \<lfloor>r\<rfloor>)"
  using assms by (simp_all add: round_even_def Let_def)

text \<open>The text of a metric of 100 and more does not fit.\<close>

lemma etx_to_string_fits:
  "rpl_parser_metric_etx_to_string (\<lambda>x. x) value \<noteq> None \<longleftrightarrow> unat value < 12800"
proof -
  define u where "u = unat value"
  define r where "r = real (u) / 128 * 1000000"
  have r: "0 \<le> r" "r = real (u) * 15625 / 2" by (simp_all add: r_def)
  have "round_even r < 100000000 \<longleftrightarrow> u < 12800"
  proof (cases "u < 12800")
    case True
    then have "real (u) \<le> real 12799" by (simp only: of_nat_le_iff)
    then have "r \<le> 99992188" using r(2) by simp
    then have "\<lfloor>r\<rfloor> \<le> 99992188" by linarith
    then show ?thesis using round_even_bounds(2) [OF r(1)] True by linarith
  next
    case False
    then have "real 12800 \<le> real (u)" by (simp only: of_nat_le_iff)
    then have "100000000 \<le> r" using r(2) by simp
    then have "100000000 \<le> \<lfloor>r\<rfloor>" by linarith
    then show ?thesis using round_even_bounds(1) [OF r(1)] False by linarith
  qed
  then show ?thesis
    using length_sprintf_f [of "real u / 128"]
    by (simp add: rpl_parser_metric_etx_to_string_def Let_def r_def u_def del: of_nat_unat)
qed

subsection \<open>The property\<close>

text \<open>
  The text of an ETX metric fits in the ten bytes allocated for it exactly when the metric is below 100, that is, the value below
  12800; a value of a packet can be larger. The values are exact as doubles.
\<close>

theorem metric_text_fits: "rpl_parser_metric_etx_to_string (\<lambda>x. x) value \<noteq> None \<longleftrightarrow> unat value < 12800"
  by (rule etx_to_string_fits)

end
