(* ===== verification/RecentPackets.thy ===== *)
theory RecentPackets
  imports HashContainer
begin

section \<open>Windows of recent packets\<close>

text \<open>
  Two parts of the program recognise a packet that they have seen before by keeping the hashes of the
  last packets in a container of \<open>src/src/data_info/hash_container.c\<close>: \<open>check_duplicate_packet\<close> of
  \<open>src/src/sniffer_packet_parser.c\<close>, and \<open>interfacemgr_check_duplicate_packet\<close> of
  \<open>src/src/interface_reader/interfaces_mgr.c\<close>. The first lemmas say what the calls of both do to the
  container.
  The locale \<open>recent_window\<close> is their contract: a packet is a duplicate when its key is in the window;
  its key moves to the end, and the oldest key leaves a full window. It follows that the window
  holds the last \<open>cap\<close> distinct keys, in the order in which each was last seen.
\<close>

subsection \<open>The calls on the container\<close>

lemma hash_items_delete_at:
  assumes "hash_ok c" "e \<in> set (hc_els c)"
  shows "\<exists>it c'. hash_it_value c (it_at c (el_id e)) = Some (Some (el_data e))
    \<and> hash_it_delete_value c (it_at c (el_id e)) = Some (it, c')
    \<and> hash_ok c' \<and> hash_items c' = filter (\<lambda>(k, v). k \<noteq> el_key e) (hash_items c)"
  using hash_it_value_at [OF assms] hash_it_delete_at [OF assms] hash_unlink_ok [OF assms(1)] hash_unlink_items [OF assms]
  by blast

lemma hash_find_there:
  assumes "hash_ok c" "k \<in> set (map fst (hash_items c))"
  shows "\<exists>it v it' c'. hash_find c k = (True, it) \<and> hash_it_value c it = Some (Some v)
    \<and> hash_it_delete_value c it = Some (it', c') \<and> hash_ok c' \<and> hash_items c' = filter (\<lambda>(k', v). k' \<noteq> k) (hash_items c)"
proof -
  have "hash_find_el c k \<noteq> None"
    using assms by (auto simp: hash_find_el_None dom_hash_map [symmetric] image_iff domIff [symmetric])
  then obtain e where e: "hash_find_el c k = Some e" by blast
  then have "e \<in> set (hc_els c)" "el_key e = k" by (auto dest: hash_find_el_Some)
  then show ?thesis using hash_items_delete_at [OF assms(1), of e] e by (simp add: hash_find_def)
qed

lemma hash_find_not_there:
  assumes "hash_ok c" "k \<notin> set (map fst (hash_items c))"
  shows "hash_find c k = (False, hash_end c)"
proof -
  have "hash_find_el c k = None"
    using assms by (auto simp: hash_find_el_None dom_hash_map [symmetric] domIff)
  then show ?thesis by (simp add: hash_find_def)
qed

lemma hash_begin_delete:
  assumes "hash_ok c" "hash_items c \<noteq> []"
  shows "\<exists>v it c'. hash_it_value c (hash_begin c) = Some (Some v) \<and> hash_it_delete_value c (hash_begin c) = Some (it, c')
    \<and> hash_ok c' \<and> hash_items c' = tl (hash_items c)"
proof -
  obtain e es where els: "hc_els c = e # es" using assms(2) by (cases "hc_els c") (auto simp: hash_items_def)
  then have "e \<in> set (hc_els c)" by simp
  from hash_items_delete_at [OF assms(1) this]
  have "\<exists>v it c'. hash_it_value c (hash_begin c) = Some (Some v) \<and> hash_it_delete_value c (hash_begin c) = Some (it, c')
      \<and> hash_ok c' \<and> hash_items c' = filter (\<lambda>(k, v). k \<noteq> el_key e) (hash_items c)"
    by (auto simp: hash_begin_def els)
  moreover have "filter (\<lambda>(k, v). k \<noteq> el_key e) (hash_items c) = tl (hash_items c)"
    using hash_okD(1) [OF assms(1)] els by (auto simp: hash_items_def intro!: filter_True)
  ultimately show ?thesis by simp
qed

lemma hash_add_new:
  assumes "hash_ok c" "k \<notin> set (map fst (hash_items c))"
  shows "\<exists>it. hash_add c k (Some v) HAM_FailIfExists = (True, False, it, hash_append k v c)"
    "hash_ok (hash_append k v c)"
proof -
  have none: "hash_map c k = None" using assms(2) by (auto simp: dom_hash_map [symmetric] domIff)
  then show "\<exists>it. hash_add c k (Some v) HAM_FailIfExists = (True, False, it, hash_append k v c)"
    using hash_find_el_None [OF assms(1), of k] by (simp add: hash_add_def hash_add_ref_def Let_def)
  show "hash_ok (hash_append k v c)" by (rule hash_append_ok [OF assms(1) none])
qed

lemma hash_size_items: "hash_size c = length (hash_items c)"
  by (simp add: hash_size_def hash_items_def)

subsection \<open>The window\<close>

definition last_n :: "nat \<Rightarrow> 'a list \<Rightarrow> 'a list" where
  "last_n n xs = drop (length xs - n) xs"

text \<open>What a packet does to the keys of the window.\<close>

definition window_step :: "nat \<Rightarrow> 'k \<Rightarrow> 'k list \<Rightarrow> 'k list" where
  "window_step cap k ks =
     (if k \<in> set ks then filter (\<lambda>x. x \<noteq> k) ks else if cap \<le> length ks then tl ks else ks) @ [k]"

lemma last_n_append1: "0 < n \<Longrightarrow> last_n n (xs @ [x]) = last_n (n - 1) xs @ [x]"
  by (cases n) (auto simp: last_n_def Suc_diff_le)

lemma remdups_snoc: "remdups (xs @ [x]) = filter (\<lambda>y. y \<noteq> x) (remdups xs) @ [x]"
  by (induction xs) auto

lemma set_last_n: "set (last_n n xs) \<subseteq> set xs"
  by (auto simp: last_n_def dest: in_set_dropD)

lemma filter_absent: "x \<notin> set xs \<Longrightarrow> filter (\<lambda>y. y \<noteq> x) xs = xs"
  by (induction xs) auto

lemma length_filter_there: "distinct xs \<Longrightarrow> x \<in> set xs \<Longrightarrow> length (filter (\<lambda>y. y \<noteq> x) xs) = length xs - 1"
proof (induction xs)
  case (Cons a xs)
  then show ?case by (cases xs) (auto simp: filter_absent)
qed simp

lemma last_n_filter_in:
  assumes "distinct xs" "x \<in> set (last_n n xs)" "0 < n"
  shows "last_n (n - 1) (filter (\<lambda>y. y \<noteq> x) xs) = filter (\<lambda>y. y \<noteq> x) (last_n n xs)"
proof -
  define ys zs where "ys = take (length xs - n) xs" and "zs = last_n n xs"
  have xs: "xs = ys @ zs" by (simp add: ys_def zs_def last_n_def)
  have x: "x \<in> set zs" "distinct (ys @ zs)" using assms(1,2) by (simp add: zs_def, simp only: xs [symmetric])
  then have "x \<notin> set ys" by auto
  then have f: "filter (\<lambda>y. y \<noteq> x) xs = ys @ filter (\<lambda>y. y \<noteq> x) zs" by (simp add: xs filter_absent)
  have dz: "distinct zs" "x \<in> set zs" using x by simp_all
  then have "length (filter (\<lambda>y. y \<noteq> x) zs) = length zs - 1" by (rule length_filter_there)
  moreover have "length zs = min n (length xs)" by (simp add: zs_def last_n_def)
  moreover have "length zs < n \<Longrightarrow> ys = []" by (simp add: ys_def zs_def last_n_def)
  ultimately show ?thesis
    unfolding f zs_def [symmetric] using assms(3) dz(2) by (cases "length zs < n") (auto simp: last_n_def)
qed

lemma last_n_filter_out:
  assumes "distinct xs" "x \<notin> set (last_n n xs)" "0 < n"
  shows "last_n (n - 1) (filter (\<lambda>y. y \<noteq> x) xs) = (if n \<le> length (last_n n xs) then tl (last_n n xs) else last_n n xs)"
proof -
  define ys zs where "ys = take (length xs - n) xs" and "zs = last_n n xs"
  have xs: "xs = ys @ zs" by (simp add: ys_def zs_def last_n_def)
  have "x \<notin> set zs" using assms(2) by (simp add: zs_def)
  then have f: "filter (\<lambda>y. y \<noteq> x) xs = filter (\<lambda>y. y \<noteq> x) ys @ zs" by (simp add: xs filter_absent)
  have len: "length zs \<le> n" "length zs < n \<Longrightarrow> ys = []" by (simp_all add: ys_def zs_def last_n_def)
  then show ?thesis
    unfolding f zs_def [symmetric] using assms(3)
    by (cases "length zs < n") (auto simp: last_n_def drop_Suc le_less_Suc_eq Suc_diff_le numeral_eq_Suc)
qed

lemma window_step_last:
  assumes "0 < cap"
  shows "window_step cap k (last_n cap (remdups ks)) = last_n cap (remdups (ks @ [k]))"
  using assms last_n_filter_in [of "remdups ks" k cap] last_n_filter_out [of "remdups ks" k cap]
  by (auto simp: window_step_def remdups_snoc last_n_append1)

subsection \<open>The code that both parts have in common\<close>

definition LAST_PACKET_NUMBER :: nat where
  "LAST_PACKET_NUMBER = 100"

text \<open>
  The element of the hash leaves the container, or else the oldest one leaves a full container; the
  result tells which of the two. Then the packet goes in at the end.
\<close>

definition forget_packet :: "'k \<Rightarrow> ('k, 'v) hash_container \<Rightarrow> (bool \<times> ('k, 'v) hash_container) option" where
  "forget_packet hashed_data last_packets =
     do { let (found, it) = hash_find last_packets hashed_data;
          if found then
            do { old_pkt \<leftarrow> hash_it_value last_packets it; old_pkt;
                 (_, last_packets) \<leftarrow> hash_it_delete_value last_packets it;
                 Some (True, last_packets) }
          else if hash_size last_packets \<ge> LAST_PACKET_NUMBER then
            do { let it = hash_begin last_packets;
                 old_pkt \<leftarrow> hash_it_value last_packets it; old_pkt;
                 (_, last_packets) \<leftarrow> hash_it_delete_value last_packets it;
                 Some (False, last_packets) }
          else Some (False, last_packets) }"

definition remember_packet :: "'k \<Rightarrow> 'v \<Rightarrow> ('k, 'v) hash_container \<Rightarrow> ('k, 'v) hash_container" where
  "remember_packet hashed_data pkt_data last_packets =
     (let (_, _, _, last_packets) = hash_add last_packets hashed_data (Some pkt_data) HAM_FailIfExists in last_packets)"

abbreviation window_keys :: "('k, 'v) hash_container \<Rightarrow> 'k list" where
  "window_keys c \<equiv> map fst (hash_items c)"

lemma forget_packet_step:
  assumes "hash_ok c"
  shows "\<exists>c'. forget_packet k c = Some (k \<in> set (window_keys c), c') \<and> hash_ok c' \<and> k \<notin> set (window_keys c')
    \<and> window_keys c' @ [k] = window_step LAST_PACKET_NUMBER k (window_keys c)"
proof (cases "k \<in> set (window_keys c)")
  case True
  from hash_find_there [OF assms True] True show ?thesis
    by (fastforce simp: forget_packet_def filter_map comp_def case_prod_unfold window_step_def)
next
  case False
  note f = hash_find_not_there [OF assms False]
  show ?thesis
  proof (cases "hash_size c \<ge> LAST_PACKET_NUMBER")
    case True
    then have ne: "hash_items c \<noteq> []" by (auto simp: hash_size_items LAST_PACKET_NUMBER_def)
    then obtain e es where "hash_items c = e # es" by (cases "hash_items c") auto
    with hash_begin_delete [OF assms ne] True False f show ?thesis
      by (fastforce simp: forget_packet_def window_step_def hash_size_items)
  next
    case large: False
    then show ?thesis using assms f False by (simp add: forget_packet_def window_step_def hash_size_items)
  qed
qed

lemma remember_packet_step:
  assumes "hash_ok c" "k \<notin> set (window_keys c)"
  shows "hash_ok (remember_packet k v c)" "hash_items (remember_packet k v c) = hash_items c @ [(k, v)]"
  using hash_add_new [OF assms, of v] by (auto simp: remember_packet_def)

text \<open>The packets of a list are checked one after the other.\<close>

definition check_all :: "('x \<Rightarrow> 's \<Rightarrow> (bool \<times> 's) option) \<Rightarrow> 'x list \<Rightarrow> 's \<Rightarrow> 's option" where
  "check_all check xs s = each (\<lambda>x s. map_option snd (check x s)) xs s"

locale recent_window =
  fixes check :: "'x \<Rightarrow> 's \<Rightarrow> (bool \<times> 's) option" and key :: "'x \<Rightarrow> 'k" and keys :: "'s \<Rightarrow> 'k list"
    and ok :: "'s \<Rightarrow> bool" and cap :: nat
  assumes cap_pos: "0 < cap"
    and check_step: "ok s \<Longrightarrow> \<exists>s'. check x s = Some (key x \<in> set (keys s), s') \<and> ok s'
      \<and> keys s' = window_step cap (key x) (keys s)"
begin

lemma run_window:
  assumes "ok s" "keys s = last_n cap (remdups ks)"
  shows "\<exists>s'. check_all check xs s = Some s' \<and> ok s' \<and> keys s' = last_n cap (remdups (ks @ map key xs))"
  using assms
proof (induction xs arbitrary: s ks)
  case Nil
  then show ?case by (simp add: check_all_def)
next
  case (Cons x xs)
  obtain s' where s': "check x s = Some (key x \<in> set (keys s), s')" "ok s'" "keys s' = window_step cap (key x) (keys s)"
    using check_step [OF Cons.prems(1)] by blast
  then have "keys s' = last_n cap (remdups (ks @ [key x]))" using window_step_last [OF cap_pos] Cons.prems(2) by simp
  from Cons.IH [OF s'(2) this] s'(1) show ?case by (simp add: check_all_def)
qed

text \<open>A packet is a duplicate when fewer than \<open>cap\<close> other keys have been seen since the same key.\<close>

lemma duplicate_iff:
  assumes "ok s" "keys s = []"
  shows "\<exists>s' s''. check_all check xs s = Some s' \<and> check x s' = Some (key x \<in> set (last_n cap (remdups (map key xs))), s'')"
  using run_window [of s "[]" xs] check_step assms by (fastforce simp: last_n_def)

lemma window_size: "ok s \<Longrightarrow> keys s = [] \<Longrightarrow> check_all check xs s = Some s' \<Longrightarrow> length (keys s') \<le> cap \<and> distinct (keys s')"
  using run_window [of s "[]" xs] by (auto simp: last_n_def distinct_drop)

end

end
