(* ===== verification/Sha1Spec.thy ===== *)
theory Sha1Spec
  imports Sha1
begin

section \<open>The hash is SHA-1\<close>

text \<open>
  The proof that the code of \<open>src/src/sha1.c\<close>, as modelled in \<open>Sha1\<close>, computes the reference
  definition of that theory. \<open>absorbed ctx msg\<close> is what a context stands for: the whole blocks of \<open>msg\<close>
  have been compressed, at most 64 bytes wait in the buffer, and the length is counted.
\<close>

subsection \<open>Words\<close>

lemma rol_word_rotl: "0 < n \<Longrightarrow> n < 32 \<Longrightarrow> rol x n = word_rotl n x"
proof (rule bit_word_eqI)
  fix m assume n: "0 < n" "n < 32" and "m < LENGTH(32)"
  then have m: "m < 32" by simp
  define k where "k = 32 - n"
  then have k: "32 = n + k" using n by simp
  show "bit (rol x n) m = bit (word_rotl n x) m"
  proof (cases "n \<le> m")
    case True
    then have "(m + k) mod 32 = m - n" using m n by (simp add: k_def mod_if)
    moreover have "\<not> bit x (k + m)" using True k bit_imp_le_length [of x "k + m"] by auto
    ultimately show ?thesis using True m n by (auto simp: rol_def bit_simps k_def [symmetric])
  next
    case False
    then have "(m + k) mod 32 = k + m" using m n by (simp add: k_def)
    then show ?thesis using False m n by (simp add: rol_def bit_simps k_def [symmetric])
  qed
qed

lemma SWAP_bswap32: "SWAP w = bswap32 w"
proof (rule bit_word_eqI)
  fix n assume "n < LENGTH(32)"
  then have n: "n < 32" by simp
  have masks: "(0xff00 :: u32) = push_bit 8 (mask 8)" by (simp add: mask_eq_exp_minus_1 push_bit_eq_mult)
  consider "n < 8" | "8 \<le> n" "n < 16" | "16 \<le> n" "n < 24" | "24 \<le> n" using n by linarith
  then show "bit (SWAP w) n = bit (bswap32 w) n"
    by cases (use n in \<open>auto simp: SWAP_def bit_bswap32 masks bit_simps div_if mod_if dest: bit_imp_le_length\<close>)
qed

lemma bswap32_be_word: "length bs = 4 \<Longrightarrow> bswap32 (word_of_bytes bs) = be_word bs"
proof -
  assume "length bs = 4"
  then have "bytes_of 4 (word_of_bytes bs :: u32) = bs"
    by (intro nth_equalityI) (simp_all add: byte_of_word_of_bytes)
  then show ?thesis by (simp add: bswap32_def be_word_def)
qed

lemma be_bytes_SWAP: "bytes_of 4 (SWAP w) = be_bytes 4 w"
proof -
  have "byte_of (bswap32 w) i = rev (bytes_of 4 w) ! i" if "i < 4" for i
    using that byte_of_word_of_bytes [of i "rev (bytes_of 4 w)", where 'a = 32] by (simp add: bswap32_def)
  then show ?thesis
    by (intro nth_equalityI) (simp_all add: be_bytes_def SWAP_bswap32)
qed

subsection \<open>One block\<close>

lemma sha1_words_fips:
  assumes "t < 16" "64 \<le> length block"
  shows "sha1_words block ! t = fips_W block t"
proof -
  have "length (take 4 (drop (4 * t) block)) = 4" using assms by simp
  then show ?thesis
    using assms by (simp add: sha1_words_def SWAP_bswap32 bswap32_be_word fips_W.simps [of block t])
qed

text \<open>The 16 words of the code are the last 16 words of the schedule.\<close>

definition schedule_ok :: "u8 list \<Rightarrow> nat \<Rightarrow> u32 list \<Rightarrow> bool" where
  "schedule_ok block t x \<longleftrightarrow> length x = 16 \<and> (\<forall>i. t - 16 \<le> i \<longrightarrow> i < max 16 t \<longrightarrow> x ! (i mod 16) = fips_W block i)"

lemma schedule_ok_words: "64 \<le> length block \<Longrightarrow> schedule_ok block 0 (sha1_words block)"
  by (simp add: schedule_ok_def sha1_words_fips) (simp add: sha1_words_def)

lemma schedule_ok_M:
  assumes "schedule_ok block t x" "16 \<le> t"
  shows "schedule_ok block (Suc t) (M t x)" "M t x ! (t mod 16) = fips_W block t"
proof -
  have x: "x ! (i mod 16) = fips_W block i" if "t - 16 \<le> i" "i < t" for i
    using assms that by (simp add: schedule_ok_def)
  have e1: "x ! (t mod 16) = fips_W block (t - 16)"
    using x [of "t - 16"] assms(2) by (simp add: le_mod_geq)
  have e2: "x ! ((t - 14) mod 16) = fips_W block (t - 14)" "x ! ((t - 8) mod 16) = fips_W block (t - 8)"
      "x ! ((t - 3) mod 16) = fips_W block (t - 3)"
    by (rule x; use assms(2) in simp)+
  have w: "fips_W block t = rol (fips_W block (t - 16) XOR fips_W block (t - 14) XOR fips_W block (t - 8) XOR fips_W block (t - 3)) 1"
    using assms(2) by (subst fips_W.simps) (simp add: rol_word_rotl [of "Suc 0"] ac_simps)
  have tm: "rol (x ! (t mod 16) XOR x ! ((t - 14) mod 16) XOR x ! ((t - 8) mod 16) XOR x ! ((t - 3) mod 16)) 1 = fips_W block t"
    by (simp only: e1 e2 w)
  have len: "length x = 16" using assms(1) by (simp add: schedule_ok_def)
  show "M t x ! (t mod 16) = fips_W block t" using tm by (simp add: M_def len)
  have "M t x ! (i mod 16) = fips_W block i" if "Suc t - 16 \<le> i" "i < Suc t" for i
  proof (cases "i = t")
    case True
    then show ?thesis using tm by (simp add: M_def len)
  next
    case False
    then have "\<not> 16 dvd t - i" using that by (auto dest: dvd_imp_le)
    then have "i mod 16 \<noteq> t mod 16" using that mod_eq_dvd_iff_nat [of i t 16] by auto
    then show ?thesis using False that x [of i] by (simp add: M_def)
  qed
  then show "schedule_ok block (Suc t) (M t x)" using assms len by (simp add: schedule_ok_def M_def)
qed

lemma fips_f_code:
  "fips_f t b c d = (if t < 20 then F1 b c d else if t < 40 then F2 b c d else if t < 60 then F3 b c d else F4 b c d)"
  by (auto simp: fips_f_def F1_def F2_def F3_def F4_def bit_simps intro!: bit_word_eqI)

lemma sha1_line_fips:
  assumes "schedule_ok block t x" "64 \<le> length block"
  shows "\<exists>x'. sha1_line t (vars, x) = (fips_round block t vars, x') \<and> schedule_ok block (Suc t) x'"
proof -
  define x' where "x' = (if t < 16 then x else M t x)"
  have "schedule_ok block (Suc t) x'" "x' ! (t mod 16) = fips_W block t"
    using assms schedule_ok_M [OF assms(1)] by (auto simp: x'_def schedule_ok_def)
  moreover have "sha1_line t (vars, x) =
      (if t < 20 then R vars F1 0x5a827999 (x' ! (t mod 16))
       else if t < 40 then R vars F2 0x6ed9eba1 (x' ! (t mod 16))
       else if t < 60 then R vars F3 0x8f1bbcdc (x' ! (t mod 16))
       else R vars F4 0xca62c1d6 (x' ! (t mod 16)), x')"
    by (simp only: sha1_line_def prod.case Let_def x'_def)
  moreover have "fips_round block t vars =
      (if t < 20 then R vars F1 0x5a827999 (fips_W block t)
       else if t < 40 then R vars F2 0x6ed9eba1 (fips_W block t)
       else if t < 60 then R vars F3 0x8f1bbcdc (fips_W block t)
       else R vars F4 0xca62c1d6 (fips_W block t))"
    by (cases vars) (simp add: fips_round_def R_def fips_f_code fips_K_def rol_word_rotl Let_def)
  ultimately show ?thesis by (intro exI [of _ x']) simp
qed

lemma sha1_lines_fips:
  assumes "schedule_ok block t x" "64 \<le> length block"
  shows "\<exists>x'. fold sha1_line [t..<t + n] (vars, x) = (fold (fips_round block) [t..<t + n] vars, x')
    \<and> schedule_ok block (t + n) x'"
proof (induction n)
  case 0
  then show ?case using assms by simp
next
  case (Suc n)
  then obtain x' where x': "fold sha1_line [t..<t + n] (vars, x) = (fold (fips_round block) [t..<t + n] vars, x')"
      "schedule_ok block (t + n) x'"
    by blast
  from sha1_line_fips [OF x'(2) assms(2)] x'(1) show ?case by simp
qed

lemma process_words_block:
  assumes "length block = 64"
  shows "process_words (block @ rest) vars = process_words rest (fips_compress block vars)"
proof -
  obtain A B C D E where vars: "vars = (A, B, C, D, E)" by (cases vars) auto
  obtain x where "fold sha1_line [0..<80] (vars, sha1_words block) = (fold (fips_round block) [0..<80] vars, x)"
    using sha1_lines_fips [OF schedule_ok_words, of block 80 vars] assms by auto
  then show ?thesis
    using assms vars
    by (subst process_words.simps)
      (auto simp: fips_compress_def Let_def ac_simps split: prod.splits simp del: upt_rec_numeral)
qed

lemma process_words_fips: "length block mod 64 = 0 \<Longrightarrow> process_words block vars = fips_blocks block vars"
proof (induction block vars rule: fips_blocks.induct)
  case (1 bs h)
  show ?case
  proof (cases "bs = []")
    case True
    then show ?thesis by (simp add: process_words.simps fips_blocks.simps)
  next
    case False
    then have len: "64 \<le> length bs" using 1(2) by (cases "length bs < 64") auto
    then have "process_words (take 64 bs @ drop 64 bs) h = process_words (drop 64 bs) (fips_compress (take 64 bs) h)"
      by (intro process_words_block) simp
    then show ?thesis
      using 1 False len by (simp add: fips_blocks.simps [of bs] le_mod_geq)
  qed
qed

subsection \<open>What a context stands for\<close>

abbreviation fips_H0 :: sha1_vars where
  "fips_H0 \<equiv> (0x67452301, 0xefcdab89, 0x98badcfe, 0x10325476, 0xc3d2e1f0)"

definition compressed :: "sha1_ctx \<Rightarrow> u8 list \<Rightarrow> bool" where
  "compressed ctx p \<longleftrightarrow> length p mod 64 = 0 \<and> sha_vars ctx = fips_blocks p fips_H0
     \<and> sha_total0 ctx = word_of_nat (length p) \<and> sha_total1 ctx = 0"

definition absorbed :: "sha1_ctx \<Rightarrow> u8 list \<Rightarrow> bool" where
  "absorbed ctx msg \<longleftrightarrow> (\<exists>p r. msg = p @ r \<and> compressed ctx p \<and> length r = sha_buflen ctx \<and> length r \<le> 64
     \<and> load 0 (length r) (sha_buffer ctx) = r)"

lemma fips_blocks_append: "length p mod 64 = 0 \<Longrightarrow> fips_blocks (p @ q) h = fips_blocks q (fips_blocks p h)"
proof (induction p h rule: fips_blocks.induct)
  case (1 bs h)
  show ?case
  proof (cases "bs = []")
    case True
    then show ?thesis by (simp add: fips_blocks.simps [of "[]"])
  next
    case False
    then have "64 \<le> length bs" using 1(2) by (cases "length bs < 64") auto
    then show ?thesis
      using 1 False by (simp add: fips_blocks.simps [of bs] fips_blocks.simps [of "bs @ q"] le_mod_geq)
  qed
qed

lemma compressed_block:
  assumes "compressed ctx p" "length b mod 64 = 0" "length p + length b < 2 ^ 32"
  shows "compressed (sha1_process_block b ctx) (p @ b)"
    "sha_buffer (sha1_process_block b ctx) = sha_buffer ctx" "sha_buflen (sha1_process_block b ctx) = sha_buflen ctx"
proof -
  obtain A B C D E where v: "process_words b (sha_vars ctx) = (A, B, C, D, E)" by (cases "process_words b (sha_vars ctx)") auto
  have t: "unat (sha_total0 ctx + word_of_nat (length b)) = length p + length b"
    using assms(1,3) by (simp add: compressed_def unsigned_of_nat take_bit_eq_mod flip: of_nat_add)
  have s: "sha1_process_block b ctx = ctx\<lparr>sha_total0 := sha_total0 ctx + word_of_nat (length b), sha_A := A, sha_B := B,
      sha_C := C, sha_D := D, sha_E := E\<rparr>"
    by (simp add: sha1_process_block_def Let_def v t)
  have "(A, B, C, D, E) = fips_blocks (p @ b) fips_H0"
    using assms(1,2) by (simp add: compressed_def fips_blocks_append process_words_fips flip: v)
  then show "compressed (sha1_process_block b ctx) (p @ b)"
    using assms(1,2) unfolding s by (auto simp: compressed_def sha_vars_def)
  show "sha_buffer (sha1_process_block b ctx) = sha_buffer ctx" "sha_buflen (sha1_process_block b ctx) = sha_buflen ctx"
    unfolding s by simp_all
qed

lemma compressed_buffer [simp]:
  "compressed (ctx\<lparr>sha_buffer := m\<rparr>) p \<longleftrightarrow> compressed ctx p" "compressed (ctx\<lparr>sha_buflen := n\<rparr>) p \<longleftrightarrow> compressed ctx p"
  by (simp_all add: compressed_def sha_vars_def)

lemma absorbed_init: "absorbed (sha1_init_ctx m) []"
  by (simp add: absorbed_def compressed_def sha1_init_ctx_def sha_vars_def fips_blocks.simps [of "[]"] load_def)

lemma load_split: "load off (a + b) m = load off a m @ load (off + a) b m"
proof -
  have "[off..<off + (a + b)] = [off..<off + a] @ [off + a..<off + (a + b)]"
    using upt_add_eq_append [of off "off + a" b] by (simp add: add.assoc)
  then show ?thesis by (simp add: load_def add.assoc)
qed

lemma load_prefix: "length bs = n \<Longrightarrow> load 0 n m = bs \<Longrightarrow> load 0 (n + k) (store n cs m) = bs @ load n k (store n cs m)"
  by (simp add: load_split load_store_apart)

lemma length_load [simp]: "length (load off n m) = n"
  by (simp add: load_def)

text \<open>The three parts of \<open>sha1_process_bytes\<close>.\<close>

lemma process_unaligned_ok:
  assumes "compressed ctx p" "length p + length data < 2 ^ 32"
  shows "\<exists>d rest ctx'. process_unaligned data ctx = (rest, ctx') \<and> data = d @ rest \<and> length rest \<le> 64
    \<and> compressed ctx' (p @ d) \<and> sha_buflen ctx' = sha_buflen ctx"
  using assms
proof (induction data ctx arbitrary: p rule: process_unaligned.induct)
  case (1 data ctx)
  show ?case
  proof (cases "64 < length data")
    case False
    then show ?thesis using 1(2) by (simp add: process_unaligned.simps [of data])
  next
    case True
    let ?b = "take 64 data"
    let ?ctx = "sha1_process_block ?b (ctx\<lparr>sha_buffer := store 0 ?b (sha_buffer ctx)\<rparr>)"
    have c: "compressed ?ctx (p @ ?b)" "sha_buflen ?ctx = sha_buflen ctx"
      using compressed_block [of "ctx\<lparr>sha_buffer := store 0 ?b (sha_buffer ctx)\<rparr>" p ?b] 1(2,3) True by simp_all
    have "length (p @ ?b) + length (drop 64 data) < 2 ^ 32" using 1(3) True by simp
    from 1(1) [OF True c(1) this] obtain d rest ctx' where
        "process_unaligned (drop 64 data) ?ctx = (rest, ctx')" "drop 64 data = d @ rest" "length rest \<le> 64"
        "compressed ctx' ((p @ ?b) @ d)" "sha_buflen ctx' = sha_buflen ?ctx"
      by blast
    moreover have "data = (?b @ d) @ rest" using append_take_drop_id [of 64 data] \<open>drop 64 data = d @ rest\<close> by simp
    moreover have "process_unaligned data ctx = process_unaligned (drop 64 data) ?ctx"
      using True by (simp only: process_unaligned.simps [of data] if_True)
    ultimately show ?thesis
      using c(2) by (intro exI [of _ "?b @ d"] exI [of _ rest] exI [of _ ctx']) (simp only: append_assoc simp_thms)
  qed
qed

lemma process_blocks_ok:
  assumes "compressed ctx p" "length p + length data < 2 ^ 32"
  shows "\<exists>d rest ctx'. process_blocks unaligned data ctx = (rest, ctx') \<and> data = d @ rest \<and> length rest \<le> 64
    \<and> compressed ctx' (p @ d) \<and> sha_buflen ctx' = sha_buflen ctx \<and> (length data < 64 \<longrightarrow> d = [] \<and> ctx' = ctx)"
proof -
  consider "length data < 64" | "64 \<le> length data" "unaligned" | "64 \<le> length data" "\<not> unaligned" by linarith
  then show ?thesis
  proof cases
    case 1
    then show ?thesis using assms(1) by (auto simp: process_blocks_def)
  next
    case 2
    then show ?thesis using process_unaligned_ok [OF assms] by (auto simp: process_blocks_def)
  next
    case 3
    let ?n = "64 * (length data div 64)"
    have n: "?n \<le> length data" "length data - ?n \<le> 64" by (simp_all add: minus_mult_div_eq_mod less_imp_le)
    have l: "length (take ?n data) = ?n" using n by simp
    have "compressed (sha1_process_block (take ?n data) ctx) (p @ take ?n data)"
        "sha_buflen (sha1_process_block (take ?n data) ctx) = sha_buflen ctx"
      using compressed_block [OF assms(1), of "take ?n data", unfolded l] assms(2) n by simp_all
    then show ?thesis
      using 3 n
      by (intro exI [of _ "take ?n data"] exI [of _ "drop ?n data"] exI [of _ "sha1_process_block (take ?n data) ctx"])
        (simp add: process_blocks_def Let_def)
  qed
qed

lemma process_buffered_ok:
  assumes "absorbed ctx msg" "length msg + length data < 2 ^ 32"
  shows "\<exists>d rest ctx'. process_buffered data ctx = (rest, ctx') \<and> data = d @ rest \<and> absorbed ctx' (msg @ d)
    \<and> (rest = [] \<or> sha_buflen ctx' = 0)"
proof (cases "sha_buflen ctx = 0")
  case True
  then show ?thesis using assms(1) by (auto simp: process_buffered_def)
next
  case False
  obtain p r where r: "msg = p @ r" "compressed ctx p" "length r = sha_buflen ctx" "length r \<le> 64"
      "load 0 (length r) (sha_buffer ctx) = r"
    using assms(1) by (auto simp: absorbed_def)
  define add where "add = (if 128 - length r > length data then length data else 128 - length r)"
  define d where "d = take add data"
  define m where "m = store (length r) d (sha_buffer ctx)"
  have add: "add \<le> length data" "length d = add" "length r + add \<le> 128" "add < length data \<Longrightarrow> length r + add = 128"
    using r(4) by (auto simp: add_def d_def)
  have m: "load 0 (length r + add) m = r @ d"
    using load_prefix [OF refl r(5), of add d] add(2) load_store [of "length r" d] by (simp add: m_def)
  let ?c = "ctx\<lparr>sha_buffer := m, sha_buflen := length r + add\<rparr>"
  have data: "data = d @ drop add data" by (simp add: d_def)
  have small: "length p + (length r + add) < 2 ^ 32" using assms(2) r(1) add(1) by simp
  show ?thesis
  proof (cases "length r + add > 64")
    case False
    then have "process_buffered data ctx = (drop add data, ?c)"
      using \<open>sha_buflen ctx \<noteq> 0\<close> by (simp add: process_buffered_def Let_def add_def [symmetric] m_def d_def flip: r(3))
    moreover have "absorbed ?c (msg @ d)"
      unfolding absorbed_def using r(1,2) add m False by (intro exI [of _ p] exI [of _ "r @ d"]) simp
    moreover have "drop add data = []" using add False by (cases "add < length data") auto
    ultimately show ?thesis
      using data by (intro exI [of _ d] exI [of _ "drop add data"] exI [of _ ?c]) (simp del: drop_eq_Nil)
  next
    case True
    let ?k = "64 * ((length r + add) div 64)"
    let ?ctx = "sha1_process_block (load 0 ?k m) ?c"
    let ?n = "(length r + add) mod 64"
    have k: "?k + ?n = length r + add" by simp
    have split: "load 0 ?k m @ load ?k ?n m = r @ d"
      using m load_split [of 0 ?k ?n m] unfolding k by simp
    have c: "compressed ?ctx (p @ load 0 ?k m)" "sha_buffer ?ctx = m" "sha_buflen ?ctx = length r + add"
      using compressed_block [of ?c p "load 0 ?k m"] r(2) small by simp_all
    have "process_buffered data ctx = (drop add data, ?ctx\<lparr>sha_buflen := ?n, sha_buffer := store 0 (load ?k ?n m) m\<rparr>)"
      using \<open>sha_buflen ctx \<noteq> 0\<close> True c(2,3)
      by (simp add: process_buffered_def Let_def add_def [symmetric] flip: r(3)) (simp add: m_def d_def)
    moreover have "absorbed (?ctx\<lparr>sha_buflen := ?n, sha_buffer := store 0 (load ?k ?n m) m\<rparr>) (msg @ d)"
      unfolding absorbed_def
      by (intro exI [of _ "p @ load 0 ?k m"] exI [of _ "load ?k ?n m"])
        (use c(1) split r(1) load_store [of 0 "load ?k ?n m"] in \<open>simp add: less_imp_le\<close>)
    moreover have "drop add data = [] \<or> ?n = 0" using add(4) by (cases "add < length data") auto
    ultimately show ?thesis
      using data
      by (intro exI [of _ d] exI [of _ "drop add data"]
          exI [of _ "?ctx\<lparr>sha_buflen := ?n, sha_buffer := store 0 (load ?k ?n m) m\<rparr>"]) simp
  qed
qed

lemma process_rest_ok:
  assumes "absorbed ctx msg" "rest = [] \<or> sha_buflen ctx = 0" "length rest \<le> 64" "length msg + length rest < 2 ^ 32"
  shows "absorbed (process_rest rest ctx) (msg @ rest)"
proof (cases "rest = []")
  case True
  then show ?thesis using assms(1) by (simp add: process_rest_def)
next
  case False
  then have p: "compressed ctx msg" "sha_buflen ctx = 0" using assms(1,2) by (auto simp: absorbed_def)
  let ?m = "store 0 rest (sha_buffer ctx)"
  have m: "load 0 (length rest) ?m = rest" by (rule load_store)
  show ?thesis
  proof (cases "length rest = 64")
    case True
    let ?ctx = "sha1_process_block (load 0 64 ?m) (ctx\<lparr>sha_buffer := ?m\<rparr>)"
    have "load 0 64 ?m = rest" using m True by simp
    then have c: "compressed ?ctx (msg @ rest)" "sha_buffer ?ctx = ?m"
      using compressed_block [of "ctx\<lparr>sha_buffer := ?m\<rparr>" msg rest] p(1) True assms(4) by simp_all
    have "process_rest rest ctx = ?ctx\<lparr>sha_buffer := store 0 (load 64 0 ?m) ?m, sha_buflen := 0\<rparr>"
      using False True p(2) c(2) by (simp add: process_rest_def Let_def)
    then show ?thesis
      unfolding absorbed_def using c(1) by (intro exI [of _ "msg @ rest"] exI [of _ "[]"]) (simp add: load_def)
  next
    case False
    then have "process_rest rest ctx = ctx\<lparr>sha_buffer := ?m, sha_buflen := length rest\<rparr>"
      using \<open>rest \<noteq> []\<close> p(2) assms(3) by (simp add: process_rest_def Let_def)
    then show ?thesis unfolding absorbed_def using p(1) m assms(3) by (intro exI [of _ msg] exI [of _ rest]) simp
  qed
qed

lemma absorbed_bytes:
  assumes "absorbed ctx msg" "length msg + length data < 2 ^ 32"
  shows "absorbed (sha1_process_bytes unaligned data ctx) (msg @ data)"
proof -
  obtain d rest ctx' where b: "process_buffered data ctx = (rest, ctx')" "data = d @ rest" "absorbed ctx' (msg @ d)"
      "rest = [] \<or> sha_buflen ctx' = 0"
    using process_buffered_ok [OF assms] by blast
  show ?thesis
  proof (cases "rest = []")
    case True
    then show ?thesis using b by (simp add: sha1_process_bytes_def process_blocks_def process_rest_def)
  next
    case False
    then have c: "compressed ctx' (msg @ d)" "sha_buflen ctx' = 0" using b(3,4) by (auto simp: absorbed_def)
    have "length (msg @ d) + length rest < 2 ^ 32" using assms(2) b(2) by simp
    from process_blocks_ok [OF c(1) this, of unaligned] obtain e rest' ctx'' where
        e: "process_blocks unaligned rest ctx' = (rest', ctx'')" "rest = e @ rest'" "length rest' \<le> 64"
          "compressed ctx'' ((msg @ d) @ e)" "sha_buflen ctx'' = 0"
      using c(2) by metis
    have "absorbed ctx'' (msg @ d @ e)"
      unfolding absorbed_def using e(4,5) by (intro exI [of _ "msg @ d @ e"] exI [of _ "[]"]) (simp add: load_def)
    then have "absorbed (process_rest rest' ctx'') ((msg @ d @ e) @ rest')"
      by (rule process_rest_ok) (use e assms(2) b(2) in simp_all)
    then show ?thesis using b(1,2) e(1,2) by (simp add: sha1_process_bytes_def)
  qed
qed

subsection \<open>The end\<close>

lemma bytes_of_8:
  "bytes_of 8 (w :: u64) = bytes_of 4 (ucast w :: u32) @ bytes_of 4 (ucast (drop_bit 32 w) :: u32)"
proof (rule nth_equalityI)
  fix i assume "i < length (bytes_of 8 w)"
  then have i: "i < 8" by simp
  show "bytes_of 8 w ! i = (bytes_of 4 (ucast w :: u32) @ bytes_of 4 (ucast (drop_bit 32 w) :: u32)) ! i"
  proof (rule bit_word_eqI)
    fix t assume "t < LENGTH(8)"
    then show "bit (bytes_of 8 w ! i) t = bit ((bytes_of 4 (ucast w :: u32) @ bytes_of 4 (ucast (drop_bit 32 w) :: u32)) ! i) t"
    proof (cases "i < 4")
      case False
      then obtain j where "i = 4 + j" using le_Suc_ex [of 4 i] by auto
      then show ?thesis using i by (auto simp: nth_append bit_byte_of bit_simps ac_simps)
    qed (auto simp: nth_append bit_byte_of bit_simps)
  qed
qed simp

lemma length_field:
  assumes "n < 2 ^ 32"
  shows "be_bytes 4 (drop_bit 29 (word_of_nat n :: u32)) @ be_bytes 4 (push_bit 3 (word_of_nat n :: u32))
    = be_bytes 8 (word_of_nat (8 * n) :: u64)"
proof -
  have n: "n < 4294967296" using assms by simp
  have "(ucast (word_of_nat (8 * n) :: u64) :: u32) = push_bit 3 (word_of_nat n)"
    by (rule unsigned_word_eqI [where 'a = nat])
      (use n in \<open>simp add: unsigned_ucast_eq unsigned_push_bit_eq unsigned_of_nat del: of_nat_mult\<close>,
        simp add: take_bit_eq_mod push_bit_eq_mult mod_mod_cancel mult.commute)
  moreover have "(ucast (drop_bit 32 (word_of_nat (8 * n) :: u64)) :: u32) = drop_bit 29 (word_of_nat n)"
    by (rule unsigned_word_eqI [where 'a = nat])
      (use n in \<open>simp add: unsigned_ucast_eq unsigned_drop_bit_eq unsigned_of_nat del: of_nat_mult\<close>,
        simp add: take_bit_eq_mod drop_bit_eq_div)
  ultimately show ?thesis by (simp add: be_bytes_def bytes_of_8)
qed

lemma finish_buffer:
  assumes "length r = b" "load 0 b m = r" "length f = 4 * k - b" "b \<le> 4 * k"
  shows "load 0 (4 * k + 8) (store b f (store32 (4 * k + 4) lo (store32 (4 * k) hi m))) = r @ f @ bytes_of 4 hi @ bytes_of 4 lo"
proof -
  let ?m1 = "store32 (4 * k) hi m"
  let ?m2 = "store32 (4 * k + 4) lo ?m1"
  let ?m3 = "store b f ?m2"
  have "load 0 b ?m3 = r" using assms by (simp add: load_store_apart)
  moreover have "load b (4 * k - b) ?m3 = f" using load_store [of b f] assms(3) by simp
  moreover have "load (4 * k) 4 ?m3 = bytes_of 4 hi"
    using assms load_store [of "4 * k" "bytes_of 4 hi" m] by (simp add: load_store_apart)
  moreover have "load (4 * k + 4) 4 ?m3 = bytes_of 4 lo"
    using assms load_store [of "4 * k + 4" "bytes_of 4 lo" ?m1] by (simp add: load_store_apart)
  moreover have "load 0 (4 * k + 8) ?m3 = load 0 b ?m3 @ load b (4 * k - b) ?m3 @ load (4 * k) 4 ?m3 @ load (4 * k + 4) 4 ?m3"
    using assms(4) load_split [of 0 b "4 * k - b" ?m3] load_split [of 0 "4 * k" 4 ?m3] load_split [of 0 "4 * k + 4" 4 ?m3]
    by (simp add: ac_simps)
  ultimately show ?thesis by simp
qed

lemma sha1_read_ctx_vars:
  "sha1_read_ctx ctx = (case sha_vars ctx of (a, b, c, d, e) \<Rightarrow> be_bytes 4 a @ be_bytes 4 b @ be_bytes 4 c @ be_bytes 4 d @ be_bytes 4 e)"
  by (simp add: sha1_read_ctx_def sha_vars_def be_bytes_SWAP)

lemma absorbed_finish:
  assumes "absorbed ctx msg" "length msg < 2 ^ 32"
  shows "sha1_finish_ctx ctx = fips_sha1 msg"
proof -
  obtain p r where r: "msg = p @ r" "compressed ctx p" "length r = sha_buflen ctx" "length r \<le> 64"
      "load 0 (length r) (sha_buffer ctx) = r"
    using assms(1) by (auto simp: absorbed_def)
  define b where "b = sha_buflen ctx"
  define k where "k = (if b < 56 then 14 else 30 :: nat)"
  define f where "f = take (4 * k - b) fillbuf"
  define t where "t = (word_of_nat (length msg) :: u32)"
  define m where "m = store b f (store32 (4 * k + 4) (SWAP (push_bit 3 t)) (store32 (4 * k) (SWAP (drop_bit 29 t)) (sha_buffer ctx)))"
  have b: "b \<le> 64" "length r = b" using r by (simp_all add: b_def)
  have len: "length msg = length p + b" using r(1) b by simp
  have msg_mod: "length msg mod 64 = b mod 64" using r(2) by (simp add: len compressed_def mod_add_left_eq [symmetric, of "length p"])
  have f: "length f = 4 * k - b" "f = 0x80 # replicate ((119 - length msg mod 64) mod 64) 0"
  proof -
    consider "b < 56" | "56 \<le> b" "b < 64" | "b = 64" using b by linarith
    then have "(119 - b mod 64) mod 64 = 4 * k - b - 1 \<and> 4 * k - b \<le> 64 \<and> 0 < 4 * k - b"
    proof cases
      case 1
      then have "119 - b = (55 - b) + 64" by simp
      then have "(119 - b) mod 64 = 55 - b" by (simp only: mod_add_self2) simp
      then show ?thesis using 1 by (simp add: k_def)
    qed (simp_all add: k_def)
    then show "length f = 4 * k - b" "f = 0x80 # replicate ((119 - length msg mod 64) mod 64) 0"
      unfolding msg_mod by (auto simp: f_def fillbuf_def take_Cons' min_def)
  qed
  have k: "b \<le> 4 * k" "4 * k + 8 = (if b < 56 then 64 else 128)" using b by (simp_all add: k_def)
  have "load 0 b (sha_buffer ctx) = r" using r(5) b(2) by simp
  from finish_buffer [OF b(2) this f(1) k(1), of "SWAP (push_bit 3 t)" "SWAP (drop_bit 29 t)", folded m_def]
  have buf: "load 0 (4 * k + 8) m = r @ f @ be_bytes 8 (word_of_nat (8 * length msg) :: u64)"
    unfolding be_bytes_SWAP t_def length_field [OF assms(2)] .
  then have pad: "p @ load 0 (4 * k + 8) m = fips_pad msg" by (simp add: fips_pad_def r(1) f(2))
  have total: "sha_total0 ctx + word_of_nat b = t" "sha_total1 ctx = 0"
    using r(2) by (simp_all add: compressed_def t_def len)
  have small: "unat t = length msg" using assms(2) by (simp add: t_def unsigned_of_nat take_bit_eq_mod)
  let ?ctx = "ctx\<lparr>sha_total0 := t, sha_total1 := 0, sha_buffer := m\<rparr>"
  have "sha1_finish_ctx ctx = sha1_read_ctx (sha1_process_block (load 0 (4 * k + 8) m) ?ctx)"
    using total small len
    by (simp add: sha1_finish_ctx_def Let_def b_def [symmetric] k(2) m_def f_def) (simp add: k_def)
  moreover have "sha_vars (sha1_process_block (load 0 (4 * k + 8) m) ?ctx) = fips_blocks (fips_pad msg) fips_H0"
  proof -
    have "process_words (load 0 (4 * k + 8) m) (fips_blocks p fips_H0) = fips_blocks (fips_pad msg) fips_H0"
      using r(2) k(2) by (simp add: process_words_fips fips_blocks_append compressed_def flip: pad)
    then show ?thesis
      using r(2) by (simp add: sha1_process_block_def compressed_def Let_def sha_vars_def split: prod.splits)
  qed
  ultimately show ?thesis by (simp add: fips_sha1_def sha1_read_ctx_vars)
qed

lemma sha1_buffer_fips:
  assumes "length msg < 2 ^ 32"
  shows "sha1_buffer unaligned msg = fips_sha1 msg"
  using absorbed_finish [OF absorbed_bytes [OF absorbed_init, of msg], of unaligned] assms
  by (simp add: sha1_buffer_def)

lemma stream_blocks_ok:
  assumes "compressed ctx p" "length p + length contents < 2 ^ 32"
  shows "\<exists>d rest ctx'. stream_blocks contents ctx = (rest, ctx') \<and> contents = d @ rest \<and> compressed ctx' (p @ d)
    \<and> sha_buflen ctx' = sha_buflen ctx"
  using assms
proof (induction contents ctx arbitrary: p rule: stream_blocks.induct)
  case (1 contents ctx)
  show ?case
  proof (cases "length contents \<ge> 32768")
    case False
    then show ?thesis using 1(2) by (simp add: stream_blocks.simps [of contents])
  next
    case True
    let ?b = "take 32768 contents"
    let ?ctx = "sha1_process_block ?b ctx"
    have c: "compressed ?ctx (p @ ?b)" "sha_buflen ?ctx = sha_buflen ctx"
      using compressed_block [OF 1(2), of ?b] 1(3) True by simp_all
    have "length (p @ ?b) + length (drop 32768 contents) < 2 ^ 32" using 1(3) True by simp
    from 1(1) [OF True c(1) this] obtain d rest ctx' where
        d: "stream_blocks (drop 32768 contents) ?ctx = (rest, ctx')" "drop 32768 contents = d @ rest"
          "compressed ctx' ((p @ ?b) @ d)" "sha_buflen ctx' = sha_buflen ?ctx"
      by blast
    moreover have "contents = (?b @ d) @ rest" using append_take_drop_id [of 32768 contents] d(2) by simp
    moreover have "stream_blocks contents ctx = stream_blocks (drop 32768 contents) ?ctx"
      using True by (simp only: stream_blocks.simps [of contents] if_True)
    ultimately show ?thesis
      using c(2) by (intro exI [of _ "?b @ d"] exI [of _ rest] exI [of _ ctx']) (simp only: append_assoc simp_thms)
  qed
qed

lemma sha1_stream_fips:
  assumes "length contents < 2 ^ 32"
  shows "sha1_stream unaligned contents = fips_sha1 contents"
proof -
  have init: "compressed (sha1_init_ctx memory_zero) []" "sha_buflen (sha1_init_ctx memory_zero) = 0"
    by (simp_all add: compressed_def sha1_init_ctx_def sha_vars_def fips_blocks.simps [of "[]"])
  then obtain d rest ctx where d: "stream_blocks contents (sha1_init_ctx memory_zero) = (rest, ctx)" "contents = d @ rest"
      "compressed ctx d" "sha_buflen ctx = 0"
    using stream_blocks_ok [OF init(1), of contents] assms by auto
  have a: "absorbed ctx d"
    unfolding absorbed_def using d(3,4) by (intro exI [of _ d] exI [of _ "[]"]) (simp add: load_def)
  have "absorbed (if length rest > 0 then sha1_process_bytes unaligned rest ctx else ctx) contents"
    using absorbed_bytes [OF a, of rest unaligned] a d(2) assms by simp
  from absorbed_finish [OF this assms] show ?thesis by (simp add: sha1_stream_def d(1))
qed

subsection \<open>The property\<close>

text \<open>
  C18. For every message of fewer than 2^32 bytes the code computes the SHA-1 of FIPS 180, over a buffer, aligned or not, and over a
  stream read in blocks.
\<close>

theorem sha1_is_fips:
  assumes "length msg < 2 ^ 32"
  shows "sha1_buffer unaligned msg = fips_sha1 msg \<and> sha1_stream unaligned msg = fips_sha1 msg"
  using sha1_buffer_fips [OF assms] sha1_stream_fips [OF assms] by simp

theorem sha1_is_fips_witness: "sha1_buffer True [0x61, 0x62, 0x63] = sha1_stream False [0x61, 0x62, 0x63]"
  using sha1_is_fips [of "[0x61, 0x62, 0x63]"] by simp

end
