(* ===== verification/TimeVal.thy ===== *)
theory TimeVal
  imports Prelude
begin

section \<open>Times of packets\<close>

text \<open>
  \<open>struct timeval\<close> and the macros \<open>timeradd\<close>, \<open>timersub\<close> and \<open>timerclear\<close> of \<open>sys/time.h\<close>. The two members
  are integers; an overflow of \<open>long\<close>, which C leaves undefined, is not modelled. \<open>micros\<close> is the time in
  microseconds, to which the macros are addition and subtraction.
\<close>

record timeval =
  tv_sec :: int
  tv_usec :: int

definition timeradd :: "timeval \<Rightarrow> timeval \<Rightarrow> timeval" where
  "timeradd a b =
     (let sec = tv_sec a + tv_sec b; usec = tv_usec a + tv_usec b in
      if usec \<ge> 1000000 then \<lparr>tv_sec = sec + 1, tv_usec = usec - 1000000\<rparr> else \<lparr>tv_sec = sec, tv_usec = usec\<rparr>)"

definition timersub :: "timeval \<Rightarrow> timeval \<Rightarrow> timeval" where
  "timersub a b =
     (let sec = tv_sec a - tv_sec b; usec = tv_usec a - tv_usec b in
      if usec < 0 then \<lparr>tv_sec = sec - 1, tv_usec = usec + 1000000\<rparr> else \<lparr>tv_sec = sec, tv_usec = usec\<rparr>)"

definition timerzero :: timeval where
  "timerzero = \<lparr>tv_sec = 0, tv_usec = 0\<rparr>"

definition micros :: "timeval \<Rightarrow> int" where
  "micros t = tv_sec t * 1000000 + tv_usec t"

definition normalized :: "timeval \<Rightarrow> bool" where
  "normalized t \<longleftrightarrow> 0 \<le> tv_usec t \<and> tv_usec t < 1000000"

lemma micros_simps [simp]:
  "micros (timeradd a b) = micros a + micros b" "micros (timersub a b) = micros a - micros b" "micros timerzero = 0"
  by (simp_all add: micros_def timeradd_def timersub_def timerzero_def Let_def algebra_simps)

lemma normalized_simps [simp]:
  "normalized a \<Longrightarrow> normalized b \<Longrightarrow> normalized (timeradd a b)"
  "normalized a \<Longrightarrow> normalized b \<Longrightarrow> normalized (timersub a b)" "normalized timerzero"
  by (auto simp: normalized_def timeradd_def timersub_def timerzero_def Let_def)

text \<open>Two normal times are equal when they have the same microseconds.\<close>

lemma micros_eq: "normalized a \<Longrightarrow> normalized b \<Longrightarrow> micros a = micros b \<longleftrightarrow> a = b"
proof
  assume n: "normalized a" "normalized b" and m: "micros a = micros b"
  have "tv_sec a = tv_sec b" using n m unfolding micros_def normalized_def by linarith
  with m show "a = b" by (simp add: micros_def)
qed simp

end
