(* ===== verification/Sniffer.thy ===== *)
theory Sniffer
  imports ParserRegister RecentPackets Sha1Spec TimeVal
begin

section \<open>The sniffer\<close>

text \<open>
  Models \<open>src/src/sniffer_packet_parser.c\<close>: captured packets go to tshark through a pcap stream, unless
  they have been seen recently, and the XML that tshark writes goes to the registered parsers.
  \<^item> tshark, expat and libpcap are not modelled. The elements that expat reports are inputs; what
    \<open>pcap_dump\<close> writes is appended to a list for each of the two dumpers. A handle is whether it is
    open; using one that is not fails.
  \<^item> The key of a packet is its SHA-1; the alignment of the data makes no difference to it. The copy
    of the data that the window keeps is a value.
  \<^item> Locks are left out, and the process of tshark is modelled in \<open>TsharkProcess\<close>; \<open>spawned\<close> is whether it could be
    started and its pipe opened.
\<close>

record packet_data =
  pd_data :: "u8 list"
  pd_len :: nat

record pcap_pkthdr =
  ph_ts :: timeval
  ph_caplen :: nat
  ph_len :: nat

datatype xml_state = XPS_Run | XPS_Paused

record sniffer =
  sn_parsing :: parsing
  sn_parsers :: "parsing parser list"
  sn_packet_count :: c_int
  sn_packet_input_count :: c_int
  sn_embedded_proto :: c_int
  sn_last_packets :: "(u8 list, packet_data) hash_container"
  sn_xml_parser_state :: xml_state
  sn_pdumper :: bool
  sn_pd_out :: bool
  sn_pdumper_out :: bool
  sn_tshark :: "(pcap_pkthdr \<times> u8 list) list"
  sn_outpcap :: "(pcap_pkthdr \<times> u8 list) list"

subsection \<open>Duplicates\<close>

text \<open>The result tells whether the packet is new.\<close>

definition check_duplicate_packet ::
    "u8 list \<Rightarrow> (u8 list, packet_data) hash_container \<Rightarrow> (bool \<times> (u8 list, packet_data) hash_container) option" where
  "check_duplicate_packet data last_packets =
     do { let hashed_data = sha1_buffer False data;
          (is_duplicate, last_packets) \<leftarrow> forget_packet hashed_data last_packets;
          Some (\<not> is_duplicate, remember_packet hashed_data \<lparr>pd_data = data, pd_len = length data\<rparr> last_packets) }"

definition pcap_dump :: "bool \<Rightarrow> 'a \<Rightarrow> 'a list \<Rightarrow> 'a list option" where
  "pcap_dump is_open packet written = (if is_open then Some (written @ [packet]) else None)"

definition sniffer_parser_parse_data :: "u8 list \<Rightarrow> timeval \<Rightarrow> sniffer \<Rightarrow> sniffer option" where
  "sniffer_parser_parse_data data timestamp s =
     do { let pkt_hdr = \<lparr>ph_ts = timestamp, ph_caplen = length data, ph_len = length data + 2\<rparr>;
          let s = s\<lparr>sn_packet_input_count := sn_packet_input_count s + 1\<rparr>;
          (is_new, last_packets) \<leftarrow> check_duplicate_packet data (sn_last_packets s);
          let s = s\<lparr>sn_last_packets := last_packets\<rparr>;
          if is_new then
            do { tshark \<leftarrow> pcap_dump (sn_pdumper s) (pkt_hdr, data) (sn_tshark s);
                 let s = s\<lparr>sn_tshark := tshark\<rparr>;
                 if sn_pdumper_out s then Some (s\<lparr>sn_outpcap := sn_outpcap s @ [(pkt_hdr, data)]\<rparr>) else Some s }
          else Some s }"

subsection \<open>XML elements\<close>

text \<open>The attributes of an element; the last one of a name counts.\<close>

definition attribute :: "string \<Rightarrow> (string \<times> string) list \<Rightarrow> string option" where
  "attribute name attr = fold (\<lambda>(a, v) found. if a = name then Some v else found) attr None"

definition parse_xml_start_element :: "string \<Rightarrow> (string \<times> string) list \<Rightarrow> sniffer \<Rightarrow> sniffer option" where
  "parse_xml_start_element el attr s =
     (if el = ''packet'' then
        do { parsing \<leftarrow> parser_begin_packet (sn_parsers s) (sn_parsing s);
             Some (s\<lparr>sn_parsing := parsing, sn_packet_count := sn_packet_count s + 1, sn_embedded_proto := 0\<rparr>) }
      else if el = ''proto'' then Some (s\<lparr>sn_embedded_proto := sn_embedded_proto s + 1\<rparr>)
      else if el = ''field'' \<and> sn_embedded_proto s = 1 then
        let nameStr = attribute ''name'' attr; showStr = attribute ''show'' attr; valueStr = attribute ''value'' attr;
            valueInt = (case valueStr of Some v \<Rightarrow> strtoll v 16 | None \<Rightarrow> 0) in
        (case (nameStr, showStr) of
           (Some name, Some sh) \<Rightarrow>
             do { parsing \<leftarrow> parser_parse_field (sn_parsers s) name sh valueStr valueInt (sn_parsing s);
                  Some (s\<lparr>sn_parsing := parsing\<rparr>) }
         | _ \<Rightarrow> Some s)
      else Some s)"

definition parse_xml_end_element :: "string \<Rightarrow> sniffer \<Rightarrow> sniffer option" where
  "parse_xml_end_element el s =
     (if el = ''packet'' then
        do { parsing \<leftarrow> parser_end_packet (sn_parsers s) (sn_parsing s); Some (s\<lparr>sn_parsing := parsing\<rparr>) }
      else if el = ''proto'' then Some (s\<lparr>sn_embedded_proto := sn_embedded_proto s - 1\<rparr>)
      else Some s)"

subsection \<open>Starting, stopping and pausing\<close>

definition sniffer_parser_init :: "libc \<Rightarrow> sniffer \<Rightarrow> sniffer" where
  "sniffer_parser_init lib s =
     (let (parsers, parsing) = parser_register_all lib (sn_parsing s)
      in s\<lparr>sn_parsers := parsers, sn_parsing := parsing, sn_last_packets := hash_create (\<lambda>_. \<lparr>pd_data = [], pd_len = 0\<rparr>)\<rparr>)"

text \<open>
  \<open>pcap_dump_open(pd_out, outpcap_name)\<close> truncates the file and starts it again. In the reset it is called
  after \<open>pcap_close(pd_out)\<close>, or with a \<open>pd_out\<close> that is NULL.
\<close>

definition pcap_dump_open :: "sniffer \<Rightarrow> sniffer option" where
  "pcap_dump_open s = (if sn_pd_out s then Some (s\<lparr>sn_pdumper_out := True, sn_outpcap := []\<rparr>) else None)"

definition tshark_parser_reset :: "bool \<Rightarrow> sniffer \<Rightarrow> sniffer option" where
  "tshark_parser_reset spawned s =
     do { let s = s\<lparr>sn_pd_out := False\<rparr>;
          s \<leftarrow> (if sn_pdumper_out s then pcap_dump_open s else Some s);
          let s = s\<lparr>sn_pdumper := False, sn_pd_out := False, sn_packet_count := 0\<rparr>;
          if spawned then Some (s\<lparr>sn_pdumper := True, sn_pd_out := True, sn_tshark := []\<rparr>) else Some s }"

definition sniffer_parser_reset :: "bool \<Rightarrow> sniffer \<Rightarrow> sniffer option" where
  "sniffer_parser_reset spawned s = tshark_parser_reset spawned (s\<lparr>sn_last_packets := hash_clear (sn_last_packets s)\<rparr>)"

definition sniffer_parser_close_out :: "sniffer \<Rightarrow> sniffer" where
  "sniffer_parser_close_out s = (if sn_pdumper_out s then s\<lparr>sn_pdumper_out := False\<rparr> else s)"

definition sniffer_parser_create_out :: "sniffer \<Rightarrow> sniffer option" where
  "sniffer_parser_create_out s = pcap_dump_open (sniffer_parser_close_out s)"

definition sniffer_parser_get_packet_count :: "sniffer \<Rightarrow> c_int" where
  "sniffer_parser_get_packet_count s = sn_packet_count s"

definition sniffer_parser_pause_parser :: "bool \<Rightarrow> sniffer \<Rightarrow> sniffer" where
  "sniffer_parser_pause_parser pause s = s\<lparr>sn_xml_parser_state := (if pause then XPS_Paused else XPS_Run)\<rparr>"

text \<open>\<open>rpl_tool_start\<close>, \<open>rpl_tool_start_capture\<close> and \<open>rpl_tool_stop_capture\<close> of \<open>src/src/rpl_packet_parser.c\<close>.\<close>

definition rpl_tool_start :: "libc \<Rightarrow> sniffer \<Rightarrow> sniffer" where
  "rpl_tool_start lib s = sniffer_parser_init lib s"

definition rpl_tool_start_capture :: "bool \<Rightarrow> sniffer \<Rightarrow> sniffer option" where
  "rpl_tool_start_capture spawned s = sniffer_parser_reset spawned s \<bind> sniffer_parser_create_out"

definition rpl_tool_stop_capture :: "sniffer \<Rightarrow> sniffer" where
  "rpl_tool_stop_capture s = sniffer_parser_close_out s"

subsection \<open>The window of the sniffer\<close>

lemma check_duplicate_packet_step:
  assumes "hash_ok c"
  shows "\<exists>c'. check_duplicate_packet data c = Some (sha1_buffer False data \<notin> set (window_keys c), c') \<and> hash_ok c'
    \<and> window_keys c' = window_step LAST_PACKET_NUMBER (sha1_buffer False data) (window_keys c)"
proof -
  obtain c1 where "forget_packet (sha1_buffer False data) c = Some (sha1_buffer False data \<in> set (window_keys c), c1)"
      "hash_ok c1" "sha1_buffer False data \<notin> set (window_keys c1)"
      "window_keys c1 @ [sha1_buffer False data] = window_step LAST_PACKET_NUMBER (sha1_buffer False data) (window_keys c)"
    using forget_packet_step [OF assms] by blast
  then show ?thesis by (simp add: check_duplicate_packet_def remember_packet_step Let_def)
qed

interpretation sniffer_window: recent_window "\<lambda>data c. map_option (\<lambda>(is_new, c). (\<not> is_new, c)) (check_duplicate_packet data c)"
    "sha1_buffer False" window_keys hash_ok LAST_PACKET_NUMBER
proof
  fix c :: "(u8 list, packet_data) hash_container" and x :: "u8 list"
  assume "hash_ok c"
  from check_duplicate_packet_step [OF this, of x]
  show "\<exists>s'. map_option (\<lambda>(is_new, c). (\<not> is_new, c)) (check_duplicate_packet x c)
      = Some (sha1_buffer False x \<in> set (window_keys c), s') \<and> hash_ok s'
      \<and> window_keys s' = window_step LAST_PACKET_NUMBER (sha1_buffer False x) (window_keys c)"
    by auto
qed (simp add: LAST_PACKET_NUMBER_def)

subsection \<open>The properties\<close>

text \<open>
  C16. After any sequence of packets, the next one is taken for new exactly when its hash is not among the last 100 different hashes; no
  check fails, and the window never holds more than 100 hashes, none of them twice.
\<close>

theorem duplicates_recognised:
  "\<exists>c c'. check_all (\<lambda>data c. map_option (\<lambda>(is_new, c). (\<not> is_new, c)) (check_duplicate_packet data c)) ps
      (hash_create (\<lambda>_. \<lparr>pd_data = [], pd_len = 0\<rparr>)) = Some c
    \<and> check_duplicate_packet data c = Some (sha1_buffer False data \<notin> set (last_n 100 (remdups (map (sha1_buffer False) ps))), c')
    \<and> length (window_keys c) \<le> 100 \<and> distinct (window_keys c)"
proof -
  let ?c = "hash_create (\<lambda>_. \<lparr>pd_data = [], pd_len = 0\<rparr>) :: (u8 list, packet_data) hash_container"
  have start: "hash_ok ?c" "window_keys ?c = []" by simp_all
  obtain c c' where c: "check_all (\<lambda>data c. map_option (\<lambda>(is_new, c). (\<not> is_new, c)) (check_duplicate_packet data c)) ps ?c = Some c"
      "map_option (\<lambda>(is_new, c). (\<not> is_new, c)) (check_duplicate_packet data c)
        = Some (sha1_buffer False data \<in> set (last_n LAST_PACKET_NUMBER (remdups (map (sha1_buffer False) ps))), c')"
    using sniffer_window.duplicate_iff [OF start, of ps data] by blast
  then have "check_duplicate_packet data c =
      Some (sha1_buffer False data \<notin> set (last_n 100 (remdups (map (sha1_buffer False) ps))), c')"
    by (auto simp: LAST_PACKET_NUMBER_def)
  then show ?thesis using c(1) sniffer_window.window_size [OF start c(1)] by (auto simp: LAST_PACKET_NUMBER_def)
qed

end
