(* ===== verification/Interfaces.thy ===== *)
theory Interfaces
  imports Sniffer
begin

section \<open>The interface manager\<close>

text \<open>
  Models \<open>src/src/interface_reader/interfaces_mgr.c\<close>: the registry of interfaces, and the instances of
  sniffers with their clocks. An instance keeps the offset of its clock to the clock of its parent;
  when two instances receive the same packet, \<open>interfacemgr_sync_time\<close> joins their trees.
  \<^item> The instances are objects of a heap; a parent is a pointer, 0 for none. Using the pointer of an
    instance that has been freed fails. The loops that follow parents do not end on a cycle:
    they are partial functions into options, so that \<open>None\<close> is both failures.
  \<^item> The list \<open>interface_handles\<close> is the list of its pointers. \<open>interface_data\<close> belongs to the
    interfaces, which are loaded at run time; the debugging output is left out.
  \<^item> The number of bytes \<open>len\<close> of a packet is the length of its data.
\<close>

record if_packet_data =
  ip_timestamp :: timeval
  ip_data :: "u8 list"
  ip_len :: nat

record ifinstance =
  if_target :: string
  if_delta_to_parent :: timeval
  if_parent :: nat
  if_last_packets :: "(u8 list, if_packet_data) hash_container"
  if_first_packet :: bool
  if_ethernet :: bool
  if_fcs :: bool

record ifmgr =
  im_heap :: "ifinstance heap"
  im_handles :: "nat list"
  im_number_of_timebase :: c_int

definition ifmgr_init :: ifmgr where
  "ifmgr_init = \<lparr>im_heap = heap_empty, im_handles = [], im_number_of_timebase = 0\<rparr>"

definition if_read :: "nat \<Rightarrow> ifmgr \<Rightarrow> ifinstance option" where
  "if_read p m = hp_map (im_heap m) p"

definition if_write :: "nat \<Rightarrow> (ifinstance \<Rightarrow> ifinstance) \<Rightarrow> ifmgr \<Rightarrow> ifmgr option" where
  "if_write p f m = map_option (\<lambda>i. m\<lparr>im_heap := heap_put p (f i) (im_heap m)\<rparr>) (if_read p m)"

subsection \<open>Instances\<close>

definition interfacemgr_create_handle :: "string \<Rightarrow> ifmgr \<Rightarrow> nat \<times> ifmgr" where
  "interfacemgr_create_handle target m =
     (let (handle, heap) = heap_alloc \<lparr>if_target = target, if_delta_to_parent = timerzero, if_parent = 0,
            if_last_packets = hash_create (\<lambda>_. \<lparr>ip_timestamp = timerzero, ip_data = [], ip_len = 0\<rparr>),
            if_first_packet = True, if_ethernet = False, if_fcs = True\<rparr> (im_heap m)
      in (handle, m\<lparr>im_heap := heap, im_handles := handle # im_handles m, im_number_of_timebase := im_number_of_timebase m + 1\<rparr>))"

definition interfacemgr_destroy_handle :: "nat \<Rightarrow> ifmgr \<Rightarrow> ifmgr option" where
  "interfacemgr_destroy_handle handle m =
     do { i \<leftarrow> if_read handle m;
          let m = (if if_parent i = 0 then m\<lparr>im_number_of_timebase := im_number_of_timebase m - 1\<rparr> else m);
          Some (m\<lparr>im_handles := remove1 handle (im_handles m), im_heap := heap_free handle (im_heap m)\<rparr>) }"

subsection \<open>Clocks\<close>

partial_function (option) absolute_from :: "ifmgr \<Rightarrow> nat \<Rightarrow> timeval \<Rightarrow> timeval option" where
  "absolute_from m p res =
     (if p = 0 then Some res
      else do { i \<leftarrow> if_read p m; absolute_from m (if_parent i) (timeradd res (if_delta_to_parent i)) })"

definition interfacemgr_get_absolute_timestamp :: "nat \<Rightarrow> timeval \<Rightarrow> ifmgr \<Rightarrow> timeval option" where
  "interfacemgr_get_absolute_timestamp iface packet_timestamp m = absolute_from m iface packet_timestamp"

definition interfacemgr_set_origin :: "nat \<Rightarrow> timeval \<Rightarrow> ifmgr \<Rightarrow> ifmgr option" where
  "interfacemgr_set_origin iface packet_timestamp m =
     do { i \<leftarrow> if_read iface m;
          parent_offset \<leftarrow> interfacemgr_get_absolute_timestamp (if_parent i) packet_timestamp m;
          if_write iface (if_delta_to_parent_update (\<lambda>_. timersub timerzero parent_offset)) m }"

definition inferfacemgr_set_master_time :: "nat \<Rightarrow> timeval \<Rightarrow> ifmgr \<Rightarrow> ifmgr option" where
  "inferfacemgr_set_master_time iface packet_timestamp m =
     if_write iface (if_parent_update (\<lambda>_. 0)) m \<bind> interfacemgr_set_origin iface packet_timestamp"

partial_function (option) rebase_from :: "ifmgr \<Rightarrow> nat \<Rightarrow> timeval \<Rightarrow> (nat \<times> timeval) option" where
  "rebase_from m p res =
     do { i \<leftarrow> if_read p m;
          if if_parent i \<noteq> 0 then rebase_from m (if_parent i) (timeradd res (if_delta_to_parent i)) else Some (p, res) }"

definition interfacemgr_rebase_parent :: "nat \<Rightarrow> ifmgr \<Rightarrow> ifmgr option" where
  "interfacemgr_rebase_parent iface m =
     do { (p, res) \<leftarrow> rebase_from m iface timerzero;
          if p \<noteq> iface then if_write iface (\<lambda>i. i\<lparr>if_parent := p, if_delta_to_parent := res\<rparr>) m else Some m }"

partial_function (option) root_from :: "ifmgr \<Rightarrow> nat \<Rightarrow> nat option" where
  "root_from m p = do { i \<leftarrow> if_read p m; if if_parent i \<noteq> 0 then root_from m (if_parent i) else Some p }"

definition interfacemgr_get_root :: "nat \<Rightarrow> ifmgr \<Rightarrow> (nat \<times> ifmgr) option" where
  "interfacemgr_get_root iface m =
     do { p \<leftarrow> root_from m iface; m \<leftarrow> interfacemgr_rebase_parent iface m; Some (p, m) }"

text \<open>The loop that turns the parents of a tree round.\<close>

partial_function (option) merge_from :: "nat \<Rightarrow> nat \<Rightarrow> nat \<Rightarrow> timeval \<Rightarrow> ifmgr \<Rightarrow> ifmgr option" where
  "merge_from child p old_parent parent_delta m =
     (if p = 0 then Some m
      else do { i \<leftarrow> if_read p m;
                m \<leftarrow> if_write p (\<lambda>i. i\<lparr>if_parent := child, if_delta_to_parent := parent_delta\<rparr>) m;
                let parent_delta = timersub timerzero (if_delta_to_parent i);
                next_parent \<leftarrow> (if old_parent \<noteq> 0 then map_option if_parent (if_read old_parent m) else Some 0);
                merge_from p old_parent next_parent parent_delta m })"

definition interfacemgr_sync_time :: "nat \<Rightarrow> timeval \<Rightarrow> nat \<Rightarrow> timeval \<Rightarrow> ifmgr \<Rightarrow> ifmgr option" where
  "interfacemgr_sync_time iface1 packet_timestamp1 iface2 packet_timestamp2 m =
     do { (root1, m) \<leftarrow> interfacemgr_get_root iface1 m;
          (root2, m) \<leftarrow> interfacemgr_get_root iface2 m;
          if root1 = root2 then Some m
          else do {
            let m = m\<lparr>im_number_of_timebase := im_number_of_timebase m - 1\<rparr>;
            i1 \<leftarrow> if_read iface1 m; i2 \<leftarrow> if_read iface2 m;
            if if_parent i1 = 0 \<and> if_parent i2 = 0 then
              if_write iface1 (\<lambda>i. i\<lparr>if_parent := iface2, if_delta_to_parent := timersub packet_timestamp2 packet_timestamp1\<rparr>) m
            else if if_parent i1 = 0 \<and> if_parent i2 \<noteq> 0 then
              if_write iface1 (\<lambda>i. i\<lparr>if_parent := iface2, if_delta_to_parent := timersub packet_timestamp2 packet_timestamp1\<rparr>) m
            else if if_parent i1 \<noteq> 0 \<and> if_parent i2 = 0 then
              if_write iface2 (\<lambda>i. i\<lparr>if_parent := iface1, if_delta_to_parent := timersub packet_timestamp1 packet_timestamp2\<rparr>) m
            else merge_from iface1 iface2 (if_parent i2) (timersub packet_timestamp1 packet_timestamp2) m } }"

subsection \<open>Packets\<close>

text \<open>The window of recent packets of an instance.\<close>

definition check_last_packets ::
    "u8 list \<times> timeval \<Rightarrow> (u8 list, if_packet_data) hash_container
     \<Rightarrow> (bool \<times> (u8 list, if_packet_data) hash_container) option" where
  "check_last_packets = (\<lambda>(data, timestamp) last_packets.
     do { let hashed_data = sha1_buffer False data;
          (is_duplicate, last_packets) \<leftarrow> forget_packet hashed_data last_packets;
          let pkt_data = \<lparr>ip_timestamp = timestamp, ip_data = data, ip_len = length data\<rparr>;
          Some (is_duplicate, remember_packet hashed_data pkt_data last_packets) })"

definition interfacemgr_check_duplicate_packet :: "nat \<Rightarrow> u8 list \<Rightarrow> timeval \<Rightarrow> ifmgr \<Rightarrow> (bool \<times> ifmgr) option" where
  "interfacemgr_check_duplicate_packet iface data timestamp m =
     do { i \<leftarrow> if_read iface m;
          (is_duplicate, last_packets) \<leftarrow> check_last_packets (data, timestamp) (if_last_packets i);
          m \<leftarrow> if_write iface (if_last_packets_update (\<lambda>_. last_packets)) m;
          Some (is_duplicate, m) }"

text \<open>The inner option is the pointer, NULL for none.\<close>

definition interfacemgr_get_old_packet :: "nat \<Rightarrow> u8 list \<Rightarrow> ifmgr \<Rightarrow> if_packet_data option option" where
  "interfacemgr_get_old_packet iface data m =
     do { i \<leftarrow> if_read iface m;
          let (found, it) = hash_find (if_last_packets i) (sha1_buffer False data);
          if found then hash_it_value (if_last_packets i) it else Some None }"

definition interfacemgr_check_multisniffer_packet ::
    "nat \<Rightarrow> nat \<Rightarrow> u8 list \<Rightarrow> timeval \<Rightarrow> ifmgr \<Rightarrow> (bool \<times> ifmgr) option" where
  "interfacemgr_check_multisniffer_packet iface other data timestamp m =
     do { old_pkt \<leftarrow> interfacemgr_get_old_packet other data m;
          case old_pkt of
            Some pkt \<Rightarrow> do { m \<leftarrow> interfacemgr_sync_time iface timestamp other (ip_timestamp pkt) m; Some (True, m) }
          | None \<Rightarrow> Some (False, m) }"

definition check_other_handle ::
    "nat \<Rightarrow> u8 list \<Rightarrow> timeval \<Rightarrow> nat \<Rightarrow> bool \<times> ifmgr \<Rightarrow> (bool \<times> ifmgr) option" where
  "check_other_handle iface data timestamp interface_instance = (\<lambda>(received, m).
     if interface_instance = iface then Some (received, m)
     else do { (r, m) \<leftarrow> interfacemgr_check_multisniffer_packet iface interface_instance data timestamp m;
               Some (received \<or> r, m) })"

definition interfacemgr_process_packet ::
    "nat \<Rightarrow> u8 list \<Rightarrow> timeval \<Rightarrow> ifmgr \<times> sniffer \<Rightarrow> (ifmgr \<times> sniffer) option" where
  "interfacemgr_process_packet iface data timestamp = (\<lambda>(m, s).
     if data = [] \<or> hd data AND 0x03 \<noteq> 1 then Some (m, s)
     else do {
       (is_duplicate, m) \<leftarrow> interfacemgr_check_duplicate_packet iface data timestamp m;
       if is_duplicate then Some (m, s)
       else do {
         i \<leftarrow> if_read iface m;
         m \<leftarrow> (if if_first_packet i \<and> if_parent i = 0
               then if_write iface (\<lambda>i. i\<lparr>if_delta_to_parent := timersub timerzero timestamp, if_first_packet := False\<rparr>) m
               else Some m);
         (packet_was_already_received, m) \<leftarrow> each (check_other_handle iface data timestamp) (im_handles m) (False, m);
         if \<not> packet_was_already_received then
           do { t \<leftarrow> interfacemgr_get_absolute_timestamp iface timestamp m;
                s \<leftarrow> sniffer_parser_parse_data data t s;
                Some (m, s) }
         else Some (m, s) } })"

end
