(* ===== verification/Clocks.thy ===== *)
theory Clocks
  imports Interfaces
begin

section \<open>The clocks of the interfaces\<close>

text \<open>
  The instances of \<open>src/src/interface_reader/interfaces_mgr.c\<close> form trees: \<open>up h p r d\<close> says that the
  parents of \<open>p\<close> lead to the root \<open>r\<close> and that the offsets on the way add up to \<open>d\<close> microseconds.
  Each operation on the clocks is first described by what it does to \<open>up\<close>. \<open>ifmgr_ok\<close> is the invariant of the
  interface manager: it has no cycle and no parent that is gone, and it counts its roots right.
\<close>

abbreviation delta :: "ifinstance \<Rightarrow> int" where
  "delta i \<equiv> micros (if_delta_to_parent i)"

inductive up :: "(nat \<rightharpoonup> ifinstance) \<Rightarrow> nat \<Rightarrow> nat \<Rightarrow> int \<Rightarrow> bool" for h where
  up_root: "h p = Some i \<Longrightarrow> p \<noteq> 0 \<Longrightarrow> if_parent i = 0 \<Longrightarrow> up h p p (delta i)"
| up_step: "h p = Some i \<Longrightarrow> p \<noteq> 0 \<Longrightarrow> if_parent i \<noteq> 0 \<Longrightarrow> up h (if_parent i) r d \<Longrightarrow> up h p r (delta i + d)"

inductive_cases up_cases: "up h p r d"

lemma up_root_at: "up h p r d \<Longrightarrow> \<exists>i. h r = Some i \<and> r \<noteq> 0 \<and> if_parent i = 0"
  by (induction rule: up.induct) auto

lemma up_there: "up h p r d \<Longrightarrow> \<exists>i. h p = Some i \<and> p \<noteq> 0 \<and> (if_parent i = 0 \<longleftrightarrow> p = r)"
  by (induction rule: up.induct) (auto dest: up_root_at)

lemma up_unique: "up h p r d \<Longrightarrow> up h p r' d' \<Longrightarrow> r' = r \<and> d' = d"
proof (induction arbitrary: r' d' rule: up.induct)
  case (up_root p i)
  then show ?case by (auto elim: up_cases)
next
  case (up_step p i r d)
  from up_step.prems up_step.hyps(1,3) obtain e where "up h (if_parent i) r' e" "d' = delta i + e"
    by (auto elim: up_cases)
  then show ?case using up_step.IH by auto
qed

lemma up_self: "h p = Some i \<Longrightarrow> p \<noteq> 0 \<Longrightarrow> if_parent i = 0 \<Longrightarrow> up h p r d \<longleftrightarrow> r = p \<and> d = delta i"
  using up_unique up.up_root by metis

text \<open>The loops of the code, when the parents lead to a root.\<close>

lemma absolute_from_up:
  "up (hp_map (im_heap m)) p r d \<Longrightarrow> \<exists>t'. absolute_from m p t = Some t' \<and> micros t' = micros t + d"
proof (induction arbitrary: t rule: up.induct)
  case (up_root p i)
  then show ?case by (simp add: absolute_from.simps [of m p] absolute_from.simps [of m 0] if_read_def)
next
  case (up_step p i r d)
  from up_step.IH [of "timeradd t (if_delta_to_parent i)"] up_step.hyps show ?case
    by (auto simp: absolute_from.simps [of m p] if_read_def)
qed

lemma absolute_from_normalized:
  assumes "up (hp_map (im_heap m)) p r d" "absolute_from m p t = Some t'" "normalized t"
    and "\<And>q i. hp_map (im_heap m) q = Some i \<Longrightarrow> normalized (if_delta_to_parent i)"
  shows "normalized t'"
  using assms(1-3)
proof (induction arbitrary: t rule: up.induct)
  case (up_root p i)
  then show ?case using assms(4) by (auto simp: absolute_from.simps [of m p] absolute_from.simps [of m 0] if_read_def)
next
  case (up_step p i r d)
  then show ?case using assms(4) by (auto simp: absolute_from.simps [of m p] if_read_def)
qed

lemma root_from_up: "up (hp_map (im_heap m)) p r d \<Longrightarrow> root_from m p = Some r"
  by (induction rule: up.induct) (simp_all add: root_from.simps [of m] if_read_def)

lemma rebase_from_up:
  "up (hp_map (im_heap m)) p r d \<Longrightarrow> hp_map (im_heap m) r = Some j \<Longrightarrow>
    \<exists>res. rebase_from m p t = Some (r, res) \<and> micros res = micros t + d - delta j"
proof (induction arbitrary: t rule: up.induct)
  case (up_root p i)
  then show ?case by (simp add: rebase_from.simps [of m p] if_read_def)
next
  case (up_step p i r d)
  from up_step.IH [of "timeradd t (if_delta_to_parent i)"] up_step.prems up_step.hyps show ?case
    by (auto simp: rebase_from.simps [of m p] if_read_def)
qed

lemma rebase_from_normalized:
  assumes "up (hp_map (im_heap m)) p r d" "rebase_from m p t = Some (r', t')" "normalized t"
    and "\<And>q i. hp_map (im_heap m) q = Some i \<Longrightarrow> normalized (if_delta_to_parent i)"
  shows "normalized t'"
  using assms(1-3)
proof (induction arbitrary: t rule: up.induct)
  case (up_root p i)
  then show ?case using assms(4) by (auto simp: rebase_from.simps [of m p] if_read_def)
next
  case (up_step p i r d)
  then show ?case using assms(4) by (auto simp: rebase_from.simps [of m p] if_read_def)
qed

subsection \<open>Changing the trees\<close>

text \<open>A node is hung directly below its root: nothing changes.\<close>

lemma up_rebase:
  assumes p: "up h p r dp" "p \<noteq> r" and r: "h r = Some j" and D: "delta i' = dp - delta j" "if_parent i' = r"
    and h': "h' p = Some i'" "\<And>x. x \<noteq> p \<Longrightarrow> h' x = h x"
  shows "up h x y e \<Longrightarrow> up h' x y e"
proof (induction rule: up.induct)
  case (up_root x k)
  have "x \<noteq> p" using p up_root up_self by metis
  then show ?case using up_root h' by (intro up.up_root) auto
next
  case (up_step x k y d)
  show ?case
  proof (cases "x = p")
    case True
    have "up h x y (delta k + d)" using up_step.hyps by (intro up.up_step)
    then have y: "y = r" "delta k + d = dp" using up_unique [OF p(1)] True by auto
    have r0: "r \<noteq> 0" "if_parent j = 0" using up_root_at [OF p(1)] r by auto
    then have "up h' r r (delta j)" using p(2) r h'(2) [of r] by (intro up.up_root) auto
    then have "up h' p r (delta i' + delta j)" using h'(1) up_step.hyps(2) True r0 D(2) by (intro up.up_step) auto
    then show ?thesis using True y D(1) by simp
  next
    case False
    then show ?thesis using up_step h' by (intro up.up_step) auto
  qed
qed

text \<open>
  Two trees become one: the tree of the root \<open>a\<close> goes into the tree of the root \<open>b\<close>, and the sums of the
  offsets in it all change by the same amount.
\<close>

definition joined :: "(nat \<rightharpoonup> ifinstance) \<Rightarrow> (nat \<rightharpoonup> ifinstance) \<Rightarrow> nat \<Rightarrow> nat \<Rightarrow> int \<Rightarrow> bool" where
  "joined h h' a b c \<longleftrightarrow> (\<forall>x y e. up h x y e \<longrightarrow> up h' x (if y = a then b else y) (if y = a then e + c else e))"

lemma up_graft:
  assumes r: "h r = Some i" "if_parent i = 0" and q: "up h q s d" "s \<noteq> r" and i': "if_parent i' = q"
    and h': "h' r = Some i'" "\<And>x. x \<noteq> r \<Longrightarrow> h' x = h x"
  shows "joined h h' r s (delta i' + d - delta i)"
proof -
  have other: "up h x y e \<Longrightarrow> y \<noteq> r \<Longrightarrow> up h' x y e" for x y e
  proof (induction rule: up.induct)
    case (up_root x k)
    then show ?case using h' by (intro up.up_root) auto
  next
    case (up_step x k y d)
    then have "x \<noteq> r" using r by auto
    then show ?case using up_step h' by (intro up.up_step) auto
  qed
  have "q \<noteq> 0" using up_there [OF q(1)] by auto
  have below: "up h x y e \<Longrightarrow> y = r \<Longrightarrow> up h' x s (e + (delta i' + d - delta i))" for x y e
  proof (induction rule: up.induct)
    case (up_root x k)
    then have "up h' x s (delta i' + d)"
      using other [OF q] i' h'(1) \<open>q \<noteq> 0\<close> by (intro up.up_step) auto
    then show ?case using up_root r by (simp add: algebra_simps)
  next
    case (up_step x k y e)
    then have "x \<noteq> r" using r by auto
    then have "up h' x s (delta k + (e + (delta i' + d - delta i)))" using up_step h' by (intro up.up_step) auto
    then show ?case by (simp add: algebra_simps)
  qed
  show ?thesis unfolding joined_def using other below by auto
qed

text \<open>The child of a root becomes the root.\<close>

lemma up_reroot:
  assumes p: "h p = Some i" "p \<noteq> 0" "if_parent i = r" and r: "h r = Some j" "r \<noteq> 0" "if_parent j = 0" and pr: "p \<noteq> r"
    and i': "if_parent i' = 0" and j': "if_parent j' = p" "delta j' = - delta i"
    and h': "h' p = Some i'" "h' r = Some j'" "\<And>x. x \<noteq> p \<Longrightarrow> x \<noteq> r \<Longrightarrow> h' x = h x"
  shows "joined h h' r p (delta i' - delta i - delta j)"
proof -
  have p': "up h' p p (delta i')" using p i' h' up.up_root [of h' p i'] by simp
  then have r': "up h' r p (delta j' + delta i')" using r j'(1) p(2) h' by (intro up.up_step) auto
  have "up h x y e \<Longrightarrow> up h' x (if y = r then p else y) (if y = r then e + (delta i' - delta i - delta j) else e)" for x y e
  proof (induction rule: up.induct)
    case (up_root x k)
    show ?case
    proof (cases "x = r")
      case True
      then have "k = j" using up_root r by simp
      then show ?thesis using True r' j'(2) by (simp add: algebra_simps)
    next
      case False
      moreover have "x \<noteq> p" using up_root p r by auto
      ultimately show ?thesis using up_root h' by (auto intro!: up.up_root)
    qed
  next
    case (up_step x k y e)
    have "x \<noteq> r" using up_step r by auto
    show ?case
    proof (cases "x = p")
      case True
      then have "up h r y e" using up_step p by simp
      then have "y = r" "e = delta j" using up_self [of h r j] r by auto
      moreover have "k = i" using True up_step p by simp
      ultimately show ?thesis using True p' by simp
    next
      case False
      then have "up h' x (if y = r then p else y) (delta k + (if y = r then e + (delta i' - delta i - delta j) else e))"
        using \<open>x \<noteq> r\<close> up_step h' by (intro up.up_step) auto
      then show ?thesis by (simp add: algebra_simps split: if_splits)
    qed
  qed
  then show ?thesis by (simp add: joined_def)
qed

lemma joined_trans:
  assumes "joined h h' a b c" "joined h' h'' b b' c'" "\<And>x e. \<not> up h x b e"
  shows "joined h h'' a b' (c + c')"
  unfolding joined_def
proof (intro allI impI)
  fix x y e
  assume u: "up h x y e"
  then have "y \<noteq> b" using assms(3) by blast
  moreover have "up h' x (if y = a then b else y) (if y = a then e + c else e)" using assms(1) u unfolding joined_def by blast
  ultimately show "up h'' x (if y = a then b' else y) (if y = a then e + (c + c') else e)"
    using assms(2) unfolding joined_def by (cases "y = a") (force simp: algebra_simps)+
qed

subsection \<open>The invariant\<close>

definition forest :: "(nat \<rightharpoonup> ifinstance) \<Rightarrow> bool" where
  "forest h \<longleftrightarrow> (\<forall>p i. h p = Some i \<longrightarrow> (\<exists>r d. up h p r d))"

definition roots :: "(nat \<rightharpoonup> ifinstance) \<Rightarrow> nat set" where
  "roots h = {p. \<exists>i. h p = Some i \<and> if_parent i = 0}"

definition window_ok :: "(u8 list, if_packet_data) hash_container \<Rightarrow> bool" where
  "window_ok c \<longleftrightarrow> hash_ok c \<and> (\<forall>e \<in> set (hash_items c). normalized (ip_timestamp (snd e)))"

definition ifmgr_ok :: "ifmgr \<Rightarrow> bool" where
  "ifmgr_ok m \<longleftrightarrow> heap_ok (im_heap m) \<and> distinct (im_handles m) \<and> set (im_handles m) = dom (hp_map (im_heap m))
     \<and> forest (hp_map (im_heap m)) \<and> im_number_of_timebase m = of_nat (card (roots (hp_map (im_heap m))))
     \<and> (\<forall>p i. hp_map (im_heap m) p = Some i \<longrightarrow> normalized (if_delta_to_parent i) \<and> window_ok (if_last_packets i))"

abbreviation insts :: "ifmgr \<Rightarrow> nat \<rightharpoonup> ifinstance" where
  "insts m \<equiv> hp_map (im_heap m)"

lemma ifmgr_okD:
  assumes "ifmgr_ok m"
  shows "heap_ok (im_heap m)" "distinct (im_handles m)" "set (im_handles m) = dom (insts m)" "forest (insts m)"
    "im_number_of_timebase m = of_nat (card (roots (insts m)))"
    "insts m p = Some i \<Longrightarrow> normalized (if_delta_to_parent i)" "insts m p = Some i \<Longrightarrow> window_ok (if_last_packets i)"
    "insts m p = Some i \<Longrightarrow> p \<noteq> 0" "finite (roots (insts m))"
proof -
  show ok: "heap_ok (im_heap m)" "distinct (im_handles m)" "set (im_handles m) = dom (insts m)" "forest (insts m)"
    "im_number_of_timebase m = of_nat (card (roots (insts m)))"
    "insts m p = Some i \<Longrightarrow> normalized (if_delta_to_parent i)" "insts m p = Some i \<Longrightarrow> window_ok (if_last_packets i)"
    using assms by (auto simp: ifmgr_ok_def)
  show "insts m p = Some i \<Longrightarrow> p \<noteq> 0" using ok(1) by (auto simp: heap_ok_def)
  have "roots (insts m) \<subseteq> set (im_handles m)" by (auto simp: roots_def ok(3))
  then show "finite (roots (insts m))" by (rule finite_subset) simp
qed

lemma roots_up: "p \<noteq> 0 \<Longrightarrow> p \<in> roots h \<longleftrightarrow> (\<exists>d. up h p p d)"
proof
  assume "p \<noteq> 0" "p \<in> roots h"
  then show "\<exists>d. up h p p d" using up.up_root [of h p] by (auto simp: roots_def)
next
  assume "\<exists>d. up h p p d"
  then show "p \<in> roots h" using up_root_at [of h p p] by (auto simp: roots_def)
qed

text \<open>An operation that changes parents and offsets only.\<close>

definition same_inst :: "ifinstance \<Rightarrow> ifinstance \<Rightarrow> bool" where
  "same_inst i i' \<longleftrightarrow> if_target i' = if_target i \<and> if_last_packets i' = if_last_packets i \<and> if_first_packet i' = if_first_packet i
     \<and> if_ethernet i' = if_ethernet i \<and> if_fcs i' = if_fcs i
     \<and> (normalized (if_delta_to_parent i) \<longrightarrow> normalized (if_delta_to_parent i'))"

definition clocks_changed :: "ifmgr \<Rightarrow> ifmgr \<Rightarrow> bool" where
  "clocks_changed m m' \<longleftrightarrow> im_handles m' = im_handles m \<and> hp_next (im_heap m') = hp_next (im_heap m)
     \<and> (\<forall>p. insts m p = None \<longrightarrow> insts m' p = None) \<and> (\<forall>p i. insts m p = Some i \<longrightarrow> (\<exists>i'. insts m' p = Some i' \<and> same_inst i i'))"

lemma same_inst_refl [simp]: "same_inst i i"
  by (simp add: same_inst_def)

lemma same_inst_trans: "same_inst i j \<Longrightarrow> same_inst j k \<Longrightarrow> same_inst i k"
  by (simp add: same_inst_def)

lemma clocks_changed_refl [simp]: "clocks_changed m m"
  by (simp add: clocks_changed_def)

lemma clocks_changed_trans:
  assumes a: "clocks_changed m m'" and b: "clocks_changed m' m''"
  shows "clocks_changed m m''"
  unfolding clocks_changed_def
proof (intro conjI allI impI)
  show "im_handles m'' = im_handles m" "hp_next (im_heap m'') = hp_next (im_heap m)"
    using a b unfolding clocks_changed_def by simp_all
  show "insts m'' p = None" if "insts m p = None" for p
    using that a b unfolding clocks_changed_def by blast
  fix p i assume "insts m p = Some i"
  then obtain i' where i': "insts m' p = Some i'" "same_inst i i'" using a unfolding clocks_changed_def by blast
  then obtain i'' where "insts m'' p = Some i''" "same_inst i' i''" using b unfolding clocks_changed_def by blast
  with i'(2) show "\<exists>i''. insts m'' p = Some i'' \<and> same_inst i i''" using same_inst_trans by blast
qed

lemma clocks_changed_there: "clocks_changed m m' \<Longrightarrow> insts m p = Some i \<Longrightarrow> \<exists>i'. insts m' p = Some i' \<and> same_inst i i'"
  unfolding clocks_changed_def by blast

lemma clocks_changed_back: "clocks_changed m m' \<Longrightarrow> insts m' p = Some i' \<Longrightarrow> \<exists>i. insts m p = Some i \<and> same_inst i i'"
  unfolding clocks_changed_def by (metis not_Some_eq option.inject)

lemma clocks_changed_dom:
  assumes "clocks_changed m m'"
  shows "dom (insts m') = dom (insts m)"
proof (intro set_eqI iffI)
  fix p assume "p \<in> dom (insts m')"
  then obtain i' where "insts m' p = Some i'" by blast
  from clocks_changed_back [OF assms this] show "p \<in> dom (insts m)" by blast
next
  fix p assume "p \<in> dom (insts m)"
  then obtain i where "insts m p = Some i" by blast
  from clocks_changed_there [OF assms this] show "p \<in> dom (insts m')" by blast
qed

lemma clocks_changed_count [simp]: "clocks_changed m (m'\<lparr>im_number_of_timebase := k\<rparr>) \<longleftrightarrow> clocks_changed m m'"
  unfolding clocks_changed_def by simp

lemma if_write_wp:
  "wp (if_write p f m) Q \<longleftrightarrow> (\<exists>i. insts m p = Some i \<and> Q (m\<lparr>im_heap := heap_put p (f i) (im_heap m)\<rparr>))"
  by (cases "insts m p") (auto simp: if_write_def if_read_def wp_def)

lemma if_read_wp: "wp (if_read p m) Q \<longleftrightarrow> (\<exists>i. insts m p = Some i \<and> Q i)"
  by (auto simp: if_read_def wp_def)

lemma clocks_changed_write:
  "insts m p = Some i \<Longrightarrow> same_inst i i' \<Longrightarrow> clocks_changed m (m\<lparr>im_heap := heap_put p i' (im_heap m)\<rparr>)"
  by (auto simp: clocks_changed_def)

lemma clocks_changed_ok:
  assumes "ifmgr_ok m" "clocks_changed m m'" "forest (insts m')" "im_number_of_timebase m' = of_nat (card (roots (insts m')))"
  shows "ifmgr_ok m'"
proof -
  note ok = ifmgr_okD [OF assms(1)]
  have dom: "dom (insts m') = dom (insts m)" by (rule clocks_changed_dom [OF assms(2)])
  have h: "im_handles m' = im_handles m" "hp_next (im_heap m') = hp_next (im_heap m)"
    using assms(2) by (simp_all add: clocks_changed_def)
  have "heap_ok (im_heap m')" using ok(1) dom by (fastforce simp: heap_ok_def h)
  moreover have "distinct (im_handles m')" "set (im_handles m') = dom (insts m')"
    using ok(2,3) by (simp_all add: h dom)
  moreover have "normalized (if_delta_to_parent i') \<and> window_ok (if_last_packets i')" if i': "insts m' p = Some i'" for p i'
  proof -
    obtain i where i: "insts m p = Some i" "same_inst i i'" using clocks_changed_back [OF assms(2) i'] by blast
    then show ?thesis using ok(6,7) [OF i(1)] i(2) by (simp add: same_inst_def)
  qed
  ultimately show ?thesis using assms(3,4) by (auto simp: ifmgr_ok_def)
qed

subsection \<open>Roots\<close>

lemma get_root_result:
  assumes "ifmgr_ok m" "up (insts m) p r d"
  shows "wp (interfacemgr_get_root p m) (\<lambda>(root, m'). root = r \<and> clocks_changed m m' \<and> im_number_of_timebase m' = im_number_of_timebase m
    \<and> (\<forall>x y e. up (insts m) x y e \<longrightarrow> up (insts m') x y e) \<and> (\<exists>i. insts m' p = Some i \<and> if_parent i = (if p = r then 0 else r))
    \<and> (\<forall>q. q \<noteq> p \<longrightarrow> insts m' q = insts m q))"
proof -
  note ok = ifmgr_okD [OF assms(1)]
  obtain i j where i: "insts m p = Some i" "if_parent i = 0 \<longleftrightarrow> p = r" and j: "insts m r = Some j" "if_parent j = 0"
    using up_there [OF assms(2)] up_root_at [OF assms(2)] by auto
  obtain res where res: "rebase_from m p timerzero = Some (r, res)" "micros res = d - delta j"
    using rebase_from_up [OF assms(2) j(1), of timerzero] by auto
  have n: "normalized res" using rebase_from_normalized [OF assms(2) res(1)] ok(6) by auto
  show ?thesis
  proof (cases "p = r")
    case True
    then show ?thesis
      using i j res root_from_up [OF assms(2)] by (simp add: interfacemgr_get_root_def interfacemgr_rebase_parent_def)
  next
    case False
    define i' where "i' = i\<lparr>if_parent := r, if_delta_to_parent := res\<rparr>"
    define m' where "m' = m\<lparr>im_heap := heap_put p i' (im_heap m)\<rparr>"
    have "interfacemgr_get_root p m = Some (r, m')"
      using False i res
      by (simp add: interfacemgr_get_root_def root_from_up [OF assms(2)] interfacemgr_rebase_parent_def if_write_def if_read_def m'_def i'_def)
    moreover have "clocks_changed m m'"
      unfolding m'_def using i(1) n by (intro clocks_changed_write) (simp_all add: i'_def same_inst_def)
    moreover have "up (insts m') x y e" if "up (insts m) x y e" for x y e
      by (rule up_rebase [OF assms(2) False j(1) _ _ _ _ that, of i']) (simp_all add: i'_def m'_def res)
    ultimately show ?thesis using False by (simp add: m'_def i'_def)
  qed
qed

text \<open>After a join the count of the roots is one less.\<close>

lemma joined_roots:
  assumes "forest h" "joined h h' a b c" "a \<noteq> b" "a \<in> roots h" "b \<in> roots h" "dom h' = dom h" "0 \<notin> dom h"
  shows "roots h' = roots h - {a}" "forest h'"
proof -
  have J: "up h x y e \<Longrightarrow> up h' x (if y = a then b else y) (if y = a then e + c else e)" for x y e
    using assms(2) unfolding joined_def by blast
  show "forest h'"
    unfolding forest_def
  proof (intro allI impI)
    fix p i assume "h' p = Some i"
    then have "p \<in> dom h" using assms(6) by (auto simp flip: assms(6))
    then obtain r d where "up h p r d" using assms(1) unfolding forest_def by blast
    from J [OF this] show "\<exists>r d. up h' p r d" by blast
  qed
  have nz: "x \<noteq> 0" if "x \<in> roots h \<or> x \<in> roots h'" for x
  proof -
    have "x \<in> dom h \<or> x \<in> dom h'" using that by (auto simp: roots_def)
    then show ?thesis using assms(6,7) by metis
  qed
  show "roots h' = roots h - {a}"
  proof (intro set_eqI iffI)
    fix x assume x: "x \<in> roots h'"
    then have "x \<in> dom h" using assms(6) by (auto simp: roots_def simp flip: assms(6))
    then obtain y e where y: "up h x y e" using assms(1) unfolding forest_def by blast
    moreover obtain e' where "up h' x x e'" using x roots_up [of x h'] nz by blast
    ultimately have "x = (if y = a then b else y)" using J [OF y] up_unique by blast
    then show "x \<in> roots h - {a}"
      using y assms(3,5) up_root_at [OF y] by (auto simp: roots_def split: if_splits)
  next
    fix x assume x: "x \<in> roots h - {a}"
    then obtain e where "up h x x e" using roots_up [of x h] nz by blast
    from J [OF this] x show "x \<in> roots h'" using roots_up [of x h'] nz by auto
  qed
qed

lemma card_roots_step:
  assumes "finite rs" "a \<in> rs" "n = of_nat (card rs)"
  shows "n - 1 = (of_nat (card (rs - {a})) :: c_int)"
proof -
  have "card rs = Suc (card (rs - {a}))" using assms(1,2) by (metis card.remove)
  then show ?thesis using assms(3) by simp
qed

subsection \<open>Synchronisation\<close>

text \<open>The parents of a child of a root are turned round in two steps.\<close>

lemma merge_from_child:
  assumes "insts m p = Some i" "if_parent i = r" "insts m r = Some j" "if_parent j = 0" "p \<noteq> r" "p \<noteq> 0" "r \<noteq> 0"
  shows "merge_from child p r D m =
    Some (m\<lparr>im_heap := heap_put r (j\<lparr>if_parent := p, if_delta_to_parent := timersub timerzero (if_delta_to_parent i)\<rparr>)
       (heap_put p (i\<lparr>if_parent := child, if_delta_to_parent := D\<rparr>) (im_heap m))\<rparr>)"
  using assms
  by (simp add: merge_from.simps [of child] merge_from.simps [of p] merge_from.simps [of r 0] if_write_def if_read_def)

text \<open>
  The result of \<open>interfacemgr_sync_time\<close>: nothing changes between two instances of a tree, and otherwise the two trees
  become one, shifted so that the two packets have the same absolute time.
\<close>

lemma same_trees_ok:
  assumes "ifmgr_ok m" "clocks_changed m m'" "im_number_of_timebase m' = im_number_of_timebase m"
    and up: "\<And>x y e. up (insts m) x y e \<Longrightarrow> up (insts m') x y e"
  shows "ifmgr_ok m'"
proof (rule clocks_changed_ok [OF assms(1,2)])
  note ok = ifmgr_okD [OF assms(1)]
  have dom: "dom (insts m') = dom (insts m)" by (rule clocks_changed_dom [OF assms(2)])
  have tree: "\<exists>r d. up (insts m) p r d" if "insts m' p = Some i" for p i
    using ok(4) clocks_changed_back [OF assms(2) that] unfolding forest_def by blast
  then show "forest (insts m')" using up unfolding forest_def by blast
  have "x \<in> roots (insts m') \<longleftrightarrow> x \<in> roots (insts m)" if "x \<in> dom (insts m)" for x
  proof -
    obtain i where "insts m x = Some i" using \<open>x \<in> dom (insts m)\<close> by blast
    then have "x \<noteq> 0" by (rule ok(8))
    obtain r d where r: "up (insts m) x r d" using ok(4) \<open>insts m x = Some i\<close> unfolding forest_def by blast
    show ?thesis using up_unique [OF r] up_unique [OF up [OF r]] r up [OF r] roots_up [OF \<open>x \<noteq> 0\<close>] by metis
  qed
  moreover have "roots h \<subseteq> dom h" for h by (auto simp: roots_def)
  ultimately have "roots (insts m') = roots (insts m)" using dom by blast
  then show "im_number_of_timebase m' = of_nat (card (roots (insts m')))" using ok(5) assms(3) by simp
qed

text \<open>The two ways in which the code hangs a tree below an instance of another.\<close>

lemma graft_write:
  assumes "insts m r = Some i" "up (insts m) r r e" "up (insts m) q s d" "s \<noteq> r" "normalized D"
  shows "joined (insts m) (insts (m\<lparr>im_heap := heap_put r (i\<lparr>if_parent := q, if_delta_to_parent := D\<rparr>) (im_heap m)\<rparr>)) r s (micros D + d - e)"
    "clocks_changed m (m\<lparr>im_heap := heap_put r (i\<lparr>if_parent := q, if_delta_to_parent := D\<rparr>) (im_heap m)\<rparr>)"
proof -
  have i: "if_parent i = 0" "e = delta i" "r \<noteq> 0"
    using up_root_at [OF assms(2)] up_self [of "insts m" r i r e] assms(1,2) by auto
  show "joined (insts m) (insts (m\<lparr>im_heap := heap_put r (i\<lparr>if_parent := q, if_delta_to_parent := D\<rparr>) (im_heap m)\<rparr>)) r s (micros D + d - e)"
    using up_graft [OF assms(1) i(1) assms(3,4), of "i\<lparr>if_parent := q, if_delta_to_parent := D\<rparr>"] by (simp add: i(2))
  show "clocks_changed m (m\<lparr>im_heap := heap_put r (i\<lparr>if_parent := q, if_delta_to_parent := D\<rparr>) (im_heap m)\<rparr>)"
    using assms(1,5) by (intro clocks_changed_write) (simp_all add: same_inst_def)
qed

lemma merge_result:
  assumes ok: "\<And>x k. insts m x = Some k \<Longrightarrow> normalized (if_delta_to_parent k)" and p: "insts m p = Some i" "if_parent i = r" "up (insts m) p r e" "p \<noteq> r"
    and q: "up (insts m) q s d" "s \<noteq> r" and D: "normalized D"
  shows "\<exists>m'. merge_from q p r D m = Some m' \<and> joined (insts m) (insts m') r s (micros D + d - e) \<and> clocks_changed m m'
    \<and> im_number_of_timebase m' = im_number_of_timebase m"
proof -
  obtain j where j: "insts m r = Some j" "r \<noteq> 0" "if_parent j = 0" using up_root_at [OF p(3)] by blast
  have "p \<noteq> 0" using up_there [OF p(3)] by auto
  let ?i = "i\<lparr>if_parent := q, if_delta_to_parent := D\<rparr>" and ?iz = "i\<lparr>if_parent := 0, if_delta_to_parent := D\<rparr>"
  let ?j = "j\<lparr>if_parent := p, if_delta_to_parent := timersub timerzero (if_delta_to_parent i)\<rparr>"
  let ?ma = "m\<lparr>im_heap := heap_put p ?i (im_heap m)\<rparr>"
  let ?m' = "m\<lparr>im_heap := heap_put r ?j (heap_put p ?i (im_heap m))\<rparr>"
  let ?hz = "(insts m)(p \<mapsto> ?iz, r \<mapsto> ?j)"
  have "up (insts m) r r (delta j)" using j by (intro up.up_root)
  then have "up (insts m) p r (delta i + delta j)" using p(1,2) j(2) \<open>p \<noteq> 0\<close> by (intro up.up_step) auto
  then have e: "e = delta i + delta j" using up_unique [OF p(3)] by blast
  have not_root: "\<not> up (insts m) x p e" for x e using up_root_at p(1,2) j(2) by fastforce
  then have "s \<noteq> p" using q(1) by blast
  text \<open>Seen as two steps: \<open>p\<close> becomes the root of its tree, and then hangs below \<open>q\<close>.\<close>
  have A: "joined (insts m) ?hz r p (delta ?iz - delta i - delta j)"
    by (rule up_reroot [OF p(1) \<open>p \<noteq> 0\<close> p(2) j p(4)]) (use p(4) in simp_all)
  have qz: "up ?hz q s d" using A q unfolding joined_def by fastforce
  have hz: "?hz p = Some ?iz" "if_parent ?iz = 0" "if_parent ?i = q" using p(4) by simp_all
  have "insts ?m' p = Some ?i" "\<And>x. x \<noteq> p \<Longrightarrow> insts ?m' x = ?hz x" using p(4) by simp_all
  then have "joined ?hz (insts ?m') p s (delta ?i + d - delta ?iz)"
    by (rule up_graft [OF hz(1,2) qz \<open>s \<noteq> p\<close> hz(3)])
  from joined_trans [OF A this not_root] have "joined (insts m) (insts ?m') r s (micros D + d - e)"
    by (simp add: e algebra_simps)
  moreover have "merge_from q p r D m = Some ?m'" by (rule merge_from_child [OF p(1,2) j(1,3) p(4) \<open>p \<noteq> 0\<close> j(2)])
  moreover have "clocks_changed m ?m'"
  proof (rule clocks_changed_trans)
    show "clocks_changed m ?ma" using p(1) D by (intro clocks_changed_write) (simp_all add: same_inst_def)
    have "clocks_changed ?ma (?ma\<lparr>im_heap := heap_put r ?j (im_heap ?ma)\<rparr>)"
      by (rule clocks_changed_write [of _ _ j]) (use j p ok in \<open>simp_all add: same_inst_def\<close>)
    then show "clocks_changed ?ma ?m'" by simp
  qed
  ultimately show ?thesis by simp
qed

text \<open>After the two calls of \<open>interfacemgr_get_root\<close>.\<close>

lemma get_roots_result:
  assumes "ifmgr_ok m" "up (insts m) p1 r1 d1" "up (insts m) p2 r2 d2"
  shows "\<exists>m1 m2 i1 i2. interfacemgr_get_root p1 m = Some (r1, m1) \<and> interfacemgr_get_root p2 m1 = Some (r2, m2)
    \<and> clocks_changed m m2 \<and> im_number_of_timebase m2 = im_number_of_timebase m \<and> ifmgr_ok m2
    \<and> (\<forall>x y e. up (insts m) x y e \<longrightarrow> up (insts m2) x y e)
    \<and> (r1 \<noteq> r2 \<longrightarrow> insts m2 p1 = Some i1 \<and> if_parent i1 = (if p1 = r1 then 0 else r1))
    \<and> insts m2 p2 = Some i2 \<and> if_parent i2 = (if p2 = r2 then 0 else r2)"
proof -
  obtain m1 where m1: "interfacemgr_get_root p1 m = Some (r1, m1)" "clocks_changed m m1"
      "im_number_of_timebase m1 = im_number_of_timebase m" "\<And>x y e. up (insts m) x y e \<Longrightarrow> up (insts m1) x y e"
      "\<exists>i. insts m1 p1 = Some i \<and> if_parent i = (if p1 = r1 then 0 else r1)"
    using get_root_result [OF assms(1,2)] by (auto simp: wp_def)
  have ok1: "ifmgr_ok m1" by (rule same_trees_ok [OF assms(1) m1(2,3,4)])
  obtain m2 where m2: "interfacemgr_get_root p2 m1 = Some (r2, m2)" "clocks_changed m1 m2"
      "im_number_of_timebase m2 = im_number_of_timebase m1" "\<And>x y e. up (insts m1) x y e \<Longrightarrow> up (insts m2) x y e"
      "\<exists>i. insts m2 p2 = Some i \<and> if_parent i = (if p2 = r2 then 0 else r2)" "\<And>q. q \<noteq> p2 \<Longrightarrow> insts m2 q = insts m1 q"
    using get_root_result [OF ok1 m1(4) [OF assms(3)]] by (auto simp: wp_def)
  have "p1 \<noteq> p2" if "r1 \<noteq> r2" using that up_unique [OF assms(2)] assms(3) by blast
  then show ?thesis
    using m1 m2 same_trees_ok [OF ok1 m2(2,3,4)] clocks_changed_trans [OF m1(2) m2(2)] by metis
qed

lemma sync_time_result:
  assumes "ifmgr_ok m" "up (insts m) p1 r1 d1" "up (insts m) p2 r2 d2" "normalized t1" "normalized t2"
  shows "wp (interfacemgr_sync_time p1 t1 p2 t2 m) (\<lambda>m'. clocks_changed m m'
    \<and> (if r1 = r2
       then im_number_of_timebase m' = im_number_of_timebase m \<and> (\<forall>x y e. up (insts m) x y e \<longrightarrow> up (insts m') x y e)
       else im_number_of_timebase m' = im_number_of_timebase m - 1
         \<and> (joined (insts m) (insts m') r1 r2 (micros t2 + d2 - (micros t1 + d1))
          \<or> joined (insts m) (insts m') r2 r1 (micros t1 + d1 - (micros t2 + d2)))))"
proof -
  obtain m1 m2 i1 i2 where got: "interfacemgr_get_root p1 m = Some (r1, m1)" "interfacemgr_get_root p2 m1 = Some (r2, m2)"
      and m2: "clocks_changed m m2" "im_number_of_timebase m2 = im_number_of_timebase m" "ifmgr_ok m2"
      and up: "\<And>x y e. up (insts m) x y e \<Longrightarrow> up (insts m2) x y e"
      and i1: "r1 \<noteq> r2 \<Longrightarrow> insts m2 p1 = Some i1" "r1 \<noteq> r2 \<Longrightarrow> if_parent i1 = (if p1 = r1 then 0 else r1)"
      and i2: "insts m2 p2 = Some i2" "if_parent i2 = (if p2 = r2 then 0 else r2)"
    using get_roots_result [OF assms(1-3)] by (elim exE conjE) (rule that; blast)
  have u: "up (insts m2) p1 r1 d1" "up (insts m2) p2 r2 d2" using up assms(2,3) by blast+
  show ?thesis
  proof (cases "r1 = r2")
    case True
    then show ?thesis using got m2 up by (simp add: interfacemgr_sync_time_def)
  next
    case False
    let ?m = "m2\<lparr>im_number_of_timebase := im_number_of_timebase m2 - 1\<rparr>"
    have n: "normalized (timersub t1 t2)" "normalized (timersub t2 t1)" using assms(4,5) by simp_all
    have r: "r1 \<noteq> 0" "r2 \<noteq> 0" using up_root_at [OF u(1)] up_root_at [OF u(2)] by auto
    have "\<exists>m'. interfacemgr_sync_time p1 t1 p2 t2 m = Some m' \<and> clocks_changed ?m m' \<and> im_number_of_timebase m' = im_number_of_timebase ?m
      \<and> (joined (insts m2) (insts m') r1 r2 (micros t2 - micros t1 + d2 - d1)
       \<or> joined (insts m2) (insts m') r2 r1 (micros t1 - micros t2 + d1 - d2))"
    proof (cases "p1 = r1 \<or> p2 = r2")
      case True
      show ?thesis
      proof (cases "p1 = r1")
        case p1: True
        from graft_write [of ?m p1 i1 d1 p2 r2 d2, OF _ _ _ _ n(2)] u i1 False p1
        show ?thesis using got i2 by (simp add: interfacemgr_sync_time_def if_write_def if_read_def Let_def)
      next
        case p1: False
        then have p2: "p2 = r2" using True by simp
        from graft_write [of ?m p2 i2 d2 p1 r1 d1, OF _ _ _ _ n(1)] u i2 False p2
        show ?thesis using got i1 p1 r by (simp add: interfacemgr_sync_time_def if_write_def if_read_def Let_def)
      qed
    next
      case p: False
      have i2': "if_parent i2 = r2" "p2 \<noteq> r2" "if_parent i1 = r1" using p i2 i1(2) False by simp_all
      obtain m' where "merge_from p1 p2 r2 (timersub t1 t2) ?m = Some m'" "clocks_changed ?m m'"
          "joined (insts ?m) (insts m') r2 r1 (micros (timersub t1 t2) + d1 - d2)" "im_number_of_timebase m' = im_number_of_timebase ?m"
        using merge_result [of ?m p2 i2 r2 d2 p1 r1 d1 "timersub t1 t2"] ifmgr_okD(6) [OF m2(3)] i2 i2' u False n(1) by auto
      then show ?thesis
        using got i1 i2 i2' r False by (simp add: interfacemgr_sync_time_def if_read_def Let_def)
    qed
    then obtain m' where m': "interfacemgr_sync_time p1 t1 p2 t2 m = Some m'" "clocks_changed ?m m'"
        "im_number_of_timebase m' = im_number_of_timebase m2 - 1"
      and J: "joined (insts m2) (insts m') r1 r2 (micros t2 - micros t1 + d2 - d1)
       \<or> joined (insts m2) (insts m') r2 r1 (micros t1 - micros t2 + d1 - d2)"
      by auto
    have "joined (insts m2) (insts m') a b c \<Longrightarrow> joined (insts m) (insts m') a b c" for a b c
      unfolding joined_def using up by blast
    with J have "joined (insts m) (insts m') r1 r2 (micros t2 - micros t1 + d2 - d1)
       \<or> joined (insts m) (insts m') r2 r1 (micros t1 - micros t2 + d1 - d2)" by blast
    moreover have "clocks_changed m ?m" using m2(1) by simp
    then have "clocks_changed m m'" using m'(2) by (rule clocks_changed_trans)
    ultimately show ?thesis using False m'(1,3) m2(2) by (simp add: algebra_simps)
  qed
qed

lemma sync_time_ok:
  assumes "ifmgr_ok m" "up (insts m) p1 r1 d1" "up (insts m) p2 r2 d2" "normalized t1" "normalized t2"
  shows "wp (interfacemgr_sync_time p1 t1 p2 t2 m) (\<lambda>m'. ifmgr_ok m' \<and> clocks_changed m m')"
proof (rule wp_mono [OF sync_time_result [OF assms]], elim conjE, intro conjI)
  note ok = ifmgr_okD [OF assms(1)]
  fix m' assume c: "clocks_changed m m'"
    and R: "if r1 = r2 then im_number_of_timebase m' = im_number_of_timebase m \<and> (\<forall>x y e. up (insts m) x y e \<longrightarrow> up (insts m') x y e)
       else im_number_of_timebase m' = im_number_of_timebase m - 1
         \<and> (joined (insts m) (insts m') r1 r2 (micros t2 + d2 - (micros t1 + d1))
          \<or> joined (insts m) (insts m') r2 r1 (micros t1 + d1 - (micros t2 + d2)))"
  show "ifmgr_ok m'"
  proof (cases "r1 = r2")
    case True
    then show ?thesis using R same_trees_ok [OF assms(1) c] by simp
  next
    case False
    have r: "r1 \<in> roots (insts m)" "r2 \<in> roots (insts m)"
      using up_root_at [OF assms(2)] up_root_at [OF assms(3)] by (auto simp: roots_def)
    have "0 \<notin> dom (insts m)" using ok(8) by blast
    note J = joined_roots [OF ok(4) _ _ _ _ clocks_changed_dom [OF c] this]
    have "\<exists>a. a \<in> roots (insts m) \<and> roots (insts m') = roots (insts m) - {a} \<and> forest (insts m')"
      using R False r J [of r1 r2] J [of r2 r1] by metis
    then obtain a where a: "a \<in> roots (insts m)" "roots (insts m') = roots (insts m) - {a}" "forest (insts m')" by blast
    have "im_number_of_timebase m' = of_nat (card (roots (insts m')))"
      using card_roots_step [OF ok(9) a(1) ok(5)] R False a(2) by simp
    then show ?thesis using clocks_changed_ok [OF assms(1) c a(3)] by simp
  qed
qed assumption

end
