(* ===== verification/Tool.thy ===== *)
theory Tool
  imports Sniffer
begin

section \<open>The tool\<close>

text \<open>
  The tool from the outside: the elements of the XML that tshark writes (\<open>parse_xml_start_element\<close> and
  \<open>parse_xml_end_element\<close> of \<open>src/src/sniffer_packet_parser.c\<close>), captured packets, the clock, and the calls
  of the user interface, in any order. \<open>tool_ok\<close> is the invariant between two of them. Whatever the XML
  says, an operation whose guard holds does not fail and keeps the invariant.
\<close>

datatype tool_op =
    xml_start string "(string \<times> string) list"
  | xml_end string
  | at_time u64
  | captured "u8 list" timeval
  | start_capture bool
  | stop_capture
  | pause_parser bool
  | user_op analyzer_op

definition on_world :: "(world \<Rightarrow> world option) \<Rightarrow> sniffer \<Rightarrow> sniffer option" where
  "on_world f s = map_option (\<lambda>w. s\<lparr>sn_parsing := (sn_parsing s)\<lparr>ps_world := w\<rparr>\<rparr>) (f (ps_world (sn_parsing s)))"

fun tool_step :: "tool_op \<Rightarrow> sniffer \<Rightarrow> sniffer option" where
  "tool_step (xml_start el attr) s = parse_xml_start_element el attr s"
| "tool_step (xml_end el) s = parse_xml_end_element el s"
| "tool_step (at_time t) s = on_world (\<lambda>w. Some (w\<lparr>w_time := t\<rparr>)) s"
| "tool_step (captured data timestamp) s = sniffer_parser_parse_data data timestamp s"
| "tool_step (start_capture spawned) s = rpl_tool_start_capture spawned s"
| "tool_step stop_capture s = Some (rpl_tool_stop_capture s)"
| "tool_step (pause_parser pause) s = Some (sniffer_parser_pause_parser pause s)"
| "tool_step (user_op op) s = on_world (analyzer_step op) s"

text \<open>
  The guards of the operations: what has to hold for the call to be safe. A packet can be captured once the stream to
  tshark is open, a capture can be started when none is running and tshark starts, the data can be
  cleared when no event is pending, and there are at most 2^31 network versions.
\<close>

fun tool_allowed :: "tool_op \<Rightarrow> sniffer \<Rightarrow> bool" where
  "tool_allowed (xml_end el) s \<longleftrightarrow> el = ''packet'' \<longrightarrow> unat (w_wsn_last_version (ps_world (sn_parsing s))) + 1 < 2 ^ 31"
| "tool_allowed (captured data timestamp) s \<longleftrightarrow> sn_pdumper s"
| "tool_allowed (start_capture spawned) s \<longleftrightarrow> \<not> sn_pdumper_out s \<and> spawned"
| "tool_allowed (user_op (op_packet time packet_id pkt_info packet)) s \<longleftrightarrow> False"
| "tool_allowed (user_op op_clear) s \<longleftrightarrow> w_head (ps_world (sn_parsing s)) = []"
| "tool_allowed _ s \<longleftrightarrow> True"

subsection \<open>The invariant\<close>

definition tool_ok :: "libc \<Rightarrow> sniffer \<Rightarrow> bool" where
  "tool_ok lib s \<longleftrightarrow> sn_parsers s = [rpl_parser lib] \<and> settled (ps_world (sn_parsing s)) \<and> hash_ok (sn_last_packets s)"

abbreviation versions_made :: "sniffer \<Rightarrow> nat" where
  "versions_made s \<equiv> unat (w_wsn_last_version (ps_world (sn_parsing s)))"

lemma parse_xml_start_element_ok:
  assumes "tool_ok lib s"
  shows "wp (parse_xml_start_element el attr s) (tool_ok lib)"
  using assms
  by (auto simp: parse_xml_start_element_def tool_ok_def parser_begin_packet_def parser_parse_field_def rpl_parser_def Let_def
      split: option.splits)

lemma rpl_parser_end_packet_settled:
  assumes "settled w" "unat (w_wsn_last_version w) + 1 < 2 ^ 31"
  shows "wp (rpl_parser_end_packet c w) settled"
  unfolding rpl_parser_end_packet_analyzes
  using assms(1) by (auto intro!: wp_mono [OF analyze_packet_settled [OF assms]])

lemma parse_xml_end_element_ok:
  assumes "tool_ok lib s" "el = ''packet'' \<Longrightarrow> versions_made s + 1 < 2 ^ 31"
  shows "wp (parse_xml_end_element el s) (tool_ok lib)"
proof (cases "el = ''packet''")
  case True
  have "settled (ps_world (sn_parsing s))" using assms(1) by (simp add: tool_ok_def)
  from rpl_parser_end_packet_settled [OF this assms(2) [OF True], of "ps_current (sn_parsing s)"] show ?thesis
    using True assms(1)
    by (auto simp: parse_xml_end_element_def parser_end_packet_def tool_ok_def rpl_parser_def elim: wp_mono)
next
  case False
  then show ?thesis using assms(1) by (simp add: parse_xml_end_element_def tool_ok_def)
qed

lemma sniffer_parser_parse_data_ok:
  assumes "tool_ok lib s" "sn_pdumper s"
  shows "wp (sniffer_parser_parse_data data timestamp s) (tool_ok lib)"
proof -
  have "hash_ok (sn_last_packets s)" using assms(1) by (simp add: tool_ok_def)
  from check_duplicate_packet_step [OF this, of data] show ?thesis
    using assms by (auto simp: sniffer_parser_parse_data_def tool_ok_def pcap_dump_def Let_def)
qed

lemma hash_clear_ok: "hash_ok c \<Longrightarrow> hash_ok (hash_clear c)"
proof -
  assume c: "hash_ok c"
  have "hash_ok (fold (\<lambda>e c. hash_unlink (el_id e) c) es c)" for es
    using c by (induction es arbitrary: c) (simp_all add: hash_unlink_ok)
  then show ?thesis by (simp add: hash_clear_def)
qed

lemma rpl_tool_start_capture_ok:
  assumes "tool_ok lib s" "\<not> sn_pdumper_out s"
  shows "wp (rpl_tool_start_capture True s) (\<lambda>s'. tool_ok lib s' \<and> sn_pdumper s' \<and> sn_pdumper_out s')"
  using assms
  by (simp add: rpl_tool_start_capture_def sniffer_parser_reset_def tshark_parser_reset_def sniffer_parser_create_out_def
      sniffer_parser_close_out_def pcap_dump_open_def tool_ok_def hash_clear_ok Let_def)

lemma user_op_settled:
  assumes "settled w" "op = op_clear \<Longrightarrow> w_head w = []" "\<And>time packet_id pkt_info packet. op \<noteq> op_packet time packet_id pkt_info packet"
  shows "wp (analyzer_step op w) settled"
proof (cases op)
  case (op_packet time packet_id pkt_info packet)
  then show ?thesis using assms(3) by simp
next
  case op_clear_errors
  then show ?thesis using nodes_clear_all_errors_st [OF assms(1)] by (auto elim!: wp_mono)
next
  case op_clear_deprecated
  then show ?thesis using links_clear_all_deprecated_result [OF assms(1)] by (auto elim!: wp_mono)
next
  case op_clear
  then show ?thesis using rpldata_clear_settled [OF assms(1) assms(2)] by (auto elim!: wp_mono)
next
  case (op_config config)
  have "settled (w\<lparr>w_config := config\<rparr>)" by (rule settled_same [OF assms(1)]) (simp add: same_data_def)
  then show ?thesis using op_config by simp
next
  case (op_callbacks callbacks)
  have "settled (rpl_event_set_callbacks callbacks w)"
    by (rule settled_same [OF assms(1)]) (simp add: same_data_def rpl_event_set_callbacks_def)
  then show ?thesis using op_callbacks by simp
qed

lemma on_world_ok:
  assumes "tool_ok lib s" "wp (f (ps_world (sn_parsing s))) settled"
  shows "wp (on_world f s) (tool_ok lib)"
  using assms by (auto simp: on_world_def tool_ok_def elim!: wp_mono)

subsection \<open>Every allowed operation succeeds and keeps the invariant\<close>

lemma tool_step_ok:
  assumes "tool_ok lib s" "tool_allowed op s"
  shows "wp (tool_step op s) (tool_ok lib)"
proof (cases op)
  case (xml_start el attr)
  then show ?thesis using parse_xml_start_element_ok [OF assms(1)] by simp
next
  case (xml_end el)
  then have "el = ''packet'' \<Longrightarrow> versions_made s + 1 < 2 ^ 31" using assms(2) by simp
  from parse_xml_end_element_ok [OF assms(1) this] show ?thesis using xml_end by simp
next
  case (at_time t)
  have "settled (ps_world (sn_parsing s))" using assms(1) by (simp add: tool_ok_def)
  then have "settled ((ps_world (sn_parsing s))\<lparr>w_time := t\<rparr>)" by (rule settled_same) (simp add: same_data_def)
  then show ?thesis using at_time on_world_ok [OF assms(1)] by simp
next
  case (captured data ts)
  then show ?thesis using sniffer_parser_parse_data_ok [OF assms(1)] assms(2) by simp
next
  case (start_capture spawned)
  then show ?thesis using rpl_tool_start_capture_ok [OF assms(1)] assms(2) by (auto elim!: wp_mono)
next
  case stop_capture
  then show ?thesis using assms(1) by (simp add: rpl_tool_stop_capture_def sniffer_parser_close_out_def tool_ok_def)
next
  case (pause_parser pause)
  then show ?thesis using assms(1) by (simp add: sniffer_parser_pause_parser_def tool_ok_def)
next
  case (user_op aop)
  have "settled (ps_world (sn_parsing s))" using assms(1) by (simp add: tool_ok_def)
  then have "wp (analyzer_step aop (ps_world (sn_parsing s))) settled"
    by (rule user_op_settled) (use assms(2) user_op in auto)
  then show ?thesis using user_op on_world_ok [OF assms(1)] by simp
qed

text \<open>The state of the globals before \<open>rpl_tool_init\<close>, and after \<open>rpl_tool_init\<close> and \<open>rpl_tool_start\<close>.\<close>

definition zero_sniffer :: "world \<Rightarrow> sniffer" where
  "zero_sniffer w =
     \<lparr>sn_parsing = \<lparr>ps_current = rpl_parser_begin_packet, ps_world = w, ps_metrics = []\<rparr>, sn_parsers = [],
      sn_packet_count = 0, sn_packet_input_count = 0, sn_embedded_proto = 0,
      sn_last_packets = hash_create (\<lambda>_. \<lparr>pd_data = [], pd_len = 0\<rparr>), sn_xml_parser_state = XPS_Run,
      sn_pdumper = False, sn_pd_out = False, sn_pdumper_out = False, sn_tshark = [], sn_outpcap = []\<rparr>"

definition tool_started :: "libc \<Rightarrow> (real \<Rightarrow> real) \<Rightarrow> sniffer" where
  "tool_started lib fl = rpl_tool_start lib (zero_sniffer (rpl_tool_init fl))"

lemma tool_started_ok:
  "tool_ok lib (tool_started lib fl)" "versions_made (tool_started lib fl) = 0"
  "\<not> sn_pdumper_out (tool_started lib fl)" "ps_world (sn_parsing (tool_started lib fl)) = rpl_tool_init fl"
  using rpl_tool_init_settled [of fl]
  by (simp_all add: tool_started_def rpl_tool_start_def sniffer_parser_init_def zero_sniffer_def parser_register_all_def
      rpl_parser_register_def parser_add_def tool_ok_def)

subsection \<open>The properties\<close>

text \<open>
  Once a capture has been started, starting one again without stopping it first fails: the reset opens the output file on a
  \<open>pcap_t\<close> that it has just closed. After \<open>rpl_tool_stop_capture\<close> a capture can be started again.
\<close>

theorem start_capture_twice_fails:
  assumes "tool_ok lib s" "\<not> sn_pdumper_out s"
  shows "\<exists>s'. rpl_tool_start_capture True s = Some s' \<and> tool_ok lib s' \<and> rpl_tool_start_capture spawned s' = None
    \<and> rpl_tool_start_capture True (rpl_tool_stop_capture s') \<noteq> None"
proof -
  obtain s' where s': "rpl_tool_start_capture True s = Some s'" "tool_ok lib s'" "sn_pdumper_out s'"
    using rpl_tool_start_capture_ok [OF assms] by (auto simp: wp_def)
  then have "tool_ok lib (rpl_tool_stop_capture s')" "\<not> sn_pdumper_out (rpl_tool_stop_capture s')"
    by (simp_all add: rpl_tool_stop_capture_def sniffer_parser_close_out_def tool_ok_def)
  from wp_not_None [OF rpl_tool_start_capture_ok [OF this]] s' show ?thesis
    by (simp add: rpl_tool_start_capture_def sniffer_parser_reset_def tshark_parser_reset_def pcap_dump_open_def Let_def)
qed

theorem start_capture_twice_fails_witness:
  "\<exists>s'. rpl_tool_start_capture True (tool_started sample_libc (\<lambda>x. x)) = Some s'
    \<and> rpl_tool_start_capture True s' = None"
  using start_capture_twice_fails [OF tool_started_ok(1,3)] by blast

end
