(* ===== verification/Capture.thy ===== *)
theory Capture
  imports Clocks Tool
begin

section \<open>Capturing from several sniffers\<close>

text \<open>
  The operations of \<open>src/src/interface_reader/interfaces_mgr.c\<close> that are not about clocks only, and the system that
  they make with the tool: instances of sniffers come and go, receive packets, are synchronised,
  and hand the packets that are new to \<open>sniffer_parser_parse_data\<close>. \<open>reachable\<close> are its states, and the invariant
  is proved by rule induction over them.
\<close>

subsection \<open>Packets\<close>

lemma check_last_packets_step:
  assumes "hash_ok c"
  shows "\<exists>c'. check_last_packets (data, t) c = Some (sha1_buffer False data \<in> set (window_keys c), c') \<and> hash_ok c'
    \<and> window_keys c' = window_step LAST_PACKET_NUMBER (sha1_buffer False data) (window_keys c)"
proof -
  obtain c1 where "forget_packet (sha1_buffer False data) c = Some (sha1_buffer False data \<in> set (window_keys c), c1)"
      "hash_ok c1" "sha1_buffer False data \<notin> set (window_keys c1)"
      "window_keys c1 @ [sha1_buffer False data] = window_step LAST_PACKET_NUMBER (sha1_buffer False data) (window_keys c)"
    using forget_packet_step [OF assms] by blast
  then show ?thesis by (simp add: check_last_packets_def remember_packet_step Let_def)
qed

interpretation interface_window: recent_window check_last_packets "\<lambda>(data, timestamp). sha1_buffer False data"
    window_keys hash_ok LAST_PACKET_NUMBER
proof
  fix c :: "(u8 list, if_packet_data) hash_container" and x :: "u8 list \<times> timeval"
  assume "hash_ok c"
  from check_last_packets_step [OF this, of "fst x" "snd x"]
  show "\<exists>s'. check_last_packets x c = Some ((case x of (data, timestamp) \<Rightarrow> sha1_buffer False data) \<in> set (window_keys c), s')
      \<and> hash_ok s' \<and> window_keys s' = window_step LAST_PACKET_NUMBER (case x of (data, timestamp) \<Rightarrow> sha1_buffer False data) (window_keys c)"
    by (auto simp: case_prod_beta)
qed (simp add: LAST_PACKET_NUMBER_def)

text \<open>What the window keeps of the packets before.\<close>

lemma forget_packet_items:
  assumes "hash_ok c" "forget_packet k c = Some (dup, c')"
  shows "set (hash_items c') \<subseteq> set (hash_items c)"
proof (cases "k \<in> set (window_keys c)")
  case True
  from hash_find_there [OF assms(1) True] assms(2) show ?thesis by (auto simp: forget_packet_def)
next
  case False
  note f = hash_find_not_there [OF assms(1) False]
  show ?thesis
  proof (cases "hash_size c \<ge> LAST_PACKET_NUMBER")
    case True
    then have ne: "hash_items c \<noteq> []" by (auto simp: hash_size_items LAST_PACKET_NUMBER_def)
    from hash_begin_delete [OF assms(1) ne] True f assms(2) list.set_sel(2) [OF ne] show ?thesis
      by (auto simp: forget_packet_def)
  next
    case large: False
    then show ?thesis using f assms(2) by (simp add: forget_packet_def)
  qed
qed

lemma check_last_packets_window:
  assumes "window_ok c" "normalized t" "check_last_packets (data, t) c = Some (dup, c')"
  shows "window_ok c'"
proof -
  let ?k = "sha1_buffer False data"
  have c: "hash_ok c" using assms(1) by (simp add: window_ok_def)
  from forget_packet_step [OF c, of ?k] obtain c1 where c1: "forget_packet ?k c = Some (?k \<in> set (window_keys c), c1)"
      "hash_ok c1" "?k \<notin> set (window_keys c1)" by blast
  have n: "\<forall>e \<in> set (hash_items c1). normalized (ip_timestamp (snd e))"
    using forget_packet_items [OF c c1(1)] assms(1) by (auto simp: window_ok_def)
  have "c' = remember_packet ?k \<lparr>ip_timestamp = t, ip_data = data, ip_len = length data\<rparr> c1"
    using assms(3) c1(1) by (simp add: check_last_packets_def Let_def)
  then show ?thesis using remember_packet_step [OF c1(2,3)] n assms(2) by (simp add: window_ok_def)
qed

text \<open>An operation of one instance that changes neither its parent nor its offset.\<close>

lemma write_ok:
  assumes "ifmgr_ok m" "insts m p = Some i" "if_parent i' = if_parent i" "normalized (if_delta_to_parent i')"
    "window_ok (if_last_packets i')"
  shows "ifmgr_ok (m\<lparr>im_heap := heap_put p i' (im_heap m)\<rparr>)"
proof -
  note ok = ifmgr_okD [OF assms(1)]
  let ?h = "(insts m)(p \<mapsto> i')"
  have parents: "map_option if_parent (?h q) = map_option if_parent (insts m q)" for q using assms(2,3) by simp
  have up: "up (insts m) x y e \<Longrightarrow> \<exists>e. up ?h x y e" for x y e
  proof (induction rule: up.induct)
    case (up_root x k)
    then obtain k' where "?h x = Some k'" "if_parent k' = 0" using parents [of x] by (cases "?h x") auto
    then show ?case using up.up_root [of ?h x k'] up_root(2) by blast
  next
    case (up_step x k y e)
    then obtain k' where "?h x = Some k'" "if_parent k' = if_parent k" using parents [of x] by (cases "?h x") auto
    then show ?case using up.up_step [of ?h x k'] up_step by metis
  qed
  have "forest ?h"
    unfolding forest_def
  proof (intro allI impI)
    fix q k assume "?h q = Some k"
    then obtain k' where "insts m q = Some k'" using assms(2) by (cases "q = p") auto
    then show "\<exists>r d. up ?h q r d" using ok(4) up unfolding forest_def by blast
  qed
  moreover have "roots ?h = roots (insts m)" using assms(2,3) by (auto simp: roots_def)
  moreover have "heap_ok (heap_put p i' (im_heap m))" using ok(1) assms(2) by (intro heap_ok_put) simp_all
  ultimately show ?thesis
    using ok(2,3,5) ok(6,7) assms(2,4,5) by (auto simp: ifmgr_ok_def split: if_splits)
qed

text \<open>The packet is in the window of the instance \<open>q\<close>.\<close>

definition seen_by :: "ifmgr \<Rightarrow> u8 list \<Rightarrow> nat \<Rightarrow> bool" where
  "seen_by m data q \<longleftrightarrow> (\<exists>i. insts m q = Some i \<and> sha1_buffer False data \<in> set (window_keys (if_last_packets i)))"

lemma get_old_packet_result:
  assumes "ifmgr_ok m" "p \<in> set (im_handles m)"
  shows "wp (interfacemgr_get_old_packet p data m) (\<lambda>old. (old \<noteq> None \<longleftrightarrow> seen_by m data p)
    \<and> (\<forall>pkt. old = Some pkt \<longrightarrow> normalized (ip_timestamp pkt)))"
proof -
  let ?k = "sha1_buffer False data"
  obtain i where i: "insts m p = Some i" using assms ifmgr_okD(3) [OF assms(1)] by blast
  then have w: "hash_ok (if_last_packets i)" "\<forall>e \<in> set (hash_items (if_last_packets i)). normalized (ip_timestamp (snd e))"
    using ifmgr_okD(7) [OF assms(1)] by (auto simp: window_ok_def)
  show ?thesis
  proof (cases "?k \<in> set (window_keys (if_last_packets i))")
    case True
    then have "hash_find_el (if_last_packets i) ?k \<noteq> None"
      using w(1) by (auto simp: hash_find_el_None dom_hash_map [symmetric] image_iff domIff [symmetric])
    then obtain e where e: "hash_find_el (if_last_packets i) ?k = Some e" by blast
    then have e': "e \<in> set (hc_els (if_last_packets i))" by (auto dest: hash_find_el_Some)
    then have "(el_key e, el_data e) \<in> set (hash_items (if_last_packets i))" by (auto simp: hash_items_def)
    then have "normalized (ip_timestamp (el_data e))" using w(2) by fastforce
    then show ?thesis
      using True i e hash_it_value_at [OF w(1) e'] by (auto simp: seen_by_def interfacemgr_get_old_packet_def if_read_def hash_find_def)
  next
    case False
    then show ?thesis
      using False i hash_find_not_there [OF w(1) False] by (auto simp: seen_by_def interfacemgr_get_old_packet_def if_read_def)
  qed
qed

lemma handle_tree:
  assumes "ifmgr_ok m" "p \<in> set (im_handles m)"
  shows "\<exists>i r d. insts m p = Some i \<and> up (insts m) p r d"
proof -
  obtain i where "insts m p = Some i" using assms ifmgr_okD(3) [OF assms(1)] by blast
  then show ?thesis using ifmgr_okD(4) [OF assms(1)] unfolding forest_def by blast
qed

lemma check_multisniffer_result:
  assumes "ifmgr_ok m" "p \<in> set (im_handles m)" "q \<in> set (im_handles m)" "normalized t"
  shows "wp (interfacemgr_check_multisniffer_packet p q data t m) (\<lambda>(r, m'). ifmgr_ok m' \<and> clocks_changed m m'
    \<and> (r \<longleftrightarrow> seen_by m data q) \<and> (\<not> r \<longrightarrow> m' = m))"
proof -
  obtain r1 d1 r2 d2 where u: "up (insts m) p r1 d1" "up (insts m) q r2 d2"
    using handle_tree [OF assms(1,2)] handle_tree [OF assms(1,3)] by blast
  have sync: "wp (interfacemgr_sync_time p t q (ip_timestamp pkt) m) (\<lambda>m'. ifmgr_ok m' \<and> clocks_changed m m')"
    if "normalized (ip_timestamp pkt)" for pkt
    by (rule sync_time_ok [OF assms(1) u assms(4) that])
  obtain old where old: "interfacemgr_get_old_packet q data m = Some old" "old \<noteq> None \<longleftrightarrow> seen_by m data q"
      "\<forall>pkt. old = Some pkt \<longrightarrow> normalized (ip_timestamp pkt)"
    using get_old_packet_result [OF assms(1,3), of data] by (auto simp: wp_def)
  show ?thesis
  proof (cases old)
    case None
    then show ?thesis using old assms(1) by (simp add: interfacemgr_check_multisniffer_packet_def)
  next
    case (Some pkt)
    then show ?thesis
      using old sync [of pkt] by (auto simp: interfacemgr_check_multisniffer_packet_def elim!: wp_mono)
  qed
qed

text \<open>The loop over the other instances.\<close>

lemma seen_by_changed: "clocks_changed m m' \<Longrightarrow> seen_by m' data q \<longleftrightarrow> seen_by m data q"
  by (fastforce simp: seen_by_def same_inst_def dest: clocks_changed_there clocks_changed_back)

lemma check_other_handles:
  assumes "ifmgr_ok m" "p \<in> set (im_handles m)" "normalized t" "set qs \<subseteq> set (im_handles m)"
  shows "wp (each (check_other_handle p data t) qs (b, m)) (\<lambda>(b', m'). ifmgr_ok m' \<and> clocks_changed m m'
    \<and> (b' \<longleftrightarrow> b \<or> (\<exists>q\<in>set qs. q \<noteq> p \<and> seen_by m data q)) \<and> (\<not> b' \<longrightarrow> m' = m))"
  using assms
proof (induction qs arbitrary: b m)
  case Nil
  then show ?case by simp
next
  case (Cons q qs)
  have step: "wp (check_other_handle p data t q (b, m)) (\<lambda>(b', m'). ifmgr_ok m' \<and> clocks_changed m m'
      \<and> (b' \<longleftrightarrow> b \<or> q \<noteq> p \<and> seen_by m data q) \<and> (\<not> b' \<longrightarrow> m' = m))"
    using check_multisniffer_result [OF Cons.prems(1,2) _ Cons.prems(3), of q data] Cons.prems(1,4)
    by (auto simp: check_other_handle_def elim!: wp_mono)
  have rest: "wp (each (check_other_handle p data t) qs (b', m')) (\<lambda>(b'', m''). ifmgr_ok m'' \<and> clocks_changed m m''
      \<and> (b'' \<longleftrightarrow> b \<or> (\<exists>q\<in>set (q # qs). q \<noteq> p \<and> seen_by m data q)) \<and> (\<not> b'' \<longrightarrow> m'' = m))"
    if m': "ifmgr_ok m'" "clocks_changed m m'" "b' \<longleftrightarrow> b \<or> q \<noteq> p \<and> seen_by m data q" "\<not> b' \<longrightarrow> m' = m" for b' m'
  proof (rule wp_mono [OF Cons.IH [OF m'(1) _ Cons.prems(3)]])
    show "p \<in> set (im_handles m')" "set qs \<subseteq> set (im_handles m')"
      using m'(2) Cons.prems(2,4) by (auto simp: clocks_changed_def)
  qed (use m' clocks_changed_trans [OF m'(2)] seen_by_changed [OF m'(2)] in auto)
  show ?case by (simp, rule wp_mono [OF step]) (use rest in auto)
qed

text \<open>The absolute time of an instance.\<close>

lemma absolute_result:
  assumes "ifmgr_ok m" "up (insts m) p r d" "normalized t"
  shows "\<exists>ta. interfacemgr_get_absolute_timestamp p t m = Some ta \<and> normalized ta \<and> micros ta = micros t + d"
proof -
  obtain ta where ta: "absolute_from m p t = Some ta" "micros ta = micros t + d" using absolute_from_up [OF assms(2)] by blast
  moreover have "normalized ta" by (rule absolute_from_normalized [OF assms(2) ta(1) assms(3)]) (rule ifmgr_okD(6) [OF assms(1)])
  ultimately show ?thesis by (simp add: interfacemgr_get_absolute_timestamp_def)
qed

lemma check_duplicate_result:
  assumes "ifmgr_ok m" "insts m p = Some i" "normalized t"
  shows "\<exists>c. interfacemgr_check_duplicate_packet p data t m =
      Some (seen_by m data p, m\<lparr>im_heap := heap_put p (i\<lparr>if_last_packets := c\<rparr>) (im_heap m)\<rparr>) \<and> window_ok c"
proof -
  have w: "window_ok (if_last_packets i)" by (rule ifmgr_okD(7) [OF assms(1,2)])
  then have "hash_ok (if_last_packets i)" by (simp add: window_ok_def)
  from check_last_packets_step [OF this, of data t] obtain c
    where c: "check_last_packets (data, t) (if_last_packets i) = Some (seen_by m data p, c)"
    using assms(2) by (auto simp: seen_by_def)
  from check_last_packets_window [OF w assms(3) c] c show ?thesis
    using assms(2) by (intro exI [of _ c]) (simp add: interfacemgr_check_duplicate_packet_def if_read_def if_write_def)
qed

definition ignored :: "u8 list \<Rightarrow> ifmgr \<Rightarrow> bool" where
  "ignored data m \<longleftrightarrow> data = [] \<or> hd data AND 0x03 \<noteq> 1 \<or> (\<exists>q\<in>set (im_handles m). seen_by m data q)"

lemma process_packet_result:
  assumes ok: "ifmgr_ok m" and p: "p \<in> set (im_handles m)" and t: "normalized t"
  shows "\<exists>m' ta. ifmgr_ok m' \<and> im_handles m' = im_handles m \<and> interfacemgr_get_absolute_timestamp p t m' = Some ta \<and> normalized ta
    \<and> interfacemgr_process_packet p data t (m, s) =
        (if ignored data m then Some (m', s) else map_option (Pair m') (sniffer_parser_parse_data data ta s))
    \<and> (\<forall>i. \<not> ignored data m \<longrightarrow> insts m p = Some i \<longrightarrow> if_first_packet i \<longrightarrow> if_parent i = 0 \<longrightarrow> ta = timerzero)"
proof -
  obtain i r d where i: "insts m p = Some i" and u: "up (insts m) p r d" using handle_tree [OF ok p] by blast
  obtain c where c: "interfacemgr_check_duplicate_packet p data t m =
      Some (seen_by m data p, m\<lparr>im_heap := heap_put p (i\<lparr>if_last_packets := c\<rparr>) (im_heap m)\<rparr>)" "window_ok c"
    using check_duplicate_result [OF ok i t] by blast
  define m1 where "m1 = m\<lparr>im_heap := heap_put p (i\<lparr>if_last_packets := c\<rparr>) (im_heap m)\<rparr>"
  have ok1: "ifmgr_ok m1" unfolding m1_def using c(2) ifmgr_okD(6) [OF ok i] by (intro write_ok [OF ok i]) simp_all
  define new where "new \<longleftrightarrow> if_first_packet i \<and> if_parent i = 0"
  define i2 where "i2 = (if new then i\<lparr>if_last_packets := c, if_delta_to_parent := timersub timerzero t, if_first_packet := False\<rparr>
    else i\<lparr>if_last_packets := c\<rparr>)"
  define m2 where "m2 = (if new then m1\<lparr>im_heap := heap_put p i2 (im_heap m1)\<rparr> else m1)"
  have ok2: "ifmgr_ok m2"
    unfolding m2_def using c(2) ifmgr_okD(6) [OF ok i] t ok1
    by (simp, intro impI write_ok [OF ok1, of p "i\<lparr>if_last_packets := c\<rparr>"]) (simp_all add: m1_def i2_def)
  have h2: "im_handles m2 = im_handles m" "insts m2 p = Some i2" "\<And>q. q \<noteq> p \<Longrightarrow> seen_by m2 data q \<longleftrightarrow> seen_by m data q"
    by (simp_all add: m2_def m1_def i2_def seen_by_def)
  have step: "(if if_first_packet i \<and> if_parent i = 0
      then if_write p (\<lambda>i. i\<lparr>if_delta_to_parent := timersub timerzero t, if_first_packet := False\<rparr>) m1 else Some m1) = Some m2"
    by (simp add: if_write_def if_read_def m2_def m1_def i2_def new_def)
  have read: "if_read p m1 = Some (i\<lparr>if_last_packets := c\<rparr>)" by (simp add: if_read_def m1_def)
  show ?thesis
  proof (cases "data = [] \<or> hd data AND 0x03 \<noteq> 1")
    case True
    then show ?thesis
      using ok absolute_result [OF ok u t] by (auto simp: interfacemgr_process_packet_def ignored_def)
  next
    case wanted: False
    show ?thesis
    proof (cases "seen_by m data p")
      case True
      obtain r d where "up (insts m1) p r d" using handle_tree [OF ok1, of p] p by (auto simp: m1_def)
      then obtain ta where "interfacemgr_get_absolute_timestamp p t m1 = Some ta" "normalized ta"
        using absolute_result [OF ok1 _ t] by blast
      moreover have "ignored data m" using True p by (auto simp: ignored_def)
      moreover have "interfacemgr_process_packet p data t (m, s) = Some (m1, s)"
        using wanted c(1) True by (simp add: interfacemgr_process_packet_def m1_def)
      ultimately show ?thesis using ok1 by (intro exI [of _ m1] exI [of _ ta]) (simp add: m1_def)
    next
      case False
      obtain b m3 where m3: "each (check_other_handle p data t) (im_handles m) (False, m2) = Some (b, m3)"
          "ifmgr_ok m3" "clocks_changed m2 m3" "b \<longleftrightarrow> (\<exists>q\<in>set (im_handles m). q \<noteq> p \<and> seen_by m2 data q)" "\<not> b \<longrightarrow> m3 = m2"
        using check_other_handles [OF ok2 _ t, of p "im_handles m" data False] p h2(1) by (auto simp: wp_def)
      have dup: "interfacemgr_check_duplicate_packet p data t m = Some (False, m1)" using c(1) False by (simp add: m1_def)
      have b: "b \<longleftrightarrow> (\<exists>q\<in>set (im_handles m). seen_by m data q)" using m3(4) h2(3) False by metis
      have h3: "im_handles m3 = im_handles m" using m3(3) h2(1) by (simp add: clocks_changed_def)
      then obtain r d where u3: "up (insts m3) p r d" using handle_tree [OF m3(2), of p] p by auto
      obtain ta where ta: "interfacemgr_get_absolute_timestamp p t m3 = Some ta" "normalized ta" "micros ta = micros t + d"
        using absolute_result [OF m3(2) u3 t] by blast
      have first: "ta = timerzero" if "\<not> ignored data m" "if_first_packet i" "if_parent i = 0"
      proof -
        have "m3 = m2" using that(1) b m3(5) by (auto simp: ignored_def)
        then have "d = micros (timersub timerzero t)"
          using u3 up_self [of "insts m2" p i2 r d] h2(2) that(2,3) ifmgr_okD(8) [OF ok i] by (simp add: i2_def new_def)
        then show ?thesis using micros_eq [OF ta(2), of timerzero] ta(3) by simp
      qed
      have "interfacemgr_process_packet p data t (m, s) =
          (if b then Some (m3, s) else map_option (Pair m3) (sniffer_parser_parse_data data ta s))"
        using wanted m3(1) ta(1) h2(1)
        by (cases "sniffer_parser_parse_data data ta s")
          (simp_all add: interfacemgr_process_packet_def dup read step cong: if_cong)
      moreover have "b \<longleftrightarrow> ignored data m" using b wanted by (auto simp: ignored_def)
      ultimately show ?thesis using m3(2) h3 ta(1,2) first i by auto
    qed
  qed
qed

subsection \<open>Instances that come and go\<close>

lemma up_other:
  assumes "\<And>x. x \<noteq> p \<Longrightarrow> h' x = h x" "\<And>x k. h x = Some k \<Longrightarrow> x \<noteq> p \<Longrightarrow> if_parent k \<noteq> p"
  shows "up h x y e \<Longrightarrow> x \<noteq> p \<Longrightarrow> up h' x y e"
proof (induction rule: up.induct)
  case (up_root x k)
  then show ?case using assms(1) by (intro up.up_root) auto
next
  case (up_step x k y e)
  then show ?case using assms by (intro up.up_step) auto
qed

lemma create_handle_ok:
  assumes "ifmgr_ok m"
  shows "ifmgr_ok (snd (interfacemgr_create_handle target m))"
proof -
  note ok = ifmgr_okD [OF assms]
  define p where "p = hp_next (im_heap m)"
  define i where "i = \<lparr>if_target = target, if_delta_to_parent = timerzero, if_parent = 0,
    if_last_packets = hash_create (\<lambda>_. \<lparr>ip_timestamp = timerzero, ip_data = [], ip_len = 0\<rparr>),
    if_first_packet = True, if_ethernet = False, if_fcs = True\<rparr>"
  define m' where "m' = snd (interfacemgr_create_handle target m)"
  have m': "im_heap m' = snd (heap_alloc i (im_heap m))" "im_handles m' = p # im_handles m"
      "im_number_of_timebase m' = im_number_of_timebase m + 1"
    by (simp_all add: m'_def interfacemgr_create_handle_def heap_alloc_def i_def p_def)
  have h: "insts m' = (insts m)(p \<mapsto> i)" by (simp add: m'(1) p_def)
  have new: "insts m p = None" "p \<noteq> 0" using heap_ok_fresh [OF ok(1)] ok(1) by (simp_all add: p_def heap_ok_def)
  have there: "if_parent k \<noteq> p" if k: "insts m x = Some k" for x k
  proof -
    obtain r d where "up (insts m) x r d" using ok(4) k unfolding forest_def by blast
    then show ?thesis using k new up_there by (cases rule: up.cases) fastforce+
  qed
  have "forest (insts m')"
    unfolding forest_def
  proof (intro allI impI)
    fix x k assume x: "insts m' x = Some k"
    show "\<exists>r d. up (insts m') x r d"
    proof (cases "x = p")
      case True
      then show ?thesis using up.up_root [of "insts m'" p i] new(2) by (auto simp: h i_def)
    next
      case False
      then obtain r d where "up (insts m) x r d" using x ok(4) unfolding forest_def h by auto
      from up_other [OF _ _ this False, of "insts m'"] there show ?thesis by (auto simp: h)
    qed
  qed
  moreover have "roots (insts m') = insert p (roots (insts m))" by (auto simp: roots_def h i_def)
  moreover have "p \<notin> roots (insts m)" using new(1) by (simp add: roots_def)
  moreover have "heap_ok (im_heap m')" using heap_ok_alloc [OF ok(1)] by (simp add: m'(1))
  moreover have "p \<notin> set (im_handles m)" using new(1) ok(3) by blast
  moreover have "window_ok (if_last_packets i)" by (simp add: i_def window_ok_def)
  ultimately have "ifmgr_ok m'"
    using ok(2,3,5,6,7,9) m'(2,3) by (auto simp: ifmgr_ok_def h i_def algebra_simps)
  then show ?thesis by (simp add: m'_def)
qed

definition childless :: "nat \<Rightarrow> ifmgr \<Rightarrow> bool" where
  "childless p m \<longleftrightarrow> (\<forall>q \<in> set (im_handles m). \<forall>i. if_read q m = Some i \<longrightarrow> if_parent i \<noteq> p)"

lemma destroy_handle_ok:
  assumes "ifmgr_ok m" "p \<in> set (im_handles m)" "childless p m"
  shows "wp (interfacemgr_destroy_handle p m) ifmgr_ok"
proof -
  note ok = ifmgr_okD [OF assms(1)]
  obtain i where i: "insts m p = Some i" using assms(2) ok(3) by blast
  define m' where "m' = (if if_parent i = 0 then m\<lparr>im_number_of_timebase := im_number_of_timebase m - 1\<rparr> else m)
    \<lparr>im_handles := remove1 p (im_handles m), im_heap := heap_free p (im_heap m)\<rparr>"
  have m': "interfacemgr_destroy_handle p m = Some m'"
    by (simp add: interfacemgr_destroy_handle_def if_read_def i m'_def)
  have h: "insts m' = (insts m)(p := None)" by (simp add: m'_def)
  have there: "if_parent k \<noteq> p" if "insts m x = Some k" for x k
    using assms(3) that ok(3) by (auto simp: childless_def if_read_def)
  have "forest (insts m')"
    unfolding forest_def
  proof (intro allI impI)
    fix x k assume x: "insts m' x = Some k"
    then have "x \<noteq> p" "insts m x = Some k" by (auto simp: h split: if_splits)
    then obtain r d where "up (insts m) x r d" using ok(4) unfolding forest_def by blast
    from up_other [OF _ _ this \<open>x \<noteq> p\<close>, of "insts m'"] there show "\<exists>r d. up (insts m') x r d" by (auto simp: h)
  qed
  moreover have r: "roots (insts m') = roots (insts m) - {p}" by (auto simp: roots_def h split: if_splits)
  have num: "im_number_of_timebase m' = (if if_parent i = 0 then im_number_of_timebase m - 1 else im_number_of_timebase m)"
    by (simp add: m'_def)
  have "im_number_of_timebase m' = of_nat (card (roots (insts m')))"
  proof (cases "if_parent i = 0")
    case True
    then have "p \<in> roots (insts m)" using i by (simp add: roots_def)
    from card_roots_step [OF ok(9) this ok(5)] True show ?thesis unfolding num r by simp
  next
    case False
    then have "roots (insts m) - {p} = roots (insts m)" using i by (auto simp: roots_def)
    then show ?thesis using False ok(5) unfolding num r by simp
  qed
  moreover have "heap_ok (im_heap m')" using heap_ok_free [OF ok(1)] by (simp add: m'_def)
  moreover have "im_handles m' = remove1 p (im_handles m)" by (simp add: m'_def)
  ultimately show ?thesis
    using ok(2,3,6,7) by (auto simp: m' ifmgr_ok_def h set_remove1_eq split: if_splits)
qed

text \<open>The parents of an instance do not lead back to it.\<close>

definition parents :: "(nat \<rightharpoonup> ifinstance) \<Rightarrow> (nat \<times> nat) set" where
  "parents h = {(q, x). q \<noteq> 0 \<and> (\<exists>k. h x = Some k \<and> if_parent k = q)}"

lemma parents_wf:
  assumes "forest h"
  shows "wf (parents h)"
proof (rule wfUNIVI)
  fix P and x
  assume step: "\<forall>x. (\<forall>y. (y, x) \<in> parents h \<longrightarrow> P y) \<longrightarrow> P x"
  have "up h x r d \<Longrightarrow> P x" for x r d
  proof (induction rule: up.induct)
    case (up_root x k)
    then have "\<not> (\<exists>y. (y, x) \<in> parents h)" by (auto simp: parents_def)
    then show ?case using step by blast
  next
    case (up_step x k r d)
    then have "y = if_parent k" if "(y, x) \<in> parents h" for y using that by (auto simp: parents_def)
    then show ?case using step up_step.IH by blast
  qed
  moreover have "P x" if "h x = None"
  proof -
    have "\<not> (\<exists>y. (y, x) \<in> parents h)" using that by (auto simp: parents_def)
    then show ?thesis using step by blast
  qed
  ultimately show "P x" using assms unfolding forest_def by (cases "h x") auto
qed

lemma up_above:
  assumes "forest h" "\<And>x. x \<noteq> p \<Longrightarrow> h' x = h x"
  shows "up h x y e \<Longrightarrow> (x, p) \<in> (parents h)\<^sup>+ \<Longrightarrow> up h' x y e"
proof (induction rule: up.induct)
  case (up_root x k)
  then have "x \<noteq> p" using wf_acyclic [OF parents_wf [OF assms(1)]] by (auto simp: acyclic_def)
  then show ?case using up_root assms(2) by (intro up.up_root) auto
next
  case (up_step x k y e)
  then have "x \<noteq> p" using wf_acyclic [OF parents_wf [OF assms(1)]] by (auto simp: acyclic_def)
  moreover have "(if_parent k, x) \<in> parents h" using up_step by (auto simp: parents_def)
  then have "(if_parent k, p) \<in> (parents h)\<^sup>+" using up_step.prems by (rule trancl_into_trancl2)
  ultimately show ?case using up_step assms(2) by (intro up.up_step) auto
qed

lemma set_origin_result:
  assumes "ifmgr_ok m" "p \<in> set (im_handles m)" "normalized t"
  shows "wp (interfacemgr_set_origin p t m) (\<lambda>m'. ifmgr_ok m' \<and> im_handles m' = im_handles m
    \<and> interfacemgr_get_absolute_timestamp p t m' = Some timerzero)"
proof -
  note ok = ifmgr_okD [OF assms(1)]
  obtain i r d where i: "insts m p = Some i" and u: "up (insts m) p r d" using handle_tree [OF assms(1,2)] by blast
  have p0: "p \<noteq> 0" by (rule ok(8) [OF i])
  obtain tp where tp: "interfacemgr_get_absolute_timestamp (if_parent i) t m = Some tp" "normalized tp"
    "\<And>r' d'. up (insts m) (if_parent i) r' d' \<Longrightarrow> micros tp = micros t + d'" "if_parent i = 0 \<Longrightarrow> tp = t"
  proof (cases "if_parent i = 0")
    case True
    then show ?thesis
      using that [of t] assms(3) up_there [of "insts m" 0]
      by (auto simp: interfacemgr_get_absolute_timestamp_def absolute_from.simps [of m 0])
  next
    case False
    from u i False obtain d' where u': "up (insts m) (if_parent i) r d'" by (auto elim: up_cases)
    from absolute_result [OF assms(1) u' assms(3)] show ?thesis using that False up_unique [OF u'] by metis
  qed
  define i' where "i' = i\<lparr>if_delta_to_parent := timersub timerzero tp\<rparr>"
  define m' where "m' = m\<lparr>im_heap := heap_put p i' (im_heap m)\<rparr>"
  have run: "interfacemgr_set_origin p t m = Some m'"
    by (simp add: interfacemgr_set_origin_def if_read_def if_write_def i tp(1) m'_def i'_def)
  have ok': "ifmgr_ok m'"
    unfolding m'_def using tp(2) ok(7) [OF i] by (intro write_ok [OF assms(1) i]) (simp_all add: i'_def)
  have h': "insts m' p = Some i'" "\<And>x. x \<noteq> p \<Longrightarrow> insts m' x = insts m x" by (simp_all add: m'_def)
  have "\<exists>r. up (insts m') p r (- micros t)"
  proof (cases "if_parent i = 0")
    case True
    then show ?thesis using up.up_root [of "insts m'" p i'] h'(1) p0 tp(4) by (auto simp: i'_def)
  next
    case False
    from u i False obtain d' where u': "up (insts m) (if_parent i) r d'" by (auto elim: up_cases)
    have "(if_parent i, p) \<in> parents (insts m)" using False i by (auto simp: parents_def)
    from up_above [OF ok(4) h'(2) u' r_into_trancl [OF this]] have "up (insts m') (if_parent i') r d'" by (simp add: i'_def)
    then have "up (insts m') p r (delta i' + d')" using h'(1) p0 False by (intro up.up_step) (auto simp: i'_def)
    then show ?thesis using tp(3) [OF u'] by (auto simp: i'_def)
  qed
  then obtain r' where "up (insts m') p r' (- micros t)" by blast
  from absolute_result [OF ok' this assms(3)] micros_eq [of _ timerzero]
  have "interfacemgr_get_absolute_timestamp p t m' = Some timerzero" by auto
  then show ?thesis using run ok' by (simp add: m'_def)
qed

subsection \<open>The system\<close>

text \<open>
  What happens to the interface manager and the tool: an operation of the tool, a new or deleted instance, a packet
  that an instance received, or a new origin of its time. \<open>sys_allowed\<close> are the guards. A packet of an instance
  may reach \<open>pcap_dump\<close>, so that it needs the stream to tshark; an instance that is the parent of another must
  not be deleted.
\<close>

datatype sys_op =
    of_tool tool_op
  | new_instance string
  | delete_instance nat
  | received nat "u8 list" timeval
  | origin nat timeval

fun sys_step :: "sys_op \<Rightarrow> ifmgr \<times> sniffer \<Rightarrow> (ifmgr \<times> sniffer) option" where
  "sys_step (of_tool op) (m, s) = map_option (Pair m) (tool_step op s)"
| "sys_step (new_instance target) (m, s) = Some (snd (interfacemgr_create_handle target m), s)"
| "sys_step (delete_instance p) (m, s) = map_option (\<lambda>m. (m, s)) (interfacemgr_destroy_handle p m)"
| "sys_step (received p data timestamp) (m, s) = interfacemgr_process_packet p data timestamp (m, s)"
| "sys_step (origin p timestamp) (m, s) = map_option (\<lambda>m. (m, s)) (interfacemgr_set_origin p timestamp m)"

fun sys_allowed :: "sys_op \<Rightarrow> ifmgr \<times> sniffer \<Rightarrow> bool" where
  "sys_allowed (of_tool op) (m, s) \<longleftrightarrow> tool_allowed op s"
| "sys_allowed (new_instance target) (m, s) \<longleftrightarrow> True"
| "sys_allowed (delete_instance p) (m, s) \<longleftrightarrow> p \<in> set (im_handles m) \<and> childless p m"
| "sys_allowed (received p data timestamp) (m, s) \<longleftrightarrow> p \<in> set (im_handles m) \<and> normalized timestamp \<and> sn_pdumper s"
| "sys_allowed (origin p timestamp) (m, s) \<longleftrightarrow> p \<in> set (im_handles m) \<and> normalized timestamp"

inductive reachable :: "libc \<Rightarrow> (real \<Rightarrow> real) \<Rightarrow> ifmgr \<times> sniffer \<Rightarrow> bool" for lib fl where
  reachable_start: "reachable lib fl (ifmgr_init, tool_started lib fl)"
| reachable_step: "reachable lib fl sys \<Longrightarrow> sys_allowed op sys \<Longrightarrow> sys_step op sys = Some sys' \<Longrightarrow> reachable lib fl sys'"

lemma ifmgr_init_ok: "ifmgr_ok ifmgr_init"
  by (simp add: ifmgr_init_def ifmgr_ok_def forest_def roots_def)

lemma sys_step_ok:
  assumes "ifmgr_ok m" "tool_ok lib s" "sys_allowed op (m, s)"
  shows "wp (sys_step op (m, s)) (\<lambda>(m', s'). ifmgr_ok m' \<and> tool_ok lib s')"
proof (cases op)
  case (of_tool top)
  then show ?thesis using tool_step_ok [OF assms(2), of top] assms(1,3) by (auto elim!: wp_mono)
next
  case (new_instance target)
  then show ?thesis using create_handle_ok [OF assms(1)] assms(2) by simp
next
  case (delete_instance p)
  then show ?thesis using destroy_handle_ok [OF assms(1), of p] assms(2,3) by (auto elim!: wp_mono)
next
  case (received p data t)
  then have p: "p \<in> set (im_handles m)" "normalized t" "sn_pdumper s" using assms(3) by simp_all
  obtain m' ta where "ifmgr_ok m'" "interfacemgr_process_packet p data t (m, s) =
      (if ignored data m then Some (m', s) else map_option (Pair m') (sniffer_parser_parse_data data ta s))"
    using process_packet_result [OF assms(1) p(1,2)] by metis
  then show ?thesis
    using received sniffer_parser_parse_data_ok [OF assms(2) p(3), of data ta] assms(2) by (auto elim!: wp_mono)
next
  case (origin p t)
  then show ?thesis using set_origin_result [OF assms(1), of p t] assms(2,3) by (auto elim!: wp_mono)
qed

lemma reachable_ok: "reachable lib fl (m, s) \<Longrightarrow> ifmgr_ok m \<and> tool_ok lib s"
proof (induction "(m, s)" arbitrary: m s rule: reachable.induct)
  case reachable_start
  then show ?case using ifmgr_init_ok tool_started_ok by blast
next
  case (reachable_step sys op m s)
  obtain m0 s0 where sys: "sys = (m0, s0)" by (cases sys)
  then have "wp (sys_step op (m0, s0)) (\<lambda>(m', s'). ifmgr_ok m' \<and> tool_ok lib s')"
    using reachable_step(2) [OF sys] reachable_step(3) sys_step_ok by blast
  then show ?case using reachable_step(4) sys by simp
qed

text \<open>The two bugs of the manager.\<close>

lemma destroy_parent_fails:
  assumes "ifmgr_ok m" "insts m q = Some i" "if_parent i = p" "p \<noteq> 0"
  shows "wp (interfacemgr_destroy_handle p m) (\<lambda>m'. interfacemgr_get_absolute_timestamp q t m' = None)"
proof -
  note ok = ifmgr_okD [OF assms(1)]
  obtain r d where "up (insts m) q r d" using ok(4) assms(2) unfolding forest_def by blast
  then obtain r' d' where "up (insts m) p r' d'" using assms(2-4) by (auto elim: up_cases)
  then obtain j where j: "insts m p = Some j" using up_there by blast
  have "q \<noteq> 0" by (rule ok(8) [OF assms(2)])
  then have "absolute_from m' q t = None" if "insts m' = (insts m)(p := None)" for m'
    using that assms(2-4) by (simp add: absolute_from.simps [of m' q] absolute_from.simps [of m' p] if_read_def)
  then show ?thesis
    using j by (simp add: interfacemgr_destroy_handle_def if_read_def interfacemgr_get_absolute_timestamp_def)
qed

lemma set_master_time_count:
  assumes "ifmgr_ok m" "insts m p = Some i" "if_parent i \<noteq> 0"
  shows "wp (inferfacemgr_set_master_time p t m) (\<lambda>m'. im_number_of_timebase m' \<noteq> of_nat (card (roots (insts m'))))"
proof -
  note ok = ifmgr_okD [OF assms(1)]
  define i' where "i' = i\<lparr>if_parent := 0, if_delta_to_parent := timersub timerzero t\<rparr>"
  define m' where "m' = m\<lparr>im_heap := heap_put p i' (heap_put p (i\<lparr>if_parent := 0\<rparr>) (im_heap m))\<rparr>"
  have "inferfacemgr_set_master_time p t m = Some m'"
    using assms(2)
    by (simp add: inferfacemgr_set_master_time_def interfacemgr_set_origin_def if_write_def if_read_def
        interfacemgr_get_absolute_timestamp_def absolute_from.simps [of _ 0] m'_def i'_def)
  moreover have "roots (insts m') = insert p (roots (insts m))" using assms(2) by (auto simp: roots_def m'_def i'_def)
  moreover have "p \<notin> roots (insts m)" using assms(2,3) by (simp add: roots_def)
  moreover have "im_number_of_timebase m' = im_number_of_timebase m" by (simp add: m'_def)
  ultimately show ?thesis using ok(5,9) by simp
qed

subsection \<open>The properties\<close>

abbreviation two_handles :: ifmgr where
  "two_handles \<equiv> snd (interfacemgr_create_handle ''b'' (snd (interfacemgr_create_handle ''a'' ifmgr_init)))"

lemma two_handles_ok: "ifmgr_ok two_handles" "im_handles two_handles = [2, 1]" "root_from two_handles 1 = Some 1" "root_from two_handles 2 = Some 2"
  by (simp_all add: create_handle_ok ifmgr_init_ok)
    (simp_all add: interfacemgr_create_handle_def ifmgr_init_def heap_alloc_def heap_empty_def root_from.simps if_read_def numeral_2_eq_2)

text \<open>
  C17. The loops of the code that follow the parents of an instance end in every state that the operations lead to: the one that adds the differences of
  the clocks, the one that looks for the root, which finds an instance without a parent, and the one that makes an instance a child
  of its root. \<open>interfacemgr_sync_time\<close> returns too, with its loop that turns the parents of a tree round, and behind it
  they end again for every instance.
\<close>

theorem clock_loops_end:
  assumes "reachable lib fl (m, s)" "p \<in> set (im_handles m)" "q \<in> set (im_handles m)" "normalized t" "normalized u"
  shows "absolute_from m p t \<noteq> None \<and> (\<exists>r\<in>roots (insts m). root_from m p = Some r) \<and> rebase_from m p t \<noteq> None
    \<and> (\<exists>m'. interfacemgr_sync_time p t q u m = Some m'
        \<and> (\<forall>x\<in>set (im_handles m). \<forall>v. absolute_from m' x v \<noteq> None \<and> root_from m' x \<noteq> None \<and> rebase_from m' x v \<noteq> None))"
proof -
  have ends: "absolute_from n x v \<noteq> None \<and> (\<exists>r\<in>roots (insts n). root_from n x = Some r) \<and> rebase_from n x v \<noteq> None"
    if n: "ifmgr_ok n" and x: "x \<in> set (im_handles n)" for n x v
  proof -
    obtain r d where u: "up (insts n) x r d" using handle_tree [OF n x] by blast
    then obtain j where j: "insts n r = Some j" "if_parent j = 0" using up_root_at by blast
    then have "r \<in> roots (insts n)" by (simp add: roots_def)
    with absolute_from_up [OF u, of v] root_from_up [OF u] rebase_from_up [OF u, of j v] j(1) show ?thesis by auto
  qed
  have m: "ifmgr_ok m" using reachable_ok [OF assms(1)] by blast
  obtain r1 d1 r2 d2 where u: "up (insts m) p r1 d1" "up (insts m) q r2 d2"
    using handle_tree [OF m assms(2)] handle_tree [OF m assms(3)] by blast
  obtain m' where m': "interfacemgr_sync_time p t q u m = Some m'" "ifmgr_ok m'" "clocks_changed m m'"
    using sync_time_ok [OF m u assms(4,5)] by (auto simp: wp_def)
  have "im_handles m' = im_handles m" using m'(3) by (simp add: clocks_changed_def)
  then show ?thesis using ends [OF m assms(2), of t] ends [OF m'(2)] m'(1) by auto
qed

text \<open>Two instances of sniffers, of which neither has received a packet.\<close>

lemma two_handles_reachable:
  "reachable libc fl (two_handles, tool_started libc fl)"
proof -
  have "reachable libc fl (snd (interfacemgr_create_handle ''a'' ifmgr_init), tool_started libc fl)"
    by (rule reachable_step [OF reachable_start, of "new_instance ''a''"]) simp_all
  then show ?thesis by (rule reachable_step [of _ _ _ "new_instance ''b''"]) simp_all
qed

theorem clock_loops_end_witness:
  "\<exists>m'. interfacemgr_sync_time 1 \<lparr>tv_sec = 10, tv_usec = 5\<rparr> 2 \<lparr>tv_sec = 3, tv_usec = 999999\<rparr> two_handles = Some m'
    \<and> root_from m' 1 \<noteq> None \<and> root_from m' 2 \<noteq> None"
  using clock_loops_end [OF two_handles_reachable, of 1 2 "\<lparr>tv_sec = 10, tv_usec = 5\<rparr>" "\<lparr>tv_sec = 3, tv_usec = 999999\<rparr>"]
  by (auto simp: two_handles_ok normalized_def simp del: One_nat_def)

text \<open>
  C12. Synchronising two instances of different trees on a packet that both have received makes one tree of the two: the packet gets
  the same absolute time from both, and there is one time base fewer.
\<close>

theorem sync_time_aligns:
  assumes "ifmgr_ok m" "p1 \<in> set (im_handles m)" "p2 \<in> set (im_handles m)" "normalized t1" "normalized t2"
    and "root_from m p1 \<noteq> root_from m p2"
  shows "\<exists>m' t. interfacemgr_sync_time p1 t1 p2 t2 m = Some m' \<and> ifmgr_ok m' \<and> root_from m' p1 = root_from m' p2
    \<and> interfacemgr_get_absolute_timestamp p1 t1 m' = Some t \<and> interfacemgr_get_absolute_timestamp p2 t2 m' = Some t
    \<and> im_number_of_timebase m' = im_number_of_timebase m - 1"
proof -
  obtain r1 d1 r2 d2 where u: "up (insts m) p1 r1 d1" "up (insts m) p2 r2 d2"
    using handle_tree [OF assms(1,2)] handle_tree [OF assms(1,3)] by blast
  have r: "r1 \<noteq> r2" using assms(6) root_from_up u by metis
  have "wp (interfacemgr_sync_time p1 t1 p2 t2 m) (\<lambda>m'. (ifmgr_ok m' \<and> clocks_changed m m') \<and> im_number_of_timebase m' = im_number_of_timebase m - 1
         \<and> (joined (insts m) (insts m') r1 r2 (micros t2 + d2 - (micros t1 + d1))
          \<or> joined (insts m) (insts m') r2 r1 (micros t1 + d1 - (micros t2 + d2))))"
    using wp_conj [OF sync_time_ok [OF assms(1) u assms(4,5)] sync_time_result [OF assms(1) u assms(4,5)]] r
    by (auto elim!: wp_mono)
  then obtain m' where m': "interfacemgr_sync_time p1 t1 p2 t2 m = Some m'" "ifmgr_ok m'" "im_number_of_timebase m' = im_number_of_timebase m - 1"
    and J: "joined (insts m) (insts m') r1 r2 (micros t2 + d2 - (micros t1 + d1))
      \<or> joined (insts m) (insts m') r2 r1 (micros t1 + d1 - (micros t2 + d2))"
    by (auto simp: wp_def)
  have "\<exists>s e1 e2. up (insts m') p1 s e1 \<and> up (insts m') p2 s e2 \<and> micros t1 + e1 = micros t2 + e2"
    using J
  proof
    assume j: "joined (insts m) (insts m') r1 r2 (micros t2 + d2 - (micros t1 + d1))"
    have "up (insts m') p1 r2 (d1 + (micros t2 + d2 - (micros t1 + d1)))" "up (insts m') p2 r2 d2"
      using j [unfolded joined_def, rule_format, OF u(1)] j [unfolded joined_def, rule_format, OF u(2)] r by simp_all
    then show ?thesis by (intro exI conjI) (assumption, assumption, simp)
  next
    assume j: "joined (insts m) (insts m') r2 r1 (micros t1 + d1 - (micros t2 + d2))"
    have "up (insts m') p1 r1 d1" "up (insts m') p2 r1 (d2 + (micros t1 + d1 - (micros t2 + d2)))"
      using j [unfolded joined_def, rule_format, OF u(1)] j [unfolded joined_def, rule_format, OF u(2)] r by simp_all
    then show ?thesis by (intro exI conjI) (assumption, assumption, simp)
  qed
  then obtain s e1 e2 where up': "up (insts m') p1 s e1" "up (insts m') p2 s e2" and e: "micros t1 + e1 = micros t2 + e2" by blast
  obtain ta tb where "interfacemgr_get_absolute_timestamp p1 t1 m' = Some ta" "normalized ta" "micros ta = micros t1 + e1"
      "interfacemgr_get_absolute_timestamp p2 t2 m' = Some tb" "normalized tb" "micros tb = micros t2 + e2"
    using absolute_result [OF m'(2) up'(1) assms(4)] absolute_result [OF m'(2) up'(2) assms(5)] by blast
  moreover from this have "ta = tb" using micros_eq [of ta tb] e by simp
  moreover have "root_from m' p1 = root_from m' p2" using root_from_up [OF up'(1)] root_from_up [OF up'(2)] by simp
  ultimately show ?thesis using m' by auto
qed

theorem sync_time_aligns_witness:
  "\<exists>m' t. interfacemgr_sync_time 1 \<lparr>tv_sec = 10, tv_usec = 5\<rparr> 2 \<lparr>tv_sec = 3, tv_usec = 999999\<rparr> two_handles = Some m'
    \<and> interfacemgr_get_absolute_timestamp 1 \<lparr>tv_sec = 10, tv_usec = 5\<rparr> m' = Some t
    \<and> interfacemgr_get_absolute_timestamp 2 \<lparr>tv_sec = 3, tv_usec = 999999\<rparr> m' = Some t"
  using sync_time_aligns [OF two_handles_ok(1), of 1 2 "\<lparr>tv_sec = 10, tv_usec = 5\<rparr>" "\<lparr>tv_sec = 3, tv_usec = 999999\<rparr>"]
  by (auto simp: two_handles_ok normalized_def simp del: One_nat_def)

text \<open>
  C13. Synchronising never changes the time between two packets of instances whose clocks were already related: for two instances
  of one tree the difference of the absolute times stays what it was.
\<close>

theorem sync_time_keeps_differences:
  assumes "ifmgr_ok m" "p1 \<in> set (im_handles m)" "p2 \<in> set (im_handles m)" "normalized t1" "normalized t2"
    and "x \<in> set (im_handles m)" "y \<in> set (im_handles m)" "root_from m x = root_from m y" "normalized s" "normalized t"
  shows "\<exists>m' sx ty sx' ty'. interfacemgr_sync_time p1 t1 p2 t2 m = Some m'
    \<and> interfacemgr_get_absolute_timestamp x s m = Some sx \<and> interfacemgr_get_absolute_timestamp y t m = Some ty
    \<and> interfacemgr_get_absolute_timestamp x s m' = Some sx' \<and> interfacemgr_get_absolute_timestamp y t m' = Some ty'
    \<and> timersub ty' sx' = timersub ty sx"
proof -
  obtain r1 d1 r2 d2 r dx dy where u: "up (insts m) p1 r1 d1" "up (insts m) p2 r2 d2" "up (insts m) x r dx" "up (insts m) y r dy"
    using handle_tree [OF assms(1,2)] handle_tree [OF assms(1,3)] handle_tree [OF assms(1,6)] handle_tree [OF assms(1,7)]
      assms(8) root_from_up by (metis option.inject)
  obtain m' where m': "interfacemgr_sync_time p1 t1 p2 t2 m = Some m'" "ifmgr_ok m'"
      "(\<forall>x y e. up (insts m) x y e \<longrightarrow> up (insts m') x y e)
        \<or> (\<exists>a b c. joined (insts m) (insts m') a b c)"
    using wp_conj [OF sync_time_ok [OF assms(1) u(1,2) assms(4,5)] sync_time_result [OF assms(1) u(1,2) assms(4,5)]]
    by (auto simp: wp_def split: if_splits)
  obtain r' c where u': "up (insts m') x r' (dx + c)" "up (insts m') y r' (dy + c)"
    using m'(3)
  proof
    assume "\<forall>x y e. up (insts m) x y e \<longrightarrow> up (insts m') x y e"
    then show ?thesis using that [of r 0] u(3,4) by simp
  next
    assume "\<exists>a b c. joined (insts m) (insts m') a b c"
    then obtain a b c where j: "joined (insts m) (insts m') a b c" by blast
    show ?thesis
      using j [unfolded joined_def, rule_format, OF u(3)] j [unfolded joined_def, rule_format, OF u(4)] that [of b c] that [of r 0]
      by (cases "r = a") simp_all
  qed
  obtain sx ty sx' ty' where a: "interfacemgr_get_absolute_timestamp x s m = Some sx" "normalized sx" "micros sx = micros s + dx"
      "interfacemgr_get_absolute_timestamp y t m = Some ty" "normalized ty" "micros ty = micros t + dy"
      "interfacemgr_get_absolute_timestamp x s m' = Some sx'" "normalized sx'" "micros sx' = micros s + (dx + c)"
      "interfacemgr_get_absolute_timestamp y t m' = Some ty'" "normalized ty'" "micros ty' = micros t + (dy + c)"
    using absolute_result [OF assms(1) u(3) assms(9)] absolute_result [OF assms(1) u(4) assms(10)]
      absolute_result [OF m'(2) u'(1) assms(9)] absolute_result [OF m'(2) u'(2) assms(10)] by blast
  then have "timersub ty' sx' = timersub ty sx" by (intro micros_eq [THEN iffD1]) simp_all
  then show ?thesis using m'(1) a by blast
qed

theorem sync_time_keeps_differences_witness:
  "\<exists>m' sx ty sx' ty'. interfacemgr_sync_time 1 \<lparr>tv_sec = 10, tv_usec = 5\<rparr> 2 \<lparr>tv_sec = 3, tv_usec = 999999\<rparr> two_handles = Some m'
    \<and> interfacemgr_get_absolute_timestamp 1 timerzero two_handles = Some sx
    \<and> interfacemgr_get_absolute_timestamp 1 \<lparr>tv_sec = 1, tv_usec = 0\<rparr> two_handles = Some ty
    \<and> interfacemgr_get_absolute_timestamp 1 timerzero m' = Some sx' \<and> interfacemgr_get_absolute_timestamp 1 \<lparr>tv_sec = 1, tv_usec = 0\<rparr> m' = Some ty'
    \<and> timersub ty' sx' = timersub ty sx"
  by (rule sync_time_keeps_differences [OF two_handles_ok(1)]) (simp_all add: two_handles_ok normalized_def timerzero_def del: One_nat_def)

text \<open>
  C14. What an instance receives is handed on exactly when it is a data packet that no instance has received recently; it then goes to the
  sniffer with its time on the common clock, and the first packet of an instance without a parent gets time 0.
\<close>

theorem new_packets_handed_on:
  assumes "ifmgr_ok m" "p \<in> set (im_handles m)" "normalized t"
  shows "\<exists>m' ta. ifmgr_ok m' \<and> im_handles m' = im_handles m \<and> interfacemgr_get_absolute_timestamp p t m' = Some ta
    \<and> interfacemgr_process_packet p data t (m, s) =
        (if ignored data m then Some (m', s) else map_option (Pair m') (sniffer_parser_parse_data data ta s))
    \<and> (ignored data m \<or> (\<exists>i. insts m p = Some i \<and> (if_first_packet i \<and> if_parent i = 0 \<longrightarrow> ta = timerzero)))"
proof -
  obtain i where "insts m p = Some i" using handle_tree [OF assms(1,2)] by blast
  moreover obtain m' ta where "ifmgr_ok m'" "im_handles m' = im_handles m" "interfacemgr_get_absolute_timestamp p t m' = Some ta"
      "interfacemgr_process_packet p data t (m, s) =
        (if ignored data m then Some (m', s) else map_option (Pair m') (sniffer_parser_parse_data data ta s))"
      "\<forall>i. \<not> ignored data m \<longrightarrow> insts m p = Some i \<longrightarrow> if_first_packet i \<longrightarrow> if_parent i = 0 \<longrightarrow> ta = timerzero"
    using process_packet_result [OF assms, of data s] by blast
  ultimately show ?thesis by (intro exI [of _ m'] exI [of _ ta]) blast
qed

theorem new_packets_handed_on_witness:
  "\<exists>m' ta. interfacemgr_get_absolute_timestamp 1 \<lparr>tv_sec = 10, tv_usec = 5\<rparr> m' = Some ta
    \<and> interfacemgr_process_packet 1 [2, 0] \<lparr>tv_sec = 10, tv_usec = 5\<rparr> (two_handles, zero_sniffer (rpl_tool_init (\<lambda>x. x)))
      = Some (m', zero_sniffer (rpl_tool_init (\<lambda>x. x)))"
proof -
  have "ignored [2, 0] two_handles" by (simp add: ignored_def)
  then show ?thesis
    using new_packets_handed_on [OF two_handles_ok(1), of 1 "\<lparr>tv_sec = 10, tv_usec = 5\<rparr>" "[2, 0]" "zero_sniffer (rpl_tool_init (\<lambda>x. x))"]
    by (auto simp: two_handles_ok normalized_def simp del: One_nat_def)
qed

text \<open>
  C15. A data packet that neither an instance nor the sniffer has seen recently reaches tshark: it is appended to the stream with its
  length and its time on the common clock.
\<close>

theorem new_packet_reaches_tshark:
  assumes "ifmgr_ok m" "tool_ok lib s" "p \<in> set (im_handles m)" "normalized t" "sn_pdumper s"
    and "\<not> ignored data m" "sha1_buffer False data \<notin> set (window_keys (sn_last_packets s))"
  shows "\<exists>m' s' ta. interfacemgr_process_packet p data t (m, s) = Some (m', s') \<and> interfacemgr_get_absolute_timestamp p t m' = Some ta
    \<and> sn_tshark s' = sn_tshark s @ [(\<lparr>ph_ts = ta, ph_caplen = length data, ph_len = length data + 2\<rparr>, data)]"
proof -
  obtain m' ta where m': "interfacemgr_get_absolute_timestamp p t m' = Some ta"
      "interfacemgr_process_packet p data t (m, s) = map_option (Pair m') (sniffer_parser_parse_data data ta s)"
    using process_packet_result [OF assms(1,3,4), of data s] assms(6) by auto
  have "hash_ok (sn_last_packets s)" using assms(2) by (simp add: tool_ok_def)
  from check_duplicate_packet_step [OF this, of data] assms(7)
  obtain c where "check_duplicate_packet data (sn_last_packets s) = Some (True, c)" by auto
  then have "\<exists>s'. sniffer_parser_parse_data data ta s = Some s'
      \<and> sn_tshark s' = sn_tshark s @ [(\<lparr>ph_ts = ta, ph_caplen = length data, ph_len = length data + 2\<rparr>, data)]"
    using assms(5) by (simp add: sniffer_parser_parse_data_def pcap_dump_def Let_def)
  then show ?thesis using m' by auto
qed

abbreviation capturing :: sniffer where
  "capturing \<equiv> the (rpl_tool_start_capture True (tool_started sample_libc (\<lambda>x. x)))"

lemma capturing_ok: "tool_ok sample_libc capturing" "sn_pdumper capturing" "window_keys (sn_last_packets capturing) = []" "sn_tshark capturing = []"
proof -
  note start = tool_started_ok [of sample_libc "\<lambda>x. x"]
  show "tool_ok sample_libc capturing" "sn_pdumper capturing"
    using rpl_tool_start_capture_ok [OF start(1,3)] by (auto simp: wp_def)
  show "window_keys (sn_last_packets capturing) = []" "sn_tshark capturing = []"
    using start(3)
    by (simp_all add: rpl_tool_start_capture_def sniffer_parser_reset_def tshark_parser_reset_def sniffer_parser_create_out_def
      sniffer_parser_close_out_def pcap_dump_open_def Let_def)
qed

theorem new_packet_reaches_tshark_witness:
  "\<exists>m' s' ta. interfacemgr_process_packet 1 [0x41, 0xC8] \<lparr>tv_sec = 10, tv_usec = 5\<rparr> (two_handles, capturing) = Some (m', s')
    \<and> sn_tshark s' = [(\<lparr>ph_ts = ta, ph_caplen = 2, ph_len = 4\<rparr>, [0x41, 0xC8])]"
proof -
  have "\<not> ignored [0x41, 0xC8] two_handles"
    by (auto simp: ignored_def seen_by_def interfacemgr_create_handle_def ifmgr_init_def heap_alloc_def split: if_splits)
  from new_packet_reaches_tshark [OF two_handles_ok(1) capturing_ok(1) _ _ capturing_ok(2) this, of 1 "\<lparr>tv_sec = 10, tv_usec = 5\<rparr>"]
  show ?thesis by (auto simp: two_handles_ok capturing_ok normalized_def simp del: One_nat_def)
qed

text \<open>
  C38. Two ways in which the manager breaks its own data: deleting an instance that is the parent of another leaves that one with a pointer to
  freed memory, which the next computation of its absolute time follows; and \<open>inferfacemgr_set_master_time\<close> makes an instance with a parent a root
  without counting it.
\<close>

theorem parents_and_time_bases_break:
  assumes "ifmgr_ok m" "insts m q = Some i" "if_parent i \<noteq> 0"
  shows "(\<exists>m'. interfacemgr_destroy_handle (if_parent i) m = Some m' \<and> interfacemgr_get_absolute_timestamp q t m' = None)
    \<and> (\<exists>m'. inferfacemgr_set_master_time q t m = Some m' \<and> im_number_of_timebase m' \<noteq> of_nat (card (roots (insts m'))))"
  using destroy_parent_fails [OF assms(1,2) refl assms(3), of t] set_master_time_count [OF assms, of t] by (simp add: wp_def)

lemma two_handles_joined:
  "\<exists>m i. ifmgr_ok m \<and> interfacemgr_sync_time 1 timerzero 2 timerzero two_handles = Some m \<and> insts m 1 = Some i \<and> if_parent i = 2"
proof -
  have u: "up (insts two_handles) 1 1 0" "up (insts two_handles) 2 2 0"
    using up.up_root [of "insts two_handles" 1] up.up_root [of "insts two_handles" 2]
    by (simp_all add: interfacemgr_create_handle_def ifmgr_init_def heap_alloc_def heap_empty_def numeral_2_eq_2)
  have "\<exists>m i. interfacemgr_sync_time 1 timerzero 2 timerzero two_handles = Some m \<and> insts m 1 = Some i \<and> if_parent i = 2"
    by (simp add: interfacemgr_sync_time_def interfacemgr_get_root_def interfacemgr_rebase_parent_def interfacemgr_create_handle_def ifmgr_init_def
        heap_alloc_def heap_empty_def root_from.simps rebase_from.simps if_read_def if_write_def Let_def numeral_2_eq_2)
  then show ?thesis using sync_time_ok [OF two_handles_ok(1) u, of timerzero timerzero] by (auto simp: wp_def)
qed

theorem parents_and_time_bases_break_witness:
  "\<exists>m m'. interfacemgr_sync_time 1 timerzero 2 timerzero two_handles = Some m \<and> interfacemgr_destroy_handle 2 m = Some m'
    \<and> interfacemgr_get_absolute_timestamp 1 timerzero m' = None"
proof -
  obtain m i where m: "ifmgr_ok m" "interfacemgr_sync_time 1 timerzero 2 timerzero two_handles = Some m" "insts m 1 = Some i" "if_parent i = 2"
    using two_handles_joined by blast
  from parents_and_time_bases_break [OF m(1,3)] m(2,4) show ?thesis by auto
qed

end
