(* ===== verification/Dissection.thy ===== *)
theory Dissection
  imports Parser
begin

section \<open>Dissected packets\<close>

text \<open>
  The fields that tshark shows for a packet, written by the inverse of the parser: each message and
  each option is the list of its fields, and \<open>parse_fields\<close> runs the parser of
  \<open>src/src/packet_parsers/rpl_parser.c\<close> over them. Printing a packet and parsing its fs gives the
  packet back. The texts of addresses and times are those of a parameter: \<open>ntop\<close> and \<open>show_time\<close>,
  that \<open>inet_pton\<close> and \<open>strtod\<close> invert.
  Each group of fs writes its own members of the union and no other; \<open>same_outside\<close> says which
  bytes may change.
\<close>

type_synonym field = "string \<times> string \<times> string option \<times> u64"

definition parse_fields :: "libc \<Rightarrow> analyser_config \<Rightarrow> field list \<Rightarrow> rpl_packet_content \<Rightarrow> rpl_packet_content" where
  "parse_fields lib config fs c =
     fold (\<lambda>(nameStr, showStr, valueStr, valueInt). rpl_parser_parse_field lib config nameStr showStr valueStr valueInt) fs c"

abbreviation number_field :: "string \<Rightarrow> 'a::len word \<Rightarrow> field" where
  "number_field name v \<equiv> (name, [], Some [], ucast v)"

abbreviation flag_field :: "string \<Rightarrow> bool \<Rightarrow> field" where
  "flag_field name b \<equiv> (name, [], Some [], if b then 1 else 0)"

subsection \<open>Messages and options as fields\<close>

definition dio_fields :: "(in6_addr \<Rightarrow> string) \<Rightarrow> rpl_dio \<Rightarrow> field list" where
  "dio_fields ntop dio =
     [number_field ''icmpv6.rpl.dio.instance'' (dio_rpl_instance_id dio),
      number_field ''icmpv6.rpl.dio.version'' (dio_version_number dio),
      number_field ''icmpv6.rpl.dio.rank'' (dio_rank dio),
      flag_field ''icmpv6.rpl.dio.flag.g'' (dio_grounded dio),
      number_field ''icmpv6.rpl.dio.flag.mop'' (dio_mode_of_operation dio),
      number_field ''icmpv6.rpl.dio.flag.preference'' (dio_preference dio),
      number_field ''icmpv6.rpl.dio.dtsn'' (dio_dtsn dio),
      (''icmpv6.rpl.dio.dagid'', ntop (dio_dodagid dio), Some [], 0)]"

definition metric_fields :: "rpl_metric \<Rightarrow> field list" where
  "metric_fields metric =
     [number_field ''icmpv6.rpl.opt.metric.type'' (mm_type metric),
      number_field ''icmpv6.rpl.opt.metric.etx'' (mm_value metric)]"

definition route_fields :: "(in6_addr \<Rightarrow> string) \<Rightarrow> rpl_route \<Rightarrow> field list" where
  "route_fields ntop route =
     [number_field ''icmpv6.rpl.opt.route.prefix_length'' (rr_prefix_bit_length route),
      number_field ''icmpv6.rpl.opt.route.pref'' (rr_preference route),
      number_field ''icmpv6.rpl.opt.route.lifetime'' (rr_lifetime route),
      (''icmpv6.rpl.opt.route.prefix'', ntop (rr_route_prefix route), Some [], 0)]"

definition config_fields :: "rpl_dodag_config \<Rightarrow> field list" where
  "config_fields config =
     [number_field ''icmpv6.rpl.opt.config.auth'' (dc_auth_enabled config),
      number_field ''icmpv6.rpl.opt.config.pcs'' (dc_path_control_size config),
      number_field ''icmpv6.rpl.opt.config.interval_double'' (dc_dio_interval_max config),
      number_field ''icmpv6.rpl.opt.config.interval_min'' (dc_dio_interval_min config),
      number_field ''icmpv6.rpl.opt.config.redundancy'' (dc_dio_redundancy_constant config),
      number_field ''icmpv6.rpl.opt.config.max_rank_inc'' (dc_max_rank_inc config),
      number_field ''icmpv6.rpl.opt.config.min_hop_rank_inc'' (dc_min_hop_rank_inc config),
      number_field ''icmpv6.rpl.opt.config.ocp'' (dc_objective_function config),
      number_field ''icmpv6.rpl.opt.config.def_lifetime'' (dc_default_lifetime config),
      number_field ''icmpv6.rpl.opt.config.lifetime_unit'' (dc_lifetime_unit config)]"

definition prefix_fields :: "(in6_addr \<Rightarrow> string) \<Rightarrow> rpl_prefix \<Rightarrow> field list" where
  "prefix_fields ntop prefix =
     [number_field ''icmpv6.rpl.opt.prefix.length'' (pfx_length (px_prefix prefix)),
      flag_field ''icmpv6.rpl.opt.prefix.flag.l'' (px_on_link prefix),
      flag_field ''icmpv6.rpl.opt.config.flag.a'' (px_auto_address_config prefix),
      flag_field ''icmpv6.rpl.opt.config.flag.r'' (px_router_address prefix),
      number_field ''icmpv6.rpl.opt.prefix.valid_lifetime'' (px_valid_lifetime prefix),
      number_field ''icmpv6.rpl.opt.prefix.preferred_lifetime'' (px_preferred_lifetime prefix),
      (''icmpv6.rpl.opt.prefix'', ntop (pfx_prefix (px_prefix prefix)), Some [], 0)]"

definition dis_fields :: "(in6_addr \<Rightarrow> string) \<Rightarrow> rpl_dis_opt_info_req \<Rightarrow> field list" where
  "dis_fields ntop request =
     [number_field ''icmpv6.rpl.opt.solicited.instance'' (dis_rpl_instance_id request),
      flag_field ''icmpv6.rpl.opt.solicited.flag.v'' (dis_version_predicate request),
      flag_field ''icmpv6.rpl.opt.solicited.flag.i'' (dis_instance_predicate request),
      flag_field ''icmpv6.rpl.opt.solicited.flag.d'' (dis_dodag_predicate request),
      (''icmpv6.rpl.opt.solicited.dodagid'', ntop (dis_dodagid request), Some [], 0),
      number_field ''icmpv6.rpl.opt.solicited.version'' (dis_rpl_version request)]"

definition dao_fields :: "(in6_addr \<Rightarrow> string) \<Rightarrow> rpl_dao \<Rightarrow> field list" where
  "dao_fields ntop dao =
     [number_field ''icmpv6.rpl.dao.instance'' (dao_rpl_instance_id dao),
      flag_field ''icmpv6.rpl.dao.flag.k'' (dao_want_ack dao),
      flag_field ''icmpv6.rpl.dao.flag.d'' (dao_dodagid_present dao),
      number_field ''icmpv6.rpl.dao.sequence'' (dao_dao_sequence dao)]
     @ (if dao_dodagid_present dao then [(''icmpv6.rpl.dao.dodagid'', ntop (dao_dodagid dao), Some [], 0)] else [])"

definition target_fields :: "(in6_addr \<Rightarrow> string) \<Rightarrow> rpl_dao_opt_target \<Rightarrow> field list" where
  "target_fields ntop target =
     [number_field ''icmpv6.rpl.opt.target.prefix_length'' (tgt_target_bit_length target),
      (''icmpv6.rpl.opt.target.prefix'', ntop (tgt_target target), Some [], 0)]"

definition transit_fields :: "(in6_addr \<Rightarrow> string) \<Rightarrow> rpl_dao_opt_transit \<Rightarrow> field list" where
  "transit_fields ntop transit =
     [flag_field ''icmpv6.rpl.opt.transit.flag.e'' (tra_external transit),
      number_field ''icmpv6.rpl.opt.transit.pathctl'' (tra_path_control transit),
      number_field ''icmpv6.rpl.opt.transit.pathseq'' (tra_path_sequence transit),
      number_field ''icmpv6.rpl.opt.transit.pathlifetime'' (tra_path_lifetime transit)]
     @ (if tra_parent_addr_present transit
        then [(''icmpv6.rpl.opt.transit.parent'', ntop (tra_parent_address transit), Some [], 0)] else [])"

definition hop_by_hop_fields :: "bool \<Rightarrow> rpl_hop_by_hop_opt \<Rightarrow> field list" where
  "hop_by_hop_fields inverted hop =
     [flag_field ''ipv6.opt.rpl.flag.o'' (\<not> hbh_packet_toward_root hop),
      flag_field ''ipv6.opt.rpl.flag.r'' (hbh_rank_error hop),
      flag_field ''ipv6.opt.rpl.flag.f'' (hbh_forwarding_error hop),
      number_field ''ipv6.opt.rpl.instance_id'' (hbh_rpl_instance_id hop),
      number_field ''ipv6.opt.rpl.sender_rank''
        (if inverted then word_of_bytes (rev (bytes_of 2 (hbh_sender_rank hop))) else hbh_sender_rank hop)]"

subsection \<open>The parser on one field\<close>

text \<open>A field of a message, once the kind of the packet is known.\<close>

definition parse_union :: "libc \<Rightarrow> analyser_config \<Rightarrow> packet_type \<Rightarrow> string \<Rightarrow> string \<Rightarrow> u64 \<Rightarrow> memory \<Rightarrow> memory" where
  "parse_union lib config type nameStr showStr valueInt m =
     (case type of
        PT_DIS \<Rightarrow> parse_dis lib nameStr showStr valueInt m
      | PT_DIO \<Rightarrow> parse_dio lib nameStr showStr valueInt m
      | PT_DAO \<Rightarrow> parse_dao lib nameStr showStr valueInt m
      | _ \<Rightarrow> parse_data (cfg_sender_rank_inverted config) nameStr valueInt m)"

definition header_names :: "string list" where
  "header_names = [''icmpv6.checksum_bad'', ''wpan.src16'', ''wpan.src64'', ''wpan.dst64'', ''wpan.dst_addr64'',
     ''ipv6.src'', ''ipv6.dst'', ''ipv6.hlim'', ''ipv6.nxt'', ''icmpv6.type'', ''icmpv6.code'']"

lemma parse_field_message:
  assumes "\<not> pc_is_bad c" "nameStr \<notin> set header_names"
    and "pkt_type (pc_pkt_info c) = PT_IPv6_Unknown \<Longrightarrow> \<not> strncmp_eq showStr ''Next header:'' 12"
  shows "rpl_parser_parse_field lib config nameStr showStr (Some v) valueInt c =
     c\<lparr>pc_union := parse_union lib config (pkt_type (pc_pkt_info c)) nameStr showStr valueInt (pc_union c)\<rparr>"
proof -
  have "parse_header lib nameStr showStr (Some v) valueInt c = c"
    using assms(2,3) by (auto simp: parse_header_def header_names_def Let_def)
  then show ?thesis
    using assms(1) by (simp add: rpl_parser_parse_field_def parse_union_def Let_def)
qed

definition parse_messages :: "libc \<Rightarrow> analyser_config \<Rightarrow> packet_type \<Rightarrow> field list \<Rightarrow> memory \<Rightarrow> memory" where
  "parse_messages lib config type fs m =
     fold (\<lambda>(nameStr, showStr, valueStr, valueInt). parse_union lib config type nameStr showStr valueInt) fs m"

definition message_field :: "packet_type \<Rightarrow> field \<Rightarrow> bool" where
  "message_field type f \<longleftrightarrow> (case f of (nameStr, showStr, valueStr, valueInt) \<Rightarrow>
     nameStr \<notin> set header_names \<and> valueStr \<noteq> None \<and> (type = PT_IPv6_Unknown \<longrightarrow> showStr = []))"

lemma parse_fields_messages:
  assumes "\<not> pc_is_bad c" "pkt_type (pc_pkt_info c) = type" "\<forall>f\<in>set fs. message_field type f"
  shows "parse_fields lib config fs c = c\<lparr>pc_union := parse_messages lib config type fs (pc_union c)\<rparr>"
  using assms
proof (induction fs arbitrary: c)
  case Nil
  then show ?case by (simp add: parse_fields_def parse_messages_def)
next
  case (Cons f fs)
  obtain n s v i where f: "f = (n, s, Some v, i)" using Cons.prems(3) by (auto simp: message_field_def)
  then have "n \<notin> set header_names" "type = PT_IPv6_Unknown \<longrightarrow> s = []" using Cons.prems(3) by (auto simp: message_field_def)
  then have "rpl_parser_parse_field lib config n s (Some v) i c = c\<lparr>pc_union := parse_union lib config type n s i (pc_union c)\<rparr>"
    using parse_field_message [of c n s lib config v i] Cons.prems by (auto simp: strncmp_eq_def)
  then show ?case
    using Cons.IH [of "c\<lparr>pc_union := parse_union lib config type n s i (pc_union c)\<rparr>"] Cons.prems f
    by (simp add: parse_fields_def parse_messages_def)
qed

subsection \<open>Which bytes a group of fields writes\<close>

definition same_outside :: "nat set \<Rightarrow> memory \<Rightarrow> memory \<Rightarrow> bool" where
  "same_outside S m m' \<longleftrightarrow> (\<forall>i. i \<notin> S \<longrightarrow> m' i = m i)"

lemma same_outside_refl [simp]: "same_outside S m m"
  by (simp add: same_outside_def)

lemma same_outside_trans: "same_outside S m m' \<Longrightarrow> same_outside T m' m'' \<Longrightarrow> same_outside (S \<union> T) m m''"
  by (simp add: same_outside_def)

lemma same_outside_store: "{off..<off + length bs} \<subseteq> S \<Longrightarrow> same_outside S m m' \<Longrightarrow> same_outside S m (store off bs m')"
  by (auto simp: same_outside_def store_def)

lemma same_outside_interval:
  "a \<le> off \<Longrightarrow> off + length bs \<le> b \<Longrightarrow> same_outside {a..<b} m m' \<Longrightarrow> same_outside {a..<b} m (store off bs m')"
  "a \<le> off \<Longrightarrow> off + length bs \<le> b \<Longrightarrow> same_outside (insert f {a..<b}) m m'
     \<Longrightarrow> same_outside (insert f {a..<b}) m (store off bs m')"
  "same_outside (insert f {a..<b}) m m' \<Longrightarrow> same_outside (insert f {a..<b}) m (store f [x] m')"
  by (auto intro!: same_outside_store)

lemma load_same: "same_outside S m m' \<Longrightarrow> \<forall>i\<in>S. i < off \<or> off + n \<le> i \<Longrightarrow> load off n m' = load off n m"
  unfolding load_def same_outside_def by (rule map_cong) (auto, metis leD)

lemma members_same:
  assumes "same_outside S m m'"
  shows "off \<notin> S \<Longrightarrow> m' off = m off"
    "off \<notin> S \<Longrightarrow> (m' off = 0) = (m off = 0)"
    "\<forall>i\<in>S. i < off \<or> off + 2 \<le> i \<Longrightarrow> load16 off m' = load16 off m"
    "\<forall>i\<in>S. i < off \<or> off + 4 \<le> i \<Longrightarrow> load32 off m' = load32 off m"
    "\<forall>i\<in>S. i < off \<or> off + 16 \<le> i \<Longrightarrow> load_in6 off m' = load_in6 off m"
  using load_same [OF assms, of off] assms by (simp_all add: load16_def load32_def load_in6_def same_outside_def)

text \<open>Where each part of a packet lies in the union.\<close>

lemma union_same:
  assumes "same_outside S m m'"
  shows "\<forall>i\<in>S. 32 \<le> i \<Longrightarrow> union_dio m' = union_dio m"
    "\<forall>i\<in>S. i < 36 \<or> 56 \<le> i \<Longrightarrow> union_config m' = union_config m"
    "\<forall>i\<in>S. i < 56 \<or> 88 \<le> i \<Longrightarrow> union_prefix_info m' = union_prefix_info m"
    "\<forall>i\<in>S. i < 88 \<or> 116 \<le> i \<Longrightarrow> union_route m' = union_route m"
    "\<forall>i\<in>S. i < 116 \<or> 124 \<le> i \<Longrightarrow> union_metric m' = union_metric m"
    "\<forall>i\<in>S. 24 \<le> i \<Longrightarrow> union_dao m' = union_dao m"
    "\<forall>i\<in>S. i < 28 \<or> 48 \<le> i \<Longrightarrow> union_target m' = union_target m"
    "\<forall>i\<in>S. i < 48 \<or> 72 \<le> i \<Longrightarrow> union_transit m' = union_transit m"
  unfolding union_dio_def union_config_def union_prefix_info_def union_route_def union_metric_def union_dao_def
    union_target_def union_transit_def
  by (simp, intro conjI; rule members_same [OF assms]; fastforce)+

subsection \<open>The parser on each field\<close>

lemmas parse_defs = parse_union_def parse_dio_def parse_dao_def parse_data_def dio_base_field_def metric_field_def
  route_field_def config_field_def prefix_field_def dao_base_field_def target_field_def transit_field_def
  hop_by_hop_field_def option_group_def

lemma parse_union_dio:
  "parse_union lib cfg PT_DIO ''icmpv6.rpl.dio.instance'' s v m = store8 0 (ucast v) m"
  "parse_union lib cfg PT_DIO ''icmpv6.rpl.dio.version'' s v m = store8 1 (ucast v) m"
  "parse_union lib cfg PT_DIO ''icmpv6.rpl.dio.rank'' s v m = store16 2 (ucast v) m"
  "parse_union lib cfg PT_DIO ''icmpv6.rpl.dio.flag.g'' s v m = store_bool 4 (v \<noteq> 0) m"
  "parse_union lib cfg PT_DIO ''icmpv6.rpl.dio.flag.mop'' s v m = store32 8 (ucast v) m"
  "parse_union lib cfg PT_DIO ''icmpv6.rpl.dio.flag.preference'' s v m = store8 5 (ucast v) m"
  "parse_union lib cfg PT_DIO ''icmpv6.rpl.dio.dtsn'' s v m = store8 12 (ucast v) m"
  "parse_union lib cfg PT_DIO ''icmpv6.rpl.dio.dagid'' s v m = inet_pton_at lib s 16 m"
  by (simp_all add: parse_defs)

lemma parse_union_metric:
  "parse_union lib cfg PT_DIO ''icmpv6.rpl.opt.metric.type'' s v m = store_bool 35 True (store32 116 (ucast v) m)"
  "parse_union lib cfg PT_DIO ''icmpv6.rpl.opt.metric.etx'' s v m = store_bool 35 True (store32 120 (ucast v) m)"
  by (simp_all add: parse_defs)

lemma parse_union_route:
  "parse_union lib cfg PT_DIO ''icmpv6.rpl.opt.route.prefix_length'' s v m = store_bool 34 True (store8 96 (ucast v) m)"
  "parse_union lib cfg PT_DIO ''icmpv6.rpl.opt.route.pref'' s v m = store_bool 34 True (store8 88 (ucast v) m)"
  "parse_union lib cfg PT_DIO ''icmpv6.rpl.opt.route.lifetime'' s v m = store_bool 34 True (store32 92 (ucast v) m)"
  "parse_union lib cfg PT_DIO ''icmpv6.rpl.opt.route.prefix'' s v m = store_bool 34 True (inet_pton_at lib s 100 m)"
  by (simp_all add: parse_defs)

lemma parse_union_config:
  "parse_union lib cfg PT_DIO ''icmpv6.rpl.opt.config.auth'' s v m = store_bool 32 True (store16 36 (ucast v) m)"
  "parse_union lib cfg PT_DIO ''icmpv6.rpl.opt.config.pcs'' s v m = store_bool 32 True (store8 38 (ucast v) m)"
  "parse_union lib cfg PT_DIO ''icmpv6.rpl.opt.config.interval_double'' s v m = store_bool 32 True (store8 40 (ucast v) m)"
  "parse_union lib cfg PT_DIO ''icmpv6.rpl.opt.config.interval_min'' s v m = store_bool 32 True (store8 39 (ucast v) m)"
  "parse_union lib cfg PT_DIO ''icmpv6.rpl.opt.config.redundancy'' s v m = store_bool 32 True (store8 41 (ucast v) m)"
  "parse_union lib cfg PT_DIO ''icmpv6.rpl.opt.config.max_rank_inc'' s v m = store_bool 32 True (store16 42 (ucast v) m)"
  "parse_union lib cfg PT_DIO ''icmpv6.rpl.opt.config.min_hop_rank_inc'' s v m = store_bool 32 True (store16 44 (ucast v) m)"
  "parse_union lib cfg PT_DIO ''icmpv6.rpl.opt.config.ocp'' s v m = store_bool 32 True (store32 52 (ucast v) m)"
  "parse_union lib cfg PT_DIO ''icmpv6.rpl.opt.config.def_lifetime'' s v m = store_bool 32 True (store8 46 (ucast v) m)"
  "parse_union lib cfg PT_DIO ''icmpv6.rpl.opt.config.lifetime_unit'' s v m = store_bool 32 True (store16 48 (ucast v) m)"
  by (simp_all add: parse_defs)

lemma parse_union_prefix:
  "parse_union lib cfg PT_DIO ''icmpv6.rpl.opt.prefix.length'' s v m = store_bool 33 True (store8 56 (ucast v) m)"
  "parse_union lib cfg PT_DIO ''icmpv6.rpl.opt.prefix.flag.l'' s v m = store_bool 33 True (store_bool 76 (v \<noteq> 0) m)"
  "parse_union lib cfg PT_DIO ''icmpv6.rpl.opt.config.flag.a'' s v m = store_bool 33 True (store_bool 77 (v \<noteq> 0) m)"
  "parse_union lib cfg PT_DIO ''icmpv6.rpl.opt.config.flag.r'' s v m = store_bool 33 True (store_bool 78 (v \<noteq> 0) m)"
  "parse_union lib cfg PT_DIO ''icmpv6.rpl.opt.prefix.valid_lifetime'' s v m = store_bool 33 True (store32 80 (ucast v) m)"
  "parse_union lib cfg PT_DIO ''icmpv6.rpl.opt.prefix.preferred_lifetime'' s v m = store_bool 33 True (store32 84 (ucast v) m)"
  "parse_union lib cfg PT_DIO ''icmpv6.rpl.opt.prefix'' s v m = store_bool 33 True (inet_pton_at lib s 60 m)"
  by (simp_all add: parse_defs)

lemma parse_union_dao:
  "parse_union lib cfg PT_DAO ''icmpv6.rpl.dao.instance'' s v m = store8 0 (ucast v) m"
  "parse_union lib cfg PT_DAO ''icmpv6.rpl.dao.flag.k'' s v m = store_bool 1 (v \<noteq> 0) m"
  "parse_union lib cfg PT_DAO ''icmpv6.rpl.dao.flag.d'' s v m = store_bool 2 (v \<noteq> 0) m"
  "parse_union lib cfg PT_DAO ''icmpv6.rpl.dao.sequence'' s v m = store8 20 (ucast v) m"
  "parse_union lib cfg PT_DAO ''icmpv6.rpl.dao.dodagid'' s v m = inet_pton_at lib s 4 m"
  "parse_union lib cfg PT_DAO ''icmpv6.rpl.opt.target.prefix_length'' s v m = store_bool 24 True (store8 28 (ucast v) m)"
  "parse_union lib cfg PT_DAO ''icmpv6.rpl.opt.target.prefix'' s v m = store_bool 24 True (inet_pton_at lib s 32 m)"
  "parse_union lib cfg PT_DAO ''icmpv6.rpl.opt.transit.flag.e'' s v m = store_bool 25 True (store_bool 48 (v \<noteq> 0) m)"
  "parse_union lib cfg PT_DAO ''icmpv6.rpl.opt.transit.pathctl'' s v m = store_bool 25 True (store8 50 (ucast v) m)"
  "parse_union lib cfg PT_DAO ''icmpv6.rpl.opt.transit.pathseq'' s v m = store_bool 25 True (store8 51 (ucast v) m)"
  "parse_union lib cfg PT_DAO ''icmpv6.rpl.opt.transit.pathlifetime'' s v m = store_bool 25 True (store8 52 (ucast v) m)"
  "parse_union lib cfg PT_DAO ''icmpv6.rpl.opt.transit.parent'' s v m
     = store_bool 25 True (inet_pton_at lib s 56 (store_bool 49 True m))"
  by (simp_all add: parse_defs)

subsection \<open>The parser on each group\<close>

text \<open>The texts that the library reads back.\<close>

definition reads_back :: "libc \<Rightarrow> (in6_addr \<Rightarrow> string) \<Rightarrow> bool" where
  "reads_back lib ntop \<longleftrightarrow> (\<forall>a. lc_inet_pton lib (ntop a) = Some a)"

lemma inet_pton_at_back [simp]: "reads_back lib ntop \<Longrightarrow> inet_pton_at lib (ntop a) off m = store_in6 off a m"
  by (simp add: reads_back_def inet_pton_at_def)

lemma ucast_back: "LENGTH('a::len) \<le> LENGTH('b::len) \<Longrightarrow> ucast (ucast (w :: 'a word) :: 'b word) = w"
  by (rule bit_word_eqI) (auto simp: bit_simps)

lemma ucast_back_64 [simp]:
  "ucast (ucast (a :: u8) :: u64) = a" "ucast (ucast (b :: u16) :: u64) = b" "ucast (ucast (c :: u32) :: u64) = c"
  by (simp_all add: ucast_back)

lemma flag_byte [simp]: "(if b then (1 :: u8) else 0) = 0 \<longleftrightarrow> \<not> b" "(if b then (1 :: u64) else 0) = 0 \<longleftrightarrow> \<not> b"
  by auto

lemma parse_messages_Nil [simp]: "parse_messages lib cfg type [] m = m"
  by (simp add: parse_messages_def)

lemma parse_messages_Cons [simp]:
  "parse_messages lib cfg type ((n, s, v, i) # fs) m = parse_messages lib cfg type fs (parse_union lib cfg type n s i m)"
  by (simp add: parse_messages_def)

lemma parse_messages_append:
  "parse_messages lib cfg type (fs @ gs) m = parse_messages lib cfg type gs (parse_messages lib cfg type fs m)"
  by (simp add: parse_messages_def)

lemma store_hit: "store off [b] m off = b"
  by (simp add: store_def)

lemma parse_dio_fields:
  assumes "reads_back lib ntop"
  shows "union_dio (parse_messages lib cfg PT_DIO (dio_fields ntop dio) m) = dio"
    "same_outside {0..<32} m (parse_messages lib cfg PT_DIO (dio_fields ntop dio) m)"
  using assms by (simp_all add: dio_fields_def parse_union_dio union_dio_def same_outside_interval split del: if_split)

lemma parse_metric_fields:
  "union_metric (parse_messages lib cfg PT_DIO (metric_fields metric) m) = metric"
  "load_bool 35 (parse_messages lib cfg PT_DIO (metric_fields metric) m)"
  "same_outside (insert 35 {116..<124}) m (parse_messages lib cfg PT_DIO (metric_fields metric) m)"
  by (simp_all add: metric_fields_def parse_union_metric union_metric_def same_outside_interval split del: if_split)

lemma parse_route_fields:
  assumes "reads_back lib ntop"
  shows "union_route (parse_messages lib cfg PT_DIO (route_fields ntop route) m) = route"
    "load_bool 34 (parse_messages lib cfg PT_DIO (route_fields ntop route) m)"
    "same_outside (insert 34 {88..<116}) m (parse_messages lib cfg PT_DIO (route_fields ntop route) m)"
  using assms by (simp_all add: route_fields_def parse_union_route union_route_def same_outside_interval split del: if_split)

lemma parse_config_fields:
  "union_config (parse_messages lib cfg PT_DIO (config_fields config) m) = config"
  "load_bool 32 (parse_messages lib cfg PT_DIO (config_fields config) m)"
  "same_outside (insert 32 {36..<56}) m (parse_messages lib cfg PT_DIO (config_fields config) m)"
  by (simp_all add: config_fields_def parse_union_config union_config_def same_outside_interval split del: if_split)

lemma parse_prefix_fields:
  assumes "reads_back lib ntop"
  shows "union_prefix_info (parse_messages lib cfg PT_DIO (prefix_fields ntop prefix) m) = prefix"
    "load_bool 33 (parse_messages lib cfg PT_DIO (prefix_fields ntop prefix) m)"
    "same_outside (insert 33 {56..<88}) m (parse_messages lib cfg PT_DIO (prefix_fields ntop prefix) m)"
  using assms by (simp_all add: prefix_fields_def parse_union_prefix union_prefix_info_def same_outside_interval split del: if_split)

lemma parse_dao_fields:
  assumes "reads_back lib ntop" "\<not> dao_dodagid_present dao \<Longrightarrow> dao_dodagid dao = init_ipv6_addr" "load_in6 4 m = init_ipv6_addr"
  shows "union_dao (parse_messages lib cfg PT_DAO (dao_fields ntop dao) m) = dao"
    "same_outside {0..<24} m (parse_messages lib cfg PT_DAO (dao_fields ntop dao) m)"
  using assms by (cases "dao_dodagid_present dao"; simp add: dao_fields_def parse_union_dao union_dao_def same_outside_interval split del: if_split)+

lemma parse_target_fields:
  assumes "reads_back lib ntop"
  shows "union_target (parse_messages lib cfg PT_DAO (target_fields ntop target) m) = target"
    "load_bool 24 (parse_messages lib cfg PT_DAO (target_fields ntop target) m)"
    "same_outside (insert 24 {28..<48}) m (parse_messages lib cfg PT_DAO (target_fields ntop target) m)"
  using assms by (simp_all add: target_fields_def parse_union_dao union_target_def same_outside_interval)

lemma parse_transit_fields:
  assumes "reads_back lib ntop" "\<not> load_bool 49 m" "load_in6 56 m = init_ipv6_addr"
    "\<not> tra_parent_addr_present transit \<Longrightarrow> tra_parent_address transit = init_ipv6_addr"
  shows "union_transit (parse_messages lib cfg PT_DAO (transit_fields ntop transit) m) = transit"
    "load_bool 25 (parse_messages lib cfg PT_DAO (transit_fields ntop transit) m)"
    "same_outside (insert 25 {48..<72}) m (parse_messages lib cfg PT_DAO (transit_fields ntop transit) m)"
  using assms
  by (cases "tra_parent_addr_present transit";
      simp add: transit_fields_def parse_union_dao union_transit_def same_outside_interval split del: if_split)+

definition data_type :: "packet_type \<Rightarrow> bool" where
  "data_type type \<longleftrightarrow> type \<notin> {PT_None, PT_RPL_Unknown, PT_DIS, PT_DIO, PT_DAO}"

lemma parse_union_data: "data_type type \<Longrightarrow> parse_union lib cfg type n s v m = parse_data (cfg_sender_rank_inverted cfg) n v m"
  by (cases type) (simp_all add: data_type_def parse_union_def)

lemma swapped_rank:
  "(ucast (drop_bit 8 (ucast w :: u64) AND 255 OR push_bit 8 (ucast w) AND 65280) :: u16) = word_of_bytes (rev (bytes_of 2 w))"
  for w :: u16
proof (rule bit_word_eqI)
  fix n assume n: "n < LENGTH(16)"
  have masks: "(255 :: u64) = mask 8" "(65280 :: u64) = push_bit 8 (mask 8)"
    by (simp_all add: mask_eq_exp_minus_1 push_bit_eq_mult)
  show "bit (ucast (drop_bit 8 (ucast w :: u64) AND 255 OR push_bit 8 (ucast w) AND 65280) :: u16) n
      = bit (word_of_bytes (rev (bytes_of 2 w)) :: u16) n"
  proof (cases "n < 8")
    case True
    then show ?thesis by (auto simp: masks bit_simps bit_word_of_bytes rev_nth bit_byte_of)
  next
    case False
    then have "n div 8 = 1" "n mod 8 = n - 8" using n by (simp_all add: div_if mod_if)
    then show ?thesis using False n by (auto simp: masks bit_simps bit_word_of_bytes rev_nth bit_byte_of)
  qed
qed

lemma swap_swap: "word_of_bytes (rev (bytes_of 2 (word_of_bytes (rev (bytes_of 2 w)) :: u16))) = w" for w :: u16
  by (rule bit_word_eqI) (auto simp: bit_word_of_bytes rev_nth bit_byte_of)

lemma parse_hop_by_hop_fields:
  assumes "data_type type"
  shows "union_hop_info (parse_messages lib cfg type (hop_by_hop_fields (cfg_sender_rank_inverted cfg) hop) m) = hop"
    "load_bool 0 (parse_messages lib cfg type (hop_by_hop_fields (cfg_sender_rank_inverted cfg) hop) m)"
  using assms
  by (simp_all add: hop_by_hop_fields_def parse_union_data parse_data_def hop_by_hop_field_def option_group_def
      union_hop_info_def swapped_rank swap_swap)

subsection \<open>The headers\<close>

definition type_fields :: "packet_type \<Rightarrow> field list" where
  "type_fields type =
     (let nxt = (\<lambda>v. (''ipv6.nxt'', [], Some [], v)); icmpv6 = (\<lambda>v. [nxt 58, (''icmpv6.type'', [], Some [], v)]);
          rpl = (\<lambda>v. icmpv6 155 @ [(''icmpv6.code'', [], Some [], v)]) in
      case type of
        PT_TCP \<Rightarrow> [nxt 6] | PT_UDP \<Rightarrow> [nxt 17] | PT_IPv6_Unknown \<Rightarrow> [nxt 59] | PT_ICMPv6_Unknown \<Rightarrow> [nxt 58]
      | PT_PING_ECHO \<Rightarrow> icmpv6 128 | PT_PING_REPLY \<Rightarrow> icmpv6 129 | PT_NDP_RS \<Rightarrow> icmpv6 133 | PT_NDP_RA \<Rightarrow> icmpv6 134
      | PT_NDP_NS \<Rightarrow> icmpv6 135 | PT_NDP_NA \<Rightarrow> icmpv6 136 | PT_NDP_Redirect \<Rightarrow> icmpv6 137 | PT_6ND_DAR \<Rightarrow> icmpv6 157
      | PT_6ND_DAC \<Rightarrow> icmpv6 158 | PT_DIS \<Rightarrow> rpl 0 | PT_DIO \<Rightarrow> rpl 1 | PT_DAO \<Rightarrow> rpl 2
      | PT_RPL_Unknown \<Rightarrow> icmpv6 155 | PT_None \<Rightarrow> [])"

definition header_fields :: "(in6_addr \<Rightarrow> string) \<Rightarrow> string \<Rightarrow> c_int \<Rightarrow> packet_info \<Rightarrow> field list" where
  "header_fields ntop time_text packet_id info =
     [(''frame.number'', show_nat 10 (unat packet_id + 1), None, 0),
      (''frame.time_epoch'', time_text, None, 0),
      (''wpan.dst64'', [], Some (show_nat 16 (unat (bswap64 (pkt_dst_wpan_address info)))), 0),
      (''wpan.src64'', [], Some (show_nat 16 (unat (bswap64 (pkt_src_wpan_address info)))), 0),
      number_field ''ipv6.hlim'' (pkt_hop_limit info),
      (''ipv6.src'', ntop (pkt_src_ip_address info), Some [], 0),
      (''ipv6.dst'', ntop (pkt_dst_ip_address info), Some [], 0)] @ type_fields (pkt_type info)"

lemma parse_fields_append: "parse_fields lib cfg (fs @ gs) c = parse_fields lib cfg gs (parse_fields lib cfg fs c)"
  by (simp add: parse_fields_def)

lemma strtol_packet_id: "ucast (strtol (show_nat 10 (Suc (unat i))) 10 - 1) = (i :: c_int)"
proof -
  have i: "uint i < 2 ^ 32" using unsigned_less [of i, where ?'a = int] by simp
  then have "max (- (2 ^ 63)) (min (2 ^ 63 - 1) (int (Suc (unat i)))) = int (unat i) + 1" using i by simp
  then have "strtol (show_nat 10 (Suc (unat i))) 10 = word_of_nat (unat i) + 1"
    by (simp add: strtol_def strtoll_def read_show_nat)
  moreover have "(word_of_nat (unat i) :: u64) = ucast i" by (rule of_nat_unat)
  ultimately show ?thesis by (simp add: ucast_back)
qed

lemma strtoull_address: "strtoull (show_nat 16 (unat (a :: u64))) 16 = a"
  using unsigned_less [of a, where ?'a = nat] by (simp add: strtoull_def read_show_nat not_le)

lemma parse_header_prefix:
  assumes "reads_back lib ntop" "lc_strtod lib time_text = pkt_timestamp info"
  shows "parse_fields lib cfg
      [(''frame.number'', show_nat 10 (unat packet_id + 1), None, 0),
       (''frame.time_epoch'', time_text, None, 0),
       (''wpan.dst64'', [], Some (show_nat 16 (unat (bswap64 (pkt_dst_wpan_address info)))), 0),
       (''wpan.src64'', [], Some (show_nat 16 (unat (bswap64 (pkt_src_wpan_address info)))), 0),
       number_field ''ipv6.hlim'' (pkt_hop_limit info),
       (''ipv6.src'', ntop (pkt_src_ip_address info), Some [], 0),
       (''ipv6.dst'', ntop (pkt_dst_ip_address info), Some [], 0)] rpl_parser_begin_packet
    = \<lparr>pc_packet_id = packet_id, pc_is_bad = False, pc_pkt_info = info\<lparr>pkt_type := PT_IPv6_Unknown\<rparr>, pc_union = memory_zero\<rparr>"
  using assms
  by (simp add: parse_fields_def rpl_parser_parse_field_def parse_header_def rpl_parser_begin_packet_def strtol_packet_id
      strtoull_address parse_data_def hop_by_hop_field_def option_group_def inet_pton_or_def reads_back_def)

lemma parse_type_fields:
  assumes "type \<notin> {PT_None, PT_RPL_Unknown}" "pkt_type info = PT_IPv6_Unknown"
  shows "parse_fields lib cfg (type_fields type) \<lparr>pc_packet_id = packet_id, pc_is_bad = False, pc_pkt_info = info, pc_union = m\<rparr>
    = \<lparr>pc_packet_id = packet_id, pc_is_bad = False, pc_pkt_info = info\<lparr>pkt_type := type\<rparr>, pc_union = m\<rparr>"
  using assms
  by (cases type)
    (simp_all add: type_fields_def parse_fields_def rpl_parser_parse_field_def parse_header_def type_of_next_header_def
      type_of_icmpv6_def type_of_rpl_code_def strncmp_eq_def parse_defs parse_dis_def)

lemma parse_header_fields:
  assumes "reads_back lib ntop" "lc_strtod lib time_text = pkt_timestamp info" "pkt_type info \<notin> {PT_None, PT_RPL_Unknown}"
  shows "parse_fields lib cfg (header_fields ntop time_text packet_id info) rpl_parser_begin_packet
    = \<lparr>pc_packet_id = packet_id, pc_is_bad = False, pc_pkt_info = info, pc_union = memory_zero\<rparr>"
  unfolding header_fields_def parse_fields_append parse_header_prefix [OF assms(1,2)]
  using assms(3) by (simp add: parse_type_fields)

subsection \<open>Whole packets\<close>

definition optional :: "('a \<Rightarrow> field list) \<Rightarrow> 'a option \<Rightarrow> field list" where
  "optional f x = (case x of None \<Rightarrow> [] | Some a \<Rightarrow> f a)"

lemma optional_simps [simp]: "optional f None = []" "optional f (Some a) = f a"
  by (simp_all add: optional_def)

fun message_fields :: "bool \<Rightarrow> (in6_addr \<Rightarrow> string) \<Rightarrow> rpl_packet \<Rightarrow> field list" where
  "message_fields inverted ntop (got_dis request) = optional (dis_fields ntop) request"
| "message_fields inverted ntop (got_dio dio config metric prefix route) =
     dio_fields ntop dio @ optional config_fields config @ optional metric_fields metric
     @ optional (prefix_fields ntop) prefix @ optional (route_fields ntop) route"
| "message_fields inverted ntop (got_dao dao target transit) =
     dao_fields ntop dao @ optional (target_fields ntop) target @ optional (transit_fields ntop) transit"
| "message_fields inverted ntop (got_data hop) = optional (hop_by_hop_fields inverted) hop"

text \<open>
  The packets that can be printed: the kind is the one of the header, and an address that is absent
  is the zero of the C record.
\<close>

fun printable :: "packet_type \<Rightarrow> rpl_packet \<Rightarrow> bool" where
  "printable type (got_dis request) = (type = PT_DIS)"
| "printable type (got_dio dio config metric prefix route) = (type = PT_DIO)"
| "printable type (got_dao dao target transit) =
     (type = PT_DAO \<and> (dao_dodagid_present dao \<or> dao_dodagid dao = init_ipv6_addr)
      \<and> (\<forall>t\<in>set_option transit. tra_parent_addr_present t \<or> tra_parent_address t = init_ipv6_addr))"
| "printable type (got_data hop) = data_type type"

text \<open>
  What the parser makes of a packet: all of it, but for the option of a DIS, whose DODAG identifier it writes over the flag before it.
\<close>

definition dis_received :: "rpl_dis_opt_info_req \<Rightarrow> rpl_dis_opt_info_req" where
  "dis_received request = request
     \<lparr>dis_dodag_predicate := (u6_addr8 (dis_dodagid request) 0 \<noteq> 0),
      dis_dodagid := \<lparr>u6_addr32_0 = u6_addr32_1 (dis_dodagid request), u6_addr32_1 = u6_addr32_2 (dis_dodagid request),
        u6_addr32_2 = u6_addr32_3 (dis_dodagid request), u6_addr32_3 = 0\<rparr>\<rparr>"

fun as_received :: "rpl_packet \<Rightarrow> rpl_packet" where
  "as_received (got_dis request) = got_dis (map_option dis_received request)"
| "as_received packet = packet"

definition packet_fields :: "bool \<Rightarrow> (in6_addr \<Rightarrow> string) \<Rightarrow> string \<Rightarrow> c_int \<Rightarrow> packet_info \<Rightarrow> rpl_packet \<Rightarrow> field list" where
  "packet_fields inverted ntop time_text packet_id info packet =
     header_fields ntop time_text packet_id info @ message_fields inverted ntop packet"

lemma parse_optional:
  assumes "\<And>x m. same_outside S m (parse_messages lib cfg type (f x) m)"
    and "\<And>x m. get (parse_messages lib cfg type (f x) m) = x \<and> load_bool has (parse_messages lib cfg type (f x) m)"
  shows "same_outside S m (parse_messages lib cfg type (optional f x) m)"
    "\<not> load_bool has m \<Longrightarrow> (if load_bool has (parse_messages lib cfg type (optional f x) m)
       then Some (get (parse_messages lib cfg type (optional f x) m)) else None) = x"
  using assms by (cases x; simp)+

text \<open>The option of a DIS.\<close>

lemma misplaced_in6:
  "load_in6 12 (store_in6 8 a m) = \<lparr>u6_addr32_0 = u6_addr32_1 a, u6_addr32_1 = u6_addr32_2 a, u6_addr32_2 = u6_addr32_3 a, u6_addr32_3 = load32 24 m\<rparr>"
proof -
  have "load 12 16 (store_in6 8 a m) = drop 4 (in6_bytes a) @ load 24 4 m"
    by (rule nth_equalityI) (auto simp: load_def store_def nth_append simp del: upt_rec_numeral)
  moreover have "in6_of_bytes (drop 4 (in6_bytes a) @ bs) =
      \<lparr>u6_addr32_0 = u6_addr32_1 a, u6_addr32_1 = u6_addr32_2 a, u6_addr32_2 = u6_addr32_3 a, u6_addr32_3 = word_of_bytes bs\<rparr>"
    if "length bs = 4" for bs
    using in6_of_bytes_in6_bytes [of a] that by (cases a) (simp add: in6_of_bytes_def)
  moreover have "length (load 24 4 m) = 4" by (simp add: load_def)
  ultimately show ?thesis by (simp add: load_in6_def load32_def)
qed

lemma misplaced_flag: "store_in6 8 a m 8 = u6_addr8 a 0"
  by (simp add: store_def in6_bytes_def)

lemma parse_dis_message:
  assumes "reads_back lib ntop"
  shows "packet_of PT_DIS (parse_messages lib cfg PT_DIS (message_fields inverted ntop (got_dis request)) memory_zero)
    = as_received (got_dis request)"
proof (cases request)
  case None
  then show ?thesis by (simp add: packet_of_def)
next
  case (Some r)
  have zero: "load32 24 memory_zero = 0" by simp
  show ?thesis
    using assms by (simp add: Some packet_of_def dis_fields_def parse_union_def parse_dis_def union_dis_info_def dis_received_def Let_def
      misplaced_in6 misplaced_flag split del: if_split)
qed

lemma parse_dio_message:
  assumes "reads_back lib ntop"
  shows "packet_of PT_DIO (parse_messages lib cfg PT_DIO (message_fields inverted ntop (got_dio dio config metric prefix route))
      memory_zero) = got_dio dio config metric prefix route"
proof -
  let ?P = "parse_messages lib cfg PT_DIO"
  define m1 where "m1 = ?P (dio_fields ntop dio) memory_zero"
  define m2 where "m2 = ?P (optional config_fields config) m1"
  define m3 where "m3 = ?P (optional metric_fields metric) m2"
  define m4 where "m4 = ?P (optional (prefix_fields ntop) prefix) m3"
  define m5 where "m5 = ?P (optional (route_fields ntop) route) m4"
  note c = parse_optional [of "insert 32 {36..<56}" lib cfg PT_DIO config_fields union_config 32, simplified, OF
      parse_config_fields(3) conjI [OF parse_config_fields(1,2)]]
  note m = parse_optional [of "insert 35 {116..<124}" lib cfg PT_DIO metric_fields union_metric 35, OF
      parse_metric_fields(3) conjI [OF parse_metric_fields(1,2)]]
  note p = parse_optional [of "insert 33 {56..<88}" lib cfg PT_DIO "prefix_fields ntop" union_prefix_info 33, OF
      parse_prefix_fields(3) [OF assms] conjI [OF parse_prefix_fields(1,2) [OF assms]]]
  note r = parse_optional [of "insert 34 {88..<116}" lib cfg PT_DIO "route_fields ntop" union_route 34, OF
      parse_route_fields(3) [OF assms] conjI [OF parse_route_fields(1,2) [OF assms]]]
  have s: "same_outside {0..<32} memory_zero m1" "same_outside (insert 32 {36..<56}) m1 m2"
      "same_outside (insert 35 {116..<124}) m2 m3" "same_outside (insert 33 {56..<88}) m3 m4"
      "same_outside (insert 34 {88..<116}) m4 m5"
    by (simp_all only: m1_def m2_def m3_def m4_def m5_def parse_dio_fields(2) [OF assms] c m p r)
  note u = union_same [OF s(1)] union_same [OF s(2)] union_same [OF s(3)] union_same [OF s(4)] union_same [OF s(5)]
  note b = members_same(1) [OF s(1)] members_same(1) [OF s(2)] members_same(1) [OF s(3)] members_same(1) [OF s(4)]
    members_same(1) [OF s(5)]
  have "union_dio m5 = dio" using parse_dio_fields(1) [OF assms] by (simp add: u m1_def)
  moreover have "(if load_bool 32 m5 then Some (union_config m5) else None) = config"
    using c(2) [of m1 config, folded m2_def] by (auto simp: u b split: if_splits)
  moreover have "(if load_bool 35 m5 then Some (union_metric m5) else None) = metric"
    using m(2) [of m2 metric, folded m3_def] by (auto simp: u b split: if_splits)
  moreover have "(if load_bool 33 m5 then Some (union_prefix_info m5) else None) = prefix"
    using p(2) [of m3 prefix, folded m4_def] by (auto simp: u b split: if_splits)
  moreover have "(if load_bool 34 m5 then Some (union_route m5) else None) = route"
    using r(2) [of m4 route, folded m5_def] by (auto simp: u b split: if_splits)
  moreover have "?P (message_fields inverted ntop (got_dio dio config metric prefix route)) memory_zero = m5"
    by (simp add: parse_messages_append m1_def m2_def m3_def m4_def m5_def)
  ultimately show ?thesis by (simp add: packet_of_def)
qed

lemma parse_dao_message:
  assumes "reads_back lib ntop" "printable PT_DAO (got_dao dao target transit)"
  shows "packet_of PT_DAO (parse_messages lib cfg PT_DAO (message_fields inverted ntop (got_dao dao target transit)) memory_zero)
    = got_dao dao target transit"
proof -
  let ?P = "parse_messages lib cfg PT_DAO"
  define m1 where "m1 = ?P (dao_fields ntop dao) memory_zero"
  define m2 where "m2 = ?P (optional (target_fields ntop) target) m1"
  define m3 where "m3 = ?P (optional (transit_fields ntop) transit) m2"
  have dao: "union_dao m1 = dao" "same_outside {0..<24} memory_zero m1"
    unfolding m1_def using assms by (auto intro!: parse_dao_fields)
  note t = parse_optional [of "insert 24 {28..<48}" lib cfg PT_DAO "target_fields ntop" union_target 24, OF
      parse_target_fields(3) [OF assms(1)] conjI [OF parse_target_fields(1,2) [OF assms(1)]]]
  have m2: "same_outside (insert 24 {28..<48}) m1 m2" by (simp only: m2_def t)
  note u = union_same [OF dao(2)] union_same [OF m2]
  note b = members_same [OF dao(2)] members_same [OF m2]
  have m3: "same_outside (insert 25 {48..<72}) m2 m3 \<and> (if load_bool 25 m3 then Some (union_transit m3) else None) = transit"
  proof (cases transit)
    case None
    then show ?thesis by (simp add: m3_def b)
  next
    case (Some x)
    have "load_in6 56 m2 = init_ipv6_addr" "\<not> load_bool 49 m2" by (simp_all add: b)
    moreover have "tra_parent_addr_present x \<or> tra_parent_address x = init_ipv6_addr" using assms(2) Some by simp
    ultimately show ?thesis
      using parse_transit_fields [OF assms(1), of m2 x cfg] Some by (auto simp: m3_def)
  qed
  note u = u union_same [OF conjunct1 [OF m3]]
  note b = b members_same [OF conjunct1 [OF m3]]
  have "union_dao m3 = dao" using dao(1) by (simp add: u)
  moreover have "(if load_bool 24 m3 then Some (union_target m3) else None) = target"
    using t(2) [of m1 target, folded m2_def] by (auto simp: u b split: if_splits)
  moreover have "?P (message_fields inverted ntop (got_dao dao target transit)) memory_zero = m3"
    by (simp add: parse_messages_append m1_def m2_def m3_def)
  ultimately show ?thesis using m3 by (simp add: packet_of_def)
qed

lemma parse_data_message:
  assumes "data_type type"
  shows "packet_of type (parse_messages lib cfg type (message_fields (cfg_sender_rank_inverted cfg) ntop (got_data hop)) memory_zero)
    = got_data hop"
proof -
  have "packet_of type m = got_data (if load_bool 0 m then Some (union_hop_info m) else None)" for m
    using assms by (cases type) (simp_all add: packet_of_def data_type_def)
  then show ?thesis using parse_hop_by_hop_fields [OF assms, of lib cfg] by (cases hop) auto
qed

lemma message_fields_of:
  "\<forall>f\<in>set (dis_fields ntop request). message_field PT_DIS f"
  "\<forall>f\<in>set (dio_fields ntop dio). message_field PT_DIO f" "\<forall>f\<in>set (metric_fields metric). message_field PT_DIO f"
  "\<forall>f\<in>set (route_fields ntop route). message_field PT_DIO f" "\<forall>f\<in>set (config_fields config). message_field PT_DIO f"
  "\<forall>f\<in>set (prefix_fields ntop prefix). message_field PT_DIO f" "\<forall>f\<in>set (dao_fields ntop dao). message_field PT_DAO f"
  "\<forall>f\<in>set (target_fields ntop target). message_field PT_DAO f"
  "\<forall>f\<in>set (transit_fields ntop transit). message_field PT_DAO f"
  "\<forall>f\<in>set (hop_by_hop_fields inverted hop). message_field type f"
  by (simp_all add: message_field_def header_names_def dis_fields_def dio_fields_def metric_fields_def route_fields_def config_fields_def
      prefix_fields_def dao_fields_def target_fields_def transit_fields_def hop_by_hop_fields_def)

lemma message_fields_fields: "printable type packet \<Longrightarrow> \<forall>f\<in>set (message_fields inverted ntop packet). message_field type f"
  using message_fields_of by (cases packet) (auto simp: optional_def split: option.splits)

text \<open>Printing a packet and parsing its fields gives its header back, and the packet as the parser receives it.\<close>

lemma parse_packet_fields:
  assumes "reads_back lib ntop" "lc_strtod lib time_text = pkt_timestamp info" "printable (pkt_type info) packet"
    and c_def: "c = parse_fields lib cfg (packet_fields (cfg_sender_rank_inverted cfg) ntop time_text packet_id info packet)
      rpl_parser_begin_packet"
  shows "is_valid c \<and> pc_packet_id c = packet_id \<and> pc_pkt_info c = info \<and> packet_of (pkt_type info) (pc_union c) = as_received packet"
proof -
  let ?fs = "message_fields (cfg_sender_rank_inverted cfg) ntop packet"
  let ?c = "\<lparr>pc_packet_id = packet_id, pc_is_bad = False, pc_pkt_info = info, pc_union = memory_zero\<rparr>"
  have kind: "pkt_type info \<notin> {PT_None, PT_RPL_Unknown}" using assms(3) by (cases packet) (auto simp: data_type_def)
  have "c = parse_fields lib cfg ?fs ?c"
    by (simp only: c_def packet_fields_def parse_fields_append parse_header_fields [OF assms(1,2) kind])
  also have "\<dots> = ?c\<lparr>pc_union := parse_messages lib cfg (pkt_type info) ?fs memory_zero\<rparr>"
    using parse_fields_messages [of ?c "pkt_type info" ?fs lib cfg] message_fields_fields [OF assms(3)] by simp
  finally have c: "c = \<dots>" .
  have "packet_of (pkt_type info) (parse_messages lib cfg (pkt_type info) ?fs memory_zero) = as_received packet"
  proof (cases packet)
    case (got_dis request)
    then show ?thesis using assms(3) parse_dis_message [OF assms(1)] by simp
  next
    case (got_dio dio config metric prefix route)
    then show ?thesis using assms(3) parse_dio_message [OF assms(1)] by simp
  next
    case (got_dao dao target transit)
    then show ?thesis using assms(3) parse_dao_message [OF assms(1), of dao target transit] by simp
  next
    case (got_data hop)
    then show ?thesis using assms(3) parse_data_message [of "pkt_type info" lib cfg ntop hop] by simp
  qed
  then show ?thesis using kind by (simp add: c is_valid_def)
qed

subsection \<open>The properties\<close>

text \<open>
  C11. What a packet says is what is analyzed: when the fields that describe a packet with its headers are parsed, in the order
  in which tshark writes them, the parser holds the number and the headers of the packet and exactly that packet, whatever its kind and options are, and the end of the
  packet runs the collector on it. The one exception is the option of a DIS, which arrives changed in its DODAG identifier and the flag for it: \<open>as_received\<close>
  says how.
\<close>

theorem packet_round_trip:
  assumes "reads_back lib ntop" "lc_strtod lib time_text = pkt_timestamp info" "printable (pkt_type info) packet"
  shows "\<exists>c. c = parse_fields lib cfg (packet_fields (cfg_sender_rank_inverted cfg) ntop time_text packet_id info packet) rpl_parser_begin_packet
    \<and> pc_packet_id c = packet_id \<and> pc_pkt_info c = info \<and> packet_of (pkt_type info) (pc_union c) = as_received packet
    \<and> rpl_parser_end_packet c w = analyze_packet packet_id info (as_received packet) w"
  using parse_packet_fields [OF assms refl, of cfg packet_id] by (simp add: rpl_parser_end_packet_analyzes)

abbreviation chars_of_in6 :: "in6_addr \<Rightarrow> string" where
  "chars_of_in6 a \<equiv> map (\<lambda>b. char_of (unat b)) (in6_bytes a)"

abbreviation sample_header :: packet_info where
  "sample_header \<equiv> \<lparr>pkt_src_wpan_address = 1, pkt_dst_wpan_address = 2, pkt_src_ip_address = init_ipv6_addr,
     pkt_dst_ip_address = init_ipv6_addr, pkt_timestamp = 5, pkt_hop_limit = 64, pkt_type = PT_UDP\<rparr>"

lemma sample_libc_reads_back: "reads_back sample_libc chars_of_in6"
proof -
  have "(of_char (char_of (unat b)) :: u8) = b" for b :: u8
  proof -
    have "unat b < 256" using unsigned_less [of b, where 'a = nat] by simp
    then have "(of_nat (of_char (char_of (unat b) :: char) :: nat) :: u8) = b" by simp
    then show ?thesis by (simp only: of_nat_of_char)
  qed
  then show ?thesis by (simp add: reads_back_def comp_def in6_of_bytes_in6_bytes)
qed

theorem packet_round_trip_witness:
  "\<exists>c. c = parse_fields sample_libc initial_config (packet_fields (cfg_sender_rank_inverted initial_config) chars_of_in6 ''5.0'' 7
        sample_header
        (got_data (Some \<lparr>hbh_packet_toward_root = True, hbh_rank_error = False, hbh_forwarding_error = False, hbh_rpl_instance_id = 3, hbh_sender_rank = 256\<rparr>)))
        rpl_parser_begin_packet
    \<and> union_hop_info (pc_union c) = \<lparr>hbh_packet_toward_root = True, hbh_rank_error = False, hbh_forwarding_error = False, hbh_rpl_instance_id = 3, hbh_sender_rank = 256\<rparr>
    \<and> rpl_parser_end_packet c (rpl_tool_init (\<lambda>x. x)) = analyze_packet 7 sample_header
        (got_data (Some \<lparr>hbh_packet_toward_root = True, hbh_rank_error = False, hbh_forwarding_error = False, hbh_rpl_instance_id = 3, hbh_sender_rank = 256\<rparr>)) (rpl_tool_init (\<lambda>x. x))"
proof -
  let ?hop = "\<lparr>hbh_packet_toward_root = True, hbh_rank_error = False, hbh_forwarding_error = False, hbh_rpl_instance_id = 3, hbh_sender_rank = 256\<rparr>"
  have "printable (pkt_type sample_header) (got_data (Some ?hop))" by (simp add: data_type_def)
  from packet_round_trip [OF sample_libc_reads_back _ this, of "''5.0''" initial_config 7 "rpl_tool_init (\<lambda>x. x)"]
  obtain c where "c = parse_fields sample_libc initial_config
      (packet_fields (cfg_sender_rank_inverted initial_config) chars_of_in6 ''5.0'' 7 sample_header (got_data (Some ?hop))) rpl_parser_begin_packet"
    "packet_of PT_UDP (pc_union c) = got_data (Some ?hop)"
    "rpl_parser_end_packet c (rpl_tool_init (\<lambda>x. x)) = analyze_packet 7 sample_header (got_data (Some ?hop)) (rpl_tool_init (\<lambda>x. x))"
    by auto
  then show ?thesis by (intro exI [of _ c]) (simp add: packet_of_def split: if_splits)
qed

text \<open>
  C40. The DODAG identifier of a DIS is written in the wrong place: over the predicate flag, 4 bytes before its member, so that the
  flag becomes whether the first byte of the address is set, and what is read as the identifier is the address without its first
  4 bytes, followed by what was in the union before.
\<close>

theorem dis_dodagid_misplaced:
  assumes "lc_inet_pton lib showStr = Some a" "load_bool 0 m"
  shows "dis_dodag_predicate (union_dis_info (parse_dis lib ''icmpv6.rpl.opt.solicited.dodagid'' showStr valueInt m)) = (u6_addr8 a 0 \<noteq> 0)
    \<and> dis_dodagid (union_dis_info (parse_dis lib ''icmpv6.rpl.opt.solicited.dodagid'' showStr valueInt m))
      = \<lparr>u6_addr32_0 = u6_addr32_1 a, u6_addr32_1 = u6_addr32_2 a, u6_addr32_2 = u6_addr32_3 a, u6_addr32_3 = load32 24 m\<rparr>"
proof -
  have m: "parse_dis lib ''icmpv6.rpl.opt.solicited.dodagid'' showStr valueInt m = store_in6 8 a m"
    using assms by (simp add: parse_dis_def inet_pton_at_def)
  show ?thesis unfolding m by (simp add: union_dis_info_def misplaced_in6 misplaced_flag)
qed

theorem dis_dodagid_misplaced_witness:
  "dis_dodagid (union_dis_info (parse_dis \<lparr>lc_strtod = (\<lambda>_. 0), lc_inet_pton = (\<lambda>_. Some \<lparr>u6_addr32_0 = 1, u6_addr32_1 = 2, u6_addr32_2 = 3, u6_addr32_3 = 4\<rparr>)\<rparr>
      ''icmpv6.rpl.opt.solicited.dodagid'' ''fd00::1'' 0 (store_bool 0 True memory_zero)))
    = \<lparr>u6_addr32_0 = 2, u6_addr32_1 = 3, u6_addr32_2 = 4, u6_addr32_3 = 0\<rparr>"
  using dis_dodagid_misplaced [of "\<lparr>lc_strtod = (\<lambda>_. 0), lc_inet_pton = (\<lambda>_. Some \<lparr>u6_addr32_0 = 1, u6_addr32_1 = 2, u6_addr32_2 = 3, u6_addr32_3 = 4\<rparr>)\<rparr>"
      "''fd00::1''" _ "store_bool 0 True memory_zero" 0]
  by simp

end
