(* ===== verification/CircularBuffer.thy ===== *)
theory CircularBuffer
  imports Prelude
begin

section \<open>Circular buffers\<close>

text \<open>
  Models \<open>src/src/circular_buffer.c\<close>: a ring of \<open>size\<close> slots of \<open>element_size\<close> bytes in one block of memory. The
  sizes and indices are natural numbers whose products fit in an \<open>int\<close>; the pointer that
  \<open>circular_buffer_pop_back\<close> returns is an offset into the block. One slot stays free, so that a buffer
  holds at most \<open>size - 1\<close> elements.
  The locale \<open>bounded_queue\<close> is the contract of a queue with a bound; its runs are those of a list.
\<close>

subsection \<open>Bounded queues\<close>

datatype 'a queue_op = push_op 'a | pop_op

datatype 'a queue_out = pushed bool | popped "'a option"

fun fifo_step :: "nat \<Rightarrow> 'a queue_op \<Rightarrow> 'a list \<Rightarrow> 'a queue_out \<times> 'a list" where
  "fifo_step cap (push_op x) xs = (if length xs < cap then (pushed True, xs @ [x]) else (pushed False, xs))"
| "fifo_step cap pop_op [] = (popped None, [])"
| "fifo_step cap pop_op (x # xs) = (popped (Some x), xs)"

lemma fifo_step_bounded: "fifo_step cap op xs = (out, xs') \<Longrightarrow> length xs \<le> cap \<Longrightarrow> length xs' \<le> cap"
  by (induction cap op xs rule: fifo_step.induct) (auto split: if_splits)

fun fifo_run :: "nat \<Rightarrow> 'a queue_op list \<Rightarrow> 'a list \<Rightarrow> 'a queue_out list \<times> 'a list" where
  "fifo_run cap [] xs = ([], xs)"
| "fifo_run cap (op # ops) xs =
     (let (out, xs) = fifo_step cap op xs; (outs, xs) = fifo_run cap ops xs in (out # outs, xs))"

fun queue_step :: "('a \<Rightarrow> 'q \<Rightarrow> (bool \<times> 'q) option) \<Rightarrow> ('q \<Rightarrow> ('a option \<times> 'q) option) \<Rightarrow> 'a queue_op \<Rightarrow> 'q
    \<Rightarrow> ('a queue_out \<times> 'q) option" where
  "queue_step push pop (push_op x) q = map_option (\<lambda>(b, q). (pushed b, q)) (push x q)"
| "queue_step push pop pop_op q = map_option (\<lambda>(x, q). (popped x, q)) (pop q)"

fun queue_run :: "('a \<Rightarrow> 'q \<Rightarrow> (bool \<times> 'q) option) \<Rightarrow> ('q \<Rightarrow> ('a option \<times> 'q) option) \<Rightarrow> 'a queue_op list \<Rightarrow> 'q
    \<Rightarrow> ('a queue_out list \<times> 'q) option" where
  "queue_run push pop [] q = Some ([], q)"
| "queue_run push pop (op # ops) q =
     do { (out, q) \<leftarrow> queue_step push pop op q; (outs, q) \<leftarrow> queue_run push pop ops q; Some (out # outs, q) }"

fun op_valid :: "('a \<Rightarrow> bool) \<Rightarrow> 'a queue_op \<Rightarrow> bool" where
  "op_valid valid (push_op x) = valid x"
| "op_valid valid pop_op = True"

locale bounded_queue =
  fixes push :: "'a \<Rightarrow> 'q \<Rightarrow> (bool \<times> 'q) option" and pop :: "'q \<Rightarrow> ('a option \<times> 'q) option"
    and items :: "'q \<Rightarrow> 'a list" and ok :: "'q \<Rightarrow> bool" and valid :: "'a \<Rightarrow> bool" and cap :: "'q \<Rightarrow> nat"
  assumes push_full: "ok q \<Longrightarrow> \<not> length (items q) < cap q \<Longrightarrow> push x q = Some (False, q)"
    and push_room: "ok q \<Longrightarrow> valid x \<Longrightarrow> length (items q) < cap q \<Longrightarrow>
      \<exists>q'. push x q = Some (True, q') \<and> ok q' \<and> items q' = items q @ [x] \<and> cap q' = cap q"
    and pop_empty: "ok q \<Longrightarrow> items q = [] \<Longrightarrow> pop q = Some (None, q)"
    and pop_item: "ok q \<Longrightarrow> items q = x # xs \<Longrightarrow> \<exists>q'. pop q = Some (Some x, q') \<and> ok q' \<and> items q' = xs \<and> cap q' = cap q"
begin

lemma step_refines:
  assumes "ok q" "op_valid valid op"
  shows "\<exists>out q'. queue_step push pop op q = Some (out, q') \<and> ok q' \<and> cap q' = cap q
    \<and> fifo_step (cap q) op (items q) = (out, items q')"
proof (cases op)
  case (push_op x)
  then show ?thesis using assms push_full [of q x] push_room [of q x] by fastforce
next
  case pop_op
  then show ?thesis using assms(1) pop_empty pop_item by (cases "items q") fastforce+
qed

lemma run_refines:
  assumes "ok q" "list_all (op_valid valid) ops"
  shows "\<exists>outs q'. queue_run push pop ops q = Some (outs, q') \<and> ok q' \<and> cap q' = cap q
    \<and> fifo_run (cap q) ops (items q) = (outs, items q')"
  using assms
proof (induction ops arbitrary: q)
  case Nil
  then show ?case by simp
next
  case (Cons op ops)
  obtain out q' where q': "queue_step push pop op q = Some (out, q')" "ok q'" "cap q' = cap q"
      "fifo_step (cap q) op (items q) = (out, items q')"
    using step_refines [of q op] Cons.prems by auto
  from Cons.IH [OF q'(2)] Cons.prems(2) q' show ?case by auto
qed

lemma bounded: "ok q \<Longrightarrow> length (items q) \<le> cap q \<Longrightarrow> list_all (op_valid valid) ops \<Longrightarrow>
    queue_run push pop ops q = Some (outs, q') \<Longrightarrow> length (items q') \<le> cap q'"
proof (induction ops arbitrary: q outs)
  case Nil
  then show ?case by simp
next
  case (Cons op ops)
  obtain out q1 where q1: "queue_step push pop op q = Some (out, q1)" "ok q1" "cap q1 = cap q"
      "fifo_step (cap q) op (items q) = (out, items q1)"
    using step_refines [of q op] Cons.prems by auto
  then have "length (items q1) \<le> cap q1"
    using Cons.prems(2) fifo_step_bounded by fastforce
  with q1 Cons show ?case by (auto split: bind_splits)
qed

end

subsection \<open>The code\<close>

record circular_buffer =
  cb_data :: "u8 list"
  cb_size :: nat
  cb_element_size :: nat
  cb_read_idx :: nat
  cb_write_idx :: nat

text \<open>\<open>malloc\<close> leaves the bytes of the block undetermined; they are a parameter.\<close>

definition circular_buffer_create :: "(nat \<Rightarrow> u8) \<Rightarrow> nat \<Rightarrow> nat \<Rightarrow> circular_buffer" where
  "circular_buffer_create block sz element_size =
     \<lparr>cb_data = map block [0..<sz * element_size], cb_size = sz, cb_element_size = element_size,
      cb_read_idx = 0, cb_write_idx = 0\<rparr>"

definition circular_buffer_is_empty :: "circular_buffer \<Rightarrow> bool" where
  "circular_buffer_is_empty buf \<longleftrightarrow> cb_read_idx buf = cb_write_idx buf"

definition circular_buffer_is_full :: "circular_buffer \<Rightarrow> bool" where
  "circular_buffer_is_full buf \<longleftrightarrow>
     (let next_index = cb_write_idx buf + 1;
          next_index = (if next_index \<ge> cb_size buf then 0 else next_index)
      in cb_read_idx buf = next_index)"

definition circular_buffer_inc_write_idx :: "circular_buffer \<Rightarrow> circular_buffer" where
  "circular_buffer_inc_write_idx buf =
     (let new_index = cb_write_idx buf + 1
      in if new_index \<ge> cb_size buf then buf\<lparr>cb_write_idx := 0\<rparr> else buf\<lparr>cb_write_idx := new_index\<rparr>)"

definition circular_buffer_inc_read_idx :: "circular_buffer \<Rightarrow> circular_buffer" where
  "circular_buffer_inc_read_idx buf =
     (let new_index = cb_read_idx buf + 1
      in if new_index \<ge> cb_size buf then buf\<lparr>cb_read_idx := 0\<rparr> else buf\<lparr>cb_read_idx := new_index\<rparr>)"

text \<open>\<open>memcpy\<close> of \<open>n\<close> bytes into a block; running past either of them fails.\<close>

definition copy_into :: "nat \<Rightarrow> nat \<Rightarrow> u8 list \<Rightarrow> u8 list \<Rightarrow> u8 list option" where
  "copy_into off n src block =
     (if n \<le> length src \<and> off + n \<le> length block then Some (take off block @ take n src @ drop (off + n) block) else None)"

definition circular_buffer_push_front :: "u8 list \<Rightarrow> circular_buffer \<Rightarrow> (bool \<times> circular_buffer) option" where
  "circular_buffer_push_front data buf =
     (if circular_buffer_is_full buf then Some (False, buf)
      else do { block \<leftarrow> copy_into (cb_write_idx buf * cb_element_size buf) (cb_element_size buf) data (cb_data buf);
                Some (True, circular_buffer_inc_write_idx (buf\<lparr>cb_data := block\<rparr>)) })"

definition circular_buffer_pop_back :: "circular_buffer \<Rightarrow> nat option \<times> circular_buffer" where
  "circular_buffer_pop_back buf =
     (if circular_buffer_is_empty buf then (None, buf)
      else (Some (cb_read_idx buf * cb_element_size buf), circular_buffer_inc_read_idx buf))"

text \<open>The element behind a pointer into the block.\<close>

definition element_at :: "circular_buffer \<Rightarrow> nat \<Rightarrow> u8 list option" where
  "element_at buf off =
     (if off + cb_element_size buf \<le> length (cb_data buf) then Some (take (cb_element_size buf) (drop off (cb_data buf))) else None)"

definition pop_element :: "circular_buffer \<Rightarrow> (u8 list option \<times> circular_buffer) option" where
  "pop_element buf =
     (case circular_buffer_pop_back buf of
        (None, buf) \<Rightarrow> Some (None, buf)
      | (Some off, buf) \<Rightarrow> map_option (\<lambda>x. (Some x, buf)) (element_at buf off))"

subsection \<open>The queue in a buffer\<close>

definition cb_slot :: "circular_buffer \<Rightarrow> nat \<Rightarrow> u8 list" where
  "cb_slot buf i = take (cb_element_size buf) (drop (i * cb_element_size buf) (cb_data buf))"

definition cb_count :: "circular_buffer \<Rightarrow> nat" where
  "cb_count buf =
     (if cb_read_idx buf \<le> cb_write_idx buf then cb_write_idx buf - cb_read_idx buf
      else cb_write_idx buf + cb_size buf - cb_read_idx buf)"

definition cb_items :: "circular_buffer \<Rightarrow> u8 list list" where
  "cb_items buf = map (\<lambda>k. cb_slot buf ((cb_read_idx buf + k) mod cb_size buf)) [0..<cb_count buf]"

definition cb_ok :: "nat \<Rightarrow> circular_buffer \<Rightarrow> bool" where
  "cb_ok n buf \<longleftrightarrow> cb_element_size buf = n \<and> cb_read_idx buf < cb_size buf \<and> cb_write_idx buf < cb_size buf
     \<and> length (cb_data buf) = cb_size buf * n"

definition cb_cap :: "circular_buffer \<Rightarrow> nat" where
  "cb_cap buf = cb_size buf - 1"

lemma slot_fits: "i < k \<Longrightarrow> i * n + n \<le> k * (n :: nat)"
  using mult_le_mono1 [of "Suc i" k n] by simp

lemma slot_copied:
  assumes "length block = sz * n" "w < sz" "i < sz" "length x = n"
  shows "take n (drop (i * n) (take (w * n) block @ x @ drop (w * n + n) block)) = (if i = w then x else take n (drop (i * n) block))"
proof -
  have len: "length (take (w * n) block) = w * n" using slot_fits [OF assms(2), of n] assms(1) by simp
  consider "i < w" | "i = w" | "w < i" by linarith
  then show ?thesis
  proof cases
    case 1
    then have "i * n + n \<le> w * n" by (rule slot_fits)
    then have "take n (drop (i * n) (take (w * n) block)) = take n (drop (i * n) block)"
      by (simp add: drop_take min_def)
    then show ?thesis using 1 len \<open>i * n + n \<le> w * n\<close> by simp
  next
    case 2
    then show ?thesis using len assms(4) by simp
  next
    case 3
    then have "w * n + n \<le> i * n" by (rule slot_fits)
    then show ?thesis using 3 len assms(4) by simp
  qed
qed

lemma cb_full: "cb_ok n buf \<Longrightarrow> circular_buffer_is_full buf \<longleftrightarrow> \<not> cb_count buf < cb_cap buf"
  by (auto simp: cb_ok_def circular_buffer_is_full_def cb_count_def cb_cap_def Let_def)

lemma cb_write_slot: "cb_ok n buf \<Longrightarrow> (cb_read_idx buf + cb_count buf) mod cb_size buf = cb_write_idx buf"
  by (auto simp: cb_ok_def cb_count_def)

lemma cb_other_slot:
  "cb_ok n buf \<Longrightarrow> k < cb_count buf \<Longrightarrow> (cb_read_idx buf + k) mod cb_size buf \<noteq> cb_write_idx buf"
  by (cases "cb_read_idx buf + k < cb_size buf") (auto simp: cb_ok_def cb_count_def le_mod_geq split: if_splits)

lemma push_front_room:
  assumes "cb_ok n buf" "length x = n" "cb_count buf < cb_cap buf"
  shows "\<exists>buf'. circular_buffer_push_front x buf = Some (True, buf') \<and> cb_ok n buf' \<and> cb_items buf' = cb_items buf @ [x]
    \<and> cb_cap buf' = cb_cap buf"
proof -
  let ?w = "cb_write_idx buf" and ?s = "cb_size buf"
  define buf1 where "buf1 = buf\<lparr>cb_data := take (?w * n) (cb_data buf) @ x @ drop (?w * n + n) (cb_data buf)\<rparr>"
  define buf' where "buf' = circular_buffer_inc_write_idx buf1"
  have ok: "cb_element_size buf = n" "cb_read_idx buf < ?s" "?w < ?s" "length (cb_data buf) = ?s * n"
    using assms(1) by (simp_all add: cb_ok_def)
  have fits: "?w * n + n \<le> ?s * n" by (rule slot_fits [OF ok(3)])
  have push: "circular_buffer_push_front x buf = Some (True, buf')"
    using assms fits ok
    by (simp add: circular_buffer_push_front_def cb_full [OF assms(1)] copy_into_def buf'_def buf1_def)
  have b: "cb_data buf' = take (?w * n) (cb_data buf) @ x @ drop (?w * n + n) (cb_data buf)" "cb_size buf' = ?s"
      "cb_element_size buf' = n" "cb_read_idx buf' = cb_read_idx buf" "cb_write_idx buf' = (if ?w + 1 \<ge> ?s then 0 else ?w + 1)"
    using ok by (simp_all add: buf'_def buf1_def circular_buffer_inc_write_idx_def Let_def)
  have "cb_ok n buf'" using ok fits assms(2) by (auto simp: cb_ok_def b)
  moreover have slot: "cb_slot buf' i = (if i = ?w then x else cb_slot buf i)" if "i < ?s" for i
    using slot_copied [OF ok(4,3) that assms(2)] by (simp add: cb_slot_def b ok(1))
  have count: "cb_count buf' = Suc (cb_count buf)"
    using assms(3) ok by (auto simp: cb_count_def cb_cap_def b split: if_splits)
  have "cb_items buf' = cb_items buf @ [x]"
    using cb_write_slot [OF assms(1)] cb_other_slot [OF assms(1)] ok(2)
    by (auto simp: cb_items_def count slot b(2,4) intro!: map_cong)
  ultimately show ?thesis using push by (simp add: cb_cap_def b)
qed

lemma pop_back_item:
  assumes "cb_ok n buf" "cb_items buf = x # xs"
  shows "\<exists>buf'. pop_element buf = Some (Some x, buf') \<and> cb_ok n buf' \<and> cb_items buf' = xs \<and> cb_cap buf' = cb_cap buf"
proof -
  let ?r = "cb_read_idx buf" and ?s = "cb_size buf"
  define buf' where "buf' = circular_buffer_inc_read_idx buf"
  have ok: "cb_element_size buf = n" "?r < ?s" "cb_write_idx buf < ?s" "length (cb_data buf) = ?s * n"
    using assms(1) by (simp_all add: cb_ok_def)
  have b: "cb_data buf' = cb_data buf" "cb_size buf' = ?s" "cb_element_size buf' = n" "cb_write_idx buf' = cb_write_idx buf"
      "cb_read_idx buf' = (?r + 1) mod ?s"
    using ok by (auto simp: buf'_def circular_buffer_inc_read_idx_def Let_def mod_Suc)
  have "length (cb_items buf) = cb_count buf" by (simp add: cb_items_def)
  then have c: "cb_count buf = Suc (length xs)" by (simp add: assms(2))
  then have ne: "?r \<noteq> cb_write_idx buf" by (auto simp: cb_count_def)
  have upt: "[0..<cb_count buf] = 0 # map Suc [0..<length xs]" unfolding c by (simp add: map_Suc_upt upt_conv_Cons del: upt_Suc)
  have x: "x = cb_slot buf ?r" "xs = map (\<lambda>k. cb_slot buf ((?r + Suc k) mod ?s)) [0..<length xs]"
    using assms(2) ok(2) by (simp_all add: cb_items_def upt comp_def)
  have count: "cb_count buf' = length xs"
    using c ok ne by (auto simp: cb_count_def b mod_Suc split: if_splits)
  have "cb_items buf' = xs"
    by (subst x(2)) (simp add: cb_items_def count b cb_slot_def ok(1) mod_simps)
  moreover have "cb_ok n buf'" using ok by (auto simp: cb_ok_def b)
  moreover have "pop_element buf = Some (Some x, buf')"
    using ne slot_fits [OF ok(2), of n] ok x(1)
    by (simp add: pop_element_def circular_buffer_pop_back_def circular_buffer_is_empty_def element_at_def b cb_slot_def
        flip: buf'_def)
  ultimately show ?thesis by (simp add: cb_cap_def b)
qed

interpretation circular: bounded_queue circular_buffer_push_front pop_element cb_items "cb_ok n" "\<lambda>x. length x = n" cb_cap
  for n
proof
  fix q x xs assume ok: "cb_ok n q"
  show "\<not> length (cb_items q) < cb_cap q \<Longrightarrow> circular_buffer_push_front x q = Some (False, q)"
    using cb_full [OF ok] by (simp add: circular_buffer_push_front_def cb_items_def)
  show "length x = n \<Longrightarrow> length (cb_items q) < cb_cap q \<Longrightarrow>
      \<exists>q'. circular_buffer_push_front x q = Some (True, q') \<and> cb_ok n q' \<and> cb_items q' = cb_items q @ [x] \<and> cb_cap q' = cb_cap q"
    using push_front_room [OF ok] by (simp add: cb_items_def)
  show "cb_items q = [] \<Longrightarrow> pop_element q = Some (None, q)"
    using ok
    by (auto simp: cb_items_def cb_count_def cb_ok_def pop_element_def circular_buffer_pop_back_def
        circular_buffer_is_empty_def split: if_splits)
  show "cb_items q = x # xs \<Longrightarrow> \<exists>q'. pop_element q = Some (Some x, q') \<and> cb_ok n q' \<and> cb_items q' = xs \<and> cb_cap q' = cb_cap q"
    by (rule pop_back_item [OF ok])
qed

lemma create_ok: "0 < sz \<Longrightarrow> cb_ok n (circular_buffer_create block sz n)"
    "cb_items (circular_buffer_create block sz n) = []" "cb_cap (circular_buffer_create block sz n) = sz - 1"
  by (simp_all add: cb_ok_def circular_buffer_create_def cb_items_def cb_count_def cb_cap_def)

text \<open>A push leaves the slot before the one that is read next alone.\<close>

lemma push_keeps_slot:
  assumes "cb_ok n buf" "length x = n" "r < cb_size buf" "cb_read_idx buf = (r + 1) mod cb_size buf"
  shows "\<exists>b buf'. circular_buffer_push_front x buf = Some (b, buf') \<and> cb_ok n buf' \<and> cb_size buf' = cb_size buf
    \<and> cb_read_idx buf' = cb_read_idx buf \<and> cb_slot buf' r = cb_slot buf r"
proof (cases "circular_buffer_is_full buf")
  case True
  then show ?thesis using assms(1) by (intro exI [of _ False] exI [of _ buf]) (simp add: circular_buffer_push_front_def)
next
  case False
  let ?w = "cb_write_idx buf"
  have ok: "cb_element_size buf = n" "?w < cb_size buf" "length (cb_data buf) = cb_size buf * n" "cb_read_idx buf < cb_size buf"
    using assms(1) by (simp_all add: cb_ok_def)
  have "r \<noteq> ?w" using False assms(3,4) ok(2) by (auto simp: circular_buffer_is_full_def Let_def mod_Suc split: if_splits)
  then have slot: "take n (drop (r * n) (take (?w * n) (cb_data buf) @ x @ drop (?w * n + n) (cb_data buf))) = take n (drop (r * n) (cb_data buf))"
    using slot_copied [OF ok(3,2) assms(3,2)] by simp
  have fits: "?w * n + n \<le> cb_size buf * n" by (rule slot_fits [OF ok(2)])
  define buf' where "buf' = circular_buffer_inc_write_idx (buf\<lparr>cb_data := take (?w * n) (cb_data buf) @ x @ drop (?w * n + n) (cb_data buf)\<rparr>)"
  have b: "cb_data buf' = take (?w * n) (cb_data buf) @ x @ drop (?w * n + n) (cb_data buf)" "cb_element_size buf' = n"
      "cb_size buf' = cb_size buf" "cb_read_idx buf' = cb_read_idx buf" "cb_write_idx buf' = (if ?w + 1 \<ge> cb_size buf then 0 else ?w + 1)"
    using ok by (simp_all add: buf'_def circular_buffer_inc_write_idx_def Let_def)
  have "circular_buffer_push_front x buf = Some (True, buf')"
    using False ok fits assms(2) by (simp add: circular_buffer_push_front_def copy_into_def buf'_def)
  moreover have "cb_ok n buf'" using ok fits assms(2) by (auto simp: cb_ok_def b)
  moreover have "cb_slot buf' r = cb_slot buf r" by (simp only: cb_slot_def b(1,2) ok(1) slot)
  ultimately show ?thesis by (intro exI [of _ True] exI [of _ buf']) (simp add: b)
qed

subsection \<open>The properties\<close>

text \<open>
  C19. A circular buffer of \<open>sz\<close> slots behaves in every sequence of pushes and pops as a first-in first-out list that holds at most \<open>sz - 1\<close>
  elements: no call fails, each returns what it returns for the list, and the buffer holds the elements of the
  list.
\<close>

theorem circular_buffer_is_fifo:
  assumes "0 < sz" "list_all (op_valid (\<lambda>x. length x = n)) ops"
  shows "\<exists>outs q. queue_run circular_buffer_push_front pop_element ops (circular_buffer_create block sz n) = Some (outs, q)
    \<and> fifo_run (sz - 1) ops [] = (outs, cb_items q) \<and> length (cb_items q) \<le> sz - 1"
proof -
  note ok = create_ok(1) [OF assms(1), of n block] create_ok(2,3) [of block sz n]
  obtain outs q where q: "queue_run circular_buffer_push_front pop_element ops (circular_buffer_create block sz n) = Some (outs, q)"
      "cb_cap q = sz - 1" "fifo_run (sz - 1) ops [] = (outs, cb_items q)"
    using circular.run_refines [OF ok(1) assms(2)] ok(2,3) by auto
  moreover have "length (cb_items q) \<le> cb_cap q"
    using circular.bounded [OF ok(1) _ assms(2) q(1)] ok(2) by simp
  ultimately show ?thesis by auto
qed

theorem circular_buffer_is_fifo_witness:
  "\<exists>outs q. queue_run circular_buffer_push_front pop_element
      [push_op [1, 2], push_op [3, 4], push_op [5, 6], pop_op, push_op [7, 8], pop_op, pop_op, pop_op] (circular_buffer_create (\<lambda>_. 0) 3 2) = Some (outs, q)
    \<and> outs = [pushed True, pushed True, pushed False, popped (Some [1, 2]), pushed True, popped (Some [3, 4]), popped (Some [7, 8]), popped None]"
  using circular_buffer_is_fifo [of 3 2
      "[push_op [1, 2], push_op [3, 4], push_op [5, 6], pop_op, push_op [7, 8], pop_op, pop_op, pop_op]" "\<lambda>_. 0"]
  by (auto simp del: queue_run.simps queue_step.simps)

text \<open>
  The pointer that \<open>circular_buffer_pop_back\<close> returns goes on pointing to the element, although its slot is free: no number of
  pushes overwrites it before the next pop, because one slot always stays free.
\<close>

theorem popped_element_lives:
  assumes "cb_ok n buf" "circular_buffer_pop_back buf = (Some off, buf1)" "list_all (\<lambda>x. length x = n) xs"
  shows "\<exists>buf2. each (\<lambda>x b. map_option snd (circular_buffer_push_front x b)) xs buf1 = Some buf2
    \<and> element_at buf2 off = element_at buf off"
proof -
  let ?r = "cb_read_idx buf" and ?s = "cb_size buf"
  define keeps where "keeps b \<longleftrightarrow> cb_ok n b \<and> cb_size b = ?s \<and> cb_read_idx b = (?r + 1) mod ?s \<and> cb_slot b ?r = cb_slot buf ?r" for b
  have ok: "?r < ?s" "length (cb_data buf) = ?s * n" "cb_element_size buf = n" using assms(1) by (simp_all add: cb_ok_def)
  have off: "off = ?r * n" using assms(1,2) by (auto simp: circular_buffer_pop_back_def cb_ok_def split: if_splits)
  have element: "element_at b off = Some (cb_slot buf ?r)" if "keeps b" for b
    using that slot_fits [OF ok(1), of n] off by (auto simp: keeps_def cb_ok_def element_at_def cb_slot_def)
  have "keeps buf1"
    using assms(1,2)
    by (auto simp: keeps_def cb_ok_def circular_buffer_pop_back_def circular_buffer_inc_read_idx_def cb_slot_def Let_def mod_Suc split: if_splits)
  then have "\<exists>b. each (\<lambda>x b. map_option snd (circular_buffer_push_front x b)) xs buf1 = Some b \<and> keeps b"
    using assms(3)
  proof (induction xs arbitrary: buf1)
    case Nil
    then show ?case by simp
  next
    case (Cons x xs)
    have b: "cb_ok n buf1" "length x = n" using Cons.prems by (simp_all add: keeps_def)
    have "\<exists>b'. map_option snd (circular_buffer_push_front x buf1) = Some b' \<and> keeps b'"
      using push_keeps_slot [OF b, of ?r] Cons.prems(1) ok(1) by (auto simp: keeps_def)
    then show ?case using Cons.IH Cons.prems(2) by auto
  qed
  moreover have "element_at buf off = Some (cb_slot buf ?r)"
    using slot_fits [OF ok(1), of n] off ok by (simp add: element_at_def cb_slot_def)
  ultimately show ?thesis using element by auto
qed

theorem popped_element_lives_witness:
  "\<exists>buf2. each (\<lambda>x b. map_option snd (circular_buffer_push_front x b)) [[5], [6], [7]]
      \<lparr>cb_data = [1, 2, 3], cb_size = 3, cb_element_size = 1, cb_read_idx = 1, cb_write_idx = 2\<rparr> = Some buf2
    \<and> element_at buf2 0 = Some [1]"
  using popped_element_lives [of 1 "\<lparr>cb_data = [1, 2, 3], cb_size = 3, cb_element_size = 1, cb_read_idx = 0, cb_write_idx = 2\<rparr>" 0 _ "[[5], [6], [7]]"]
  by (simp add: cb_ok_def circular_buffer_pop_back_def circular_buffer_is_empty_def circular_buffer_inc_read_idx_def element_at_def)

end
