(* ===== verification/PcapReader.thy ===== *)
theory PcapReader
  imports Prelude
begin

section \<open>Capture files\<close>

text \<open>
  Models \<open>src/src/pcap_reader.c\<close>. A file is its list of bytes and a position; \<open>fread\<close> returns what there is, and
  \<open>fseek\<close> may go past the end. The positions of the packets go into an array that is doubled when it
  is full; it is the list of the cells that are allocated, new ones being 0. The code keeps the positions, the number of packets and the size of the array each in
  an \<open>int\<close>, here at its 32 bits. Writing the array past its end fails, as does allocating a negative size, or reading the array past the number of packets.
  \<open>write_pcap\<close> is the layout of the file that the reader expects: a header of 24 bytes, then for
  each packet a header of 16 bytes with its length as the third word, and its data. \<open>packet_chain\<close> says
  of any bytes where packets begin in them.
\<close>

record pcaprec_hdr_s =
  ts_sec :: u32
  ts_usec :: u32
  incl_len :: u32
  orig_len :: u32

definition pcap_hdr_size :: nat where "pcap_hdr_size = 24"
definition pcaprec_hdr_size :: nat where "pcaprec_hdr_size = 16"

record pcap_file =
  pf_bytes :: "u8 list"
  pf_pos :: nat
  pf_packet_pos_infile :: "c_int list"
  pf_packet_count :: c_int
  pf_array_size :: c_int

text \<open>\<open>fread(buffer, 1, n, file)\<close> and \<open>fseek(file, pos, SEEK_SET)\<close>, which fails on a negative position.\<close>

definition fread :: "nat \<Rightarrow> pcap_file \<Rightarrow> u8 list \<times> pcap_file" where
  "fread n f = (let bs = take n (drop (pf_pos f) (pf_bytes f)) in (bs, f\<lparr>pf_pos := pf_pos f + length bs\<rparr>))"

definition fseek_set :: "c_int \<Rightarrow> pcap_file \<Rightarrow> pcap_file" where
  "fseek_set pos f = (if 0 \<le> sint pos then f\<lparr>pf_pos := nat (sint pos)\<rparr> else f)"

definition read_hdr :: "u8 list \<Rightarrow> pcaprec_hdr_s" where
  "read_hdr bs = \<lparr>ts_sec = word_of_bytes (take 4 bs), ts_usec = word_of_bytes (take 4 (drop 4 bs)),
     incl_len = word_of_bytes (take 4 (drop 8 bs)), orig_len = word_of_bytes (take 4 (drop 12 bs))\<rparr>"

text \<open>The position of a header that has just been read goes into the array, which grows when it is full.\<close>

definition grow_positions :: "pcap_file \<Rightarrow> pcap_file option" where
  "grow_positions f =
     (if sint (pf_packet_count f) \<ge> sint (pf_array_size f)
      then let size = (if pf_array_size f = 0 then 1 else pf_array_size f * 2)
           in if 0 \<le> sint size
              then Some (f\<lparr>pf_array_size := size,
                           pf_packet_pos_infile := take (unat size) (pf_packet_pos_infile f @ replicate (unat size) 0)\<rparr>)
              else None
      else Some f)"

definition add_packet_pos :: "pcap_file \<Rightarrow> pcap_file option" where
  "add_packet_pos f =
     do { f \<leftarrow> grow_positions f;
          let i = sint (pf_packet_count f);
          if 0 \<le> i \<and> i < int (length (pf_packet_pos_infile f))
          then Some (f\<lparr>pf_packet_pos_infile := (pf_packet_pos_infile f)[nat i := of_nat (pf_pos f - pcaprec_hdr_size)],
                       pf_packet_count := pf_packet_count f + 1\<rparr>)
          else None }"

lemma add_packet_pos_file: "add_packet_pos f = Some g \<Longrightarrow> pf_bytes g = pf_bytes f \<and> pf_pos g = pf_pos f"
  by (auto simp: add_packet_pos_def grow_positions_def Let_def bind_eq_Some_conv split: if_splits)

function read_packets :: "pcap_file \<Rightarrow> pcap_file option" where
  "read_packets f =
     (let (header, f) = fread pcaprec_hdr_size f
      in if length header = pcaprec_hdr_size
         then do { f \<leftarrow> add_packet_pos f;
                   read_packets (f\<lparr>pf_pos := pf_pos f + unat (incl_len (read_hdr header))\<rparr>) }
         else Some f)"
  by auto

text \<open>Every round of the loop reads a header, so that it comes to the end of the file.\<close>

termination
  by (relation "measure (\<lambda>f. length (pf_bytes f) - pf_pos f)")
    (auto simp: fread_def pcaprec_hdr_size_def Let_def dest!: add_packet_pos_file)

declare read_packets.simps [simp del]

definition pcap_parser_open :: "u8 list \<Rightarrow> pcap_file option" where
  "pcap_parser_open bytes =
     read_packets \<lparr>pf_bytes = bytes, pf_pos = pcap_hdr_size, pf_packet_pos_infile = [], pf_packet_count = 0, pf_array_size = 0\<rparr>"

text \<open>
  \<open>has_buffer\<close> is whether \<open>packet_data\<close> is not NULL. The result is the new \<open>*len\<close>, the bytes that were read and the file. The
  comparison of \<open>*len\<close>, an \<open>int\<close>, with the length in the header is one of unsigned numbers. What the header
  is after a short read is not determined by the file; here it is what the bytes make of it.
\<close>

definition pcap_parser_get :: "pcap_file \<Rightarrow> nat \<Rightarrow> bool \<Rightarrow> c_int \<Rightarrow> (c_int \<times> u8 list \<times> pcap_file) option" where
  "pcap_parser_get f packet_id has_buffer len =
     (if int packet_id < sint (pf_packet_count f) then
        let f = fseek_set (pf_packet_pos_infile f ! packet_id) f;
            (bs, f) = fread pcaprec_hdr_size f;
            header = read_hdr bs;
            len = (if \<not> has_buffer \<or> len > incl_len header then incl_len header else len)
        in if has_buffer then let (data, f) = fread (unat len) f in Some (of_nat (length data), data, f)
           else Some (len, [], f)
      else None)"

subsection \<open>Reading what was written\<close>

type_synonym pcap_packet = "u32 \<times> u32 \<times> u32 \<times> u8 list"

definition write_packet :: "pcap_packet \<Rightarrow> u8 list" where
  "write_packet = (\<lambda>(sec, usec, orig, data).
     bytes_of 4 sec @ bytes_of 4 usec @ bytes_of 4 (of_nat (length data) :: u32) @ bytes_of 4 orig @ data)"

definition write_pcap :: "u8 list \<Rightarrow> pcap_packet list \<Rightarrow> u8 list" where
  "write_pcap header packets = header @ concat (map write_packet packets)"

abbreviation packet_bytes :: "pcap_packet \<Rightarrow> u8 list" where
  "packet_bytes p \<equiv> snd (snd (snd p))"

lemma read_hdr_written:
  assumes "length (packet_bytes p) < 2 ^ 32"
  shows "length (write_packet p) = 16 + length (packet_bytes p)" "\<And>rest. take 16 (write_packet p @ rest) = take 16 (write_packet p)"
    "unat (incl_len (read_hdr (take 16 (write_packet p)))) = length (packet_bytes p)"
    "drop 16 (write_packet p) = packet_bytes p"
proof -
  obtain sec usec orig data where p: "p = (sec, usec, orig, data)" by (metis prod_cases4)
  show "length (write_packet p) = 16 + length (packet_bytes p)" by (simp add: write_packet_def p)
  then show "take 16 (write_packet p @ rest) = take 16 (write_packet p)" for rest by simp
  show "drop 16 (write_packet p) = packet_bytes p" by (simp add: write_packet_def p)
  have "word_of_bytes (bytes_of 4 (of_nat (length data) :: u32)) = (of_nat (length data) :: u32)"
    by (rule word_of_bytes_bytes_of) simp
  then have "incl_len (read_hdr (take 16 (write_packet p))) = of_nat (length data)"
    by (simp add: write_packet_def read_hdr_def p)
  then show "unat (incl_len (read_hdr (take 16 (write_packet p)))) = length (packet_bytes p)"
    using assms by (simp add: p unat_of_nat)
qed

text \<open>Where the packets begin.\<close>

fun packet_starts :: "nat \<Rightarrow> pcap_packet list \<Rightarrow> nat list" where
  "packet_starts pos [] = []"
| "packet_starts pos (p # ps) = pos # packet_starts (pos + 16 + length (packet_bytes p)) ps"

lemma length_packet_starts [simp]: "length (packet_starts pos ps) = length ps"
  by (induction ps arbitrary: pos) simp_all

subsection \<open>Where the packets are\<close>

text \<open>
  The packets of any bytes from a position: each header of 16 bytes that fits is one, the next one comes after the data
  whose length it gives, and there is no further one when fewer than 16 bytes are left.
\<close>

definition header_at :: "u8 list \<Rightarrow> nat \<Rightarrow> pcaprec_hdr_s" where
  "header_at bytes pos = read_hdr (take 16 (drop pos bytes))"

fun packet_chain :: "u8 list \<Rightarrow> nat \<Rightarrow> nat list \<Rightarrow> bool" where
  "packet_chain bytes pos [] \<longleftrightarrow> length bytes < pos + 16"
| "packet_chain bytes pos (x # xs) \<longleftrightarrow>
     x = pos \<and> pos + 16 \<le> length bytes \<and> packet_chain bytes (pos + 16 + unat (incl_len (header_at bytes pos))) xs"

lemma packet_chain_length: "packet_chain bytes pos xs \<Longrightarrow> xs \<noteq> [] \<Longrightarrow> pos + 16 * length xs \<le> length bytes"
proof (induction xs arbitrary: pos)
  case (Cons x xs)
  then show ?case by (cases "xs = []") force+
qed simp

lemma packet_chain_bounds: "packet_chain bytes pos xs \<Longrightarrow> x \<in> set xs \<Longrightarrow> pos \<le> x \<and> x + 16 \<le> length bytes"
  by (induction xs arbitrary: pos) fastforce+

lemma packet_chain_written:
  assumes "\<forall>p\<in>set ps. length (packet_bytes p) < 2 ^ 32" "packet_chain (before @ concat (map write_packet ps)) (length before) xs"
  shows "xs = packet_starts (length before) ps"
  using assms
proof (induction ps arbitrary: before xs)
  case Nil
  then show ?case by (cases xs) simp_all
next
  case (Cons p ps)
  have p: "length (packet_bytes p) < 2 ^ 32" using Cons.prems(1) by simp
  note w = read_hdr_written [OF p]
  have len: "unat (incl_len (header_at (before @ concat (map write_packet (p # ps))) (length before))) = length (packet_bytes p)"
    using w by (simp add: header_at_def)
  obtain ys where "xs = length before # ys"
      "packet_chain (before @ concat (map write_packet (p # ps))) (length before + 16 + length (packet_bytes p)) ys"
    using Cons.prems(2) w(1) len by (cases xs) auto
  then show ?case using Cons.IH [of "before @ write_packet p" ys] Cons.prems(1) w(1) by (simp add: add.assoc)
qed

subsection \<open>What the reader records\<close>

text \<open>The array holds the positions found so far, and has room for the next ones.\<close>

definition positions_ok :: "pcap_file \<Rightarrow> nat list \<Rightarrow> bool" where
  "positions_ok f xs \<longleftrightarrow> length xs < 2 ^ 28 \<and> pf_packet_count f = of_nat (length xs)
     \<and> take (length xs) (pf_packet_pos_infile f) = map of_nat xs
     \<and> length (pf_packet_pos_infile f) = unat (pf_array_size f)
     \<and> length xs \<le> length (pf_packet_pos_infile f) \<and> length (pf_packet_pos_infile f) \<le> 2 * length xs"

lemma sint_of_small_nat:
  assumes "n < 2 ^ 31"
  shows "sint (of_nat n :: c_int) = int n"
proof -
  have "sint (of_nat n :: c_int) = signed_take_bit 31 (int n)" by (simp add: signed_of_nat)
  also have "\<dots> = int n" by (rule signed_take_bit_int_eq_self) (use assms in simp_all)
  finally show ?thesis .
qed

lemma sint_of_small_unat: "unat (w :: c_int) < 2 ^ 31 \<Longrightarrow> sint w = uint w"
  using sint_of_small_nat [of "unat w"] by simp

lemma grow_positions_ok:
  assumes "positions_ok f xs"
  obtains g where "grow_positions f = Some g" "pf_pos g = pf_pos f" "pf_packet_count g = pf_packet_count f"
    "take (length xs) (pf_packet_pos_infile g) = map of_nat xs" "length (pf_packet_pos_infile g) = unat (pf_array_size g)"
    "length xs < length (pf_packet_pos_infile g)" "length (pf_packet_pos_infile g) \<le> 2 * (length xs + 1)"
proof -
  let ?n = "length xs"
  have n: "?n < 2 ^ 28" "sint (pf_packet_count f) = int ?n" "unat (pf_array_size f) \<le> 2 * ?n"
      "sint (pf_array_size f) = uint (pf_array_size f)"
    using assms by (auto simp: positions_ok_def sint_of_small_nat intro!: sint_of_small_unat)
  show thesis
  proof (cases "?n < unat (pf_array_size f)")
    case True
    then have "int ?n < int (unat (pf_array_size f))" by (simp only: of_nat_less_iff)
    then have "grow_positions f = Some f" using n by (simp add: grow_positions_def)
    then show thesis using that [of f] True assms by (simp add: positions_ok_def)
  next
    case False
    define size where "size = (if pf_array_size f = 0 then 1 else pf_array_size f * 2)"
    have full: "unat (pf_array_size f) = ?n" using False assms by (simp add: positions_ok_def)
    have "unat size = (if ?n = 0 then 1 else 2 * ?n)"
      using full n(1) by (auto simp: size_def unat_word_ariths unat_eq_zero)
    moreover from this have "0 \<le> sint size" using n(1) sint_of_small_unat [of size] by auto
    moreover have "length (pf_packet_pos_infile f) = ?n" "take ?n (pf_packet_pos_infile f) = map of_nat xs"
      using assms full by (simp_all add: positions_ok_def)
    moreover have "\<not> int ?n < int (unat (pf_array_size f))" using full by simp
    then have "sint (pf_array_size f) \<le> sint (pf_packet_count f)" using n(2,4) by simp
    ultimately show thesis
      using that [of "f\<lparr>pf_array_size := size, pf_packet_pos_infile := take (unat size) (pf_packet_pos_infile f @ replicate (unat size) 0)\<rparr>"]
      by (simp add: grow_positions_def flip: size_def)
  qed
qed

lemma add_packet_pos_ok:
  assumes "positions_ok f xs" "length xs + 1 < 2 ^ 28"
  obtains g where "add_packet_pos f = Some g" "positions_ok g (xs @ [pf_pos f - 16])" "pf_bytes g = pf_bytes f" "pf_pos g = pf_pos f"
proof -
  obtain g where g: "grow_positions f = Some g" "pf_pos g = pf_pos f" "pf_packet_count g = pf_packet_count f"
    "take (length xs) (pf_packet_pos_infile g) = map of_nat xs" "length (pf_packet_pos_infile g) = unat (pf_array_size g)"
    "length xs < length (pf_packet_pos_infile g)" "length (pf_packet_pos_infile g) \<le> 2 * (length xs + 1)"
    by (rule grow_positions_ok [OF assms(1)])
  have n: "pf_packet_count f = of_nat (length xs)" "sint (of_nat (length xs) :: c_int) = int (length xs)"
    using assms by (simp_all add: positions_ok_def sint_of_small_nat)
  have "int (length xs) < int (length (pf_packet_pos_infile g))" using g(6) by simp
  note room = this [unfolded g(5)]
  define h where "h = g\<lparr>pf_packet_pos_infile := (pf_packet_pos_infile g)[length xs := of_nat (pf_pos f - 16)], pf_packet_count := pf_packet_count f + 1\<rparr>"
  have h: "add_packet_pos f = Some h"
    using g n room by (simp add: add_packet_pos_def h_def pcaprec_hdr_size_def Let_def)
  moreover have "positions_ok h (xs @ [pf_pos f - 16])"
    using g n(1) assms(2) by (simp add: positions_ok_def h_def take_Suc_conv_app_nth add.commute)
  ultimately show thesis using that add_packet_pos_file [OF h] by simp
qed

lemma read_packets_positions:
  assumes "positions_ok f xs" "length (pf_bytes f) < 2 ^ 31" "16 * length xs \<le> pf_pos f"
  shows "\<exists>g ys. read_packets f = Some g \<and> pf_bytes g = pf_bytes f \<and> positions_ok g (xs @ ys) \<and> packet_chain (pf_bytes f) (pf_pos f) ys"
  using assms
proof (induction "length (pf_bytes f) - pf_pos f" arbitrary: f xs rule: less_induct)
  case less
  show ?case
  proof (cases "pf_pos f + 16 \<le> length (pf_bytes f)")
    case True
    then have hdr: "fread 16 f = (take 16 (drop (pf_pos f) (pf_bytes f)), f\<lparr>pf_pos := pf_pos f + 16\<rparr>)"
      by (simp add: fread_def)
    have "positions_ok (f\<lparr>pf_pos := pf_pos f + 16\<rparr>) xs" "length xs + 1 < 2 ^ 28"
      using less.prems True by (simp_all add: positions_ok_def)
    then obtain g where g: "add_packet_pos (f\<lparr>pf_pos := pf_pos f + 16\<rparr>) = Some g" "positions_ok g (xs @ [pf_pos f])"
        "pf_bytes g = pf_bytes f" "pf_pos g = pf_pos f + 16"
      by (rule add_packet_pos_ok) simp
    define h where "h = g\<lparr>pf_pos := pf_pos f + 16 + unat (incl_len (header_at (pf_bytes f) (pf_pos f)))\<rparr>"
    have h: "pf_bytes h = pf_bytes f" "pf_pos h = pf_pos f + 16 + unat (incl_len (header_at (pf_bytes f) (pf_pos f)))"
        "positions_ok h (xs @ [pf_pos f])"
      using g by (simp_all add: h_def positions_ok_def)
    have step: "read_packets f = read_packets h"
      using True by (subst read_packets.simps) (simp add: hdr g header_at_def h_def pcaprec_hdr_size_def)
    have "length (pf_bytes h) - pf_pos h < length (pf_bytes f) - pf_pos f" "length (pf_bytes h) < 2 ^ 31"
        "16 * length (xs @ [pf_pos f]) \<le> pf_pos h"
      using h less.prems True by simp_all
    from less.hyps [OF this(1) h(3) this(2,3)] h(1)
    obtain k ys where "read_packets h = Some k" "pf_bytes k = pf_bytes f" "positions_ok k ((xs @ [pf_pos f]) @ ys)"
        "packet_chain (pf_bytes f) (pf_pos h) ys"
      by metis
    then show ?thesis
      using step True h(2) by (intro exI [of _ k] exI [of _ "pf_pos f # ys"]) simp
  next
    case False
    then have "length (take 16 (drop (pf_pos f) (pf_bytes f))) \<noteq> 16" by simp
    then show ?thesis
      using False less.prems by (intro exI [of _ "snd (fread 16 f)"] exI [of _ "[]"])
        (subst read_packets.simps, simp add: fread_def pcaprec_hdr_size_def positions_ok_def del: length_take)
  qed
qed

lemma pcap_parser_open_positions:
  assumes "length bytes < 2 ^ 31"
  shows "\<exists>f xs. pcap_parser_open bytes = Some f \<and> pf_bytes f = bytes \<and> positions_ok f xs \<and> packet_chain bytes 24 xs"
  using read_packets_positions [of "\<lparr>pf_bytes = bytes, pf_pos = 24, pf_packet_pos_infile = [], pf_packet_count = 0, pf_array_size = 0\<rparr>" "[]"] assms
  by (simp add: pcap_parser_open_def pcap_hdr_size_def positions_ok_def)

lemma positions_ok_nth:
  assumes "positions_ok f xs" "i < length xs"
  shows "pf_packet_pos_infile f ! i = of_nat (xs ! i)"
proof -
  have "pf_packet_pos_infile f ! i = take (length xs) (pf_packet_pos_infile f) ! i" using assms(2) by simp
  also have "\<dots> = map of_nat xs ! i" using assms(1) by (simp only: positions_ok_def)
  finally show ?thesis using assms(2) by simp
qed

lemma packet_at:
  assumes "i < length ps" "\<forall>p\<in>set ps. length (packet_bytes p) < 2 ^ 32"
  shows "\<exists>rest. drop (packet_starts (length before) ps ! i) (before @ concat (map write_packet ps)) = write_packet (ps ! i) @ rest
    \<and> packet_starts (length before) ps ! i \<le> length (before @ concat (map write_packet ps))"
  using assms
proof (induction ps arbitrary: i before)
  case Nil
  then show ?case by simp
next
  case (Cons p ps)
  then have w: "length (write_packet p) = 16 + length (packet_bytes p)" using read_hdr_written(1) by simp
  show ?case
  proof (cases i)
    case 0
    then show ?thesis by simp
  next
    case (Suc j)
    from Cons.IH [of j "before @ write_packet p"] Cons.prems Suc w show ?thesis by (simp add: add.assoc)
  qed
qed

lemma pcap_round_trip:
  assumes "length header = 24" "\<forall>p\<in>set ps. length (packet_bytes p) < 2 ^ 32" "length (write_pcap header ps) < 2 ^ 31" "i < length ps"
  shows "\<exists>g f. pcap_parser_open (write_pcap header ps) = Some g \<and> pcap_parser_get g i True len =
    (let data = take (unat len) (packet_bytes (ps ! i)) in Some (of_nat (length data), data, f))"
proof -
  let ?p = "ps ! i"
  obtain g xs where g: "pcap_parser_open (write_pcap header ps) = Some g" "pf_bytes g = write_pcap header ps" "positions_ok g xs"
      "packet_chain (write_pcap header ps) 24 xs"
    using pcap_parser_open_positions [OF assms(3)] by blast
  have xs: "xs = packet_starts 24 ps"
    using packet_chain_written [OF assms(2), of header xs] g(4) assms(1) by (simp add: write_pcap_def)
  have f: "int i < sint (pf_packet_count g)" "pf_packet_pos_infile g ! i = of_nat (packet_starts 24 ps ! i)"
    using g(3) assms(4) xs positions_ok_nth [OF g(3), of i] by (simp_all add: positions_ok_def sint_of_small_nat)
  obtain rest where at: "drop (packet_starts 24 ps ! i) (write_pcap header ps) = write_packet ?p @ rest"
      "packet_starts 24 ps ! i \<le> length (write_pcap header ps)"
    using packet_at [OF assms(4,2), of header] assms(1) by (auto simp: write_pcap_def)
  define pos where "pos = packet_starts 24 ps ! i"
  have "sint (of_nat pos :: c_int) = int pos"
    using at(2) assms(3) by (intro sint_of_small_nat) (simp add: pos_def)
  then have seek: "fseek_set (pf_packet_pos_infile g ! i) g = g\<lparr>pf_pos := pos\<rparr>"
    by (simp add: fseek_set_def f pos_def)
  have p: "length (packet_bytes ?p) < 2 ^ 32" using assms(2,4) by simp
  note w = read_hdr_written [OF p]
  have hdr: "fread 16 (g\<lparr>pf_pos := pos\<rparr>) = (take 16 (write_packet ?p), g\<lparr>pf_pos := pos + 16\<rparr>)"
    using w(1,2) by (simp add: fread_def g(2) at(1) pos_def)
  have "drop (pos + 16) (write_pcap header ps) = drop 16 (write_packet ?p @ rest)"
    by (simp add: at(1) pos_def add.commute flip: drop_drop)
  then have data: "fst (fread k (g\<lparr>pf_pos := pos + 16\<rparr>)) = take k (packet_bytes ?p @ rest)" for k
    using w(1,4) by (simp add: fread_def g(2) Let_def)
  define n where "n = (if incl_len (read_hdr (take 16 (write_packet ?p))) < len then incl_len (read_hdr (take 16 (write_packet ?p))) else len)"
  have "take (unat n) (packet_bytes ?p @ rest) = take (unat len) (packet_bytes ?p)"
    using w(3) by (auto simp: n_def word_less_nat_alt)
  moreover have "\<exists>f'. pcap_parser_get g i True len = Some (of_nat (length (fst (fread (unat n) (g\<lparr>pf_pos := pos + 16\<rparr>)))),
      fst (fread (unat n) (g\<lparr>pf_pos := pos + 16\<rparr>)), f')"
    using f(1) by (simp add: pcap_parser_get_def seek pcaprec_hdr_size_def hdr n_def Let_def case_prod_unfold prod_eq_iff)
  ultimately show ?thesis using g(1) by (simp add: data Let_def)
qed

subsection \<open>The properties\<close>

text \<open>
  C31. Whatever the bytes of a file of fewer than 2^31 bytes are, opening it returns, no position is written outside the array, and what it records is
  the chain of its packets exactly: the first header stands behind the 24 bytes of the header of the file, each further one behind the data of the one before, the
  last one is the last that fits, and each position is recorded once, in its cell. There are at most as many packets as
  16 bytes fit behind the header, and the array is at most twice as long as it has to be.
\<close>

theorem packet_positions_exact:
  assumes "length bytes < 2 ^ 31"
  shows "\<exists>f xs. pcap_parser_open bytes = Some f \<and> packet_chain bytes 24 xs
    \<and> sint (pf_packet_count f) = int (length xs) \<and> take (length xs) (map sint (pf_packet_pos_infile f)) = map int xs
    \<and> int (length (pf_packet_pos_infile f)) = sint (pf_array_size f) \<and> length xs \<le> length (pf_packet_pos_infile f)
    \<and> length (pf_packet_pos_infile f) \<le> 2 * length xs \<and> 16 * length xs \<le> length bytes - 24"
proof -
  obtain f xs where f: "pcap_parser_open bytes = Some f" "positions_ok f xs" "packet_chain bytes 24 xs"
    using pcap_parser_open_positions [OF assms] by blast
  have "sint (of_nat x :: c_int) = int x" if "x \<in> set xs" for x
    using packet_chain_bounds [OF f(3) that] assms by (intro sint_of_small_nat) simp
  then have "take (length xs) (map sint (pf_packet_pos_infile f)) = map int xs"
    using f(2) by (simp add: positions_ok_def take_map)
  moreover have "16 * length xs \<le> length bytes - 24"
    using packet_chain_length [OF f(3)] by (cases "xs = []") auto
  ultimately show ?thesis
    using f by (intro exI [of _ f] exI [of _ xs]) (simp add: positions_ok_def sint_of_small_nat sint_of_small_unat)
qed

theorem packet_positions_exact_witness:
  "\<exists>f xs. pcap_parser_open (replicate 32 0 @ [4] @ replicate 25 0) = Some f \<and> packet_chain (replicate 32 0 @ [4] @ replicate 25 0) 24 xs
    \<and> sint (pf_packet_count f) = int (length xs)"
  using packet_positions_exact [of "replicate 32 0 @ [4] @ replicate 25 0"] by force

text \<open>
  C30. A capture file that has been written is read back: the reader finds every packet, and \<open>pcap_parser_get\<close> returns
  the data of the packet asked for, as much as fits in the buffer, for files of fewer than 2^31 bytes.
\<close>

theorem capture_file_round_trip:
  assumes "length header = 24" "\<forall>p\<in>set ps. length (packet_bytes p) < 2 ^ 32" "length (write_pcap header ps) < 2 ^ 31" "i < length ps"
  shows "\<exists>g f. pcap_parser_open (write_pcap header ps) = Some g \<and> pcap_parser_get g i True len
    = Some (of_nat (length (take (unat len) (packet_bytes (ps ! i)))), take (unat len) (packet_bytes (ps ! i)), f)"
  using pcap_round_trip [OF assms, of len] by (simp add: Let_def)

theorem capture_file_round_trip_witness:
  "\<exists>g f. pcap_parser_open (write_pcap (replicate 24 0) [(1, 2, 3, [7, 8, 9]), (4, 5, 2, [5, 6])]) = Some g
    \<and> pcap_parser_get g 1 True 100 = Some (2, [5, 6], f)"
  using capture_file_round_trip [of "replicate 24 0" "[(1, 2, 3, [7, 8, 9]), (4, 5, 2, [5, 6])]" 1 100] by (simp add: write_pcap_def write_packet_def)

end
