(* ===== verification/DescPoll.thy ===== *)
theory DescPoll
  imports Prelude
begin

section \<open>Descriptor polling\<close>

text \<open>
  Models \<open>src/src/descriptor_poll.c\<close>: the table of ten descriptors that a thread waits for, with the callback
  of each. The pipe that wakes the thread up is the list of the bytes in it; \<open>select\<close> is the system, and the set of
  ready descriptors that it returns is an input. A callback is a number that a
  parameter of the model runs, and it may change the table. Locks and signals are left out.
  Reading the table past its end fails.
\<close>

record desc_poll_info =
  dp_fd :: int
  dp_callback :: nat
  dp_user_data :: nat

record desc_poll =
  dp_initialized :: bool
  dp_stop_thread :: bool
  dp_poll_data :: "desc_poll_info option list"
  dp_poll_number :: int
  dp_abort_pipe :: "char list"

definition SELECT_FD_NUM :: nat where
  "SELECT_FD_NUM = 10"

definition desc_poll_init :: "desc_poll \<Rightarrow> desc_poll" where
  "desc_poll_init d =
     (if dp_initialized d then d
      else d\<lparr>dp_initialized := True, dp_poll_data := replicate SELECT_FD_NUM None, dp_poll_number := 0,
             dp_abort_pipe := [], dp_stop_thread := False\<rparr>)"

text \<open>The loop stops at the first slot that is free or has the descriptor.\<close>

fun first_slot :: "(desc_poll_info option \<Rightarrow> bool) \<Rightarrow> desc_poll_info option list \<Rightarrow> nat" where
  "first_slot found [] = 0"
| "first_slot found (x # xs) = (if found x then 0 else Suc (first_slot found xs))"

definition desc_poll_add :: "int \<Rightarrow> nat \<Rightarrow> nat \<Rightarrow> desc_poll \<Rightarrow> bool \<times> desc_poll" where
  "desc_poll_add fd callback user_data d =
     (let data = \<lparr>dp_fd = fd, dp_callback = callback, dp_user_data = user_data\<rparr>;
          i = first_slot (\<lambda>x. case x of None \<Rightarrow> True | Some info \<Rightarrow> dp_fd info = fd) (dp_poll_data d)
      in if i < SELECT_FD_NUM then
           (case dp_poll_data d ! i of
              None \<Rightarrow> (True, d\<lparr>dp_poll_data := (dp_poll_data d)[i := Some data], dp_poll_number := dp_poll_number d + 1,
                              dp_abort_pipe := dp_abort_pipe d @ ''a''\<rparr>)
            | Some info \<Rightarrow> (True, d\<lparr>dp_poll_data := (dp_poll_data d)[i := Some (info\<lparr>dp_callback := callback, dp_user_data := user_data\<rparr>)]\<rparr>))
         else (False, d))"

text \<open>The test after the loop reads \<open>poll_data[i]\<close> before it compares \<open>i\<close> with the length.\<close>

definition desc_poll_del :: "int \<Rightarrow> desc_poll \<Rightarrow> desc_poll option" where
  "desc_poll_del fd d =
     (let i = first_slot (\<lambda>x. case x of None \<Rightarrow> False | Some info \<Rightarrow> dp_fd info = fd) (dp_poll_data d)
      in if i < length (dp_poll_data d) then
           (case dp_poll_data d ! i of
              Some info \<Rightarrow> Some (d\<lparr>dp_abort_pipe := dp_abort_pipe d @ ''d'', dp_poll_data := (dp_poll_data d)[i := None],
                                  dp_poll_number := dp_poll_number d - 1\<rparr>)
            | None \<Rightarrow> Some d)
         else None)"

definition desc_poll_cleanup :: "desc_poll \<Rightarrow> desc_poll" where
  "desc_poll_cleanup d = d\<lparr>dp_stop_thread := True, dp_abort_pipe := dp_abort_pipe d @ ''c''\<rparr>"

text \<open>
  One round of the thread. The descriptors that are waited for are collected first; \<open>ready\<close> are those of them that are ready,
  and \<open>pipe_ready\<close> is whether the pipe is. The slots are then visited in order, each as it is at that time.
\<close>

definition max_fd :: "desc_poll_info option list \<Rightarrow> int" where
  "max_fd table = fold (\<lambda>x maxfd. case x of Some info \<Rightarrow> if maxfd < dp_fd info then dp_fd info else maxfd | None \<Rightarrow> maxfd) table (- 1)"

definition visit_slot :: "(nat \<Rightarrow> int \<Rightarrow> nat \<Rightarrow> desc_poll \<Rightarrow> desc_poll option) \<Rightarrow> int set \<Rightarrow> nat \<Rightarrow> desc_poll \<Rightarrow> desc_poll option" where
  "visit_slot run ready i d =
     (if i < length (dp_poll_data d) then
        (case dp_poll_data d ! i of
           Some info \<Rightarrow> if dp_fd info \<in> ready then run (dp_callback info) (dp_fd info) (dp_user_data info) d else Some d
         | None \<Rightarrow> Some d)
      else None)"

definition desc_poll_process_events ::
    "(nat \<Rightarrow> int \<Rightarrow> nat \<Rightarrow> desc_poll \<Rightarrow> desc_poll option) \<Rightarrow> int set \<Rightarrow> bool \<Rightarrow> desc_poll \<Rightarrow> desc_poll option" where
  "desc_poll_process_events run ready pipe_ready d =
     (if max_fd (dp_poll_data d) < 0 then Some d
      else do { d \<leftarrow> each (visit_slot run ready) [0..<SELECT_FD_NUM] d;
                Some (if pipe_ready then d\<lparr>dp_abort_pipe := tl (dp_abort_pipe d)\<rparr> else d) })"

text \<open>
  The thread: rounds until it is told to stop, each with what \<open>select\<close> returns in it. \<open>desc_poll_cleanup\<close> tells it so, and
  frees what it leaves behind.
\<close>

fun desc_poll_run :: "(nat \<Rightarrow> int \<Rightarrow> nat \<Rightarrow> desc_poll \<Rightarrow> desc_poll option) \<Rightarrow> (int set \<times> bool) list \<Rightarrow> desc_poll \<Rightarrow> desc_poll option" where
  "desc_poll_run run [] d = Some d"
| "desc_poll_run run ((ready, pipe_ready) # rounds) d =
     (if dp_stop_thread d then Some d
      else desc_poll_process_events run ready pipe_ready d \<bind> desc_poll_run run rounds)"

lemma cleanup_ends_thread: "desc_poll_run run rounds (desc_poll_cleanup d) = Some (desc_poll_cleanup d)"
  by (cases rounds) (auto simp: desc_poll_cleanup_def)

subsection \<open>The table as a map\<close>

definition poll_ok :: "desc_poll \<Rightarrow> bool" where
  "poll_ok d \<longleftrightarrow> length (dp_poll_data d) = SELECT_FD_NUM
     \<and> dp_poll_number d = int (length (filter (\<lambda>x. x \<noteq> None) (dp_poll_data d)))"

definition polled :: "desc_poll \<Rightarrow> int list" where
  "polled d = map dp_fd (List.map_filter (\<lambda>x. x) (dp_poll_data d))"

lemma first_slot_le: "first_slot found xs \<le> length xs"
  by (induction xs) auto

lemma first_slot_found: "first_slot found xs < length xs \<Longrightarrow> found (xs ! first_slot found xs)"
  by (induction xs) (auto split: if_splits)

lemma first_slot_before: "i < first_slot found xs \<Longrightarrow> \<not> found (xs ! i)"
  by (induction xs arbitrary: i) (auto split: if_splits simp: nth_Cons split: nat.splits)

lemma first_slot_less: "first_slot found xs < length xs \<longleftrightarrow> (\<exists>x\<in>set xs. found x)"
  by (induction xs) auto

lemma first_slot_split: "\<exists>x\<in>set xs. found x \<Longrightarrow> xs = take (first_slot found xs) xs @ xs ! first_slot found xs # drop (Suc (first_slot found xs)) xs"
  using first_slot_less id_take_nth_drop by metis

lemma length_filter_update:
  "i < length xs \<Longrightarrow> int (length (filter P (xs[i := x]))) = int (length (filter P xs)) + (if P x then 1 else 0) - (if P (xs ! i) then 1 else 0)"
proof (induction xs arbitrary: i)
  case (Cons a xs)
  show ?case
  proof (cases i)
    case (Suc j)
    then show ?thesis using Cons.IH [of j] Cons.prems by (cases "P a") simp_all
  qed simp
qed simp

lemma desc_poll_add_ok: "poll_ok d \<Longrightarrow> poll_ok (snd (desc_poll_add fd callback user_data d))"
  by (auto simp: desc_poll_add_def Let_def poll_ok_def length_filter_update split: option.splits)

lemma desc_poll_init_ok: "\<not> dp_initialized d \<Longrightarrow> poll_ok (desc_poll_init d)"
  by (simp add: desc_poll_init_def poll_ok_def)

lemma desc_poll_del_ok: "poll_ok d \<Longrightarrow> desc_poll_del fd d = Some d' \<Longrightarrow> poll_ok d'"
  by (auto simp: desc_poll_del_def Let_def poll_ok_def length_filter_update split: option.splits if_splits)

text \<open>The bug: the descriptor has to be there.\<close>

lemma set_present: "set (List.map_filter (\<lambda>x. x) xs) = {y. Some y \<in> set xs}"
  by (induction xs) (auto simp: map_filter_simps split: option.splits)

lemma in_polled: "fd \<in> set (polled d) \<longleftrightarrow> (\<exists>x\<in>set (dp_poll_data d). case x of None \<Rightarrow> False | Some info \<Rightarrow> dp_fd info = fd)"
proof
  assume "fd \<in> set (polled d)"
  then obtain info where "Some info \<in> set (dp_poll_data d)" "dp_fd info = fd" by (auto simp: polled_def set_present)
  then show "\<exists>x\<in>set (dp_poll_data d). case x of None \<Rightarrow> False | Some info \<Rightarrow> dp_fd info = fd" by force
next
  assume "\<exists>x\<in>set (dp_poll_data d). case x of None \<Rightarrow> False | Some info \<Rightarrow> dp_fd info = fd"
  then show "fd \<in> set (polled d)" by (force simp: polled_def set_present split: option.splits)
qed

lemma desc_poll_del_iff: "desc_poll_del fd d \<noteq> None \<longleftrightarrow> fd \<in> set (polled d)"
  unfolding in_polled first_slot_less [symmetric] by (auto simp: desc_poll_del_def Let_def split: option.splits)

lemma desc_poll_add_iff:
  assumes "poll_ok d"
  shows "fst (desc_poll_add fd callback user_data d) \<longleftrightarrow> fd \<in> set (polled d) \<or> None \<in> set (dp_poll_data d)"
proof -
  have "length (dp_poll_data d) = SELECT_FD_NUM" using assms by (simp add: poll_ok_def)
  moreover have "(\<exists>x\<in>set (dp_poll_data d). case x of None \<Rightarrow> True | Some info \<Rightarrow> dp_fd info = fd) \<longleftrightarrow>
      fd \<in> set (polled d) \<or> None \<in> set (dp_poll_data d)"
    unfolding in_polled by (metis (no_types, lifting) not_Some_eq option.simps(4,5))
  ultimately show ?thesis
    using first_slot_less [of "\<lambda>x. case x of None \<Rightarrow> True | Some info \<Rightarrow> dp_fd info = fd" "dp_poll_data d"]
    by (auto simp: desc_poll_add_def Let_def split: option.splits)
qed

text \<open>
  What a callback may do to the table without disturbing the round: it may change the slot of its own descriptor, and put descriptors that are not
  ready into free slots.
\<close>

definition minds_own :: "int set \<Rightarrow> int \<Rightarrow> desc_poll \<Rightarrow> desc_poll \<Rightarrow> bool" where
  "minds_own ready fd d d' \<longleftrightarrow> length (dp_poll_data d') = length (dp_poll_data d)
     \<and> (\<forall>i<length (dp_poll_data d). dp_poll_data d' ! i = dp_poll_data d ! i
          \<or> (\<exists>info. dp_poll_data d ! i = Some info \<and> dp_fd info = fd)
          \<or> dp_poll_data d ! i = None \<and> (\<exists>info. dp_poll_data d' ! i = Some info \<and> dp_fd info \<notin> ready))"

lemma minds_own_update:
  fixes d d' :: desc_poll
  assumes "dp_poll_data d' = (dp_poll_data d)[k := x]" "k < length (dp_poll_data d)"
    "(\<exists>info. dp_poll_data d ! k = Some info \<and> dp_fd info = fd) \<or> dp_poll_data d ! k = None \<and> (\<exists>info. x = Some info \<and> dp_fd info \<notin> ready)"
  shows "minds_own ready fd d d'"
  using assms by (auto simp: minds_own_def nth_list_update)

text \<open>Deleting its own descriptor, and adding one that is not ready, are of this kind.\<close>

lemma desc_poll_del_minds_own:
  assumes "desc_poll_del fd d = Some d'"
  shows "minds_own ready fd d d'"
proof -
  define k where "k = first_slot (\<lambda>x. case x of None \<Rightarrow> False | Some info \<Rightarrow> dp_fd info = fd) (dp_poll_data d)"
  have k: "k < length (dp_poll_data d)" using assms by (simp add: desc_poll_del_def Let_def k_def split: if_splits)
  then obtain info where info: "dp_poll_data d ! k = Some info" "dp_fd info = fd"
    using first_slot_found [OF k [unfolded k_def]] by (auto simp: k_def split: option.splits)
  then have "dp_poll_data d' = (dp_poll_data d)[k := None]"
    using assms k unfolding desc_poll_del_def k_def [symmetric] Let_def by auto
  then show ?thesis by (rule minds_own_update) (use k info in simp_all)
qed

lemma desc_poll_add_minds_own:
  assumes "poll_ok d" "new \<notin> ready"
  shows "minds_own ready fd d (snd (desc_poll_add new callback user_data d)) \<or> new \<in> set (polled d)"
proof -
  define k where "k = first_slot (\<lambda>x. case x of None \<Rightarrow> True | Some info \<Rightarrow> dp_fd info = new) (dp_poll_data d)"
  consider (full) "\<not> k < SELECT_FD_NUM" | (free) "k < SELECT_FD_NUM" "dp_poll_data d ! k = None"
    | (there) info :: desc_poll_info where "k < SELECT_FD_NUM" "dp_poll_data d ! k = Some info" by (cases "dp_poll_data d ! k") auto
  then show ?thesis
  proof cases
    case full
    then show ?thesis unfolding desc_poll_add_def k_def [symmetric] Let_def by (simp add: minds_own_def)
  next
    case free
    then have "minds_own ready fd d (snd (desc_poll_add new callback user_data d))"
      unfolding desc_poll_add_def k_def [symmetric] Let_def
      using assms by (intro minds_own_update [where k = k]) (auto simp: poll_ok_def)
    then show ?thesis ..
  next
    case there
    then have "dp_fd info = new" "Some info \<in> set (dp_poll_data d)"
      using first_slot_found [of "\<lambda>x. case x of None \<Rightarrow> True | Some info \<Rightarrow> dp_fd info = new" "dp_poll_data d"] assms(1) nth_mem [of k "dp_poll_data d"]
      by (auto simp: poll_ok_def simp flip: k_def)
    then show ?thesis by (auto simp: polled_def set_present)
  qed
qed

text \<open>A round calls back the descriptors that are ready, in the order of the table, and no other.\<close>

lemma each_slots:
  assumes minds: "\<And>callback fd user_data d d'. fd \<in> ready \<Longrightarrow> run callback fd user_data d = Some d' \<Longrightarrow> minds_own ready fd d d'"
    and table: "distinct (map dp_fd (List.map_filter (\<lambda>i. table ! i) ids))"
    and now: "\<forall>i\<in>set ids. i < length (dp_poll_data d) \<and> (dp_poll_data d ! i = table ! i
      \<or> table ! i = None \<and> (\<exists>info. dp_poll_data d ! i = Some info \<and> dp_fd info \<notin> ready))"
  shows "each (visit_slot run ready) ids d =
    each (\<lambda>info d. run (dp_callback info) (dp_fd info) (dp_user_data info) d)
      (filter (\<lambda>info. dp_fd info \<in> ready) (List.map_filter (\<lambda>i. table ! i) ids)) d"
  using table now
proof (induction ids arbitrary: d)
  case Nil
  then show ?case by simp
next
  case (Cons i js)
  have rest: "distinct (map dp_fd (List.map_filter (\<lambda>i. table ! i) js))"
    using Cons.prems(1) by (simp add: map_filter_simps split: option.splits)
  have i: "i < length (dp_poll_data d)" using Cons.prems(2) by simp
  show ?case
  proof (cases "\<exists>info. table ! i = Some info \<and> dp_fd info \<in> ready")
    case False
    then have "visit_slot run ready i d = Some d"
      using Cons.prems(2) by (auto simp: visit_slot_def split: option.splits)
    then show ?thesis
      using Cons.IH [OF rest, of d] Cons.prems(2) False by (cases "table ! i") (simp_all add: map_filter_simps)
  next
    case True
    then obtain info where info: "table ! i = Some info" "dp_fd info \<in> ready" "dp_poll_data d ! i = Some info"
      using Cons.prems(2) by auto
    have "\<forall>j\<in>set js. j < length (dp_poll_data d') \<and> (dp_poll_data d' ! j = table ! j
        \<or> table ! j = None \<and> (\<exists>x. dp_poll_data d' ! j = Some x \<and> dp_fd x \<notin> ready))"
      if "run (dp_callback info) (dp_fd info) (dp_user_data info) d = Some d'" for d'
    proof
      fix j assume j: "j \<in> set js"
      have other: "dp_fd x \<noteq> dp_fd info" if "table ! j = Some x" for x
        using Cons.prems(1) info(1) that j by (force simp: map_filter_simps map_filter_def)
      have "j < length (dp_poll_data d)" using Cons.prems(2) j by simp
      then have "j < length (dp_poll_data d')" and kept: "dp_poll_data d' ! j = dp_poll_data d ! j
          \<or> (\<exists>x. dp_poll_data d ! j = Some x \<and> dp_fd x = dp_fd info)
          \<or> dp_poll_data d ! j = None \<and> (\<exists>x. dp_poll_data d' ! j = Some x \<and> dp_fd x \<notin> ready)"
        using minds [OF info(2) that] by (simp_all add: minds_own_def)
      moreover have "dp_poll_data d ! j = table ! j \<or> table ! j = None \<and> (\<exists>x. dp_poll_data d ! j = Some x \<and> dp_fd x \<notin> ready)"
        using Cons.prems(2) j by simp
      ultimately show "j < length (dp_poll_data d') \<and> (dp_poll_data d' ! j = table ! j
          \<or> table ! j = None \<and> (\<exists>x. dp_poll_data d' ! j = Some x \<and> dp_fd x \<notin> ready))"
        using other info(2) by (metis option.inject)
    qed
    then have "each (visit_slot run ready) js d' = each (\<lambda>info d. run (dp_callback info) (dp_fd info) (dp_user_data info) d)
        (filter (\<lambda>info. dp_fd info \<in> ready) (List.map_filter (\<lambda>i. table ! i) js)) d'"
      if "run (dp_callback info) (dp_fd info) (dp_user_data info) d = Some d'" for d'
      using that by (intro Cons.IH [OF rest]) blast
    moreover have "visit_slot run ready i d = run (dp_callback info) (dp_fd info) (dp_user_data info) d"
      using info i by (simp add: visit_slot_def)
    ultimately show ?thesis
      using info by (cases "run (dp_callback info) (dp_fd info) (dp_user_data info) d") (simp_all add: map_filter_simps)
  qed
qed

lemma map_filter_nth: "List.map_filter (\<lambda>i. xs ! i) [0..<length xs] = List.map_filter (\<lambda>x. x) xs"
proof -
  have "List.map_filter (\<lambda>i. xs ! i) ids = List.map_filter (\<lambda>x. x) (map (\<lambda>i. xs ! i) ids)" for ids
    by (induction ids) (simp_all add: map_filter_simps split: option.split)
  then show ?thesis by (simp add: map_nth)
qed

lemma max_fd_polled:
  assumes "\<forall>fd\<in>set (polled d). 0 \<le> fd"
  shows "max_fd (dp_poll_data d) < 0 \<longleftrightarrow> polled d = []"
proof -
  define step :: "desc_poll_info option \<Rightarrow> int \<Rightarrow> int" where "step = (\<lambda>x maxfd. case x of Some info \<Rightarrow> if maxfd < dp_fd info then dp_fd info else maxfd | None \<Rightarrow> maxfd)"
  have up: "m \<le> fold step xs m" for xs m
  proof (induction xs arbitrary: m)
    case (Cons x xs)
    have "m \<le> step x m" by (simp add: step_def split: option.split)
    also have "\<dots> \<le> fold step xs (step x m)" by (rule Cons.IH)
    finally show ?case by simp
  qed simp
  have "fold step xs (- 1) < 0 \<longleftrightarrow> List.map_filter (\<lambda>x. x) xs = []"
    if "\<forall>info\<in>set (List.map_filter (\<lambda>x. x) xs). 0 \<le> dp_fd info" for xs
    using that
  proof (induction xs)
    case (Cons x xs)
    show ?case
    proof (cases x)
      case None
      then show ?thesis using Cons by (simp add: map_filter_simps step_def)
    next
      case (Some info)
      then show ?thesis using Cons.prems up [of "dp_fd info" xs] by (simp add: map_filter_simps step_def)
    qed
  qed (simp add: map_filter_simps)
  from this [of "dp_poll_data d"] show ?thesis using assms by (simp add: max_fd_def step_def polled_def)
qed

lemma process_events_calls:
  assumes "poll_ok d" "distinct (polled d)" "\<forall>fd\<in>set (polled d). 0 \<le> fd"
    "\<And>callback fd user_data d d'. fd \<in> ready \<Longrightarrow> run callback fd user_data d = Some d' \<Longrightarrow> minds_own ready fd d d'"
  shows "desc_poll_process_events run ready pipe_ready d =
    (if polled d = [] then Some d
     else map_option (\<lambda>d. if pipe_ready then d\<lparr>dp_abort_pipe := tl (dp_abort_pipe d)\<rparr> else d)
       (each (\<lambda>info. run (dp_callback info) (dp_fd info) (dp_user_data info))
         (filter (\<lambda>info. dp_fd info \<in> ready) (List.map_filter (\<lambda>x. x) (dp_poll_data d))) d))"
proof -
  have len: "length (dp_poll_data d) = SELECT_FD_NUM" using assms(1) by (simp add: poll_ok_def)
  have "distinct (map dp_fd (List.map_filter (\<lambda>i. dp_poll_data d ! i) [0..<SELECT_FD_NUM]))"
    using assms(2) len map_filter_nth [of "dp_poll_data d"] by (simp add: polled_def)
  from each_slots [where run = run and ready = ready and d = d, OF assms(4) this]
  have "each (visit_slot run ready) [0..<SELECT_FD_NUM] d =
    each (\<lambda>info. run (dp_callback info) (dp_fd info) (dp_user_data info))
      (filter (\<lambda>info. dp_fd info \<in> ready) (List.map_filter (\<lambda>x. x) (dp_poll_data d))) d"
    using len map_filter_nth [of "dp_poll_data d"] by simp
  then show ?thesis
    using max_fd_polled [OF assms(3)] by (simp add: desc_poll_process_events_def map_option_case split: option.split)
qed

subsection \<open>The properties\<close>

text \<open>
  \<open>desc_poll_del\<close> reads past the end of the table, and fails, exactly when the descriptor is not in it: the loop then leaves the index at the
  length of the table, and the test behind it reads the table first.
\<close>

theorem desc_poll_del_needs_fd:
  assumes "poll_ok d"
  shows "(desc_poll_del fd d = None \<longleftrightarrow> fd \<notin> set (polled d)) \<and> (\<forall>d'\<in>set_option (desc_poll_del fd d). poll_ok d')"
  using desc_poll_del_iff [of fd d] desc_poll_del_ok [OF assms] by auto

theorem desc_poll_del_needs_fd_witness:
  "desc_poll_del 5 (desc_poll_init \<lparr>dp_initialized = False, dp_stop_thread = False, dp_poll_data = [], dp_poll_number = 0, dp_abort_pipe = []\<rparr>) = None"
  using desc_poll_del_needs_fd [of "desc_poll_init \<lparr>dp_initialized = False, dp_stop_thread = False, dp_poll_data = [], dp_poll_number = 0, dp_abort_pipe = []\<rparr>" 5]
  by (simp add: desc_poll_init_ok) (simp add: polled_def desc_poll_init_def SELECT_FD_NUM_def numeral_eq_Suc map_filter_simps)

text \<open>
  \<open>desc_poll_add\<close> succeeds exactly when the descriptor is in the table or a slot is free; but because its search stops at the first
  free slot, a descriptor that stands behind one is registered a second time.
\<close>

theorem desc_poll_add_registers_twice:
  assumes "poll_ok d" "dp_poll_data d = before @ None # behind" "\<forall>x\<in>set before. x \<noteq> None \<and> dp_fd (the x) \<noteq> fd" "fd \<in> dp_fd ` set (List.map_filter (\<lambda>x. x) behind)"
  shows "fst (desc_poll_add fd callback user_data d) \<and> 2 \<le> count_list (polled (snd (desc_poll_add fd callback user_data d))) fd"
proof -
  have slot: "first_slot (\<lambda>x. case x of None \<Rightarrow> True | Some info \<Rightarrow> dp_fd info = fd) (dp_poll_data d) = length before"
    using assms(3) unfolding assms(2) by (induction before) (auto split: option.splits)
  have "length before < SELECT_FD_NUM" using assms(1,2) by (simp add: poll_ok_def)
  moreover have "1 \<le> count_list (map dp_fd (List.map_filter (\<lambda>x. x) behind)) fd"
    using assms(4) by (metis Suc_leI count_list_0_iff list.set_map not_gr_zero One_nat_def)
  ultimately show ?thesis
    using slot assms(2) by (simp add: desc_poll_add_def Let_def polled_def map_filter_def)
qed

theorem desc_poll_add_registers_twice_witness:
  "2 \<le> count_list (polled (snd (desc_poll_add 4 1 0 \<lparr>dp_initialized = True, dp_stop_thread = False,
     dp_poll_data = None # Some \<lparr>dp_fd = 4, dp_callback = 1, dp_user_data = 0\<rparr> # replicate 8 None, dp_poll_number = 1, dp_abort_pipe = []\<rparr>))) 4"
  by (rule desc_poll_add_registers_twice [THEN conjunct2, of _ "[]" "Some \<lparr>dp_fd = 4, dp_callback = 1, dp_user_data = 0\<rparr> # replicate 8 None"])
    (simp_all add: poll_ok_def SELECT_FD_NUM_def map_filter_simps)


text \<open>Two descriptors are ready and the callback of each deletes it; a third one is not ready.\<close>

abbreviation three_polled :: desc_poll where
  "three_polled \<equiv> \<lparr>dp_initialized = True, dp_stop_thread = False,
     dp_poll_data = [None, Some \<lparr>dp_fd = 4, dp_callback = 1, dp_user_data = 0\<rparr>, Some \<lparr>dp_fd = 5, dp_callback = 1, dp_user_data = 0\<rparr>,
       Some \<lparr>dp_fd = 3, dp_callback = 1, dp_user_data = 0\<rparr>, None, None, None, None, None, None],
     dp_poll_number = 3, dp_abort_pipe = ''a''\<rparr>"


end
