(* ===== verification/TsharkProcess.thy ===== *)
theory TsharkProcess
  imports Tool DescPoll "HOL-Library.Multiset"
begin

section \<open>The process of tshark\<close>

text \<open>
  Models what \<open>src/src/sniffer_packet_parser.c\<close> does with processes and descriptors: it starts tshark with two pipes,
  writes the packets to one and polls the other, and feeds what it reads to the XML parser. \<open>Sniffer\<close> leaves this out; the
  reset of \<open>Sniffer\<close> is what the reset of this theory does to the state of the sniffer.
  \<^item> The system keeps a table of open descriptors. \<open>pipe\<close> takes the lowest two that are free and fails when there are
    less than two below the limit; \<open>close\<close>, \<open>dup2\<close> and \<open>fork\<close> act on the table as POSIX says. The result of \<open>fork\<close>,
    the success of \<open>fdopen\<close>, what \<open>read\<close> returns, and expat are inputs and parameters.
  \<^item> A process that is killed is gone at once. \<open>pd\<close> is open exactly when \<open>pdumper\<close> is.
  \<^item> A descriptor of 0 means that there is none, as in the code. Freeing the XML parser twice fails, and so do
    writing past the buffer and \<open>desc_poll_del\<close> of a descriptor that is not polled.
\<close>

subsection \<open>Descriptors\<close>

text \<open>The read end of a pipe knows whether it is non-blocking.\<close>

datatype fd_object = pipe_read nat bool | pipe_write nat | fd_other

record kernel =
  ks_limit :: int
  ks_fds :: "int \<rightharpoonup> fd_object"
  ks_next_pipe :: nat

definition sys_open :: "fd_object \<Rightarrow> kernel \<Rightarrow> (int \<times> kernel) option" where
  "sys_open x k = map_option (\<lambda>fd. (fd, k\<lparr>ks_fds := (ks_fds k)(fd \<mapsto> x)\<rparr>)) (find (\<lambda>fd. ks_fds k fd = None) [0..ks_limit k - 1])"

definition sys_close :: "int \<Rightarrow> kernel \<Rightarrow> kernel" where
  "sys_close fd k = k\<lparr>ks_fds := (ks_fds k)(fd := None)\<rparr>"

definition sys_pipe :: "kernel \<Rightarrow> ((int \<times> int) \<times> kernel) option" where
  "sys_pipe k =
     do { (fd_read, k') \<leftarrow> sys_open (pipe_read (ks_next_pipe k) False) k;
          (fd_write, k') \<leftarrow> sys_open (pipe_write (ks_next_pipe k)) k';
          Some ((fd_read, fd_write), k'\<lparr>ks_next_pipe := Suc (ks_next_pipe k)\<rparr>) }"

definition dup2 :: "int \<Rightarrow> int \<Rightarrow> (int \<rightharpoonup> fd_object) \<Rightarrow> (int \<rightharpoonup> fd_object)" where
  "dup2 old new fds = (case fds old of None \<Rightarrow> fds | Some x \<Rightarrow> fds(new \<mapsto> x))"

definition set_nonblock :: "int \<Rightarrow> kernel \<Rightarrow> kernel" where
  "set_nonblock fd k =
     (case ks_fds k fd of Some (pipe_read p _) \<Rightarrow> k\<lparr>ks_fds := (ks_fds k)(fd \<mapsto> pipe_read p True)\<rparr> | _ \<Rightarrow> k)"

text \<open>A child as it calls \<open>execvp\<close>.\<close>

record child =
  ch_pid :: int
  ch_fds :: "int \<rightharpoonup> fd_object"
  ch_command :: string
  ch_arguments :: "string list"

definition child_fds :: "int \<times> int \<Rightarrow> int \<times> int \<Rightarrow> (int \<rightharpoonup> fd_object) \<Rightarrow> (int \<rightharpoonup> fd_object)" where
  "child_fds stdin_pipe stdout_pipe fds =
     (let fds = dup2 (fst stdin_pipe) 0 fds;
          fds = dup2 (snd stdout_pipe) 1 fds
      in fds(fst stdin_pipe := None, snd stdin_pipe := None, fst stdout_pipe := None, snd stdout_pipe := None))"

text \<open>
  \<open>fork\<close> is the identifier of the child, or \<open>None\<close> when it fails. The result is the child with the two ends that the
  caller keeps, or \<open>None\<close> for false.
\<close>

definition spawn_piped_process ::
    "string \<Rightarrow> string list \<Rightarrow> int option \<Rightarrow> kernel \<Rightarrow> (child \<times> int \<times> int) option \<times> kernel" where
  "spawn_piped_process command arguments fork k =
     (case sys_pipe k of
        None \<Rightarrow> (None, k)
      | Some (stdin_pipe, k) \<Rightarrow>
         (case sys_pipe k of
            None \<Rightarrow> (None, sys_close (snd stdin_pipe) (sys_close (fst stdin_pipe) k))
          | Some (stdout_pipe, k) \<Rightarrow>
             (case fork of
                Some pid \<Rightarrow>
                  let child = \<lparr>ch_pid = pid, ch_fds = child_fds stdin_pipe stdout_pipe (ks_fds k),
                               ch_command = command, ch_arguments = arguments\<rparr>;
                      k = sys_close (snd stdout_pipe) (sys_close (fst stdin_pipe) k);
                      k = set_nonblock (fst stdout_pipe) k
                  in (Some (child, snd stdin_pipe, fst stdout_pipe), k)
              | None \<Rightarrow>
                  (None, sys_close (snd stdout_pipe) (sys_close (fst stdout_pipe)
                           (sys_close (snd stdin_pipe) (sys_close (fst stdin_pipe) k)))))))"

subsection \<open>The state\<close>

text \<open>
  \<open>dissected_packet_parser\<close> is NULL, a parser in some state, or a parser that has been freed. The stream \<open>pcap_output\<close>
  and the dumper over it are the descriptor below them.
\<close>

datatype 'x xml_pointer = XP_null | XP_live 'x | XP_freed

datatype disposition = SIG_DFL | SIG_IGN | sig_tshark_exited

record 'x tshark =
  ts_sniffer :: sniffer
  ts_reset_requested :: bool
  ts_pid :: int
  ts_pipe_stdin :: int
  ts_pipe_stdout :: int
  ts_pcap_output :: "int option"
  ts_pdumper :: "int option"
  ts_parser :: "'x xml_pointer"
  ts_sigpipe :: disposition
  ts_kernel :: kernel
  ts_poll :: desc_poll
  ts_children :: "child list"
  ts_on_error :: bool
  ts_errors :: "string list"

text \<open>What the code calls of expat: \<open>XML_ParserCreate\<close>, and \<open>XML_Parse\<close>, which reports elements and whether the input was good.\<close>

datatype xml_element = xml_start string "(string \<times> string) list" | xml_end string

record 'x expat =
  xp_create :: 'x
  xp_parse :: "'x \<Rightarrow> char list \<Rightarrow> xml_element list \<times> bool \<times> 'x"

definition tshark_arguments :: "(in6_addr \<Rightarrow> string) \<Rightarrow> in6_addr \<Rightarrow> string list" where
  "tshark_arguments inet_ntop context0 =
     [''tshark'', ''-i'', ''-'', ''-V'', ''-T'', ''pdml'', ''-R'', ''ipv6'', ''-l'', ''-o'',
      ''6lowpan.context0:'' @ inet_ntop context0]"

text \<open>The number of the callback \<open>process_events\<close> in the table of descriptors.\<close>

definition process_events_callback :: nat where
  "process_events_callback = 1"

definition rpl_tool_report_error :: "string \<Rightarrow> 'x tshark \<Rightarrow> 'x tshark" where
  "rpl_tool_report_error error_message t = (if ts_on_error t then t\<lparr>ts_errors := ts_errors t @ [error_message]\<rparr> else t)"

definition tshark_exited :: "'x tshark \<Rightarrow> 'x tshark" where
  "tshark_exited t = rpl_tool_report_error ''Could not start tshark'' (t\<lparr>ts_sigpipe := SIG_IGN, ts_pid := 0\<rparr>)"

subsection \<open>The reset\<close>

text \<open>What is shut down, up to the new signal handler.\<close>

definition tshark_shutdown :: "'x tshark \<Rightarrow> 'x tshark option" where
  "tshark_shutdown t =
     do { let t = (if ts_pid t \<noteq> 0
                   then t\<lparr>ts_sigpipe := SIG_IGN, ts_children := filter (\<lambda>c. ch_pid c \<noteq> ts_pid t) (ts_children t)\<rparr>
                   else t);
          t \<leftarrow> (if ts_pipe_stdout t \<noteq> 0
               then do { poll \<leftarrow> desc_poll_del (ts_pipe_stdout t) (ts_poll t);
                         Some (t\<lparr>ts_poll := poll, ts_kernel := sys_close (ts_pipe_stdout t) (ts_kernel t)\<rparr>) }
               else Some t);
          let t = (case ts_pdumper t of Some fd \<Rightarrow> t\<lparr>ts_kernel := sys_close fd (ts_kernel t)\<rparr> | None \<Rightarrow> t);
          let s = (ts_sniffer t)\<lparr>sn_pd_out := False\<rparr>;
          s \<leftarrow> (if sn_pdumper_out s then pcap_dump_open s else Some s);
          parser \<leftarrow> (case ts_parser t of XP_null \<Rightarrow> Some XP_null | XP_live _ \<Rightarrow> Some XP_freed | XP_freed \<Rightarrow> None);
          Some (t\<lparr>ts_parser := parser, ts_pid := 0, ts_pcap_output := None, ts_pdumper := None, ts_pipe_stdin := 0,
                  ts_pipe_stdout := 0, ts_sigpipe := sig_tshark_exited,
                  ts_sniffer := s\<lparr>sn_pdumper := False, sn_pd_out := False, sn_packet_count := 0\<rparr>\<rparr>) }"

definition tshark_restart :: "'x expat \<Rightarrow> (in6_addr \<Rightarrow> string) \<Rightarrow> int option \<Rightarrow> bool \<Rightarrow> 'x tshark \<Rightarrow> 'x tshark" where
  "tshark_restart expat inet_ntop fork fdopen_ok t =
     (let context0 = cfg_context0 (w_config (ps_world (sn_parsing (ts_sniffer t))))
      in case spawn_piped_process ''tshark'' (tshark_arguments inet_ntop context0) fork (ts_kernel t) of
           (None, k) \<Rightarrow> t\<lparr>ts_kernel := k\<rparr>
         | (Some (child, process_input, process_output), k) \<Rightarrow>
             let t = t\<lparr>ts_kernel := k, ts_pid := ch_pid child, ts_children := ts_children t @ [child],
                       ts_pipe_stdin := process_input, ts_pipe_stdout := process_output\<rparr>
             in if \<not> fdopen_ok then t
                else t\<lparr>ts_pcap_output := Some process_input, ts_pdumper := Some process_input,
                       ts_parser := XP_live (xp_create expat),
                       ts_sniffer := (ts_sniffer t)\<lparr>sn_pdumper := True, sn_pd_out := True, sn_tshark := []\<rparr>,
                       ts_poll := snd (desc_poll_add process_output process_events_callback 0 (ts_poll t))\<rparr>)"

definition tshark_process_reset ::
    "'x expat \<Rightarrow> (in6_addr \<Rightarrow> string) \<Rightarrow> int option \<Rightarrow> bool \<Rightarrow> 'x tshark \<Rightarrow> 'x tshark option" where
  "tshark_process_reset expat inet_ntop fork fdopen_ok t =
     map_option (tshark_restart expat inet_ntop fork fdopen_ok) (tshark_shutdown t)"

subsection \<open>Reading\<close>

definition xml_handler :: "xml_element \<Rightarrow> sniffer \<Rightarrow> sniffer option" where
  "xml_handler e = (case e of xml_start el attr \<Rightarrow> parse_xml_start_element el attr | xml_end el \<Rightarrow> parse_xml_end_element el)"

text \<open>When the input is bad, the chunk is ended with a 0 for the message, in a buffer of 512 bytes.\<close>

definition parse_chunk :: "'x expat \<Rightarrow> char list \<Rightarrow> 'x tshark \<Rightarrow> 'x tshark option" where
  "parse_chunk expat chunk t =
     (case ts_parser t of
        XP_live x \<Rightarrow>
          (case xp_parse expat x chunk of (elements, good, x') \<Rightarrow>
             do { s \<leftarrow> each xml_handler elements (ts_sniffer t);
                  _ \<leftarrow> c_assert (good \<or> length chunk < 512);
                  Some (t\<lparr>ts_sniffer := s, ts_parser := XP_live x'\<rparr>) })
      | _ \<Rightarrow> None)"

text \<open>
  The loop that waits while the parser is paused. Another thread pauses and resumes it meanwhile: \<open>calls\<close> are its calls, one
  for each sleep. The result tells whether the parser is found running.
\<close>

fun wait_running :: "bool list \<Rightarrow> sniffer \<Rightarrow> bool \<times> sniffer" where
  "wait_running [] s = (sn_xml_parser_state s \<noteq> XPS_Paused, s)"
| "wait_running (pause # calls) s =
     (if sn_xml_parser_state s \<noteq> XPS_Paused then (True, s) else wait_running calls (sniffer_parser_pause_parser pause s))"

text \<open>The chunks that \<open>read\<close> returns before it returns nothing, each with the calls that are made before it is parsed.\<close>

fun read_loop :: "'x expat \<Rightarrow> (bool list \<times> char list) list \<Rightarrow> 'x tshark \<Rightarrow> (bool \<times> 'x tshark) option" where
  "read_loop expat [] t = Some (True, t)"
| "read_loop expat ((calls, chunk) # reads) t =
     (case wait_running calls (ts_sniffer t) of
        (True, s) \<Rightarrow> parse_chunk expat chunk (t\<lparr>ts_sniffer := s\<rparr>) \<bind> read_loop expat reads
      | (False, s) \<Rightarrow> Some (False, t\<lparr>ts_sniffer := s\<rparr>))"

definition process_events ::
    "'x expat \<Rightarrow> (in6_addr \<Rightarrow> string) \<Rightarrow> int option \<Rightarrow> bool \<Rightarrow> (bool list \<times> char list) list \<Rightarrow> 'x tshark \<Rightarrow> (bool \<times> 'x tshark) option" where
  "process_events expat inet_ntop fork fdopen_ok reads t =
     do { t \<leftarrow> (if ts_reset_requested t
               then map_option (\<lambda>t. t\<lparr>ts_reset_requested := False\<rparr>) (tshark_process_reset expat inet_ntop fork fdopen_ok t)
               else Some t);
          read_loop expat reads t }"

subsection \<open>Descriptors are given out and back\<close>

definition free_fds :: "kernel \<Rightarrow> int set" where
  "free_fds k = {fd\<in>{0..<ks_limit k}. ks_fds k fd = None}"

lemma finite_free_fds [simp]: "finite (free_fds k)"
  by (rule finite_subset [of _ "{0..<ks_limit k}"]) (auto simp: free_fds_def)

lemma sys_open_Some:
  "sys_open x k = Some (fd, k') \<Longrightarrow> fd \<in> free_fds k \<and> k' = k\<lparr>ks_fds := (ks_fds k)(fd \<mapsto> x)\<rparr>"
  by (force simp: sys_open_def free_fds_def find_Some_iff in_set_conv_nth)

lemma sys_open_None: "sys_open x k = None \<longleftrightarrow> free_fds k = {}"
  by (auto simp: sys_open_def free_fds_def find_None_iff)

lemma free_fds_open: "free_fds (k\<lparr>ks_fds := (ks_fds k)(fd \<mapsto> x)\<rparr>) = free_fds k - {fd}"
  by (auto simp: free_fds_def)

lemma free_fds_next [simp]: "free_fds (k\<lparr>ks_next_pipe := n\<rparr>) = free_fds k"
  by (simp add: free_fds_def)

lemma sys_pipe_Some:
  assumes "sys_pipe k = Some ((r, w), k')"
  shows "r \<in> free_fds k \<and> w \<in> free_fds k \<and> r \<noteq> w
    \<and> k' = k\<lparr>ks_fds := (ks_fds k)(r \<mapsto> pipe_read (ks_next_pipe k) False, w \<mapsto> pipe_write (ks_next_pipe k)), ks_next_pipe := Suc (ks_next_pipe k)\<rparr>"
  using assms by (auto simp: sys_pipe_def free_fds_open split: bind_splits dest!: sys_open_Some)

lemma sys_pipe_None: "sys_pipe k = None \<longleftrightarrow> card (free_fds k) < 2"
proof (cases "sys_open (pipe_read (ks_next_pipe k) False) k")
  case None
  then show ?thesis by (simp add: sys_pipe_def) (simp add: sys_open_None)
next
  case (Some a)
  then obtain r where a: "a = (r, k\<lparr>ks_fds := (ks_fds k)(r \<mapsto> pipe_read (ks_next_pipe k) False)\<rparr>)" and r: "r \<in> free_fds k"
    by (metis sys_open_Some prod.exhaust)
  have "sys_pipe k = None \<longleftrightarrow> sys_open (pipe_write (ks_next_pipe k)) (snd a) = None"
    using Some a by (auto simp: sys_pipe_def split: bind_splits)
  also have "\<dots> \<longleftrightarrow> free_fds k - {r} = {}"
    by (simp add: sys_open_None a free_fds_open)
  also have "\<dots> \<longleftrightarrow> card (free_fds k) < 2"
    using card.remove [OF finite_free_fds r] by auto
  finally show ?thesis .
qed

lemma free_fds_pipe:
  assumes "sys_pipe k = Some (p, k')"
  shows "card (free_fds k) = card (free_fds k') + 2"
proof -
  obtain r w where p: "p = (r, w)" by (cases p)
  have "free_fds k' = free_fds k - {r, w}" using sys_pipe_Some [OF assms [unfolded p]] by (auto simp: free_fds_def)
  moreover have "{r, w} \<subseteq> free_fds k" "card {r, w} = 2" using sys_pipe_Some [OF assms [unfolded p]] by auto
  ultimately show ?thesis using card_Diff_subset [of "{r, w}" "free_fds k"] card_mono [of "free_fds k" "{r, w}"] by simp
qed

lemma spawn_None:
  assumes "spawn_piped_process command arguments fork k = (None, k')"
  shows "ks_fds k' = ks_fds k \<and> ks_limit k' = ks_limit k \<and> (fork = None \<or> card (free_fds k) < 4)"
proof (cases "sys_pipe k")
  case None
  then show ?thesis using assms sys_pipe_None [of k] by (auto simp: spawn_piped_process_def)
next
  case (Some a)
  obtain r w k1 where a: "a = ((r, w), k1)" by (metis prod.exhaust)
  note p1 = sys_pipe_Some [OF Some [unfolded a]]
  show ?thesis
  proof (cases "sys_pipe k1")
    case None
    have "card (free_fds k) < 4" using free_fds_pipe [OF Some [unfolded a]] None sys_pipe_None [of k1] by simp
    moreover have "k' = sys_close w (sys_close r k1)"
      using assms Some a None by (simp add: spawn_piped_process_def)
    ultimately show ?thesis using p1 by (auto simp: sys_close_def free_fds_def fun_eq_iff)
  next
    case (Some b)
    obtain r' w' k2 where b: "b = ((r', w'), k2)" by (metis prod.exhaust)
    note p2 = sys_pipe_Some [OF Some [unfolded b]]
    have "fork = None" "k' = sys_close w' (sys_close r' (sys_close w (sys_close r k2)))"
      using assms \<open>sys_pipe k = Some a\<close> a Some b by (simp_all add: spawn_piped_process_def Let_def split: option.splits)
    then show ?thesis using p1 p2 by (auto simp: sys_close_def free_fds_def fun_eq_iff)
  qed
qed

text \<open>What a child that has been started shares with the caller.\<close>

lemma spawn_Some:
  assumes "spawn_piped_process command arguments fork k = (Some (child, w, r), k')" "ks_fds k 0 \<noteq> None" "ks_fds k 1 \<noteq> None"
  shows "fork = Some (ch_pid child) \<and> ch_command child = command \<and> ch_arguments child = arguments \<and> 4 \<le> card (free_fds k)
    \<and> w \<in> free_fds k \<and> r \<in> free_fds k \<and> w \<noteq> r \<and> ks_limit k' = ks_limit k
    \<and> ks_fds k' = (ks_fds k)(w \<mapsto> pipe_write (ks_next_pipe k), r \<mapsto> pipe_read (Suc (ks_next_pipe k)) True)
    \<and> ch_fds child = (ks_fds k)(0 \<mapsto> pipe_read (ks_next_pipe k) False, 1 \<mapsto> pipe_write (Suc (ks_next_pipe k)))"
proof -
  obtain a where a: "sys_pipe k = Some a" using assms(1) by (auto simp: spawn_piped_process_def split: option.splits)
  obtain r1 w1 k1 where a': "a = ((r1, w1), k1)" by (metis prod.exhaust)
  note p1 = sys_pipe_Some [OF a [unfolded a']]
  obtain b where b: "sys_pipe k1 = Some b" using assms(1) a a' by (auto simp: spawn_piped_process_def split: option.splits)
  obtain r2 w2 k2 where b': "b = ((r2, w2), k2)" by (metis prod.exhaust)
  note p2 = sys_pipe_Some [OF b [unfolded b']]
  have cards: "4 \<le> card (free_fds k)" using free_fds_pipe [OF a [unfolded a']] free_fds_pipe [OF b [unfolded b']] by simp
  have "fork \<noteq> None" using assms(1) a a' b b' by (cases fork) (simp_all add: spawn_piped_process_def)
  then obtain pid where fork: "fork = Some pid" by blast
  have pid: "child = \<lparr>ch_pid = pid, ch_fds = child_fds (r1, w1) (r2, w2) (ks_fds k2), ch_command = command, ch_arguments = arguments\<rparr>"
      "w = w1" "r = r2" "k' = set_nonblock r2 (sys_close w2 (sys_close r1 k2))"
    using assms(1) unfolding spawn_piped_process_def a a' b b' fork option.case prod.case Let_def fst_conv snd_conv by blast+
  let ?p = "ks_next_pipe k"
  have fds: "ks_fds k2 = (ks_fds k)(r1 \<mapsto> pipe_read ?p False, w1 \<mapsto> pipe_write ?p, r2 \<mapsto> pipe_read (Suc ?p) False, w2 \<mapsto> pipe_write (Suc ?p))"
    and limit: "ks_limit k2 = ks_limit k"
    using p1 p2 by simp_all
  have free: "{r2, w2} \<subseteq> free_fds k - {r1, w1}" using p1 p2 by (auto simp: free_fds_def split: if_splits)
  have fresh: "distinct [r1, w1, r2, w2]" "{r1, w1, r2, w2} \<subseteq> free_fds k" "0 \<notin> free_fds k" "1 \<notin> free_fds k"
    using free p1 p2 assms(2,3) by (auto simp: free_fds_def)
  then have none: "ks_fds k r1 = None" "ks_fds k w1 = None" "ks_fds k r2 = None" "ks_fds k w2 = None" "0 \<notin> {r1, w1, r2, w2}" "1 \<notin> {r1, w1, r2, w2}"
    by (auto simp: free_fds_def)
  have "ks_limit k' = ks_limit k" using fresh(1) by (simp add: pid(4) set_nonblock_def sys_close_def fds limit)
  moreover have "ks_fds k' = (ks_fds k)(w \<mapsto> pipe_write ?p, r \<mapsto> pipe_read (Suc ?p) True)"
    using fresh(1) none by (auto simp: pid set_nonblock_def sys_close_def fds fun_eq_iff)
  moreover have "ch_fds child = (ks_fds k)(0 \<mapsto> pipe_read ?p False, 1 \<mapsto> pipe_write (Suc ?p))"
    using fresh(1) none by (auto simp: pid child_fds_def dup2_def Let_def fds fun_eq_iff)
  ultimately show ?thesis using cards pid fork fresh by simp
qed

subsection \<open>The table of polled descriptors as a multiset\<close>

lemma mset_present_update:
  "i < length xs \<Longrightarrow> mset (List.map_filter (\<lambda>x. x) (xs[i := x])) + (case xs ! i of None \<Rightarrow> {#} | Some y \<Rightarrow> {#y#})
    = mset (List.map_filter (\<lambda>x. x) xs) + (case x of None \<Rightarrow> {#} | Some y \<Rightarrow> {#y#})"
proof (induction xs arbitrary: i)
  case (Cons a xs)
  show ?case
  proof (cases i)
    case 0
    then show ?thesis by (simp add: map_filter_simps split: option.split)
  next
    case (Suc j)
    then show ?thesis using Cons.IH [of j] Cons.prems by (cases a) (simp_all add: map_filter_simps)
  qed
qed simp

lemma desc_poll_del_polled:
  assumes "poll_ok d" "fd \<in> set (polled d)"
  shows "\<exists>d'. desc_poll_del fd d = Some d' \<and> poll_ok d' \<and> add_mset fd (mset (polled d')) = mset (polled d) \<and> None \<in> set (dp_poll_data d')"
proof -
  let ?i = "first_slot (\<lambda>x. case x of None \<Rightarrow> False | Some info \<Rightarrow> dp_fd info = fd) (dp_poll_data d)"
  have i: "?i < length (dp_poll_data d)" using assms(2) unfolding in_polled first_slot_less .
  obtain info where info: "dp_poll_data d ! ?i = Some info" "dp_fd info = fd"
    using first_slot_found [OF i] by (auto split: option.splits)
  obtain d' where d': "desc_poll_del fd d = Some d'" "dp_poll_data d' = (dp_poll_data d)[?i := None]"
    using i info by (simp add: desc_poll_del_def Let_def)
  have "mset (List.map_filter (\<lambda>x. x) (dp_poll_data d')) + {#info#} = mset (List.map_filter (\<lambda>x. x) (dp_poll_data d))"
    using mset_present_update [OF i, of None] info(1) d'(2) by simp
  from arg_cong [OF this, of "image_mset dp_fd"] have "add_mset fd (mset (polled d')) = mset (polled d)"
    using info(2) by (simp add: polled_def)
  moreover have "None \<in> set (dp_poll_data d')" unfolding d'(2) by (rule set_update_memI [OF i])
  ultimately show ?thesis using d'(1) desc_poll_del_ok [OF assms(1) d'(1)] by blast
qed

lemma desc_poll_add_polled:
  assumes "poll_ok d" "fd \<notin> set (polled d)" "None \<in> set (dp_poll_data d)"
  shows "fst (desc_poll_add fd callback user_data d) \<and> poll_ok (snd (desc_poll_add fd callback user_data d))
    \<and> mset (polled (snd (desc_poll_add fd callback user_data d))) = add_mset fd (mset (polled d))"
proof -
  let ?found = "\<lambda>x. case x of None \<Rightarrow> True | Some info \<Rightarrow> dp_fd info = fd"
  let ?i = "first_slot ?found (dp_poll_data d)"
  let ?info = "\<lparr>dp_fd = fd, dp_callback = callback, dp_user_data = user_data\<rparr>"
  have "\<exists>x\<in>set (dp_poll_data d). ?found x" by (rule bexI [OF _ assms(3)]) simp
  then have i: "?i < length (dp_poll_data d)" unfolding first_slot_less .
  have "dp_poll_data d ! ?i = None"
    using first_slot_found [OF i] assms(2) nth_mem [OF i] by (auto simp: polled_def set_present split: option.splits)
  moreover from i have "?i < SELECT_FD_NUM" using assms(1) by (simp add: poll_ok_def)
  ultimately have add: "fst (desc_poll_add fd callback user_data d)" "dp_poll_data (snd (desc_poll_add fd callback user_data d)) = (dp_poll_data d)[?i := Some ?info]"
    by (simp_all add: desc_poll_add_def Let_def)
  have "mset (List.map_filter (\<lambda>x. x) ((dp_poll_data d)[?i := Some ?info])) = mset (List.map_filter (\<lambda>x. x) (dp_poll_data d)) + {#?info#}"
    using mset_present_update [OF i, of "Some ?info"] \<open>dp_poll_data d ! ?i = None\<close> by simp
  from arg_cong [OF this, of "image_mset dp_fd"] show ?thesis
    using add desc_poll_add_ok [OF assms(1)] by (simp add: polled_def)
qed

subsection \<open>Runs\<close>

text \<open>
  \<open>base\<close> holds the descriptors of the rest of the program, and \<open>others\<close> those of them that it polls. Without tshark nothing
  else is open or polled, and there is no child. With tshark there is one child, exactly the two ends of its pipes are open besides,
  and the one that is read from is polled; the child has the other two ends as its standard input and output.
\<close>

definition process_idle :: "(int \<rightharpoonup> fd_object) \<Rightarrow> int multiset \<Rightarrow> 'x tshark \<Rightarrow> bool" where
  "process_idle base others t \<longleftrightarrow> ts_pid t = 0 \<and> ts_pipe_stdin t = 0 \<and> ts_pipe_stdout t = 0 \<and> ts_pdumper t = None
     \<and> ts_children t = [] \<and> ts_parser t = XP_null \<and> ks_fds (ts_kernel t) = base \<and> mset (polled (ts_poll t)) = others \<and> None \<in> set (dp_poll_data (ts_poll t))"

definition process_running :: "(int \<rightharpoonup> fd_object) \<Rightarrow> int multiset \<Rightarrow> 'x tshark \<Rightarrow> bool" where
  "process_running base others t \<longleftrightarrow> ts_pipe_stdin t \<noteq> ts_pipe_stdout t \<and> base (ts_pipe_stdin t) = None \<and> base (ts_pipe_stdout t) = None
     \<and> (\<exists>p q tshark. ks_fds (ts_kernel t) = base(ts_pipe_stdin t \<mapsto> pipe_write p, ts_pipe_stdout t \<mapsto> pipe_read q True)
          \<and> ts_children t = [tshark] \<and> ch_pid tshark = ts_pid t \<and> ch_fds tshark = base(0 \<mapsto> pipe_read p False, 1 \<mapsto> pipe_write q))
     \<and> ts_pid t \<noteq> 0
     \<and> ts_pdumper t = Some (ts_pipe_stdin t) \<and> (\<exists>x. ts_parser t = XP_live x)
     \<and> mset (polled (ts_poll t)) = add_mset (ts_pipe_stdout t) others"

definition process_ok :: "(int \<rightharpoonup> fd_object) \<Rightarrow> int multiset \<Rightarrow> 'x tshark \<Rightarrow> bool" where
  "process_ok base others t \<longleftrightarrow> (process_idle base others t \<or> process_running base others t)
     \<and> poll_ok (ts_poll t) \<and> base 0 \<noteq> None \<and> base 1 \<noteq> None \<and> set_mset others \<subseteq> dom base
     \<and> 4 \<le> card {fd\<in>{0..<ks_limit (ts_kernel t)}. base fd = None} \<and> \<not> ts_reset_requested t"

text \<open>What a state is after the shutdown: as without tshark, but the XML parser may be one that has been freed.\<close>

definition process_down :: "(int \<rightharpoonup> fd_object) \<Rightarrow> int multiset \<Rightarrow> 'x tshark \<Rightarrow> bool" where
  "process_down base others t \<longleftrightarrow> process_idle base others (t\<lparr>ts_parser := XP_null\<rparr>) \<and> poll_ok (ts_poll t) \<and> base 0 \<noteq> None \<and> base 1 \<noteq> None
     \<and> set_mset others \<subseteq> dom base \<and> 4 \<le> card {fd\<in>{0..<ks_limit (ts_kernel t)}. base fd = None} \<and> \<not> ts_reset_requested t"

lemma tshark_parser_reset_spawned:
  "tshark_parser_reset True s = map_option (\<lambda>s. s\<lparr>sn_pdumper := True, sn_pd_out := True, sn_tshark := []\<rparr>) (tshark_parser_reset False s)"
  by (simp add: tshark_parser_reset_def pcap_dump_open_def Let_def)

lemma tshark_shutdown_idle:
  assumes "process_ok base others t" "process_idle base others t"
  shows "tshark_shutdown t = map_option (\<lambda>s. t\<lparr>ts_pcap_output := None, ts_sigpipe := sig_tshark_exited, ts_sniffer := s\<rparr>)
    (tshark_parser_reset False (ts_sniffer t))"
  using assms
  by (simp add: process_idle_def tshark_shutdown_def tshark_parser_reset_def pcap_dump_open_def Let_def)

lemma tshark_shutdown_running:
  assumes "process_ok base others t" "process_running base others t"
  shows "(tshark_parser_reset False (ts_sniffer t) = None \<and> tshark_shutdown t = None) \<or>
    (\<exists>t'. tshark_shutdown t = Some t' \<and> tshark_parser_reset False (ts_sniffer t) = Some (ts_sniffer t') \<and> process_down base others t'
      \<and> ts_parser t' = XP_freed)"
proof -
  let ?r = "ts_pipe_stdout t" and ?w = "ts_pipe_stdin t"
  have ok: "poll_ok (ts_poll t)" "base 0 \<noteq> None" "base 1 \<noteq> None" using assms(1) by (simp_all add: process_ok_def)
  obtain p q x tshark where run: "?w \<noteq> ?r" "base ?w = None" "base ?r = None" "ts_pdumper t = Some ?w" "ts_parser t = XP_live x"
      "ks_fds (ts_kernel t) = base(?w \<mapsto> pipe_write p, ?r \<mapsto> pipe_read q True)" "mset (polled (ts_poll t)) = add_mset ?r others"
      "ts_children t = [tshark]" "ch_pid tshark = ts_pid t" "ts_pid t \<noteq> 0"
    using assms(2) by (auto simp: process_running_def)
  have "?r \<in># mset (polled (ts_poll t))" unfolding run(7) by simp
  then have r: "?r \<in> set (polled (ts_poll t))" by simp
  then obtain d where d: "desc_poll_del ?r (ts_poll t) = Some d" "poll_ok d" "mset (polled d) = others" "None \<in> set (dp_poll_data d)"
    using desc_poll_del_polled [OF ok(1) r] run(7) by auto
  have "?r \<noteq> 0" using ok(2) run(3) by metis
  then show ?thesis
    using d run assms(1)
    by (auto simp: tshark_shutdown_def tshark_parser_reset_def pcap_dump_open_def Let_def process_down_def process_idle_def process_ok_def
        sys_close_def fun_eq_iff)
qed

lemma tshark_restart_running:
  assumes "process_down base others t" "pid \<noteq> 0"
  shows "process_running base others (tshark_restart expat inet_ntop (Some pid) True t)
    \<and> process_ok base others (tshark_restart expat inet_ntop (Some pid) True t)
    \<and> ts_sniffer (tshark_restart expat inet_ntop (Some pid) True t) = (ts_sniffer t)\<lparr>sn_pdumper := True, sn_pd_out := True, sn_tshark := []\<rparr>"
proof -
  let ?arguments = "tshark_arguments inet_ntop (cfg_context0 (w_config (ps_world (sn_parsing (ts_sniffer t)))))"
  let ?t = "tshark_restart expat inet_ntop (Some pid) True t"
  note down = assms(1) [unfolded process_down_def process_idle_def, simplified]
  have free: "4 \<le> card (free_fds (ts_kernel t))" using down by (simp add: free_fds_def)
  obtain result k where spawn: "spawn_piped_process ''tshark'' ?arguments (Some pid) (ts_kernel t) = (result, k)" by fastforce
  have "result \<noteq> None"
    using spawn_None [of "''tshark''" ?arguments "Some pid" "ts_kernel t" k] spawn free by (cases result) simp_all
  then obtain child w r where spawn': "spawn_piped_process ''tshark'' ?arguments (Some pid) (ts_kernel t) = (Some (child, w, r), k)"
    using spawn by (metis not_None_eq prod.exhaust)
  have fds: "ks_fds (ts_kernel t) 0 \<noteq> None" "ks_fds (ts_kernel t) 1 \<noteq> None" using down by auto
  note child = spawn_Some [OF spawn' fds]
  have "base r = None" "base w = None" using child down by (auto simp: free_fds_def)
  moreover have "r \<notin> set (polled (ts_poll t))" using calculation(1) down by (metis domIff set_mset_mset subsetD)
  note poll = desc_poll_add_polled [of "ts_poll t" r process_events_callback 0, OF _ this]
  have t: "?t = t\<lparr>ts_kernel := k, ts_pid := pid, ts_children := [child], ts_pipe_stdin := w, ts_pipe_stdout := r,
      ts_pcap_output := Some w, ts_pdumper := Some w, ts_parser := XP_live (xp_create expat),
      ts_sniffer := (ts_sniffer t)\<lparr>sn_pdumper := True, sn_pd_out := True, sn_tshark := []\<rparr>,
      ts_poll := snd (desc_poll_add r process_events_callback 0 (ts_poll t))\<rparr>"
    using child down spawn' by (simp add: tshark_restart_def Let_def)
  have "process_running base others ?t"
    unfolding t process_running_def using child down poll calculation assms(2) by auto
  moreover have "process_ok base others ?t"
    using calculation unfolding t process_ok_def using child down poll by auto
  ultimately show ?thesis by (simp add: t)
qed

lemma process_down_parser:
  "process_down base others t \<Longrightarrow> ts_parser t = XP_null \<Longrightarrow> process_ok base others t"
  by (simp add: process_down_def process_ok_def process_idle_def)

lemma shutdown_cases:
  assumes "process_ok base others t"
  obtains "tshark_shutdown t = None" "tshark_parser_reset False (ts_sniffer t) = None"
  | t' where "tshark_shutdown t = Some t'" "tshark_parser_reset False (ts_sniffer t) = Some (ts_sniffer t')" "process_down base others t'"
      "ts_parser t' = (if process_running base others t then XP_freed else XP_null)"
proof (cases "process_running base others t")
  case True
  from tshark_shutdown_running [OF assms True] that show thesis using True by auto
next
  case False
  then have idle: "process_idle base others t" using assms by (simp add: process_ok_def)
  show thesis
  proof (cases "tshark_parser_reset False (ts_sniffer t)")
    case None
    then show thesis using that(1) tshark_shutdown_idle [OF assms idle] by simp
  next
    case (Some s)
    show thesis
      by (rule that(2) [of "t\<lparr>ts_pcap_output := None, ts_sigpipe := sig_tshark_exited, ts_sniffer := s\<rparr>"])
        (use Some False idle assms tshark_shutdown_idle [OF assms idle] in \<open>simp_all add: process_down_def process_ok_def process_idle_def\<close>)
  qed
qed

text \<open>A restart that fails leaves everything shut down, but for a pipe that could not be opened as a stream.\<close>

lemma tshark_restart_failed:
  assumes "process_down base others t" "fork = None \<or> \<not> fdopen_ok"
  shows "ts_sniffer (tshark_restart expat inet_ntop fork fdopen_ok t) = ts_sniffer t
    \<and> ts_parser (tshark_restart expat inet_ntop fork fdopen_ok t) = ts_parser t
    \<and> (fork = None \<longrightarrow> process_down base others (tshark_restart expat inet_ntop fork fdopen_ok t))
    \<and> (fork \<noteq> None \<longrightarrow> desc_poll_del (ts_pipe_stdout (tshark_restart expat inet_ntop fork fdopen_ok t))
          (ts_poll (tshark_restart expat inet_ntop fork fdopen_ok t)) = None
        \<and> ts_pipe_stdout (tshark_restart expat inet_ntop fork fdopen_ok t) \<noteq> 0)"
proof -
  let ?arguments = "tshark_arguments inet_ntop (cfg_context0 (w_config (ps_world (sn_parsing (ts_sniffer t)))))"
  note down = assms(1) [unfolded process_down_def process_idle_def, simplified]
  have free: "4 \<le> card (free_fds (ts_kernel t))" using down by (simp add: free_fds_def)
  have fds: "ks_fds (ts_kernel t) 0 \<noteq> None" "ks_fds (ts_kernel t) 1 \<noteq> None" using down by auto
  obtain result k where spawn: "spawn_piped_process ''tshark'' ?arguments fork (ts_kernel t) = (result, k)" by fastforce
  show ?thesis
  proof (cases result)
    case None
    then have none: "ks_fds k = ks_fds (ts_kernel t)" "ks_limit k = ks_limit (ts_kernel t)" "fork = None"
      using spawn_None [of "''tshark''" ?arguments fork "ts_kernel t" k] spawn free by auto
    then show ?thesis using None spawn down by (simp add: tshark_restart_def process_down_def process_idle_def)
  next
    case (Some a)
    obtain child w r where a: "a = (child, w, r)" by (metis prod.exhaust)
    note child = spawn_Some [OF spawn [unfolded Some a] fds]
    have none: "base r = None" using child down by (auto simp: free_fds_def)
    have "base 0 \<noteq> None" using down by blast
    with none have "r \<noteq> 0" by metis
    have "r \<notin> set (polled (ts_poll t))" using none down by (metis domIff set_mset_mset subsetD)
    then have "desc_poll_del r (ts_poll t) = None" using desc_poll_del_iff [of r "ts_poll t"] by blast
    moreover have "fork \<noteq> None" "\<not> fdopen_ok" using child assms(2) by auto
    moreover have "tshark_restart expat inet_ntop fork fdopen_ok t = t\<lparr>ts_kernel := k, ts_pid := ch_pid child,
        ts_children := ts_children t @ [child], ts_pipe_stdin := w, ts_pipe_stdout := r\<rparr>"
      unfolding tshark_restart_def Let_def spawn Some a prod.case option.case using calculation(3) by simp
    ultimately show ?thesis using \<open>r \<noteq> 0\<close> by auto
  qed
qed

lemma freed_parser_fails: "ts_parser t = XP_freed \<Longrightarrow> tshark_shutdown t = None"
  by (cases "ts_pipe_stdout t = 0"; cases "ts_pid t = 0"; cases "desc_poll_del (ts_pipe_stdout t) (ts_poll t)"; cases "ts_pdumper t")
    (simp_all add: tshark_shutdown_def Let_def)

lemma unpolled_pipe_fails:
  "desc_poll_del (ts_pipe_stdout t) (ts_poll t) = None \<Longrightarrow> ts_pipe_stdout t \<noteq> 0 \<Longrightarrow> tshark_shutdown t = None"
  by (simp add: tshark_shutdown_def Let_def)

text \<open>
  The operations of a run: a reset, with what the fork and \<open>fdopen\<close> return in it, and a round of reading. A reset is never asked for
  by the flag that \<open>process_events\<close> tests, which the code never sets.
\<close>

datatype process_op = pop_reset "int option" bool | pop_read "(bool list \<times> char list) list"

fun process_step :: "'x expat \<Rightarrow> (in6_addr \<Rightarrow> string) \<Rightarrow> process_op \<Rightarrow> 'x tshark \<Rightarrow> 'x tshark option" where
  "process_step expat inet_ntop (pop_reset fork fdopen_ok) t = tshark_process_reset expat inet_ntop fork fdopen_ok t"
| "process_step expat inet_ntop (pop_read reads) t = map_option snd (process_events expat inet_ntop None False reads t)"

text \<open>
  Where a reset that fails leads when tshark ran before, or when only \<open>fdopen\<close> fails: nothing of tshark is left but a parser that has been freed, or
  there are one child and the two ends of its pipes, of which none is polled. The next reset then fails.
\<close>

definition process_stuck :: "(int \<rightharpoonup> fd_object) \<Rightarrow> int multiset \<Rightarrow> 'x tshark \<Rightarrow> bool" where
  "process_stuck base others t \<longleftrightarrow> mset (polled (ts_poll t)) = others \<and> set_mset others \<subseteq> dom base \<and> ts_pdumper t = None \<and> \<not> ts_reset_requested t
     \<and> (\<forall>x. ts_parser t \<noteq> XP_live x)
     \<and> (ts_parser t = XP_freed \<and> ks_fds (ts_kernel t) = base \<and> ts_children t = []
        \<or> ts_pipe_stdout t \<noteq> 0 \<and> ts_pipe_stdin t \<noteq> ts_pipe_stdout t \<and> base (ts_pipe_stdin t) = None \<and> base (ts_pipe_stdout t) = None
          \<and> (\<exists>p q tshark. ks_fds (ts_kernel t) = base(ts_pipe_stdin t \<mapsto> pipe_write p, ts_pipe_stdout t \<mapsto> pipe_read q True)
               \<and> ts_children t = [tshark] \<and> ch_pid tshark = ts_pid t \<and> ch_fds tshark = base(0 \<mapsto> pipe_read p False, 1 \<mapsto> pipe_write q)))"

lemma process_stuck_fails:
  assumes "process_stuck base others t"
  shows "tshark_process_reset expat inet_ntop fork fdopen_ok t = None"
proof -
  consider "ts_parser t = XP_freed" | "ts_pipe_stdout t \<noteq> 0" "base (ts_pipe_stdout t) = None"
    using assms by (auto simp: process_stuck_def)
  then have "tshark_shutdown t = None"
  proof cases
    case 1
    then show ?thesis by (rule freed_parser_fails)
  next
    case 2
    then have "ts_pipe_stdout t \<notin> set (polled (ts_poll t))"
      using assms by (metis domIff process_stuck_def set_mset_mset subsetD)
    then have "desc_poll_del (ts_pipe_stdout t) (ts_poll t) = None" using desc_poll_del_iff by blast
    then show ?thesis using 2(1) by (rule unpolled_pipe_fails)
  qed
  then show ?thesis by (simp add: tshark_process_reset_def)
qed

lemma tshark_restart_half:
  assumes "process_down base others t" "\<forall>x. ts_parser t \<noteq> XP_live x"
  shows "process_stuck base others (tshark_restart expat inet_ntop (Some pid) False t)"
proof -
  let ?arguments = "tshark_arguments inet_ntop (cfg_context0 (w_config (ps_world (sn_parsing (ts_sniffer t)))))"
  note down = assms(1) [unfolded process_down_def process_idle_def, simplified]
  have free: "4 \<le> card (free_fds (ts_kernel t))" using down by (simp add: free_fds_def)
  have fds: "ks_fds (ts_kernel t) 0 \<noteq> None" "ks_fds (ts_kernel t) 1 \<noteq> None" using down by auto
  obtain result k where "spawn_piped_process ''tshark'' ?arguments (Some pid) (ts_kernel t) = (result, k)" by fastforce
  moreover have "result \<noteq> None"
    by (cases result) (use calculation spawn_None [of "''tshark''" ?arguments "Some pid" "ts_kernel t" k] free in auto)
  then obtain child w r where "result = Some (child, w, r)" by (metis not_None_eq prod.exhaust)
  ultimately have spawn: "spawn_piped_process ''tshark'' ?arguments (Some pid) (ts_kernel t) = (Some (child, w, r), k)" by simp
  note child = spawn_Some [OF spawn fds]
  have "base 0 \<noteq> None" using down by blast
  have free: "base r = None" "base w = None" using child down by (auto simp: free_fds_def)
  then have "r \<noteq> 0" using \<open>base 0 \<noteq> None\<close> by metis
  moreover note free
  moreover have "ts_children t = []" using down by blast
  have t: "tshark_restart expat inet_ntop (Some pid) False t =
      t\<lparr>ts_kernel := k, ts_pid := ch_pid child, ts_children := [child], ts_pipe_stdin := w, ts_pipe_stdout := r\<rparr>"
    unfolding tshark_restart_def Let_def spawn prod.case option.case using \<open>ts_children t = []\<close> by simp
  have base: "ks_fds (ts_kernel t) = base" using down by blast
  have "ks_fds k = base(w \<mapsto> pipe_write (ks_next_pipe (ts_kernel t)), r \<mapsto> pipe_read (Suc (ks_next_pipe (ts_kernel t))) True)"
      "ch_fds child = base(0 \<mapsto> pipe_read (ks_next_pipe (ts_kernel t)) False, 1 \<mapsto> pipe_write (Suc (ks_next_pipe (ts_kernel t))))" "w \<noteq> r"
    using child unfolding base by blast+
  moreover have "mset (polled (ts_poll t)) = others" "set_mset others \<subseteq> dom base" "ts_pdumper t = None" "\<not> ts_reset_requested t"
    using down by blast+
  ultimately show ?thesis
    unfolding t process_stuck_def using assms(2) by (auto simp del: fun_upd_apply)
qed

lemma tshark_reset_outcome:
  assumes "process_ok base others t" "fork \<noteq> Some 0" "tshark_process_reset expat inet_ntop fork fdopen_ok t = Some t'"
  shows "(process_ok base others t' \<or> process_stuck base others t') \<and> (fork \<noteq> None \<and> fdopen_ok \<longrightarrow> process_ok base others t')"
  using assms(1)
proof (cases rule: shutdown_cases)
  case 1
  then show ?thesis using assms(3) by (simp add: tshark_process_reset_def)
next
  case (2 u)
  have parser: "\<forall>x. ts_parser u \<noteq> XP_live x" using 2(4) by simp
  have t': "t' = tshark_restart expat inet_ntop fork fdopen_ok u" using 2(1) assms(3) by (simp add: tshark_process_reset_def)
  consider pid where "fork = Some pid" "fdopen_ok" | pid where "fork = Some pid" "\<not> fdopen_ok" | "fork = None" by (cases fork) auto
  then show ?thesis
  proof cases
    case 1
    then show ?thesis using tshark_restart_running [OF 2(3), of pid expat inet_ntop] assms(2) t' by simp
  next
    case (2 pid)
    then show ?thesis using tshark_restart_half [OF \<open>process_down base others u\<close> parser, of expat inet_ntop pid] t' by simp
  next
    case 3
    then have down: "process_down base others t'" and "ts_parser t' = ts_parser u"
      using tshark_restart_failed [OF 2(3), of fork fdopen_ok expat inet_ntop] t' by simp_all
    moreover from down have "process_stuck base others t'" if "ts_parser t' = XP_freed"
      using that by (simp add: process_stuck_def process_down_def process_idle_def)
    ultimately show ?thesis using 2(4) 3 process_down_parser [OF down] by (cases "process_running base others t") simp_all
  qed
qed

lemma tshark_process_reset_ok:
  assumes "process_ok base others t" "pid \<noteq> 0"
  shows "map_option ts_sniffer (tshark_process_reset expat inet_ntop (Some pid) True t) = tshark_parser_reset True (ts_sniffer t)
    \<and> (\<forall>t'\<in>set_option (tshark_process_reset expat inet_ntop (Some pid) True t). process_running base others t' \<and> process_ok base others t')"
  using assms(1)
proof (cases rule: shutdown_cases)
  case 1
  then show ?thesis by (simp add: tshark_process_reset_def tshark_parser_reset_spawned)
next
  case (2 t')
  then show ?thesis
    using tshark_restart_running [OF 2(3) assms(2), of expat inet_ntop] by (simp add: tshark_process_reset_def tshark_parser_reset_spawned)
qed

text \<open>Reading changes the sniffer and the state of the XML parser only.\<close>

lemma process_ok_sniffer: "process_ok base others t \<Longrightarrow> process_ok base others (t\<lparr>ts_sniffer := s\<rparr>)"
  by (simp add: process_ok_def process_idle_def process_running_def)

lemma process_ok_parser:
  "process_ok base others t \<Longrightarrow> ts_parser t = XP_live x \<Longrightarrow> process_ok base others (t\<lparr>ts_sniffer := s, ts_parser := XP_live x'\<rparr>)"
  by (simp add: process_ok_def process_idle_def process_running_def)

lemma parse_chunk_ok: "process_ok base others t \<Longrightarrow> parse_chunk expat chunk t = Some t' \<Longrightarrow> process_ok base others t'"
  by (auto simp: parse_chunk_def process_ok_parser split: xml_pointer.splits prod.splits bind_splits)

lemma read_loop_ok: "process_ok base others t \<Longrightarrow> read_loop expat reads t = Some (b, t') \<Longrightarrow> process_ok base others t'"
proof (induction reads arbitrary: t)
  case (Cons r reads)
  obtain calls chunk run s where r: "r = (calls, chunk)" "wait_running calls (ts_sniffer t) = (run, s)" by (metis prod.exhaust)
  show ?case
    using Cons.prems Cons.IH parse_chunk_ok [OF process_ok_sniffer [OF Cons.prems(1)], of expat chunk s]
    by (cases run) (auto simp: r process_ok_sniffer split: bind_splits)
qed simp

lemma process_stuck_sniffer: "process_stuck base others t \<Longrightarrow> process_stuck base others (t\<lparr>ts_sniffer := s\<rparr>)"
  by (simp add: process_stuck_def)

lemma read_loop_stuck: "process_stuck base others t \<Longrightarrow> read_loop expat reads t = Some (b, t') \<Longrightarrow> process_stuck base others t'"
proof (induction reads arbitrary: t)
  case (Cons r reads)
  obtain calls chunk run s where r: "r = (calls, chunk)" "wait_running calls (ts_sniffer t) = (run, s)" by (metis prod.exhaust)
  have "parse_chunk expat chunk (t\<lparr>ts_sniffer := s\<rparr>) = None"
    using Cons.prems(1) by (cases "ts_parser t") (simp_all add: parse_chunk_def process_stuck_def)
  then show ?case using Cons.prems by (cases run) (auto simp: r process_stuck_sniffer)
qed simp

lemma process_step_ok:
  assumes "process_ok base others t" "process_step expat inet_ntop op t = Some t'" "\<And>fdopen_ok. op \<noteq> pop_reset (Some 0) fdopen_ok"
  shows "(process_ok base others t' \<or> process_stuck base others t')
    \<and> ((\<forall>fork fdopen_ok. op = pop_reset fork fdopen_ok \<longrightarrow> fork \<noteq> None \<and> fdopen_ok) \<longrightarrow> process_ok base others t')"
proof (cases op)
  case (pop_reset fork fdopen_ok)
  moreover from this have "fork \<noteq> Some 0" using assms(3) by blast
  ultimately show ?thesis using tshark_reset_outcome [OF assms(1), of fork expat inet_ntop fdopen_ok t'] assms(2) by simp
next
  case (pop_read reads)
  then show ?thesis using assms(1,2) read_loop_ok [OF assms(1)] by (auto simp: process_events_def process_ok_def)
qed

lemma process_step_stuck:
  assumes "process_stuck base others t" "process_step expat inet_ntop op t = Some t'"
  shows "process_stuck base others t'"
proof (cases op)
  case (pop_reset fork fdopen_ok)
  then show ?thesis using process_stuck_fails [OF assms(1)] assms(2) by simp
next
  case (pop_read reads)
  have "\<not> ts_reset_requested t" using assms(1) by (simp add: process_stuck_def)
  then obtain b where "read_loop expat reads t = Some (b, t')"
    using assms(2) pop_read by (auto simp: process_events_def)
  then show ?thesis by (rule read_loop_stuck [OF assms(1)])
qed

lemma process_steps_stuck:
  "process_stuck base others t \<Longrightarrow> each (process_step expat inet_ntop) ops t = Some t' \<Longrightarrow> process_stuck base others t'"
  by (induction ops arbitrary: t) (auto split: bind_splits intro: process_step_stuck)

lemma process_steps_ok:
  "process_ok base others t \<Longrightarrow> each (process_step expat inet_ntop) ops t = Some t' \<Longrightarrow> \<forall>fdopen_ok. pop_reset (Some 0) fdopen_ok \<notin> set ops \<Longrightarrow>
    (process_ok base others t' \<or> process_stuck base others t')
    \<and> ((\<forall>fork fdopen_ok. pop_reset fork fdopen_ok \<in> set ops \<longrightarrow> fork \<noteq> None \<and> fdopen_ok) \<longrightarrow> process_ok base others t')"
proof (induction ops arbitrary: t)
  case (Cons op ops)
  obtain u where u: "process_step expat inet_ntop op t = Some u" "each (process_step expat inet_ntop) ops u = Some t'"
    using Cons.prems(2) by (auto split: bind_splits)
  have zero: "\<And>fdopen_ok. op \<noteq> pop_reset (Some 0) fdopen_ok" "\<forall>fdopen_ok. pop_reset (Some 0) fdopen_ok \<notin> set ops" using Cons.prems(3) by auto
  note step = process_step_ok [OF Cons.prems(1) u(1) zero(1)]
  show ?case
  proof (cases "process_ok base others u")
    case True
    from Cons.IH [OF this u(2) zero(2)] show ?thesis by (metis list.set_intros(2))
  next
    case False
    then have "process_stuck base others t'" using step process_steps_stuck [OF _ u(2)] by blast
    then show ?thesis using step False by (metis list.set_intros(1))
  qed
qed simp

text \<open>The elements that \<open>read\<close> brings in pieces are handled as if they came at once.\<close>

lemma handler_keeps_state: "xml_handler e s = Some s' \<Longrightarrow> sn_xml_parser_state s' = sn_xml_parser_state s"
  by (cases e) (auto simp: xml_handler_def parse_xml_start_element_def parse_xml_end_element_def Let_def split: if_splits bind_splits option.splits)

lemma handlers_keep_state: "each xml_handler es s = Some s' \<Longrightarrow> sn_xml_parser_state s' = sn_xml_parser_state s"
  by (induction es arbitrary: s) (auto simp: handler_keeps_state split: bind_splits)

definition parses_in_pieces :: "'x expat \<Rightarrow> bool" where
  "parses_in_pieces expat \<longleftrightarrow> (\<forall>x. xp_parse expat x [] = ([], True, x)) \<and>
     (\<forall>x a b. xp_parse expat x (a @ b) =
       (case xp_parse expat x a of (es, good, y) \<Rightarrow> case xp_parse expat y b of (fs, good', z) \<Rightarrow> (es @ fs, good \<and> good', z)))"

lemma read_loop_pieces:
  assumes "parses_in_pieces expat"
  shows "sn_xml_parser_state (ts_sniffer t) = XPS_Run \<Longrightarrow> ts_parser t = XP_live x \<Longrightarrow> xp_parse expat x (concat chunks) = (es, True, y) \<Longrightarrow>
    read_loop expat (map (Pair []) chunks) t
      = map_option (\<lambda>s. (True, t\<lparr>ts_sniffer := s, ts_parser := XP_live y\<rparr>)) (each xml_handler es (ts_sniffer t))"
proof (induction chunks arbitrary: t x es)
  case Nil
  then have "es = []" "y = x" using assms by (simp_all add: parses_in_pieces_def)
  then show ?case using Nil.prems(2) by simp
next
  case (Cons chunk chunks)
  obtain fs good z where p: "xp_parse expat x chunk = (fs, good, z)" by (metis prod.exhaust)
  obtain gs good' z' where q: "xp_parse expat z (concat chunks) = (gs, good', z')" by (metis prod.exhaust)
  have "xp_parse expat x (chunk @ concat chunks) = (fs @ gs, good \<and> good', z')"
    using assms p q unfolding parses_in_pieces_def by (metis (no_types, lifting) case_prod_conv)
  then have all: "es = fs @ gs" good good' "z' = y" using Cons.prems(3) by simp_all
  show ?case
  proof (cases "each xml_handler fs (ts_sniffer t)")
    case None
    then show ?thesis using Cons.prems p all by (simp add: parse_chunk_def each_append c_assert_def)
  next
    case (Some s)
    have "read_loop expat (map (Pair []) chunks) (t\<lparr>ts_sniffer := s, ts_parser := XP_live z\<rparr>)
        = map_option (\<lambda>s. (True, t\<lparr>ts_sniffer := s, ts_parser := XP_live y\<rparr>)) (each xml_handler gs s)"
      using Cons.IH [of "t\<lparr>ts_sniffer := s, ts_parser := XP_live z\<rparr>" z gs] q all handlers_keep_state [OF Some] Cons.prems(1) by simp
    then show ?thesis using Some Cons.prems p all by (simp add: parse_chunk_def each_append c_assert_def)
  qed
qed

text \<open>A program that has only its standard descriptors open, before tshark is started.\<close>

definition tshark_zero :: "sniffer \<Rightarrow> 'x tshark" where
  "tshark_zero s =
     \<lparr>ts_sniffer = s, ts_reset_requested = False, ts_pid = 0, ts_pipe_stdin = 0, ts_pipe_stdout = 0, ts_pcap_output = None, ts_pdumper = None,
      ts_parser = XP_null, ts_sigpipe = SIG_DFL,
      ts_kernel = \<lparr>ks_limit = 16, ks_fds = [0 \<mapsto> fd_other, 1 \<mapsto> fd_other, 2 \<mapsto> fd_other], ks_next_pipe = 0\<rparr>,
      ts_poll = \<lparr>dp_initialized = True, dp_stop_thread = False, dp_poll_data = replicate SELECT_FD_NUM None, dp_poll_number = 0, dp_abort_pipe = []\<rparr>,
      ts_children = [], ts_on_error = False, ts_errors = []\<rparr>"

abbreviation std_fds :: "int \<rightharpoonup> fd_object" where
  "std_fds \<equiv> [0 \<mapsto> fd_other, 1 \<mapsto> fd_other, 2 \<mapsto> fd_other]"

lemma std_free: "4 \<le> card {fd\<in>{0..<16}. std_fds fd = None}"
proof -
  have "finite {fd\<in>{0..<16}. std_fds fd = None}" by (rule finite_subset [of _ "{0..<16}"]) auto
  moreover have "{3, 4, 5, 6} \<subseteq> {fd\<in>{0..<16}. std_fds fd = None}" by simp
  ultimately have "card {3::int, 4, 5, 6} \<le> card {fd\<in>{0..<16}. std_fds fd = None}" by (rule card_mono)
  moreover have "card {3::int, 4, 5, 6} = 4" by simp
  ultimately show ?thesis by metis
qed

lemma tshark_zero_ok: "process_ok std_fds {#} (tshark_zero s)" "ts_sniffer (tshark_zero s) = s"
proof -
  have limit: "ks_limit (ts_kernel (tshark_zero s)) = 16" by (simp add: tshark_zero_def)
  show "process_ok std_fds {#} (tshark_zero s)"
    unfolding process_ok_def limit
    by (intro conjI disjI1 std_free)
      (simp_all add: process_idle_def tshark_zero_def poll_ok_def SELECT_FD_NUM_def polled_def numeral_eq_Suc map_filter_simps)
qed (simp add: tshark_zero_def)

subsection \<open>The properties\<close>

text \<open>
  C32. Starting a process either fails and leaves every descriptor as it was, which happens only when the fork fails or less than four
  descriptors are free; or the child has as standard input and output the ends of two new pipes, of which the caller has
  the other ends, open and otherwise no new descriptor, the one to read from without blocking.
\<close>

theorem spawned_process_wired:
  assumes "ks_fds k 0 \<noteq> None" "ks_fds k 1 \<noteq> None"
  shows "(\<exists>k'. spawn_piped_process command arguments fork k = (None, k') \<and> ks_fds k' = ks_fds k \<and> (fork = None \<or> card (free_fds k) < 4))
    \<or> (\<exists>child w r k' p q. spawn_piped_process command arguments fork k = (Some (child, w, r), k') \<and> p \<noteq> q \<and> w \<noteq> r
        \<and> ks_fds k w = None \<and> ks_fds k r = None \<and> ks_fds k' = (ks_fds k)(w \<mapsto> pipe_write p, r \<mapsto> pipe_read q True)
        \<and> ch_fds child = (ks_fds k)(0 \<mapsto> pipe_read p False, 1 \<mapsto> pipe_write q)
        \<and> fork = Some (ch_pid child) \<and> ch_command child = command \<and> ch_arguments child = arguments \<and> 4 \<le> card (free_fds k))"
proof -
  obtain result k' where spawn: "spawn_piped_process command arguments fork k = (result, k')" by fastforce
  show ?thesis
  proof (cases result)
    case None
    then show ?thesis using spawn spawn_None [of command arguments fork k k'] by blast
  next
    case (Some a)
    obtain child w r where a: "a = (child, w, r)" by (metis prod.exhaust)
    note child = spawn_Some [OF spawn [unfolded Some a] assms]
    show ?thesis
      by (rule disjI2, rule exI [of _ child], rule exI [of _ w], rule exI [of _ r], rule exI [of _ k'],
          rule exI [of _ "ks_next_pipe k"], rule exI [of _ "Suc (ks_next_pipe k)"])
        (use child spawn Some a in \<open>auto simp: free_fds_def\<close>)
  qed
qed

theorem spawned_process_wired_witness:
  "\<exists>child w r k'. spawn_piped_process ''tshark'' [] (Some 7) \<lparr>ks_limit = 16, ks_fds = std_fds, ks_next_pipe = 0\<rparr> = (Some (child, w, r), k')
    \<and> w \<noteq> r \<and> ch_pid child = 7 \<and> ch_fds child 2 = Some fd_other"
proof -
  let ?k = "\<lparr>ks_limit = 16, ks_fds = std_fds, ks_next_pipe = 0\<rparr>"
  have free: "free_fds ?k = {fd\<in>{0..<16}. std_fds fd = None}" by (simp add: free_fds_def)
  have "4 \<le> card (free_fds ?k)" unfolding free by (rule std_free)
  then show ?thesis using spawned_process_wired [of ?k "''tshark''" "[]" "Some 7"] by auto
qed

text \<open>
  C33. Run any sequence of resets, whatever the fork and \<open>fdopen\<close> return in each, and of rounds of reading. As long as every reset that is run succeeds, no descriptor
  leaks and no process is left over: besides the descriptors of the rest of the program exactly the two ends of the pipes of the one tshark are open, and the
  one that is read is polled besides what others poll; a further reset that succeeds does to the sniffer what the reset of \<open>Sniffer\<close> does, and fails only where that fails. A reset
  that fails can leave the process stuck: then at most one child and the two ends of its pipes are left over, not polled, and a next
  reset always fails, so that more never accumulate.
\<close>

theorem restarts_leak_nothing:
  assumes "process_ok base others t" "each (process_step expat inet_ntop) ops t = Some t'"
    "\<forall>fdopen_ok. pop_reset (Some 0) fdopen_ok \<notin> set ops" "pid \<noteq> 0"
  shows "(process_ok base others t'
        \<and> map_option ts_sniffer (tshark_process_reset expat inet_ntop (Some pid) True t') = tshark_parser_reset True (ts_sniffer t')
        \<and> (\<forall>t''\<in>set_option (tshark_process_reset expat inet_ntop (Some pid) True t'). process_running base others t'')
      \<or> process_stuck base others t' \<and> (\<forall>fork fdopen_ok. tshark_process_reset expat inet_ntop fork fdopen_ok t' = None))
    \<and> ((\<forall>fork fdopen_ok. pop_reset fork fdopen_ok \<in> set ops \<longrightarrow> fork \<noteq> None \<and> fdopen_ok) \<longrightarrow> process_ok base others t')"
  using process_steps_ok [OF assms(1-3)] tshark_process_reset_ok [OF _ assms(4), of base others t' expat inet_ntop]
    process_stuck_fails [of base others t'] by blast

theorem restarts_leak_nothing_witness:
  "\<exists>t' t''. tshark_process_reset \<lparr>xp_create = (), xp_parse = \<lambda>_ _. ([], True, ())\<rparr> (\<lambda>_. ''aaaa::'') (Some 7) True (tshark_zero (zero_sniffer (rpl_tool_init (\<lambda>x. x)))) = Some t'
    \<and> tshark_process_reset \<lparr>xp_create = (), xp_parse = \<lambda>_ _. ([], True, ())\<rparr> (\<lambda>_. ''aaaa::'') (Some 8) True t' = Some t''
    \<and> process_running std_fds {#} t''"
proof -
  let ?s = "zero_sniffer (rpl_tool_init (\<lambda>x. x))"
  let ?e = "\<lparr>xp_create = (), xp_parse = \<lambda>_ _. ([], True, ())\<rparr>" and ?n = "\<lambda>_. ''aaaa::''"
  have some: "tshark_parser_reset True u \<noteq> None" if "\<not> sn_pdumper_out u" for u using that by (simp add: tshark_parser_reset_def)
  have "map_option ts_sniffer (tshark_process_reset ?e ?n (Some 7) True (tshark_zero ?s)) = tshark_parser_reset True ?s"
    using tshark_process_reset_ok [OF tshark_zero_ok(1), of 7 ?e ?n ?s] by (simp add: tshark_zero_ok(2))
  then obtain t' where t': "tshark_process_reset ?e ?n (Some 7) True (tshark_zero ?s) = Some t'" "\<not> sn_pdumper_out (ts_sniffer t')"
    by (auto simp: tshark_parser_reset_def zero_sniffer_def)
  have "each (process_step ?e ?n) [pop_reset (Some 7) True] (tshark_zero ?s) = Some t'" using t'(1) by simp
  from restarts_leak_nothing [OF tshark_zero_ok(1) this, of 8]
  have "map_option ts_sniffer (tshark_process_reset ?e ?n (Some 8) True t') = tshark_parser_reset True (ts_sniffer t')
      \<and> (\<forall>t''\<in>set_option (tshark_process_reset ?e ?n (Some 8) True t'). process_running std_fds {#} t'')"
    by (auto simp: process_stuck_def process_ok_def process_idle_def process_running_def)
  with some [OF t'(2)] t'(1) show ?thesis by (cases "tshark_process_reset ?e ?n (Some 8) True t'") auto
qed

text \<open>
  C37. When tshark runs and a restart of it fails, because of the fork or because the pipe cannot be opened as a stream, the next reset fails,
  whatever it meets: the XML parser would be freed a second time, or a descriptor removed that was never polled.
\<close>

theorem failed_restart_breaks_next:
  assumes "process_ok base others t" "process_running base others t" "fork = None \<or> \<not> fdopen_ok" "\<not> sn_pdumper_out (ts_sniffer t)"
  shows "\<exists>t'. tshark_process_reset expat inet_ntop fork fdopen_ok t = Some t'
    \<and> tshark_process_reset expat' inet_ntop' fork' fdopen_ok' t' = None"
proof -
  have "tshark_parser_reset False (ts_sniffer t) \<noteq> None" using assms(4) by (simp add: tshark_parser_reset_def)
  then obtain u where u: "tshark_shutdown t = Some u" "process_down base others u" "ts_parser u = XP_freed"
    using assms(1,2) by (cases rule: shutdown_cases [OF assms(1)]) auto
  note failed = tshark_restart_failed [OF u(2) assms(3), of expat inet_ntop]
  have "tshark_shutdown (tshark_restart expat inet_ntop fork fdopen_ok u) = None"
    by (rule freed_parser_fails) (simp add: failed u(3))
  then show ?thesis using u(1) by (simp add: tshark_process_reset_def)
qed


theorem failed_restart_breaks_next_witness:
  "\<exists>t1 t2. tshark_process_reset \<lparr>xp_create = (), xp_parse = \<lambda>_ _. ([], True, ())\<rparr> (\<lambda>_. ''aaaa::'') (Some 7) True
      (tshark_zero (zero_sniffer (rpl_tool_init (\<lambda>x. x)))) = Some t1
    \<and> tshark_process_reset \<lparr>xp_create = (), xp_parse = \<lambda>_ _. ([], True, ())\<rparr> (\<lambda>_. ''aaaa::'') None True t1 = Some t2
    \<and> tshark_process_reset \<lparr>xp_create = (), xp_parse = \<lambda>_ _. ([], True, ())\<rparr> (\<lambda>_. ''aaaa::'') (Some 8) True t2 = None"
proof -
  let ?s = "zero_sniffer (rpl_tool_init (\<lambda>x. x))"
  let ?e = "\<lparr>xp_create = (), xp_parse = \<lambda>_ _. ([], True, ())\<rparr>" and ?n = "\<lambda>_. ''aaaa::''"
  have "tshark_parser_reset True ?s = Some (?s\<lparr>sn_pdumper := True, sn_pd_out := True\<rparr>)"
    by (simp add: tshark_parser_reset_def zero_sniffer_def)
  then have first: "map_option ts_sniffer (tshark_process_reset ?e ?n (Some 7) True (tshark_zero ?s)) = Some (?s\<lparr>sn_pdumper := True, sn_pd_out := True\<rparr>)"
      "\<forall>t'\<in>set_option (tshark_process_reset ?e ?n (Some 7) True (tshark_zero ?s)). process_running std_fds {#} t' \<and> process_ok std_fds {#} t'"
    using tshark_process_reset_ok [OF tshark_zero_ok(1), of 7 ?e ?n ?s] by (simp_all add: tshark_zero_ok(2))
  from first(1) obtain t1 where t1: "tshark_process_reset ?e ?n (Some 7) True (tshark_zero ?s) = Some t1"
      "ts_sniffer t1 = ?s\<lparr>sn_pdumper := True, sn_pd_out := True\<rparr>" by auto
  have "process_ok std_fds {#} t1" "process_running std_fds {#} t1" using first(2) t1(1) by simp_all
  moreover have "\<not> sn_pdumper_out (ts_sniffer t1)" by (simp add: t1(2) zero_sniffer_def)
  ultimately show ?thesis
    using failed_restart_breaks_next [of std_fds "{#}" t1 None True ?e ?n ?e ?n "Some 8" True] t1(1) by blast
qed

text \<open>
  C34. However \<open>read\<close> cuts what tshark writes into chunks, a parser that takes its input in pieces leads to the same state: that of handling
  the elements of the whole input in order, as long as the input is good and the parser is not paused.
\<close>

theorem chunks_do_not_matter:
  assumes "parses_in_pieces expat" "\<not> ts_reset_requested t" "sn_xml_parser_state (ts_sniffer t) = XPS_Run" "ts_parser t = XP_live x"
    "xp_parse expat x (concat chunks) = (elements, True, y)"
  shows "process_events expat inet_ntop fork fdopen_ok (map (Pair []) chunks) t
    = map_option (\<lambda>s. (True, t\<lparr>ts_sniffer := s, ts_parser := XP_live y\<rparr>)) (each xml_handler elements (ts_sniffer t))"
  using read_loop_pieces [OF assms(1,3-5)] assms(2) by (simp add: process_events_def)

theorem chunks_do_not_matter_witness:
  "let t = (tshark_zero (zero_sniffer (rpl_tool_init (\<lambda>x. x))))\<lparr>ts_parser := XP_live ()\<rparr>;
       expat = \<lparr>xp_create = (), xp_parse = \<lambda>_ cs. (map (\<lambda>c. if c = CHR ''('' then xml_start ''proto'' [] else xml_end ''proto'') cs, True, ())\<rparr> in
   process_events expat (\<lambda>_. []) None True [([], ''((''), ([], '')('')] t
     = Some (True, t\<lparr>ts_sniffer := (ts_sniffer t)\<lparr>sn_embedded_proto := 2\<rparr>\<rparr>)"
proof -
  let ?t = "(tshark_zero (zero_sniffer (rpl_tool_init (\<lambda>x. x))))\<lparr>ts_parser := XP_live ()\<rparr>"
  let ?e = "\<lparr>xp_create = (), xp_parse = \<lambda>_ cs. (map (\<lambda>c. if c = CHR ''('' then xml_start ''proto'' [] else xml_end ''proto'') cs, True, ())\<rparr>"
  have "parses_in_pieces ?e" by (simp add: parses_in_pieces_def)
  from chunks_do_not_matter [OF this, of ?t "()" "[''(('', '')('']" _ "()" "\<lambda>_. []" None True] show ?thesis
    by (simp add: Let_def tshark_zero_def zero_sniffer_def xml_handler_def parse_xml_start_element_def parse_xml_end_element_def)
qed

text \<open>A chunk that fills the buffer and is bad XML makes the error message write past the buffer.\<close>

lemma bad_full_chunk_fails:
  "ts_parser t = XP_live x \<Longrightarrow> xp_parse expat x chunk = (elements, False, y) \<Longrightarrow> 512 \<le> length chunk \<Longrightarrow> parse_chunk expat chunk t = None"
  by (simp add: parse_chunk_def c_assert_def)

text \<open>While the parser stays paused, no chunk is parsed.\<close>

lemma paused_parser_waits:
  "sn_xml_parser_state (ts_sniffer t) = XPS_Paused \<Longrightarrow> set calls \<subseteq> {True} \<Longrightarrow>
    \<exists>s. read_loop expat ((calls, chunk) # reads) t = Some (False, t\<lparr>ts_sniffer := s\<rparr>) \<and> s = (ts_sniffer t)\<lparr>sn_xml_parser_state := XPS_Paused\<rparr>"
proof -
  have "wait_running calls s = (False, s\<lparr>sn_xml_parser_state := XPS_Paused\<rparr>)"
    if "sn_xml_parser_state s = XPS_Paused" "set calls \<subseteq> {True}" for s
    using that by (induction calls arbitrary: s) (simp_all add: sniffer_parser_pause_parser_def)
  then show "sn_xml_parser_state (ts_sniffer t) = XPS_Paused \<Longrightarrow> set calls \<subseteq> {True} \<Longrightarrow>
    \<exists>s. read_loop expat ((calls, chunk) # reads) t = Some (False, t\<lparr>ts_sniffer := s\<rparr>) \<and> s = (ts_sniffer t)\<lparr>sn_xml_parser_state := XPS_Paused\<rparr>"
    by simp
qed

end
