(* ===== verification/InterfaceRegistry.thy ===== *)
theory InterfaceRegistry
  imports Prelude
begin

section \<open>The registry of interfaces\<close>

text \<open>
  Models the registry of \<open>src/src/interface_reader/interfaces_mgr.c\<close>: a list of interfaces, to which the
  shared object that a name stands for is added when no interface has the name. What
  \<open>dlopen\<close> and \<open>dlsym\<close> find is a parameter: the shared object of a file, with the result of each of the two
  functions that it may have. The functions of an interface are a value. Messages are left out.
\<close>

record 'f interface =
  interface_name :: string
  interface_functions :: 'f

record 'f shared_object =
  so_get_version :: "int option"
  so_register :: "'f interface option"

definition MINIMAL_CAPTURE_VERSION :: int where
  "MINIMAL_CAPTURE_VERSION = 0"

definition interfacemgr_enumerate :: "(string \<Rightarrow> 's \<Rightarrow> 's) \<Rightarrow> 'f interface list \<Rightarrow> 's \<Rightarrow> 's" where
  "interfacemgr_enumerate callback interfaces = fold (\<lambda>i. callback (interface_name i)) interfaces"

definition interfacemgr_add :: "'f interface \<Rightarrow> 'f interface list \<Rightarrow> 'f interface option \<times> 'f interface list" where
  "interfacemgr_add interface interfaces = (Some interface, interface # interfaces)"

definition interfacemgr_register_from_shared_obj ::
    "(string \<Rightarrow> 'f shared_object option) \<Rightarrow> string \<Rightarrow> 'f interface list \<Rightarrow> 'f interface option \<times> 'f interface list" where
  "interfacemgr_register_from_shared_obj dlopen filename interfaces =
     (case dlopen filename of
        None \<Rightarrow> (None, interfaces)
      | Some handle \<Rightarrow>
          let interface_version = (case so_get_version handle of None \<Rightarrow> 0 | Some v \<Rightarrow> v) in
          if interface_version < MINIMAL_CAPTURE_VERSION then (None, interfaces)
          else (case so_register handle of
                  None \<Rightarrow> (None, interfaces)
                | Some interface_description \<Rightarrow> interfacemgr_add interface_description interfaces))"

definition interfacemgr_get ::
    "(string \<Rightarrow> 'f shared_object option) \<Rightarrow> string \<Rightarrow> 'f interface list \<Rightarrow> 'f interface option \<times> 'f interface list" where
  "interfacemgr_get dlopen name interfaces =
     (case find (\<lambda>i. interface_name i = name) interfaces of
        Some i \<Rightarrow> (Some i, interfaces)
      | None \<Rightarrow> interfacemgr_register_from_shared_obj dlopen name interfaces)"

lemma interfacemgr_get_result:
  assumes "interfacemgr_get dlopen name interfaces = (found, interfaces')"
  shows "\<exists>new. interfaces' = new @ interfaces \<and> length new \<le> 1 \<and> (found \<noteq> None \<longrightarrow> the found \<in> set interfaces')
    \<and> (new \<noteq> [] \<longrightarrow> (\<forall>i\<in>set interfaces. interface_name i \<noteq> name))"
proof (cases "find (\<lambda>i. interface_name i = name) interfaces")
  case None
  then have "\<forall>i\<in>set interfaces. interface_name i \<noteq> name" by (auto simp: find_None_iff)
  then show ?thesis
    using assms None
    by (auto simp: interfacemgr_get_def interfacemgr_register_from_shared_obj_def interfacemgr_add_def Let_def
        split: option.splits if_splits)
next
  case (Some i)
  then have "i \<in> set interfaces" by (auto simp: find_Some_iff)
  then show ?thesis using assms Some by (auto simp: interfacemgr_get_def)
qed

text \<open>Once an interface has been found, the same name finds it again if that is its name.\<close>

lemma interfacemgr_get_again:
  assumes "interfacemgr_get dlopen name interfaces = (Some i, interfaces')" "interface_name i = name"
  shows "interfacemgr_get dlopen name interfaces' = (Some i, interfaces')"
proof (cases "find (\<lambda>i. interface_name i = name) interfaces")
  case None
  then show ?thesis
    using assms
    by (auto simp: interfacemgr_get_def interfacemgr_register_from_shared_obj_def interfacemgr_add_def Let_def
        split: option.splits if_splits)
next
  case (Some j)
  then show ?thesis using assms by (simp add: interfacemgr_get_def)
qed

subsection \<open>Baud rates\<close>

text \<open>The constants of \<open>termios.h\<close> on Linux, which has all of them.\<close>

definition baudrates :: "(int \<times> int) list" where
  "baudrates =
     [(50, 1), (75, 2), (110, 3), (134, 4), (150, 5), (200, 6), (300, 7), (600, 8), (1200, 9), (1800, 10), (2400, 11), (4800, 12),
      (9600, 13), (19200, 14), (38400, 15), (57600, 4097), (115200, 4098), (230400, 4099), (460800, 4100), (500000, 4101),
      (576000, 4102), (921600, 4103), (1000000, 4104), (1152000, 4105), (1500000, 4106), (2000000, 4107), (2500000, 4108),
      (3000000, 4109), (3500000, 4110), (4000000, 4111)]"

definition interfacemgr_baudrate_to_const :: "int \<Rightarrow> int" where
  "interfacemgr_baudrate_to_const requested = (case map_of baudrates requested of Some baudrate \<Rightarrow> baudrate | None \<Rightarrow> 0)"

lemma baudrate_known: "interfacemgr_baudrate_to_const requested \<noteq> 0 \<longleftrightarrow> requested \<in> fst ` set baudrates"
proof -
  have "requested \<in> fst ` set baudrates \<longleftrightarrow> map_of baudrates requested \<noteq> None" by (simp only: map_of_eq_None_iff) simp
  moreover have "map_of baudrates requested = Some b \<Longrightarrow> b \<noteq> 0" for b
    by (drule map_of_SomeD) (auto simp: baudrates_def)
  ultimately show ?thesis by (auto simp: interfacemgr_baudrate_to_const_def split: option.splits)
qed

lemma baudrate_inj: "inj_on interfacemgr_baudrate_to_const (fst ` set baudrates)"
proof (rule inj_onI)
  have d: "distinct (map snd baudrates)" by (simp add: baudrates_def)
  fix x y assume "x \<in> fst ` set baudrates" "y \<in> fst ` set baudrates" "interfacemgr_baudrate_to_const x = interfacemgr_baudrate_to_const y"
  moreover have "\<exists>b. map_of baudrates z = Some b" if "z \<in> fst ` set baudrates" for z
    using that by (metis map_of_eq_None_iff not_Some_eq)
  ultimately obtain b where "map_of baudrates x = Some b" "map_of baudrates y = Some b"
    by (fastforce simp: interfacemgr_baudrate_to_const_def)
  then have "(x, b) \<in> set baudrates" "(y, b) \<in> set baudrates" by (auto dest: map_of_SomeD)
  moreover have "inj_on snd (set baudrates)" using d by (simp add: distinct_map)
  ultimately show "x = y" by (force simp: inj_on_def)
qed

end
