(* ===== verification/LinkedLists.thy ===== *)
theory LinkedLists
  imports Prelude
begin

section \<open>Doubly linked lists on a heap\<close>

text \<open>
  What the macros of \<open>src/src/uthash.h\<close> and \<open>src/src/utlist.h\<close> build: nodes with a next and a previous pointer, 0 being NULL.
  \<open>dll nx pv p h xs\<close> says that the nodes \<open>xs\<close> are linked from \<open>h\<close> on, where \<open>nx\<close> and \<open>pv\<close> read the two pointers of a node and
  \<open>p\<close> is the previous pointer of the first. The lemmas are the four changes that the macros make: putting a node before or behind a list,
  taking one out, and changing the previous pointer of the first.
\<close>

fun dll :: "(nat \<Rightarrow> nat) \<Rightarrow> (nat \<Rightarrow> nat) \<Rightarrow> nat \<Rightarrow> nat \<Rightarrow> nat list \<Rightarrow> bool" where
  "dll nx pv p h [] \<longleftrightarrow> h = 0"
| "dll nx pv p h (x # xs) \<longleftrightarrow> h = x \<and> x \<noteq> 0 \<and> pv x = p \<and> dll nx pv x (nx x) xs"

text \<open>The first and the last node, NULL for the empty list.\<close>

definition first_of :: "nat list \<Rightarrow> nat" where
  "first_of xs = (case xs of [] \<Rightarrow> 0 | x # _ \<Rightarrow> x)"

definition last_of :: "nat list \<Rightarrow> nat" where
  "last_of xs = first_of (rev xs)"

lemma first_of_simps [simp]: "first_of [] = 0" "first_of (x # xs) = x" "first_of (xs @ ys) = (if xs = [] then first_of ys else first_of xs)"
  by (auto simp: first_of_def split: list.split)

lemma last_of_simps [simp]: "last_of [] = 0" "last_of (xs @ [x]) = x" "last_of (x # xs) = (if xs = [] then x else last_of xs)"
  by (simp_all add: last_of_def)

lemma last_of_last: "xs \<noteq> [] \<Longrightarrow> last_of xs = last xs"
  by (induction xs) auto

lemma last_of_in: "xs \<noteq> [] \<Longrightarrow> last_of xs \<in> set xs"
  by (simp add: last_of_last)

lemma dll_cong: "(\<And>x. x \<in> set xs \<Longrightarrow> nx' x = nx x \<and> pv' x = pv x) \<Longrightarrow> dll nx' pv' p h xs \<longleftrightarrow> dll nx pv p h xs"
  by (induction xs arbitrary: p h) auto

lemma dll_nx_upd [simp]: "a \<notin> set xs \<Longrightarrow> dll (nx(a := v)) pv p h xs \<longleftrightarrow> dll nx pv p h xs"
  by (rule dll_cong) auto

lemma dll_pv_upd [simp]: "a \<notin> set xs \<Longrightarrow> dll nx (pv(a := v)) p h xs \<longleftrightarrow> dll nx pv p h xs"
  by (rule dll_cong) auto

lemma dll_first: "dll nx pv p h xs \<Longrightarrow> h = first_of xs"
  by (cases xs) auto

lemma dll_nonzero: "dll nx pv p h xs \<Longrightarrow> 0 \<notin> set xs"
  by (induction xs arbitrary: p h) auto

lemma dll_append:
  "dll nx pv p h (xs @ ys) \<longleftrightarrow> (if xs = [] then dll nx pv p h ys
     else \<exists>k. dll (nx(last_of xs := 0)) pv p h xs \<and> nx (last_of xs) = k \<and> dll nx pv (last_of xs) k ys)" if "distinct xs"
  using that
proof (induction xs arbitrary: p h)
  case (Cons x xs)
  show ?case
  proof (cases "xs = []")
    case False
    then have "x \<noteq> last_of xs" using Cons.prems last_of_in [OF False] by auto
    then show ?thesis using Cons False by simp
  qed simp
qed simp

lemma dll_set_prev: "dll nx pv p h xs \<Longrightarrow> distinct xs \<Longrightarrow> dll nx (pv(h := q)) q h xs"
proof (cases xs)
  case (Cons x ys)
  assume "dll nx pv p h xs" "distinct xs"
  with Cons have "dll nx pv x (nx x) ys" "x \<notin> set ys" "h = x" "x \<noteq> 0" by simp_all
  then have "dll nx (pv(x := q)) x (nx x) ys" by simp
  then show ?thesis using Cons \<open>h = x\<close> \<open>x \<noteq> 0\<close> by simp
qed simp

lemma dll_push:
  assumes "dll nx pv p h xs" "distinct xs" "a \<notin> set xs" "a \<noteq> 0"
  shows "dll (nx(a := h)) (pv(h := a, a := q)) q a (a # xs)"
proof -
  have "dll nx (pv(h := a)) a h xs" by (rule dll_set_prev [OF assms(1,2)])
  then have "dll (nx(a := h)) (pv(h := a, a := q)) a h xs" using assms(3) by simp
  then show ?thesis using assms(4) by simp
qed

lemma dll_snoc:
  "dll nx pv p h xs \<Longrightarrow> distinct xs \<Longrightarrow> a \<notin> set xs \<Longrightarrow> a \<noteq> 0 \<Longrightarrow> xs \<noteq> [] \<Longrightarrow>
    dll (nx(last_of xs := a, a := 0)) (pv(a := last_of xs)) p h (xs @ [a])"
proof (induction xs arbitrary: p h)
  case (Cons x xs)
  show ?case
  proof (cases "xs = []")
    case False
    then have "x \<noteq> last_of xs" using Cons.prems(2) last_of_in [OF False] by auto
    moreover have "dll (nx(last_of xs := a, a := 0)) (pv(a := last_of xs)) x (nx x) (xs @ [a])"
      by (rule Cons.IH) (use Cons.prems False in auto)
    moreover have "(nx(last_of xs := a, a := 0)) x = nx x" "(pv(a := last_of xs)) x = pv x" using Cons.prems(3) calculation(1) by auto
    ultimately show ?thesis using Cons.prems False by (simp del: fun_upd_apply)
  qed (use Cons.prems in simp)
qed simp

text \<open>Taking a node out: its neighbours are linked to each other.\<close>

lemma dll_remove:
  "dll nx pv p h (xs @ a # ys) \<Longrightarrow> distinct (xs @ a # ys) \<Longrightarrow> p \<notin> set (xs @ a # ys) \<Longrightarrow>
    dll (nx(pv a := nx a)) (pv(nx a := pv a)) p (if h = a then nx a else h) (xs @ ys)"
proof (induction xs arbitrary: p h)
  case Nil
  then have "dll nx pv a (nx a) ys" "pv a = p" "h = a" by simp_all
  then have "dll nx (pv(nx a := p)) p (nx a) ys" using Nil.prems(2) by (auto intro: dll_set_prev)
  then show ?case using Nil.prems(3) \<open>pv a = p\<close> \<open>h = a\<close> by (simp del: fun_upd_apply)
next
  case (Cons x xs)
  then have x: "h = x" "x \<noteq> 0" "pv x = p" "dll nx pv x (nx x) (xs @ a # ys)" "x \<noteq> a" by auto
  have step: "dll (nx(pv a := nx a)) (pv(nx a := pv a)) x (if nx x = a then nx a else nx x) (xs @ ys)"
    by (rule Cons.IH) (use x(4) Cons.prems in auto)
  have front: "nx x = first_of (xs @ a # ys)" using dll_first [OF x(4)] .
  have "(nx(pv a := nx a)) x = (if nx x = a then nx a else nx x)"
  proof (cases "xs = []")
    case True
    then show ?thesis using x(4) by simp
  next
    case False
    then have "nx x \<noteq> a" using front Cons.prems(2) by (cases xs) auto
    moreover have "pv a = last_of xs"
      using x(4) Cons.prems(2) False dll_append [of xs nx pv x "nx x" "a # ys"] by simp
    moreover have "last_of xs \<noteq> x" using last_of_in [OF False] Cons.prems(2) by auto
    ultimately show ?thesis by simp
  qed
  moreover have "(pv(nx a := pv a)) x = p"
  proof -
    have "nx a \<noteq> x"
    proof (cases "ys = []")
      case True
      then have "nx a = 0" using x(4) Cons.prems(2) dll_append [of xs nx pv x "nx x" "[a]"] by (auto split: if_splits)
      then show ?thesis using x(2) by simp
    next
      case False
      then obtain y zs where "ys = y # zs" by (cases ys) auto
      then have "nx a = y" using x(4) Cons.prems(2) dll_append [of xs nx pv x "nx x" "a # ys"] by (auto split: if_splits)
      then show ?thesis using \<open>ys = y # zs\<close> Cons.prems(2) by auto
    qed
    then show ?thesis using x(3) by simp
  qed
  ultimately show ?case using step x by (simp del: fun_upd_apply)
qed

text \<open>What the neighbours of a node are.\<close>

lemma dll_neighbours:
  assumes "dll nx pv p h (xs @ a # ys)" "distinct (xs @ a # ys)"
  shows "nx a = first_of ys" "pv a = (if xs = [] then p else last_of xs)"
proof -
  have "dll nx pv (if xs = [] then p else last_of xs) a (a # ys)"
    using assms dll_append [of xs nx pv p h "a # ys"] by (auto split: if_splits)
  then show "nx a = first_of ys" "pv a = (if xs = [] then p else last_of xs)" using dll_first by auto
qed

subsection \<open>One pointer only\<close>

text \<open>A list of which only the next pointers matter.\<close>

fun sll :: "(nat \<Rightarrow> nat) \<Rightarrow> nat \<Rightarrow> nat list \<Rightarrow> bool" where
  "sll nx h [] \<longleftrightarrow> h = 0"
| "sll nx h (x # xs) \<longleftrightarrow> h = x \<and> x \<noteq> 0 \<and> sll nx (nx x) xs"

lemma dll_sll: "dll nx pv p h xs \<Longrightarrow> sll nx h xs"
  by (induction xs arbitrary: p h) auto

lemma sll_cong: "(\<And>x. x \<in> set xs \<Longrightarrow> nx' x = nx x) \<Longrightarrow> sll nx' h xs \<longleftrightarrow> sll nx h xs"
  by (induction xs arbitrary: h) auto

lemma sll_upd [simp]: "a \<notin> set xs \<Longrightarrow> sll (nx(a := v)) h xs \<longleftrightarrow> sll nx h xs"
  by (rule sll_cong) auto

lemma sll_first: "sll nx h xs \<Longrightarrow> h = first_of xs"
  by (cases xs) auto

lemma sll_nonzero: "sll nx h xs \<Longrightarrow> 0 \<notin> set xs"
  by (induction xs arbitrary: h) auto

lemma sll_append: "sll nx h (xs @ b # ys) \<Longrightarrow> b \<noteq> 0 \<and> sll nx (nx b) ys"
  by (induction xs arbitrary: h) auto

text \<open>Taking out the node behind another one.\<close>

lemma sll_remove:
  "sll nx h (xs @ b # a # ys) \<Longrightarrow> distinct (xs @ b # a # ys) \<Longrightarrow> sll (nx(b := nx a)) h (xs @ b # ys)"
  by (induction xs arbitrary: h) auto

end
