(* ===== verification/Uthash.thy ===== *)
theory Uthash
  imports LinkedLists
begin

section \<open>The hash table of uthash\<close>

text \<open>
  Models the macros of \<open>src/src/uthash.h\<close> that \<open>hash_container.c\<close> uses, as they work on pointers.
  \<^item> An element is the address of its handle, 0 being NULL; the offset \<open>hho\<close> between an element and its handle is 0. The handles are a
    map from addresses; reading or writing one that is not there fails, and so does a bucket past the array. A key is its bytes.
  \<^item> Every element of a table points to the one table of the head. When the table is freed it is \<open>None\<close>. Memory never
    runs out; the numbers are \<open>unsigned\<close> and wrap around.
  \<^item> Loops follow pointers and may not end, so they are partial functions; \<open>UthashRefine\<close> shows that they do.
  The bloom filter, the emitting of keys and the consistency check are compiled out; sorting, selecting and the other hash functions are
  not used.
\<close>

record ut_handle =
  uh_prev :: nat
  uh_next :: nat
  uh_hh_prev :: nat
  uh_hh_next :: nat
  uh_key :: "u8 list"
  uh_hashv :: u32

record ut_bucket =
  ub_hh_head :: nat
  ub_count :: u32
  ub_expand_mult :: u32

record ut_table =
  tb_buckets :: "ut_bucket list"
  tb_num_buckets :: u32
  tb_log2_num_buckets :: u32
  tb_num_items :: u32
  tb_tail :: nat
  tb_ideal_chain_maxlen :: u32
  tb_nonideal_items :: u32
  tb_ineff_expands :: u32
  tb_noexpand :: u32

record uthash =
  ut_head :: nat
  ut_tbl :: "ut_table option"
  ut_hh :: "nat \<rightharpoonup> ut_handle"

definition HASH_INITIAL_NUM_BUCKETS :: u32 where
  "HASH_INITIAL_NUM_BUCKETS = 32"

definition HASH_INITIAL_NUM_BUCKETS_LOG2 :: u32 where
  "HASH_INITIAL_NUM_BUCKETS_LOG2 = 5"

definition HASH_BKT_CAPACITY_THRESH :: u32 where
  "HASH_BKT_CAPACITY_THRESH = 10"

subsection \<open>The hash function\<close>

definition HASH_JEN_MIX :: "u32 \<Rightarrow> u32 \<Rightarrow> u32 \<Rightarrow> u32 \<times> u32 \<times> u32" where
  "HASH_JEN_MIX a b c =
     (let a = (a - b - c) XOR drop_bit 13 c;
          b = (b - c - a) XOR push_bit 8 a;
          c = (c - a - b) XOR drop_bit 13 b;
          a = (a - b - c) XOR drop_bit 12 c;
          b = (b - c - a) XOR push_bit 16 a;
          c = (c - a - b) XOR drop_bit 5 b;
          a = (a - b - c) XOR drop_bit 3 c;
          b = (b - c - a) XOR push_bit 10 a;
          c = (c - a - b) XOR drop_bit 15 b
      in (a, b, c))"

text \<open>Four bytes of the key as a number, and the loop over pieces of 12 bytes.\<close>

definition jen_word :: "u8 list \<Rightarrow> nat \<Rightarrow> u32" where
  "jen_word key n = ucast (key ! n) + push_bit 8 (ucast (key ! (n + 1))) + push_bit 16 (ucast (key ! (n + 2))) + push_bit 24 (ucast (key ! (n + 3)))"

function jen_loop :: "u32 \<Rightarrow> u32 \<Rightarrow> u32 \<Rightarrow> u8 list \<Rightarrow> u32 \<times> u32 \<times> u32 \<times> u8 list" where
  "jen_loop i j hashv key =
     (if length key < 12 then (i, j, hashv, key)
      else let (i, j, hashv) = HASH_JEN_MIX (i + jen_word key 0) (j + jen_word key 4) (hashv + jen_word key 8)
           in jen_loop i j hashv (drop 12 key))"
  by pat_completeness auto

termination jen_loop
  by (relation "measure (\<lambda>(_, _, _, key). length key)") auto

declare jen_loop.simps [simp del]

text \<open>The cases of the switch fall through, so every byte that is left is added.\<close>

definition jen_rest :: "u8 list \<Rightarrow> nat \<Rightarrow> nat \<Rightarrow> u32" where
  "jen_rest key n k = (if n < length key then push_bit k (ucast (key ! n)) else 0)"

definition HASH_JEN :: "u8 list \<Rightarrow> u32" where
  "HASH_JEN key =
     (let (i, j, hashv, rest) = jen_loop 0x9e3779b9 0x9e3779b9 0xfeedbeef key;
          hashv = hashv + of_nat (length key);
          hashv = hashv + jen_rest rest 10 24 + jen_rest rest 9 16 + jen_rest rest 8 8;
          j = j + jen_rest rest 7 24 + jen_rest rest 6 16 + jen_rest rest 5 8 + jen_rest rest 4 0;
          i = i + jen_rest rest 3 24 + jen_rest rest 2 16 + jen_rest rest 1 8 + jen_rest rest 0 0
      in snd (snd (HASH_JEN_MIX i j hashv)))"

definition HASH_TO_BKT :: "u32 \<Rightarrow> u32 \<Rightarrow> nat" where
  "HASH_TO_BKT hashv num_bkts = unat (hashv AND (num_bkts - 1))"

subsection \<open>Handles and buckets\<close>

definition hh_update :: "nat \<Rightarrow> (ut_handle \<Rightarrow> ut_handle) \<Rightarrow> (nat \<rightharpoonup> ut_handle) \<Rightarrow> (nat \<rightharpoonup> ut_handle) option" where
  "hh_update p f hh = map_option (\<lambda>h. hh(p \<mapsto> f h)) (hh p)"

definition bucket_at :: "nat \<Rightarrow> ut_bucket list \<Rightarrow> ut_bucket option" where
  "bucket_at b buckets = (if b < length buckets then Some (buckets ! b) else None)"

definition empty_bucket :: ut_bucket where
  "empty_bucket = \<lparr>ub_hh_head = 0, ub_count = 0, ub_expand_mult = 0\<rparr>"

definition HASH_MAKE_TABLE :: "nat \<Rightarrow> ut_table" where
  "HASH_MAKE_TABLE head =
     \<lparr>tb_buckets = replicate (unat HASH_INITIAL_NUM_BUCKETS) empty_bucket, tb_num_buckets = HASH_INITIAL_NUM_BUCKETS,
      tb_log2_num_buckets = HASH_INITIAL_NUM_BUCKETS_LOG2, tb_num_items = 0, tb_tail = head, tb_ideal_chain_maxlen = 0,
      tb_nonideal_items = 0, tb_ineff_expands = 0, tb_noexpand = 0\<rparr>"

text \<open>Putting a handle in front of a bucket.\<close>

definition bucket_push :: "nat \<Rightarrow> ut_bucket \<Rightarrow> (nat \<rightharpoonup> ut_handle) \<Rightarrow> (ut_bucket \<times> (nat \<rightharpoonup> ut_handle)) option" where
  "bucket_push p bkt hh =
     do { hh \<leftarrow> hh_update p (\<lambda>h. h\<lparr>uh_hh_next := ub_hh_head bkt, uh_hh_prev := 0\<rparr>) hh;
          hh \<leftarrow> (if ub_hh_head bkt \<noteq> 0 then hh_update (ub_hh_head bkt) (\<lambda>h. h\<lparr>uh_hh_prev := p\<rparr>) hh else Some hh);
          Some (bkt\<lparr>ub_hh_head := p\<rparr>, hh) }"

subsection \<open>Looking up\<close>

partial_function (option) HASH_FIND_IN_BKT :: "(nat \<rightharpoonup> ut_handle) \<Rightarrow> u8 list \<Rightarrow> nat \<Rightarrow> nat option" where
  "HASH_FIND_IN_BKT hh key out =
     (if out = 0 then Some 0
      else do { h \<leftarrow> hh out;
                if length (uh_key h) = length key \<and> uh_key h = key then Some out
                else HASH_FIND_IN_BKT hh key (uh_hh_next h) })"

definition HASH_FIND :: "u8 list \<Rightarrow> uthash \<Rightarrow> nat option" where
  "HASH_FIND key s =
     (if ut_head s = 0 then Some 0
      else do { tbl \<leftarrow> ut_tbl s;
                bkt \<leftarrow> bucket_at (HASH_TO_BKT (HASH_JEN key) (tb_num_buckets tbl)) (tb_buckets tbl);
                HASH_FIND_IN_BKT (ut_hh s) key (ub_hh_head bkt) })"

definition HASH_COUNT :: "uthash \<Rightarrow> u32 option" where
  "HASH_COUNT s = (if ut_head s = 0 then Some 0 else map_option tb_num_items (ut_tbl s))"

subsection \<open>Expanding\<close>

text \<open>A handle moves to its new bucket; the state is the new buckets, the number of items that are not ideal, and the handles.\<close>

definition expand_item ::
    "u32 \<Rightarrow> u32 \<Rightarrow> nat \<Rightarrow> u32 \<Rightarrow> ut_bucket list \<times> u32 \<times> (nat \<rightharpoonup> ut_handle) \<Rightarrow> (ut_bucket list \<times> u32 \<times> (nat \<rightharpoonup> ut_handle)) option" where
  "expand_item num_buckets2 ideal thh hashv st =
     (case st of (new_buckets, nonideal, hh) \<Rightarrow>
        do { let b = HASH_TO_BKT hashv num_buckets2;
             newbkt \<leftarrow> bucket_at b new_buckets;
             let newbkt = newbkt\<lparr>ub_count := ub_count newbkt + 1\<rparr>;
             (newbkt, nonideal) \<leftarrow>
               (if ub_count newbkt > ideal then
                  do { c_assert (ideal \<noteq> 0);
                       Some (newbkt\<lparr>ub_expand_mult := ub_count newbkt div ideal\<rparr>, nonideal + 1) }
                else Some (newbkt, nonideal));
             (newbkt, hh) \<leftarrow> bucket_push thh newbkt hh;
             Some (new_buckets[b := newbkt], nonideal, hh) })"

partial_function (option) expand_chain ::
    "u32 \<Rightarrow> u32 \<Rightarrow> nat \<Rightarrow> ut_bucket list \<times> u32 \<times> (nat \<rightharpoonup> ut_handle) \<Rightarrow> (ut_bucket list \<times> u32 \<times> (nat \<rightharpoonup> ut_handle)) option" where
  "expand_chain num_buckets2 ideal thh st =
     (if thh = 0 then Some st
      else do { h \<leftarrow> snd (snd st) thh;
                let hh_nxt = uh_hh_next h;
                st \<leftarrow> expand_item num_buckets2 ideal thh (uh_hashv h) st;
                expand_chain num_buckets2 ideal hh_nxt st })"

definition HASH_EXPAND_BUCKETS :: "ut_table \<Rightarrow> (nat \<rightharpoonup> ut_handle) \<Rightarrow> (ut_table \<times> (nat \<rightharpoonup> ut_handle)) option" where
  "HASH_EXPAND_BUCKETS tbl hh =
     do { let new_buckets = replicate (unat (2 * tb_num_buckets tbl)) empty_bucket;
          let ideal = drop_bit (unat (tb_log2_num_buckets tbl + 1)) (tb_num_items tbl)
                + (if tb_num_items tbl AND (tb_num_buckets tbl * 2 - 1) \<noteq> 0 then 1 else 0);
          (new_buckets, nonideal, hh) \<leftarrow>
            each (\<lambda>bkt. expand_chain (tb_num_buckets tbl * 2) ideal (ub_hh_head bkt)) (tb_buckets tbl) (new_buckets, 0, hh);
          let tbl = tbl\<lparr>tb_ideal_chain_maxlen := ideal, tb_nonideal_items := nonideal, tb_num_buckets := tb_num_buckets tbl * 2,
                 tb_log2_num_buckets := tb_log2_num_buckets tbl + 1, tb_buckets := new_buckets\<rparr>;
          let tbl = tbl\<lparr>tb_ineff_expands := (if nonideal > drop_bit 1 (tb_num_items tbl) then tb_ineff_expands tbl + 1 else 0)\<rparr>;
          Some (if tb_ineff_expands tbl > 1 then tbl\<lparr>tb_noexpand := 1\<rparr> else tbl, hh) }"

subsection \<open>Adding\<close>

definition HASH_ADD_TO_BKT :: "nat \<Rightarrow> nat \<Rightarrow> ut_table \<Rightarrow> (nat \<rightharpoonup> ut_handle) \<Rightarrow> (ut_table \<times> (nat \<rightharpoonup> ut_handle)) option" where
  "HASH_ADD_TO_BKT b addhh tbl hh =
     do { bkt \<leftarrow> bucket_at b (tb_buckets tbl);
          let bkt = bkt\<lparr>ub_count := ub_count bkt + 1\<rparr>;
          (bkt, hh) \<leftarrow> bucket_push addhh bkt hh;
          let tbl = tbl\<lparr>tb_buckets := (tb_buckets tbl)[b := bkt]\<rparr>;
          if ub_count bkt \<ge> (ub_expand_mult bkt + 1) * HASH_BKT_CAPACITY_THRESH \<and> tb_noexpand tbl \<noteq> 1
          then HASH_EXPAND_BUCKETS tbl hh
          else Some (tbl, hh) }"

definition HASH_ADD_KEYPTR :: "u8 list \<Rightarrow> nat \<Rightarrow> uthash \<Rightarrow> uthash option" where
  "HASH_ADD_KEYPTR key add s =
     do { hh \<leftarrow> hh_update add (\<lambda>h. h\<lparr>uh_next := 0, uh_key := key\<rparr>) (ut_hh s);
          (head, tbl, hh) \<leftarrow>
            (if ut_head s = 0 then
               do { hh \<leftarrow> hh_update add (\<lambda>h. h\<lparr>uh_prev := 0\<rparr>) hh; Some (add, HASH_MAKE_TABLE add, hh) }
             else
               do { tbl \<leftarrow> ut_tbl s;
                    hh \<leftarrow> hh_update (tb_tail tbl) (\<lambda>h. h\<lparr>uh_next := add\<rparr>) hh;
                    hh \<leftarrow> hh_update add (\<lambda>h. h\<lparr>uh_prev := tb_tail tbl\<rparr>) hh;
                    Some (ut_head s, tbl\<lparr>tb_tail := add\<rparr>, hh) });
          let tbl = tbl\<lparr>tb_num_items := tb_num_items tbl + 1\<rparr>;
          let hashv = HASH_JEN key;
          hh \<leftarrow> hh_update add (\<lambda>h. h\<lparr>uh_hashv := hashv\<rparr>) hh;
          (tbl, hh) \<leftarrow> HASH_ADD_TO_BKT (HASH_TO_BKT hashv (tb_num_buckets tbl)) add tbl hh;
          Some (s\<lparr>ut_head := head, ut_tbl := Some tbl, ut_hh := hh\<rparr>) }"

subsection \<open>Deleting\<close>

definition HASH_DEL_IN_BKT :: "nat \<Rightarrow> nat \<Rightarrow> ut_bucket list \<Rightarrow> (nat \<rightharpoonup> ut_handle) \<Rightarrow> (ut_bucket list \<times> (nat \<rightharpoonup> ut_handle)) option" where
  "HASH_DEL_IN_BKT b hh_del buckets hh =
     do { bkt \<leftarrow> bucket_at b buckets;
          let bkt = bkt\<lparr>ub_count := ub_count bkt - 1\<rparr>;
          d \<leftarrow> hh hh_del;
          let bkt = (if ub_hh_head bkt = hh_del then bkt\<lparr>ub_hh_head := uh_hh_next d\<rparr> else bkt);
          hh \<leftarrow> (if uh_hh_prev d \<noteq> 0 then hh_update (uh_hh_prev d) (\<lambda>h. h\<lparr>uh_hh_next := uh_hh_next d\<rparr>) hh else Some hh);
          hh \<leftarrow> (if uh_hh_next d \<noteq> 0 then hh_update (uh_hh_next d) (\<lambda>h. h\<lparr>uh_hh_prev := uh_hh_prev d\<rparr>) hh else Some hh);
          Some (buckets[b := bkt], hh) }"

definition HASH_DELETE :: "nat \<Rightarrow> uthash \<Rightarrow> uthash option" where
  "HASH_DELETE delptr s =
     do { d \<leftarrow> ut_hh s delptr;
          tbl \<leftarrow> ut_tbl s;
          if uh_prev d = 0 \<and> uh_next d = 0 then Some (s\<lparr>ut_head := 0, ut_tbl := None\<rparr>)
          else
            do { let tail = (if delptr = tb_tail tbl then uh_prev d else tb_tail tbl);
                 (head, hh) \<leftarrow> (if uh_prev d \<noteq> 0
                   then map_option (Pair (ut_head s)) (hh_update (uh_prev d) (\<lambda>h. h\<lparr>uh_next := uh_next d\<rparr>) (ut_hh s))
                   else Some (uh_next d, ut_hh s));
                 hh \<leftarrow> (if uh_next d \<noteq> 0 then hh_update (uh_next d) (\<lambda>h. h\<lparr>uh_prev := uh_prev d\<rparr>) hh else Some hh);
                 (buckets, hh) \<leftarrow> HASH_DEL_IN_BKT (HASH_TO_BKT (uh_hashv d) (tb_num_buckets tbl)) delptr (tb_buckets tbl) hh;
                 Some (s\<lparr>ut_head := head, ut_hh := hh,
                         ut_tbl := Some (tbl\<lparr>tb_tail := tail, tb_buckets := buckets, tb_num_items := tb_num_items tbl - 1\<rparr>)\<rparr>) } }"

text \<open>The loop of \<open>hash_clear\<close>: \<open>HASH_ITER\<close> reads the next element before the body deletes and frees the current one.\<close>

partial_function (option) hash_clear_loop :: "nat \<Rightarrow> nat \<Rightarrow> uthash \<Rightarrow> uthash option" where
  "hash_clear_loop element tmp s =
     (if element = 0 then Some s
      else do { s \<leftarrow> HASH_DELETE element s;
                let s = s\<lparr>ut_hh := (ut_hh s)(element := None)\<rparr>;
                nxt \<leftarrow> (if tmp \<noteq> 0 then map_option uh_next (ut_hh s tmp) else Some 0);
                hash_clear_loop tmp nxt s })"

definition hash_clear_elements :: "uthash \<Rightarrow> uthash option" where
  "hash_clear_elements s =
     do { tmp \<leftarrow> (if ut_head s \<noteq> 0 then map_option uh_next (ut_hh s (ut_head s)) else Some 0);
          hash_clear_loop (ut_head s) tmp s }"

end
