(* ===== verification/UthashRefine.thy ===== *)
theory UthashRefine
  imports Uthash HashContainer
begin

section \<open>A hash table is the list of its elements\<close>

text \<open>
  The elements of a table are linked twice: in the order of insertion, and within the bucket that their hash selects. \<open>ut_ok s els\<close> says that the
  table \<open>s\<close> holds the elements \<open>els\<close> in that order; adding, deleting, clearing and expanding keep it, and finding is a search in
  \<open>els\<close>. \<open>represents\<close> relates a table to a container of \<open>HashContainer\<close>, whose operations on the list of elements are thereby shown to be
  those of the macros.
\<close>

subsection \<open>Handles as functions\<close>

definition app_nx :: "(nat \<rightharpoonup> ut_handle) \<Rightarrow> nat \<Rightarrow> nat" where
  "app_nx hh p = (case hh p of Some h \<Rightarrow> uh_next h | None \<Rightarrow> 0)"

definition app_pv :: "(nat \<rightharpoonup> ut_handle) \<Rightarrow> nat \<Rightarrow> nat" where
  "app_pv hh p = (case hh p of Some h \<Rightarrow> uh_prev h | None \<Rightarrow> 0)"

definition bkt_nx :: "(nat \<rightharpoonup> ut_handle) \<Rightarrow> nat \<Rightarrow> nat" where
  "bkt_nx hh p = (case hh p of Some h \<Rightarrow> uh_hh_next h | None \<Rightarrow> 0)"

definition bkt_pv :: "(nat \<rightharpoonup> ut_handle) \<Rightarrow> nat \<Rightarrow> nat" where
  "bkt_pv hh p = (case hh p of Some h \<Rightarrow> uh_hh_prev h | None \<Rightarrow> 0)"

definition key_of :: "(nat \<rightharpoonup> ut_handle) \<Rightarrow> nat \<Rightarrow> u8 list" where
  "key_of hh p = (case hh p of Some h \<Rightarrow> uh_key h | None \<Rightarrow> [])"

definition hashv_of :: "(nat \<rightharpoonup> ut_handle) \<Rightarrow> nat \<Rightarrow> u32" where
  "hashv_of hh p = (case hh p of Some h \<Rightarrow> uh_hashv h | None \<Rightarrow> 0)"

lemmas hh_views = app_nx_def app_pv_def bkt_nx_def bkt_pv_def key_of_def hashv_of_def

lemma hh_views_put [simp]:
  "app_nx (hh(p \<mapsto> h)) = (app_nx hh)(p := uh_next h)" "app_pv (hh(p \<mapsto> h)) = (app_pv hh)(p := uh_prev h)"
  "bkt_nx (hh(p \<mapsto> h)) = (bkt_nx hh)(p := uh_hh_next h)" "bkt_pv (hh(p \<mapsto> h)) = (bkt_pv hh)(p := uh_hh_prev h)"
  "key_of (hh(p \<mapsto> h)) = (key_of hh)(p := uh_key h)" "hashv_of (hh(p \<mapsto> h)) = (hashv_of hh)(p := uh_hashv h)"
  by (auto simp: hh_views fun_eq_iff)

lemma hh_views_same [simp]:
  assumes "hh p = Some h"
  shows "(app_nx hh)(p := uh_next h) = app_nx hh" "(app_pv hh)(p := uh_prev h) = app_pv hh" "(bkt_nx hh)(p := uh_hh_next h) = bkt_nx hh"
    "(bkt_pv hh)(p := uh_hh_prev h) = bkt_pv hh" "(key_of hh)(p := uh_key h) = key_of hh" "(hashv_of hh)(p := uh_hashv h) = hashv_of hh"
  using assms by (simp_all add: hh_views fun_upd_idem)

text \<open>What two states of the handles have in common when only one kind of links changes.\<close>

definition same_app :: "(nat \<rightharpoonup> ut_handle) \<Rightarrow> (nat \<rightharpoonup> ut_handle) \<Rightarrow> bool" where
  "same_app hh hh' \<longleftrightarrow> dom hh' = dom hh \<and> app_nx hh' = app_nx hh \<and> app_pv hh' = app_pv hh \<and> key_of hh' = key_of hh \<and> hashv_of hh' = hashv_of hh"

definition same_bkt :: "(nat \<rightharpoonup> ut_handle) \<Rightarrow> (nat \<rightharpoonup> ut_handle) \<Rightarrow> bool" where
  "same_bkt hh hh' \<longleftrightarrow> dom hh' = dom hh \<and> bkt_nx hh' = bkt_nx hh \<and> bkt_pv hh' = bkt_pv hh \<and> key_of hh' = key_of hh \<and> hashv_of hh' = hashv_of hh"

lemma same_app_refl [simp]: "same_app hh hh"
  by (simp add: same_app_def)

lemma same_bkt_refl [simp]: "same_bkt hh hh"
  by (simp add: same_bkt_def)

lemma same_app_trans: "same_app hh hh' \<Longrightarrow> same_app hh' hh'' \<Longrightarrow> same_app hh hh''"
  by (simp add: same_app_def)

lemma same_bkt_trans: "same_bkt hh hh' \<Longrightarrow> same_bkt hh' hh'' \<Longrightarrow> same_bkt hh hh''"
  by (simp add: same_bkt_def)

lemma update_app_next:
  "p \<in> dom hh \<Longrightarrow> \<exists>hh'. hh_update p (\<lambda>h. h\<lparr>uh_next := v\<rparr>) hh = Some hh' \<and> same_bkt hh hh'
    \<and> app_nx hh' = (app_nx hh)(p := v) \<and> app_pv hh' = app_pv hh"
  by (auto simp: hh_update_def same_bkt_def)

lemma update_app_prev:
  "p \<in> dom hh \<Longrightarrow> \<exists>hh'. hh_update p (\<lambda>h. h\<lparr>uh_prev := v\<rparr>) hh = Some hh' \<and> same_bkt hh hh'
    \<and> app_nx hh' = app_nx hh \<and> app_pv hh' = (app_pv hh)(p := v)"
  by (auto simp: hh_update_def same_bkt_def)

lemma update_bkt_next:
  "p \<in> dom hh \<Longrightarrow> \<exists>hh'. hh_update p (\<lambda>h. h\<lparr>uh_hh_next := v\<rparr>) hh = Some hh' \<and> same_app hh hh'
    \<and> bkt_nx hh' = (bkt_nx hh)(p := v) \<and> bkt_pv hh' = bkt_pv hh"
  by (auto simp: hh_update_def same_app_def)

lemma update_bkt_prev:
  "p \<in> dom hh \<Longrightarrow> \<exists>hh'. hh_update p (\<lambda>h. h\<lparr>uh_hh_prev := v\<rparr>) hh = Some hh' \<and> same_app hh hh'
    \<and> bkt_nx hh' = bkt_nx hh \<and> bkt_pv hh' = (bkt_pv hh)(p := v)"
  by (auto simp: hh_update_def same_app_def)

lemma update_bkt_both:
  "p \<in> dom hh \<Longrightarrow> \<exists>hh'. hh_update p (\<lambda>h. h\<lparr>uh_hh_next := v, uh_hh_prev := u\<rparr>) hh = Some hh' \<and> same_app hh hh'
    \<and> bkt_nx hh' = (bkt_nx hh)(p := v) \<and> bkt_pv hh' = (bkt_pv hh)(p := u)"
  by (auto simp: hh_update_def same_app_def)

subsection \<open>Buckets\<close>

lemma bucket_push_ok:
  assumes "dll (bkt_nx hh) (bkt_pv hh) 0 (ub_hh_head bkt) ch" "distinct ch" "p \<notin> set ch" "p \<noteq> 0" "insert p (set ch) \<subseteq> dom hh"
  shows "\<exists>hh'. bucket_push p bkt hh = Some (bkt\<lparr>ub_hh_head := p\<rparr>, hh') \<and> same_app hh hh'
    \<and> dll (bkt_nx hh') (bkt_pv hh') 0 p (p # ch) \<and> (\<forall>x. x \<notin> set (p # ch) \<longrightarrow> bkt_nx hh' x = bkt_nx hh x \<and> bkt_pv hh' x = bkt_pv hh x)"
proof -
  let ?h = "ub_hh_head bkt"
  obtain hh1 where hh1: "hh_update p (\<lambda>h. h\<lparr>uh_hh_next := ?h, uh_hh_prev := 0\<rparr>) hh = Some hh1" "same_app hh hh1"
      "bkt_nx hh1 = (bkt_nx hh)(p := ?h)" "bkt_pv hh1 = (bkt_pv hh)(p := 0)"
    using update_bkt_both [of p hh] assms(5) by blast
  have push: "dll ((bkt_nx hh)(p := ?h)) ((bkt_pv hh)(?h := p, p := 0)) 0 p (p # ch)"
    by (rule dll_push [OF assms(1-4)])
  show ?thesis
  proof (cases "ch = []")
    case True
    then have "?h = 0" using assms(1) by simp
    then show ?thesis using True hh1 assms(4) by (simp add: bucket_push_def)
  next
    case False
    have h: "?h = first_of ch" by (rule dll_first [OF assms(1)])
    then have "?h \<in> set ch" "?h \<noteq> 0" using False assms(1) by (cases ch; auto)+
    then have "?h \<in> dom hh1" using assms(5) hh1(2) by (auto simp: same_app_def)
    then obtain hh2 where hh2: "hh_update ?h (\<lambda>h. h\<lparr>uh_hh_prev := p\<rparr>) hh1 = Some hh2" "same_app hh1 hh2"
        "bkt_nx hh2 = bkt_nx hh1" "bkt_pv hh2 = (bkt_pv hh1)(?h := p)"
      using update_bkt_prev by blast
    have "?h \<noteq> p" using \<open>?h \<in> set ch\<close> assms(3) by auto
    then have "bkt_pv hh2 = (bkt_pv hh)(?h := p, p := 0)" unfolding hh2(4) hh1(4) by (simp add: fun_upd_twist)
    then have "dll (bkt_nx hh2) (bkt_pv hh2) 0 p (p # ch)" using push hh2(3) hh1(3) by simp
    then show ?thesis
      using hh1 hh2 \<open>?h \<noteq> 0\<close> \<open>?h \<in> set ch\<close> same_app_trans [OF hh1(2) hh2(2)]
      by (auto simp: bucket_push_def simp del: dll.simps)
  qed
qed

text \<open>The chains of all buckets; they are disjoint.\<close>

definition chains_ok :: "(nat \<rightharpoonup> ut_handle) \<Rightarrow> ut_bucket list \<Rightarrow> (nat \<Rightarrow> nat list) \<Rightarrow> bool" where
  "chains_ok hh buckets ch \<longleftrightarrow> (\<forall>b<length buckets. dll (bkt_nx hh) (bkt_pv hh) 0 (ub_hh_head (buckets ! b)) (ch b) \<and> distinct (ch b)
     \<and> set (ch b) \<subseteq> dom hh \<and> ub_count (buckets ! b) = of_nat (length (ch b)))
   \<and> (\<forall>b<length buckets. \<forall>b'<length buckets. b \<noteq> b' \<longrightarrow> set (ch b) \<inter> set (ch b') = {})"

lemma chains_okD:
  assumes "chains_ok hh buckets ch" "b < length buckets"
  shows "dll (bkt_nx hh) (bkt_pv hh) 0 (ub_hh_head (buckets ! b)) (ch b)" "distinct (ch b)" "set (ch b) \<subseteq> dom hh"
    "ub_count (buckets ! b) = of_nat (length (ch b))" "b' < length buckets \<Longrightarrow> b \<noteq> b' \<Longrightarrow> set (ch b) \<inter> set (ch b') = {}"
  using assms by (auto simp: chains_ok_def)

lemma chains_same_bkt: "same_bkt hh hh' \<Longrightarrow> chains_ok hh' buckets ch \<longleftrightarrow> chains_ok hh buckets ch"
  by (simp add: chains_ok_def same_bkt_def)

text \<open>A bucket changes its chain, and the handles of the others stay.\<close>

lemma chains_change:
  assumes "chains_ok hh buckets ch" "b < length buckets" "dom hh' = dom hh"
    "\<And>x b'. b' < length buckets \<Longrightarrow> b' \<noteq> b \<Longrightarrow> x \<in> set (ch b') \<Longrightarrow> bkt_nx hh' x = bkt_nx hh x \<and> bkt_pv hh' x = bkt_pv hh x"
    "dll (bkt_nx hh') (bkt_pv hh') 0 (ub_hh_head bkt) xs" "distinct xs" "set xs \<subseteq> dom hh" "ub_count bkt = of_nat (length xs)"
    "\<And>b'. b' < length buckets \<Longrightarrow> b' \<noteq> b \<Longrightarrow> set xs \<inter> set (ch b') = {}"
  shows "chains_ok hh' (buckets[b := bkt]) (ch(b := xs))"
  unfolding chains_ok_def
proof (intro conjI allI impI)
  fix i assume i: "i < length (buckets[b := bkt])"
  show "dll (bkt_nx hh') (bkt_pv hh') 0 (ub_hh_head (buckets[b := bkt] ! i)) ((ch(b := xs)) i)"
    using chains_okD(1) [OF assms(1), of i] assms(2,4,5) i dll_cong [of "ch i" "bkt_nx hh'" "bkt_nx hh" "bkt_pv hh'" "bkt_pv hh"]
    by (cases "i = b") auto
  show "distinct ((ch(b := xs)) i)" "set ((ch(b := xs)) i) \<subseteq> dom hh'" "ub_count (buckets[b := bkt] ! i) = of_nat (length ((ch(b := xs)) i))"
    using chains_okD(2-4) [OF assms(1), of i] assms(2,3,6-8) i by (cases "i = b"; simp)+
  fix j assume "j < length (buckets[b := bkt])" "i \<noteq> j"
  then show "set ((ch(b := xs)) i) \<inter> set ((ch(b := xs)) j) = {}"
    using chains_okD(5) [OF assms(1), of i j] assms(2) assms(9) [of i] assms(9) [of j] i by (cases "i = b"; cases "j = b") auto
qed

lemma chains_push:
  assumes "chains_ok hh buckets ch" "b < length buckets" "p \<noteq> 0" "p \<in> dom hh" "\<And>b'. b' < length buckets \<Longrightarrow> p \<notin> set (ch b')"
    "ub_hh_head bkt = ub_hh_head (buckets ! b)" "ub_count bkt = ub_count (buckets ! b) + 1"
  shows "\<exists>hh'. bucket_push p bkt hh = Some (bkt\<lparr>ub_hh_head := p\<rparr>, hh') \<and> same_app hh hh'
    \<and> chains_ok hh' (buckets[b := bkt\<lparr>ub_hh_head := p\<rparr>]) (ch(b := p # ch b))
    \<and> (\<forall>x. x \<noteq> p \<longrightarrow> x \<notin> set (ch b) \<longrightarrow> bkt_nx hh' x = bkt_nx hh x \<and> bkt_pv hh' x = bkt_pv hh x)"
proof -
  note old = chains_okD [OF assms(1,2)]
  obtain hh' where hh': "bucket_push p bkt hh = Some (bkt\<lparr>ub_hh_head := p\<rparr>, hh')" "same_app hh hh'"
      "dll (bkt_nx hh') (bkt_pv hh') 0 p (p # ch b)" "\<forall>x. x \<notin> set (p # ch b) \<longrightarrow> bkt_nx hh' x = bkt_nx hh x \<and> bkt_pv hh' x = bkt_pv hh x"
    using bucket_push_ok [of hh bkt "ch b" p] old(1-3) assms(2-6) by (metis insert_subset)
  have "chains_ok hh' (buckets[b := bkt\<lparr>ub_hh_head := p\<rparr>]) (ch(b := p # ch b))"
  proof (rule chains_change [OF assms(1,2)])
    show "dom hh' = dom hh" using hh'(2) by (simp add: same_app_def)
    show "dll (bkt_nx hh') (bkt_pv hh') 0 (ub_hh_head (bkt\<lparr>ub_hh_head := p\<rparr>)) (p # ch b)" using hh'(3) by simp
    show "ub_count (bkt\<lparr>ub_hh_head := p\<rparr>) = of_nat (length (p # ch b))" using old(4) assms(7) by simp
    show "distinct (p # ch b)" "set (p # ch b) \<subseteq> dom hh" using old(2,3) assms(2,4,5) by auto
    fix b' assume b': "b' < length buckets" "b' \<noteq> b"
    show "set (p # ch b) \<inter> set (ch b') = {}" using old(5) [of b'] b' assms(5) by auto
    fix x assume "x \<in> set (ch b')"
    then show "bkt_nx hh' x = bkt_nx hh x \<and> bkt_pv hh' x = bkt_pv hh x" using hh'(4) old(5) [of b'] b' assms(5) [of b'] by auto
  qed
  then show ?thesis using hh' by auto
qed

subsection \<open>Expanding\<close>

lemma expand_item_ok:
  assumes "chains_ok hh buckets ch" "HASH_TO_BKT hashv num < length buckets" "p \<noteq> 0" "p \<in> dom hh" "\<And>b. b < length buckets \<Longrightarrow> p \<notin> set (ch b)" "ideal \<noteq> 0"
  shows "\<exists>buckets' nonideal' hh'. expand_item num ideal p hashv (buckets, nonideal, hh) = Some (buckets', nonideal', hh')
    \<and> length buckets' = length buckets \<and> same_app hh hh'
    \<and> chains_ok hh' buckets' (ch(HASH_TO_BKT hashv num := p # ch (HASH_TO_BKT hashv num)))
    \<and> (\<forall>x. x \<noteq> p \<longrightarrow> (\<forall>b<length buckets. x \<notin> set (ch b)) \<longrightarrow> bkt_nx hh' x = bkt_nx hh x \<and> bkt_pv hh' x = bkt_pv hh x)"
proof -
  let ?b = "HASH_TO_BKT hashv num"
  let ?counted = "(buckets ! ?b)\<lparr>ub_count := ub_count (buckets ! ?b) + 1\<rparr>"
  obtain bkt nonideal' where bkt: "(if ub_count ?counted > ideal then
        do { c_assert (ideal \<noteq> 0); Some (?counted\<lparr>ub_expand_mult := ub_count ?counted div ideal\<rparr>, nonideal + 1) }
      else Some (?counted, nonideal)) = Some (bkt, nonideal')"
    and same: "ub_hh_head bkt = ub_hh_head (buckets ! ?b)" "ub_count bkt = ub_count (buckets ! ?b) + 1"
    using assms(6) by (cases "ub_count ?counted > ideal") (auto simp: c_assert_def)
  obtain hh' where push: "bucket_push p bkt hh = Some (bkt\<lparr>ub_hh_head := p\<rparr>, hh')" "same_app hh hh'"
      "chains_ok hh' (buckets[?b := bkt\<lparr>ub_hh_head := p\<rparr>]) (ch(?b := p # ch ?b))"
      "\<forall>x. x \<noteq> p \<longrightarrow> x \<notin> set (ch ?b) \<longrightarrow> bkt_nx hh' x = bkt_nx hh x \<and> bkt_pv hh' x = bkt_pv hh x"
    using chains_push [OF assms(1-5) same] by blast
  have "expand_item num ideal p hashv (buckets, nonideal, hh) = Some (buckets[?b := bkt\<lparr>ub_hh_head := p\<rparr>], nonideal', hh')"
    unfolding expand_item_def bucket_at_def Let_def prod.case if_P [OF assms(2)] bind.bind_lunit bkt push(1) by simp
  then show ?thesis using push(2-4) assms(2) by auto
qed

lemma expand_chain_ok:
  assumes "ideal \<noteq> 0"
  shows "chains_ok hh buckets ch \<Longrightarrow> dll (bkt_nx hh) (bkt_pv hh) q thh xs \<Longrightarrow> distinct xs \<Longrightarrow> set xs \<subseteq> dom hh \<Longrightarrow>
    (\<And>x b. x \<in> set xs \<Longrightarrow> b < length buckets \<Longrightarrow> x \<notin> set (ch b)) \<Longrightarrow>
    (\<And>x. x \<in> set xs \<Longrightarrow> HASH_TO_BKT (hashv_of hh x) num < length buckets) \<Longrightarrow>
    \<exists>buckets' nonideal' hh'. expand_chain num ideal thh (buckets, nonideal, hh) = Some (buckets', nonideal', hh')
      \<and> length buckets' = length buckets \<and> same_app hh hh'
      \<and> chains_ok hh' buckets' (\<lambda>b. rev (filter (\<lambda>x. HASH_TO_BKT (hashv_of hh x) num = b) xs) @ ch b)
      \<and> (\<forall>x. x \<notin> set xs \<longrightarrow> (\<forall>b<length buckets. x \<notin> set (ch b)) \<longrightarrow> bkt_nx hh' x = bkt_nx hh x \<and> bkt_pv hh' x = bkt_pv hh x)"
proof (induction xs arbitrary: hh buckets nonideal ch q thh)
  case Nil
  then show ?case by (subst expand_chain.simps) simp
next
  case (Cons x xs)
  let ?b = "HASH_TO_BKT (hashv_of hh x) num"
  have x: "thh = x" "x \<noteq> 0" "dll (bkt_nx hh) (bkt_pv hh) x (bkt_nx hh x) xs" "x \<notin> set xs" "x \<in> dom hh" using Cons.prems(2-4) by auto
  then obtain h where h: "hh x = Some h" by blast
  have b: "?b < length buckets" using Cons.prems(6) by simp
  obtain buckets1 nonideal1 hh1 where item: "expand_item num ideal x (hashv_of hh x) (buckets, nonideal, hh) = Some (buckets1, nonideal1, hh1)"
      "length buckets1 = length buckets" "same_app hh hh1" "chains_ok hh1 buckets1 (ch(?b := x # ch ?b))"
      "\<forall>y. y \<noteq> x \<longrightarrow> (\<forall>b<length buckets. y \<notin> set (ch b)) \<longrightarrow> bkt_nx hh1 y = bkt_nx hh y \<and> bkt_pv hh1 y = bkt_pv hh y"
    using expand_item_ok [OF Cons.prems(1) b x(2,5) _ assms, of nonideal] Cons.prems(5) by fastforce
  have rest: "bkt_nx hh1 y = bkt_nx hh y \<and> bkt_pv hh1 y = bkt_pv hh y" if "y \<in> set xs" for y
    using item(5) that x(4) Cons.prems(5) by (metis list.set_intros(2))
  have dll1: "dll (bkt_nx hh1) (bkt_pv hh1) x (bkt_nx hh x) xs" using x(3) dll_cong [of xs, OF rest] by simp
  have hashv1: "hashv_of hh1 = hashv_of hh" "dom hh1 = dom hh" using item(3) by (simp_all add: same_app_def)
  let ?ch1 = "ch(?b := x # ch ?b)"
  have fresh: "y \<notin> set (?ch1 b)" if "y \<in> set xs" "b < length buckets1" for y b
    using Cons.prems(5) [of y b] that x(4) item(2) by auto
  have sub: "set xs \<subseteq> dom hh1" and dist: "distinct xs" using Cons.prems(3,4) hashv1 by auto
  have hashes: "HASH_TO_BKT (hashv_of hh1 y) num < length buckets1" if "y \<in> set xs" for y
    using Cons.prems(6) [of y] that unfolding hashv1 item(2) by simp
  obtain buckets' nonideal' hh' where chain: "expand_chain num ideal (bkt_nx hh x) (buckets1, nonideal1, hh1) = Some (buckets', nonideal', hh')"
      "length buckets' = length buckets1" "same_app hh1 hh'"
      "chains_ok hh' buckets' (\<lambda>b. rev (filter (\<lambda>x. HASH_TO_BKT (hashv_of hh1 x) num = b) xs) @ ?ch1 b)"
      "\<forall>y. y \<notin> set xs \<longrightarrow> (\<forall>b<length buckets1. y \<notin> set (?ch1 b)) \<longrightarrow> bkt_nx hh' y = bkt_nx hh1 y \<and> bkt_pv hh' y = bkt_pv hh1 y"
    by (atomize_elim, rule Cons.IH [OF item(4) dll1 dist sub]) (erule fresh, assumption, erule hashes)
  have "(\<lambda>b. rev (filter (\<lambda>x. HASH_TO_BKT (hashv_of hh1 x) num = b) xs) @ (ch(?b := x # ch ?b)) b)
      = (\<lambda>b. rev (filter (\<lambda>x. HASH_TO_BKT (hashv_of hh x) num = b) (x # xs)) @ ch b)"
    by (auto simp: hashv1 fun_eq_iff)
  moreover have "expand_chain num ideal thh (buckets, nonideal, hh) = Some (buckets', nonideal', hh')"
    using item(1) chain(1) h x(1,2) by (subst expand_chain.simps) (simp add: hh_views)
  moreover have "bkt_nx hh' y = bkt_nx hh y \<and> bkt_pv hh' y = bkt_pv hh y" if "y \<notin> set (x # xs)" "\<forall>b<length buckets. y \<notin> set (ch b)" for y
    using item(2,5) chain(5) that by auto
  moreover have "same_app hh hh'" using same_app_trans [OF item(3) chain(3)] .
  ultimately show ?case using item(2) chain(2,4) by (intro exI [of _ buckets'] exI [of _ nonideal'] exI [of _ hh']) simp
qed

lemma expand_all_ok:
  assumes "ideal \<noteq> 0"
  shows "list_all2 (\<lambda>bkt c. dll (bkt_nx hh) (bkt_pv hh) 0 (ub_hh_head bkt) c) bkts cs \<Longrightarrow> chains_ok hh buckets ch \<Longrightarrow>
    distinct (concat cs) \<Longrightarrow> set (concat cs) \<subseteq> dom hh \<Longrightarrow>
    (\<And>x b. x \<in> set (concat cs) \<Longrightarrow> b < length buckets \<Longrightarrow> x \<notin> set (ch b)) \<Longrightarrow>
    (\<And>x. x \<in> set (concat cs) \<Longrightarrow> HASH_TO_BKT (hashv_of hh x) num < length buckets) \<Longrightarrow>
    \<exists>buckets' nonideal' hh'. each (\<lambda>bkt. expand_chain num ideal (ub_hh_head bkt)) bkts (buckets, nonideal, hh) = Some (buckets', nonideal', hh')
      \<and> length buckets' = length buckets \<and> same_app hh hh'
      \<and> chains_ok hh' buckets' (\<lambda>b. rev (filter (\<lambda>x. HASH_TO_BKT (hashv_of hh x) num = b) (concat cs)) @ ch b)"
proof (induction bkts arbitrary: hh buckets nonideal ch cs)
  case Nil
  then show ?case by simp
next
  case (Cons bkt bkts)
  from Cons.prems(1) obtain c cs' where cs: "cs = c # cs'" "dll (bkt_nx hh) (bkt_pv hh) 0 (ub_hh_head bkt) c"
      "list_all2 (\<lambda>bkt c. dll (bkt_nx hh) (bkt_pv hh) 0 (ub_hh_head bkt) c) bkts cs'"
    by (auto simp: list_all2_Cons1)
  have c: "distinct c" "set c \<subseteq> dom hh" "set c \<inter> set (concat cs') = {}" using Cons.prems(3,4) cs(1) by auto
  have c_fresh: "x \<notin> set (ch b)" if "x \<in> set c" "b < length buckets" for x b using Cons.prems(5) [of x b] that cs(1) by simp
  have c_hash: "HASH_TO_BKT (hashv_of hh x) num < length buckets" if "x \<in> set c" for x using Cons.prems(6) [of x] that cs(1) by simp
  let ?ch1 = "\<lambda>b. rev (filter (\<lambda>x. HASH_TO_BKT (hashv_of hh x) num = b) c) @ ch b"
  obtain buckets1 nonideal1 hh1 where one: "expand_chain num ideal (ub_hh_head bkt) (buckets, nonideal, hh) = Some (buckets1, nonideal1, hh1)"
      "length buckets1 = length buckets" "same_app hh hh1" "chains_ok hh1 buckets1 ?ch1"
      "\<forall>x. x \<notin> set c \<longrightarrow> (\<forall>b<length buckets. x \<notin> set (ch b)) \<longrightarrow> bkt_nx hh1 x = bkt_nx hh x \<and> bkt_pv hh1 x = bkt_pv hh x"
    by (atomize_elim, rule expand_chain_ok [OF assms Cons.prems(2) cs(2) c(1,2)]) (erule c_fresh, assumption, erule c_hash)
  have same: "dom hh1 = dom hh" "hashv_of hh1 = hashv_of hh" using one(3) by (simp_all add: same_app_def)
  have rest: "bkt_nx hh1 x = bkt_nx hh x \<and> bkt_pv hh1 x = bkt_pv hh x" if "x \<in> set (concat cs')" for x
    using one(5) that c(3) Cons.prems(5) cs(1) by (metis (no_types, lifting) concat.simps(2) disjoint_iff set_append UnI2)
  have dlls: "list_all2 (\<lambda>bkt c. dll (bkt_nx hh1) (bkt_pv hh1) 0 (ub_hh_head bkt) c) bkts cs'"
    using cs(3)
  proof (rule list.rel_mono_strong)
    fix b d assume d: "d \<in> set cs'" "dll (bkt_nx hh) (bkt_pv hh) 0 (ub_hh_head b) d"
    have "dll (bkt_nx hh1) (bkt_pv hh1) 0 (ub_hh_head b) d \<longleftrightarrow> dll (bkt_nx hh) (bkt_pv hh) 0 (ub_hh_head b) d"
      by (rule dll_cong) (use rest d(1) in auto)
    then show "dll (bkt_nx hh1) (bkt_pv hh1) 0 (ub_hh_head b) d" using d(2) by simp
  qed
  have d: "distinct (concat cs')" "set (concat cs') \<subseteq> dom hh1" using Cons.prems(3,4) cs(1) same by auto
  have fresh: "x \<notin> set (?ch1 b)" if "x \<in> set (concat cs')" "b < length buckets1" for x b
    using Cons.prems(5) [of x b] that c(3) cs(1) one(2) by auto
  have hash: "HASH_TO_BKT (hashv_of hh1 x) num < length buckets1" if "x \<in> set (concat cs')" for x
    using Cons.prems(6) [of x] that cs(1) one(2) same by simp
  obtain buckets' nonideal' hh' where all: "each (\<lambda>bkt. expand_chain num ideal (ub_hh_head bkt)) bkts (buckets1, nonideal1, hh1) = Some (buckets', nonideal', hh')"
      "length buckets' = length buckets1" "same_app hh1 hh'"
      "chains_ok hh' buckets' (\<lambda>b. rev (filter (\<lambda>x. HASH_TO_BKT (hashv_of hh1 x) num = b) (concat cs')) @ ?ch1 b)"
    by (atomize_elim, rule Cons.IH [OF dlls one(4) d]) (erule fresh, assumption, erule hash)
  have "(\<lambda>b. rev (filter (\<lambda>x. HASH_TO_BKT (hashv_of hh1 x) num = b) (concat cs')) @ ?ch1 b)
      = (\<lambda>b. rev (filter (\<lambda>x. HASH_TO_BKT (hashv_of hh x) num = b) (concat cs)) @ ch b)"
    by (simp add: cs(1) same)
  then show ?case using one(1,2) all same_app_trans [OF one(3) all(3)] by simp
qed

subsection \<open>Numbers of buckets\<close>

lemma HASH_TO_BKT_pow: "HASH_TO_BKT v (2 ^ l) = take_bit l (unat v)"
  by (simp add: HASH_TO_BKT_def flip: mask_eq_exp_minus_1 take_bit_eq_mask unsigned_take_bit_eq)

lemma HASH_TO_BKT_less: "HASH_TO_BKT v (2 ^ l) < 2 ^ l"
  by (simp add: HASH_TO_BKT_pow)

lemma ideal_nonzero:
  fixes n :: u32
  assumes "n \<noteq> 0" "0 < k"
  shows "drop_bit k n + (if n AND (2 ^ k - 1) \<noteq> 0 then 1 else 0) \<noteq> 0"
proof (cases "n AND (2 ^ k - 1) = 0")
  case True
  then have "take_bit k n = 0" by (simp flip: mask_eq_exp_minus_1 take_bit_eq_mask)
  then have "drop_bit k n \<noteq> 0" using assms(1) bits_ident [of k n] by auto
  then show ?thesis using True by simp
next
  case False
  have "\<not> bit (drop_bit k n) 31" using assms(2) bit_imp_le_length [of n "k + 31"] by (auto simp: bit_drop_bit_eq)
  moreover have "bit (- 1 :: u32) 31" by simp
  ultimately have "drop_bit k n \<noteq> - 1" by metis
  then show ?thesis using False by (simp add: add_eq_0_iff2)
qed

text \<open>A table with 2 to the power of \<open>l\<close> buckets that hold \<open>items\<close>, each in the bucket that its hash selects.\<close>

definition chains_of :: "(nat \<rightharpoonup> ut_handle) \<Rightarrow> nat \<Rightarrow> nat set \<Rightarrow> (nat \<Rightarrow> nat list) \<Rightarrow> bool" where
  "chains_of hh l items ch \<longleftrightarrow> (\<forall>b<2 ^ l. set (ch b) = {x\<in>items. HASH_TO_BKT (hashv_of hh x) (2 ^ l) = b})"

definition table_ok :: "ut_table \<Rightarrow> (nat \<rightharpoonup> ut_handle) \<Rightarrow> nat \<Rightarrow> nat set \<Rightarrow> bool" where
  "table_ok tbl hh l items \<longleftrightarrow> l < 32 \<and> tb_log2_num_buckets tbl = of_nat l \<and> tb_num_buckets tbl = 2 ^ l \<and> length (tb_buckets tbl) = 2 ^ l
     \<and> 0 \<notin> items \<and> items \<subseteq> dom hh \<and> (\<exists>ch. chains_ok hh (tb_buckets tbl) ch \<and> chains_of hh l items ch)"

lemma distinct_concat_chains:
  "(\<And>b. b < n \<Longrightarrow> distinct (ch b)) \<Longrightarrow> (\<And>b b'. b < n \<Longrightarrow> b' < n \<Longrightarrow> b \<noteq> b' \<Longrightarrow> set (ch b) \<inter> set (ch b') = {}) \<Longrightarrow>
    distinct (concat (map ch [0..<n]))"
proof (induction n)
  case (Suc n)
  have "set (ch n) \<inter> set (concat (map ch [0..<n])) = {}"
  proof -
    have "set (ch b) \<inter> set (ch n) = {}" if "b < n" for b by (rule Suc.prems(2)) (use that in simp_all)
    then show ?thesis by fastforce
  qed
  moreover have "distinct (concat (map ch [0..<n]))" by (rule Suc.IH) (use Suc.prems in auto)
  ultimately show ?case using Suc.prems(1) [of n] by auto
qed simp

lemma empty_buckets_ok: "chains_ok hh (replicate n empty_bucket) (\<lambda>_. [])"
  by (simp add: chains_ok_def empty_bucket_def)

lemma unat_pow: "l < 32 \<Longrightarrow> unat (2 ^ l :: u32) = 2 ^ l"
proof -
  assume "l < 32"
  then have "(2::nat) ^ l < 2 ^ 32" by (rule power_strict_increasing) simp
  moreover have "(2 ^ l :: u32) = of_nat (2 ^ l)" by simp
  ultimately show ?thesis by (simp only: unat_of_nat) simp
qed

lemma unat_small: "n < 2 ^ 32 \<Longrightarrow> unat (of_nat n :: u32) = n"
  by (simp add: unat_of_nat)

lemma HASH_EXPAND_BUCKETS_ok:
  assumes "table_ok tbl hh l items" "l < 31" "tb_num_items tbl \<noteq> 0"
  shows "\<exists>tbl' hh'. HASH_EXPAND_BUCKETS tbl hh = Some (tbl', hh') \<and> same_app hh hh' \<and> table_ok tbl' hh' (Suc l) items
    \<and> tb_num_items tbl' = tb_num_items tbl \<and> tb_tail tbl' = tb_tail tbl"
proof -
  from assms(1) obtain ch where t: "tb_log2_num_buckets tbl = of_nat l" "tb_num_buckets tbl = 2 ^ l" "length (tb_buckets tbl) = 2 ^ l"
      "0 \<notin> items" "items \<subseteq> dom hh" "chains_ok hh (tb_buckets tbl) ch" "chains_of hh l items ch"
    by (auto simp: table_ok_def)
  let ?cs = "map ch [0..<2 ^ l]"
  have new: "tb_num_buckets tbl * 2 = 2 ^ Suc l" "unat (2 * tb_num_buckets tbl) = 2 ^ Suc l"
      "unat (tb_log2_num_buckets tbl + 1) = Suc l"
    using assms(2) t(1,2) unat_pow [of "Suc l"] unat_small [of "Suc l"] by (simp_all add: mult.commute add.commute)
  let ?ideal = "drop_bit (unat (tb_log2_num_buckets tbl + 1)) (tb_num_items tbl)
      + (if tb_num_items tbl AND (tb_num_buckets tbl * 2 - 1) \<noteq> 0 then 1 else 0)"
  have ideal: "?ideal \<noteq> 0" unfolding new by (rule ideal_nonzero [OF assms(3)]) simp
  have dlls: "list_all2 (\<lambda>bkt c. dll (bkt_nx hh) (bkt_pv hh) 0 (ub_hh_head bkt) c) (tb_buckets tbl) ?cs"
    using chains_okD(1) [OF t(6)] t(3) by (auto simp: list_all2_conv_all_nth)
  have items: "set (concat ?cs) = items"
    using t(7) HASH_TO_BKT_less by (fastforce simp: chains_of_def)
  have dist: "distinct (concat ?cs)"
    by (rule distinct_concat_chains) (use chains_okD(2,5) [OF t(6)] t(3) in auto)
  have sub: "set (concat ?cs) \<subseteq> dom hh" unfolding items by (rule t(5))
  have fresh: "x \<notin> set ((\<lambda>_. [] :: nat list) b)" for x b by simp
  let ?new = "replicate (2 ^ Suc l) empty_bucket"
  have hash: "HASH_TO_BKT (hashv_of hh x) (tb_num_buckets tbl * 2) < length ?new" for x
    unfolding new length_replicate by (rule HASH_TO_BKT_less)
  obtain buckets' nonideal' hh' where all: "each (\<lambda>bkt. expand_chain (tb_num_buckets tbl * 2) ?ideal (ub_hh_head bkt)) (tb_buckets tbl) (?new, 0, hh)
        = Some (buckets', nonideal', hh')" "length buckets' = length ?new" "same_app hh hh'"
      "chains_ok hh' buckets' (\<lambda>b. rev (filter (\<lambda>x. HASH_TO_BKT (hashv_of hh x) (tb_num_buckets tbl * 2) = b) (concat ?cs)) @ [])"
    by (atomize_elim, rule expand_all_ok [OF ideal dlls empty_buckets_ok dist sub fresh hash])
  let ?ch = "\<lambda>b. rev (filter (\<lambda>x. HASH_TO_BKT (hashv_of hh x) (2 ^ Suc l) = b) (concat ?cs)) @ []"
  have same: "dom hh' = dom hh" "hashv_of hh' = hashv_of hh" using all(3) by (simp_all add: same_app_def)
  have "chains_of hh' (Suc l) items ?ch" unfolding chains_of_def using items same by auto
  then have chains: "\<exists>ch. chains_ok hh' buckets' ch \<and> chains_of hh' (Suc l) items ch" using all(4) unfolding new by blast
  obtain tbl' where tbl': "HASH_EXPAND_BUCKETS tbl hh = Some (tbl', hh')" "tb_num_items tbl' = tb_num_items tbl" "tb_tail tbl' = tb_tail tbl"
      "tb_buckets tbl' = buckets'" "tb_num_buckets tbl' = tb_num_buckets tbl * 2" "tb_log2_num_buckets tbl' = tb_log2_num_buckets tbl + 1"
    using all(1) by (simp add: HASH_EXPAND_BUCKETS_def Let_def new(2) del: replicate.simps)
  have "table_ok tbl' hh' (Suc l) items"
    unfolding table_ok_def tbl' same using chains all(2) assms(2) t(1,4,5) new(1) by simp
  then show ?thesis using tbl'(1-3) all(3) by blast
qed

subsection \<open>The invariant\<close>

definition ut_ok :: "uthash \<Rightarrow> nat list \<Rightarrow> bool" where
  "ut_ok s els \<longleftrightarrow> distinct els \<and> length els < 2 ^ 32 \<and> set els \<subseteq> dom (ut_hh s)
     \<and> (\<forall>x\<in>set els. hashv_of (ut_hh s) x = HASH_JEN (key_of (ut_hh s) x))
     \<and> dll (app_nx (ut_hh s)) (app_pv (ut_hh s)) 0 (ut_head s) els
     \<and> (els \<noteq> [] \<longrightarrow> (\<exists>tbl l. ut_tbl s = Some tbl \<and> table_ok tbl (ut_hh s) l (set els) \<and> tb_tail tbl = last_of els
          \<and> tb_num_items tbl = of_nat (length els)))"

text \<open>The number of buckets can be doubled once more.\<close>

definition can_double :: "uthash \<Rightarrow> bool" where
  "can_double s \<longleftrightarrow> (\<forall>tbl. ut_tbl s = Some tbl \<longrightarrow> tb_log2_num_buckets tbl < 31)"

lemma table_ok_frame:
  assumes "dom hh' = dom hh" "bkt_nx hh' = bkt_nx hh" "bkt_pv hh' = bkt_pv hh" "\<And>x. x \<in> items \<Longrightarrow> hashv_of hh' x = hashv_of hh x"
    "tb_buckets tbl' = tb_buckets tbl" "tb_num_buckets tbl' = tb_num_buckets tbl" "tb_log2_num_buckets tbl' = tb_log2_num_buckets tbl"
  shows "table_ok tbl hh l items \<Longrightarrow> table_ok tbl' hh' l items"
proof -
  have "chains_ok hh' buckets ch \<longleftrightarrow> chains_ok hh buckets ch" for buckets ch using assms(1-3) by (simp add: chains_ok_def)
  moreover have "chains_of hh' l items ch \<longleftrightarrow> chains_of hh l items ch" for ch using assms(4) by (auto simp: chains_of_def)
  ultimately show "table_ok tbl hh l items \<Longrightarrow> table_ok tbl' hh' l items" using assms(1,5-7) by (simp add: table_ok_def)
qed

lemma HASH_ADD_TO_BKT_ok:
  assumes "table_ok tbl hh l items" "l < 31" "tb_num_items tbl \<noteq> 0" "p \<noteq> 0" "p \<in> dom hh" "p \<notin> items"
  shows "\<exists>tbl' hh' l'. HASH_ADD_TO_BKT (HASH_TO_BKT (hashv_of hh p) (2 ^ l)) p tbl hh = Some (tbl', hh') \<and> same_app hh hh'
    \<and> table_ok tbl' hh' l' (insert p items) \<and> tb_num_items tbl' = tb_num_items tbl \<and> tb_tail tbl' = tb_tail tbl"
proof -
  let ?b = "HASH_TO_BKT (hashv_of hh p) (2 ^ l)"
  from assms(1) obtain ch where t: "tb_log2_num_buckets tbl = of_nat l" "tb_num_buckets tbl = 2 ^ l" "length (tb_buckets tbl) = 2 ^ l"
      "0 \<notin> items" "items \<subseteq> dom hh" "chains_ok hh (tb_buckets tbl) ch" "chains_of hh l items ch"
    by (auto simp: table_ok_def)
  have b: "?b < length (tb_buckets tbl)" unfolding t(3) by (rule HASH_TO_BKT_less)
  have fresh: "p \<notin> set (ch b')" if "b' < length (tb_buckets tbl)" for b'
    using t(7) that assms(6) by (auto simp: chains_of_def t(3))
  let ?bkt = "(tb_buckets tbl ! ?b)\<lparr>ub_count := ub_count (tb_buckets tbl ! ?b) + 1\<rparr>"
  obtain hh' where push: "bucket_push p ?bkt hh = Some (?bkt\<lparr>ub_hh_head := p\<rparr>, hh')" "same_app hh hh'"
      "chains_ok hh' ((tb_buckets tbl)[?b := ?bkt\<lparr>ub_hh_head := p\<rparr>]) (ch(?b := p # ch ?b))"
    using chains_push [OF t(6) b assms(4,5) fresh, of ?bkt] by auto
  let ?tbl = "tbl\<lparr>tb_buckets := (tb_buckets tbl)[?b := ?bkt\<lparr>ub_hh_head := p\<rparr>]\<rparr>"
  have same: "dom hh' = dom hh" "hashv_of hh' = hashv_of hh" using push(2) by (simp_all add: same_app_def)
  have "chains_of hh' l (insert p items) (ch(?b := p # ch ?b))"
    using t(7) assms(6) by (auto simp: chains_of_def same)
  then have ok: "table_ok ?tbl hh' l (insert p items)"
    using push(3) t(1-5) assms(2,4,5) same by (auto simp: table_ok_def)
  have add: "HASH_ADD_TO_BKT ?b p tbl hh =
      (if ub_count ?bkt \<ge> (ub_expand_mult ?bkt + 1) * HASH_BKT_CAPACITY_THRESH \<and> tb_noexpand ?tbl \<noteq> 1
       then HASH_EXPAND_BUCKETS ?tbl hh' else Some (?tbl, hh'))"
    using push(1) b by (simp add: HASH_ADD_TO_BKT_def bucket_at_def Let_def)
  obtain tbl'' hh'' where expand: "HASH_EXPAND_BUCKETS ?tbl hh' = Some (tbl'', hh'')" "same_app hh' hh''"
      "table_ok tbl'' hh'' (Suc l) (insert p items)" "tb_num_items tbl'' = tb_num_items ?tbl" "tb_tail tbl'' = tb_tail ?tbl"
    using HASH_EXPAND_BUCKETS_ok [OF ok assms(2)] assms(3) by auto
  show ?thesis
  proof (cases "ub_count ?bkt \<ge> (ub_expand_mult ?bkt + 1) * HASH_BKT_CAPACITY_THRESH \<and> tb_noexpand ?tbl \<noteq> 1")
    case True
    then have "HASH_ADD_TO_BKT ?b p tbl hh = Some (tbl'', hh'')" unfolding add expand(1) by (rule if_P)
    then show ?thesis using expand(3-5) same_app_trans [OF push(2) expand(2)]
      by (intro exI [of _ tbl''] exI [of _ hh''] exI [of _ "Suc l"]) simp
  next
    case False
    then have "HASH_ADD_TO_BKT ?b p tbl hh = Some (?tbl, hh')" unfolding add by (rule if_not_P)
    then show ?thesis using ok push(2) by (intro exI [of _ ?tbl] exI [of _ hh'] exI [of _ l]) simp
  qed
qed

lemma HASH_MAKE_TABLE_ok: "table_ok (HASH_MAKE_TABLE p) hh 5 {}"
  unfolding table_ok_def HASH_MAKE_TABLE_def HASH_INITIAL_NUM_BUCKETS_def HASH_INITIAL_NUM_BUCKETS_LOG2_def
  using empty_buckets_ok [of hh 32] by (simp add: chains_of_def) blast

lemma of_nat_nonzero: "0 < n \<Longrightarrow> n < 2 ^ 32 \<Longrightarrow> (of_nat n :: u32) \<noteq> 0"
  by (metis unat_small unat_0 not_gr_zero)

subsection \<open>Adding\<close>

lemma update_key:
  "p \<in> dom hh \<Longrightarrow> \<exists>hh'. hh_update p (\<lambda>h. h\<lparr>uh_next := v, uh_key := key\<rparr>) hh = Some hh' \<and> dom hh' = dom hh
    \<and> app_nx hh' = (app_nx hh)(p := v) \<and> app_pv hh' = app_pv hh \<and> bkt_nx hh' = bkt_nx hh \<and> bkt_pv hh' = bkt_pv hh
    \<and> key_of hh' = (key_of hh)(p := key) \<and> hashv_of hh' = hashv_of hh"
  by (auto simp: hh_update_def)

lemma update_hashv:
  "p \<in> dom hh \<Longrightarrow> \<exists>hh'. hh_update p (\<lambda>h. h\<lparr>uh_hashv := v\<rparr>) hh = Some hh' \<and> dom hh' = dom hh
    \<and> app_nx hh' = app_nx hh \<and> app_pv hh' = app_pv hh \<and> bkt_nx hh' = bkt_nx hh \<and> bkt_pv hh' = bkt_pv hh
    \<and> key_of hh' = key_of hh \<and> hashv_of hh' = (hashv_of hh)(p := v)"
  by (auto simp: hh_update_def)

text \<open>The second half: the new element is linked in order, and is counted, hashed and put into its bucket.\<close>

lemma add_hashed_ok:
  assumes "dll (app_nx hh) (app_pv hh) 0 head (els @ [p])" "distinct (els @ [p])" "set (els @ [p]) \<subseteq> dom hh" "Suc (length els) < 2 ^ 32"
    "\<And>x. x \<in> set els \<Longrightarrow> hashv_of hh x = HASH_JEN (key_of hh x)" "key_of hh p = key"
    "table_ok tbl hh l (set els)" "l < 31" "tb_tail tbl = p" "tb_num_items tbl = of_nat (length els)"
  shows "\<exists>s'. (do { let tbl = tbl\<lparr>tb_num_items := tb_num_items tbl + 1\<rparr>;
      let hashv = HASH_JEN key;
      hh \<leftarrow> hh_update p (\<lambda>h. h\<lparr>uh_hashv := hashv\<rparr>) hh;
      (tbl, hh) \<leftarrow> HASH_ADD_TO_BKT (HASH_TO_BKT hashv (tb_num_buckets tbl)) p tbl hh;
      Some (s\<lparr>ut_head := head, ut_tbl := Some tbl, ut_hh := hh\<rparr>) }) = Some s' \<and> ut_ok s' (els @ [p]) \<and> key_of (ut_hh s') = key_of hh
      \<and> dom (ut_hh s') = dom hh"
proof -
  let ?tbl = "tbl\<lparr>tb_num_items := tb_num_items tbl + 1\<rparr>"
  obtain hh1 where hh1: "hh_update p (\<lambda>h. h\<lparr>uh_hashv := HASH_JEN key\<rparr>) hh = Some hh1" "dom hh1 = dom hh" "app_nx hh1 = app_nx hh"
      "app_pv hh1 = app_pv hh" "bkt_nx hh1 = bkt_nx hh" "bkt_pv hh1 = bkt_pv hh" "key_of hh1 = key_of hh" "hashv_of hh1 = (hashv_of hh)(p := HASH_JEN key)"
    using update_hashv [of p hh "HASH_JEN key"] assms(3) by auto
  have "p \<notin> set els" "p \<noteq> 0" "p \<in> dom hh1" using assms(2,3) dll_nonzero [OF assms(1)] hh1(2) by auto
  have num: "tb_num_buckets ?tbl = 2 ^ l" "tb_num_items ?tbl = of_nat (Suc (length els))" "tb_num_items ?tbl \<noteq> 0"
    using assms(7,10) of_nat_nonzero [OF _ assms(4)] by (simp_all add: table_ok_def add.commute)
  have "table_ok ?tbl hh1 l (set els)"
    by (rule table_ok_frame [OF hh1(2,5,6) _ _ _ _ assms(7)]) (use \<open>p \<notin> set els\<close> in \<open>auto simp: hh1(8)\<close>)
  from HASH_ADD_TO_BKT_ok [OF this assms(8) num(3) \<open>p \<noteq> 0\<close> \<open>p \<in> dom hh1\<close> \<open>p \<notin> set els\<close>]
  obtain tbl' hh' l' where add: "HASH_ADD_TO_BKT (HASH_TO_BKT (HASH_JEN key) (2 ^ l)) p ?tbl hh1 = Some (tbl', hh')" "same_app hh1 hh'"
      "table_ok tbl' hh' l' (insert p (set els))" "tb_num_items tbl' = tb_num_items ?tbl" "tb_tail tbl' = tb_tail ?tbl"
    unfolding hh1(8) fun_upd_same by blast
  let ?s = "s\<lparr>ut_head := head, ut_tbl := Some tbl', ut_hh := hh'\<rparr>"
  note same = add(2) [unfolded same_app_def]
  have "ut_ok ?s (els @ [p])"
    unfolding ut_ok_def using assms(1-6,9) add(3-5) num(2) same hh1 \<open>p \<notin> set els\<close> by auto
  moreover have "key_of (ut_hh ?s) = key_of hh" "dom (ut_hh ?s) = dom hh" using same hh1(2,7) by simp_all
  ultimately show ?thesis unfolding Let_def hh1(1) bind.bind_lunit num(1) add(1) prod.case by blast
qed

lemma HASH_ADD_KEYPTR_ok:
  assumes "ut_ok s els" "p \<noteq> 0" "p \<in> dom (ut_hh s)" "p \<notin> set els" "Suc (length els) < 2 ^ 32" "can_double s"
  shows "\<exists>s'. HASH_ADD_KEYPTR key p s = Some s' \<and> ut_ok s' (els @ [p]) \<and> key_of (ut_hh s') = (key_of (ut_hh s))(p := key)
    \<and> dom (ut_hh s') = dom (ut_hh s)"
proof -
  note ok = assms(1) [unfolded ut_ok_def]
  obtain hh1 where hh1: "hh_update p (\<lambda>h. h\<lparr>uh_next := 0, uh_key := key\<rparr>) (ut_hh s) = Some hh1" "dom hh1 = dom (ut_hh s)"
      "app_nx hh1 = (app_nx (ut_hh s))(p := 0)" "app_pv hh1 = app_pv (ut_hh s)" "bkt_nx hh1 = bkt_nx (ut_hh s)" "bkt_pv hh1 = bkt_pv (ut_hh s)"
      "key_of hh1 = (key_of (ut_hh s))(p := key)" "hashv_of hh1 = hashv_of (ut_hh s)"
    using update_key [OF assms(3)] by blast
  have p1: "p \<in> dom hh1" using assms(3) hh1(2) by simp
  have hashes: "hashv_of hh1 x = HASH_JEN (key_of hh1 x)" if "x \<in> set els" for x
    using ok that assms(4) by (auto simp: hh1(7,8))
  show ?thesis
  proof (cases "els = []")
    case True
    then have head: "ut_head s = 0" using ok by simp
    obtain hh2 where hh2: "hh_update p (\<lambda>h. h\<lparr>uh_prev := 0\<rparr>) hh1 = Some hh2" "same_bkt hh1 hh2"
        "app_nx hh2 = app_nx hh1" "app_pv hh2 = (app_pv hh1)(p := 0)"
      using update_app_prev [OF p1] by blast
    have "dll (app_nx hh2) (app_pv hh2) 0 p ([] @ [p])" using assms(2) by (simp add: hh2(3,4) hh1(3))
    from add_hashed_ok [OF this _ _ _ _ _ HASH_MAKE_TABLE_ok [of p hh2, folded list.set(1)], of key s]
    show ?thesis
      using True head hh1 hh2 p1 assms(5) by (auto simp: HASH_ADD_KEYPTR_def HASH_MAKE_TABLE_def same_bkt_def)
  next
    case False
    then obtain tbl l where tbl: "ut_tbl s = Some tbl" "table_ok tbl (ut_hh s) l (set els)" "tb_tail tbl = last_of els"
        "tb_num_items tbl = of_nat (length els)"
      using ok by blast
    have l: "l < 31"
    proof -
      have "(of_nat l :: u32) < 31" "l < 32" using assms(6) tbl(1,2) by (auto simp: can_double_def table_ok_def)
      then show ?thesis using unat_small [of l] by (simp add: word_less_nat_alt)
    qed
    have head: "ut_head s \<noteq> 0" using False ok by (cases els) auto
    have last: "last_of els \<in> set els" "last_of els \<noteq> p" "last_of els \<in> dom hh1" using last_of_in [OF False] assms(4) ok hh1(2) by auto
    obtain hh2 where hh2: "hh_update (last_of els) (\<lambda>h. h\<lparr>uh_next := p\<rparr>) hh1 = Some hh2" "same_bkt hh1 hh2"
        "app_nx hh2 = (app_nx hh1)(last_of els := p)" "app_pv hh2 = app_pv hh1"
      using update_app_next [OF last(3)] by blast
    have "p \<in> dom hh2" using p1 hh2(2) by (simp add: same_bkt_def)
    then obtain hh3 where hh3: "hh_update p (\<lambda>h. h\<lparr>uh_prev := last_of els\<rparr>) hh2 = Some hh3" "same_bkt hh2 hh3"
        "app_nx hh3 = app_nx hh2" "app_pv hh3 = (app_pv hh2)(p := last_of els)"
      using update_app_prev by blast
    have same: "same_bkt hh1 hh3" by (rule same_bkt_trans [OF hh2(2) hh3(2)])
    have links: "dll (app_nx hh3) (app_pv hh3) 0 (ut_head s) (els @ [p])"
      using dll_snoc [of "app_nx (ut_hh s)" "app_pv (ut_hh s)" 0 "ut_head s" els p] ok assms(2,4) False last(2)
      by (simp add: hh3 hh2 hh1 fun_upd_twist del: fun_upd_apply)
    have table: "table_ok (tbl\<lparr>tb_tail := p\<rparr>) hh3 l (set els)"
      by (rule table_ok_frame [OF _ _ _ _ _ _ _ tbl(2)]) (use same hh1 in \<open>auto simp: same_bkt_def\<close>)
    have hashes3: "hashv_of hh3 x = HASH_JEN (key_of hh3 x)" if "x \<in> set els" for x
      using hashes [OF that] same by (simp add: same_bkt_def)
    have rest: "distinct (els @ [p])" "set (els @ [p]) \<subseteq> dom hh3" "key_of hh3 p = key" "key_of hh3 = (key_of (ut_hh s))(p := key)"
        "dom hh3 = dom (ut_hh s)"
      using ok assms(3,4) same hh1(2,7) by (auto simp: same_bkt_def)
    from add_hashed_ok [OF links rest(1,2) assms(5) hashes3 rest(3) table l, of s] tbl(4)
    show ?thesis using head hh1(1) hh2(1) hh3(1) tbl(1,3) rest(4,5) by (simp add: HASH_ADD_KEYPTR_def)
  qed
qed

subsection \<open>Finding\<close>

lemma HASH_FIND_IN_BKT_ok:
  "dll (bkt_nx hh) (bkt_pv hh) q h xs \<Longrightarrow> set xs \<subseteq> dom hh \<Longrightarrow>
    HASH_FIND_IN_BKT hh key h = Some (case find (\<lambda>x. key_of hh x = key) xs of Some x \<Rightarrow> x | None \<Rightarrow> 0)"
proof (induction xs arbitrary: q h)
  case Nil
  then show ?case by (subst HASH_FIND_IN_BKT.simps) simp
next
  case (Cons x xs)
  then obtain u where u: "hh x = Some u" by auto
  have "HASH_FIND_IN_BKT hh key (bkt_nx hh x) = Some (case find (\<lambda>x. key_of hh x = key) xs of Some x \<Rightarrow> x | None \<Rightarrow> 0)"
    using Cons.IH [of x "bkt_nx hh x"] Cons.prems by simp
  then show ?case
    using Cons.prems u by (subst HASH_FIND_IN_BKT.simps) (auto simp: hh_views)
qed

lemma find_same:
  assumes "set ys = {x\<in>set xs. P x}" "\<And>x. x \<in> set xs \<Longrightarrow> f x = k \<Longrightarrow> P x" "distinct (map f xs)"
  shows "find (\<lambda>x. f x = k) ys = find (\<lambda>x. f x = k) xs"
proof (cases "\<exists>x\<in>set xs. f x = k")
  case True
  then obtain x where x: "x \<in> set xs" "f x = k" by blast
  have only: "y = x" if "y \<in> set xs" "f y = k" for y using assms(3) x that by (auto simp: distinct_map dest: inj_onD)
  have "find (\<lambda>x. f x = k) xs = Some x" using find_distinct [OF assms(3) x(1)] x(2) by simp
  moreover have "find (\<lambda>x. f x = k) ys = Some x"
  proof -
    have "x \<in> set ys" using assms(1,2) x by simp
    then have "find (\<lambda>x. f x = k) ys \<noteq> None" using x(2) by (auto simp: find_None_iff)
    then obtain y where "find (\<lambda>x. f x = k) ys = Some y" by blast
    then show ?thesis using only [of y] find_SomeD [of "\<lambda>x. f x = k" ys y] assms(1) by auto
  qed
  ultimately show ?thesis by simp
next
  case False
  then have "find (\<lambda>x. f x = k) ys = None" "find (\<lambda>x. f x = k) xs = None" using assms(1) by (auto simp: find_None_iff)
  then show ?thesis by simp
qed

lemma HASH_FIND_ok:
  assumes "ut_ok s els" "distinct (map (key_of (ut_hh s)) els)"
  shows "HASH_FIND key s = Some (case find (\<lambda>x. key_of (ut_hh s) x = key) els of Some x \<Rightarrow> x | None \<Rightarrow> 0)"
proof (cases "els = []")
  case True
  then show ?thesis using assms(1) by (simp add: ut_ok_def HASH_FIND_def)
next
  case False
  note ok = assms(1) [unfolded ut_ok_def]
  obtain tbl l ch where tbl: "ut_tbl s = Some tbl" "tb_num_buckets tbl = 2 ^ l" "length (tb_buckets tbl) = 2 ^ l"
      "chains_ok (ut_hh s) (tb_buckets tbl) ch" "chains_of (ut_hh s) l (set els) ch"
    using ok False by (auto simp: table_ok_def)
  let ?b = "HASH_TO_BKT (HASH_JEN key) (2 ^ l)"
  have b: "?b < length (tb_buckets tbl)" unfolding tbl(3) by (rule HASH_TO_BKT_less)
  note chain = chains_okD [OF tbl(4) b]
  have "set (ch ?b) = {x\<in>set els. HASH_TO_BKT (hashv_of (ut_hh s) x) (2 ^ l) = ?b}"
    using tbl(3,5) b by (simp add: chains_of_def)
  then have "find (\<lambda>x. key_of (ut_hh s) x = key) (ch ?b) = find (\<lambda>x. key_of (ut_hh s) x = key) els"
    by (rule find_same) (use ok assms(2) in auto)
  moreover have "ut_head s \<noteq> 0" using False ok by (cases els) auto
  ultimately show ?thesis
    using HASH_FIND_IN_BKT_ok [OF chain(1,3), of key] tbl(1,2) b by (simp add: HASH_FIND_def bucket_at_def)
qed

lemma HASH_COUNT_ok: "ut_ok s els \<Longrightarrow> HASH_COUNT s = Some (of_nat (length els))"
  by (cases els) (auto simp: ut_ok_def HASH_COUNT_def)

subsection \<open>Deleting\<close>

lemma HASH_DEL_IN_BKT_ok:
  assumes "chains_ok hh buckets ch" "b < length buckets" "a \<in> set (ch b)"
  shows "\<exists>bkt hh'. HASH_DEL_IN_BKT b a buckets hh = Some (buckets[b := bkt], hh') \<and> same_app hh hh'
    \<and> chains_ok hh' (buckets[b := bkt]) (ch(b := remove1 a (ch b)))"
proof -
  note chain = chains_okD [OF assms(1,2)]
  obtain us vs where ch: "ch b = us @ a # vs" using assms(3) by (auto simp: in_set_conv_decomp)
  have dist: "distinct (us @ a # vs)" and dll: "dll (bkt_nx hh) (bkt_pv hh) 0 (ub_hh_head (buckets ! b)) (us @ a # vs)"
    and sub: "set (us @ a # vs) \<subseteq> dom hh" using chain(1-3) unfolding ch by simp_all
  have zero: "0 \<notin> set (us @ a # vs)" by (rule dll_nonzero [OF dll])
  obtain d where d: "hh a = Some d" using sub by auto
  note near = dll_neighbours [OF dll dist]
  have nx: "uh_hh_next d = first_of vs" and pv: "uh_hh_prev d = last_of us" using near d by (auto simp: hh_views)
  have "last_of us \<noteq> 0 \<Longrightarrow> last_of us \<in> dom hh" using last_of_in [of us] sub by (cases "us = []") auto
  then obtain hh1 where hh1: "(if uh_hh_prev d \<noteq> 0 then hh_update (uh_hh_prev d) (\<lambda>h. h\<lparr>uh_hh_next := uh_hh_next d\<rparr>) hh else Some hh) = Some hh1"
      "same_app hh hh1" "bkt_nx hh1 = (if uh_hh_prev d \<noteq> 0 then (bkt_nx hh)(uh_hh_prev d := uh_hh_next d) else bkt_nx hh)" "bkt_pv hh1 = bkt_pv hh"
    using update_bkt_next [of "last_of us" hh "uh_hh_next d"] unfolding pv by (cases "last_of us = 0") auto
  have "first_of vs \<noteq> 0 \<Longrightarrow> first_of vs \<in> dom hh1" using sub hh1(2) by (cases vs) (auto simp: same_app_def)
  then obtain hh' where hh': "(if uh_hh_next d \<noteq> 0 then hh_update (uh_hh_next d) (\<lambda>h. h\<lparr>uh_hh_prev := uh_hh_prev d\<rparr>) hh1 else Some hh1) = Some hh'"
      "same_app hh1 hh'" "bkt_nx hh' = bkt_nx hh1" "bkt_pv hh' = (if uh_hh_next d \<noteq> 0 then (bkt_pv hh1)(uh_hh_next d := uh_hh_prev d) else bkt_pv hh1)"
    using update_bkt_prev [of "first_of vs" hh1 "uh_hh_prev d"] unfolding nx by (cases "first_of vs = 0") auto
  have same: "same_app hh hh'" by (rule same_app_trans [OF hh1(2) hh'(2)])
  let ?head = "if ub_hh_head (buckets ! b) = a then uh_hh_next d else ub_hh_head (buckets ! b)"
  have views: "bkt_nx hh a = uh_hh_next d" "bkt_pv hh a = uh_hh_prev d" using d by (simp_all add: hh_views)
  have "dll ((bkt_nx hh)(bkt_pv hh a := bkt_nx hh a)) ((bkt_pv hh)(bkt_nx hh a := bkt_pv hh a)) 0 ?head (us @ vs)"
    using dll_remove [OF dll dist zero] unfolding views .
  moreover
  have "dll (bkt_nx hh') (bkt_pv hh') 0 ?head (us @ vs) \<longleftrightarrow>
      dll ((bkt_nx hh)(bkt_pv hh a := bkt_nx hh a)) ((bkt_pv hh)(bkt_nx hh a := bkt_pv hh a)) 0 ?head (us @ vs)"
    unfolding views by (rule dll_cong) (use zero in \<open>auto simp: hh1(3,4) hh'(3,4)\<close>)
  ultimately have removed: "dll (bkt_nx hh') (bkt_pv hh') 0 ?head (us @ vs)" by blast
  let ?bkt = "(buckets ! b)\<lparr>ub_count := ub_count (buckets ! b) - 1, ub_hh_head := ?head\<rparr>"
  have "chains_ok hh' (buckets[b := ?bkt]) (ch(b := us @ vs))"
  proof (rule chains_change [OF assms(1,2)])
    show "dom hh' = dom hh" using same by (simp add: same_app_def)
    show "dll (bkt_nx hh') (bkt_pv hh') 0 (ub_hh_head ?bkt) (us @ vs)" using removed by simp
    show "distinct (us @ vs)" "set (us @ vs) \<subseteq> dom hh" using dist sub by auto
    show "ub_count ?bkt = of_nat (length (us @ vs))" using chain(4) by (simp add: ch)
    fix b' assume b': "b' < length buckets" "b' \<noteq> b"
    then show "set (us @ vs) \<inter> set (ch b') = {}" using chain(5) [of b'] by (auto simp: ch)
    fix x assume x: "x \<in> set (ch b')"
    have "x \<notin> set (ch b)" "x \<noteq> 0" using chain(5) [of b'] b' x dll_nonzero [OF chains_okD(1) [OF assms(1) b'(1)]] by auto
    moreover have "last_of us \<noteq> 0 \<Longrightarrow> last_of us \<in> set (ch b)" "first_of vs \<noteq> 0 \<Longrightarrow> first_of vs \<in> set (ch b)"
      using last_of_in [of us] by (cases "us = []"; simp add: ch) (cases vs; simp add: ch)
    ultimately show "bkt_nx hh' x = bkt_nx hh x \<and> bkt_pv hh' x = bkt_pv hh x" by (auto simp: hh1(3,4) hh'(3,4) nx pv)
  qed
  moreover have "remove1 a (ch b) = us @ vs" using dist by (simp add: ch remove1_append)
  moreover have "HASH_DEL_IN_BKT b a buckets hh = Some (buckets[b := ?bkt], hh')"
    using d hh1(1) hh'(1) assms(2) by (simp add: HASH_DEL_IN_BKT_def bucket_at_def Let_def)
  ultimately show ?thesis using same by auto
qed

lemma HASH_DELETE_ok:
  assumes "ut_ok s els" "a \<in> set els"
  shows "\<exists>s'. HASH_DELETE a s = Some s' \<and> ut_ok s' (remove1 a els) \<and> key_of (ut_hh s') = key_of (ut_hh s) \<and> dom (ut_hh s') = dom (ut_hh s)"
proof -
  let ?hh = "ut_hh s"
  obtain us vs where els: "els = us @ a # vs" using assms(2) by (auto simp: in_set_conv_decomp)
  note ok = assms(1) [unfolded ut_ok_def]
  obtain tbl l ch where tbl: "ut_tbl s = Some tbl" "tb_tail tbl = last_of els" "tb_num_items tbl = of_nat (length els)"
      "l < 32" "tb_log2_num_buckets tbl = of_nat l" "tb_num_buckets tbl = 2 ^ l" "length (tb_buckets tbl) = 2 ^ l"
      "chains_ok ?hh (tb_buckets tbl) ch" "chains_of ?hh l (set els) ch"
    using ok els by (auto simp: table_ok_def)
  have dist: "distinct (us @ a # vs)" and dll: "dll (app_nx ?hh) (app_pv ?hh) 0 (ut_head s) (us @ a # vs)"
    and sub: "set (us @ a # vs) \<subseteq> dom ?hh" using ok unfolding els by simp_all
  have zero: "0 \<notin> set (us @ a # vs)" by (rule dll_nonzero [OF dll])
  obtain d where d: "?hh a = Some d" using sub by auto
  note near = dll_neighbours [OF dll dist]
  have nx: "uh_next d = first_of vs" and pv: "uh_prev d = last_of us" using near d by (auto simp: hh_views)
  have ends: "last_of us = 0 \<longleftrightarrow> us = []" "first_of vs = 0 \<longleftrightarrow> vs = []"
  proof -
    have "us \<noteq> [] \<Longrightarrow> last_of us \<noteq> 0" using zero last_of_in [of us] by (metis UnI1 set_append)
    then show "last_of us = 0 \<longleftrightarrow> us = []" by (cases "us = []") simp_all
    show "first_of vs = 0 \<longleftrightarrow> vs = []" using zero by (cases vs) auto
  qed
  have rem: "remove1 a els = us @ vs" using dist by (simp add: els remove1_append)
  show ?thesis
  proof (cases "us = [] \<and> vs = []")
    case True
    then have "HASH_DELETE a s = Some (s\<lparr>ut_head := 0, ut_tbl := None\<rparr>)" using d tbl(1) nx pv by (simp add: HASH_DELETE_def)
    then show ?thesis using True rem by (simp add: ut_ok_def)
  next
    case False
    then have more: "\<not> (uh_prev d = 0 \<and> uh_next d = 0)" using nx pv ends by auto
    let ?head = "if uh_prev d \<noteq> 0 then ut_head s else uh_next d"
    have "last_of us \<noteq> 0 \<Longrightarrow> last_of us \<in> dom ?hh" using last_of_in [of us] sub by (cases "us = []") auto
    then obtain hh1 where hh1: "(if uh_prev d \<noteq> 0 then map_option (Pair (ut_head s)) (hh_update (uh_prev d) (\<lambda>h. h\<lparr>uh_next := uh_next d\<rparr>) ?hh)
          else Some (uh_next d, ?hh)) = Some (?head, hh1)" "same_bkt ?hh hh1"
        "app_nx hh1 = (if uh_prev d \<noteq> 0 then (app_nx ?hh)(uh_prev d := uh_next d) else app_nx ?hh)" "app_pv hh1 = app_pv ?hh"
      using update_app_next [of "last_of us" ?hh "uh_next d"] unfolding pv by (cases "last_of us = 0") auto
    have "first_of vs \<noteq> 0 \<Longrightarrow> first_of vs \<in> dom hh1" using sub hh1(2) by (cases vs) (auto simp: same_bkt_def)
    then obtain hh2 where hh2: "(if uh_next d \<noteq> 0 then hh_update (uh_next d) (\<lambda>h. h\<lparr>uh_prev := uh_prev d\<rparr>) hh1 else Some hh1) = Some hh2"
        "same_bkt hh1 hh2" "app_nx hh2 = app_nx hh1" "app_pv hh2 = (if uh_next d \<noteq> 0 then (app_pv hh1)(uh_next d := uh_prev d) else app_pv hh1)"
      using update_app_prev [of "first_of vs" hh1 "uh_prev d"] unfolding nx by (cases "first_of vs = 0") auto
    have same: "same_bkt ?hh hh2" by (rule same_bkt_trans [OF hh1(2) hh2(2)])
    have views: "app_nx ?hh a = uh_next d" "app_pv ?hh a = uh_prev d" using d by (simp_all add: hh_views)
    have head: "?head = (if ut_head s = a then uh_next d else ut_head s)"
      using dll_first [OF dll] dist pv ends(1) by (cases us) auto
    have "dll ((app_nx ?hh)(app_pv ?hh a := app_nx ?hh a)) ((app_pv ?hh)(app_nx ?hh a := app_pv ?hh a)) 0 ?head (us @ vs)"
      using dll_remove [OF dll dist zero] unfolding views head .
    moreover have "dll (app_nx hh2) (app_pv hh2) 0 ?head (us @ vs) \<longleftrightarrow>
        dll ((app_nx ?hh)(app_pv ?hh a := app_nx ?hh a)) ((app_pv ?hh)(app_nx ?hh a := app_pv ?hh a)) 0 ?head (us @ vs)"
      unfolding views by (rule dll_cong) (use zero in \<open>auto simp: hh1(3,4) hh2(3,4)\<close>)
    ultimately have links: "dll (app_nx hh2) (app_pv hh2) 0 ?head (us @ vs)" by blast
    let ?b = "HASH_TO_BKT (uh_hashv d) (2 ^ l)"
    have b: "?b < length (tb_buckets tbl)" unfolding tbl(7) by (rule HASH_TO_BKT_less)
    have hashv: "hashv_of ?hh a = uh_hashv d" using d by (simp add: hh_views)
    have "a \<in> set (ch ?b)" using tbl(7,9) b assms(2) hashv by (simp add: chains_of_def)
    moreover have chains2: "chains_ok hh2 (tb_buckets tbl) ch" using tbl(8) chains_same_bkt [OF same] by simp
    ultimately obtain bkt hh' where del: "HASH_DEL_IN_BKT ?b a (tb_buckets tbl) hh2 = Some ((tb_buckets tbl)[?b := bkt], hh')" "same_app hh2 hh'"
        "chains_ok hh' ((tb_buckets tbl)[?b := bkt]) (ch(?b := remove1 a (ch ?b)))"
      using HASH_DEL_IN_BKT_ok [OF _ b, of hh2 ch a] by blast
    let ?tail = "if a = tb_tail tbl then uh_prev d else tb_tail tbl"
    let ?tbl = "tbl\<lparr>tb_tail := ?tail, tb_buckets := (tb_buckets tbl)[?b := bkt], tb_num_items := tb_num_items tbl - 1\<rparr>"
    let ?s = "s\<lparr>ut_head := ?head, ut_hh := hh', ut_tbl := Some ?tbl\<rparr>"
    have result: "HASH_DELETE a s = Some ?s"
      unfolding HASH_DELETE_def Let_def d tbl(1,6) bind.bind_lunit if_not_P [OF more] hh1(1) prod.case hh2(1) del(1) by simp
    have views': "dom hh' = dom ?hh" "key_of hh' = key_of ?hh" "hashv_of hh' = hashv_of ?hh" "app_nx hh' = app_nx hh2" "app_pv hh' = app_pv hh2"
      using same del(2) by (simp_all add: same_bkt_def same_app_def)
    have "chains_of hh' l (set (us @ vs)) (ch(?b := remove1 a (ch ?b)))"
      using tbl(9) dist chains_okD(2) [OF tbl(8) b] hashv tbl(7) b by (auto simp: chains_of_def views' els)
    then have table: "table_ok ?tbl hh' l (set (us @ vs))"
      using del(3) tbl(4-7) zero sub by (auto simp: table_ok_def views')
    have tail: "?tail = last_of (us @ vs)"
    proof (cases "vs = []")
      case True
      then show ?thesis using pv by (simp add: tbl(2) els)
    next
      case vs: False
      then have "last_of els = last_of (us @ vs)" "last_of els \<in> set vs" using last_of_in [OF vs] by (simp_all add: els last_of_last)
      then show ?thesis using dist tbl(2) by auto
    qed
    have "ut_ok ?s (us @ vs)"
      unfolding ut_ok_def using links table tail False ok dist sub tbl(3) by (auto simp: views' els)
    then show ?thesis using result rem views' by simp
  qed
qed

subsection \<open>Clearing\<close>

lemma hh_views_free [simp]:
  "app_nx (hh(p := None)) = (app_nx hh)(p := 0)" "app_pv (hh(p := None)) = (app_pv hh)(p := 0)"
  "bkt_nx (hh(p := None)) = (bkt_nx hh)(p := 0)" "bkt_pv (hh(p := None)) = (bkt_pv hh)(p := 0)"
  "key_of (hh(p := None)) = (key_of hh)(p := [])" "hashv_of (hh(p := None)) = (hashv_of hh)(p := 0)"
  by (auto simp: hh_views fun_eq_iff)

lemma table_ok_free:
  assumes "table_ok tbl hh l items" "a \<notin> items"
  shows "table_ok tbl (hh(a := None)) l items"
proof -
  from assms(1) obtain ch where t: "length (tb_buckets tbl) = 2 ^ l" "chains_ok hh (tb_buckets tbl) ch" "chains_of hh l items ch"
    by (auto simp: table_ok_def)
  have out: "a \<notin> set (ch b)" if "b < 2 ^ l" for b using t(3) that assms(2) by (auto simp: chains_of_def)
  have "chains_ok (hh(a := None)) (tb_buckets tbl) ch"
    using t(1,2) out by (auto simp: chains_ok_def simp del: fun_upd_apply)
  moreover have "chains_of (hh(a := None)) l items ch" using t(3) assms(2) by (auto simp: chains_of_def)
  ultimately show ?thesis using assms by (auto simp: table_ok_def)
qed

lemma ut_ok_free:
  assumes "ut_ok s els" "a \<notin> set els"
  shows "ut_ok (s\<lparr>ut_hh := (ut_hh s)(a := None)\<rparr>) els"
proof -
  note ok = assms(1) [unfolded ut_ok_def]
  let ?hh = "(ut_hh s)(a := None)"
  have "dll (app_nx ?hh) (app_pv ?hh) 0 (ut_head s) els"
    using ok assms(2) by (simp del: fun_upd_apply)
  moreover have "hashv_of ?hh x = HASH_JEN (key_of ?hh x)" if "x \<in> set els" for x
  proof -
    have "x \<noteq> a" using that assms(2) by blast
    then show ?thesis using ok that by simp
  qed
  moreover have "\<exists>tbl l. ut_tbl s = Some tbl \<and> table_ok tbl ?hh l (set els) \<and> tb_tail tbl = last_of els
      \<and> tb_num_items tbl = of_nat (length els)" if "els \<noteq> []"
    using ok that table_ok_free [OF _ assms(2)] by blast
  moreover have "set els \<subseteq> dom ?hh" using ok assms(2) by auto
  ultimately show ?thesis using ok unfolding ut_ok_def by (simp del: fun_upd_apply hh_views_free dom_fun_upd)
qed

lemma ut_ok_next:
  assumes "ut_ok s (us @ a # vs)"
  shows "app_nx (ut_hh s) a = first_of vs" "app_pv (ut_hh s) a = last_of us"
  using assms dll_neighbours [of "app_nx (ut_hh s)" "app_pv (ut_hh s)" 0 "ut_head s" us a vs] by (auto simp: ut_ok_def)

lemma hash_clear_loop_ok:
  "ut_ok s els \<Longrightarrow> \<exists>s'. hash_clear_loop (first_of els) (first_of (tl els)) s = Some s' \<and> ut_ok s' [] \<and> dom (ut_hh s') = dom (ut_hh s) - set els"
proof (induction els arbitrary: s)
  case Nil
  then show ?case by (subst hash_clear_loop.simps) simp
next
  case (Cons a es)
  obtain s1 where s1: "HASH_DELETE a s = Some s1" "ut_ok s1 es" "dom (ut_hh s1) = dom (ut_hh s)"
    using HASH_DELETE_ok [OF Cons.prems, of a] by auto
  have a: "a \<notin> set es" "a \<noteq> 0" using Cons.prems by (auto simp: ut_ok_def)
  let ?s2 = "s1\<lparr>ut_hh := (ut_hh s1)(a := None)\<rparr>"
  have ok: "ut_ok ?s2 es" by (rule ut_ok_free [OF s1(2) a(1)])
  have nxt: "(if first_of es \<noteq> 0 then map_option uh_next (ut_hh ?s2 (first_of es)) else Some 0) = Some (first_of (tl es))"
  proof (cases es)
    case (Cons b fs)
    then have "b \<in> dom (ut_hh ?s2)" "b \<noteq> 0" using ok by (auto simp: ut_ok_def)
    then show ?thesis using ut_ok_next(1) [of ?s2 "[]" b fs] ok Cons by (auto simp: hh_views)
  qed simp
  obtain s' where "hash_clear_loop (first_of es) (first_of (tl es)) ?s2 = Some s'" "ut_ok s' []" "dom (ut_hh s') = dom (ut_hh ?s2) - set es"
    using Cons.IH [OF ok] by blast
  moreover have "hash_clear_loop a (first_of es) s = hash_clear_loop (first_of es) (first_of (tl es)) ?s2"
    using a(2) by (subst hash_clear_loop.simps) (simp only: if_False s1(1) bind.bind_lunit Let_def nxt)
  moreover have "dom (ut_hh ?s2) - set es = dom (ut_hh s) - set (a # es)" using s1(3) by auto
  ultimately show ?case by (simp del: fun_upd_apply)
qed

lemma hash_clear_elements_ok:
  assumes "ut_ok s els"
  shows "\<exists>s'. hash_clear_elements s = Some s' \<and> ut_ok s' [] \<and> dom (ut_hh s') = dom (ut_hh s) - set els"
proof -
  have head: "ut_head s = first_of els" using assms dll_first by (auto simp: ut_ok_def)
  have "(if ut_head s \<noteq> 0 then map_option uh_next (ut_hh s (ut_head s)) else Some 0) = Some (first_of (tl els))"
  proof (cases els)
    case (Cons b fs)
    then have "b \<in> dom (ut_hh s)" "b \<noteq> 0" using assms by (auto simp: ut_ok_def)
    then show ?thesis using ut_ok_next(1) [of s "[]" b fs] assms Cons head by (auto simp: hh_views)
  qed (simp add: head)
  then show ?thesis using hash_clear_loop_ok [OF assms] head by (simp add: hash_clear_elements_def)
qed

subsection \<open>The containers\<close>

text \<open>
  \<open>addr\<close> gives the address of the element with an identity; a key is represented by the bytes \<open>enc\<close> of it.
\<close>

definition represents :: "('k \<Rightarrow> u8 list) \<Rightarrow> (nat \<Rightarrow> nat) \<Rightarrow> uthash \<Rightarrow> ('k, 'v) hash_container \<Rightarrow> bool" where
  "represents enc addr s c \<longleftrightarrow> ut_ok s (map (addr \<circ> el_id) (hc_els c))
     \<and> (\<forall>e\<in>set (hc_els c). key_of (ut_hh s) (addr (el_id e)) = enc (el_key e))"

lemma represents_find:
  assumes "represents enc addr s c" "hash_ok c" "inj enc"
  shows "HASH_FIND (enc k) s = Some (case hash_find_el c k of Some e \<Rightarrow> addr (el_id e) | None \<Rightarrow> 0)"
proof -
  have keys: "map (key_of (ut_hh s)) (map (addr \<circ> el_id) (hc_els c)) = map (enc \<circ> el_key) (hc_els c)"
    using assms(1) by (simp add: represents_def)
  have "distinct (map (enc \<circ> el_key) (hc_els c))"
    using hash_okD(1) [OF assms(2)] inj_on_subset [OF assms(3) subset_UNIV]
    by (simp add: distinct_map comp_inj_on flip: map_map)
  then have "HASH_FIND (enc k) s = Some (case find (\<lambda>x. key_of (ut_hh s) x = enc k) (map (addr \<circ> el_id) (hc_els c)) of Some x \<Rightarrow> x | None \<Rightarrow> 0)"
    using assms(1) by (intro HASH_FIND_ok) (simp_all only: keys represents_def)
  moreover have "find (\<lambda>x. key_of (ut_hh s) x = enc k) (map (addr \<circ> el_id) es) = map_option (addr \<circ> el_id) (find (\<lambda>e. el_key e = k) es)"
    if "set es \<subseteq> set (hc_els c)" for es
    using that assms(1,3) by (induction es) (auto simp: represents_def inj_eq)
  ultimately show ?thesis
    using find_rev_distinct [OF hash_okD(1) [OF assms(2)], of k] by (auto simp: hash_find_el_def split: option.split)
qed

lemma represents_links:
  assumes "represents enc addr s c" "hash_ok c" "e \<in> set (hc_els c)"
  shows "\<exists>n. hh_next c (el_id e) = Some n \<and> app_nx (ut_hh s) (addr (el_id e)) = (case n of Some i \<Rightarrow> addr i | None \<Rightarrow> 0)"
    "\<exists>n. hh_prev c (el_id e) = Some n \<and> app_pv (ut_hh s) (addr (el_id e)) = (case n of Some i \<Rightarrow> addr i | None \<Rightarrow> 0)"
proof -
  obtain us vs where els: "hc_els c = us @ e # vs" using assms(3) by (auto simp: in_set_conv_decomp)
  have ids: "map el_id (hc_els c) = map el_id us @ el_id e # map el_id vs" by (simp add: els)
  have rev_ids: "rev (map el_id (hc_els c)) = rev (map el_id vs) @ el_id e # rev (map el_id us)" by (simp add: els)
  have dist: "distinct (map el_id (hc_els c))" by (rule hash_okD(2) [OF assms(2)])
  have ok: "ut_ok s (map (addr \<circ> el_id) us @ addr (el_id e) # map (addr \<circ> el_id) vs)" using assms(1) by (simp add: represents_def els)
  have "hh_next c (el_id e) = Some (case map el_id vs of [] \<Rightarrow> None | v # _ \<Rightarrow> Some v)"
    unfolding hh_next_def ids by (rule id_after_append) (use dist ids in simp)
  then show "\<exists>n. hh_next c (el_id e) = Some n \<and> app_nx (ut_hh s) (addr (el_id e)) = (case n of Some i \<Rightarrow> addr i | None \<Rightarrow> 0)"
    using ut_ok_next(1) [OF ok] by (cases vs) simp_all
  have "hh_prev c (el_id e) = Some (case rev (map el_id us) of [] \<Rightarrow> None | v # _ \<Rightarrow> Some v)"
    unfolding hh_prev_def rev_ids by (rule id_after_append) (use dist ids in auto)
  then show "\<exists>n. hh_prev c (el_id e) = Some n \<and> app_pv (ut_hh s) (addr (el_id e)) = (case n of Some i \<Rightarrow> addr i | None \<Rightarrow> 0)"
    using ut_ok_next(2) [OF ok] by (cases us rule: rev_cases) simp_all
qed

lemma represents_delete:
  assumes "represents enc addr s c" "hash_ok c" "e \<in> set (hc_els c)"
  shows "\<exists>s'. HASH_DELETE (addr (el_id e)) s = Some s' \<and> represents enc addr s' (hash_unlink (el_id e) c)"
proof -
  obtain us vs where els: "hc_els c = us @ e # vs" using assms(3) by (auto simp: in_set_conv_decomp)
  have ok: "ut_ok s (map (addr \<circ> el_id) (hc_els c))" using assms(1) by (simp add: represents_def)
  have "el_id e \<notin> el_id ` set (us @ vs)" using hash_okD(2) [OF assms(2)] by (simp add: els image_Un)
  then have "filter (\<lambda>x. el_id x \<noteq> el_id e) us = us" "filter (\<lambda>x. el_id x \<noteq> el_id e) vs = vs"
    by (auto simp: filter_id_conv intro: rev_image_eqI)
  then have "hc_els (hash_unlink (el_id e) c) = us @ vs" by (simp add: hash_unlink_def els)
  moreover have "remove1 (addr (el_id e)) (map (addr \<circ> el_id) (hc_els c)) = map (addr \<circ> el_id) (us @ vs)"
    using ok by (auto simp: ut_ok_def els remove1_append)
  ultimately show ?thesis
    using HASH_DELETE_ok [OF ok, of "addr (el_id e)"] assms(1,3) by (auto simp: represents_def els)
qed

lemma represents_add:
  assumes "represents enc addr s c" "hash_ok c" "p \<noteq> 0" "p \<in> dom (ut_hh s)" "p \<notin> (addr \<circ> el_id) ` set (hc_els c)"
    "Suc (hash_size c) < 2 ^ 32" "can_double s"
  shows "\<exists>s'. HASH_ADD_KEYPTR (enc k) p s = Some s' \<and> represents enc (addr(hc_next_id c := p)) s' (hash_append k v c)"
proof -
  have els: "map (addr(hc_next_id c := p) \<circ> el_id) (hc_els (hash_append k v c)) = map (addr \<circ> el_id) (hc_els c) @ [p]"
    using hash_okD(3) [OF assms(2)] by (fastforce simp: hash_append_def)
  obtain s' where s': "HASH_ADD_KEYPTR (enc k) p s = Some s'" "ut_ok s' (map (addr \<circ> el_id) (hc_els c) @ [p])"
      "key_of (ut_hh s') = (key_of (ut_hh s))(p := enc k)"
    using HASH_ADD_KEYPTR_ok [of s "map (addr \<circ> el_id) (hc_els c)" p "enc k"] assms by (auto simp: represents_def hash_size_def)
  have "key_of (ut_hh s') ((addr(hc_next_id c := p)) (el_id e)) = enc (el_key e)" if "e \<in> set (hc_els (hash_append k v c))" for e
    using that assms(1,5) hash_okD(3) [OF assms(2), of e] by (auto simp: represents_def s'(3) hash_append_def)
  then show ?thesis using s'(1,2) els by (auto simp: represents_def)
qed

lemma represents_clear:
  assumes "represents enc addr s c"
  shows "\<exists>s'. hash_clear_elements s = Some s' \<and> represents enc addr s' (hash_clear c)
    \<and> dom (ut_hh s') = dom (ut_hh s) - (addr \<circ> el_id) ` set (hc_els c)"
proof -
  have "hc_els (hash_clear c) = []" using hash_clear_items [of c] by (simp add: hash_items_def)
  then show ?thesis using hash_clear_elements_ok [of s "map (addr \<circ> el_id) (hc_els c)"] assms by (auto simp: represents_def)
qed

lemma represents_count: "represents enc addr s c \<Longrightarrow> HASH_COUNT s = Some (of_nat (hash_size c))"
  using HASH_COUNT_ok [of s "map (addr \<circ> el_id) (hc_els c)"] by (simp add: represents_def hash_size_def)

text \<open>The containers that \<open>hash_create\<close> makes: the head is NULL.\<close>

lemma represents_create: "ut_head s = 0 \<Longrightarrow> represents enc addr s (hash_create ctor)"
  by (simp add: represents_def ut_ok_def hash_create_def)

lemma represents_one:
  "\<exists>s. represents (\<lambda>k. k) (\<lambda>_. 8) s (hash_append [1, 2] v (hash_create ctor))"
proof -
  let ?blank = "\<lparr>uh_prev = 0, uh_next = 0, uh_hh_prev = 0, uh_hh_next = 0, uh_key = [], uh_hashv = 0\<rparr>"
  let ?s = "\<lparr>ut_head = 0, ut_tbl = None, ut_hh = [8 \<mapsto> ?blank]\<rparr>"
  have "represents (\<lambda>k. k) (\<lambda>_. 8) ?s (hash_create ctor)" by (rule represents_create) simp
  from represents_add [OF this hash_ok_create, of 8 "[1, 2]" v]
  have "\<exists>s'. represents (\<lambda>k. k) ((\<lambda>_. 8)(0 := 8)) s' (hash_append [1, 2] v (hash_create ctor))"
    by (auto simp: hash_create_def hash_size_def can_double_def)
  moreover have "(\<lambda>_. 8 :: nat)(0 := 8) = (\<lambda>_ :: nat. 8)" by (simp add: fun_upd_idem)
  ultimately show ?thesis by simp
qed

text \<open>C21. As a refinement: the macros of uthash on linked handles and buckets find, count, take out and clear as the list of the elements of
  the container does, and the links in the order of insertion are the ones that its iterators follow.\<close>

theorem uthash_is_container:
  assumes "represents enc addr s c" "hash_ok c" "inj enc"
  shows "HASH_FIND (enc k) s = Some (case hash_find_el c k of Some e \<Rightarrow> addr (el_id e) | None \<Rightarrow> 0)
    \<and> HASH_COUNT s = Some (of_nat (hash_size c))
    \<and> (\<forall>e\<in>set (hc_els c).
         (\<exists>n. hh_next c (el_id e) = Some n \<and> app_nx (ut_hh s) (addr (el_id e)) = (case n of Some i \<Rightarrow> addr i | None \<Rightarrow> 0))
       \<and> (\<exists>n. hh_prev c (el_id e) = Some n \<and> app_pv (ut_hh s) (addr (el_id e)) = (case n of Some i \<Rightarrow> addr i | None \<Rightarrow> 0))
       \<and> (\<exists>s'. HASH_DELETE (addr (el_id e)) s = Some s' \<and> represents enc addr s' (hash_unlink (el_id e) c)))
    \<and> (\<exists>s'. hash_clear_elements s = Some s' \<and> represents enc addr s' (hash_clear c)
         \<and> dom (ut_hh s') = dom (ut_hh s) - (addr \<circ> el_id) ` set (hc_els c))"
  using represents_find [OF assms] represents_count [OF assms(1)] represents_links [OF assms(1,2)]
    represents_delete [OF assms(1,2)] represents_clear [OF assms(1)] by blast

lemma uthash_is_container_witness:
  "\<exists>s s'. represents (\<lambda>k. k) (\<lambda>_. 8) s (hash_append [1, 2] True (hash_create (\<lambda>_. False)))
     \<and> HASH_FIND [1, 2] s = Some 8 \<and> HASH_FIND [3] s = Some 0 \<and> HASH_COUNT s = Some 1 \<and> HASH_DELETE 8 s = Some s'"
proof -
  let ?c = "hash_append [1, 2] True (hash_create (\<lambda>_. False)) :: (u8 list, bool) hash_container"
  obtain s where s: "represents (\<lambda>k. k) (\<lambda>_. 8) s ?c" using represents_one [of True "\<lambda>_. False"] by (elim exE)
  have ok: "hash_ok ?c" by (rule hash_append_ok) (simp_all add: hash_map_def)
  note facts = uthash_is_container [OF s ok, of "[1, 2]"] uthash_is_container [OF s ok, of "[3]"]
  have "HASH_FIND [1, 2] s = Some 8" "HASH_FIND [3] s = Some 0" "HASH_COUNT s = Some 1" "\<exists>s'. HASH_DELETE 8 s = Some s'"
    using facts by (auto simp: inj_def hash_find_el_def hash_append_def hash_create_def hash_size_def)
  then show ?thesis using s by blast
qed

text \<open>C22. As a refinement: \<open>HASH_ADD_KEYPTR\<close> on a handle that is not in the table appends to the list of the elements, through the
  expansion of the buckets as well, unless there are 2^31 buckets or 2^32 - 1 elements.\<close>

theorem uthash_add_refines:
  assumes "represents enc addr s c" "hash_ok c" "p \<noteq> 0" "p \<in> dom (ut_hh s)" "p \<notin> (addr \<circ> el_id) ` set (hc_els c)"
    "Suc (hash_size c) < 2 ^ 32" "can_double s"
  shows "\<exists>s'. HASH_ADD_KEYPTR (enc k) p s = Some s' \<and> represents enc (addr(hc_next_id c := p)) s' (hash_append k v c)"
  by (rule represents_add [OF assms])

lemma uthash_add_refines_witness:
  "\<exists>s'. HASH_ADD_KEYPTR [1, 2] 8 \<lparr>ut_head = 0, ut_tbl = None, ut_hh = [8 \<mapsto> \<lparr>uh_prev = 0, uh_next = 0, uh_hh_prev = 0, uh_hh_next = 0,
       uh_key = [], uh_hashv = 0\<rparr>]\<rparr> = Some s'
     \<and> represents (\<lambda>k. k) ((\<lambda>_. 0)(0 := 8)) s' (hash_append [1, 2] True (hash_create (\<lambda>_. False)))"
proof -
  let ?blank = "\<lparr>uh_prev = 0, uh_next = 0, uh_hh_prev = 0, uh_hh_next = 0, uh_key = [], uh_hashv = 0\<rparr>"
  let ?s = "\<lparr>ut_head = 0, ut_tbl = None, ut_hh = [8 \<mapsto> ?blank]\<rparr>"
  let ?c = "hash_create (\<lambda>_. False) :: (u8 list, bool) hash_container"
  have "represents (\<lambda>k. k) (\<lambda>_. 0) ?s ?c" by (rule represents_create) simp
  from uthash_add_refines [OF this hash_ok_create, of 8 "[1, 2]" True] show ?thesis
    by (simp add: hash_create_def hash_size_def can_double_def)
qed

end
