(* ===== verification/Utlist.thy ===== *)
theory Utlist
  imports LinkedLists
begin

section \<open>The linked lists of utlist\<close>

text \<open>
  Models the macros of \<open>src/src/utlist.h\<close> that the program uses, as they work on pointers. The nodes are a map from addresses, NULL is 0;
  reading or writing one that is not there fails. A singly linked list (\<open>LL_\<close>) uses the next pointers; in a doubly linked one (\<open>DL_\<close>) the
  previous pointer of the first node is the last one. Looping and searching are the same macros for both.
  \<open>ll_ok\<close> and \<open>dl_ok\<close> say which list a chain of nodes is; the lemmas show that each macro is the operation on that list which the
  models of its users take for it, and that the loops of the users are \<open>each\<close> over it. Sorting, concatenating and circular lists are not used.
\<close>

record ul_node =
  un_next :: nat
  un_prev :: nat

type_synonym ul_nodes = "nat \<rightharpoonup> ul_node"

definition un_update :: "nat \<Rightarrow> (ul_node \<Rightarrow> ul_node) \<Rightarrow> ul_nodes \<Rightarrow> ul_nodes option" where
  "un_update p f hp = map_option (\<lambda>n. hp(p \<mapsto> f n)) (hp p)"

subsection \<open>Singly linked lists\<close>

definition LL_PREPEND :: "nat \<Rightarrow> nat \<Rightarrow> ul_nodes \<Rightarrow> (nat \<times> ul_nodes) option" where
  "LL_PREPEND head add hp = do { hp \<leftarrow> un_update add (\<lambda>n. n\<lparr>un_next := head\<rparr>) hp; Some (add, hp) }"

text \<open>The loop of \<open>LL_DELETE\<close>: the node before \<open>del\<close>, or the last one.\<close>

partial_function (option) ll_before :: "ul_nodes \<Rightarrow> nat \<Rightarrow> nat \<Rightarrow> nat option" where
  "ll_before hp del tmp =
     do { t \<leftarrow> hp tmp;
          if un_next t \<noteq> 0 \<and> un_next t \<noteq> del then ll_before hp del (un_next t) else Some tmp }"

definition LL_DELETE :: "nat \<Rightarrow> nat \<Rightarrow> ul_nodes \<Rightarrow> (nat \<times> ul_nodes) option" where
  "LL_DELETE head del hp =
     (if head = del then do { h \<leftarrow> hp head; Some (un_next h, hp) }
      else
        do { tmp \<leftarrow> ll_before hp del head;
             t \<leftarrow> hp tmp;
             if un_next t \<noteq> 0 then
               do { d \<leftarrow> hp del; hp \<leftarrow> un_update tmp (\<lambda>n. n\<lparr>un_next := un_next d\<rparr>) hp; Some (head, hp) }
             else Some (head, hp) })"

text \<open>The loops, over a state that holds the nodes. The safe one reads the next pointer before the body.\<close>

partial_function (option) LL_FOREACH :: "('s \<Rightarrow> ul_nodes) \<Rightarrow> (nat \<Rightarrow> 's \<Rightarrow> 's option) \<Rightarrow> nat \<Rightarrow> 's \<Rightarrow> 's option" where
  "LL_FOREACH nodes body el s =
     (if el = 0 then Some s
      else do { s \<leftarrow> body el s; n \<leftarrow> nodes s el; LL_FOREACH nodes body (un_next n) s })"

partial_function (option) LL_FOREACH_SAFE :: "('s \<Rightarrow> ul_nodes) \<Rightarrow> (nat \<Rightarrow> 's \<Rightarrow> 's option) \<Rightarrow> nat \<Rightarrow> 's \<Rightarrow> 's option" where
  "LL_FOREACH_SAFE nodes body el s =
     (if el = 0 then Some s
      else do { n \<leftarrow> nodes s el; let tmp = un_next n; s \<leftarrow> body el s; LL_FOREACH_SAFE nodes body tmp s })"

text \<open>\<open>LL_SEARCH\<close> stops at the first node that compares as equal, or with NULL.\<close>

partial_function (option) LL_SEARCH :: "ul_nodes \<Rightarrow> (nat \<Rightarrow> c_int) \<Rightarrow> nat \<Rightarrow> nat option" where
  "LL_SEARCH hp cmp out =
     (if out = 0 then Some 0
      else do { n \<leftarrow> hp out; if cmp out = 0 then Some out else LL_SEARCH hp cmp (un_next n) })"

subsection \<open>Doubly linked lists\<close>

definition DL_APPEND :: "nat \<Rightarrow> nat \<Rightarrow> ul_nodes \<Rightarrow> (nat \<times> ul_nodes) option" where
  "DL_APPEND head add hp =
     (if head \<noteq> 0 then
        do { h \<leftarrow> hp head;
             hp \<leftarrow> un_update add (\<lambda>n. n\<lparr>un_prev := un_prev h\<rparr>) hp;
             h \<leftarrow> hp head;
             hp \<leftarrow> un_update (un_prev h) (\<lambda>n. n\<lparr>un_next := add\<rparr>) hp;
             hp \<leftarrow> un_update head (\<lambda>n. n\<lparr>un_prev := add\<rparr>) hp;
             hp \<leftarrow> un_update add (\<lambda>n. n\<lparr>un_next := 0\<rparr>) hp;
             Some (head, hp) }
      else
        do { hp \<leftarrow> un_update add (\<lambda>n. n\<lparr>un_prev := add\<rparr>) hp;
             hp \<leftarrow> un_update add (\<lambda>n. n\<lparr>un_next := 0\<rparr>) hp;
             Some (add, hp) })"

definition DL_DELETE :: "nat \<Rightarrow> nat \<Rightarrow> ul_nodes \<Rightarrow> (nat \<times> ul_nodes) option" where
  "DL_DELETE head del hp =
     do { d \<leftarrow> hp del;
          c_assert (un_prev d \<noteq> 0);
          if un_prev d = del then Some (0, hp)
          else if del = head then
            do { hp \<leftarrow> un_update (un_next d) (\<lambda>n. n\<lparr>un_prev := un_prev d\<rparr>) hp;
                 d \<leftarrow> hp del;
                 Some (un_next d, hp) }
          else
            do { hp \<leftarrow> un_update (un_prev d) (\<lambda>n. n\<lparr>un_next := un_next d\<rparr>) hp;
                 d \<leftarrow> hp del;
                 hp \<leftarrow> (if un_next d \<noteq> 0 then un_update (un_next d) (\<lambda>n. n\<lparr>un_prev := un_prev d\<rparr>) hp
                      else un_update head (\<lambda>n. n\<lparr>un_prev := un_prev d\<rparr>) hp);
                 Some (head, hp) } }"

subsection \<open>The list that the nodes are\<close>

definition un_nx :: "ul_nodes \<Rightarrow> nat \<Rightarrow> nat" where
  "un_nx hp p = (case hp p of Some n \<Rightarrow> un_next n | None \<Rightarrow> 0)"

definition un_pv :: "ul_nodes \<Rightarrow> nat \<Rightarrow> nat" where
  "un_pv hp p = (case hp p of Some n \<Rightarrow> un_prev n | None \<Rightarrow> 0)"

definition ll_ok :: "ul_nodes \<Rightarrow> nat \<Rightarrow> nat list \<Rightarrow> bool" where
  "ll_ok hp h xs \<longleftrightarrow> distinct xs \<and> set xs \<subseteq> dom hp \<and> sll (un_nx hp) h xs"

definition dl_ok :: "ul_nodes \<Rightarrow> nat \<Rightarrow> nat list \<Rightarrow> bool" where
  "dl_ok hp h xs \<longleftrightarrow> distinct xs \<and> set xs \<subseteq> dom hp \<and> dll (un_nx hp) (un_pv hp) (last_of xs) h xs"

lemma un_views: "hp p = Some n \<Longrightarrow> un_nx hp p = un_next n" "hp p = Some n \<Longrightarrow> un_pv hp p = un_prev n"
  by (simp_all add: un_nx_def un_pv_def)

lemma un_views_same [simp]:
  "hp p = Some n \<Longrightarrow> (un_nx hp)(p := un_next n) = un_nx hp" "hp p = Some n \<Longrightarrow> (un_pv hp)(p := un_prev n) = un_pv hp"
  by (simp_all add: un_views fun_upd_idem)

lemma un_views_put [simp]:
  "un_nx (hp(p \<mapsto> n)) = (un_nx hp)(p := un_next n)" "un_pv (hp(p \<mapsto> n)) = (un_pv hp)(p := un_prev n)"
  by (auto simp: un_nx_def un_pv_def fun_eq_iff)

lemma un_update_next:
  "p \<in> dom hp \<Longrightarrow> \<exists>hp'. un_update p (\<lambda>n. n\<lparr>un_next := v\<rparr>) hp = Some hp' \<and> dom hp' = dom hp
    \<and> un_nx hp' = (un_nx hp)(p := v) \<and> un_pv hp' = un_pv hp"
  by (auto simp: un_update_def)

lemma un_update_prev:
  "p \<in> dom hp \<Longrightarrow> \<exists>hp'. un_update p (\<lambda>n. n\<lparr>un_prev := v\<rparr>) hp = Some hp' \<and> dom hp' = dom hp
    \<and> un_nx hp' = un_nx hp \<and> un_pv hp' = (un_pv hp)(p := v)"
  by (auto simp: un_update_def)

lemma dl_ll: "dl_ok hp h xs \<Longrightarrow> ll_ok hp h xs"
  by (auto simp: dl_ok_def ll_ok_def intro: dll_sll)

subsection \<open>What the macros do to it\<close>

lemma LL_PREPEND_ok:
  assumes "ll_ok hp h xs" "a \<noteq> 0" "a \<in> dom hp" "a \<notin> set xs"
  shows "\<exists>hp'. LL_PREPEND h a hp = Some (a, hp') \<and> ll_ok hp' a (a # xs)"
proof -
  obtain hp' where "un_update a (\<lambda>n. n\<lparr>un_next := h\<rparr>) hp = Some hp'" "dom hp' = dom hp" "un_nx hp' = (un_nx hp)(a := h)"
    using un_update_next [OF assms(3)] by blast
  then show ?thesis using assms by (simp add: LL_PREPEND_def ll_ok_def)
qed

lemma ll_before_ok:
  "sll (un_nx hp) h (us @ b # a # ys) \<Longrightarrow> distinct (us @ b # a # ys) \<Longrightarrow> set (us @ [b]) \<subseteq> dom hp \<Longrightarrow> ll_before hp a h = Some b"
proof (induction us arbitrary: h)
  case Nil
  then show ?case by (subst ll_before.simps) (auto simp: un_views)
next
  case (Cons u us)
  then obtain n where n: "hp u = Some n" by auto
  have u: "h = u" and rest: "sll (un_nx hp) (un_next n) (us @ b # a # ys)" using Cons.prems(1) n by (simp_all add: un_views)
  have "un_next n \<noteq> 0" "un_next n \<noteq> a"
    using sll_first [OF rest] sll_nonzero [OF rest] Cons.prems(2) by (cases us; auto)+
  moreover have "ll_before hp a (un_next n) = Some b" by (rule Cons.IH [OF rest]) (use Cons.prems in auto)
  ultimately show ?case by (subst ll_before.simps) (simp add: n u)
qed

lemma LL_DELETE_ok:
  assumes "ll_ok hp h xs" "a \<in> set xs"
  shows "\<exists>h' hp'. LL_DELETE h a hp = Some (h', hp') \<and> ll_ok hp' h' (remove1 a xs) \<and> dom hp' = dom hp"
proof -
  obtain us ys where xs: "xs = us @ a # ys" using assms(2) by (auto simp: in_set_conv_decomp)
  have dist: "distinct xs" and dom: "set xs \<subseteq> dom hp" and links: "sll (un_nx hp) h xs" using assms(1) by (simp_all add: ll_ok_def)
  have rem: "remove1 a xs = us @ ys" using dist by (simp add: xs remove1_append)
  obtain d where d: "hp a = Some d" using dom xs by auto
  show ?thesis
  proof (cases us rule: rev_cases)
    case Nil
    then show ?thesis using d dist dom links rem by (auto simp: xs LL_DELETE_def ll_ok_def un_views)
  next
    case (snoc ts b)
    then have xs': "xs = ts @ b # a # ys" by (simp add: xs)
    have "h \<noteq> a" using sll_first [OF links] dist xs' by (cases ts) auto
    moreover have before: "ll_before hp a h = Some b" by (rule ll_before_ok) (use links dist dom xs' in auto)
    moreover obtain t where t: "hp b = Some t" using dom xs' by auto
    moreover have "un_next t \<noteq> 0"
    proof -
      have "un_nx hp b = a" "a \<noteq> 0" using sll_append [of "un_nx hp" h ts b "a # ys"] links by (simp_all add: xs')
      then show ?thesis using t by (simp add: un_views)
    qed
    moreover obtain hp' where "un_update b (\<lambda>n. n\<lparr>un_next := un_next d\<rparr>) hp = Some hp'" "dom hp' = dom hp"
        "un_nx hp' = (un_nx hp)(b := un_next d)"
      using un_update_next [of b hp "un_next d"] t by blast
    moreover have "sll ((un_nx hp)(b := un_nx hp a)) h (ts @ b # ys)" using links dist unfolding xs' by (rule sll_remove)
    ultimately show ?thesis using d dist dom rem snoc by (auto simp: xs LL_DELETE_def ll_ok_def un_views)
  qed
qed

lemma LL_SEARCH_ok:
  "ll_ok hp h xs \<Longrightarrow> LL_SEARCH hp cmp h = Some (case find (\<lambda>x. cmp x = 0) xs of Some x \<Rightarrow> x | None \<Rightarrow> 0)"
proof (induction xs arbitrary: h)
  case Nil
  then show ?case by (subst LL_SEARCH.simps) (simp add: ll_ok_def)
next
  case (Cons x xs)
  then obtain n where "hp x = Some n" "h = x" "x \<noteq> 0" "ll_ok hp (un_next n) xs" by (auto simp: ll_ok_def un_views)
  then show ?case using Cons.IH [of "un_next n"] by (subst LL_SEARCH.simps) simp
qed

text \<open>A body that leaves the nodes as they are is run on every element in order.\<close>

lemma LL_FOREACH_each:
  assumes "\<And>x s s'. body x s = Some s' \<Longrightarrow> nodes s' = nodes s"
  shows "ll_ok (nodes s) h xs \<Longrightarrow> LL_FOREACH nodes body h s = each body xs s"
proof (induction xs arbitrary: h s)
  case Nil
  then show ?case by (subst LL_FOREACH.simps) (simp add: ll_ok_def)
next
  case (Cons x xs)
  then have x: "h = x" "x \<noteq> 0" by (simp_all add: ll_ok_def)
  show ?case
  proof (cases "body x s")
    case None
    then show ?thesis using x by (subst LL_FOREACH.simps) simp
  next
    case (Some s')
    have nodes: "nodes s' = nodes s" by (rule assms [OF Some])
    then obtain n where n: "nodes s' x = Some n" "ll_ok (nodes s') (un_next n) xs" using Cons.prems by (auto simp: ll_ok_def un_views)
    then show ?thesis using x Some Cons.IH [OF n(2)] by (subst LL_FOREACH.simps) simp
  qed
qed

lemma DL_APPEND_ok:
  assumes "dl_ok hp h xs" "a \<noteq> 0" "a \<in> dom hp" "a \<notin> set xs"
  shows "\<exists>h' hp'. DL_APPEND h a hp = Some (h', hp') \<and> dl_ok hp' h' (xs @ [a]) \<and> dom hp' = dom hp"
proof (cases "xs = []")
  case True
  then have "h = 0" using assms(1) by (simp add: dl_ok_def)
  then show ?thesis using True assms(2,3) by (auto simp: DL_APPEND_def un_update_def dl_ok_def)
next
  case False
  let ?l = "last_of xs"
  have dist: "distinct xs" and dom: "set xs \<subseteq> dom hp" and links: "dll (un_nx hp) (un_pv hp) ?l h xs" using assms(1) by (simp_all add: dl_ok_def)
  have h: "h \<in> set xs" "h \<noteq> 0" "un_pv hp h = ?l" using links False by (cases xs; simp)+
  have l: "?l \<in> set xs" by (rule last_of_in [OF False])
  have ne: "h \<noteq> a" "?l \<noteq> a" using h(1) l assms(4) by auto
  obtain n where n: "hp h = Some n" "un_prev n = ?l" using h dom by (auto simp: un_views)
  obtain hp1 where hp1: "un_update a (\<lambda>n. n\<lparr>un_prev := ?l\<rparr>) hp = Some hp1" "dom hp1 = dom hp" "un_nx hp1 = un_nx hp"
      "un_pv hp1 = (un_pv hp)(a := ?l)"
    using un_update_prev [OF assms(3)] by blast
  obtain n1 where n1: "hp1 h = Some n1" using h(1) dom hp1(2) by auto
  then have "un_prev n1 = ?l" using un_views(2) [of hp1 h, OF n1] h(3) ne by (simp add: hp1(4))
  moreover obtain hp2 where hp2: "un_update ?l (\<lambda>n. n\<lparr>un_next := a\<rparr>) hp1 = Some hp2" "dom hp2 = dom hp1" "un_nx hp2 = (un_nx hp1)(?l := a)"
      "un_pv hp2 = un_pv hp1"
    using un_update_next [of ?l hp1] l dom hp1(2) by blast
  moreover obtain hp3 where hp3: "un_update h (\<lambda>n. n\<lparr>un_prev := a\<rparr>) hp2 = Some hp3" "dom hp3 = dom hp2" "un_nx hp3 = un_nx hp2"
      "un_pv hp3 = (un_pv hp2)(h := a)"
    using un_update_prev [of h hp2] h(1) dom hp1(2) hp2(2) by blast
  moreover obtain hp4 where hp4: "un_update a (\<lambda>n. n\<lparr>un_next := 0\<rparr>) hp3 = Some hp4" "dom hp4 = dom hp3" "un_nx hp4 = (un_nx hp3)(a := 0)"
      "un_pv hp4 = un_pv hp3"
    using un_update_next [of a hp3] assms(3) hp1(2) hp2(2) hp3(2) by blast
  ultimately have result: "DL_APPEND h a hp = Some (h, hp4)"
    using h(2) n hp1(1) n1 by (simp add: DL_APPEND_def)
  have "dll ((un_nx hp)(?l := a, a := 0)) ((un_pv hp)(a := ?l)) ?l h (xs @ [a])"
    by (rule dll_snoc [OF links dist assms(4,2) False])
  then have "dll ((un_nx hp)(?l := a, a := 0)) ((un_pv hp)(a := ?l, h := a)) a h (xs @ [a])"
    by (rule dll_set_prev) (use dist assms(4) in simp)
  then have "dll (un_nx hp4) (un_pv hp4) (last_of (xs @ [a])) h (xs @ [a])"
    by (simp only: hp1 hp2 hp3 hp4 last_of_simps)
  then show ?thesis using result dist dom assms(3,4) hp1(2) hp2(2) hp3(2) hp4(2) by (auto simp: dl_ok_def simp del: fun_upd_apply)
qed

text \<open>Deleting from the middle or the end, stated for the pointers.\<close>

lemma dll_delete_inner:
  assumes "dll nx pv (last_of (us @ a # vs)) h (us @ a # vs)" "distinct (us @ a # vs)" "us \<noteq> []"
  shows "dll (nx(pv a := nx a)) (pv((if nx a \<noteq> 0 then nx a else h) := pv a)) (last_of (us @ vs)) h (us @ vs)"
proof -
  have zero: "0 \<notin> set (us @ a # vs)" by (rule dll_nonzero [OF assms(1)])
  have h: "h \<in> set us" using dll_first [OF assms(1)] assms(3) by (cases us) auto
  then have ha: "h \<noteq> a" "h \<notin> set vs" "h \<noteq> 0" using assms(2) zero by auto
  have near: "nx a = first_of vs" "pv a = last_of us" using dll_neighbours [OF assms(1,2)] assms(3) by simp_all
  have pvh: "pv h = last_of (us @ a # vs)" using assms(1,3) by (cases us) simp_all
  let ?pv = "pv(h := 0)"
  have "dll nx ?pv 0 h (us @ a # vs)" by (rule dll_set_prev [OF assms(1,2)])
  from dll_remove [OF this assms(2) zero] have "dll (nx(pv a := nx a)) (?pv(nx a := pv a)) 0 h (us @ vs)"
    using ha(1) by simp
  then have base: "dll (nx(pv a := nx a)) (?pv(nx a := pv a, h := last_of (us @ vs))) (last_of (us @ vs)) h (us @ vs)"
    by (rule dll_set_prev) (use assms(2) in simp)
  have "(pv((if nx a \<noteq> 0 then nx a else h) := pv a)) x = (?pv(nx a := pv a, h := last_of (us @ vs))) x" if "x \<in> set (us @ vs)" for x
  proof (cases "vs = []")
    case True
    then show ?thesis using that zero near by auto
  next
    case False
    have "first_of vs \<in> set vs" using False by (cases vs) simp_all
    moreover have "pv h = last_of (us @ vs)" using pvh False by (simp add: last_of_last)
    ultimately show ?thesis using near(1) zero ha(2) by auto
  qed
  then show ?thesis using base by (subst dll_cong [where pv = "?pv(nx a := pv a, h := last_of (us @ vs))"]) auto
qed

lemma DL_DELETE_ok:
  assumes "dl_ok hp h xs" "a \<in> set xs"
  shows "\<exists>h' hp'. DL_DELETE h a hp = Some (h', hp') \<and> dl_ok hp' h' (remove1 a xs) \<and> dom hp' = dom hp"
proof -
  obtain us vs where xs: "xs = us @ a # vs" using assms(2) by (auto simp: in_set_conv_decomp)
  have dist: "distinct (us @ a # vs)" and dom: "set (us @ a # vs) \<subseteq> dom hp"
    and links: "dll (un_nx hp) (un_pv hp) (last_of (us @ a # vs)) h (us @ a # vs)"
    using assms(1) by (simp_all only: dl_ok_def xs)
  have zero: "0 \<notin> set (us @ a # vs)" by (rule dll_nonzero [OF links])
  have rem: "remove1 a xs = us @ vs" using dist by (simp add: xs remove1_append)
  obtain d where d: "hp a = Some d" using dom by auto
  have near: "un_next d = first_of vs" "un_prev d = (if us = [] then last_of (a # vs) else last_of us)"
    using dll_neighbours [OF links dist] un_views [of hp a, OF d] by simp_all
  have prev: "un_prev d \<in> set (us @ a # vs)" using near(2) last_of_in [of us] last_of_in [of "a # vs"] by (auto split: if_splits)
  then have pos: "un_prev d \<noteq> 0" using zero by metis
  show ?thesis
  proof (cases "us = []")
    case True
    then have h: "h = a" using links by simp
    show ?thesis
    proof (cases vs)
      case Nil
      then have "un_prev d = a" using near(2) True by simp
      then show ?thesis using d pos rem True Nil by (auto simp: DL_DELETE_def dl_ok_def c_assert_def)
    next
      case (Cons v ws)
      then have "un_prev d = last_of vs" "un_next d = v" using near True by simp_all
      moreover have "last_of vs \<noteq> a" using last_of_in [of vs] Cons dist by auto
      moreover have "v \<in> dom hp" using dom Cons by simp
      then obtain hp1 where hp1: "un_update v (\<lambda>n. n\<lparr>un_prev := last_of vs\<rparr>) hp = Some hp1" "dom hp1 = dom hp" "un_nx hp1 = un_nx hp"
          "un_pv hp1 = (un_pv hp)(v := last_of vs)"
        using un_update_prev by blast
      moreover obtain d1 where d1: "hp1 a = Some d1" using d hp1(2) by auto
      moreover have "un_next d1 = v" using un_views(1) [of hp1 a, OF d1] un_views(1) [of hp a, OF d] hp1(3) calculation(2) by simp
      ultimately have result: "DL_DELETE h a hp = Some (v, hp1)" using d pos h by (simp add: DL_DELETE_def c_assert_def)
      have "dll (un_nx hp) (un_pv hp) a v vs" using links True Cons by simp
      then have "dll (un_nx hp1) (un_pv hp1) (last_of vs) v vs"
        unfolding hp1(3,4) by (rule dll_set_prev) (use dist in simp)
      then show ?thesis using result rem True dist dom hp1(2) by (auto simp: dl_ok_def)
    qed
  next
    case False
    then have p: "un_prev d = last_of us" "last_of us \<in> set us" using near(2) last_of_in [OF False] by simp_all
    have h: "h \<in> set us" using dll_first [OF links] False by (cases us) auto
    then have ne: "h \<noteq> a" "last_of us \<noteq> a" using dist p(2) by auto
    have "un_prev d \<in> dom hp" using p dom by auto
    then obtain hp1 where hp1: "un_update (un_prev d) (\<lambda>n. n\<lparr>un_next := un_next d\<rparr>) hp = Some hp1" "dom hp1 = dom hp"
        "un_nx hp1 = (un_nx hp)(un_prev d := un_next d)" "un_pv hp1 = un_pv hp"
      using un_update_next by blast
    obtain d1 where d1: "hp1 a = Some d1" using d hp1(2) by auto
    have same: "un_next d1 = un_next d" "un_prev d1 = un_prev d"
      using un_views [of hp1 a, OF d1] un_views [of hp a, OF d] ne(2) p(1) by (auto simp: hp1(3,4))
    let ?q = "if un_next d \<noteq> 0 then un_next d else h"
    have "?q \<in> dom hp1" using h dom near(1) hp1(2) by (cases vs) auto
    then obtain hp2 where hp2: "un_update ?q (\<lambda>n. n\<lparr>un_prev := un_prev d\<rparr>) hp1 = Some hp2" "dom hp2 = dom hp1" "un_nx hp2 = un_nx hp1"
        "un_pv hp2 = (un_pv hp1)(?q := un_prev d)"
      using un_update_prev by blast
    have result: "DL_DELETE h a hp = Some (h, hp2)"
      using d d1 pos p(1) ne hp1(1) hp2(1) same by (simp add: DL_DELETE_def c_assert_def split: if_splits)
    have "dll (un_nx hp2) (un_pv hp2) (last_of (us @ vs)) h (us @ vs)"
      using dll_delete_inner [OF links dist False] by (simp only: hp1 hp2 un_views [of hp a, OF d])
    then show ?thesis using result rem dist dom hp1(2) hp2(2) by (auto simp: dl_ok_def)
  qed
qed

text \<open>The loop of \<open>rpl_event_process_events\<close> and of \<open>rpldata_clear\<close>: each element is handled and then taken out of the list.\<close>

definition drain :: "(nat \<Rightarrow> 's \<Rightarrow> 's option) \<Rightarrow> nat \<Rightarrow> nat \<times> ul_nodes \<times> 's \<Rightarrow> (nat \<times> ul_nodes \<times> 's) option" where
  "drain handle =
     LL_FOREACH_SAFE (\<lambda>(head, hp, s). hp)
       (\<lambda>el (head, hp, s). do { s \<leftarrow> handle el s; (head, hp) \<leftarrow> DL_DELETE head el hp; Some (head, hp, s) })"

lemma drain_ok:
  "dl_ok hp h xs \<Longrightarrow> \<exists>hp'. drain handle h (h, hp, s) = map_option (\<lambda>s'. (0, hp', s')) (each handle xs s)"
proof (induction xs arbitrary: h hp s)
  case Nil
  then show ?case unfolding drain_def by (subst LL_FOREACH_SAFE.simps) (auto simp: dl_ok_def)
next
  case (Cons x xs)
  then obtain n where n: "h = x" "x \<noteq> 0" "hp x = Some n" by (auto simp: dl_ok_def)
  obtain h' hp' where del: "DL_DELETE x x hp = Some (h', hp')" "dl_ok hp' h' xs"
    using DL_DELETE_ok [OF Cons.prems, of x] n(1) by auto
  have "un_next n = first_of xs"
    using Cons.prems dll_first [of "un_nx hp" "un_pv hp" x "un_next n" xs] n by (simp add: dl_ok_def un_views)
  moreover have "h' = first_of xs" using del(2) dll_first by (auto simp: dl_ok_def)
  ultimately have next_el: "un_next n = h'" by simp
  show ?case
  proof (cases "handle x s")
    case None
    then show ?thesis using n unfolding drain_def by (subst LL_FOREACH_SAFE.simps) simp
  next
    case (Some s')
    have "drain handle x (x, hp, s) = drain handle h' (h', hp', s')"
      using n(2,3) Some del(1) next_el unfolding drain_def by (subst LL_FOREACH_SAFE.simps) simp
    then show ?thesis using Cons.IH [OF del(2), of s'] n(1) Some by simp
  qed
qed

text \<open>C23. As a refinement: on linked nodes, prepending, appending, deleting and searching with the macros of utlist are those operations on
  the list of the nodes; a loop whose body leaves the nodes alone runs it on every element, in order; and a loop that deletes each element
  after handling it ends, handles every element once, in order, and leaves the empty list.\<close>

theorem utlist_is_list:
  assumes "a \<noteq> 0" "a \<in> dom hp"
  shows "(ll_ok hp h xs \<and> a \<notin> set xs \<longrightarrow> (\<exists>hp'. LL_PREPEND h a hp = Some (a, hp') \<and> ll_ok hp' a (a # xs)))
    \<and> (ll_ok hp h xs \<and> a \<in> set xs \<longrightarrow> (\<exists>h' hp'. LL_DELETE h a hp = Some (h', hp') \<and> ll_ok hp' h' (remove1 a xs)))
    \<and> (ll_ok hp h xs \<longrightarrow> LL_SEARCH hp cmp h = Some (case find (\<lambda>x. cmp x = 0) xs of Some x \<Rightarrow> x | None \<Rightarrow> 0))
    \<and> (dl_ok hp h xs \<and> a \<notin> set xs \<longrightarrow> (\<exists>h' hp'. DL_APPEND h a hp = Some (h', hp') \<and> dl_ok hp' h' (xs @ [a])))
    \<and> (dl_ok hp h xs \<and> a \<in> set xs \<longrightarrow> (\<exists>h' hp'. DL_DELETE h a hp = Some (h', hp') \<and> dl_ok hp' h' (remove1 a xs)))
    \<and> (dl_ok hp h xs \<longrightarrow> (\<exists>hp'. drain handle h (h, hp, s) = map_option (\<lambda>s'. (0, hp', s')) (each handle xs s)))
    \<and> ((\<forall>x s s'. body x s = Some s' \<longrightarrow> nodes s' = nodes s) \<and> ll_ok (nodes s) h xs \<longrightarrow> LL_FOREACH nodes body h s = each body xs s)"
  using LL_PREPEND_ok [of hp h xs a] LL_DELETE_ok [of hp h xs a] LL_SEARCH_ok [of hp h xs cmp] DL_APPEND_ok [of hp h xs a]
    DL_DELETE_ok [of hp h xs a] drain_ok [of hp h xs handle s] LL_FOREACH_each [of body nodes s h xs] assms by blast

lemma utlist_is_list_witness:
  "let hp = [8 \<mapsto> \<lparr>un_next = 0, un_prev = 8\<rparr>, 16 \<mapsto> \<lparr>un_next = 0, un_prev = 0\<rparr>] in
     (\<exists>hp'. LL_PREPEND 8 16 hp = Some (16, hp') \<and> ll_ok hp' 16 [16, 8])
   \<and> (\<exists>h' hp'. DL_APPEND 8 16 hp = Some (h', hp') \<and> dl_ok hp' h' [8, 16])
   \<and> (\<exists>hp'. drain (\<lambda>x out. Some (out @ [x])) 8 (8, hp, []) = Some (0, hp', [8]))"
proof -
  let ?hp = "[8 \<mapsto> \<lparr>un_next = 0, un_prev = 8\<rparr>, 16 \<mapsto> \<lparr>un_next = 0, un_prev = 0\<rparr>] :: ul_nodes"
  have ok: "dl_ok ?hp 8 [8]" by (simp add: dl_ok_def un_nx_def un_pv_def)
  then have "ll_ok ?hp 8 [8]" by (rule dl_ll)
  then show ?thesis
    using ok utlist_is_list [of 16 ?hp 8 "[8]" _ "\<lambda>x out. Some (out @ [x])" "[]"] by simp
qed

end
