(* ===== verification/SpinLock.thy ===== *)
theory SpinLock
  imports Prelude
begin

section \<open>Spin locks and threads\<close>

text \<open>
  Models \<open>src/src/data_info/pthread_spin_lock_shim.h\<close>, the spin locks on systems that lack them, and threads that use one lock as the operations
  of \<open>hash_container.c\<close> do.
  \<^item> The lock is an \<open>int\<close>. \<open>__sync_bool_compare_and_swap\<close> of the compiler is atomic; the memory is sequentially consistent.
  \<^item> A thread is at one of three places: outside, in the loop of \<open>pthread_spin_lock\<close> with its counter, or inside, with the actions
    that are left before it unlocks. Its program says, from its local state, which segment comes next: actions under the lock, or one without it.
  \<^item> A step is one turn of one thread; a schedule names the threads. An action that fails, as one that uses a freed element does, is \<open>None\<close>.
  The lemmas: at most one thread is inside; a thread that spins gets a free lock; and each run of threads that keep to the lock is the
  same as running their segments one at a time, in the order in which they got it.
\<close>

subsection \<open>The shim\<close>

definition EBUSY :: c_int where
  "EBUSY = 16"

definition sync_bool_compare_and_swap :: "c_int \<Rightarrow> c_int \<Rightarrow> c_int \<Rightarrow> bool \<times> c_int" where
  "sync_bool_compare_and_swap lock old new = (if lock = old then (True, new) else (False, lock))"

text \<open>Each returns its result and the lock.\<close>

definition pthread_spin_init :: "c_int \<Rightarrow> c_int \<Rightarrow> c_int \<times> c_int" where
  "pthread_spin_init lock pshared = (0, 0)"

definition pthread_spin_destroy :: "c_int \<Rightarrow> c_int \<times> c_int" where
  "pthread_spin_destroy lock = (0, lock)"

definition pthread_spin_trylock :: "c_int \<Rightarrow> c_int \<times> c_int" where
  "pthread_spin_trylock lock =
     (let (swapped, lock) = sync_bool_compare_and_swap lock 0 1 in (if swapped then 0 else EBUSY, lock))"

definition pthread_spin_unlock :: "c_int \<Rightarrow> c_int \<times> c_int" where
  "pthread_spin_unlock lock = (0, 0)"

text \<open>One turn of the loop of \<open>pthread_spin_lock\<close> with the counter \<open>i\<close>: \<open>None\<close> when it returns. At 10000 it yields and starts again.\<close>

definition spin_turn :: "nat \<Rightarrow> c_int \<Rightarrow> nat option \<times> c_int" where
  "spin_turn i lock =
     (if i < 10000 then
        (let (swapped, lock) = sync_bool_compare_and_swap lock 0 1 in (if swapped then None else Some (Suc i), lock))
      else (Some 0, lock))"

subsection \<open>Threads\<close>

type_synonym ('l, 's) action = "'l \<times> 's \<Rightarrow> ('l \<times> 's) option"

datatype ('l, 's) segment = Locked "('l, 's) action list" | Unlocked "('l, 's) action"

datatype ('l, 's) place = Outside | Spinning nat | Inside "('l, 's) action list"

record ('l, 's) thread =
  th_program :: "'l \<Rightarrow> ('l, 's) segment option"
  th_place :: "('l, 's) place"
  th_local :: 'l

record ('l, 's) threads =
  ts_lock :: c_int
  ts_data :: 's
  ts_threads :: "('l, 's) thread list"

text \<open>A turn of a thread, given the lock and the shared data. A thread that has finished has none.\<close>

definition thread_turn :: "('l, 's) thread \<Rightarrow> c_int \<Rightarrow> 's \<Rightarrow> (('l, 's) thread \<times> c_int \<times> 's) option" where
  "thread_turn t lock data =
     (case th_place t of
        Outside \<Rightarrow>
          (case th_program t (th_local t) of
             None \<Rightarrow> None
           | Some (Unlocked a) \<Rightarrow> map_option (\<lambda>(l, d). (t\<lparr>th_local := l\<rparr>, lock, d)) (a (th_local t, data))
           | Some (Locked actions) \<Rightarrow> Some (t\<lparr>th_place := Spinning 0\<rparr>, lock, data))
      | Spinning i \<Rightarrow>
          (case th_program t (th_local t) of
             Some (Locked actions) \<Rightarrow>
               (case spin_turn i lock of
                  (None, lock) \<Rightarrow> Some (t\<lparr>th_place := Inside actions\<rparr>, lock, data)
                | (Some j, lock) \<Rightarrow> Some (t\<lparr>th_place := Spinning j\<rparr>, lock, data))
           | _ \<Rightarrow> None)
      | Inside [] \<Rightarrow> Some (t\<lparr>th_place := Outside\<rparr>, snd (pthread_spin_unlock lock), data)
      | Inside (a # actions) \<Rightarrow>
          map_option (\<lambda>(l, d). (t\<lparr>th_place := Inside actions, th_local := l\<rparr>, lock, d)) (a (th_local t, data)))"

definition turn :: "nat \<Rightarrow> ('l, 's) threads \<Rightarrow> ('l, 's) threads option" where
  "turn i st =
     (if i < length (ts_threads st) then
        map_option (\<lambda>(t, lock, d). st\<lparr>ts_lock := lock, ts_data := d, ts_threads := (ts_threads st)[i := t]\<rparr>)
          (thread_turn (ts_threads st ! i) (ts_lock st) (ts_data st))
      else None)"

definition is_inside :: "('l, 's) thread \<Rightarrow> bool" where
  "is_inside t \<longleftrightarrow> (case th_place t of Inside _ \<Rightarrow> True | _ \<Rightarrow> False)"

text \<open>The thread gets the lock in its next turn.\<close>

definition enters :: "nat \<Rightarrow> ('l, 's) threads \<Rightarrow> bool" where
  "enters i st \<longleftrightarrow> (case th_place (ts_threads st ! i) of Spinning k \<Rightarrow> fst (spin_turn k (ts_lock st)) = None | _ \<Rightarrow> False)"

text \<open>A run along a schedule; it also returns the threads in the order in which they got the lock.\<close>

fun run :: "nat list \<Rightarrow> ('l, 's) threads \<Rightarrow> (nat list \<times> ('l, 's) threads) option" where
  "run [] st = Some ([], st)"
| "run (i # is) st =
     do { st' \<leftarrow> turn i st;
          (order, st'') \<leftarrow> run is st';
          Some (if enters i st then i # order else order, st'') }"

subsection \<open>Mutual exclusion\<close>

text \<open>The lock is 1 exactly while a thread is inside, and then only one is.\<close>

definition exclusive :: "('l, 's) threads \<Rightarrow> bool" where
  "exclusive st \<longleftrightarrow> (ts_lock st = 0 \<longleftrightarrow> (\<forall>t\<in>set (ts_threads st). \<not> is_inside t))
     \<and> (\<forall>i<length (ts_threads st). \<forall>j<length (ts_threads st). is_inside (ts_threads st ! i) \<longrightarrow> is_inside (ts_threads st ! j) \<longrightarrow> i = j)"

text \<open>All are outside and the lock is as \<open>pthread_spin_init\<close> leaves it.\<close>

definition at_start :: "('l, 's) threads \<Rightarrow> bool" where
  "at_start st \<longleftrightarrow> ts_lock st = snd (pthread_spin_init (ts_lock st) 2) \<and> (\<forall>t\<in>set (ts_threads st). th_place t = Outside)"

lemma exclusive_start: "at_start st \<Longrightarrow> exclusive st"
  by (auto simp: at_start_def exclusive_def is_inside_def pthread_spin_init_def)

lemma spin_turn_enters: "fst (spin_turn i lock) = None \<longleftrightarrow> i < 10000 \<and> lock = 0"
  by (simp add: spin_turn_def sync_bool_compare_and_swap_def)

text \<open>What a turn does to the lock and to the place of the thread.\<close>

lemma thread_turn_place:
  assumes "thread_turn t lock d = Some (t', lock', d')"
  shows "(\<exists>k. th_place t = Spinning k \<and> fst (spin_turn k lock) = None \<and> lock' = 1 \<and> is_inside t')
    \<or> (th_place t = Inside [] \<and> lock' = 0 \<and> \<not> is_inside t')
    \<or> ((\<forall>k. th_place t = Spinning k \<longrightarrow> fst (spin_turn k lock) \<noteq> None) \<and> th_place t \<noteq> Inside [] \<and> lock' = lock \<and> (is_inside t' \<longleftrightarrow> is_inside t))"
  using assms
  by (auto simp: thread_turn_def is_inside_def pthread_spin_unlock_def spin_turn_def sync_bool_compare_and_swap_def
      split: place.splits option.splits segment.splits list.splits if_splits)

lemma turn_exclusive:
  assumes "exclusive st" "turn i st = Some st'"
  shows "exclusive st'"
proof -
  let ?t = "ts_threads st ! i"
  obtain t' lock' d' where i: "i < length (ts_threads st)" and t': "thread_turn ?t (ts_lock st) (ts_data st) = Some (t', lock', d')"
    and st': "st' = st\<lparr>ts_lock := lock', ts_data := d', ts_threads := (ts_threads st)[i := t']\<rparr>"
    using assms(2) by (auto simp: turn_def split: if_splits)
  have lock: "ts_lock st = 0 \<longleftrightarrow> (\<forall>j<length (ts_threads st). \<not> is_inside (ts_threads st ! j))"
    and one: "\<And>j k. j < length (ts_threads st) \<Longrightarrow> k < length (ts_threads st) \<Longrightarrow> is_inside (ts_threads st ! j) \<Longrightarrow> is_inside (ts_threads st ! k) \<Longrightarrow> j = k"
    using assms(1) by (auto simp: exclusive_def all_set_conv_all_nth)
  have goal: "(lock' = 0 \<longleftrightarrow> (\<forall>j<length (ts_threads st). \<not> is_inside ((ts_threads st)[i := t'] ! j)))
      \<and> (\<forall>j<length (ts_threads st). \<forall>k<length (ts_threads st). is_inside ((ts_threads st)[i := t'] ! j) \<longrightarrow> is_inside ((ts_threads st)[i := t'] ! k) \<longrightarrow> j = k)"
    using thread_turn_place [OF t']
  proof (elim disjE exE conjE)
    fix k assume "fst (spin_turn k (ts_lock st)) = None" "lock' = 1" "is_inside t'"
    moreover from this have "\<forall>j<length (ts_threads st). \<not> is_inside (ts_threads st ! j)" using lock by (simp add: spin_turn_enters)
    ultimately show ?thesis using i by (auto simp: nth_list_update)
  next
    assume "th_place ?t = Inside []" "lock' = 0" "\<not> is_inside t'"
    moreover from this have "is_inside ?t" by (simp add: is_inside_def)
    then have "\<forall>j<length (ts_threads st). j \<noteq> i \<longrightarrow> \<not> is_inside (ts_threads st ! j)" using one i by blast
    ultimately have "\<not> is_inside ((ts_threads st)[i := t'] ! j)" if "j < length (ts_threads st)" for j
      using that by (cases "j = i") auto
    then show ?thesis using \<open>lock' = 0\<close> by blast
  next
    assume "lock' = ts_lock st" "is_inside t' \<longleftrightarrow> is_inside ?t"
    moreover have "is_inside ((ts_threads st)[i := t'] ! j) \<longleftrightarrow> is_inside (ts_threads st ! j)" if "j < length (ts_threads st)" for j
      using calculation(2) that by (cases "j = i") auto
    ultimately show ?thesis using lock one by simp
  qed
  then show ?thesis by (simp add: st' exclusive_def all_set_conv_all_nth)
qed

lemma run_exclusive: "run sched st = Some (order, st') \<Longrightarrow> exclusive st \<Longrightarrow> exclusive st'"
  by (induction sched arbitrary: st order) (auto split: bind_splits dest: turn_exclusive)

subsection \<open>Serial runs\<close>

text \<open>A thread runs a whole segment under the lock, undisturbed.\<close>

definition segment_turn :: "nat \<Rightarrow> ('l, 's) threads \<Rightarrow> ('l, 's) threads option" where
  "segment_turn i st =
     (let t = ts_threads st ! i in
      case (if i < length (ts_threads st) then th_program t (th_local t) else None) of
        Some (Locked actions) \<Rightarrow>
          map_option (\<lambda>(l, d). st\<lparr>ts_data := d, ts_threads := (ts_threads st)[i := t\<lparr>th_local := l\<rparr>]\<rparr>)
            (each (\<lambda>a. a) actions (th_local t, ts_data st))
      | _ \<Rightarrow> None)"

definition keeps_to_lock :: "('l, 's) thread \<Rightarrow> bool" where
  "keeps_to_lock t \<longleftrightarrow> (\<forall>l a. th_program t l \<noteq> Some (Unlocked a))"

text \<open>The state with every thread outside; and the same after thread \<open>i\<close> has come to the local state \<open>l\<close> and the data to \<open>d\<close>.\<close>

definition quiet :: "('l, 's) threads \<Rightarrow> ('l, 's) threads" where
  "quiet st = st\<lparr>ts_lock := 0, ts_threads := map (\<lambda>t. t\<lparr>th_place := Outside\<rparr>) (ts_threads st)\<rparr>"

definition quiet_at :: "('l, 's) threads \<Rightarrow> nat \<Rightarrow> 'l \<times> 's \<Rightarrow> ('l, 's) threads" where
  "quiet_at st i = (\<lambda>(l, d). quiet (st\<lparr>ts_data := d, ts_threads := (ts_threads st)[i := (ts_threads st ! i)\<lparr>th_local := l\<rparr>]\<rparr>))"

text \<open>What becomes of a state when the thread that is inside runs to its unlock.\<close>

definition settles :: "('l, 's) threads \<Rightarrow> ('l, 's) threads option \<Rightarrow> bool" where
  "settles st r \<longleftrightarrow> ((\<forall>t\<in>set (ts_threads st). \<not> is_inside t) \<and> r = Some (quiet st))
     \<or> (\<exists>i actions. i < length (ts_threads st) \<and> th_place (ts_threads st ! i) = Inside actions
          \<and> r = map_option (quiet_at st i) (each (\<lambda>a. a) actions (th_local (ts_threads st ! i), ts_data st)))"

lemma thread_turn_cases:
  assumes "thread_turn t lock d = Some (t', lock', d')" "keeps_to_lock t"
  obtains (enter) k actions where "th_place t = Spinning k" "fst (spin_turn k lock) = None"
      "th_program t (th_local t) = Some (Locked actions)" "t' = t\<lparr>th_place := Inside actions\<rparr>" "d' = d"
  | (leave) "th_place t = Inside []" "t' = t\<lparr>th_place := Outside\<rparr>" "d' = d"
  | (act) a actions l where "th_place t = Inside (a # actions)" "a (th_local t, d) = Some (l, d')"
      "t' = t\<lparr>th_place := Inside actions, th_local := l\<rparr>"
  | (spin) k where "\<not> is_inside t" "\<And>k. th_place t = Spinning k \<Longrightarrow> fst (spin_turn k lock) \<noteq> None" "t' = t\<lparr>th_place := Spinning k\<rparr>" "d' = d"
  using assms
  by (auto simp: thread_turn_def is_inside_def keeps_to_lock_def spin_turn_def sync_bool_compare_and_swap_def
      split: place.splits option.splits segment.splits list.splits if_splits)

lemma thread_updates: "t\<lparr>th_place := p, th_local := l\<rparr> = t\<lparr>th_local := l, th_place := p\<rparr>"
  by (rule thread.equality) simp_all

lemma map_same_update [simp]: "(map f xs)[i := f (xs ! i)] = map f xs"
  by (metis list_update_id map_update)

text \<open>A turn of thread \<open>i\<close>, as these states see it.\<close>

lemma quiet_turn:
  assumes "i < length (ts_threads st)"
    and "st' = st\<lparr>ts_lock := lock, ts_data := d, ts_threads := (ts_threads st)[i := (ts_threads st ! i)\<lparr>th_place := p, th_local := l\<rparr>]\<rparr>"
  shows "quiet st' = quiet_at st i (l, d)" "quiet_at st' i = quiet_at st i"
    "j \<noteq> i \<Longrightarrow> l = th_local (ts_threads st ! i) \<Longrightarrow> quiet_at st' j = quiet_at st j"
  using assms by (auto simp: quiet_def quiet_at_def map_update fun_eq_iff list_update_swap)

lemma quiet_at_same: "quiet_at st i (th_local (ts_threads st ! i), ts_data st) = quiet st"
  by (simp add: quiet_at_def)

lemma segment_turn_quiet:
  assumes "i < length (ts_threads st)" "th_program (ts_threads st ! i) (th_local (ts_threads st ! i)) = Some (Locked actions)"
  shows "segment_turn i (quiet st) = map_option (quiet_at st i) (each (\<lambda>a. a) actions (th_local (ts_threads st ! i), ts_data st))"
proof -
  have "(\<lambda>(l, d). (quiet st)\<lparr>ts_data := d, ts_threads := (ts_threads (quiet st))[i := (ts_threads (quiet st) ! i)\<lparr>th_local := l\<rparr>]\<rparr>) = quiet_at st i"
    using assms(1) by (auto simp: quiet_def quiet_at_def map_update fun_eq_iff thread_updates intro: threads.equality)
  moreover have "th_program (ts_threads (quiet st) ! i) (th_local (ts_threads (quiet st) ! i)) = Some (Locked actions)"
      "th_local (ts_threads (quiet st) ! i) = th_local (ts_threads st ! i)" "ts_data (quiet st) = ts_data st"
    using assms by (simp_all add: quiet_def)
  moreover have "i < length (ts_threads (quiet st))" using assms(1) by (simp add: quiet_def)
  ultimately show ?thesis by (simp add: segment_turn_def Let_def)
qed

lemma settles_inside:
  assumes "settles st r" "i < length (ts_threads st)" "th_place (ts_threads st ! i) = Inside actions"
    and "\<And>j. j < length (ts_threads st) \<Longrightarrow> is_inside (ts_threads st ! j) \<Longrightarrow> j = i"
  shows "r = map_option (quiet_at st i) (each (\<lambda>a. a) actions (th_local (ts_threads st ! i), ts_data st))"
  using assms(1) unfolding settles_def
proof (elim disjE exE conjE)
  assume "\<forall>t\<in>set (ts_threads st). \<not> is_inside t"
  then have "\<not> is_inside (ts_threads st ! i)" using assms(2) by simp
  then show ?thesis using assms(3) by (simp add: is_inside_def)
next
  fix j acts
  assume "j < length (ts_threads st)" "th_place (ts_threads st ! j) = Inside acts"
    "r = map_option (quiet_at st j) (each (\<lambda>a. a) acts (th_local (ts_threads st ! j), ts_data st))"
  moreover from this have "j = i" using assms(4) by (simp add: is_inside_def)
  ultimately show ?thesis using assms(3) by simp
qed

lemma turn_settles:
  assumes "exclusive st" "\<forall>t\<in>set (ts_threads st). keeps_to_lock t" "turn i st = Some st'" "settles st r"
  shows "settles st' (if enters i st then r \<bind> segment_turn i else r)"
proof -
  let ?t = "ts_threads st ! i"
  obtain t' lock' d' where i: "i < length (ts_threads st)" and t': "thread_turn ?t (ts_lock st) (ts_data st) = Some (t', lock', d')"
    and st': "st' = st\<lparr>ts_lock := lock', ts_data := d', ts_threads := (ts_threads st)[i := t']\<rparr>"
    using assms(3) by (auto simp: turn_def split: if_splits)
  have len: "length (ts_threads st') = length (ts_threads st)" and at_i: "ts_threads st' ! i = t'" using i by (simp_all add: st')
  have at_j: "ts_threads st' ! j = ts_threads st ! j" if "j \<noteq> i" for j using that by (simp add: st')
  have keeps: "keeps_to_lock ?t" using assms(2) i by simp
  have one: "\<And>j. j < length (ts_threads st) \<Longrightarrow> is_inside (ts_threads st ! j) \<Longrightarrow> is_inside ?t \<Longrightarrow> j = i"
    using assms(1) i by (auto simp: exclusive_def)
  from t' keeps show ?thesis
  proof (cases rule: thread_turn_cases)
    case (enter k actions)
    then have "ts_lock st = 0" by (simp add: spin_turn_enters)
    then have "\<forall>t\<in>set (ts_threads st). \<not> is_inside t" using assms(1) by (simp add: exclusive_def)
    then have r: "r = Some (quiet st)" using assms(4) by (auto simp: settles_def is_inside_def dest!: nth_mem)
    have "st' = st\<lparr>ts_lock := lock', ts_data := d', ts_threads := (ts_threads st)[i := ?t\<lparr>th_place := Inside actions, th_local := th_local ?t\<rparr>]\<rparr>"
      using enter(4) by (simp add: st')
    note same = quiet_turn(2) [OF i this]
    have "r \<bind> segment_turn i = map_option (quiet_at st' i) (each (\<lambda>a. a) actions (th_local (ts_threads st' ! i), ts_data st'))"
      unfolding same using r segment_turn_quiet [OF i enter(3)] enter(4,5) at_i by (simp add: st')
    moreover have "enters i st" using enter(1,2) by (simp add: enters_def)
    moreover have "th_place (ts_threads st' ! i) = Inside actions" using enter(4) at_i by simp
    ultimately show ?thesis using i len unfolding settles_def by auto
  next
    case leave
    have inside: "is_inside ?t" using leave(1) by (simp add: is_inside_def)
    have r: "r = Some (quiet st)"
      using settles_inside [OF assms(4) i leave(1)] one inside by (simp add: quiet_at_same)
    have "st' = st\<lparr>ts_lock := lock', ts_data := d', ts_threads := (ts_threads st)[i := ?t\<lparr>th_place := Outside, th_local := th_local ?t\<rparr>]\<rparr>"
      using leave(2) by (simp add: st')
    note same = quiet_turn(1) [OF i this]
    have q: "quiet st' = quiet st" unfolding same by (simp add: leave(3) quiet_at_same)
    have "\<not> is_inside (ts_threads st' ! j)" if "j < length (ts_threads st')" for j
    proof (cases "j = i")
      case True
      then show ?thesis using leave(2) at_i by (simp add: is_inside_def)
    next
      case False
      then show ?thesis using one [of j] that len inside at_j [OF False] by auto
    qed
    then have "\<forall>t\<in>set (ts_threads st'). \<not> is_inside t" unfolding all_set_conv_all_nth by blast
    moreover have "\<not> enters i st" using leave(1) by (simp add: enters_def)
    ultimately show ?thesis unfolding settles_def r q by simp
  next
    case (act a actions l)
    have inside: "is_inside ?t" using act(1) by (simp add: is_inside_def)
    have r: "r = map_option (quiet_at st i) (each (\<lambda>a. a) (a # actions) (th_local ?t, ts_data st))"
      using settles_inside [OF assms(4) i act(1)] one inside by simp
    have "st' = st\<lparr>ts_lock := lock', ts_data := d', ts_threads := (ts_threads st)[i := ?t\<lparr>th_place := Inside actions, th_local := l\<rparr>]\<rparr>"
      using act(3) by (simp add: st')
    note same = quiet_turn(2) [OF i this]
    have "r = map_option (quiet_at st' i) (each (\<lambda>a. a) actions (th_local (ts_threads st' ! i), ts_data st'))"
      unfolding same r using act(2,3) at_i by (simp add: st')
    moreover have "th_place (ts_threads st' ! i) = Inside actions" using act(3) at_i by simp
    moreover have "\<not> enters i st" using act(1) by (simp add: enters_def)
    ultimately show ?thesis using i len unfolding settles_def by auto
  next
    case (spin k)
    have st'': "st' = st\<lparr>ts_lock := lock', ts_data := d', ts_threads := (ts_threads st)[i := ?t\<lparr>th_place := Spinning k, th_local := th_local ?t\<rparr>]\<rparr>"
      using spin(3) by (simp add: st')
    have same: "quiet st' = quiet st" "\<And>j. j \<noteq> i \<Longrightarrow> quiet_at st' j = quiet_at st j" "ts_data st' = ts_data st"
      using quiet_turn [OF i st''] spin(4) by (simp_all add: quiet_at_same st')
    have out: "\<not> is_inside (ts_threads st' ! i)" using spin(3) at_i by (simp add: is_inside_def)
    have "\<not> enters i st" using spin(2) by (auto simp: enters_def split: place.split)
    moreover have "settles st' r"
      using assms(4) unfolding settles_def
    proof (elim disjE exE conjE)
      assume none: "\<forall>t\<in>set (ts_threads st). \<not> is_inside t" and r: "r = Some (quiet st)"
      have "\<not> is_inside (ts_threads st' ! j)" if "j < length (ts_threads st')" for j
        using that none out at_j len by (cases "j = i") auto
      then show "(\<forall>t\<in>set (ts_threads st'). \<not> is_inside t) \<and> r = Some (quiet st') \<or> (\<exists>i actions. i < length (ts_threads st')
          \<and> th_place (ts_threads st' ! i) = Inside actions
          \<and> r = map_option (quiet_at st' i) (each (\<lambda>a. a) actions (th_local (ts_threads st' ! i), ts_data st')))"
        using r same(1) by (auto simp: in_set_conv_nth)
    next
      fix j actions
      assume j: "j < length (ts_threads st)" "th_place (ts_threads st ! j) = Inside actions"
        and r: "r = map_option (quiet_at st j) (each (\<lambda>a. a) actions (th_local (ts_threads st ! j), ts_data st))"
      have "j \<noteq> i" using j(2) spin(1) by (auto simp: is_inside_def)
      then show "(\<forall>t\<in>set (ts_threads st'). \<not> is_inside t) \<and> r = Some (quiet st') \<or> (\<exists>i actions. i < length (ts_threads st')
          \<and> th_place (ts_threads st' ! i) = Inside actions
          \<and> r = map_option (quiet_at st' i) (each (\<lambda>a. a) actions (th_local (ts_threads st' ! i), ts_data st')))"
        using j r same(2,3) at_j len by auto
    qed
    ultimately show ?thesis by simp
  qed
qed

lemma thread_turn_program: "thread_turn t lock d = Some (t', lock', d') \<Longrightarrow> th_program t' = th_program t"
  by (auto simp: thread_turn_def split: place.splits option.splits segment.splits list.splits prod.splits)

lemma turn_programs: "turn i st = Some st' \<Longrightarrow> map th_program (ts_threads st') = map th_program (ts_threads st)"
  by (auto simp: turn_def map_update thread_turn_program split: if_splits)

lemma keeps_to_lock_programs: "(\<forall>t\<in>set ts. keeps_to_lock t) \<longleftrightarrow> (\<forall>p\<in>set (map th_program ts). \<forall>l a. p l \<noteq> Some (Unlocked a))"
  by (simp add: keeps_to_lock_def)

lemma run_settles:
  "run sched st = Some (order, st') \<Longrightarrow> exclusive st \<Longrightarrow> \<forall>t\<in>set (ts_threads st). keeps_to_lock t \<Longrightarrow> settles st r \<Longrightarrow>
    settles st' (r \<bind> each segment_turn order)"
proof (induction sched arbitrary: st order r)
  case Nil
  then show ?case by (cases r) simp_all
next
  case (Cons i sched)
  then obtain st1 order1 where turn: "turn i st = Some st1" and run: "run sched st1 = Some (order1, st')"
      and order: "order = (if enters i st then i # order1 else order1)"
    by (auto split: bind_splits)
  have keeps: "\<forall>t\<in>set (ts_threads st1). keeps_to_lock t" using Cons.prems(3) turn_programs [OF turn] by (simp only: keeps_to_lock_programs)
  have "settles st' ((if enters i st then r \<bind> segment_turn i else r) \<bind> each segment_turn order1)"
    by (rule Cons.IH [OF run turn_exclusive [OF Cons.prems(2) turn] keeps turn_settles [OF Cons.prems(2,3) turn Cons.prems(4)]])
  then show ?case by (cases r) (auto simp: order split: if_splits)
qed

lemma settles_start: "at_start st \<Longrightarrow> settles st (Some st)"
proof -
  assume start: "at_start st"
  then have "map (\<lambda>t. t\<lparr>th_place := Outside\<rparr>) (ts_threads st) = ts_threads st"
    by (auto simp: at_start_def intro!: map_idI thread.equality)
  then have "quiet st = st" using start by (simp add: quiet_def at_start_def pthread_spin_init_def)
  then show ?thesis using start by (auto simp: settles_def at_start_def is_inside_def)
qed

subsection \<open>Waiting\<close>

text \<open>A thread that spins has a segment under the lock before it.\<close>

definition waits_for_lock :: "('l, 's) thread \<Rightarrow> bool" where
  "waits_for_lock t \<longleftrightarrow> (\<forall>k. th_place t = Spinning k \<longrightarrow> (\<exists>actions. th_program t (th_local t) = Some (Locked actions)))"

lemma turn_waits:
  assumes "turn i st = Some st'" "\<forall>t\<in>set (ts_threads st). waits_for_lock t"
  shows "\<forall>t\<in>set (ts_threads st'). waits_for_lock t"
proof -
  have "waits_for_lock t'" if "thread_turn (ts_threads st ! i) (ts_lock st) (ts_data st) = Some (t', lock', d')" for t' lock' d'
    using that by (auto simp: thread_turn_def waits_for_lock_def split: place.splits option.splits segment.splits list.splits prod.splits)
  then show ?thesis
    using assms by (auto simp: turn_def split: if_splits dest!: set_update_subset_insert [THEN subsetD])
qed

lemma run_waits: "run sched st = Some (order, st') \<Longrightarrow> \<forall>t\<in>set (ts_threads st). waits_for_lock t \<Longrightarrow> \<forall>t\<in>set (ts_threads st'). waits_for_lock t"
  by (induction sched arbitrary: st order) (auto split: bind_splits dest: turn_waits)

lemma free_lock_entered:
  assumes "i < length (ts_threads st)" "waits_for_lock (ts_threads st ! i)" "th_place (ts_threads st ! i) = Spinning k" "ts_lock st = 0"
  shows "enters i st \<or> (\<exists>st'. turn i st = Some st' \<and> enters i st')"
proof (cases "k < 10000")
  case True
  then show ?thesis using assms(3,4) by (simp add: enters_def spin_turn_enters)
next
  case False
  obtain actions where "th_program (ts_threads st ! i) (th_local (ts_threads st ! i)) = Some (Locked actions)"
    using assms(2,3) by (auto simp: waits_for_lock_def)
  then have "turn i st = Some (st\<lparr>ts_lock := 0, ts_data := ts_data st, ts_threads := (ts_threads st)[i := (ts_threads st ! i)\<lparr>th_place := Spinning 0\<rparr>]\<rparr>)"
    using assms False by (simp add: turn_def thread_turn_def spin_turn_def)
  then show ?thesis using assms(1) by (auto simp: enters_def spin_turn_enters)
qed

text \<open>
  C24. With the spin locks of the shim, whatever the threads run and in whatever order their turns come, never are two of them inside, the
  lock is 0 exactly when none is, and a thread that waits for the lock while it is free gets it in one of its next two turns.
\<close>

theorem spin_lock_excludes:
  assumes "at_start st" "run sched st = Some (order, st')"
  shows "(\<forall>i<length (ts_threads st'). \<forall>j<length (ts_threads st'). is_inside (ts_threads st' ! i) \<longrightarrow> is_inside (ts_threads st' ! j) \<longrightarrow> i = j)
    \<and> (ts_lock st' = 0 \<longleftrightarrow> (\<forall>t\<in>set (ts_threads st'). \<not> is_inside t))
    \<and> (\<forall>i<length (ts_threads st'). \<forall>k. th_place (ts_threads st' ! i) = Spinning k \<longrightarrow> ts_lock st' = 0 \<longrightarrow>
         enters i st' \<or> (\<exists>st''. turn i st' = Some st'' \<and> enters i st''))"
proof -
  have "\<forall>t\<in>set (ts_threads st). waits_for_lock t" using assms(1) by (simp add: at_start_def waits_for_lock_def)
  then have "\<forall>t\<in>set (ts_threads st'). waits_for_lock t" by (rule run_waits [OF assms(2)])
  then show ?thesis
    using run_exclusive [OF assms(2) exclusive_start [OF assms(1)]] free_lock_entered [of _ st'] nth_mem [of _ "ts_threads st'"]
    unfolding exclusive_def by blast
qed

lemma locked_runs:
  assumes "at_start st" "\<forall>t\<in>set (ts_threads st). keeps_to_lock t" "run sched st = Some (order, st')" "\<forall>t\<in>set (ts_threads st'). \<not> is_inside t"
  shows "each segment_turn order st = Some (quiet st')"
proof -
  have "settles st' (Some st \<bind> each segment_turn order)"
    by (rule run_settles [OF assms(3) exclusive_start [OF assms(1)] assms(2) settles_start [OF assms(1)]])
  then show ?thesis using assms(4) nth_mem by (fastforce simp: settles_def is_inside_def)
qed

text \<open>
  Every run of threads that touch the data only under the lock gives what their segments give when they run whole, one after the
  other, in the order in which the threads got the lock.
\<close>

theorem locked_runs_are_serial:
  assumes "at_start st" "\<forall>t\<in>set (ts_threads st). keeps_to_lock t" "run sched st = Some (order, st')" "\<forall>t\<in>set (ts_threads st'). \<not> is_inside t"
  shows "each segment_turn order st = Some (quiet st')"
  by (rule locked_runs [OF assms])

text \<open>For the evaluation of runs: first the first turn.\<close>

lemma bind_weak_cong: "m = m' \<Longrightarrow> Option.bind m f = Option.bind m' f"
  by simp

lemmas turn_defs = turn_def thread_turn_def spin_turn_def sync_bool_compare_and_swap_def pthread_spin_unlock_def enters_def

text \<open>Two threads that read a number and write it back one greater.\<close>

definition sample_adder :: "(nat, nat) thread" where
  "sample_adder = \<lparr>th_program = (\<lambda>l. if l = 0 then Some (Locked [\<lambda>(l, d). Some (Suc d, d), \<lambda>(l, d). Some (l, l)]) else None),
     th_place = Outside, th_local = 0\<rparr>"

definition sample_adders :: "(nat, nat) threads" where
  "sample_adders = \<lparr>ts_lock = 0, ts_data = 0, ts_threads = [sample_adder, sample_adder]\<rparr>"

lemma sample_adders_start: "at_start sample_adders" "\<forall>t\<in>set (ts_threads sample_adders). keeps_to_lock t"
  by (simp_all add: at_start_def pthread_spin_init_def sample_adders_def sample_adder_def keeps_to_lock_def)

lemma spin_lock_excludes_witness:
  "\<exists>order st. run [0, 1, 0, 1] sample_adders = Some (order, st) \<and> is_inside (ts_threads st ! 0) \<and> \<not> is_inside (ts_threads st ! 1) \<and> ts_lock st \<noteq> 0"
proof -
  obtain order st where st: "run [0, 1, 0, 1] sample_adders = Some (order, st)" "is_inside (ts_threads st ! 0)" "length (ts_threads st) = 2"
    by (simp add: turn_defs sample_adders_def sample_adder_def is_inside_def)
  note facts = spin_lock_excludes [OF sample_adders_start(1) st(1)]
  have "\<not> is_inside (ts_threads st ! 1)"
  proof
    assume "is_inside (ts_threads st ! 1)"
    then have "(0 :: nat) = 1" using st(2,3) facts [THEN conjunct1, rule_format, of 0 1] by simp
    then show False by simp
  qed
  moreover have "ts_lock st \<noteq> 0" using facts [THEN conjunct2, THEN conjunct1] st(2,3) nth_mem [of 0 "ts_threads st"] by auto
  ultimately show ?thesis using st(1,2) by blast
qed

lemma locked_runs_are_serial_witness:
  "\<exists>order st. run [0, 1, 0, 1, 0, 1, 0, 0, 1, 1, 1, 1] sample_adders = Some (order, st)
     \<and> each segment_turn order sample_adders = Some (quiet st) \<and> ts_data st = 2"
proof -
  obtain order st where st: "run [0, 1, 0, 1, 0, 1, 0, 0, 1, 1, 1, 1] sample_adders = Some (order, st)"
      "\<forall>t\<in>set (ts_threads st). \<not> is_inside t" "ts_data st = 2"
    by (simp add: turn_defs sample_adders_def sample_adder_def is_inside_def)
  then show ?thesis using locked_runs_are_serial [OF sample_adders_start st(1,2)] by blast
qed

end
