(* ===== verification/ContainerThreads.thy ===== *)
theory ContainerThreads
  imports SpinLock HashContainer
begin

section \<open>Containers shared by threads\<close>

text \<open>
  The operations of \<open>hash_container.c\<close> as programs of threads, with what they do between \<open>pthread_spin_lock\<close> and \<open>pthread_spin_unlock\<close> and what they
  do outside. \<open>hash_add_ref\<close> holds the lock from its search to its end. \<open>hash_value\<close> and \<open>hash_delete\<close> let go of it between the search and the
  change; the last two properties say what can then happen. The local state of a call is the number of segments done, the element it has a
  pointer to, and its results.
\<close>

record 'v hash_call =
  hl_done :: nat
  hl_element :: "nat option"
  hl_data :: "'v option"
  hl_result :: bool

definition hash_call_start :: "'v hash_call" where
  "hash_call_start = \<lparr>hl_done = 0, hl_element = None, hl_data = None, hl_result = False\<rparr>"

type_synonym ('k, 'v) hash_program = "'v hash_call \<Rightarrow> ('v hash_call, ('k, 'v) hash_container) segment option"

definition hash_thread :: "('k, 'v) hash_program \<Rightarrow> ('v hash_call, ('k, 'v) hash_container) thread" where
  "hash_thread program = \<lparr>th_program = program, th_place = Outside, th_local = hash_call_start\<rparr>"

subsection \<open>The operations\<close>

text \<open>\<open>hash_add_ref\<close>: the search and the change are one segment.\<close>

definition add_search :: "'k \<Rightarrow> hash_add_mode \<Rightarrow> ('v hash_call, ('k, 'v) hash_container) action" where
  "add_search key mode = (\<lambda>(l, c).
     Some (l\<lparr>hl_element := (if mode \<noteq> HAM_NoCheck then map_option el_id (hash_find_el c key) else None)\<rparr>, c))"

definition add_change :: "'k \<Rightarrow> 'v \<Rightarrow> hash_add_mode \<Rightarrow> ('v hash_call, ('k, 'v) hash_container) action" where
  "add_change key data mode = (\<lambda>(l, c).
     Some (case hl_element l of
         Some i \<Rightarrow>
           if mode = HAM_FailIfExists then (l\<lparr>hl_done := 1, hl_result := False\<rparr>, c)
           else (l\<lparr>hl_done := 1, hl_result := True\<rparr>, hash_set_data i data c)
       | None \<Rightarrow> (l\<lparr>hl_done := 1, hl_element := Some (hc_next_id c), hl_result := True\<rparr>, hash_append key data c)))"

definition hash_add_ref_program :: "'k \<Rightarrow> 'v \<Rightarrow> hash_add_mode \<Rightarrow> ('k, 'v) hash_program" where
  "hash_add_ref_program key data mode l =
     (if hl_done l = 0 then Some (Locked [add_search key mode, add_change key data mode]) else None)"

text \<open>\<open>hash_value\<close>: the search of \<open>hash_find\<close>, then either the data of the element are read without the lock, or a new element is added.\<close>

definition find_element :: "'k \<Rightarrow> ('v hash_call, ('k, 'v) hash_container) action" where
  "find_element key = (\<lambda>(l, c). Some (l\<lparr>hl_done := 1, hl_element := map_option el_id (hash_find_el c key)\<rparr>, c))"

definition add_created :: "'k \<Rightarrow> ('v hash_call, ('k, 'v) hash_container) action" where
  "add_created key = (\<lambda>(l, c).
     Some (l\<lparr>hl_done := 2, hl_element := Some (hc_next_id c)\<rparr>, hash_append key (hc_make c key) c))"

definition read_data :: "('v hash_call, ('k, 'v) hash_container) action" where
  "read_data = (\<lambda>(l, c).
     case hl_element l of
       None \<Rightarrow> Some (l\<lparr>hl_done := 3\<rparr>, c)
     | Some i \<Rightarrow> map_option (\<lambda>e. (l\<lparr>hl_done := 3, hl_data := Some (el_data e)\<rparr>, c)) (hash_el_at c i))"

definition hash_value_program :: "'k \<Rightarrow> hash_value_mode \<Rightarrow> ('k, 'v) hash_program" where
  "hash_value_program key mode l =
     (if hl_done l = 0 then Some (Locked [find_element key])
      else if hl_done l = 1 then
        (if hl_element l = None \<and> mode = HVM_CreateIfNonExistant then Some (Locked [add_created key]) else Some (Unlocked read_data))
      else if hl_done l = 2 then Some (Unlocked read_data)
      else None)"

text \<open>\<open>hash_delete\<close>: the search, then \<open>hash_find\<close> and \<open>hash_it_inc\<close> read the pointers of the element and of the next one without the lock, then
  \<open>HASH_DEL\<close> is under it.\<close>

definition read_next :: "('v hash_call, ('k, 'v) hash_container) action" where
  "read_next = (\<lambda>(l, c).
     case hl_element l of
       None \<Rightarrow> Some (l\<lparr>hl_done := 3, hl_result := False\<rparr>, c)
     | Some i \<Rightarrow> do { hh_next c i; hash_it_inc c (it_at c i); Some (l\<lparr>hl_done := 2\<rparr>, c) })"

definition delete_element :: "('v hash_call, ('k, 'v) hash_container) action" where
  "delete_element = (\<lambda>(l, c).
     do { i \<leftarrow> hl_element l;
          hash_el_at c i;
          Some (l\<lparr>hl_done := 3, hl_result := True\<rparr>, hash_unlink i c) })"

definition hash_delete_program :: "'k \<Rightarrow> ('k, 'v) hash_program" where
  "hash_delete_program key l =
     (if hl_done l = 0 then Some (Locked [find_element key])
      else if hl_done l = 1 then Some (Unlocked read_next)
      else if hl_done l = 2 then Some (Locked [delete_element])
      else None)"

lemmas hash_actions = add_search_def add_change_def find_element_def add_created_def read_data_def read_next_def delete_element_def

subsection \<open>Adding under the lock\<close>

lemma add_ref_segment:
  "each (\<lambda>a. a) [add_search key mode, add_change key data mode] (l, c) =
     (let (added, existing, it, c') = hash_add_ref c key data mode
      in Some (l\<lparr>hl_done := 1, hl_element := it_current it, hl_result := added\<rparr>, c'))"
  by (cases "mode \<noteq> HAM_NoCheck"; cases "hash_find_el c key")
    (auto simp: hash_actions hash_add_ref_def it_at_def Let_def)

text \<open>The arguments of a call.\<close>

type_synonym ('k, 'v) add_call = "'k \<times> 'v \<times> hash_add_mode"

definition adding :: "('k, 'v) add_call \<Rightarrow> ('v hash_call, ('k, 'v) hash_container) thread" where
  "adding = (\<lambda>(key, data, mode). hash_thread (hash_add_ref_program key data mode))"

definition do_add :: "('k, 'v) add_call \<Rightarrow> ('k, 'v) hash_container \<Rightarrow> ('k, 'v) hash_container" where
  "do_add = (\<lambda>(key, data, mode) c. snd (snd (snd (hash_add_ref c key data mode))))"

lemma adding_turn:
  assumes "segment_turn i st = Some st'" "map th_program (ts_threads st) = map (\<lambda>(key, data, mode). hash_add_ref_program key data mode) calls"
  shows "map th_program (ts_threads st') = map th_program (ts_threads st)" "i < length calls" "ts_data st' = do_add (calls ! i) (ts_data st)"
proof -
  obtain key data mode where call: "calls ! i = (key, data, mode)" by (cases "calls ! i")
  have len: "length (ts_threads st) = length calls" using arg_cong [OF assms(2), of length] by simp
  have i: "i < length (ts_threads st)" using assms(1) by (auto simp: segment_turn_def Let_def split: if_splits)
  then show "i < length calls" using len by simp
  have "map th_program (ts_threads st) ! i = hash_add_ref_program key data mode" using assms(2) i len call by simp
  then have "th_program (ts_threads st ! i) = hash_add_ref_program key data mode" using i by simp
  then have st': "\<exists>l. st' = st\<lparr>ts_data := do_add (calls ! i) (ts_data st), ts_threads := (ts_threads st)[i := (ts_threads st ! i)\<lparr>th_local := l\<rparr>]\<rparr>"
    using assms(1) i
    by (auto simp: segment_turn_def Let_def hash_add_ref_program_def add_ref_segment do_add_def call simp del: each.simps
        split: if_splits prod.splits)
  then show "ts_data st' = do_add (calls ! i) (ts_data st)" by auto
  show "map th_program (ts_threads st') = map th_program (ts_threads st)" using st' by (auto simp: map_update)
qed

lemma adding_turns:
  "each segment_turn order st = Some st' \<Longrightarrow>
    map th_program (ts_threads st) = map (\<lambda>(key, data, mode). hash_add_ref_program key data mode) calls \<Longrightarrow>
    set order \<subseteq> {..<length calls} \<and> ts_data st' = fold (\<lambda>i. do_add (calls ! i)) order (ts_data st)"
proof (induction order arbitrary: st)
  case (Cons i order)
  then obtain st1 where st1: "segment_turn i st = Some st1" "each segment_turn order st1 = Some st'" by (auto split: bind_splits)
  note step = adding_turn [OF st1(1) Cons.prems(2)]
  have "map th_program (ts_threads st1) = map (\<lambda>(key, data, mode). hash_add_ref_program key data mode) calls" using step(1) Cons.prems(2) by simp
  then show ?case using Cons.IH [OF st1(2)] step(2,3) by simp
qed simp

lemma do_add_ok:
  assumes "hash_ok c" "snd (snd call) \<noteq> HAM_NoCheck"
  shows "hash_ok (do_add call c)"
proof -
  obtain key data mode where call: "call = (key, data, mode)" by (cases call)
  show ?thesis
  proof (cases "hash_find_el c key")
    case None
    moreover have "hash_ok (hash_append key data c)" using hash_append_ok [OF assms(1)] None hash_find_el_None [OF assms(1)] by simp
    ultimately show ?thesis by (simp add: call do_add_def hash_add_ref_def Let_def)
  next
    case (Some e)
    then show ?thesis using assms by (simp add: call do_add_def hash_add_ref_def Let_def hash_set_data_ok)
  qed
qed

lemma do_adds_ok:
  "hash_ok c \<Longrightarrow> set order \<subseteq> {..<length calls} \<Longrightarrow> \<forall>call\<in>set calls. snd (snd call) \<noteq> HAM_NoCheck \<Longrightarrow>
    hash_ok (fold (\<lambda>i. do_add (calls ! i)) order c)"
  by (induction order arbitrary: c) (simp_all add: do_add_ok)

lemma adding_start: "ts_lock st = 0 \<Longrightarrow> ts_threads st = map adding calls \<Longrightarrow> at_start st \<and> (\<forall>t\<in>set (ts_threads st). keeps_to_lock t)"
  by (auto simp: at_start_def pthread_spin_init_def adding_def hash_thread_def keeps_to_lock_def hash_add_ref_program_def split: if_splits)

text \<open>
  C25. Threads that call \<open>hash_add_ref\<close> on one container, with any keys and in any mode that checks for the key, leave it, whatever the order
  of their turns, as calls one after the other would in the order in which they got the lock, with no key in it twice.
\<close>

theorem concurrent_adds_serialise:
  assumes "ts_lock st = 0" "ts_threads st = map adding calls" "\<forall>call\<in>set calls. snd (snd call) \<noteq> HAM_NoCheck" "hash_ok (ts_data st)"
    and "run sched st = Some (order, st')" "\<forall>t\<in>set (ts_threads st'). \<not> is_inside t"
  shows "ts_data st' = fold (\<lambda>i. do_add (calls ! i)) order (ts_data st) \<and> hash_ok (ts_data st')"
proof -
  have start: "at_start st" "\<forall>t\<in>set (ts_threads st). keeps_to_lock t" using adding_start [OF assms(1,2)] by simp_all
  have "each segment_turn order st = Some (quiet st')" by (rule locked_runs [OF start assms(5,6)])
  moreover have "map th_program (ts_threads st) = map (\<lambda>(key, data, mode). hash_add_ref_program key data mode) calls"
    by (auto simp: assms(2) adding_def hash_thread_def)
  ultimately have "set order \<subseteq> {..<length calls} \<and> ts_data (quiet st') = fold (\<lambda>i. do_add (calls ! i)) order (ts_data st)"
    by (rule adding_turns)
  then show ?thesis using do_adds_ok [OF assms(4) _ assms(3)] by (simp add: quiet_def)
qed

lemma concurrent_adds_serialise_witness:
  "\<exists>order st. run [0, 1, 0, 1, 0, 0, 0, 1, 1, 1, 1] \<lparr>ts_lock = 0, ts_data = hash_create (\<lambda>_. 0),
       ts_threads = map adding [(7 :: nat, 1 :: nat, HAM_FailIfExists), (7, 2, HAM_FailIfExists)]\<rparr> = Some (order, st)
     \<and> hash_ok (ts_data st) \<and> ts_data st = hash_append 7 1 (hash_create (\<lambda>_. 0))"
proof -
  let ?calls = "[(7 :: nat, 1 :: nat, HAM_FailIfExists), (7, 2, HAM_FailIfExists)]"
  let ?st = "\<lparr>ts_lock = 0, ts_data = hash_create (\<lambda>_. 0), ts_threads = map adding ?calls\<rparr>"
  obtain order st where st: "run [0, 1, 0, 1, 0, 0, 0, 1, 1, 1, 1] ?st = Some (order, st)" "\<forall>t\<in>set (ts_threads st). \<not> is_inside t"
      "ts_data st = hash_append 7 1 (hash_create (\<lambda>_. 0))"
    by (simp add: turn_defs is_inside_def adding_def hash_thread_def hash_add_ref_program_def hash_call_start_def hash_actions
        hash_find_el_def hash_create_def hash_append_def)
  have "hash_ok (ts_data st)" by (rule concurrent_adds_serialise [of ?st ?calls, OF _ _ _ _ st(1,2), THEN conjunct2]) simp_all
  then show ?thesis using st(1,3) by blast
qed

subsection \<open>What is not under one lock\<close>

lemma id_after_None: "i \<notin> set js \<Longrightarrow> id_after js i = None"
  by (induction js) auto

lemma find_append: "find P (xs @ ys) = (case find P xs of None \<Rightarrow> find P ys | Some x \<Rightarrow> Some x)"
  by (induction xs) auto

lemma hash_el_at_kept: "hash_el_at c i = Some e \<Longrightarrow> hash_el_at (hash_append k v c) i = Some e"
  by (simp add: hash_el_at_def hash_append_def find_append)

lemma hash_el_at_appended: obtains e where "hash_el_at (hash_append k v c) (hc_next_id c) = Some e"
  by (cases "find (\<lambda>e. el_id e = hc_next_id c) (hc_els c)") (simp_all add: hash_el_at_def hash_append_def find_append)


text \<open>Two calls of \<open>hash_value\<close> that both search before either adds.\<close>

lemma concurrent_create_duplicates:
  assumes "hash_find_el c k = None"
  shows "\<exists>sched order st. run sched \<lparr>ts_lock = 0, ts_data = c,
       ts_threads = [hash_thread (hash_value_program k HVM_CreateIfNonExistant), hash_thread (hash_value_program k HVM_CreateIfNonExistant)]\<rparr> = Some (order, st)
     \<and> ts_data st = hash_append k (hc_make c k) (hash_append k (hc_make c k) c) \<and> \<not> hash_ok (ts_data st)
     \<and> (\<forall>t\<in>set (ts_threads st). th_place t = Outside \<and> th_program t (th_local t) = None)"
proof -
  let ?program = "hash_value_program k HVM_CreateIfNonExistant"
  let ?st = "\<lparr>ts_lock = 0, ts_data = c, ts_threads = [hash_thread ?program, hash_thread ?program]\<rparr>"
  let ?c1 = "hash_append k (hc_make c k) c"
  let ?c2 = "hash_append k (hc_make c k) ?c1"
  have same: "hc_make ?c1 = hc_make c" "hc_next_id ?c1 = Suc (hc_next_id c)" by (simp_all add: hash_append_def)
  obtain e1 where "hash_el_at ?c1 (hc_next_id c) = Some e1" by (rule hash_el_at_appended)
  then have "hash_el_at ?c2 (hc_next_id c) = Some e1" by (rule hash_el_at_kept)
  moreover obtain e2 where "hash_el_at ?c2 (Suc (hc_next_id c)) = Some e2" using hash_el_at_appended [of k "hc_make c k" ?c1] by (metis same(2))
  ultimately have els: "hash_el_at ?c2 (hc_next_id c) = Some e1" "hash_el_at ?c2 (Suc (hc_next_id c)) = Some e2" by simp_all
  have "\<exists>order st. run [0, 0, 0, 0, 1, 1, 1, 1, 0, 0, 0, 0, 1, 1, 1, 1, 0, 1] ?st = Some (order, st) \<and> ts_data st = ?c2
     \<and> (\<forall>t\<in>set (ts_threads st). th_place t = Outside \<and> th_program t (th_local t) = None)"
    by (simp add: assms same els turn_defs hash_thread_def hash_value_program_def hash_call_start_def hash_actions
        cong: bind_weak_cong)
  moreover have "\<not> hash_ok ?c2" by (simp add: hash_ok_def hash_append_def)
  ultimately show ?thesis by metis
qed

text \<open>Two calls of \<open>hash_delete\<close> that both search before either deletes.\<close>

lemma concurrent_delete_uses_freed:
  assumes "hash_ok c" "hash_find_el c k = Some e"
  shows "\<exists>sched order st. run sched \<lparr>ts_lock = 0, ts_data = c, ts_threads = [hash_thread (hash_delete_program k), hash_thread (hash_delete_program k)]\<rparr>
       = Some (order, st)
     \<and> th_program (ts_threads st ! 1) (th_local (ts_threads st ! 1)) = Some (Unlocked read_next) \<and> th_place (ts_threads st ! 1) = Outside
     \<and> hl_element (th_local (ts_threads st ! 1)) = Some (el_id e) \<and> hash_el_at (ts_data st) (el_id e) = None \<and> turn 1 st = None"
proof -
  let ?st = "\<lparr>ts_lock = 0, ts_data = c, ts_threads = [hash_thread (hash_delete_program k), hash_thread (hash_delete_program k)]\<rparr>"
  let ?c' = "hash_unlink (el_id e) c"
  have e: "e \<in> set (hc_els c)" using hash_find_el_Some [OF assms(2)] by simp
  obtain n where n: "hh_next c (el_id e) = Some n" using hh_next_mem [OF e] by blast
  obtain it where it: "hash_it_inc c (it_at c (el_id e)) = Some it"
    using hash_it_delete_at [OF assms(1) e] by (auto simp: hash_it_delete_value_def split: bind_splits)
  have out: "\<forall>x\<in>set (hc_els ?c'). el_id x \<noteq> el_id e" by (simp add: hash_unlink_def)
  then have "el_id e \<notin> set (map el_id (hc_els ?c'))" unfolding set_map by (metis imageE)
  then have freed: "hh_next ?c' (el_id e) = None" "hash_el_at ?c' (el_id e) = None"
    using out by (simp_all add: hh_next_def id_after_None hash_el_at_def find_None_iff)
  show ?thesis
    by (rule exI [of _ "[0, 0, 0, 0, 1, 1, 1, 1, 0, 0, 0, 0, 0]"])
      (simp add: assms(2) n it freed hash_el_at [OF assms(1) e] turn_defs hash_thread_def hash_delete_program_def hash_call_start_def
        hash_actions cong: bind_weak_cong)
qed

text \<open>
  C39. The two operations that give up the lock between their search and their change are not safe among threads. Two calls of \<open>hash_value\<close> that may create a
  missing key can both create it, which leaves the key in the container twice; of two calls of \<open>hash_delete\<close> for a key that is there, one can be left with the
  pointer to the element that the other has deleted and freed, and its next turn reads through it.
\<close>

theorem unlocked_gaps_break:
  assumes "hash_ok c"
  shows "(hash_find_el c k = None \<longrightarrow>
      (\<exists>sched order st. run sched \<lparr>ts_lock = 0, ts_data = c,
           ts_threads = [hash_thread (hash_value_program k HVM_CreateIfNonExistant), hash_thread (hash_value_program k HVM_CreateIfNonExistant)]\<rparr> = Some (order, st)
         \<and> ts_data st = hash_append k (hc_make c k) (hash_append k (hc_make c k) c) \<and> \<not> hash_ok (ts_data st)
         \<and> (\<forall>t\<in>set (ts_threads st). th_place t = Outside \<and> th_program t (th_local t) = None)))
    \<and> (\<forall>e. hash_find_el c k = Some e \<longrightarrow>
      (\<exists>sched order st. run sched \<lparr>ts_lock = 0, ts_data = c, ts_threads = [hash_thread (hash_delete_program k), hash_thread (hash_delete_program k)]\<rparr>
           = Some (order, st)
         \<and> th_program (ts_threads st ! 1) (th_local (ts_threads st ! 1)) = Some (Unlocked read_next) \<and> th_place (ts_threads st ! 1) = Outside
         \<and> hl_element (th_local (ts_threads st ! 1)) = Some (el_id e) \<and> hash_el_at (ts_data st) (el_id e) = None \<and> turn 1 st = None))"
  using concurrent_create_duplicates [of c k] concurrent_delete_uses_freed [OF assms, of k] by blast

lemma unlocked_gaps_break_witness:
  "(\<exists>sched order st. run sched \<lparr>ts_lock = 0, ts_data = hash_append (7 :: nat) True (hash_create (\<lambda>_. False)),
       ts_threads = [hash_thread (hash_value_program 8 HVM_CreateIfNonExistant), hash_thread (hash_value_program 8 HVM_CreateIfNonExistant)]\<rparr>
       = Some (order, st) \<and> \<not> hash_ok (ts_data st))
   \<and> (\<exists>sched order st. run sched \<lparr>ts_lock = 0, ts_data = hash_append (7 :: nat) True (hash_create (\<lambda>_. False)),
       ts_threads = [hash_thread (hash_delete_program 7), hash_thread (hash_delete_program 7)]\<rparr> = Some (order, st)
       \<and> hash_el_at (ts_data st) 0 = None \<and> turn 1 st = None)"
proof -
  let ?c = "hash_append (7 :: nat) True (hash_create (\<lambda>_. False))"
  have ok: "hash_ok ?c" by (rule hash_append_ok) (simp_all add: hash_map_def)
  have "hash_find_el ?c 8 = None" "hash_find_el ?c 7 = Some \<lparr>el_id = 0, el_key = 7, el_data = True\<rparr>"
    by (simp_all add: hash_find_el_def hash_append_def hash_create_def)
  note found = this
  show ?thesis
    using unlocked_gaps_break [OF ok, of 8, THEN conjunct1, rule_format, OF found(1)]
      unlocked_gaps_break [OF ok, of 7, THEN conjunct2, rule_format, OF found(2)] by auto
qed

end
