(* ===== verification/Spec2Isabelle.thy ===== *)
theory Spec2Isabelle
  imports CollectorProps Capture Dissection CircularBuffer PcapReader TsharkProcess InterfaceRegistry UthashRefine Utlist ContainerThreads
begin

text \<open>
Foren6 analyses a 6LoWPAN/RPL network from the packets that sniffers capture. Packets come in through the interface manager, which
  brings the clocks of several sniffers together and drops what was seen before; they go through a pcap stream to tshark, whose XML output comes back as
  fields of packets; the RPL parser collects the fields and, at the end of a packet, runs the collector; the
  collector updates the nodes, DODAGs, RPL instances and links, and a commit makes a new version of the network and calls the user interface back for
  each object that has changed. The theories follow the code, file by file, and keep its names.

  \<^bold>\<open>Shared\<close>
  \<^item> \<open>Prelude\<close>: machine words, failure as \<open>None\<close> with weakest preconditions (\<open>wp\<close>), loops over lists (\<open>each\<close>), heaps, bytes of words.
  \<^item> \<open>CString\<close>, \<open>Memory\<close>, \<open>TimeVal\<close>: what the sources use of \<open>string.h\<close> and \<open>stdlib.h\<close>, structures laid over bytes (locale \<open>member\<close>), \<open>struct timeval\<close>.

  \<^bold>\<open>The collected data\<close> (\<open>src/src/data_info\<close>)
  \<^item> \<open>Address\<close> (\<open>address.c\<close>), \<open>Metric\<close> (\<open>metric.c\<close>), \<open>Route\<close> (\<open>route.c\<close>), \<open>Sixlowpan\<close> (\<open>6lowpan_def.c\<close>), \<open>RplDef\<close> (\<open>rpl_def.c\<close>):
    addresses and prefixes bit by bit, routing tables with their contract, the records of messages and their differences.
  \<^item> \<open>HashContainer\<close> (\<open>hash_container.c\<close>): containers as the list of their elements in insertion order; \<open>hash_map\<close> and \<open>hash_items\<close> are what a client sees of one.
  \<^item> \<open>LinkedLists\<close>, \<open>Uthash\<close>, \<open>UthashRefine\<close> (\<open>uthash.h\<close>), \<open>Utlist\<close> (\<open>utlist.h\<close>): the macros under the containers and the lists, on pointers. \<open>represents\<close>
    relates a table of linked handles and buckets to a container, and every operation of the macros to the one on its list; \<open>ll_ok\<close> and \<open>dl_ok\<close> do this for linked lists.
    The other theories work on the lists.
  \<^item> \<open>SpinLock\<close> (\<open>pthread_spin_lock_shim.h\<close>), \<open>ContainerThreads\<close>: threads that take turns, the spin lock, and the operations on containers as programs of
    threads. What is done under the lock is serial; \<open>hash_value\<close> and \<open>hash_delete\<close> let go of it in between, and what then breaks. Elsewhere one thread runs.
  \<^item> \<open>Link\<close>, \<open>RplInstance\<close>, \<open>Dodag\<close>, \<open>Node\<close>: one object each, with its setters. A setter works on the object and the list of pending events;
    \<open>tracks\<close> says how the flag and the events change, \<open>reported\<close> that a change of the object is among them.
  \<^item> \<open>Family\<close>, \<open>RplData\<close> (\<open>rpl_data.c\<close>): the objects of a kind on a heap, in a working container and one container for each version, and the operations that reach several kinds.
    The record \<open>world\<close> holds all globals of the analyzer.

  \<^bold>\<open>Events and the collector\<close> (\<open>src/src/data_collector\<close>, \<open>src/src/rpl_packet_parser.c\<close>)
  \<^item> \<open>Events\<close>, \<open>EventCommit\<close> (\<open>rpl_event_callbacks.c\<close>), \<open>Collector\<close> (\<open>rpl_collector.c\<close>), \<open>Analyzer\<close>: pending events, the commit, the four kinds of packets,
    and runs of packets with operations of the user interface between them.
  \<^item> \<open>WorldInv\<close>, \<open>CollectorInv\<close>, \<open>Handlers\<close>, \<open>Versions\<close>, \<open>CommitInv\<close>: the invariant \<open>settled\<close> of the collected data (every reference leads to an object,
    every change has its event, the versions are complete) and the proofs that each handler and the commit keep it; \<open>Scenario\<close>: sample states.

  \<^item> \<open>CollectorSpec\<close>: what the collector knows as maps (\<open>net\<close>: links in use, routing tables, addresses), the effect of a DAO and of a data packet as functions
    on them, and the proofs that the handlers compute these; \<open>Membership\<close>: the same for the DODAG of each node; \<open>CollectorProps\<close>: the whole treatment of a packet, with the
    commit, refines these functions, and with one preferred parent no run leaves a node with two links in use.

  \<^bold>\<open>Parsing\<close> (\<open>src/src/packet_parsers\<close>, \<open>src/src/sniffer_packet_parser.c\<close>)
  \<^item> \<open>Parser\<close> (\<open>rpl_parser.c\<close>): the fields of a packet. The anonymous union is kept as bytes at the offsets of the x86-64 ABI, because a field of one kind of
    packet can be written before the kind is known.
  \<^item> \<open>Dissection\<close>: the fields that tshark writes for a packet, and the round trip (\<open>as_received\<close>: what becomes of the option of a DIS); \<open>ParserRegister\<close> (\<open>parser_register.c\<close>).
  \<^item> \<open>Sha1\<close>, \<open>Sha1Spec\<close> (\<open>sha1.c\<close>): the hash as the code computes it, and FIPS 180; \<open>RecentPackets\<close>: windows of recent packets (locale \<open>recent_window\<close>);
    \<open>Sniffer\<close>, \<open>Tool\<close>: duplicates, XML elements, captures, and the tool as a state machine.
  \<^item> \<open>TsharkProcess\<close>: the process of tshark, with the table of open descriptors, the two pipes, the child as it calls \<open>execvp\<close>, and the loop that reads
    its output. In runs of resets with any results of \<open>fork\<close> and \<open>fdopen\<close>, nothing leaks as long as resets succeed (\<open>process_ok\<close>), the reset refines the one of \<open>Sniffer\<close>, and a
    reset that fails can leave the process where every next one fails (\<open>process_stuck\<close>).

  \<^bold>\<open>Capturing\<close> (\<open>src/src/interface_reader\<close> and the rest of \<open>src/src\<close>)
  \<^item> \<open>Interfaces\<close>, \<open>Clocks\<close>, \<open>Capture\<close>, \<open>InterfaceRegistry\<close> (\<open>interfaces_mgr.c\<close>): instances on a heap with pointers to their parents, the clocks as trees
    (\<open>up\<close>), synchronisation, duplicates between sniffers; \<open>reachable\<close> are the states of the whole tool.
  \<^item> \<open>CircularBuffer\<close> (\<open>circular_buffer.c\<close>; locale \<open>bounded_queue\<close>), \<open>PcapReader\<close> (\<open>pcap_reader.c\<close>): the array of positions holds the chain of the packets
    (\<open>packet_chain\<close>) of any file; \<open>DescPoll\<close> (\<open>descriptor_poll.c\<close>): the table of descriptors and a round of the thread, for callbacks that mind their own slot (\<open>minds_own\<close>).

  \<^bold>\<open>Failure and bounds.\<close> \<open>None\<close> is a NULL or dangling pointer that is used, an access past an array or a failed \<open>assert\<close>. Versions of the network are numbered from 1
  in an \<open>int\<close>, so that runs of fewer than 2^31 packets are considered; messages to be hashed have fewer than 2^32 bytes and capture files fewer than 2^31. The fuel of
  \<open>hash_loop\<close> is the size of the container and one more, which is enough (\<open>hash_iteration_in_order\<close>). A hash table whose
  2^31 buckets would be doubled, or with 2^32 elements, is not considered (\<open>can_double\<close>). The loops over parents of an instance are partial functions, and are
  shown to end.

  \<^bold>\<open>Conventions.\<close> The host is little-endian; a \<open>double\<close> is a real number, and \<open>fl\<close> is the rounding of the machine; memory never runs out; \<open>time(NULL)\<close>
  is the field \<open>w_time\<close>. \<open>strtod\<close>, \<open>inet_pton\<close>, \<open>dlopen\<close>, \<open>select\<close>, \<open>fork\<close>, \<open>read\<close> and the functions of the interfaces are parameters or inputs.

  \<^bold>\<open>Not modelled\<close>: tshark, expat and libpcap behind the calls made of them, threads and locks other than those of the containers, the delivery of signals, debugging output, the getters that only return a
  field, and the macros of uthash and utlist that the program does not use: sorting, selecting, concatenating, circular lists, the bloom filter and the other
  hash functions.
\<close>

section \<open>The analyzer\<close>

text \<open>
  C1. Starting from \<open>rpl_tool_init\<close>, no sequence of packets and user operations makes the analyzer
  dereference NULL or freed memory, run past the array of network versions, fail an assertion or
  loop for ever, whatever the packets hold, as long as there are fewer than 2^31 packets and the
  data are not cleared between a change made by the user and the next packet; and the state that
  is reached satisfies the invariant.
\<close>

theorem analyzer_never_fails:
  assumes "clears_idle False ops" "packets ops < 2 ^ 31"
  shows "\<exists>w. analyzer_run ops (rpl_tool_init fl) = Some w \<and> settled w"
proof -
  have "wp (analyzer_run ops (rpl_tool_init fl)) settled"
    by (rule analyzer_runs [of _ False]) (use assms in \<open>simp_all add: rpl_tool_init_settled\<close>)
  then show ?thesis by (simp add: wp_def)
qed

theorem analyzer_never_fails_witness:
  "\<exists>w. analyzer_run sample_ops sample_start = Some w \<and> settled w"
  by (rule analyzer_never_fails) simp_all

text \<open>
  C4. A commit succeeds in every state that satisfies the invariant and that has made fewer than
  2^31 - 1 network versions; it reports a change exactly when an object has a pending event, makes
  a network version in that case only, leaves no event pending, and keeps the invariant.
\<close>

theorem commit_settles:
  assumes "world_ok w" "history_ok w" "unat (w_wsn_last_version w) + 1 < 2 ^ 31"
  shows "\<exists>changed w'. rpl_event_commit_changed_objects packet_id timestamp w = Some (changed, w') \<and> settled w'
    \<and> w_head w' = [] \<and> (changed \<longleftrightarrow> (\<exists>ev\<in>set (w_head w). object_event ev))
    \<and> w_wsn_last_version w' = (if changed then w_wsn_last_version w + 1 else w_wsn_last_version w)"
  using commit_succeeds [OF assms(1,3), of packet_id timestamp] assms(2)
  by (auto simp: wp_def commit_result_def settled_def)

theorem commit_settles_witness:
  "\<exists>changed w'. rpl_event_commit_changed_objects 7 3 sample_created = Some (changed, w') \<and> settled w'
    \<and> w_head w' = [] \<and> (changed \<longleftrightarrow> (\<exists>ev\<in>set (w_head sample_created). object_event ev))
    \<and> w_wsn_last_version w' = (if changed then w_wsn_last_version sample_created + 1 else w_wsn_last_version sample_created)"
  by (rule commit_settles) (simp_all add: sample_created_result)

text \<open>
  C5. A commit delivers each pending event once, in the order in which the events were recorded,
  with the object of the new version, or of the version before for a deletion, to the callback
  of its kind if there is one.
\<close>

theorem commit_delivers_in_order:
  assumes "world_ok w" "unat (w_wsn_last_version w) + 1 < 2 ^ 31"
    and "rpl_event_commit_changed_objects packet_id timestamp w = Some (changed, w')"
  shows "w_out w' = w_out w @ concat (map (event_delivery w w') (w_head w))"
  using commit_succeeds [OF assms(1,2), of packet_id timestamp] assms(3) by (simp add: commit_result_def)

theorem commit_delivers_in_order_witness:
  "w_out sample_committed = w_out sample_created
     @ concat (map (event_delivery sample_created sample_committed) (w_head sample_created))"
  by (rule commit_delivers_in_order [OF _ _ sample_committed_result(1)]) (simp_all add: sample_created_result)

text \<open>
  C6. A commit does not rewrite history: every node, DODAG, RPL instance and link of a network
  version made before reads the same afterwards.
\<close>

theorem commit_keeps_history:
  assumes "world_ok w" "history_ok w" "unat (w_wsn_last_version w) + 1 < 2 ^ 31"
    and "rpl_event_commit_changed_objects packet_id timestamp w = Some (changed, w')"
    and "0 < v" "v \<le> w_wsn_last_version w"
  shows "node_at v nr w' = node_at v nr w \<and> dodag_at v dr w' = dodag_at v dr w
    \<and> rpl_instance_at v ir w' = rpl_instance_at v ir w \<and> link_at v lr w' = link_at v lr w"
proof -
  have "commit_result packet_id timestamp w changed w'"
    using commit_succeeds [OF assms(1,3), of packet_id timestamp] assms(4) by simp
  then show ?thesis using commit_keeps_versions [OF assms(1,2) _ assms(5,6,3)] by blast
qed

theorem commit_keeps_history_witness:
  "\<exists>changed w'. rpl_event_commit_changed_objects 8 4 sample_committed = Some (changed, w')
     \<and> node_at 1 (node_ref_init 1) w' = node_at 1 (node_ref_init 1) sample_committed"
proof -
  have ok: "world_ok sample_committed" "history_ok sample_committed"
    using sample_committed_result(4) by (simp_all add: settled_def)
  obtain changed w' where c: "rpl_event_commit_changed_objects 8 4 sample_committed = Some (changed, w')"
    using commit_succeeds [OF ok(1), of 8 4] by (auto simp: sample_committed_result wp_def)
  then have "node_at 1 (node_ref_init 1) w' = node_at 1 (node_ref_init 1) sample_committed"
    using commit_keeps_history [OF ok _ c, of 1 "node_ref_init 1"] by (simp add: sample_committed_result)
  with c show ?thesis by blast
qed

text \<open>
  C36. When the data are cleared while the event of some object is still pending, the next commit
  fails: \<open>rpldata_clear\<close> leaves the list of pending events as it is, and the object of the event is
  looked up in a version that does not have it.
\<close>

theorem clear_with_pending_events_fails:
  assumes "world_ok w" "ev \<in> set (w_head w)" "object_event ev"
  shows "\<exists>w'. rpldata_clear w = Some w' \<and> rpl_event_commit_changed_objects packet_id timestamp w' = None"
  using rpldata_clear_emptied [OF assms(1)] emptied_commit_fails [of _ ev] assms(2,3) by (auto simp: wp_def)

theorem clear_with_pending_events_fails_witness:
  "\<exists>w'. rpldata_clear sample_created = Some w' \<and> rpl_event_commit_changed_objects 8 4 w' = None"
  by (rule clear_with_pending_events_fails [of _ "ROT_Node RET_Created (node_ref_init 1)"])
    (simp_all add: sample_created_result)

text \<open>
  C2. The whole tool is safe: from the state after \<open>rpl_tool_start\<close>, every operation whose guard holds succeeds, whatever the XML, the
  packets and their times are, and leads to a reachable state again.
\<close>

theorem tool_never_fails:
  assumes "reachable lib fl sys" "sys_allowed op sys"
  shows "\<exists>sys'. sys_step op sys = Some sys' \<and> reachable lib fl sys'"
proof -
  obtain m s where sys: "sys = (m, s)" by (cases sys)
  then have "wp (sys_step op (m, s)) (\<lambda>(m', s'). ifmgr_ok m' \<and> tool_ok lib s')"
    using reachable_ok assms sys_step_ok by blast
  then obtain sys' where "sys_step op sys = Some sys'" unfolding sys by (auto simp: wp_def)
  then show ?thesis using reachable_step [OF assms] by blast
qed

theorem tool_never_fails_witness:
  "\<exists>sys'. sys_step (new_instance ''/dev/ttyUSB0'') (ifmgr_init, tool_started sample_libc (\<lambda>x. x)) = Some sys' \<and> reachable sample_libc (\<lambda>x. x) sys'"
  by (rule tool_never_fails [OF reachable_start]) simp

text \<open>
  C3. In every reachable state the clocks of the instances form trees whose roots are counted, no instance is in the list twice, the
  absolute time of every packet is defined, and the collected data satisfy their invariant.
\<close>

theorem reachable_states_consistent:
  assumes "reachable lib fl (m, s)"
  shows "distinct (im_handles m) \<and> set (im_handles m) = dom (insts m) \<and> im_number_of_timebase m = of_nat (card (roots (insts m)))
    \<and> (\<forall>p\<in>set (im_handles m). interfacemgr_get_absolute_timestamp p t m \<noteq> None) \<and> settled (ps_world (sn_parsing s))"
proof -
  have ok: "ifmgr_ok m" "tool_ok lib s" using reachable_ok [OF assms] by simp_all
  have "interfacemgr_get_absolute_timestamp p t m \<noteq> None" if "p \<in> set (im_handles m)" for p
    using handle_tree [OF ok(1) that] absolute_from_up by (fastforce simp: interfacemgr_get_absolute_timestamp_def)
  then show ?thesis using ok ifmgr_okD(2,3,5) [OF ok(1)] by (simp add: tool_ok_def)
qed

theorem reachable_states_consistent_witness:
  "settled (ps_world (sn_parsing (tool_started sample_libc (\<lambda>x. x))))"
  using reachable_states_consistent [OF reachable_start] by blast

text \<open>
  \<open>links_clear_all_deprecated\<close> takes exactly the deprecated links out of the working version, frees none of them and leaves every
  link as it was, so that the older versions keep theirs.
\<close>

theorem deprecated_links_cleared:
  assumes "settled w"
  shows "\<exists>w'. links_clear_all_deprecated w = Some w' \<and> settled w' \<and> deprecated_removed w w'"
  using links_clear_all_deprecated_result [OF assms] by (auto simp: wp_def)

theorem deprecated_links_cleared_witness:
  "\<exists>w'. links_clear_all_deprecated sample_start = Some w' \<and> deprecated_removed sample_start w'"
  using deprecated_links_cleared [OF rpl_tool_init_settled(1)] by blast

end
